(* ===== verification/Prelude.thy ===== *)
theory Prelude
  imports Main "HOL-Library.Word"
begin

text \<open>
  What every component theory shares: the C integer types as fixed-width words, the
  lemma collections the proofs use, equality of words bit by bit, generic facts on lists
  that stand for C arrays, and the transition-system contract (\<open>invariant_system\<close>) under
  which the stateful components prove that an invariant holds in every reachable state.
\<close>

unbundle bit_operations_syntax

section \<open>C integers\<close>

type_synonym u8 = "8 word"
type_synonym u16 = "16 word"
type_synonym u32 = "32 word"
type_synonym u64 = "64 word"

abbreviation u8_of :: "'a::len word \<Rightarrow> u8" where "u8_of \<equiv> ucast"
abbreviation u16_of :: "'a::len word \<Rightarrow> u16" where "u16_of \<equiv> ucast"
abbreviation u32_of :: "'a::len word \<Rightarrow> u32" where "u32_of \<equiv> ucast"
abbreviation u64_of :: "'a::len word \<Rightarrow> u64" where "u64_of \<equiv> ucast"

text \<open>\<open>x << n\<close> and \<open>x >> n\<close> of an unsigned C integer.\<close>

abbreviation shl :: "'a::len word \<Rightarrow> nat \<Rightarrow> 'a word" where "shl x n \<equiv> push_bit n x"
abbreviation shr :: "'a::len word \<Rightarrow> nat \<Rightarrow> 'a word" where "shr x n \<equiv> drop_bit n x"

section \<open>Lemma collections\<close>

named_theorems wf_intro \<open>preservation of the well-formedness invariants\<close>
named_theorems op_defs \<open>definitions of the operations\<close>

section \<open>Words bit by bit\<close>

lemma all_less_numeral:
  "(\<forall>n<numeral k. P n) \<longleftrightarrow> P (pred_numeral k) \<and> (\<forall>n<pred_numeral k. P n)"
  unfolding numeral_eq_Suc by (auto simp: less_Suc_eq)

lemma all_less_one: "(\<forall>n<Suc 0. P n) \<longleftrightarrow> P 0"
  by auto

lemma word_eq_bits:
  "(x :: 'a::len word) = y \<longleftrightarrow> (\<forall>n<LENGTH('a). bit x n = bit y n)"
  by (auto simp: bit_eq_iff dest: bit_imp_le_length)

text \<open>
  Two words of a known length are equal when each of their bits is: \<open>word_bits_simps\<close>
  splits an equation of words into one equation per bit and computes the bits of
  numerals, shifts, masks and casts.
\<close>

text \<open>A word below \<open>2 ^ k\<close> has no bit from \<open>k\<close> on; \<open>nat\<close> bounds are read as word bounds.\<close>

lemma bit_above_bound:
  fixes w :: "'a::len word"
  assumes "w < 2 ^ k" and "k \<le> n"
  shows "\<not> bit w n"
proof (cases "k < LENGTH('a)")
  case True
  with assms(1) have "w AND mask k = w" by (intro less_mask_eq) simp_all
  then have "take_bit k w = w" by (simp add: take_bit_eq_mask)
  then have "bit w n = bit (take_bit k w) n" by simp
  with assms(2) show ?thesis by (simp add: bit_take_bit_iff)
next
  case False
  with assms(2) show ?thesis by (auto dest: bit_imp_le_length)
qed

lemma bit_beyond_length: "LENGTH('a) \<le> n \<Longrightarrow> \<not> bit (w :: 'a::len word) n"
  by (auto dest: bit_imp_le_length)

lemma unat_of_nat_less:
  "k < 2 ^ LENGTH('a) \<Longrightarrow> unat (word_of_nat k :: 'a::len word) = k"
  by (simp add: unsigned_of_nat take_bit_nat_eq_self)

lemma Suc_Suc_0: "Suc (Suc 0) = 2"
  by simp

lemmas word_bits_simps = Suc_Suc_0 bit_beyond_length word_eq_bits all_less_numeral all_less_one bit_simps

section \<open>Lists as C arrays\<close>

lemma take_Suc_update: "n < length xs \<Longrightarrow> take (Suc n) (xs[n := x]) = take n xs @ [x]"
  by (simp add: take_Suc_conv_app_nth)

lemma find_upt_Some:
  "find P [0..<n] = Some i \<longleftrightarrow> i < n \<and> P i \<and> (\<forall>j<i. \<not> P j)"
proof -
  have "find P [0..<n] = Some i \<longleftrightarrow>
      (\<exists>k<length [0..<n]. P ([0..<n] ! k) \<and> i = [0..<n] ! k \<and> (\<forall>j<k. \<not> P ([0..<n] ! j)))"
    by (rule find_Some_iff)
  then show ?thesis by (auto simp: nth_upt)
qed

lemma find_upt_None: "find P [0..<n] = None \<longleftrightarrow> (\<forall>i<n. \<not> P i)"
  by (auto simp: find_None_iff)

lemma filter_length_update:
  assumes "i < length xs"
  shows "length (filter P (xs[i := x])) + (if P (xs ! i) then 1 else 0) =
         length (filter P xs) + (if P x then 1 else 0)"
  using assms
proof (induction xs arbitrary: i)
  case (Cons a xs)
  then show ?case by (cases i) (force dest: Cons.IH)+
qed simp

section \<open>Invariants of transition systems\<close>

text \<open>
  A component whose operations keep an invariant: the contract under which the invariant
  holds after every sequence of operations from an initial state.
\<close>

locale invariant_system =
  fixes init :: "'s \<Rightarrow> bool"
    and step :: "'e \<Rightarrow> 's \<Rightarrow> 's"
    and inv :: "'s \<Rightarrow> bool"
  assumes inv_init: "init s \<Longrightarrow> inv s"
    and inv_step: "inv s \<Longrightarrow> inv (step e s)"
begin

lemma inv_run: "inv s \<Longrightarrow> inv (fold step es s)"
  by (induction es arbitrary: s) (auto intro: inv_step)

lemma inv_reachable: "init s \<Longrightarrow> inv (fold step es s)"
  by (auto intro: inv_run inv_init)

end

end
