(* ===== verification/Packet.thy ===== *)
theory Packet
  imports Prelude
begin

text \<open>
  DCC packets: \<^verbatim>\<open>src/src/dcc/packet.h\<close> and \<^verbatim>\<open>packet.c\<close>. The static pool of packets and its
  allocator, the byte buffer of one packet, the checksum and the word encoding for the PIO
  wave generator, and the packet builders (programming on the main, consist control,
  accessories, service mode).

  A \<open>dcc_packet_t *\<close> is an index into the pool. The \<open>uint8_t len\<close> of a packet never
  passes 6 and is a natural number; \<open>int8_t repeats\<close> is an integer that the code only
  copies and counts down to 0. The pool mutex makes each pool operation one atomic step.
\<close>

section \<open>Data\<close>

definition MAX_PACKET_DATA :: nat where "MAX_PACKET_DATA = 6"
declare MAX_PACKET_DATA_def [simp]

definition PACKET_POOL_SIZE :: nat where "PACKET_POOL_SIZE = 80"
definition BROADCAST_ADDRESS :: u16 where "BROADCAST_ADDRESS = 0xFFFF"

datatype dcc_priority =
  PRIORITY_BEST_EFFORT | PRIORITY_LOW | PRIORITY_NORMAL | PRIORITY_HIGH | PRIORITY_EMERGENCY

fun priority_value :: "dcc_priority \<Rightarrow> int" where
  "priority_value PRIORITY_BEST_EFFORT = 0"
| "priority_value PRIORITY_LOW = 25"
| "priority_value PRIORITY_NORMAL = 50"
| "priority_value PRIORITY_HIGH = 75"
| "priority_value PRIORITY_EMERGENCY = 100"

text \<open>The C code compares the enumerators by value, so the type is linearly ordered by it.\<close>

lemma priority_value_inject: "priority_value a = priority_value b \<longleftrightarrow> a = b"
  by (cases a; cases b) auto

instantiation dcc_priority :: linorder
begin

definition less_eq_dcc_priority :: "dcc_priority \<Rightarrow> dcc_priority \<Rightarrow> bool" where
  "less_eq_dcc_priority a b \<longleftrightarrow> priority_value a \<le> priority_value b"

definition less_dcc_priority :: "dcc_priority \<Rightarrow> dcc_priority \<Rightarrow> bool" where
  "less_dcc_priority a b \<longleftrightarrow> priority_value a < priority_value b"

instance
  by standard
    (auto simp: less_eq_dcc_priority_def less_dcc_priority_def priority_value_inject)

end

record dcc_packet =
  pkt_data :: "u8 list"
  pkt_len :: nat
  pkt_address :: u16
  pkt_priority :: dcc_priority
  pkt_repeats :: int
  pkt_in_use :: bool

type_synonym pool = "dcc_packet list"
type_synonym pkt_ptr = nat

text \<open>The bytes a packet holds.\<close>

abbreviation pkt_bytes :: "dcc_packet \<Rightarrow> u8 list" where
  "pkt_bytes p \<equiv> take (pkt_len p) (pkt_data p)"

section \<open>The pool\<close>

definition zero_packet :: dcc_packet where
  "zero_packet = \<lparr>pkt_data = replicate MAX_PACKET_DATA 0, pkt_len = 0, pkt_address = 0,
     pkt_priority = PRIORITY_BEST_EFFORT, pkt_repeats = 0, pkt_in_use = False\<rparr>"

definition packet_pool_init :: pool where
  "packet_pool_init = replicate PACKET_POOL_SIZE zero_packet"

definition packet_alloc :: "pool \<Rightarrow> pool \<times> pkt_ptr option" where
  "packet_alloc pl =
     (case find (\<lambda>i. \<not> pkt_in_use (pl ! i)) [0..<length pl] of
        Some i \<Rightarrow>
          (pl[i := (pl ! i)\<lparr>pkt_in_use := True, pkt_len := 0, pkt_address := 0,
                            pkt_priority := PRIORITY_NORMAL, pkt_repeats := 0\<rparr>], Some i)
      | None \<Rightarrow> (pl, None))"

definition packet_free :: "pool \<Rightarrow> pkt_ptr option \<Rightarrow> pool" where
  "packet_free pl p = (case p of None \<Rightarrow> pl | Some i \<Rightarrow> pl[i := (pl ! i)\<lparr>pkt_in_use := False\<rparr>])"

section \<open>Filling a packet\<close>

definition packet_reset :: "dcc_packet \<Rightarrow> dcc_packet" where
  "packet_reset p = p\<lparr>pkt_len := 0, pkt_address := 0, pkt_priority := PRIORITY_NORMAL,
     pkt_repeats := 0\<rparr>"

text \<open>\<open>memcpy\<close> of the bytes over the start of the buffer.\<close>

definition packet_fill ::
  "dcc_packet \<Rightarrow> u8 list \<Rightarrow> nat \<Rightarrow> u16 \<Rightarrow> dcc_priority \<Rightarrow> int \<Rightarrow> dcc_packet" where
  "packet_fill p bs n address priority repeats =
     (let n = (if n > MAX_PACKET_DATA - 1 then MAX_PACKET_DATA - 1 else n)
      in p\<lparr>pkt_data := take n bs @ drop n (pkt_data p), pkt_len := n, pkt_address := address,
           pkt_priority := priority, pkt_repeats := repeats\<rparr>)"

definition packet_add_byte :: "u8 \<Rightarrow> dcc_packet \<Rightarrow> dcc_packet" where
  "packet_add_byte b p =
     (if pkt_len p < MAX_PACKET_DATA - 1
      then p\<lparr>pkt_data := (pkt_data p)[pkt_len p := b], pkt_len := pkt_len p + 1\<rparr>
      else p)"

definition packet_is_invalid :: "dcc_packet \<Rightarrow> bool" where
  "packet_is_invalid p \<longleftrightarrow> pkt_len p = 0"

definition packet_make_idle :: "dcc_packet \<Rightarrow> dcc_packet" where
  "packet_make_idle p = packet_fill p [0xFF, 0x00] 2 BROADCAST_ADDRESS PRIORITY_BEST_EFFORT 0"

section \<open>Checksum and word encoding\<close>

text \<open>
  The checksum is stored at \<open>data[len]\<close>. The buffer has six bytes, so with six bytes in
  the packet already the C code would write past it: \<open>None\<close>.
\<close>

definition xor_bytes :: "u8 list \<Rightarrow> u8" where
  "xor_bytes bs = fold (\<lambda>b c. c XOR b) bs 0"

definition packet_add_checksum :: "dcc_packet \<Rightarrow> dcc_packet option" where
  "packet_add_checksum p =
     (if pkt_len p = 0 then Some p
      else if pkt_len p \<ge> MAX_PACKET_DATA then None
      else Some (p\<lparr>pkt_data := (pkt_data p)[pkt_len p := xor_bytes (pkt_bytes p)],
                   pkt_len := pkt_len p + 1\<rparr>))"

text \<open>
  The packing loop of \<open>packet_encode\<close>: \<open>word\<close> collects bytes from the high positions
  down, \<open>shift\<close> is the position of the next byte, and a full word is flushed. The last
  equation is the flush of a partial word after the loop.
\<close>

fun encode_loop :: "u8 list \<Rightarrow> u32 \<Rightarrow> int \<Rightarrow> u32 list" where
  "encode_loop (b # bs) word shift =
     (let word = word OR shl (u32_of b) (nat (8 * shift)); shift = shift - 1
      in if shift < 0 then word # encode_loop bs 0 3 else encode_loop bs word shift)"
| "encode_loop [] word shift = (if shift < 3 then [word] else [])"

text \<open>\<open>packet_encode\<close> changes the packet (the checksum) and returns the words.\<close>

definition packet_encode :: "dcc_packet \<Rightarrow> (dcc_packet \<times> u32 list) option" where
  "packet_encode p =
     (if pkt_len p = 0 then Some (p, [])
      else case packet_add_checksum p of
             None \<Rightarrow> None
           | Some p' \<Rightarrow>
               Some (p', encode_loop (pkt_bytes p') (shl (u32_of (word_of_nat (pkt_len p') :: u8)) 24) 2))"

section \<open>Packet builders\<close>

definition SHORT_ADDRESS_MAX_PKT :: u16 where "SHORT_ADDRESS_MAX_PKT = 127"

definition add_address :: "u16 \<Rightarrow> bool \<Rightarrow> dcc_packet \<Rightarrow> dcc_packet" where
  "add_address address is_long p =
     (if is_long \<or> address > SHORT_ADDRESS_MAX_PKT
      then packet_add_byte (u8_of address)
             (packet_add_byte (0xC0 OR u8_of (shr address 8 AND 0x3F)) p)
      else packet_add_byte (u8_of address) p)"

definition packet_start_ops :: "u16 \<Rightarrow> bool \<Rightarrow> int \<Rightarrow> dcc_packet \<Rightarrow> dcc_packet" where
  "packet_start_ops address is_long repeats p =
     (add_address address is_long (packet_reset p))
       \<lparr>pkt_address := address, pkt_priority := PRIORITY_HIGH, pkt_repeats := repeats\<rparr>"

text \<open>The 10-bit wire form of a 1-based CV number.\<close>

definition wire_cv :: "u16 \<Rightarrow> u16" where
  "wire_cv cv = (cv - 1) AND 0x3FF"

definition packet_build_pom ::
  "u8 \<Rightarrow> u16 \<Rightarrow> bool \<Rightarrow> u16 \<Rightarrow> u8 \<Rightarrow> int \<Rightarrow> dcc_packet \<Rightarrow> dcc_packet" where
  "packet_build_pom opcode address is_long cv value repeats p =
     (let p = packet_start_ops address is_long repeats p;
          p = packet_add_byte (opcode OR u8_of (shr (wire_cv cv) 8 AND 0x03)) p;
          p = packet_add_byte (u8_of (wire_cv cv AND 0xFF)) p
      in packet_add_byte value p)"

definition packet_build_pom_write_byte ::
  "u16 \<Rightarrow> bool \<Rightarrow> u16 \<Rightarrow> u8 \<Rightarrow> int \<Rightarrow> dcc_packet \<Rightarrow> dcc_packet" where
  "packet_build_pom_write_byte address is_long cv value repeats p =
     packet_build_pom 0xEC address is_long cv value repeats p"

definition packet_build_pom_read_byte ::
  "u16 \<Rightarrow> bool \<Rightarrow> u16 \<Rightarrow> int \<Rightarrow> dcc_packet \<Rightarrow> dcc_packet" where
  "packet_build_pom_read_byte address is_long cv repeats p =
     packet_build_pom 0xE4 address is_long cv 0 repeats p"

definition packet_build_consist_control ::
  "u16 \<Rightarrow> bool \<Rightarrow> u8 \<Rightarrow> int \<Rightarrow> dcc_packet \<Rightarrow> dcc_packet" where
  "packet_build_consist_control address is_long cv19 repeats p =
     (let consist = cv19 AND 0x7F;
          reversed = (consist \<noteq> 0 \<and> cv19 AND 0x80 \<noteq> 0);
          p = packet_start_ops address is_long repeats p;
          p = packet_add_byte (if reversed then 0x13 else 0x12) p
      in packet_add_byte consist p)"

definition packet_build_short_form ::
  "u8 \<Rightarrow> u16 \<Rightarrow> bool \<Rightarrow> u8 \<Rightarrow> u8 \<Rightarrow> int \<Rightarrow> dcc_packet \<Rightarrow> dcc_packet" where
  "packet_build_short_form opcode address is_long first second repeats p =
     packet_add_byte second (packet_add_byte first (packet_add_byte opcode
       (packet_start_ops address is_long repeats p)))"

definition packet_build_long_address ::
  "u16 \<Rightarrow> bool \<Rightarrow> u8 \<Rightarrow> u8 \<Rightarrow> int \<Rightarrow> dcc_packet \<Rightarrow> dcc_packet" where
  "packet_build_long_address address is_long cv17 cv18 repeats p =
     packet_build_short_form 0xF4 address is_long cv17 cv18 repeats p"

definition packet_build_long_consist_address ::
  "u16 \<Rightarrow> bool \<Rightarrow> u8 \<Rightarrow> u8 \<Rightarrow> int \<Rightarrow> dcc_packet \<Rightarrow> dcc_packet" where
  "packet_build_long_consist_address address is_long cv19 cv20 repeats p =
     packet_build_short_form 0xF6 address is_long cv19 cv20 repeats p"

definition packet_start_accessory :: "u16 \<Rightarrow> u8 \<Rightarrow> int \<Rightarrow> dcc_packet \<Rightarrow> dcc_packet" where
  "packet_start_accessory addr b2 repeats p =
     (let p = packet_reset p;
          p = packet_add_byte (0x80 OR u8_of (shr addr 2 AND 0x3F)) p;
          p = packet_add_byte (b2 OR u8_of (shr (NOT addr) 4 AND 0x70)
                                  OR u8_of (shl (addr AND 0x03) 1)) p
      in p\<lparr>pkt_address := addr, pkt_priority := PRIORITY_HIGH, pkt_repeats := repeats\<rparr>)"

definition packet_build_basic_accessory ::
  "u16 \<Rightarrow> bool \<Rightarrow> bool \<Rightarrow> int \<Rightarrow> dcc_packet \<Rightarrow> dcc_packet" where
  "packet_build_basic_accessory addr normal activate repeats p =
     packet_start_accessory addr
       (0x80 OR (if activate then 0x08 else 0) OR (if normal then 0x01 else 0)) repeats p"

definition packet_build_extended_accessory ::
  "u16 \<Rightarrow> u8 \<Rightarrow> int \<Rightarrow> dcc_packet \<Rightarrow> dcc_packet" where
  "packet_build_extended_accessory addr aspect repeats p =
     packet_add_byte aspect (packet_start_accessory addr 0x01 repeats p)"

definition packet_build_svc_direct :: "u8 \<Rightarrow> u16 \<Rightarrow> u8 \<Rightarrow> dcc_packet \<Rightarrow> dcc_packet" where
  "packet_build_svc_direct opcode cv value p =
     (let p = packet_reset p;
          p = packet_add_byte (opcode OR u8_of (shr (wire_cv cv) 8 AND 0x03)) p;
          p = packet_add_byte (u8_of (wire_cv cv AND 0xFF)) p;
          p = packet_add_byte value p
      in p\<lparr>pkt_address := BROADCAST_ADDRESS, pkt_priority := PRIORITY_EMERGENCY,
           pkt_repeats := 0\<rparr>)"

definition packet_build_svc_write_byte :: "u16 \<Rightarrow> u8 \<Rightarrow> dcc_packet \<Rightarrow> dcc_packet" where
  "packet_build_svc_write_byte cv value p = packet_build_svc_direct 0x7C cv value p"

definition packet_build_svc_verify_byte :: "u16 \<Rightarrow> u8 \<Rightarrow> dcc_packet \<Rightarrow> dcc_packet" where
  "packet_build_svc_verify_byte cv value p = packet_build_svc_direct 0x74 cv value p"

definition packet_build_svc_verify_bit :: "u16 \<Rightarrow> u8 \<Rightarrow> bool \<Rightarrow> dcc_packet \<Rightarrow> dcc_packet" where
  "packet_build_svc_verify_bit cv b value p =
     packet_build_svc_direct 0x78 cv
       (0xE0 OR (if value then 0x08 else 0x00) OR (b AND 0x07)) p"

section \<open>Well-formed packets\<close>

definition pkt_wf :: "dcc_packet \<Rightarrow> bool" where
  "pkt_wf p \<longleftrightarrow> length (pkt_data p) = MAX_PACKET_DATA \<and> pkt_len p \<le> MAX_PACKET_DATA - 1"

definition pkt_shape :: "dcc_packet \<Rightarrow> bool" where
  "pkt_shape p \<longleftrightarrow> length (pkt_data p) = MAX_PACKET_DATA \<and> pkt_len p \<le> MAX_PACKET_DATA"

lemma pkt_wf_shape [wf_intro]: "pkt_wf p \<Longrightarrow> pkt_shape p"
  by (simp add: pkt_wf_def pkt_shape_def)

lemma pkt_shape_fields [simp]:
  "pkt_shape (p\<lparr>pkt_address := a\<rparr>) = pkt_shape p"
  "pkt_shape (p\<lparr>pkt_priority := c\<rparr>) = pkt_shape p"
  "pkt_shape (p\<lparr>pkt_repeats := r\<rparr>) = pkt_shape p"
  "pkt_shape (p\<lparr>pkt_in_use := u\<rparr>) = pkt_shape p"
  "pkt_wf (p\<lparr>pkt_address := a\<rparr>) = pkt_wf p"
  "pkt_wf (p\<lparr>pkt_priority := c\<rparr>) = pkt_wf p"
  "pkt_wf (p\<lparr>pkt_repeats := r\<rparr>) = pkt_wf p"
  "pkt_wf (p\<lparr>pkt_in_use := u\<rparr>) = pkt_wf p"
  by (simp_all add: pkt_shape_def pkt_wf_def)

lemma packet_reset_wf [wf_intro]: "pkt_shape p \<Longrightarrow> pkt_wf (packet_reset p)"
  by (simp add: pkt_shape_def pkt_wf_def packet_reset_def)

lemma packet_add_byte_wf [wf_intro]: "pkt_wf p \<Longrightarrow> pkt_wf (packet_add_byte b p)"
  by (auto simp: pkt_wf_def packet_add_byte_def MAX_PACKET_DATA_def)

lemma packet_fill_wf [wf_intro]: "pkt_shape p \<Longrightarrow> n \<le> length bs \<Longrightarrow> pkt_wf (packet_fill p bs n a c r)"
  by (auto simp: pkt_wf_def pkt_shape_def packet_fill_def Let_def MAX_PACKET_DATA_def)

text \<open>
  What \<open>packet_add_byte\<close> does to the contents: the bytes grow by one at the end while
  there is room for the checksum.
\<close>

lemma pkt_bytes_add_byte:
  assumes "pkt_wf p" and "pkt_len p < MAX_PACKET_DATA - 1"
  shows "pkt_bytes (packet_add_byte b p) = pkt_bytes p @ [b]"
  using assms by (simp add: packet_add_byte_def pkt_wf_def take_Suc_update)

lemma pkt_len_add_byte:
  "pkt_len (packet_add_byte b p) =
     (if pkt_len p < MAX_PACKET_DATA - 1 then pkt_len p + 1 else pkt_len p)"
  by (simp add: packet_add_byte_def)

lemma packet_add_byte_fields [simp]:
  "pkt_address (packet_add_byte b p) = pkt_address p"
  "pkt_priority (packet_add_byte b p) = pkt_priority p"
  "pkt_repeats (packet_add_byte b p) = pkt_repeats p"
  "pkt_in_use (packet_add_byte b p) = pkt_in_use p"
  by (simp_all add: packet_add_byte_def)

text \<open>
  A packet that holds exactly the bytes \<open>bs\<close>. The builders are chains of
  \<open>packet_add_byte\<close>; \<open>holds\<close> computes their contents by rewriting.
\<close>

definition holds :: "dcc_packet \<Rightarrow> u8 list \<Rightarrow> bool" where
  "holds p bs \<longleftrightarrow> pkt_wf p \<and> pkt_len p = length bs \<and> pkt_bytes p = bs"

named_theorems holds_intro

lemma holds_reset [holds_intro]: "pkt_shape p \<Longrightarrow> holds (packet_reset p) []"
  by (simp add: holds_def wf_intro) (simp add: packet_reset_def)

lemma holds_add_byte [holds_intro]:
  "holds p bs \<Longrightarrow> length bs < 5 \<Longrightarrow> holds (packet_add_byte b p) (bs @ [b])"
  using pkt_bytes_add_byte [of p b]
  by (auto simp: holds_def pkt_len_add_byte simp del: take_Suc_conv_app_nth intro: wf_intro)

lemma holds_fields [simp]:
  "holds (p\<lparr>pkt_address := a\<rparr>) bs = holds p bs"
  "holds (p\<lparr>pkt_priority := c\<rparr>) bs = holds p bs"
  "holds (p\<lparr>pkt_repeats := r\<rparr>) bs = holds p bs"
  "holds (p\<lparr>pkt_in_use := u\<rparr>) bs = holds p bs"
  by (simp_all add: holds_def)

lemma holds_bytes: "holds p bs \<Longrightarrow> pkt_bytes p = bs"
  unfolding holds_def by blast

definition address_bytes :: "u16 \<Rightarrow> bool \<Rightarrow> u8 list" where
  "address_bytes address is_long =
     (if is_long \<or> address > SHORT_ADDRESS_MAX_PKT
      then [0xC0 OR u8_of (shr address 8 AND 0x3F), u8_of address]
      else [u8_of address])"

lemma address_bytes_length: "length (address_bytes address is_long) \<le> 2"
  by (simp add: address_bytes_def)

lemma holds_add_address [holds_intro]:
  assumes "holds p bs" and "length bs \<le> 3"
  shows "holds (add_address address is_long p) (bs @ address_bytes address is_long)"
proof -
  have "holds (packet_add_byte b (packet_add_byte a p)) (bs @ [a, b])" for a b
    using holds_add_byte [OF holds_add_byte [OF assms(1)], of a b] assms(2) by simp
  moreover have "holds (packet_add_byte a p) (bs @ [a])" for a
    using holds_add_byte [OF assms(1)] assms(2) by simp
  ultimately show ?thesis
    by (simp add: add_address_def address_bytes_def)
qed

lemma holds_start_ops [holds_intro]:
  "pkt_shape p \<Longrightarrow> holds (packet_start_ops address is_long r p) (address_bytes address is_long)"
  using holds_add_address [OF holds_reset] by (simp add: packet_start_ops_def)

lemma holds_add3:
  assumes "holds p bs" and "length bs \<le> 2"
  shows "holds (packet_add_byte c (packet_add_byte b (packet_add_byte a p))) (bs @ [a, b, c])"
  using holds_add_byte [OF holds_add_byte [OF holds_add_byte [OF assms(1)]], of a b c] assms(2)
  by simp

lemma holds_pom:
  "pkt_shape p \<Longrightarrow> holds (packet_build_pom opcode address is_long cv value r p)
     (address_bytes address is_long @
      [opcode OR u8_of (shr (wire_cv cv) 8 AND 0x03), u8_of (wire_cv cv AND 0xFF), value])"
  unfolding packet_build_pom_def Let_def
  by (intro holds_add3 holds_start_ops address_bytes_length)

lemma holds_short_form:
  "pkt_shape p \<Longrightarrow> holds (packet_build_short_form opcode address is_long x y r p)
     (address_bytes address is_long @ [opcode, x, y])"
  unfolding packet_build_short_form_def Let_def
  by (intro holds_add3 holds_start_ops address_bytes_length)

lemma holds_consist_control:
  assumes "pkt_shape p"
  shows "holds (packet_build_consist_control address is_long cv19 r p)
     (address_bytes address is_long @
      [if cv19 AND 0x7F \<noteq> 0 \<and> cv19 AND 0x80 \<noteq> 0 then 0x13 else 0x12, cv19 AND 0x7F])"
  using holds_add_byte [OF holds_add_byte [OF holds_start_ops [OF assms]]]
    address_bytes_length [of address is_long]
  by (simp add: packet_build_consist_control_def Let_def)

lemma holds_svc_direct:
  assumes "pkt_shape p"
  shows "holds (packet_build_svc_direct opcode cv value p)
     [opcode OR u8_of (shr (wire_cv cv) 8 AND 0x03), u8_of (wire_cv cv AND 0xFF), value]"
  using holds_add3 [OF holds_reset [OF assms]]
  by (simp add: packet_build_svc_direct_def Let_def)

lemma holds_start_accessory:
  assumes "pkt_shape p"
  shows "holds (packet_start_accessory addr b2 r p)
     [0x80 OR u8_of (shr addr 2 AND 0x3F),
      b2 OR u8_of (shr (NOT addr) 4 AND 0x70) OR u8_of (shl (addr AND 0x03) 1)]"
  using holds_add_byte [OF holds_add_byte [OF holds_reset [OF assms]]]
  by (simp add: packet_start_accessory_def Let_def)

section \<open>Encoding: what the wave generator receives\<close>

definition word_bytes :: "u32 \<Rightarrow> u8 list" where
  "word_bytes w = [u8_of (shr w 24), u8_of (shr w 16), u8_of (shr w 8), u8_of w]"

definition pio_receive :: "u32 list \<Rightarrow> u8 list" where
  "pio_receive ws =
     (case concat (map word_bytes ws) of [] \<Rightarrow> [] | n # bs \<Rightarrow> take (unat n) bs)"

lemma xor_bytes_snoc: "xor_bytes (bs @ [b]) = xor_bytes bs XOR b"
  by (simp add: xor_bytes_def)

lemma xor_bytes_checksum: "xor_bytes (bs @ [xor_bytes bs]) = 0"
  by (simp add: xor_bytes_snoc)

lemma list_upto5:
  assumes "0 < length bs" and "length bs \<le> 5"
  obtains a where "bs = [a]" | a b where "bs = [a, b]" | a b c where "bs = [a, b, c]"
    | a b c d where "bs = [a, b, c, d]" | a b c d e where "bs = [a, b, c, d, e]"
proof -
  have "length bs = 1 \<or> length bs = 2 \<or> length bs = 3 \<or> length bs = 4 \<or> length bs = 5"
    using assms by linarith
  then show thesis
    using that by (auto simp: length_Suc_conv numeral_eq_Suc)
qed

lemma word_bytes_pack:
  "word_bytes (shl (u32_of n) 24 OR shl (u32_of a) 16) = [n, a, 0, 0]"
  "word_bytes ((shl (u32_of n) 24 OR shl (u32_of a) 16) OR shl (u32_of b) 8) = [n, a, b, 0]"
  "word_bytes (((shl (u32_of n) 24 OR shl (u32_of a) 16) OR shl (u32_of b) 8) OR u32_of c) = [n, a, b, c]"
  "word_bytes (shl (u32_of n) 24) = [n, 0, 0, 0]"
  for n a b c :: u8
  by (simp_all add: word_bytes_def word_bits_simps)

lemma encode_loop_receive:
  fixes x n :: u8
  assumes "0 < length bs" and "length bs \<le> 5" and "unat n = length bs + 1"
  shows "pio_receive (encode_loop (bs @ [x]) (shl (u32_of n) 24) 2) = bs @ [x] \<and>
         length (encode_loop (bs @ [x]) (shl (u32_of n) 24) 2) \<le> 2"
  using assms(1,2)
  by (cases rule: list_upto5)
    (use assms(3) in \<open>simp_all add: pio_receive_def Let_def word_bytes_pack\<close>)

lemma packet_encode_holds:
  assumes "holds p bs" and "bs \<noteq> []"
  shows "\<exists>p' ws. packet_encode p = Some (p', ws) \<and> pio_receive ws = bs @ [xor_bytes bs] \<and>
           length ws \<le> 2 \<and> pkt_bytes p' = bs @ [xor_bytes bs]"
proof -
  from assms have l: "length (pkt_data p) = 6" "pkt_len p = length bs" "0 < length bs" "length bs \<le> 5"
    and b: "take (length bs) (pkt_data p) = bs"
    by (auto simp: holds_def pkt_wf_def)
  let ?n = "word_of_nat (length bs + 1) :: u8"
  have n: "unat ?n = length bs + 1"
    by (rule unat_of_nat_less) (use l in simp)
  from l b have t: "take (Suc (length bs)) ((pkt_data p)[length bs := xor_bytes bs]) = bs @ [xor_bytes bs]"
    by (simp add: take_Suc_update)
  show ?thesis
    using encode_loop_receive [OF l(3,4) n, of "xor_bytes bs"] l b t
    by (simp add: packet_encode_def packet_add_checksum_def)
qed

section \<open>The allocator's contract\<close>

text \<open>
  What the clients of the allocator rely on: an allocation hands out an element that was
  free and marks it used; a free of a used element takes it back; nothing else changes.
  \<open>used\<close> is the set of elements in use.
\<close>

locale packet_allocator =
  fixes alloc :: "'p \<Rightarrow> 'p \<times> 'i option"
    and free :: "'p \<Rightarrow> 'i option \<Rightarrow> 'p"
    and used :: "'p \<Rightarrow> 'i set"
    and ok :: "'p \<Rightarrow> bool"
  assumes alloc_None: "alloc pl = (pl', None) \<Longrightarrow> pl' = pl"
    and alloc_Some: "ok pl \<Longrightarrow> alloc pl = (pl', Some i) \<Longrightarrow>
           i \<notin> used pl \<and> used pl' = insert i (used pl) \<and> ok pl'"
    and free_None: "free pl None = pl"
    and free_Some: "ok pl \<Longrightarrow> i \<in> used pl \<Longrightarrow>
           used (free pl (Some i)) = used pl - {i} \<and> ok (free pl (Some i))"
begin

lemma alloc_ok: "ok pl \<Longrightarrow> alloc pl = (pl', r) \<Longrightarrow> ok pl'"
  using alloc_None alloc_Some by (cases r) blast+

lemma alloc_used_mono: "ok pl \<Longrightarrow> alloc pl = (pl', r) \<Longrightarrow> used pl \<subseteq> used pl'"
  using alloc_None alloc_Some by (cases r) blast+

text \<open>An allocation that is given back leaves the used set as it was.\<close>

lemma alloc_free:
  assumes "ok pl" and "alloc pl = (pl', r)"
  shows "used (free pl' r) = used pl \<and> ok (free pl' r)"
proof (cases r)
  case None
  with assms show ?thesis using alloc_None free_None by force
next
  case (Some i)
  then have i: "i \<notin> used pl" "used pl' = insert i (used pl)" "ok pl'"
    using assms alloc_Some by blast+
  with Some show ?thesis using free_Some [of pl' i] by auto
qed

end

definition pool_wf :: "pool \<Rightarrow> bool" where
  "pool_wf pl \<longleftrightarrow> length pl = PACKET_POOL_SIZE \<and> (\<forall>p\<in>set pl. pkt_shape p)"

definition pool_used :: "pool \<Rightarrow> pkt_ptr set" where
  "pool_used pl = {i. i < length pl \<and> pkt_in_use (pl ! i)}"

lemma pool_wf_nth: "pool_wf pl \<Longrightarrow> i < length pl \<Longrightarrow> pkt_shape (pl ! i)"
  by (auto simp: pool_wf_def)

lemma pool_wf_update [wf_intro]: "pool_wf pl \<Longrightarrow> pkt_shape p \<Longrightarrow> pool_wf (pl[i := p])"
  using set_update_subset_insert [of pl i p] by (auto simp: pool_wf_def)

lemma pool_used_update:
  "i < length pl \<Longrightarrow>
   pool_used (pl[i := p]) = (if pkt_in_use p then insert i (pool_used pl) else pool_used pl - {i})"
  by (auto simp: pool_used_def nth_list_update)

lemma pool_used_finite [simp]: "finite (pool_used pl)"
  by (simp add: pool_used_def)

lemma packet_pool_init_wf: "pool_wf packet_pool_init \<and> pool_used packet_pool_init = {}"
  by (auto simp: pool_wf_def pool_used_def packet_pool_init_def zero_packet_def pkt_shape_def)

lemma packet_alloc_None:
  "packet_alloc pl = (pl', None) \<longleftrightarrow> pl' = pl \<and> (\<forall>i<length pl. pkt_in_use (pl ! i))"
  by (auto simp: packet_alloc_def find_upt_None split: option.splits)
    (metis find_upt_None option.distinct(1))+

lemma packet_alloc_fields:
  "p\<lparr>pkt_in_use := True, pkt_len := 0, pkt_address := 0, pkt_priority := PRIORITY_NORMAL,
     pkt_repeats := 0\<rparr> = (packet_reset p)\<lparr>pkt_in_use := True\<rparr>"
  by (cases p) (simp add: packet_reset_def)

lemma packet_alloc_Some:
  assumes "packet_alloc pl = (pl', Some i)"
  shows "i < length pl" and "\<not> pkt_in_use (pl ! i)"
    and "pl' = pl[i := (packet_reset (pl ! i))\<lparr>pkt_in_use := True\<rparr>]"
  using assms
  by (auto simp: packet_alloc_def find_upt_Some packet_alloc_fields split: option.splits)

interpretation pool: packet_allocator packet_alloc packet_free pool_used pool_wf
proof unfold_locales
  fix pl pl' :: pool and i
  show "packet_alloc pl = (pl', None) \<Longrightarrow> pl' = pl"
    by (simp add: packet_alloc_None)
  show "i \<notin> pool_used pl \<and> pool_used pl' = insert i (pool_used pl) \<and> pool_wf pl'"
    if wf: "pool_wf pl" and al: "packet_alloc pl = (pl', Some i)"
  proof -
    note i = packet_alloc_Some [OF al]
    have "pkt_shape ((packet_reset (pl ! i))\<lparr>pkt_in_use := True\<rparr>)"
      using packet_reset_wf [OF pool_wf_nth [OF wf i(1)]] by (simp add: pkt_wf_shape)
    then show ?thesis
      using i wf by (simp add: pool_used_update pool_wf_update) (simp add: pool_used_def)
  qed
  show "packet_free pl None = pl"
    by (simp add: packet_free_def)
  show "pool_used (packet_free pl (Some i)) = pool_used pl - {i} \<and> pool_wf (packet_free pl (Some i))"
    if "pool_wf pl" "i \<in> pool_used pl"
    using that by (auto simp: packet_free_def pool_used_def nth_list_update pool_wf_nth
        intro!: pool_wf_update split: if_splits)
qed

text \<open>The packet an allocation hands out is empty and ready for the builders.\<close>

lemma packet_alloc_holds:
  assumes "pool_wf pl" and "packet_alloc pl = (pl', Some i)"
  shows "i < length pl'" and "holds (pl' ! i) []" and "pkt_in_use (pl' ! i)"
  using assms(1) packet_alloc_Some [OF assms(2)] holds_reset [OF pool_wf_nth]
  by (auto)

section \<open>Reading packets back\<close>

text \<open>
  What a decoder on the track takes from the bytes, by the NMRA layouts the headers
  quote. First the address of a multi-function decoder: \<open>0AAAAAAA\<close> short,
  \<open>11AAAAAA AAAAAAAA\<close> long.
\<close>

fun decode_address :: "u8 list \<Rightarrow> (u16 \<times> bool \<times> u8 list) option" where
  "decode_address (a # bs) =
     (if a AND 0x80 = 0 then Some (u16_of a, False, bs)
      else if a AND 0xC0 = 0xC0
      then (case bs of b # bs' \<Rightarrow> Some (shl (u16_of (a AND 0x3F)) 8 OR u16_of b, True, bs')
                     | [] \<Rightarrow> None)
      else None)"
| "decode_address [] = None"

datatype pom_op = Pom_Verify | Pom_Write

text \<open>\<open>1110_CC_VV CCCCCCCC DDDDDDDD\<close>: the operation, the 1-based CV and the value.\<close>

fun decode_cv_access :: "u8 \<Rightarrow> u8 list \<Rightarrow> (pom_op \<times> u16 \<times> u8) option" where
  "decode_cv_access prefix [a, b, v] =
     (let cv = (shl (u16_of (a AND 0x03)) 8 OR u16_of b) + 1
      in if a AND 0xFC = prefix OR 0x0C then Some (Pom_Write, cv, v)
         else if a AND 0xFC = prefix OR 0x04 then Some (Pom_Verify, cv, v) else None)"
| "decode_cv_access prefix _ = None"

definition decode_pom :: "u8 list \<Rightarrow> (u16 \<times> bool \<times> pom_op \<times> u16 \<times> u8) option" where
  "decode_pom bs =
     (case decode_address bs of
        Some (address, is_long, rest) \<Rightarrow>
          (case decode_cv_access 0xE0 rest of
             Some (op, cv, v) \<Rightarrow> Some (address, is_long, op, cv, v) | None \<Rightarrow> None)
      | None \<Rightarrow> None)"

lemma u16_above_bound: "(w :: u16) < 2 ^ k \<Longrightarrow> k \<le> n \<Longrightarrow> \<not> bit w n"
  by (rule bit_above_bound)

lemma decode_address_bytes:
  assumes "address < 0x4000"
  shows "decode_address (address_bytes address is_long @ bs) =
           Some (address, is_long \<or> address > 127, bs)"
proof -
  have hi: "\<not> bit address 14" "\<not> bit address 15"
    using assms bit_above_bound [of address 14] by simp_all
  have short: "u8_of address AND 0x80 = 0 \<and> u16_of (u8_of address) = address"
    if "\<not> 127 < address"
  proof -
    have "address < 2 ^ 7"
      using that by (simp add: not_less word_le_nat_alt word_less_nat_alt)
    then have "\<forall>n\<ge>7. \<not> bit address n" using bit_above_bound by blast
    then show ?thesis by (simp add: word_bits_simps)
  qed
  show ?thesis
    using hi short
    by (auto simp: address_bytes_def SHORT_ADDRESS_MAX_PKT_def word_bits_simps)
qed

lemma wire_cv_bytes:
  assumes "1 \<le> cv" and "cv \<le> 1024"
  shows "(shl (u16_of (u8_of (shr (wire_cv cv) 8 AND 0x03))) 8 OR u16_of (u8_of (wire_cv cv AND 0xFF))) + 1 = cv"
proof -
  have "cv - 1 < 2 ^ 10"
    using assms by unat_arith
  then have "\<forall>n\<ge>10. \<not> bit (cv - 1) n" using bit_above_bound by blast
  then have "shl (u16_of (u8_of (shr (wire_cv cv) 8 AND 0x03))) 8 OR u16_of (u8_of (wire_cv cv AND 0xFF)) = cv - 1"
    by (simp add: wire_cv_def word_bits_simps)
  then show ?thesis by simp
qed


text \<open>
  C2: A packet of one to five bytes is encoded without writing outside its buffer, into
  at most three words, and the wave generator that reads the count byte and then that many
  bytes receives the packet's bytes followed by a checksum that makes the exclusive or of
  all of them zero.
\<close>

theorem packet_encode_roundtrip:
  assumes "pkt_wf p" and "0 < pkt_len p"
  shows "\<exists>p' ws. packet_encode p = Some (p', ws) \<and> length ws \<le> 3 \<and>
           pio_receive ws = pkt_bytes p @ [xor_bytes (pkt_bytes p)] \<and>
           xor_bytes (pio_receive ws) = 0"
proof -
  have "holds p (pkt_bytes p)" and "pkt_bytes p \<noteq> []"
    using assms by (auto simp: holds_def pkt_wf_def)
  then obtain p' ws where "packet_encode p = Some (p', ws)"
    "pio_receive ws = pkt_bytes p @ [xor_bytes (pkt_bytes p)]" "length ws \<le> 2"
    using packet_encode_holds by blast
  then show ?thesis by (auto simp: xor_bytes_checksum)
qed

theorem packet_encode_roundtrip_witness:
  "pkt_wf (packet_make_idle zero_packet) \<and> 0 < pkt_len (packet_make_idle zero_packet) \<and>
   (\<exists>p' ws. packet_encode (packet_make_idle zero_packet) = Some (p', ws) \<and>
      pio_receive ws = [0xFF, 0x00, 0xFF])"
proof -
  have h: "pkt_wf (packet_make_idle zero_packet)" "0 < pkt_len (packet_make_idle zero_packet)"
    by (simp_all add: pkt_wf_def packet_make_idle_def packet_fill_def zero_packet_def Let_def)
  have b: "pkt_bytes (packet_make_idle zero_packet) = [0xFF, 0x00]"
    by (simp add: packet_make_idle_def packet_fill_def zero_packet_def Let_def)
  show ?thesis
    using packet_encode_roundtrip [OF h] h unfolding b by (auto simp: xor_bytes_def)
qed

text \<open>
  Programming on the main. A decoder that reads the bytes of a POM write packet gets
  back the address in the form the caller asked for (long whenever the address needs it),
  the CV number and the value, for every 14-bit address and every CV from 1 to 1024.
\<close>

theorem pom_write_roundtrip:
  assumes "pkt_shape p" and "address < 0x4000" and "1 \<le> cv" and "cv \<le> 1024"
  shows "decode_pom (pkt_bytes (packet_build_pom_write_byte address is_long cv value r p)) =
           Some (address, is_long \<or> address > 127, Pom_Write, cv, value)"
proof -
  have "(0xEC OR u8_of (shr (wire_cv cv) 8 AND 0x03)) AND 0xFC = (0xEC :: u8)"
    and lo: "u16_of ((0xEC OR u8_of (shr (wire_cv cv) 8 AND 0x03)) AND 0x03) =
         u16_of (u8_of (shr (wire_cv cv) 8 AND 0x03))"
    by (simp_all add: word_bits_simps)
  then show ?thesis
    using wire_cv_bytes [OF assms(3,4)]
    by (simp add: decode_pom_def packet_build_pom_write_byte_def Let_def
        holds_bytes [OF holds_pom [OF assms(1)]] decode_address_bytes [OF assms(2)])
qed

text \<open>The two accessory packets, \<open>10AAAAAA 1AAACDDR\<close> and \<open>10AAAAAA 0AAA0AA1 DDDDDDDD\<close>.\<close>

datatype accessory_cmd = Basic_Output u16 bool bool | Extended_Aspect u16 u8

definition decode_output_address :: "u8 \<Rightarrow> u8 \<Rightarrow> u16" where
  "decode_output_address a b =
     shl (u16_of (NOT (shr b 4) AND 0x07)) 8 OR shl (u16_of (a AND 0x3F)) 2 OR
     u16_of (shr b 1 AND 0x03)"

fun decode_accessory :: "u8 list \<Rightarrow> accessory_cmd option" where
  "decode_accessory [a, b] =
     (if a AND 0xC0 = 0x80 \<and> b AND 0x80 = 0x80
      then Some (Basic_Output (decode_output_address a b) (b AND 0x01 = 0x01) (b AND 0x08 = 0x08))
      else None)"
| "decode_accessory [a, b, v] =
     (if a AND 0xC0 = 0x80 \<and> b AND 0x89 = 0x01
      then Some (Extended_Aspect (decode_output_address a b) v) else None)"
| "decode_accessory _ = None"

lemma decode_accessoryI:
  "a AND 0xC0 = 0x80 \<Longrightarrow> decode_output_address a b = addr \<Longrightarrow> b AND 0x80 = 0x80 \<Longrightarrow>
   (b AND 0x01 = 0x01) = n \<Longrightarrow> (b AND 0x08 = 0x08) = c \<Longrightarrow>
   decode_accessory [a, b] = Some (Basic_Output addr n c)"
  "a AND 0xC0 = 0x80 \<Longrightarrow> decode_output_address a b = addr \<Longrightarrow> b AND 0x89 = 0x01 \<Longrightarrow>
   decode_accessory [a, b, v] = Some (Extended_Aspect addr v)"
  by simp_all

lemma accessory_bytes:
  assumes "addr < 0x800" and "b2 AND 0x76 = 0"
  defines "a \<equiv> 0x80 OR u8_of (shr addr 2 AND 0x3F) :: u8"
    and "b \<equiv> b2 OR u8_of (shr (NOT addr) 4 AND 0x70) OR u8_of (shl (addr AND 0x03) 1) :: u8"
  shows "decode_output_address a b = addr" and "a AND 0xC0 = 0x80"
    and "b AND 0x89 = b2"
proof -
  have "addr < 2 ^ 11" using assms(1) by simp
  then have hi: "\<forall>n\<ge>11. \<not> bit addr n" using bit_above_bound by blast
  have b2: "\<not> bit b2 1" "\<not> bit b2 2" "\<not> bit b2 4" "\<not> bit b2 5" "\<not> bit b2 6"
    using assms(2) by (simp_all add: word_bits_simps)
  show "decode_output_address a b = addr"
    using b2 hi unfolding a_def b_def decode_output_address_def
    by (simp add: word_bits_simps del: push_bit_Suc drop_bit_Suc)
  show "a AND 0xC0 = 0x80" unfolding a_def by (simp add: word_bits_simps)
  show "b AND 0x89 = b2"
    using b2 unfolding b_def by (simp add: word_bits_simps)
qed

text \<open>
  Accessory decoders. The address, output state and activation bit of a basic
  accessory packet, and the address and aspect of an extended one, are read back from
  its bytes for every 11-bit output address.
\<close>

theorem accessory_roundtrip:
  assumes "pkt_shape p" and "addr < 0x800"
  shows "decode_accessory (pkt_bytes (packet_build_basic_accessory addr normal activate r p)) =
           Some (Basic_Output addr normal activate) \<and>
         decode_accessory (pkt_bytes (packet_build_extended_accessory addr aspect r p)) =
           Some (Extended_Aspect addr aspect)"
proof -
  let ?b2 = "0x80 OR (if activate then 0x08 else 0) OR (if normal then 0x01 else 0) :: u8"
  let ?b = "\<lambda>b2. b2 OR u8_of (shr (NOT addr) 4 AND 0x70) OR u8_of (shl (addr AND 0x03) 1) :: u8"
  have "?b2 AND 0x76 = 0" by simp
  note basic = accessory_bytes [OF assms(2) this]
  have bits: "?b ?b2 AND 0x80 = 0x80" "(?b ?b2 AND 0x01 = 0x01) = normal" "(?b ?b2 AND 0x08 = 0x08) = activate"
    by (cases normal; cases activate; simp add: word_bits_simps)+
  have "(0x01 :: u8) AND 0x76 = 0" by simp
  note ext = accessory_bytes [OF assms(2) this]
  note start = holds_start_accessory [OF assms(1), of addr _ r]
  have e: "pkt_bytes (packet_build_extended_accessory addr aspect r p) =
      [0x80 OR u8_of (shr addr 2 AND 0x3F), ?b 0x01, aspect]"
    using holds_bytes [OF holds_add_byte [OF start]]
    by (simp add: packet_build_extended_accessory_def)
  show ?thesis
    unfolding e packet_build_basic_accessory_def holds_bytes [OF start]
    by (intro conjI decode_accessoryI basic(1,2) ext bits)
qed

end
