(* ===== verification/Functions.thy ===== *)
theory Functions
  imports Prelude
begin

text \<open>
  Decoder functions F0 to F68: \<^verbatim>\<open>src/src/dcc/functions.h\<close> and \<^verbatim>\<open>functions.c\<close>. The states of
  F0 to F63 are the bits of a \<open>uint64_t\<close>, those of F64 to F68 the low bits of a \<open>uint8_t\<close>.
  Ten groups of functions are sent by ten instructions; a flag per group says whether any
  of its functions was ever changed.
\<close>

definition FN_GROUP1 :: u16 where "FN_GROUP1 = 0x001"
definition FN_GROUP2 :: u16 where "FN_GROUP2 = 0x002"
definition FN_GROUP3 :: u16 where "FN_GROUP3 = 0x004"
definition FN_GROUP4 :: u16 where "FN_GROUP4 = 0x008"
definition FN_GROUP5 :: u16 where "FN_GROUP5 = 0x010"
definition FN_GROUP6 :: u16 where "FN_GROUP6 = 0x020"
definition FN_GROUP7 :: u16 where "FN_GROUP7 = 0x040"
definition FN_GROUP8 :: u16 where "FN_GROUP8 = 0x080"
definition FN_GROUP9 :: u16 where "FN_GROUP9 = 0x100"
definition FN_GROUP10 :: u16 where "FN_GROUP10 = 0x200"

definition MAX_FN_NUMBER :: u16 where "MAX_FN_NUMBER = 68"

lemmas FN_GROUP_defs =
  FN_GROUP1_def FN_GROUP2_def FN_GROUP3_def FN_GROUP4_def FN_GROUP5_def
  FN_GROUP6_def FN_GROUP7_def FN_GROUP8_def FN_GROUP9_def FN_GROUP10_def

definition fn_update_group_flags :: "u16 \<Rightarrow> u16 \<Rightarrow> u16" where
  "fn_update_group_flags flags fn_number =
     (if fn_number \<le> 4 then flags OR FN_GROUP1
      else if fn_number \<le> 8 then flags OR FN_GROUP2
      else if fn_number \<le> 12 then flags OR FN_GROUP3
      else if fn_number \<le> 20 then flags OR FN_GROUP4
      else if fn_number \<le> 28 then flags OR FN_GROUP5
      else if fn_number \<le> 36 then flags OR FN_GROUP6
      else if fn_number \<le> 44 then flags OR FN_GROUP7
      else if fn_number \<le> 52 then flags OR FN_GROUP8
      else if fn_number \<le> 60 then flags OR FN_GROUP9
      else if fn_number \<le> 68 then flags OR FN_GROUP10
      else flags)"

definition fn_encode_group1 :: "u64 \<Rightarrow> u8" where
  "fn_encode_group1 functions =
     0x80 OR (u8_of (shr functions 1) AND 0x0F) OR shl (u8_of (functions AND 0x01)) 4"

definition fn_encode_group2 :: "u64 \<Rightarrow> u8" where
  "fn_encode_group2 functions = 0xB0 OR (u8_of (shr functions 5) AND 0x0F)"

definition fn_encode_group3 :: "u64 \<Rightarrow> u8" where
  "fn_encode_group3 functions = 0xA0 OR (u8_of (shr functions 9) AND 0x0F)"

definition fn_encode_group4 :: "u64 \<Rightarrow> u8" where
  "fn_encode_group4 functions = u8_of (shr functions 13)"

definition fn_encode_group5 :: "u64 \<Rightarrow> u8" where
  "fn_encode_group5 functions = u8_of (shr functions 21)"

definition fn_encode_group6 :: "u64 \<Rightarrow> u8" where
  "fn_encode_group6 functions = u8_of (shr functions 29)"

definition fn_encode_group7 :: "u64 \<Rightarrow> u8" where
  "fn_encode_group7 functions = u8_of (shr functions 37)"

definition fn_encode_group8 :: "u64 \<Rightarrow> u8" where
  "fn_encode_group8 functions = u8_of (shr functions 45)"

definition fn_encode_group9 :: "u64 \<Rightarrow> u8" where
  "fn_encode_group9 functions = u8_of (shr functions 53)"

definition fn_encode_group10 :: "u64 \<Rightarrow> u8 \<Rightarrow> u8" where
  "fn_encode_group10 functions_lo functions_hi =
     u8_of (shr functions_lo 61 AND 0x07) OR shl (functions_hi AND 0x1F) 3"

section \<open>What a decoder reads\<close>

text \<open>
  The specification, from the instruction layouts: F0 is bit 4 and F1 to F4 are bits 0
  to 3 of group 1; groups 2 and 3 hold four functions each, the others eight.
  \<open>fn_group_of n\<close> is the number of the group of function \<open>n\<close> and \<open>fn_bit_of n\<close> its bit there.
\<close>

definition fn_group_of :: "nat \<Rightarrow> nat" where
  "fn_group_of n = (if n \<le> 4 then 1 else if n \<le> 8 then 2 else if n \<le> 12 then 3
                    else 4 + (n - 13) div 8)"

definition fn_bit_of :: "nat \<Rightarrow> nat" where
  "fn_bit_of n = (if n = 0 then 4 else if n \<le> 4 then n - 1 else if n \<le> 12 then (n - 5) mod 4
                  else (n - 13) mod 8)"

definition fn_state :: "u64 \<Rightarrow> u8 \<Rightarrow> nat \<Rightarrow> bool" where
  "fn_state lo hi n = (if n < 64 then bit lo n else bit hi (n - 64))"

text \<open>The data byte of group \<open>g\<close>.\<close>

definition fn_group_byte :: "nat \<Rightarrow> u64 \<Rightarrow> u8 \<Rightarrow> u8" where
  "fn_group_byte g lo hi =
     [fn_encode_group1 lo, fn_encode_group2 lo, fn_encode_group3 lo, fn_encode_group4 lo,
      fn_encode_group5 lo, fn_encode_group6 lo, fn_encode_group7 lo, fn_encode_group8 lo,
      fn_encode_group9 lo, fn_encode_group10 lo hi] ! (g - 1)"

lemmas fn_encode_defs =
  fn_encode_group1_def fn_encode_group2_def fn_encode_group3_def fn_encode_group4_def
  fn_encode_group5_def fn_encode_group6_def fn_encode_group7_def fn_encode_group8_def
  fn_encode_group9_def fn_encode_group10_def

lemma all_le_numeral:
  "(\<forall>n\<le>(numeral k :: nat). P n) \<longleftrightarrow> P (numeral k) \<and> (\<forall>n<numeral k. P n)"
  by (auto simp: le_less)

lemma fn_update_flags_all:
  "\<forall>n\<le>68. fn_update_group_flags flags (word_of_nat n) = flags OR shl 1 (fn_group_of n - 1)"
  by (simp add: all_le_numeral all_less_numeral all_less_one fn_group_of_def
      fn_update_group_flags_def FN_GROUP_defs)

lemma fn_update_flags:
  assumes "fn \<le> MAX_FN_NUMBER"
  shows "fn_update_group_flags flags fn = flags OR shl 1 (fn_group_of (unat fn) - 1)"
proof -
  from assms have "unat fn \<le> 68" by (simp add: MAX_FN_NUMBER_def word_le_nat_alt)
  then show ?thesis using fn_update_flags_all [of flags, rule_format, of "unat fn"] by simp
qed

lemma fn_group_of_bounds: "1 \<le> fn_group_of n" "n \<le> 68 \<Longrightarrow> fn_group_of n \<le> 10"
  by (auto simp: fn_group_of_def)

text \<open>
  Function groups. For every function F0 to F68 and every state of the functions, the
  data byte of the function's group carries its state at the bit the instruction layout
  gives it, and changing the function marks exactly that group's flag.
\<close>

theorem fn_groups_carry_state:
  "\<forall>n\<le>68. bit (fn_group_byte (fn_group_of n) lo hi) (fn_bit_of n) = fn_state lo hi n \<and>
     fn_update_group_flags flags (word_of_nat n) = flags OR shl 1 (fn_group_of n - 1)"
proof -
  have "\<forall>n\<le>68. bit (fn_group_byte (fn_group_of n) lo hi) (fn_bit_of n) = fn_state lo hi n"
    by (simp add: all_le_numeral all_less_numeral all_less_one fn_group_of_def fn_bit_of_def
        fn_state_def fn_group_byte_def fn_encode_defs bit_simps Suc_Suc_0)
  then show ?thesis using fn_update_flags_all by blast
qed

end
