(* ===== verification/Rtos.thy ===== *)
theory Rtos
  imports Prelude
begin

text \<open>
  The FreeRTOS queues the tasks hand packets through. FreeRTOS is not part of the
  repository, so a queue is a value of an unknown type \<open>'q\<close> and its two calls are an
  argument of every definition that uses them: \<open>xQueueSend\<close> (\<open>None\<close>: the queue stayed full
  for the whole timeout, anything but \<open>pdTRUE\<close>) and \<open>xQueueReceive\<close> (\<open>None\<close>: nothing was
  there). \<open>queue_items\<close> is what the queue holds, oldest first; it is used in statements only.
\<close>

record ('q, 'a) queue_api =
  xQueueSend :: "'q \<Rightarrow> 'a \<Rightarrow> 'q option"
  xQueueReceive :: "'q \<Rightarrow> ('a \<times> 'q) option"
  queue_items :: "'q \<Rightarrow> 'a list"

text \<open>
  The documented behaviour: a queue is first in, first out; an item is copied in at the
  back and taken from the front.
\<close>

definition fifo_queue :: "('q, 'a) queue_api \<Rightarrow> bool" where
  "fifo_queue R \<longleftrightarrow>
     (\<forall>q x q'. xQueueSend R q x = Some q' \<longrightarrow> queue_items R q' = queue_items R q @ [x]) \<and>
     (\<forall>q. xQueueReceive R q = None \<longrightarrow> queue_items R q = []) \<and>
     (\<forall>q x q'. xQueueReceive R q = Some (x, q') \<longrightarrow> queue_items R q = x # queue_items R q')"

lemma fifo_send: "fifo_queue R \<Longrightarrow> xQueueSend R q x = Some q' \<Longrightarrow> queue_items R q' = queue_items R q @ [x]"
  by (simp add: fifo_queue_def)

lemma fifo_receive: "fifo_queue R \<Longrightarrow> xQueueReceive R q = Some (x, q') \<Longrightarrow> queue_items R q = x # queue_items R q'"
  by (simp add: fifo_queue_def)

text \<open>A queue with room for \<open>n\<close> items accepts one while it holds fewer.\<close>

definition queue_room :: "('q, 'a) queue_api \<Rightarrow> nat \<Rightarrow> bool" where
  "queue_room R n \<longleftrightarrow> (\<forall>q x. length (queue_items R q) < n \<longrightarrow> xQueueSend R q x \<noteq> None)"

text \<open>A bounded list, for the witnesses: it shows that the behaviour can be met.\<close>

definition bounded_queue :: "nat \<Rightarrow> ('a list, 'a) queue_api" where
  "bounded_queue depth =
     \<lparr>xQueueSend = (\<lambda>q x. if length q < depth then Some (q @ [x]) else None),
      xQueueReceive = (\<lambda>q. case q of [] \<Rightarrow> None | x # q' \<Rightarrow> Some (x, q')),
      queue_items = (\<lambda>q. q)\<rparr>"

lemma bounded_queue_fifo: "fifo_queue (bounded_queue depth)"
  by (auto simp: fifo_queue_def bounded_queue_def split: list.splits if_splits)

lemma bounded_queue_room: "queue_room (bounded_queue depth) depth"
  by (simp add: queue_room_def bounded_queue_def)

end
