(* ===== verification/Dcc.thy ===== *)
theory Dcc
  imports Packet Functions Rtos
begin

text \<open>
  The DCC engine: \<^verbatim>\<open>src/src/dcc/dcc.h\<close> and \<^verbatim>\<open>dcc.c\<close>. The table of locos, the commands of the
  throttles, the emergency stops, programming on the main, the accessory commands and the
  reminder loop that sends every loco's state again and again.

  A \<open>loco_state_t *\<close> is an index into the table. The engine's mutex makes each command one
  step; the packet pool of \<^verbatim>\<open>packet.c\<close>, which the engine allocates from, is a field of
  the engine's state. Every operation takes the queue interface first (theory \<open>Rtos\<close>).
\<close>

section \<open>State\<close>

definition SHORT_ADDRESS_MAX :: u16 where "SHORT_ADDRESS_MAX = 127"
definition CMD_SET_SPEED :: u8 where "CMD_SET_SPEED = 0x3F"
definition MAX_LOCOS :: nat where "MAX_LOCOS = 50"

datatype speed_mode = SPEED_MODE_14 | SPEED_MODE_28 | SPEED_MODE_128

datatype loop_state =
  LOOP_STATE_SPEED | LOOP_STATE_FN_GROUP1 | LOOP_STATE_FN_GROUP2 | LOOP_STATE_FN_GROUP3
| LOOP_STATE_FN_GROUP4 | LOOP_STATE_FN_GROUP5 | LOOP_STATE_FN_GROUP6 | LOOP_STATE_FN_GROUP7
| LOOP_STATE_FN_GROUP8 | LOOP_STATE_FN_GROUP9 | LOOP_STATE_FN_GROUP10 | LOOP_STATE_RESTART

record loco_state =
  loco_active :: bool
  loco_address :: u16
  is_long_address :: bool
  speed_step :: u8
  speed_mode :: speed_mode
  loco_functions :: u64
  functions_hi :: u8
  group_flags :: u16

record 'q dcc_engine =
  locos :: "loco_state list"
  loop_state :: loop_state
  estop_all :: bool
  output_queue :: 'q
  last_throttle_valid :: bool
  last_throttle_addr :: u16
  last_throttle_is_long :: bool
  last_throttle_speed_step :: u8
  packet_pool :: pool

type_synonym 'q q_api = "('q, pkt_ptr) queue_api"

definition zero_loco :: loco_state where
  "zero_loco = \<lparr>loco_active = False, loco_address = 0, is_long_address = False, speed_step = 0,
     speed_mode = SPEED_MODE_14, loco_functions = 0, functions_hi = 0, group_flags = 0\<rparr>"

definition dcc_init :: "'q \<Rightarrow> pool \<Rightarrow> 'q dcc_engine" where
  "dcc_init queue pl = \<lparr>locos = replicate MAX_LOCOS zero_loco, loop_state = LOOP_STATE_SPEED,
     estop_all = False, output_queue = queue, last_throttle_valid = False, last_throttle_addr = 0,
     last_throttle_is_long = False, last_throttle_speed_step = 0, packet_pool = pl\<rparr>"

section \<open>Loco table\<close>

definition find_loco_locked :: "'q dcc_engine \<Rightarrow> u16 \<Rightarrow> nat option" where
  "find_loco_locked dcc address =
     find (\<lambda>i. loco_active (locos dcc ! i) \<and> loco_address (locos dcc ! i) = address)
       [0..<length (locos dcc)]"

definition update_loco :: "nat \<Rightarrow> (loco_state \<Rightarrow> loco_state) \<Rightarrow> 'q dcc_engine \<Rightarrow> 'q dcc_engine" where
  "update_loco i f dcc = dcc\<lparr>locos := (locos dcc)[i := f (locos dcc ! i)]\<rparr>"

definition find_or_create_loco_locked ::
  "'q dcc_engine \<Rightarrow> u16 \<Rightarrow> bool \<Rightarrow> 'q dcc_engine \<times> nat option" where
  "find_or_create_loco_locked dcc address is_long =
     (case find_loco_locked dcc address of
        Some i \<Rightarrow>
          (let is_long = (if address > SHORT_ADDRESS_MAX then True else is_long)
           in (update_loco i (\<lambda>l. l\<lparr>is_long_address := is_long\<rparr>) dcc, Some i))
      | None \<Rightarrow>
          (case find (\<lambda>i. \<not> loco_active (locos dcc ! i)) [0..<length (locos dcc)] of
             Some i \<Rightarrow>
               (update_loco i (\<lambda>l. l\<lparr>loco_active := True, loco_address := address,
                  is_long_address := is_long \<or> address > SHORT_ADDRESS_MAX, speed_step := 0,
                  speed_mode := SPEED_MODE_128, loco_functions := 0, functions_hi := 0,
                  group_flags := 0\<rparr>) dcc, Some i)
           | None \<Rightarrow> (dcc, None)))"

definition dcc_ensure_loco :: "u16 \<Rightarrow> bool \<Rightarrow> 'q dcc_engine \<Rightarrow> 'q dcc_engine" where
  "dcc_ensure_loco address is_long dcc = fst (find_or_create_loco_locked dcc address is_long)"

section \<open>Packets\<close>

definition update_packet :: "nat \<Rightarrow> (dcc_packet \<Rightarrow> dcc_packet) \<Rightarrow> pool \<Rightarrow> pool" where
  "update_packet i f pl = pl[i := f (pl ! i)]"

definition new_addressed_packet :: "u16 \<Rightarrow> bool \<Rightarrow> pool \<Rightarrow> pool \<times> pkt_ptr option" where
  "new_addressed_packet address is_long pl =
     (case packet_alloc pl of
        (pl, None) \<Rightarrow> (pl, None)
      | (pl, Some i) \<Rightarrow>
          (update_packet i (\<lambda>p.
             (if is_long \<or> address > SHORT_ADDRESS_MAX
              then packet_add_byte (u8_of address)
                     (packet_add_byte (0xC0 OR u8_of (shr address 8 AND 0x3F)) p)
              else packet_add_byte (u8_of address) p)\<lparr>pkt_address := address\<rparr>) pl, Some i))"

text \<open>The arithmetic of \<open>speed_step_28\<close> is done on \<open>int\<close>; both results fit a byte.\<close>

definition speed_step_28 :: "u8 \<Rightarrow> u8" where
  "speed_step_28 step =
     (let speed = step AND 0x7F;
          direction = (step AND 0x80 \<noteq> 0);
          code28 =
            (if speed \<le> 1 then speed
             else let speed28 = word_of_nat ((unat speed * 10 + 36) div 46) :: u8;
                      code28 = word_of_nat ((unat speed28 + 3) div 2) :: u8
                  in if speed28 AND 1 = 0 then code28 OR 0x10 else code28);
          res = 0x40 OR code28
      in if direction then res OR 0x20 else res)"

definition build_throttle_packet ::
  "u16 \<Rightarrow> bool \<Rightarrow> u8 \<Rightarrow> speed_mode \<Rightarrow> pool \<Rightarrow> pool \<times> pkt_ptr option" where
  "build_throttle_packet address is_long step mode pl =
     (case new_addressed_packet address is_long pl of
        (pl, None) \<Rightarrow> (pl, None)
      | (pl, Some i) \<Rightarrow>
          (update_packet i (\<lambda>p.
             (case mode of
                SPEED_MODE_28 \<Rightarrow> packet_add_byte (speed_step_28 step) p
              | SPEED_MODE_128 \<Rightarrow> packet_add_byte step (packet_add_byte CMD_SET_SPEED p)
              | SPEED_MODE_14 \<Rightarrow> p)
             \<lparr>pkt_priority := (if step < 2 then PRIORITY_EMERGENCY else PRIORITY_HIGH),
               pkt_repeats := 0\<rparr>) pl, Some i))"

definition send_packet :: "'q q_api \<Rightarrow> pkt_ptr option \<Rightarrow> 'q dcc_engine \<Rightarrow> 'q dcc_engine" where
  "send_packet R pkt dcc =
     (case pkt of
        None \<Rightarrow> dcc
      | Some i \<Rightarrow>
          (case xQueueSend R (output_queue dcc) i of
             Some q \<Rightarrow> dcc\<lparr>output_queue := q\<rparr>
           | None \<Rightarrow> dcc\<lparr>packet_pool := packet_free (packet_pool dcc) (Some i)\<rparr>))"

section \<open>Throttle and functions\<close>

definition dcc_set_throttle ::
  "'q q_api \<Rightarrow> u16 \<Rightarrow> bool \<Rightarrow> u8 \<Rightarrow> bool \<Rightarrow> 'q dcc_engine \<Rightarrow> 'q dcc_engine" where
  "dcc_set_throttle R address is_long speed direction dcc =
     (let step = (speed AND 0x7F) OR (if direction then 0x80 else 0)
      in case find_or_create_loco_locked dcc address is_long of
           (dcc, None) \<Rightarrow> dcc
         | (dcc, Some i) \<Rightarrow>
             (let dcc = update_loco i (\<lambda>l. l\<lparr>speed_step := step\<rparr>) dcc;
                  mode = speed_mode (locos dcc ! i);
                  snapshot_long = is_long_address (locos dcc ! i);
                  dcc = dcc\<lparr>last_throttle_valid := True, last_throttle_addr := address,
                            last_throttle_is_long := snapshot_long,
                            last_throttle_speed_step := step\<rparr>
              in if estop_all dcc then dcc
                 else case build_throttle_packet address snapshot_long step mode (packet_pool dcc) of
                        (pl, pkt) \<Rightarrow> send_packet R pkt (dcc\<lparr>packet_pool := pl\<rparr>)))"

definition dcc_get_last_throttle :: "'q dcc_engine \<Rightarrow> (u16 \<times> bool \<times> u8) option" where
  "dcc_get_last_throttle dcc =
     (if last_throttle_valid dcc
      then Some (last_throttle_addr dcc, last_throttle_is_long dcc, last_throttle_speed_step dcc)
      else None)"

definition set_function_bit :: "u16 \<Rightarrow> bool \<Rightarrow> loco_state \<Rightarrow> loco_state" where
  "set_function_bit fn_number on l =
     (if fn_number < 64
      then let b = shl 1 (unat fn_number)
           in if on then l\<lparr>loco_functions := loco_functions l OR b\<rparr>
              else l\<lparr>loco_functions := loco_functions l AND NOT b\<rparr>
      else let b = shl 1 (unat (fn_number - 64))
           in if on then l\<lparr>functions_hi := functions_hi l OR b\<rparr>
              else l\<lparr>functions_hi := functions_hi l AND NOT b\<rparr>)"

definition dcc_set_function :: "u16 \<Rightarrow> bool \<Rightarrow> u16 \<Rightarrow> bool \<Rightarrow> 'q dcc_engine \<Rightarrow> 'q dcc_engine" where
  "dcc_set_function address is_long fn_number on dcc =
     (if fn_number > MAX_FN_NUMBER then dcc
      else case find_or_create_loco_locked dcc address is_long of
             (dcc, None) \<Rightarrow> dcc
           | (dcc, Some i) \<Rightarrow>
               update_loco i (\<lambda>l.
                 let l' = set_function_bit fn_number on l
                 in if loco_functions l' \<noteq> loco_functions l \<or> functions_hi l' \<noteq> functions_hi l
                    then l'\<lparr>group_flags := fn_update_group_flags (group_flags l') fn_number\<rparr>
                    else l') dcc)"

section \<open>Emergency stop\<close>

definition estop_step :: "u8 \<Rightarrow> u8" where
  "estop_step step = (step AND 0x80) OR 1"

definition dcc_emergency_stop ::
  "'q q_api \<Rightarrow> u16 \<Rightarrow> bool \<Rightarrow> 'q dcc_engine \<Rightarrow> 'q dcc_engine" where
  "dcc_emergency_stop R address is_long dcc =
     (case (case find_loco_locked dcc address of
              None \<Rightarrow> (dcc, 0, SPEED_MODE_128, is_long \<or> address > SHORT_ADDRESS_MAX)
            | Some i \<Rightarrow>
                (let dcc = update_loco i (\<lambda>l. l\<lparr>speed_step := speed_step l AND 0x80\<rparr>) dcc;
                     l = locos dcc ! i;
                     dcc = (if last_throttle_valid dcc \<and> last_throttle_addr dcc = address
                            then dcc\<lparr>last_throttle_speed_step := speed_step l\<rparr> else dcc)
                 in (dcc, speed_step l, speed_mode l, is_long_address l))) of
        (dcc, step, mode, addr_is_long) \<Rightarrow>
          (case build_throttle_packet address addr_is_long (estop_step step) mode (packet_pool dcc) of
             (pl, None) \<Rightarrow> dcc\<lparr>packet_pool := pl\<rparr>
           | (pl, Some i) \<Rightarrow>
               send_packet R (Some i)
                 (dcc\<lparr>packet_pool := update_packet i (\<lambda>p. p\<lparr>pkt_priority := PRIORITY_EMERGENCY\<rparr>) pl\<rparr>)))"

definition dcc_forget_loco :: "'q q_api \<Rightarrow> u16 \<Rightarrow> 'q dcc_engine \<Rightarrow> 'q dcc_engine" where
  "dcc_forget_loco R address dcc =
     (let is_long = (case find_loco_locked dcc address of
                       Some i \<Rightarrow> is_long_address (locos dcc ! i)
                     | None \<Rightarrow> address > SHORT_ADDRESS_MAX);
          dcc = dcc_emergency_stop R address is_long dcc
      in case find_loco_locked dcc address of
           Some i \<Rightarrow> update_loco i (\<lambda>l. l\<lparr>loco_active := False\<rparr>) dcc
         | None \<Rightarrow> dcc)"

text \<open>A packet taken from the pool, filled by \<open>build\<close> and sent; nothing if the pool is empty.\<close>

definition alloc_and_send ::
  "'q q_api \<Rightarrow> (dcc_packet \<Rightarrow> dcc_packet) \<Rightarrow> 'q dcc_engine \<Rightarrow> 'q dcc_engine" where
  "alloc_and_send R build dcc =
     (case packet_alloc (packet_pool dcc) of
        (pl, None) \<Rightarrow> dcc\<lparr>packet_pool := pl\<rparr>
      | (pl, Some i) \<Rightarrow> send_packet R (Some i) (dcc\<lparr>packet_pool := update_packet i build pl\<rparr>))"

definition dcc_emergency_stop_all :: "'q q_api \<Rightarrow> 'q dcc_engine \<Rightarrow> 'q dcc_engine" where
  "dcc_emergency_stop_all R dcc =
     alloc_and_send R (\<lambda>p. (packet_add_byte 0x71 (packet_add_byte 0x00 p))
         \<lparr>pkt_address := 0, pkt_priority := PRIORITY_EMERGENCY, pkt_repeats := 3\<rparr>)
       (dcc\<lparr>estop_all := True\<rparr>)"

definition dcc_clear_emergency_stop_all :: "'q dcc_engine \<Rightarrow> 'q dcc_engine" where
  "dcc_clear_emergency_stop_all dcc = dcc\<lparr>estop_all := False\<rparr>"

definition dcc_emergency_stop_all_held :: "'q dcc_engine \<Rightarrow> bool" where
  "dcc_emergency_stop_all_held dcc = estop_all dcc"

section \<open>Programming on the main and accessories\<close>

definition dcc_pom_write_byte ::
  "'q q_api \<Rightarrow> u16 \<Rightarrow> bool \<Rightarrow> u16 \<Rightarrow> u8 \<Rightarrow> 'q dcc_engine \<Rightarrow> 'q dcc_engine" where
  "dcc_pom_write_byte R address is_long cv value dcc =
     alloc_and_send R (packet_build_pom_write_byte address is_long cv value 3) dcc"

definition dcc_pom_write_long_address ::
  "'q q_api \<Rightarrow> u16 \<Rightarrow> bool \<Rightarrow> u8 \<Rightarrow> u8 \<Rightarrow> 'q dcc_engine \<Rightarrow> 'q dcc_engine" where
  "dcc_pom_write_long_address R address is_long cv17 cv18 dcc =
     alloc_and_send R (packet_build_long_address address is_long cv17 cv18 3) dcc"

definition dcc_pom_write_consist ::
  "'q q_api \<Rightarrow> u16 \<Rightarrow> bool \<Rightarrow> u8 \<Rightarrow> 'q dcc_engine \<Rightarrow> 'q dcc_engine" where
  "dcc_pom_write_consist R address is_long cv19 dcc =
     alloc_and_send R (packet_build_consist_control address is_long cv19 3) dcc"

definition dcc_pom_write_long_consist ::
  "'q q_api \<Rightarrow> u16 \<Rightarrow> bool \<Rightarrow> u8 \<Rightarrow> u8 \<Rightarrow> 'q dcc_engine \<Rightarrow> 'q dcc_engine" where
  "dcc_pom_write_long_consist R address is_long cv19 cv20 dcc =
     alloc_and_send R (packet_build_long_consist_address address is_long cv19 cv20 3) dcc"

definition dcc_basic_accessory ::
  "'q q_api \<Rightarrow> u16 \<Rightarrow> bool \<Rightarrow> bool \<Rightarrow> 'q dcc_engine \<Rightarrow> 'q dcc_engine" where
  "dcc_basic_accessory R addr normal activate dcc =
     alloc_and_send R (packet_build_basic_accessory addr normal activate 3) dcc"

definition dcc_extended_accessory ::
  "'q q_api \<Rightarrow> u16 \<Rightarrow> u8 \<Rightarrow> 'q dcc_engine \<Rightarrow> 'q dcc_engine" where
  "dcc_extended_accessory R addr aspect dcc =
     alloc_and_send R (packet_build_extended_accessory addr aspect 3) dcc"

definition dcc_pom_read_byte ::
  "'q q_api \<Rightarrow> u16 \<Rightarrow> bool \<Rightarrow> u16 \<Rightarrow> int \<Rightarrow> 'q dcc_engine \<Rightarrow> 'q dcc_engine" where
  "dcc_pom_read_byte R address is_long cv repeats dcc =
     alloc_and_send R (packet_build_pom_read_byte address is_long cv repeats) dcc"

section \<open>The reminder loop\<close>

text \<open>
  The function group a loop state stands for: its flag and the instruction bytes the
  \<open>switch\<close> adds after the address.
\<close>

definition fn_reminder :: "loop_state \<Rightarrow> loco_state \<Rightarrow> (u16 \<times> u8 list) option" where
  "fn_reminder state l =
     (case state of
        LOOP_STATE_FN_GROUP1 \<Rightarrow> Some (FN_GROUP1, [fn_encode_group1 (loco_functions l)])
      | LOOP_STATE_FN_GROUP2 \<Rightarrow> Some (FN_GROUP2, [fn_encode_group2 (loco_functions l)])
      | LOOP_STATE_FN_GROUP3 \<Rightarrow> Some (FN_GROUP3, [fn_encode_group3 (loco_functions l)])
      | LOOP_STATE_FN_GROUP4 \<Rightarrow> Some (FN_GROUP4, [0xDE, fn_encode_group4 (loco_functions l)])
      | LOOP_STATE_FN_GROUP5 \<Rightarrow> Some (FN_GROUP5, [0xDF, fn_encode_group5 (loco_functions l)])
      | LOOP_STATE_FN_GROUP6 \<Rightarrow> Some (FN_GROUP6, [0xD8, fn_encode_group6 (loco_functions l)])
      | LOOP_STATE_FN_GROUP7 \<Rightarrow> Some (FN_GROUP7, [0xD9, fn_encode_group7 (loco_functions l)])
      | LOOP_STATE_FN_GROUP8 \<Rightarrow> Some (FN_GROUP8, [0xDA, fn_encode_group8 (loco_functions l)])
      | LOOP_STATE_FN_GROUP9 \<Rightarrow> Some (FN_GROUP9, [0xDB, fn_encode_group9 (loco_functions l)])
      | LOOP_STATE_FN_GROUP10 \<Rightarrow>
          Some (FN_GROUP10, [0xDC, fn_encode_group10 (loco_functions l) (functions_hi l)])
      | _ \<Rightarrow> None)"

definition send_reminder_packets :: "'q q_api \<Rightarrow> nat \<Rightarrow> 'q dcc_engine \<Rightarrow> 'q dcc_engine" where
  "send_reminder_packets R i dcc =
     (let l = locos dcc ! i;
          estop = (loop_state dcc = LOOP_STATE_SPEED \<and> estop_all dcc);
          built =
            (if loop_state dcc = LOOP_STATE_SPEED
             then build_throttle_packet (loco_address l) (is_long_address l)
                    (if estop then estop_step (speed_step l) else speed_step l)
                    (speed_mode l) (packet_pool dcc)
             else case fn_reminder (loop_state dcc) l of
                    Some (flag, bytes) \<Rightarrow>
                      (if group_flags l AND flag \<noteq> 0
                       then case new_addressed_packet (loco_address l) (is_long_address l)
                                   (packet_pool dcc) of
                              (pl, None) \<Rightarrow> (pl, None)
                            | (pl, Some p) \<Rightarrow> (update_packet p (fold packet_add_byte bytes) pl, Some p)
                       else (packet_pool dcc, None))
                  | None \<Rightarrow> (packet_pool dcc, None))
      in case built of
           (pl, None) \<Rightarrow> dcc\<lparr>packet_pool := pl\<rparr>
         | (pl, Some p) \<Rightarrow>
             send_packet R (Some p)
               (dcc\<lparr>packet_pool := update_packet p (\<lambda>k. k\<lparr>pkt_priority :=
                      (if estop then PRIORITY_EMERGENCY else PRIORITY_LOW), pkt_repeats := 0\<rparr>) pl\<rparr>))"

fun next_loop_state :: "loop_state \<Rightarrow> loop_state" where
  "next_loop_state LOOP_STATE_SPEED = LOOP_STATE_FN_GROUP1"
| "next_loop_state LOOP_STATE_FN_GROUP1 = LOOP_STATE_FN_GROUP2"
| "next_loop_state LOOP_STATE_FN_GROUP2 = LOOP_STATE_FN_GROUP3"
| "next_loop_state LOOP_STATE_FN_GROUP3 = LOOP_STATE_FN_GROUP4"
| "next_loop_state LOOP_STATE_FN_GROUP4 = LOOP_STATE_FN_GROUP5"
| "next_loop_state LOOP_STATE_FN_GROUP5 = LOOP_STATE_FN_GROUP6"
| "next_loop_state LOOP_STATE_FN_GROUP6 = LOOP_STATE_FN_GROUP7"
| "next_loop_state LOOP_STATE_FN_GROUP7 = LOOP_STATE_FN_GROUP8"
| "next_loop_state LOOP_STATE_FN_GROUP8 = LOOP_STATE_FN_GROUP9"
| "next_loop_state LOOP_STATE_FN_GROUP9 = LOOP_STATE_FN_GROUP10"
| "next_loop_state LOOP_STATE_FN_GROUP10 = LOOP_STATE_RESTART"
| "next_loop_state LOOP_STATE_RESTART = LOOP_STATE_RESTART"

definition dcc_update :: "'q q_api \<Rightarrow> 'q dcc_engine \<Rightarrow> 'q dcc_engine" where
  "dcc_update R dcc =
     (let dcc = fold (\<lambda>i dcc. if loco_active (locos dcc ! i) then send_reminder_packets R i dcc else dcc)
                  [0..<length (locos dcc)] dcc;
          dcc = dcc\<lparr>loop_state := next_loop_state (loop_state dcc)\<rparr>
      in if loop_state dcc = LOOP_STATE_RESTART then dcc\<lparr>loop_state := LOOP_STATE_SPEED\<rparr> else dcc)"

end
