(* ===== verification/Dcc_Sending.thy ===== *)
theory Dcc_Sending
  imports Dcc
begin

text \<open>
  Laws of the DCC engine's sending path (theory \<open>Dcc\<close>): every operation that sends is one
  call of \<open>alloc_and_send\<close>, which keeps the ownership of the packets between the pool
  and the output queue, and the fillings the engine uses hold exactly their bytes.
\<close>

section \<open>Sending: one lemma for every operation\<close>

text \<open>
  Every operation that sends does the same: take a packet from the pool, fill it, put it
  into the queue, and give it back when the queue is full. \<open>throttle_packet\<close> and
  \<open>addressed\<close> are the fillings of the throttle and reminder packets.
\<close>

definition addressed :: "u16 \<Rightarrow> bool \<Rightarrow> dcc_packet \<Rightarrow> dcc_packet" where
  "addressed address is_long p = (add_address address is_long p)\<lparr>pkt_address := address\<rparr>"

definition throttle_packet :: "u16 \<Rightarrow> bool \<Rightarrow> u8 \<Rightarrow> speed_mode \<Rightarrow> dcc_packet \<Rightarrow> dcc_packet" where
  "throttle_packet address is_long step mode p =
     (case mode of
        SPEED_MODE_28 \<Rightarrow> packet_add_byte (speed_step_28 step) (addressed address is_long p)
      | SPEED_MODE_128 \<Rightarrow> packet_add_byte step (packet_add_byte CMD_SET_SPEED (addressed address is_long p))
      | SPEED_MODE_14 \<Rightarrow> addressed address is_long p)
     \<lparr>pkt_priority := (if step < 2 then PRIORITY_EMERGENCY else PRIORITY_HIGH), pkt_repeats := 0\<rparr>"

lemma new_addressed_packet_eq:
  "new_addressed_packet address is_long pl =
     (case packet_alloc pl of (pl, None) \<Rightarrow> (pl, None)
      | (pl, Some i) \<Rightarrow> (update_packet i (addressed address is_long) pl, Some i))"
  by (simp add: new_addressed_packet_def addressed_def [abs_def] add_address_def
      SHORT_ADDRESS_MAX_def SHORT_ADDRESS_MAX_PKT_def split: prod.splits option.splits)

lemma packet_alloc_index: "packet_alloc pl = (pl', Some i) \<Longrightarrow> i < length pl'"
  using packet_alloc_Some by fastforce

lemma update_packet_twice:
  "i < length pl \<Longrightarrow> update_packet i g (update_packet i f pl) = update_packet i (\<lambda>p. g (f p)) pl"
  by (simp add: update_packet_def)

lemma build_throttle_packet_eq:
  "build_throttle_packet address is_long step mode pl =
     (case packet_alloc pl of (pl, None) \<Rightarrow> (pl, None)
      | (pl, Some i) \<Rightarrow> (update_packet i (throttle_packet address is_long step mode) pl, Some i))"
  unfolding build_throttle_packet_def new_addressed_packet_eq
  by (auto simp: throttle_packet_def [abs_def] update_packet_twice packet_alloc_index
      split: prod.splits option.splits speed_mode.splits)

lemma send_throttle_eq:
  "(case build_throttle_packet address is_long step mode (packet_pool dcc) of
      (pl, pkt) \<Rightarrow> send_packet R pkt (dcc\<lparr>packet_pool := pl\<rparr>)) =
   alloc_and_send R (throttle_packet address is_long step mode) dcc"
  unfolding build_throttle_packet_eq alloc_and_send_def
  by (auto simp: send_packet_def split: prod.splits option.splits)

lemma send_throttle_prio_eq:
  "(case build_throttle_packet address is_long step mode (packet_pool dcc) of
      (pl, None) \<Rightarrow> dcc\<lparr>packet_pool := pl\<rparr>
    | (pl, Some i) \<Rightarrow> send_packet R (Some i)
        (dcc\<lparr>packet_pool := update_packet i f pl\<rparr>)) =
   alloc_and_send R (\<lambda>p. f (throttle_packet address is_long step mode p)) dcc"
  unfolding build_throttle_packet_eq alloc_and_send_def
  by (auto simp: update_packet_twice packet_alloc_index split: prod.splits option.splits)

lemma send_addressed_eq:
  "(case (case new_addressed_packet address is_long (packet_pool dcc) of
            (pl, None) \<Rightarrow> (pl, None)
          | (pl, Some p) \<Rightarrow> (update_packet p g pl, Some p)) of
      (pl, None) \<Rightarrow> dcc\<lparr>packet_pool := pl\<rparr>
    | (pl, Some i) \<Rightarrow> send_packet R (Some i) (dcc\<lparr>packet_pool := update_packet i f pl\<rparr>)) =
   alloc_and_send R (\<lambda>p. f (g (addressed address is_long p))) dcc"
  unfolding new_addressed_packet_eq alloc_and_send_def
  by (auto simp: update_packet_twice packet_alloc_index split: prod.splits option.splits)

lemma alloc_and_send_fields [simp]:
  "locos (alloc_and_send R f dcc) = locos dcc"
  "loop_state (alloc_and_send R f dcc) = loop_state dcc"
  "estop_all (alloc_and_send R f dcc) = estop_all dcc"
  "last_throttle_valid (alloc_and_send R f dcc) = last_throttle_valid dcc"
  "last_throttle_addr (alloc_and_send R f dcc) = last_throttle_addr dcc"
  "last_throttle_is_long (alloc_and_send R f dcc) = last_throttle_is_long dcc"
  "last_throttle_speed_step (alloc_and_send R f dcc) = last_throttle_speed_step dcc"
  by (simp_all add: alloc_and_send_def send_packet_def split: prod.splits option.splits)

text \<open>
  What sending does to the queue and the pool: \<open>queued R P dcc dcc'\<close> says that some
  packets, all with the property \<open>P\<close>, were put at the back of the queue, that they were
  free before and are exactly the packets newly in use, and that no packet in use before
  was touched. It composes.
\<close>

definition queued ::
  "'q q_api \<Rightarrow> (dcc_packet \<Rightarrow> bool) \<Rightarrow> 'q dcc_engine \<Rightarrow> 'q dcc_engine \<Rightarrow> bool" where
  "queued R P dcc dcc' \<longleftrightarrow>
     (\<exists>new. queue_items R (output_queue dcc') = queue_items R (output_queue dcc) @ new \<and>
        distinct new \<and> set new \<inter> pool_used (packet_pool dcc) = {} \<and>
        pool_used (packet_pool dcc') = pool_used (packet_pool dcc) \<union> set new \<and>
        (\<forall>i\<in>pool_used (packet_pool dcc). packet_pool dcc' ! i = packet_pool dcc ! i) \<and>
        (\<forall>i\<in>set new. P (packet_pool dcc' ! i))) \<and>
     pool_wf (packet_pool dcc')"

lemma queued_refl:
  "pool_wf (packet_pool dcc') \<Longrightarrow> packet_pool dcc' = packet_pool dcc \<Longrightarrow>
   output_queue dcc' = output_queue dcc \<Longrightarrow> queued R P dcc dcc'"
  by (auto simp: queued_def)

lemma queued_trans:
  assumes "queued R P a b" and "queued R P b c"
  shows "queued R P a c"
proof -
  from assms(1) obtain xs where xs: "queue_items R (output_queue b) = queue_items R (output_queue a) @ xs"
      "distinct xs" "set xs \<inter> pool_used (packet_pool a) = {}"
      "pool_used (packet_pool b) = pool_used (packet_pool a) \<union> set xs"
      "\<forall>i\<in>pool_used (packet_pool a). packet_pool b ! i = packet_pool a ! i"
      "\<forall>i\<in>set xs. P (packet_pool b ! i)"
    by (auto simp: queued_def)
  from assms(2) obtain ys where ys: "queue_items R (output_queue c) = queue_items R (output_queue b) @ ys"
      "distinct ys" "set ys \<inter> pool_used (packet_pool b) = {}"
      "pool_used (packet_pool c) = pool_used (packet_pool b) \<union> set ys"
      "\<forall>i\<in>pool_used (packet_pool b). packet_pool c ! i = packet_pool b ! i"
      "\<forall>i\<in>set ys. P (packet_pool c ! i)" and wf: "pool_wf (packet_pool c)"
    by (auto simp: queued_def)
  show ?thesis
    unfolding queued_def
    by (rule conjI [OF exI [of _ "xs @ ys"] wf]) (use xs ys in \<open>auto simp: Un_assoc\<close>)
qed

lemma queued_mono: "queued R P a b \<Longrightarrow> (\<And>p. P p \<Longrightarrow> Q p) \<Longrightarrow> queued R Q a b"
  unfolding queued_def by blast

lemma queued_from:
  "packet_pool a' = packet_pool a \<Longrightarrow> output_queue a' = output_queue a \<Longrightarrow>
   queued R P a' b = queued R P a b"
  by (simp add: queued_def)

text \<open>
  A filling is \<open>proper\<close> for \<open>P\<close> when it turns every fresh packet into one that is
  well-formed, still in use, and has property \<open>P\<close>.
\<close>

definition proper :: "(dcc_packet \<Rightarrow> bool) \<Rightarrow> (dcc_packet \<Rightarrow> dcc_packet) \<Rightarrow> bool" where
  "proper P f \<longleftrightarrow> (\<forall>p. holds p [] \<and> pkt_in_use p \<longrightarrow> pkt_wf (f p) \<and> pkt_in_use (f p) \<and> P (f p))"

lemma queued_alloc_and_send:
  assumes "fifo_queue R" and "pool_wf (packet_pool dcc)" and "proper P f"
  shows "queued R P dcc (alloc_and_send R f dcc)"
proof (cases "packet_alloc (packet_pool dcc)")
  case (Pair pl r)
  show ?thesis
  proof (cases r)
    case None
    with Pair have "pl = packet_pool dcc" by (simp add: packet_alloc_None)
    with Pair None assms(2) show ?thesis
      by (auto simp: alloc_and_send_def intro: queued_refl)
  next
    case (Some i)
    note al = Pair [unfolded Some]
    note fresh = pool.alloc_Some [OF assms(2) al]
    note i = packet_alloc_holds [OF assms(2) al]
    have f: "pkt_wf (f (pl ! i))" "pkt_in_use (f (pl ! i))" "P (f (pl ! i))"
      using assms(3) i by (auto simp: proper_def)
    have others: "j \<in> pool_used (packet_pool dcc) \<Longrightarrow> pl[i := q] ! j = packet_pool dcc ! j" for j q
      using fresh packet_alloc_Some(3) [OF al] by (cases "j = i") auto
    let ?pl = "update_packet i f pl"
    have pl: "pool_wf ?pl" "pool_used ?pl = insert i (pool_used (packet_pool dcc))"
      using fresh i(1) f by (auto simp: update_packet_def pool_used_update intro!: pool_wf_update pkt_wf_shape)
    show ?thesis
    proof (cases "xQueueSend R (output_queue dcc) i")
      case None
      have "alloc_and_send R f dcc = dcc\<lparr>packet_pool := packet_free ?pl (Some i)\<rparr>"
        using al None by (simp add: alloc_and_send_def send_packet_def)
      moreover have "pool_used (packet_free ?pl (Some i)) = pool_used (packet_pool dcc)"
        "pool_wf (packet_free ?pl (Some i))"
        using pool.free_Some [of ?pl i] pl fresh by auto
      ultimately show ?thesis
        using others by (auto simp: queued_def packet_free_def update_packet_def)
    next
      case (Some q)
      have "alloc_and_send R f dcc = dcc\<lparr>packet_pool := ?pl, output_queue := q\<rparr>"
        using al Some by (simp add: alloc_and_send_def send_packet_def)
      then show ?thesis
        using fifo_send [OF assms(1) Some] fresh pl others f i(1)
        by (auto simp: queued_def update_packet_def intro!: exI [of _ "[i]"])
    qed
  qed
qed

section \<open>Packet contents\<close>

lemma add_address_in_use [simp]: "pkt_in_use (add_address a l p) = pkt_in_use p"
  by (simp add: add_address_def)

lemma packet_reset_in_use [simp]: "pkt_in_use (packet_reset p) = pkt_in_use p"
  by (simp add: packet_reset_def)

lemma packet_start_ops_in_use [simp]: "pkt_in_use (packet_start_ops a l r p) = pkt_in_use p"
  by (simp add: packet_start_ops_def)

lemma packet_builders_in_use [simp]:
  "pkt_in_use (packet_build_pom oc a l cv v r p) = pkt_in_use p"
  "pkt_in_use (packet_build_consist_control a l c r p) = pkt_in_use p"
  "pkt_in_use (packet_build_short_form oc a l x y r p) = pkt_in_use p"
  "pkt_in_use (packet_start_accessory addr b r p) = pkt_in_use p"
  by (simp_all add: packet_build_pom_def packet_build_consist_control_def
      packet_build_short_form_def packet_start_accessory_def Let_def)

lemma holds_wf: "holds p bs \<Longrightarrow> pkt_wf p"
  by (simp add: holds_def)

lemma holds_shape: "holds p bs \<Longrightarrow> pkt_shape p"
  by (simp add: holds_def pkt_wf_shape)

lemma holds_addressed: "holds p [] \<Longrightarrow> holds (addressed a l p) (address_bytes a l)"
  using holds_add_address [of p "[]" a l] by (simp add: addressed_def)

text \<open>The bytes of a throttle packet after the address.\<close>

definition throttle_bytes :: "u8 \<Rightarrow> speed_mode \<Rightarrow> u8 list" where
  "throttle_bytes step mode =
     (case mode of SPEED_MODE_28 \<Rightarrow> [speed_step_28 step] | SPEED_MODE_128 \<Rightarrow> [CMD_SET_SPEED, step]
      | SPEED_MODE_14 \<Rightarrow> [])"

lemma holds_throttle_packet:
  assumes "holds p []"
  shows "holds (throttle_packet a l step mode p) (address_bytes a l @ throttle_bytes step mode)"
proof -
  note h = holds_addressed [OF assms, of a l]
  note l = address_bytes_length [of a l]
  show ?thesis
    using h l holds_add_byte [OF h] holds_add_byte [OF holds_add_byte [OF h]]
    by (auto simp: throttle_packet_def throttle_bytes_def split: speed_mode.splits)
qed

lemma throttle_packet_fields [simp]:
  "pkt_in_use (throttle_packet a l step mode p) = pkt_in_use p"
  "pkt_address (throttle_packet a l step mode p) = a"
  "pkt_in_use (addressed a l p) = pkt_in_use p"
  "pkt_address (addressed a l p) = a"
  by (simp_all add: throttle_packet_def addressed_def split: speed_mode.splits)

lemma decode_address_rest: "\<exists>x y. decode_address (address_bytes a l @ bs) = Some (x, y, bs)"
proof (cases "l \<or> a > SHORT_ADDRESS_MAX_PKT")
  case True
  have "(0xC0 OR u8_of (shr a 8 AND 0x3F)) AND 0x80 \<noteq> (0 :: u8)"
    and "(0xC0 OR u8_of (shr a 8 AND 0x3F)) AND 0xC0 = (0xC0 :: u8)"
    by (simp_all add: word_bits_simps)
  with True show ?thesis by (auto simp: address_bytes_def)
next
  case False
  then have "a < 2 ^ 7"
    by (simp add: SHORT_ADDRESS_MAX_PKT_def not_less word_le_nat_alt word_less_nat_alt)
  then have "\<forall>n\<ge>7. \<not> bit a n" using bit_above_bound by blast
  then have "u8_of a AND 0x80 = 0" by (simp add: word_bits_simps)
  with False show ?thesis by (auto simp: address_bytes_def)
qed

text \<open>
  Does an instruction make a loco move? A 128-step or 28-step speed instruction does
  unless its step is stop or emergency stop (the two lowest codes of either form).
\<close>

fun drives_instruction :: "u8 list \<Rightarrow> bool" where
  "drives_instruction [c, s] = (c = 0x3F \<and> 2 \<le> s AND 0x7F)"
| "drives_instruction [c] = (c AND 0xC0 = 0x40 \<and> 2 \<le> c AND 0x0F)"
| "drives_instruction _ = False"

definition drives :: "u8 list \<Rightarrow> bool" where
  "drives bs = (case decode_address bs of Some (_, _, instr) \<Rightarrow> drives_instruction instr | None \<Rightarrow> False)"

lemma drives_addressed [simp]: "drives (address_bytes a l @ bs) = drives_instruction bs"
  using decode_address_rest [of a l bs] by (auto simp: drives_def)

text \<open>A packet that moves nothing.\<close>

definition harmless :: "dcc_packet \<Rightarrow> bool" where
  "harmless p \<longleftrightarrow> \<not> drives (pkt_bytes p)"

lemma properI:
  assumes "\<And>p. holds p [] \<Longrightarrow> holds (f p) (bs p)" and "\<And>p. pkt_in_use (f p) = pkt_in_use p"
    and "\<And>p. holds p [] \<Longrightarrow> P (f p)"
  shows "proper P f"
  using assms holds_wf unfolding proper_def by blast

lemma proper_harmless:
  assumes "\<And>p. holds p [] \<Longrightarrow> holds (f p) (bs p)" and "\<And>p. pkt_in_use (f p) = pkt_in_use p"
    and "\<And>p. \<not> drives (bs p)"
  shows "proper harmless f"
  using assms(1,2) by (rule properI) (use assms holds_bytes in \<open>force simp: harmless_def\<close>)+

text \<open>Every filling the engine uses, with its bytes.\<close>

lemma proper_pom [intro]: "proper harmless (packet_build_pom opc a l cv v r)"
  by (rule proper_harmless [OF holds_pom [OF holds_shape]]) simp_all

lemma proper_pom_ops [intro]:
  "proper harmless (packet_build_pom_write_byte a l cv v r)"
  "proper harmless (packet_build_pom_read_byte a l cv r)"
  using proper_pom by (simp_all add: packet_build_pom_write_byte_def [abs_def]
      packet_build_pom_read_byte_def [abs_def])

lemma proper_short_form [intro]: "proper harmless (packet_build_short_form opc a l x y r)"
  by (rule proper_harmless [OF holds_short_form [OF holds_shape]]) simp_all

lemma proper_long_address [intro]:
  "proper harmless (packet_build_long_address a l x y r)"
  "proper harmless (packet_build_long_consist_address a l x y r)"
  using proper_short_form by (simp_all add: packet_build_long_address_def [abs_def]
      packet_build_long_consist_address_def [abs_def])

lemma proper_consist [intro]: "proper harmless (packet_build_consist_control a l c r)"
  by (rule proper_harmless [OF holds_consist_control [OF holds_shape]]) auto

lemma accessory_not_drives: "\<not> drives ((0x80 OR u8_of (shr addr 2 AND 0x3F)) # bs)"
  for addr :: u16
proof -
  have "(0x80 OR u8_of (shr addr 2 AND 0x3F)) AND 0x80 \<noteq> (0 :: u8)"
    and "(0x80 OR u8_of (shr addr 2 AND 0x3F)) AND 0xC0 \<noteq> (0xC0 :: u8)"
    by (simp_all add: word_bits_simps)
  then show ?thesis by (simp add: drives_def)
qed

lemma proper_accessory [intro]:
  "proper harmless (packet_build_basic_accessory addr n c r)"
  "proper harmless (packet_build_extended_accessory addr v r)"
proof -
  show "proper harmless (packet_build_basic_accessory addr n c r)"
    unfolding packet_build_basic_accessory_def [abs_def]
    by (rule proper_harmless [OF holds_start_accessory [OF holds_shape]])
      (simp_all only: packet_builders_in_use accessory_not_drives not_False_eq_True)
  have "holds (packet_build_extended_accessory addr v r p)
      (([0x80 OR u8_of (shr addr 2 AND 0x3F),
         0x01 OR u8_of (shr (NOT addr) 4 AND 0x70) OR u8_of (shl (addr AND 0x03) 1)]) @ [v])"
    if "holds p []" for p
    unfolding packet_build_extended_accessory_def
    by (rule holds_add_byte [OF holds_start_accessory [OF holds_shape [OF that]]]) simp
  then show "proper harmless (packet_build_extended_accessory addr v r)"
    by (rule proper_harmless)
      (simp_all only: packet_build_extended_accessory_def packet_add_byte_fields
        packet_builders_in_use append_Cons accessory_not_drives not_False_eq_True)
qed

text \<open>Emergency stop steps, and every step whose speed is zero, are harmless in every mode.\<close>

lemma not_2_le_1 [simp]: "\<not> (2 :: u8) \<le> 1"
  by (simp add: word_le_nat_alt)

lemma speed_step_28_stop:
  assumes "s AND 0x7F = 0 \<or> s AND 0x7F = 1"
  shows "\<not> drives_instruction [speed_step_28 s]"
  using assms by (auto simp: speed_step_28_def Let_def)

lemma throttle_bytes_stop:
  assumes "s AND 0x7F = 0 \<or> s AND 0x7F = 1"
  shows "\<not> drives_instruction (throttle_bytes s mode)"
  using assms speed_step_28_stop [OF assms]
  by (auto simp: throttle_bytes_def split: speed_mode.splits)

lemma estop_step_speed: "estop_step s AND 0x7F = 1"
  by (simp add: estop_step_def word_bits_simps)

lemma proper_throttle_stop:
  assumes "s AND 0x7F = 0 \<or> s AND 0x7F = 1" and "\<And>p. pkt_bytes (f p) = pkt_bytes p"
    and "\<And>p. pkt_wf (f p) = pkt_wf p" and "\<And>p. pkt_in_use (f p) = pkt_in_use p"
  shows "proper harmless (\<lambda>p. f (throttle_packet a l s mode p))"
proof -
  have "pkt_wf (throttle_packet a l s mode p) \<and> \<not> drives (pkt_bytes (throttle_packet a l s mode p))"
    if "holds p []" for p
    using holds_throttle_packet [OF that, of a l s mode] throttle_bytes_stop [OF assms(1)]
    by (auto simp: holds_bytes holds_wf)
  then show ?thesis
    by (auto simp: proper_def harmless_def assms)
qed

end
