(* ===== verification/Dcc_Invariant.thy ===== *)
theory Dcc_Invariant
  imports Dcc_Sending
begin

text \<open>
  Laws of the DCC engine (theory \<open>Dcc\<close>): the loco table's invariant, every command as one
  type with the packets it may send, and what each command keeps.
\<close>

section \<open>Well-formed engine states\<close>

text \<open>
  The invariant of the engine. Active locos have different addresses; a loco whose
  address does not fit the short form is long; the engine only creates locos in 128-step
  mode; every function that is on belongs to a group whose flag is set, so the reminder
  loop sends it.
\<close>

definition loco_ok :: "loco_state \<Rightarrow> bool" where
  "loco_ok l \<longleftrightarrow> (loco_active l \<longrightarrow>
     (loco_address l > SHORT_ADDRESS_MAX \<longrightarrow> is_long_address l) \<and>
     speed_mode l = SPEED_MODE_128 \<and>
     (\<forall>n\<le>68. fn_state (loco_functions l) (functions_hi l) n \<longrightarrow> bit (group_flags l) (fn_group_of n - 1)))"

definition table_ok :: "loco_state list \<Rightarrow> bool" where
  "table_ok ls \<longleftrightarrow> length ls = MAX_LOCOS \<and> (\<forall>l\<in>set ls. loco_ok l) \<and>
     (\<forall>i<length ls. \<forall>j<length ls. loco_active (ls ! i) \<and> loco_active (ls ! j) \<and>
        loco_address (ls ! i) = loco_address (ls ! j) \<longrightarrow> i = j)"

definition dcc_wf :: "'q dcc_engine \<Rightarrow> bool" where
  "dcc_wf dcc \<longleftrightarrow> table_ok (locos dcc) \<and> loop_state dcc \<noteq> LOOP_STATE_RESTART \<and>
     pool_wf (packet_pool dcc)"

lemma find_loco_Some:
  "find_loco_locked dcc a = Some i \<Longrightarrow>
   i < length (locos dcc) \<and> loco_active (locos dcc ! i) \<and> loco_address (locos dcc ! i) = a"
  by (simp add: find_loco_locked_def find_upt_Some)

lemma find_loco_None:
  "find_loco_locked dcc a = None \<Longrightarrow> i < length (locos dcc) \<Longrightarrow>
   loco_active (locos dcc ! i) \<Longrightarrow> loco_address (locos dcc ! i) \<noteq> a"
  by (simp add: find_loco_locked_def find_upt_None)

lemma table_ok_update:
  assumes "table_ok ls" and "i < length ls" and "loco_ok l"
    and "\<And>j. j < length ls \<Longrightarrow> j \<noteq> i \<Longrightarrow> loco_active l \<Longrightarrow> loco_active (ls ! j) \<Longrightarrow>
           loco_address (ls ! j) \<noteq> loco_address l"
  shows "table_ok (ls[i := l])"
proof -
  have "\<forall>l'\<in>set (ls[i := l]). loco_ok l'"
    using assms(1,3) set_update_subset_insert [of ls i l] by (auto simp: table_ok_def)
  then show ?thesis
    using assms(1,2,4) unfolding table_ok_def by (auto simp: nth_list_update) metis
qed

lemma table_ok_nth: "table_ok ls \<Longrightarrow> i < length ls \<Longrightarrow> loco_ok (ls ! i)"
  by (simp add: table_ok_def)

text \<open>An update that keeps the identity of the loco.\<close>

lemma table_ok_same_loco:
  assumes "table_ok ls" and "i < length ls" and "loco_ok l"
    and "loco_active l \<longrightarrow> loco_active (ls ! i)" and "loco_address l = loco_address (ls ! i)"
  shows "table_ok (ls[i := l])"
  by (rule table_ok_update [OF assms(1-3)]) (use assms in \<open>auto simp: table_ok_def\<close>)

lemma update_loco_fields [simp]:
  "packet_pool (update_loco i f dcc) = packet_pool dcc"
  "output_queue (update_loco i f dcc) = output_queue dcc"
  "loop_state (update_loco i f dcc) = loop_state dcc"
  "estop_all (update_loco i f dcc) = estop_all dcc"
  "last_throttle_valid (update_loco i f dcc) = last_throttle_valid dcc"
  "last_throttle_addr (update_loco i f dcc) = last_throttle_addr dcc"
  "locos (update_loco i f dcc) = (locos dcc)[i := f (locos dcc ! i)]"
  by (simp_all add: update_loco_def)

lemma fn_state_zero [simp]: "\<not> fn_state 0 0 n"
  by (simp add: fn_state_def)

lemma find_or_create_cases:
  assumes "find_or_create_loco_locked dcc a l = (dcc', r)"
  obtains (found) i where "find_loco_locked dcc a = Some i" "r = Some i"
      "dcc' = update_loco i (\<lambda>x. x\<lparr>is_long_address := l \<or> a > SHORT_ADDRESS_MAX\<rparr>) dcc"
    | (create) i where "find_loco_locked dcc a = None" "r = Some i" "i < length (locos dcc)"
      "\<not> loco_active (locos dcc ! i)"
      "dcc' = update_loco i (\<lambda>x. x\<lparr>loco_active := True, loco_address := a,
                  is_long_address := l \<or> a > SHORT_ADDRESS_MAX, speed_step := 0,
                  speed_mode := SPEED_MODE_128, loco_functions := 0, functions_hi := 0,
                  group_flags := 0\<rparr>) dcc"
    | (full) "find_loco_locked dcc a = None" "dcc' = dcc" "r = None"
      "\<forall>i<length (locos dcc). loco_active (locos dcc ! i)"
proof (cases "find_loco_locked dcc a")
  case (Some i)
  show thesis
    by (rule found [OF Some]) (use assms Some in \<open>auto simp: find_or_create_loco_locked_def Let_def disj_commute\<close>)
next
  case None
  show thesis
  proof (cases "find (\<lambda>i. \<not> loco_active (locos dcc ! i)) [0..<length (locos dcc)]")
    case (Some i)
    from Some have "i < length (locos dcc)" "\<not> loco_active (locos dcc ! i)"
      by (simp_all add: find_upt_Some)
    with Some show thesis
      by (intro create [OF None, of i]) (use assms None in \<open>simp_all add: find_or_create_loco_locked_def\<close>)
  next
    case None': None
    show thesis
      by (rule full [OF None]) (use assms None None' in \<open>simp_all add: find_or_create_loco_locked_def find_upt_None\<close>)
  qed
qed

text \<open>\<open>find_or_create_loco_locked\<close>: the loco it returns, and that the table stays in order.\<close>

lemma find_or_create_unchanged:
  assumes "find_or_create_loco_locked dcc a l = (dcc', r)"
  shows "packet_pool dcc' = packet_pool dcc" "output_queue dcc' = output_queue dcc"
    "loop_state dcc' = loop_state dcc" "estop_all dcc' = estop_all dcc"
    "length (locos dcc') = length (locos dcc)"
    "\<forall>j<length (locos dcc). r \<noteq> Some j \<longrightarrow> locos dcc' ! j = locos dcc ! j"
  using assms by (cases rule: find_or_create_cases; simp)+

lemma find_or_create_Some:
  assumes "find_or_create_loco_locked dcc a l = (dcc', Some i)"
  shows "i < length (locos dcc)" "loco_active (locos dcc' ! i)" "loco_address (locos dcc' ! i) = a"
    "is_long_address (locos dcc' ! i) = (l \<or> a > SHORT_ADDRESS_MAX)"
    "speed_step (locos dcc' ! i) = (if find_loco_locked dcc a = Some i then speed_step (locos dcc ! i) else 0)"
  using assms by (cases rule: find_or_create_cases; auto dest: find_loco_Some)+

lemma find_or_create_None:
  assumes "find_or_create_loco_locked dcc a l = (dcc', None)"
  shows "dcc' = dcc" "find_loco_locked dcc a = None" "\<forall>i<length (locos dcc). loco_active (locos dcc ! i)"
  using assms by (cases rule: find_or_create_cases; simp)+

lemma find_or_create_table:
  assumes "find_or_create_loco_locked dcc a l = (dcc', r)" and "table_ok (locos dcc)"
  shows "table_ok (locos dcc')"
  using assms(1)
proof (cases rule: find_or_create_cases)
  case (found i)
  then show ?thesis
    using find_loco_Some [OF found(1)] table_ok_nth [OF assms(2), of i]
    by (auto intro!: table_ok_same_loco assms(2) simp: loco_ok_def)
next
  case (create i)
  then show ?thesis
    by (auto intro!: table_ok_update assms(2) simp: loco_ok_def dest: find_loco_None)
qed (use assms in auto)

lemma fn_state_set:
  assumes "fn \<le> MAX_FN_NUMBER" and "n \<le> 68"
  shows "fn_state (loco_functions (set_function_bit fn on l)) (functions_hi (set_function_bit fn on l)) n =
           (if n = unat fn then on else fn_state (loco_functions l) (functions_hi l) n)"
proof (cases "fn < 64")
  case True
  then have "unat fn < 64" by (simp add: word_less_nat_alt)
  with True show ?thesis
    by (auto simp: set_function_bit_def fn_state_def Let_def bit_simps)
next
  case False
  then have u: "unat (fn - 64) = unat fn - 64" "64 \<le> unat fn"
    by (simp_all add: word_less_nat_alt unat_sub_if_size not_less)
  have "unat fn \<le> 68" using assms(1) by (simp add: MAX_FN_NUMBER_def word_le_nat_alt)
  with False u assms(2) show ?thesis
    by (auto simp: set_function_bit_def fn_state_def Let_def bit_simps)
qed

lemma set_function_bit_fields [simp]:
  "loco_active (set_function_bit fn on l) = loco_active l"
  "loco_address (set_function_bit fn on l) = loco_address l"
  "is_long_address (set_function_bit fn on l) = is_long_address l"
  "speed_mode (set_function_bit fn on l) = speed_mode l"
  "speed_step (set_function_bit fn on l) = speed_step l"
  "group_flags (set_function_bit fn on l) = group_flags l"
  by (simp_all add: set_function_bit_def Let_def)

section \<open>Every command\<close>

datatype dcc_cmd =
  Ensure_Loco u16 bool | Forget_Loco u16 | Set_Throttle u16 bool u8 bool
| Set_Function u16 bool u16 bool | Emergency_Stop u16 bool | Emergency_Stop_All
| Clear_Emergency_Stop_All | Pom_Write_Byte u16 bool u16 u8 | Pom_Write_Long_Address u16 bool u8 u8
| Pom_Write_Consist u16 bool u8 | Pom_Write_Long_Consist u16 bool u8 u8
| Basic_Accessory u16 bool bool | Extended_Accessory u16 u8 | Pom_Read_Byte u16 bool u16 int
| Reminder_Update

fun dcc_exec :: "'q q_api \<Rightarrow> dcc_cmd \<Rightarrow> 'q dcc_engine \<Rightarrow> 'q dcc_engine" where
  "dcc_exec R (Ensure_Loco a l) dcc = dcc_ensure_loco a l dcc"
| "dcc_exec R (Forget_Loco a) dcc = dcc_forget_loco R a dcc"
| "dcc_exec R (Set_Throttle a l s d) dcc = dcc_set_throttle R a l s d dcc"
| "dcc_exec R (Set_Function a l f on) dcc = dcc_set_function a l f on dcc"
| "dcc_exec R (Emergency_Stop a l) dcc = dcc_emergency_stop R a l dcc"
| "dcc_exec R Emergency_Stop_All dcc = dcc_emergency_stop_all R dcc"
| "dcc_exec R Clear_Emergency_Stop_All dcc = dcc_clear_emergency_stop_all dcc"
| "dcc_exec R (Pom_Write_Byte a l cv v) dcc = dcc_pom_write_byte R a l cv v dcc"
| "dcc_exec R (Pom_Write_Long_Address a l x y) dcc = dcc_pom_write_long_address R a l x y dcc"
| "dcc_exec R (Pom_Write_Consist a l c) dcc = dcc_pom_write_consist R a l c dcc"
| "dcc_exec R (Pom_Write_Long_Consist a l x y) dcc = dcc_pom_write_long_consist R a l x y dcc"
| "dcc_exec R (Basic_Accessory a n c) dcc = dcc_basic_accessory R a n c dcc"
| "dcc_exec R (Extended_Accessory a v) dcc = dcc_extended_accessory R a v dcc"
| "dcc_exec R (Pom_Read_Byte a l cv r) dcc = dcc_pom_read_byte R a l cv r dcc"
| "dcc_exec R Reminder_Update dcc = dcc_update R dcc"

text \<open>The commands that only send: their packet, as one case analysis.\<close>

fun send_only :: "dcc_cmd \<Rightarrow> (dcc_packet \<Rightarrow> dcc_packet) option" where
  "send_only (Pom_Write_Byte a l cv v) = Some (packet_build_pom_write_byte a l cv v 3)"
| "send_only (Pom_Write_Long_Address a l x y) = Some (packet_build_long_address a l x y 3)"
| "send_only (Pom_Write_Consist a l c) = Some (packet_build_consist_control a l c 3)"
| "send_only (Pom_Write_Long_Consist a l x y) = Some (packet_build_long_consist_address a l x y 3)"
| "send_only (Basic_Accessory a n c) = Some (packet_build_basic_accessory a n c 3)"
| "send_only (Extended_Accessory a v) = Some (packet_build_extended_accessory a v 3)"
| "send_only (Pom_Read_Byte a l cv r) = Some (packet_build_pom_read_byte a l cv r)"
| "send_only _ = None"

lemma send_only_exec: "send_only c = Some f \<Longrightarrow> dcc_exec R c dcc = alloc_and_send R f dcc"
  by (cases c) (auto simp: dcc_pom_write_byte_def dcc_pom_write_long_address_def
      dcc_pom_write_consist_def dcc_pom_write_long_consist_def dcc_basic_accessory_def
      dcc_extended_accessory_def dcc_pom_read_byte_def)

lemma send_only_proper: "send_only c = Some f \<Longrightarrow> proper harmless f"
  by (cases c) auto

text \<open>The other operations in terms of \<open>alloc_and_send\<close>.\<close>

lemma dcc_set_throttle_eq:
  "dcc_set_throttle R a l speed direction dcc =
     (let step = (speed AND 0x7F) OR (if direction then 0x80 else 0)
      in case find_or_create_loco_locked dcc a l of
           (dcc, None) \<Rightarrow> dcc
         | (dcc, Some i) \<Rightarrow>
             (let dcc = (update_loco i (\<lambda>l. l\<lparr>speed_step := step\<rparr>) dcc)
                    \<lparr>last_throttle_valid := True, last_throttle_addr := a,
                     last_throttle_is_long := is_long_address
                        (locos (update_loco i (\<lambda>l. l\<lparr>speed_step := step\<rparr>) dcc) ! i),
                     last_throttle_speed_step := step\<rparr>
              in if estop_all dcc then dcc
                 else alloc_and_send R (throttle_packet a (is_long_address (locos dcc ! i)) step
                        (speed_mode (locos dcc ! i))) dcc))"
  unfolding dcc_set_throttle_def Let_def send_throttle_eq by (auto split: prod.splits option.splits)

definition estop_loco :: "u16 \<Rightarrow> bool \<Rightarrow> 'q dcc_engine \<Rightarrow> 'q dcc_engine \<times> u8 \<times> speed_mode \<times> bool" where
  "estop_loco a l dcc =
     (case find_loco_locked dcc a of
        None \<Rightarrow> (dcc, 0, SPEED_MODE_128, l \<or> a > SHORT_ADDRESS_MAX)
      | Some i \<Rightarrow>
          (let dcc = update_loco i (\<lambda>l. l\<lparr>speed_step := speed_step l AND 0x80\<rparr>) dcc;
               l = locos dcc ! i;
               dcc = (if last_throttle_valid dcc \<and> last_throttle_addr dcc = a
                      then dcc\<lparr>last_throttle_speed_step := speed_step l\<rparr> else dcc)
           in (dcc, speed_step l, speed_mode l, is_long_address l)))"

lemma dcc_emergency_stop_eq:
  "dcc_emergency_stop R a l dcc =
     (case estop_loco a l dcc of (dcc, step, mode, l) \<Rightarrow>
        alloc_and_send R (\<lambda>p. (throttle_packet a l (estop_step step) mode p)
          \<lparr>pkt_priority := PRIORITY_EMERGENCY\<rparr>) dcc)"
  unfolding dcc_emergency_stop_def estop_loco_def send_throttle_prio_eq ..

text \<open>The filling of the reminder for loco \<open>l\<close> in a loop state, if there is one to send.\<close>

definition reminder_packet ::
  "loop_state \<Rightarrow> bool \<Rightarrow> loco_state \<Rightarrow> (dcc_packet \<Rightarrow> dcc_packet) option" where
  "reminder_packet state held l =
     (let estop = (state = LOOP_STATE_SPEED \<and> held);
          finish = (\<lambda>k. k\<lparr>pkt_priority := (if estop then PRIORITY_EMERGENCY else PRIORITY_LOW),
                         pkt_repeats := 0\<rparr>)
      in if state = LOOP_STATE_SPEED
         then Some (\<lambda>p. finish (throttle_packet (loco_address l) (is_long_address l)
                (if estop then estop_step (speed_step l) else speed_step l) (speed_mode l) p))
         else case fn_reminder state l of
                Some (flag, bytes) \<Rightarrow>
                  (if group_flags l AND flag \<noteq> 0
                   then Some (\<lambda>p. finish (fold packet_add_byte bytes
                          (addressed (loco_address l) (is_long_address l) p)))
                   else None)
              | None \<Rightarrow> None)"

lemma send_reminder_packets_eq:
  "send_reminder_packets R i dcc =
     (case reminder_packet (loop_state dcc) (estop_all dcc) (locos dcc ! i) of
        Some f \<Rightarrow> alloc_and_send R f dcc | None \<Rightarrow> dcc)"
proof (cases "loop_state dcc = LOOP_STATE_SPEED")
  case True
  then show ?thesis
    unfolding send_reminder_packets_def reminder_packet_def Let_def
    by (simp add: send_throttle_prio_eq)
next
  case False
  then show ?thesis
    unfolding send_reminder_packets_def reminder_packet_def Let_def
    by (auto simp: send_addressed_eq split: option.splits)
qed

section \<open>Every operation sends properly\<close>

text \<open>
  The packets a command may queue. A packet that drives is addressed to the loco it was
  built for, and only goes out when the emergency stop is not held, and for a loco that
  this very command sets or that the table has moving.
\<close>

definition moving :: "u16 \<Rightarrow> 'q dcc_engine \<Rightarrow> bool" where
  "moving a dcc \<longleftrightarrow> (\<exists>l\<in>set (locos dcc). loco_active l \<and> loco_address l = a \<and> 2 \<le> speed_step l AND 0x7F)"

fun sets_throttle :: "u16 \<Rightarrow> dcc_cmd \<Rightarrow> bool" where
  "sets_throttle a (Set_Throttle b _ _ _) = (a = b)"
| "sets_throttle a _ = False"

definition may_send :: "'q dcc_engine \<Rightarrow> dcc_cmd \<Rightarrow> dcc_packet \<Rightarrow> bool" where
  "may_send dcc c p \<longleftrightarrow> (drives (pkt_bytes p) \<longrightarrow> \<not> estop_all dcc \<and>
     (sets_throttle (pkt_address p) c \<or> moving (pkt_address p) dcc) \<and>
     (\<exists>l bs. pkt_bytes p = address_bytes (pkt_address p) l @ bs))"

lemma harmless_may_send [simp]: "harmless p \<Longrightarrow> may_send dcc c p"
  by (simp add: may_send_def harmless_def)

lemma proper_mono: "proper P f \<Longrightarrow> (\<And>p. P p \<Longrightarrow> Q p) \<Longrightarrow> proper Q f"
  by (auto simp: proper_def)

lemma proper_update:
  assumes "proper P f" and "\<And>p. P p \<Longrightarrow> P (p\<lparr>pkt_priority := x, pkt_repeats := r\<rparr>)"
  shows "proper P (\<lambda>p. (f p)\<lparr>pkt_priority := x, pkt_repeats := r\<rparr>)"
  using assms by (auto simp: proper_def pkt_wf_def)

lemma throttle_packet_to:
  assumes "holds p []"
  shows "pkt_bytes (throttle_packet a l step mode p) = address_bytes a l @ throttle_bytes step mode"
  using holds_bytes [OF holds_throttle_packet [OF assms]] .


lemma word_2_le: "(s :: u8) \<noteq> 0 \<Longrightarrow> s \<noteq> 1 \<Longrightarrow> 2 \<le> s"
proof -
  assume "s \<noteq> 0" "s \<noteq> 1"
  then have "unat s \<noteq> 0" "unat s \<noteq> 1"
    by (metis unat_eq_zero, metis unat_1 word_unat_eq_iff)
  then have "2 \<le> unat s" by simp
  then show ?thesis by (simp add: word_le_nat_alt)
qed

lemma throttle_bytes_drives:
  "drives_instruction (throttle_bytes s mode) \<Longrightarrow> 2 \<le> s AND 0x7F"
  using throttle_bytes_stop [of s mode] word_2_le [of "s AND 0x7F"] by blast

lemma proper_throttle:
  assumes "\<And>p. pkt_bytes (f p) = pkt_bytes p" "\<And>p. pkt_address (f p) = pkt_address p"
    and "\<And>p. pkt_wf (f p) = pkt_wf p" "\<And>p. pkt_in_use (f p) = pkt_in_use p"
    and "2 \<le> s AND 0x7F \<Longrightarrow> \<not> estop_all dcc \<and> (sets_throttle a c \<or> moving a dcc)"
  shows "proper (may_send dcc c) (\<lambda>p. f (throttle_packet a l s mode p))"
proof -
  have "pkt_wf (throttle_packet a l s mode p)" if "holds p []" for p
    using holds_throttle_packet [OF that] by (rule holds_wf)
  then show ?thesis
    using throttle_bytes_drives [of s mode] assms(5)
    by (auto simp: proper_def may_send_def assms(1-4) throttle_packet_to)
qed

lemma proper_estop_all: "proper harmless (\<lambda>p. (packet_add_byte 0x71 (packet_add_byte 0x00 p))
     \<lparr>pkt_address := 0, pkt_priority := PRIORITY_EMERGENCY, pkt_repeats := 3\<rparr>)"
proof -
  have "holds (packet_add_byte 0x71 (packet_add_byte 0x00 p)) [0x00, 0x71]" if "holds p []" for p
    using holds_add_byte [OF holds_add_byte [OF that], of "0x00" "0x71"] by simp
  then show ?thesis
    by (intro proper_harmless [where bs = "\<lambda>_. [0x00, 0x71]"]) (auto simp: drives_def)
qed


lemma high_bit_harmless: "bit c 7 \<Longrightarrow> \<not> drives_instruction [c]" for c :: u8
proof
  assume b: "bit c 7" and "drives_instruction [c]"
  then have "c AND 0xC0 = 0x40" by simp
  then have "bit (c AND 0xC0) 7 = bit (0x40 :: u8) 7" by (rule arg_cong)
  with b show False by (simp add: bit_and_iff)
qed

lemma group_byte_high_bit:
  "bit (fn_encode_group1 f) 7" "bit (fn_encode_group2 f) 7" "bit (fn_encode_group3 f) 7"
  by (simp_all add: fn_encode_group1_def fn_encode_group2_def fn_encode_group3_def bit_or_iff)

lemma group_byte_harmless:
  assumes "fn_reminder state l = Some (flag, bytes)"
  shows "\<not> drives_instruction bytes" and "length bytes \<le> 2"
  using assms group_byte_high_bit [THEN high_bit_harmless]
  by (cases state; auto simp: fn_reminder_def simp del: drives_instruction.simps(2))+

lemma holds_fold_add_byte:
  "holds p bs \<Longrightarrow> length bs + length xs \<le> 5 \<Longrightarrow> holds (fold packet_add_byte xs p) (bs @ xs)"
proof (induction xs arbitrary: p bs)
  case (Cons x xs)
  then have "holds (packet_add_byte x p) (bs @ [x])"
    by (intro holds_add_byte) auto
  with Cons show ?case by fastforce
qed simp

lemma fold_add_byte_fields [simp]:
  "pkt_in_use (fold packet_add_byte xs p) = pkt_in_use p"
  "pkt_address (fold packet_add_byte xs p) = pkt_address p"
  by (induction xs arbitrary: p) simp_all

lemma proper_function_reminder:
  assumes "fn_reminder state l = Some (flag, bytes)"
  shows "proper harmless (\<lambda>p. (fold packet_add_byte bytes (addressed a lng p))
           \<lparr>pkt_priority := x, pkt_repeats := r\<rparr>)"
proof -
  have "holds (fold packet_add_byte bytes (addressed a lng p)) (address_bytes a lng @ bytes)"
    if "holds p []" for p
    using group_byte_harmless(2) [OF assms] address_bytes_length [of a lng]
    by (intro holds_fold_add_byte holds_addressed that) (auto split: if_splits)
  then show ?thesis
    using group_byte_harmless(1) [OF assms]
    by (intro proper_harmless [where bs = "\<lambda>_. address_bytes a lng @ bytes"]) auto
qed

lemma loco_mem_moving:
  "l \<in> set (locos dcc) \<Longrightarrow> loco_active l \<Longrightarrow> 2 \<le> speed_step l AND 0x7F \<Longrightarrow> moving (loco_address l) dcc"
  by (auto simp: moving_def)

lemma proper_reminder:
  assumes "reminder_packet state (estop_all dcc) l = Some f"
    and "l \<in> set (locos dcc)" and "loco_active l"
  shows "proper (may_send dcc c) f"
proof (cases "state = LOOP_STATE_SPEED")
  case True
  then have f: "f = (\<lambda>p. (\<lambda>k. k\<lparr>pkt_priority := (if estop_all dcc then PRIORITY_EMERGENCY else PRIORITY_LOW),
        pkt_repeats := 0\<rparr>) (throttle_packet (loco_address l) (is_long_address l)
          (if estop_all dcc then estop_step (speed_step l) else speed_step l) (speed_mode l) p))"
    using assms(1) by (auto simp: reminder_packet_def)
  show ?thesis
    unfolding f
    by (rule proper_throttle) (use assms loco_mem_moving in \<open>auto simp: pkt_wf_def estop_step_speed split: if_splits\<close>)
next
  case False
  with assms(1) obtain flag bytes where fr: "fn_reminder state l = Some (flag, bytes)"
    and f: "f = (\<lambda>p. (fold packet_add_byte bytes (addressed (loco_address l) (is_long_address l) p))
             \<lparr>pkt_priority := PRIORITY_LOW, pkt_repeats := 0\<rparr>)"
    by (auto simp: reminder_packet_def split: option.splits if_splits)
  show ?thesis
    unfolding f by (rule proper_mono [OF proper_function_reminder [OF fr]]) simp
qed

text \<open>The reminder loop changes nothing but the queue, the pool and its own state.\<close>

definition send_reminders :: "'q q_api \<Rightarrow> nat list \<Rightarrow> 'q dcc_engine \<Rightarrow> 'q dcc_engine" where
  "send_reminders R is dcc =
     fold (\<lambda>i dcc. if loco_active (locos dcc ! i) then send_reminder_packets R i dcc else dcc) is dcc"

definition same_engine :: "'q dcc_engine \<Rightarrow> 'q dcc_engine \<Rightarrow> bool" where
  "same_engine a b \<longleftrightarrow> locos b = locos a \<and> loop_state b = loop_state a \<and> estop_all b = estop_all a"

lemma same_engine_reminder: "same_engine dcc (send_reminder_packets R i dcc)"
  by (simp add: same_engine_def send_reminder_packets_eq split: option.splits)

lemma may_send_same: "same_engine a b \<Longrightarrow> may_send b c = may_send a c"
  by (auto simp: fun_eq_iff may_send_def moving_def same_engine_def)

lemma send_reminders_queued:
  assumes "fifo_queue R" and "set is \<subseteq> {..<length (locos dcc)}" and "pool_wf (packet_pool dcc)"
  shows "queued R (may_send dcc c) dcc (send_reminders R is dcc) \<and> same_engine dcc (send_reminders R is dcc)"
  using assms(2,3)
proof (induction "is" arbitrary: dcc)
  case Nil
  then show ?case by (simp add: send_reminders_def same_engine_def queued_refl)
next
  case (Cons i "is")
  define dcc' where "dcc' = (if loco_active (locos dcc ! i) then send_reminder_packets R i dcc else dcc)"
  have same: "same_engine dcc dcc'"
    using same_engine_reminder by (auto simp: dcc'_def same_engine_def)
  have q: "queued R (may_send dcc c) dcc dcc'"
  proof (cases "loco_active (locos dcc ! i) \<and>
                (\<exists>f. reminder_packet (loop_state dcc) (estop_all dcc) (locos dcc ! i) = Some f)")
    case True
    then obtain f where f: "reminder_packet (loop_state dcc) (estop_all dcc) (locos dcc ! i) = Some f"
      by blast
    with True have "dcc' = alloc_and_send R f dcc" by (simp add: dcc'_def send_reminder_packets_eq)
    moreover have "proper (may_send dcc c) f"
      using proper_reminder [OF f] True Cons.prems by simp
    ultimately show ?thesis
      using queued_alloc_and_send [OF assms(1) Cons.prems(2)] by simp
  next
    case False
    then have "dcc' = dcc" by (auto simp: dcc'_def send_reminder_packets_eq split: option.splits)
    then show ?thesis using Cons.prems by (simp add: queued_refl)
  qed
  have "queued R (may_send dcc' c) dcc' (send_reminders R is dcc') \<and>
        same_engine dcc' (send_reminders R is dcc')"
    by (rule Cons.IH) (use q same Cons.prems in \<open>auto simp: queued_def same_engine_def\<close>)
  moreover have "send_reminders R (i # is) dcc = send_reminders R is dcc'"
    by (simp add: send_reminders_def dcc'_def)
  ultimately show ?case
    using q same may_send_same [OF same, of c] by (auto simp: same_engine_def intro: queued_trans)
qed

lemma dcc_update_eq:
  "dcc_update R dcc = (let d = send_reminders R [0..<length (locos dcc)] dcc;
       s = next_loop_state (loop_state d)
     in d\<lparr>loop_state := (if s = LOOP_STATE_RESTART then LOOP_STATE_SPEED else s)\<rparr>)"
  by (simp add: dcc_update_def send_reminders_def Let_def)

lemma estop_loco_fields:
  assumes "estop_loco a l dcc = (dcc', step, mode, l')"
  shows "packet_pool dcc' = packet_pool dcc" "output_queue dcc' = output_queue dcc"
    "loop_state dcc' = loop_state dcc" "estop_all dcc' = estop_all dcc"
    "length (locos dcc') = length (locos dcc)"
  using assms by (auto simp: estop_loco_def Let_def split: option.splits if_splits)

lemma estop_loco_table:
  assumes "estop_loco a l dcc = (dcc', step, mode, l')" and "table_ok (locos dcc)"
  shows "table_ok (locos dcc')"
proof (cases "find_loco_locked dcc a")
  case None
  then show ?thesis using assms by (simp add: estop_loco_def)
next
  case (Some i)
  then have "locos dcc' = (locos dcc)[i := (locos dcc ! i)\<lparr>speed_step := speed_step (locos dcc ! i) AND 0x80\<rparr>]"
    using assms(1) by (auto simp: estop_loco_def Let_def split: if_splits)
  then show ?thesis
    using find_loco_Some [OF Some] table_ok_nth [OF assms(2)]
    by (auto intro!: table_ok_same_loco assms(2) simp: loco_ok_def)
qed

lemma emergency_stop_queued:
  assumes "fifo_queue R" and "pool_wf (packet_pool dcc)"
  shows "queued R harmless dcc (dcc_emergency_stop R a l dcc)"
proof -
  obtain dcc' step mode l' where e: "estop_loco a l dcc = (dcc', step, mode, l')"
    by (cases "estop_loco a l dcc") auto
  have "proper harmless (\<lambda>p. (throttle_packet a l' (estop_step step) mode p)
          \<lparr>pkt_priority := PRIORITY_EMERGENCY\<rparr>)"
    by (rule proper_throttle_stop [where f = "\<lambda>p. p\<lparr>pkt_priority := PRIORITY_EMERGENCY\<rparr>"])
      (simp_all add: estop_step_speed pkt_wf_def)
  from queued_alloc_and_send [OF assms(1) _ this, of dcc']
  have "queued R harmless dcc' (dcc_emergency_stop R a l dcc)"
    using assms(2) estop_loco_fields(1) [OF e] by (simp add: dcc_emergency_stop_eq e)
  then show ?thesis using queued_from [OF estop_loco_fields(1,2) [OF e]] by blast
qed

lemma set_throttle_queued:
  assumes "fifo_queue R" and "pool_wf (packet_pool dcc)"
  shows "queued R (may_send dcc (Set_Throttle a l s d)) dcc (dcc_set_throttle R a l s d dcc)"
proof -
  define step where "step = (s AND 0x7F) OR (if d then 0x80 else 0)"
  obtain dcc1 r where f: "find_or_create_loco_locked dcc a l = (dcc1, r)"
    by (cases "find_or_create_loco_locked dcc a l")
  note un = find_or_create_unchanged [OF f]
  show ?thesis
  proof (cases r)
    case None
    with f un assms show ?thesis by (simp add: dcc_set_throttle_def queued_refl)
  next
    case (Some i)
    define dcc2 where "dcc2 = (update_loco i (\<lambda>l. l\<lparr>speed_step := step\<rparr>) dcc1)
       \<lparr>last_throttle_valid := True, last_throttle_addr := a,
        last_throttle_is_long := is_long_address (locos (update_loco i (\<lambda>l. l\<lparr>speed_step := step\<rparr>) dcc1) ! i),
        last_throttle_speed_step := step\<rparr>"
    have eq: "dcc_set_throttle R a l s d dcc =
        (if estop_all dcc2 then dcc2
         else alloc_and_send R (throttle_packet a (is_long_address (locos dcc2 ! i)) step
                (speed_mode (locos dcc2 ! i))) dcc2)"
      using f Some by (simp add: dcc_set_throttle_eq dcc2_def step_def Let_def)
    have same: "packet_pool dcc2 = packet_pool dcc" "output_queue dcc2 = output_queue dcc"
      "estop_all dcc2 = estop_all dcc"
      using un by (simp_all add: dcc2_def)
    have "proper (may_send dcc (Set_Throttle a l s d))
            (throttle_packet a (is_long_address (locos dcc2 ! i)) step (speed_mode (locos dcc2 ! i)))"
      if "\<not> estop_all dcc"
      by (rule proper_throttle [where f = "\<lambda>p. p"]) (simp_all add: that)
    from queued_alloc_and_send [OF assms(1) _ this, of dcc2]
    have "queued R (may_send dcc (Set_Throttle a l s d)) dcc2 (dcc_set_throttle R a l s d dcc)"
      unfolding eq using same assms(2) queued_refl [of dcc2 dcc2] by simp
    then show ?thesis using queued_from [OF same(1,2)] by blast
  qed
qed

lemma dcc_exec_queued:
  assumes "fifo_queue R" and "pool_wf (packet_pool dcc)"
  shows "queued R (may_send dcc c) dcc (dcc_exec R c dcc)"
proof (cases "send_only c")
  case (Some f)
  then show ?thesis
    using queued_alloc_and_send [OF assms proper_mono [OF send_only_proper [OF Some]]]
    by (simp add: send_only_exec)
next
  case None
  have quiet: "queued R P dcc dcc'" if "packet_pool dcc' = packet_pool dcc"
    "output_queue dcc' = output_queue dcc" for P dcc'
    using that assms by (simp add: queued_refl)
  show ?thesis
  proof (cases c)
    case (Ensure_Loco a l)
    then show ?thesis
      using find_or_create_unchanged [of dcc a l]
      by (cases "find_or_create_loco_locked dcc a l") (auto simp: dcc_ensure_loco_def intro!: quiet)
  next
    case (Forget_Loco a)
    have "queued R harmless dcc (dcc_forget_loco R a dcc)"
      using emergency_stop_queued [OF assms, of a]
      by (auto simp: dcc_forget_loco_def Let_def queued_def split: option.splits)
    with Forget_Loco show ?thesis using queued_mono [OF _ harmless_may_send] by simp
  next
    case (Set_Function a l fn on)
    have "packet_pool (dcc_set_function a l fn on dcc) = packet_pool dcc \<and>
        output_queue (dcc_set_function a l fn on dcc) = output_queue dcc"
      using find_or_create_unchanged [of dcc a l]
      by (cases "find_or_create_loco_locked dcc a l")
        (auto simp: dcc_set_function_def split: option.splits)
    with Set_Function show ?thesis using quiet by simp
  next
    case (Set_Throttle a l s d)
    with set_throttle_queued [OF assms] show ?thesis by simp
  next
    case (Emergency_Stop a l)
    then show ?thesis using queued_mono [OF emergency_stop_queued [OF assms] harmless_may_send] by simp
  next
    case Emergency_Stop_All
    have "queued R harmless (dcc\<lparr>estop_all := True\<rparr>) (dcc_emergency_stop_all R dcc)"
      unfolding dcc_emergency_stop_all_def
      by (rule queued_alloc_and_send [OF assms(1) _ proper_estop_all]) (use assms in simp)
    then have "queued R harmless dcc (dcc_emergency_stop_all R dcc)" by (simp add: queued_def)
    with Emergency_Stop_All show ?thesis using queued_mono [OF _ harmless_may_send] by simp
  next
    case Clear_Emergency_Stop_All
    then show ?thesis by (auto simp: dcc_clear_emergency_stop_all_def intro!: quiet)
  next
    case Reminder_Update
    have "set [0..<length (locos dcc)] \<subseteq> {..<length (locos dcc)}" by auto
    from Reminder_Update send_reminders_queued [OF assms(1) this assms(2), of Reminder_Update]
    show ?thesis by (simp add: dcc_update_eq Let_def queued_def)
  qed (use None in auto)
qed

section \<open>The table and the loop state\<close>

lemma set_function_table:
  assumes "table_ok (locos dcc)"
  shows "table_ok (locos (dcc_set_function a l fn on dcc))"
proof (cases "fn > MAX_FN_NUMBER")
  case True
  then show ?thesis using assms by (simp add: dcc_set_function_def)
next
  case False
  obtain dcc1 r where f: "find_or_create_loco_locked dcc a l = (dcc1, r)"
    by (cases "find_or_create_loco_locked dcc a l")
  note t = find_or_create_table [OF f assms]
  show ?thesis
  proof (cases r)
    case None
    with False f t show ?thesis by (simp add: dcc_set_function_def)
  next
    case (Some i)
    define x where "x = locos dcc1 ! i"
    define y where "y = (let l' = set_function_bit fn on x
         in if loco_functions l' \<noteq> loco_functions x \<or> functions_hi l' \<noteq> functions_hi x
            then l'\<lparr>group_flags := fn_update_group_flags (group_flags l') fn\<rparr> else l')"
    have i: "i < length (locos dcc1)"
      using find_or_create_Some(1) [OF f [unfolded Some]] find_or_create_unchanged(5) [OF f] by simp
    have x: "loco_ok x" using t i by (simp add: x_def table_ok_def)
    have fnle: "fn \<le> MAX_FN_NUMBER" using False by simp
    have "loco_ok y"
    proof -
      have "bit (group_flags y) (fn_group_of n - 1)"
        if "loco_active x" "n \<le> 68" "fn_state (loco_functions y) (functions_hi y) n" for n
      proof -
        let ?s = "set_function_bit fn on x"
        have y: "loco_functions y = loco_functions ?s" "functions_hi y = functions_hi ?s"
          by (simp_all add: y_def Let_def)
        show ?thesis
        proof (cases "loco_functions ?s \<noteq> loco_functions x \<or> functions_hi ?s \<noteq> functions_hi x")
          case True
          then have g: "group_flags y = group_flags x OR shl 1 (fn_group_of (unat fn) - 1)"
            by (simp add: y_def Let_def fn_update_flags [OF fnle])
          have "fn_group_of (unat fn) - 1 < 16"
            using fn_group_of_bounds(2) [of "unat fn"] fnle
            by (simp add: MAX_FN_NUMBER_def word_le_nat_alt)
          moreover have "n = unat fn \<or> bit (group_flags x) (fn_group_of n - 1)"
            using that x fn_state_set [OF fnle that(2), of on x] by (auto simp: y loco_ok_def split: if_splits)
          ultimately show ?thesis by (auto simp: g bit_simps)
        next
          case False
          then have "group_flags y = group_flags x" by (simp add: y_def Let_def)
          moreover have "fn_state (loco_functions x) (functions_hi x) n" using False that y by simp
          ultimately show ?thesis using x that by (auto simp: loco_ok_def)
        qed
      qed
      then show ?thesis
        using x by (auto simp: loco_ok_def y_def Let_def)
    qed
    moreover have "locos (dcc_set_function a l fn on dcc) = (locos dcc1)[i := y]"
      using False f Some by (simp add: dcc_set_function_def x_def y_def)
    ultimately show ?thesis
      using i t by (auto simp: y_def x_def Let_def intro!: table_ok_same_loco)
  qed
qed

lemma set_throttle_table:
  assumes "table_ok (locos dcc)"
  shows "table_ok (locos (dcc_set_throttle R a l s d dcc))"
proof -
  obtain dcc1 r where f: "find_or_create_loco_locked dcc a l = (dcc1, r)"
    by (cases "find_or_create_loco_locked dcc a l")
  note t = find_or_create_table [OF f assms]
  show ?thesis
  proof (cases r)
    case None
    with f t show ?thesis by (simp add: dcc_set_throttle_eq Let_def)
  next
    case (Some i)
    have i: "i < length (locos dcc1)"
      using find_or_create_Some(1) [OF f [unfolded Some]] find_or_create_unchanged(5) [OF f] by simp
    have "loco_ok ((locos dcc1 ! i)\<lparr>speed_step := x\<rparr>)" for x
      using t i by (simp add: table_ok_def loco_ok_def)
    then have "table_ok ((locos dcc1)[i := (locos dcc1 ! i)\<lparr>speed_step := x\<rparr>])" for x
      using t i by (auto intro!: table_ok_same_loco)
    with f Some show ?thesis by (simp add: dcc_set_throttle_eq Let_def)
  qed
qed

lemma emergency_stop_table:
  "table_ok (locos dcc) \<Longrightarrow> table_ok (locos (dcc_emergency_stop R a l dcc))"
  using estop_loco_table [of a l dcc]
  by (cases "estop_loco a l dcc") (simp add: dcc_emergency_stop_eq)

lemma forget_table:
  "table_ok (locos dcc) \<Longrightarrow> table_ok (locos (dcc_forget_loco R a dcc))"
  using emergency_stop_table [of dcc R a]
  by (auto simp: dcc_forget_loco_def Let_def find_loco_Some loco_ok_def
      intro!: table_ok_same_loco split: option.splits)

lemma dcc_update_fields:
  assumes "fifo_queue R" and "pool_wf (packet_pool dcc)"
  shows "locos (dcc_update R dcc) = locos dcc" "estop_all (dcc_update R dcc) = estop_all dcc"
    "loop_state (dcc_update R dcc) =
       (let s = next_loop_state (loop_state dcc) in if s = LOOP_STATE_RESTART then LOOP_STATE_SPEED else s)"
proof -
  have "set [0..<length (locos dcc)] \<subseteq> {..<length (locos dcc)}" by auto
  from send_reminders_queued [OF assms(1) this assms(2)]
  have "same_engine dcc (send_reminders R [0..<length (locos dcc)] dcc)" by blast
  then show "locos (dcc_update R dcc) = locos dcc" "estop_all (dcc_update R dcc) = estop_all dcc"
    "loop_state (dcc_update R dcc) =
       (let s = next_loop_state (loop_state dcc) in if s = LOOP_STATE_RESTART then LOOP_STATE_SPEED else s)"
    by (simp_all add: dcc_update_eq same_engine_def Let_def)
qed

lemma dcc_exec_table:
  assumes "fifo_queue R" and "dcc_wf dcc"
  shows "table_ok (locos (dcc_exec R c dcc))"
proof (cases "send_only c")
  case (Some f)
  then show ?thesis using assms by (simp add: send_only_exec dcc_wf_def)
next
  case None
  have t: "table_ok (locos dcc)" using assms by (simp add: dcc_wf_def)
  show ?thesis
  proof (cases c)
    case (Ensure_Loco a l)
    then show ?thesis
      using find_or_create_table [of dcc a l _ _, OF _ t]
      by (cases "find_or_create_loco_locked dcc a l") (auto simp: dcc_ensure_loco_def)
  qed (use None t assms in \<open>auto simp: set_function_table set_throttle_table emergency_stop_table forget_table
      dcc_update_fields dcc_wf_def dcc_emergency_stop_all_def dcc_clear_emergency_stop_all_def\<close>)
qed

end
