(* ===== verification/Dcc_Safety.thy ===== *)
theory Dcc_Safety
  imports Dcc_Invariant "HOL-Library.Sublist"
begin

text \<open>
  The properties of the DCC engine (theory \<open>Dcc\<close>): the engine and the consumer of its
  queue as one system of events, its invariant, the safety of the emergency stops, what a
  throttle command sends, and what the reminder loop refreshes.
\<close>

section \<open>The engine and the consumer of its queue\<close>

text \<open>
  The engine does not run alone: the priority-queue task takes packets from the output
  queue and from then on owns them: it may rewrite them, give them back, or take further
  packets from the pool for its copies. An event is a command of the engine, a dequeue, or
  any write of the consumer to a pool slot that is not in the output queue.
\<close>

datatype dcc_event = Command dcc_cmd | Dequeue | Consumer pkt_ptr dcc_packet

fun dcc_event_step :: "'q q_api \<Rightarrow> dcc_event \<Rightarrow> 'q dcc_engine \<Rightarrow> 'q dcc_engine" where
  "dcc_event_step R (Command c) dcc = dcc_exec R c dcc"
| "dcc_event_step R Dequeue dcc =
     (case xQueueReceive R (output_queue dcc) of
        None \<Rightarrow> dcc | Some (i, q) \<Rightarrow> dcc\<lparr>output_queue := q\<rparr>)"
| "dcc_event_step R (Consumer i p) dcc =
     (if i \<in> set (queue_items R (output_queue dcc)) \<or> \<not> pkt_shape p then dcc
      else dcc\<lparr>packet_pool := (packet_pool dcc)[i := p]\<rparr>)"

definition engine_ok :: "'q q_api \<Rightarrow> 'q dcc_engine \<Rightarrow> bool" where
  "engine_ok R dcc \<longleftrightarrow> dcc_wf dcc \<and> distinct (queue_items R (output_queue dcc)) \<and>
     set (queue_items R (output_queue dcc)) \<subseteq> pool_used (packet_pool dcc)"

text \<open>
  \<open>progress R P a b\<close>: from \<open>a\<close> to \<open>b\<close> some packets left the front of the queue, those
  behind are as they were, and every packet added has the property \<open>P\<close>.
\<close>

definition progress :: "'q q_api \<Rightarrow> (dcc_packet \<Rightarrow> bool) \<Rightarrow> 'q dcc_engine \<Rightarrow> 'q dcc_engine \<Rightarrow> bool" where
  "progress R P a b \<longleftrightarrow> (\<exists>k new.
     queue_items R (output_queue b) = drop k (queue_items R (output_queue a)) @ new \<and>
     (\<forall>i\<in>set (drop k (queue_items R (output_queue a))). packet_pool b ! i = packet_pool a ! i) \<and>
     (\<forall>i\<in>set new. P (packet_pool b ! i)))"

lemma progressI:
  "queue_items R (output_queue b) = drop k (queue_items R (output_queue a)) @ new \<Longrightarrow>
   (\<And>i. i \<in> set (drop k (queue_items R (output_queue a))) \<Longrightarrow> packet_pool b ! i = packet_pool a ! i) \<Longrightarrow>
   (\<And>i. i \<in> set new \<Longrightarrow> P (packet_pool b ! i)) \<Longrightarrow> progress R P a b"
  unfolding progress_def by blast

lemma progress_refl: "progress R P a a"
  by (rule progressI [of R a 0 a "[]"]) simp_all

lemma progress_trans:
  assumes "progress R P a b" and "progress R P b c"
  shows "progress R P a c"
proof -
  from assms(1) obtain k xs where 1: "queue_items R (output_queue b) = drop k (queue_items R (output_queue a)) @ xs"
    "\<forall>i\<in>set (drop k (queue_items R (output_queue a))). packet_pool b ! i = packet_pool a ! i"
    "\<forall>i\<in>set xs. P (packet_pool b ! i)" by (auto simp: progress_def)
  from assms(2) obtain m ys where 2: "queue_items R (output_queue c) = drop m (queue_items R (output_queue b)) @ ys"
    "\<forall>i\<in>set (drop m (queue_items R (output_queue b))). packet_pool c ! i = packet_pool b ! i"
    "\<forall>i\<in>set ys. P (packet_pool c ! i)" by (auto simp: progress_def)
  let ?A = "queue_items R (output_queue a)"
  show ?thesis
  proof (rule progressI [of R c "k + m" a "drop (m - length (drop k ?A)) xs @ ys"])
    show "queue_items R (output_queue c) = drop (k + m) ?A @ drop (m - length (drop k ?A)) xs @ ys"
      using 1(1) 2(1) by (simp add: add.commute)
    show "packet_pool c ! i = packet_pool a ! i" if "i \<in> set (drop (k + m) ?A)" for i
    proof -
      have "i \<in> set (drop k ?A)"
        using that set_drop_subset_set_drop [of k "k + m" ?A] by auto
      moreover have "i \<in> set (drop m (queue_items R (output_queue b)))"
        using that 1(1) by (simp add: add.commute)
      ultimately show ?thesis using 1(2) 2(2) by simp
    qed
    show "P (packet_pool c ! i)" if "i \<in> set (drop (m - length (drop k ?A)) xs @ ys)" for i
      using that 1 2 by (auto dest: in_set_dropD)
  qed
qed

lemma queued_progress:
  assumes "queued R P a b" and "set (queue_items R (output_queue a)) \<subseteq> pool_used (packet_pool a)"
  shows "progress R P a b"
proof -
  from assms(1) obtain new where
    "queue_items R (output_queue b) = queue_items R (output_queue a) @ new"
    "\<forall>i\<in>pool_used (packet_pool a). packet_pool b ! i = packet_pool a ! i"
    "\<forall>i\<in>set new. P (packet_pool b ! i)" by (auto simp: queued_def)
  then show ?thesis using assms(2) by (intro progressI [of R b 0 a new]) auto
qed

text \<open>What one event may add, and that every event keeps \<open>engine_ok\<close>.\<close>

fun event_may_send :: "'q dcc_engine \<Rightarrow> dcc_event \<Rightarrow> dcc_packet \<Rightarrow> bool" where
  "event_may_send dcc (Command c) p = may_send dcc c p"
| "event_may_send dcc _ p = False"

lemma event_progress:
  assumes "fifo_queue R" and "engine_ok R dcc"
  shows "progress R (event_may_send dcc e) dcc (dcc_event_step R e dcc)"
proof (cases e)
  case (Command c)
  have "queued R (event_may_send dcc e) dcc (dcc_event_step R e dcc)"
    using dcc_exec_queued [OF assms(1), of dcc c] assms(2) Command
    by (simp add: engine_ok_def dcc_wf_def queued_def)
  then show ?thesis using assms(2) by (simp add: queued_progress engine_ok_def)
next
  case Dequeue
  show ?thesis
  proof (cases "xQueueReceive R (output_queue dcc)")
    case None
    with Dequeue show ?thesis by (simp add: progress_refl)
  next
    case (Some r)
    obtain i q where r: "r = (i, q)" by (cases r)
    with Dequeue Some fifo_receive [OF assms(1)] show ?thesis
      by (intro progressI [of R _ 1 dcc "[]"]) auto
  qed
next
  case (Consumer i p)
  show ?thesis
  proof (cases "i \<in> set (queue_items R (output_queue dcc)) \<or> \<not> pkt_shape p")
    case True
    with Consumer show ?thesis by (simp add: progress_refl)
  next
    case False
    then have "j \<in> set (queue_items R (output_queue dcc)) \<Longrightarrow> i \<noteq> j" for j by auto
    with Consumer False show ?thesis by (intro progressI [of R _ 0 dcc "[]"]) simp_all
  qed
qed

lemma dcc_exec_estop:
  assumes "fifo_queue R" and "pool_wf (packet_pool dcc)"
  shows "estop_all (dcc_exec R c dcc) =
     (case c of Emergency_Stop_All \<Rightarrow> True | Clear_Emergency_Stop_All \<Rightarrow> False | _ \<Rightarrow> estop_all dcc)"
proof (cases "send_only c")
  case (Some f)
  then have "estop_all (dcc_exec R c dcc) = estop_all dcc" by (simp add: send_only_exec)
  with Some show ?thesis by (cases c) simp_all
next
  case None
  have es: "estop_all (dcc_emergency_stop R a l dcc) = estop_all dcc" for a l
    using estop_loco_fields(4) [of a l dcc] by (cases "estop_loco a l dcc") (simp add: dcc_emergency_stop_eq)
  show ?thesis
  proof (cases c)
    case (Ensure_Loco a l)
    then show ?thesis using find_or_create_unchanged(4) [of dcc a l]
      by (cases "find_or_create_loco_locked dcc a l") (auto simp: dcc_ensure_loco_def)
  next
    case (Set_Throttle a l s d)
    then show ?thesis using find_or_create_unchanged(4) [of dcc a l]
      by (cases "find_or_create_loco_locked dcc a l")
        (auto simp: dcc_set_throttle_eq Let_def split: option.splits)
  next
    case (Set_Function a l fn on)
    then show ?thesis using find_or_create_unchanged(4) [of dcc a l]
      by (cases "find_or_create_loco_locked dcc a l")
        (auto simp: dcc_set_function_def split: option.splits)
  next
    case (Forget_Loco a)
    with es show ?thesis by (auto simp: dcc_forget_loco_def Let_def split: option.splits)
  qed (use None es assms in \<open>auto simp: dcc_update_fields dcc_emergency_stop_all_def dcc_clear_emergency_stop_all_def\<close>)
qed

lemma dcc_exec_loop_state:
  assumes "fifo_queue R" and "pool_wf (packet_pool dcc)" and "c \<noteq> Reminder_Update"
  shows "loop_state (dcc_exec R c dcc) = loop_state dcc"
proof (cases "send_only c")
  case (Some f)
  then show ?thesis by (simp add: send_only_exec)
next
  case None
  have es: "loop_state (dcc_emergency_stop R a l dcc) = loop_state dcc" for a l
    using estop_loco_fields(3) [of a l dcc] by (cases "estop_loco a l dcc") (simp add: dcc_emergency_stop_eq)
  show ?thesis
  proof (cases c)
    case (Ensure_Loco a l)
    then show ?thesis using find_or_create_unchanged(3) [of dcc a l]
      by (cases "find_or_create_loco_locked dcc a l") (auto simp: dcc_ensure_loco_def)
  next
    case (Set_Throttle a l s d)
    then show ?thesis using find_or_create_unchanged(3) [of dcc a l]
      by (cases "find_or_create_loco_locked dcc a l")
        (auto simp: dcc_set_throttle_eq Let_def split: option.splits)
  next
    case (Set_Function a l fn on)
    then show ?thesis using find_or_create_unchanged(3) [of dcc a l]
      by (cases "find_or_create_loco_locked dcc a l")
        (auto simp: dcc_set_function_def split: option.splits)
  next
    case (Forget_Loco a)
    with es show ?thesis by (auto simp: dcc_forget_loco_def Let_def split: option.splits)
  qed (use None es assms in \<open>auto simp: dcc_emergency_stop_all_def dcc_clear_emergency_stop_all_def\<close>)
qed

lemma next_loop_state_restart: "s \<noteq> LOOP_STATE_RESTART \<Longrightarrow>
  (let t = next_loop_state s in if t = LOOP_STATE_RESTART then LOOP_STATE_SPEED else t) \<noteq> LOOP_STATE_RESTART"
  by (cases s) auto

lemma dcc_exec_wf:
  assumes "fifo_queue R" and "dcc_wf dcc"
  shows "dcc_wf (dcc_exec R c dcc)"
proof -
  have p: "pool_wf (packet_pool dcc)" using assms(2) by (simp add: dcc_wf_def)
  have "loop_state (dcc_exec R c dcc) \<noteq> LOOP_STATE_RESTART"
  proof (cases "c = Reminder_Update")
    case True
    then show ?thesis
      using assms p next_loop_state_restart by (simp add: dcc_update_fields dcc_wf_def)
  next
    case False
    then show ?thesis using dcc_exec_loop_state [OF assms(1) p] assms(2) by (simp add: dcc_wf_def)
  qed
  moreover have "pool_wf (packet_pool (dcc_exec R c dcc))"
    using dcc_exec_queued [OF assms(1) p, of c] by (simp add: queued_def)
  ultimately show ?thesis using dcc_exec_table [OF assms] by (simp add: dcc_wf_def)
qed

lemma event_ok:
  assumes "fifo_queue R" and "engine_ok R dcc"
  shows "engine_ok R (dcc_event_step R e dcc)"
proof (cases e)
  case (Command c)
  have p: "dcc_wf dcc" "pool_wf (packet_pool dcc)" using assms(2) by (simp_all add: engine_ok_def dcc_wf_def)
  from dcc_exec_queued [OF assms(1) p(2), of c] dcc_exec_wf [OF assms(1) p(1), of c] assms(2) Command
  show ?thesis unfolding engine_ok_def queued_def
    by (elim conjE exE) (simp, blast)
next
  case Dequeue
  show ?thesis
  proof (cases "xQueueReceive R (output_queue dcc)")
    case (Some r)
    obtain i q where "r = (i, q)" by (cases r)
    with Dequeue Some fifo_receive [OF assms(1)] assms(2) show ?thesis
      by (fastforce simp: engine_ok_def dcc_wf_def)
  qed (use Dequeue assms in simp)
next
  case (Consumer i p)
  show ?thesis
  proof (cases "i \<in> set (queue_items R (output_queue dcc)) \<or> \<not> pkt_shape p")
    case False
    then have "j \<in> set (queue_items R (output_queue dcc)) \<Longrightarrow> j \<in> pool_used ((packet_pool dcc)[i := p])" for j
      using assms(2) by (cases "j = i") (auto simp: engine_ok_def pool_used_def)
    with Consumer False assms(2) show ?thesis
      by (auto simp: engine_ok_def dcc_wf_def pool_wf_update)
  qed (use Consumer assms in auto)
qed

text \<open>The engine and its consumer as an invariant system.\<close>

definition engine_start :: "'q q_api \<Rightarrow> 'q dcc_engine \<Rightarrow> bool" where
  "engine_start R dcc \<longleftrightarrow> (\<exists>q. queue_items R q = [] \<and> dcc = dcc_init q packet_pool_init)"

definition engine_inv :: "'q q_api \<Rightarrow> 'q dcc_engine \<Rightarrow> bool" where
  "engine_inv R dcc \<longleftrightarrow> (fifo_queue R \<longrightarrow> engine_ok R dcc)"

lemma dcc_init_wf: "dcc_wf (dcc_init q packet_pool_init)"
  using packet_pool_init_wf
  by (auto simp: dcc_wf_def dcc_init_def table_ok_def loco_ok_def zero_loco_def)

interpretation engine: invariant_system "engine_start R" "dcc_event_step R" "engine_inv R"
proof unfold_locales
  show "engine_start R s \<Longrightarrow> engine_inv R s" for s
    using dcc_init_wf by (auto simp: engine_start_def engine_inv_def engine_ok_def dcc_init_def)
  show "engine_inv R s \<Longrightarrow> engine_inv R (dcc_event_step R e s)" for s e
    by (simp add: engine_inv_def event_ok)
qed

lemma engine_ok_run: "fifo_queue R \<Longrightarrow> engine_ok R dcc \<Longrightarrow> engine_ok R (fold (dcc_event_step R) es dcc)"
  using engine.inv_run [of R dcc es] by (simp add: engine_inv_def)

text \<open>
  The rule the safety properties use: a property \<open>Q\<close> of the engine that every event of a
  run keeps, and under which an event adds only packets with \<open>P\<close>.
\<close>

lemma run_progress:
  assumes "fifo_queue R" and "engine_ok R dcc" and "Q dcc"
    and "\<And>s e. engine_ok R s \<Longrightarrow> Q s \<Longrightarrow> e \<in> set es \<Longrightarrow> Q (dcc_event_step R e s)"
    and "\<And>s e p. engine_ok R s \<Longrightarrow> Q s \<Longrightarrow> e \<in> set es \<Longrightarrow> event_may_send s e p \<Longrightarrow> P p"
  shows "Q (fold (dcc_event_step R) es dcc) \<and> progress R P dcc (fold (dcc_event_step R) es dcc)"
  using assms(2-5)
proof (induction es arbitrary: dcc)
  case Nil
  then show ?case by (simp add: progress_refl)
next
  case (Cons e es)
  let ?d = "dcc_event_step R e dcc"
  have "Q (fold (dcc_event_step R) es ?d) \<and> progress R P ?d (fold (dcc_event_step R) es ?d)"
    by (rule Cons.IH)
      (use Cons.prems(1,2) event_ok [OF assms(1)] in simp, use Cons.prems(1-3) in simp,
       use Cons.prems(3) in simp, rule Cons.prems(4), simp_all)
  moreover have "progress R P dcc ?d"
    using event_progress [OF assms(1) Cons.prems(1), of e] Cons.prems(4) [OF Cons.prems(1,2), of e]
    unfolding progress_def by (metis list.set_intros(1))
  ultimately show ?case using progress_trans by auto
qed

section \<open>Which commands set a loco moving\<close>

lemma not_moving_update:
  assumes "\<not> moving a dcc" and "locos dcc' = (locos dcc)[i := l]"
    and "loco_active l \<Longrightarrow> loco_address l = a \<Longrightarrow> \<not> 2 \<le> speed_step l AND 0x7F"
  shows "\<not> moving a dcc'"
  using assms set_update_subset_insert [of "locos dcc" i l] by (auto simp: moving_def)

lemma not_moving_same: "\<not> moving a dcc \<Longrightarrow> locos dcc' = locos dcc \<Longrightarrow> \<not> moving a dcc'"
  by (simp add: moving_def)

lemma not_moving_nth:
  "\<not> moving a dcc \<Longrightarrow> i < length (locos dcc) \<Longrightarrow> loco_active (locos dcc ! i) \<Longrightarrow>
   loco_address (locos dcc ! i) = a \<Longrightarrow> \<not> 2 \<le> speed_step (locos dcc ! i) AND 0x7F"
  by (auto simp: moving_def)

lemma find_or_create_not_moving:
  assumes "find_or_create_loco_locked dcc b l = (dcc', r)" and "\<not> moving a dcc"
  shows "\<not> moving a dcc'"
  using assms(1)
proof (cases rule: find_or_create_cases)
  case (found i)
  show ?thesis
    by (rule not_moving_update [OF assms(2)]) (use found find_loco_Some [OF found(1)] not_moving_nth [OF assms(2), of i] in auto)
next
  case (create i)
  show ?thesis by (rule not_moving_update [OF assms(2)]) (use create in auto)
qed (use assms in auto)

lemma estop_loco_locos:
  assumes "estop_loco a l dcc = (dcc', step, mode, l')"
  shows "locos dcc' = (case find_loco_locked dcc a of None \<Rightarrow> locos dcc
     | Some i \<Rightarrow> (locos dcc)[i := (locos dcc ! i)\<lparr>speed_step := speed_step (locos dcc ! i) AND 0x80\<rparr>])"
  using assms by (auto simp: estop_loco_def Let_def split: option.splits if_splits)

lemma emergency_stop_locos:
  "locos (dcc_emergency_stop R a l dcc) = (case find_loco_locked dcc a of None \<Rightarrow> locos dcc
     | Some i \<Rightarrow> (locos dcc)[i := (locos dcc ! i)\<lparr>speed_step := speed_step (locos dcc ! i) AND 0x80\<rparr>])"
  using estop_loco_locos [of a l dcc]
  by (cases "estop_loco a l dcc") (simp add: dcc_emergency_stop_eq)

lemma sign_bit_speed: "(s AND 0x80) AND 0x7F = (0 :: u8)"
  by (simp add: word_bits_simps)

lemma emergency_stop_not_moving:
  assumes "\<not> moving a dcc"
  shows "\<not> moving a (dcc_emergency_stop R b l dcc)"
proof (cases "find_loco_locked dcc b")
  case None
  show ?thesis by (rule not_moving_same [OF assms]) (simp add: emergency_stop_locos None)
next
  case (Some i)
  have "\<not> 2 \<le> (0 :: u8)" by (simp add: word_le_nat_alt)
  with Some show ?thesis
    by (intro not_moving_update [OF assms, where i = i]) (auto simp: emergency_stop_locos sign_bit_speed)
qed

text \<open>An emergency stop of a loco leaves it not moving: the table knows an address once.\<close>

lemma emergency_stop_stops:
  assumes "table_ok (locos dcc)"
  shows "\<not> moving a (dcc_emergency_stop R a l dcc)"
proof (cases "find_loco_locked dcc a")
  case None
  then show ?thesis
    using find_loco_None [OF None]
    by (simp add: moving_def emergency_stop_locos) (metis in_set_conv_nth)
next
  case (Some i)
  note f = find_loco_Some [OF Some]
  show ?thesis
  proof
    let ?ls = "(locos dcc)[i := (locos dcc ! i)\<lparr>speed_step := speed_step (locos dcc ! i) AND 0x80\<rparr>]"
    assume "moving a (dcc_emergency_stop R a l dcc)"
    then obtain j where j: "j < length (locos dcc)" "loco_active (?ls ! j)"
      "loco_address (?ls ! j) = a" "2 \<le> speed_step (?ls ! j) AND 0x7F"
      by (auto simp: moving_def emergency_stop_locos Some in_set_conv_nth)
    show False
    proof (cases "j = i")
      case True
      then show False using j f by (simp add: sign_bit_speed word_le_nat_alt)
    next
      case False
      then show False using j f assms by (auto simp: table_ok_def)
    qed
  qed
qed

lemma forget_not_moving:
  assumes "\<not> moving a dcc"
  shows "\<not> moving a (dcc_forget_loco R b dcc)"
proof -
  obtain l where l: "dcc_forget_loco R b dcc =
      (let dcc = dcc_emergency_stop R b l dcc in case find_loco_locked dcc b of
         Some i \<Rightarrow> update_loco i (\<lambda>l. l\<lparr>loco_active := False\<rparr>) dcc | None \<Rightarrow> dcc)"
    by (simp add: dcc_forget_loco_def Let_def)
  note e = emergency_stop_not_moving [OF assms, of R b l]
  show ?thesis
  proof (cases "find_loco_locked (dcc_emergency_stop R b l dcc) b")
    case (Some i)
    then show ?thesis unfolding l by (intro not_moving_update [OF e]) (auto simp: Let_def)
  qed (use e l in simp)
qed

lemma set_function_not_moving:
  assumes "\<not> moving a dcc"
  shows "\<not> moving a (dcc_set_function b l fn on dcc)"
proof -
  obtain dcc1 r where f: "find_or_create_loco_locked dcc b l = (dcc1, r)"
    by (cases "find_or_create_loco_locked dcc b l")
  note m = find_or_create_not_moving [OF f assms]
  show ?thesis
  proof (cases "fn > MAX_FN_NUMBER \<or> r = None")
    case True
    with f m assms show ?thesis by (auto simp: dcc_set_function_def)
  next
    case False
    then obtain i where i: "r = Some i" by blast
    have "i < length (locos dcc1)"
      using find_or_create_Some(1) [OF f [unfolded i]] find_or_create_unchanged(5) [OF f] by simp
    with False i f show ?thesis
      by (intro not_moving_update [OF m, where i = i])
        (use not_moving_nth [OF m, of i] in \<open>auto simp: dcc_set_function_def Let_def split: if_splits\<close>)
  qed
qed

lemma set_throttle_not_moving:
  assumes "\<not> moving a dcc" and "a \<noteq> b"
  shows "\<not> moving a (dcc_set_throttle R b l s d dcc)"
proof -
  obtain dcc1 r where f: "find_or_create_loco_locked dcc b l = (dcc1, r)"
    by (cases "find_or_create_loco_locked dcc b l")
  note m = find_or_create_not_moving [OF f assms(1)]
  show ?thesis
  proof (cases r)
    case None
    with f m show ?thesis by (simp add: dcc_set_throttle_eq Let_def)
  next
    case (Some i)
    with f find_or_create_Some(3) [OF f [unfolded Some]] assms(2) show ?thesis
      by (intro not_moving_update [OF m, where i = i]) (auto simp: dcc_set_throttle_eq Let_def)
  qed
qed

lemma exec_not_moving:
  assumes "fifo_queue R" and "pool_wf (packet_pool dcc)" and "\<not> moving a dcc"
    and "\<not> sets_throttle a c"
  shows "\<not> moving a (dcc_exec R c dcc)"
proof (cases "send_only c")
  case (Some f)
  then show ?thesis by (intro not_moving_same [OF assms(3)]) (simp add: send_only_exec)
next
  case None
  show ?thesis
  proof (cases c)
    case (Ensure_Loco b l)
    then show ?thesis using find_or_create_not_moving [of dcc b l _ _ a] assms(3)
      by (cases "find_or_create_loco_locked dcc b l") (auto simp: dcc_ensure_loco_def)
  next
    case Emergency_Stop_All
    then show ?thesis by (intro not_moving_same [OF assms(3)]) (simp add: dcc_emergency_stop_all_def)
  next
    case Clear_Emergency_Stop_All
    then show ?thesis by (intro not_moving_same [OF assms(3)]) (simp add: dcc_clear_emergency_stop_all_def)
  next
    case Reminder_Update
    then show ?thesis using assms by (intro not_moving_same [OF assms(3)]) (simp add: dcc_update_fields)
  qed (use None assms in \<open>auto simp: set_throttle_not_moving set_function_not_moving forget_not_moving
      emergency_stop_not_moving\<close>)
qed

section \<open>Safety of the emergency stops\<close>

text \<open>
  While the emergency stop of all locos is held, nothing on the track starts to move.
  Take any run of the engine and its consumer that contains no clear command: the stop
  stays held, and every packet the run puts into the output queue, reminders and throttle
  commands included, is one that drives no loco.
\<close>

lemma estop_all_held_safe:
  assumes "fifo_queue R" and "engine_ok R dcc" and "dcc_emergency_stop_all_held dcc"
    and "Command Clear_Emergency_Stop_All \<notin> set es"
  shows "dcc_emergency_stop_all_held (fold (dcc_event_step R) es dcc) \<and>
         progress R harmless dcc (fold (dcc_event_step R) es dcc)"
proof (rule run_progress [OF assms(1,2), where Q = dcc_emergency_stop_all_held])
  show "dcc_emergency_stop_all_held dcc" by (rule assms(3))
next
  fix s e assume s: "engine_ok R s" "dcc_emergency_stop_all_held s" "e \<in> set es"
  have p: "pool_wf (packet_pool s)" using s by (simp add: engine_ok_def dcc_wf_def)
  show "dcc_emergency_stop_all_held (dcc_event_step R e s)"
  proof (cases e)
    case (Command c)
    then have "c \<noteq> Clear_Emergency_Stop_All" using s(3) assms(4) by auto
    with Command s(2) show ?thesis
      by (auto simp: dcc_emergency_stop_all_held_def dcc_exec_estop [OF assms(1) p] split: dcc_cmd.splits)
  qed (use s(2) in \<open>auto simp: dcc_emergency_stop_all_held_def split: option.splits\<close>)
  show "harmless q" if "event_may_send s e q" for q
    using that s(2) by (cases e) (auto simp: may_send_def harmless_def dcc_emergency_stop_all_held_def)
qed

definition q8 :: "(pkt_ptr list, pkt_ptr) queue_api" where "q8 = bounded_queue 8"

text \<open>An engine with one loco running, as the witnesses use it.\<close>

definition running_engine :: "pkt_ptr list dcc_engine" where
  "running_engine = dcc_exec q8 (Set_Throttle 3 False 40 True) (dcc_init [] packet_pool_init)"

lemma q8_fifo [simp]: "fifo_queue q8"
  by (simp add: q8_def bounded_queue_fifo)

lemma running_engine_ok: "engine_ok q8 running_engine"
proof -
  have "engine_ok q8 (dcc_init [] packet_pool_init)"
    using dcc_init_wf by (simp add: engine_ok_def q8_def bounded_queue_def dcc_init_def)
  from event_ok [OF q8_fifo this, of "Command (Set_Throttle 3 False 40 True)"]
  show ?thesis by (simp add: running_engine_def)
qed

text \<open>
  C28: An emergency stop of one loco sticks. After the command, whatever else happens
  except a new throttle command for that address, the table does not have the loco moving
  and no packet put into the output queue drives that address.
\<close>

theorem emergency_stop_sticks:
  assumes "fifo_queue R" and "engine_ok R dcc"
    and "\<And>l s d. Command (Set_Throttle a l s d) \<notin> set es"
  shows "\<not> moving a (fold (dcc_event_step R) es (dcc_emergency_stop R a is_long dcc)) \<and>
         progress R (\<lambda>p. pkt_address p = a \<longrightarrow> harmless p) dcc
           (fold (dcc_event_step R) es (dcc_emergency_stop R a is_long dcc))"
proof -
  let ?d = "dcc_emergency_stop R a is_long dcc"
  have p: "pool_wf (packet_pool dcc)" "table_ok (locos dcc)"
    using assms(2) by (simp_all add: engine_ok_def dcc_wf_def)
  have ok: "engine_ok R ?d"
    using event_ok [OF assms(1,2), of "Command (Emergency_Stop a is_long)"] by simp
  have "progress R harmless dcc ?d"
    by (rule queued_progress [OF emergency_stop_queued [OF assms(1) p(1)]])
      (use assms(2) in \<open>simp add: engine_ok_def\<close>)
  then have 1: "progress R (\<lambda>p. pkt_address p = a \<longrightarrow> harmless p) dcc ?d"
    unfolding progress_def by blast
  have "\<not> moving a (fold (dcc_event_step R) es ?d) \<and>
        progress R (\<lambda>p. pkt_address p = a \<longrightarrow> harmless p) ?d (fold (dcc_event_step R) es ?d)"
  proof (rule run_progress [OF assms(1) ok, where Q = "\<lambda>s. \<not> moving a s"])
    show "\<not> moving a ?d" using p(2) by (rule emergency_stop_stops)
  next
    fix s e assume s: "engine_ok R s" "\<not> moving a s" "e \<in> set es"
    have w: "pool_wf (packet_pool s)" using s by (simp add: engine_ok_def dcc_wf_def)
    have e: "\<not> sets_throttle a c" if "e = Command c" for c
      using that s(3) assms(3) by (cases c) auto
    show "\<not> moving a (dcc_event_step R e s)"
      using exec_not_moving [OF assms(1) w s(2)] e s(2)
      by (cases e) (auto split: option.splits elim!: not_moving_same [THEN notE, rotated 2])
    show "pkt_address q = a \<longrightarrow> harmless q" if "event_may_send s e q" for q
      using that e s(2) by (cases e) (auto simp: may_send_def harmless_def)
  qed
  with 1 show ?thesis using progress_trans by blast
qed

theorem emergency_stop_sticks_witness:
  "\<not> moving 3 (dcc_exec q8 Reminder_Update (dcc_emergency_stop q8 3 False running_engine)) \<and>
   progress q8 (\<lambda>p. pkt_address p = 3 \<longrightarrow> harmless p) running_engine
     (dcc_exec q8 Reminder_Update (dcc_emergency_stop q8 3 False running_engine))"
  using emergency_stop_sticks [OF q8_fifo running_engine_ok, of 3 "[Command Reminder_Update]" False]
  by simp

text \<open>
  C7: Nothing the engine and its consumer do breaks the engine: from start-up every
  reachable state has a table in which every active address occurs once, each active loco
  is in 128-step mode and every function that is on has its group's flag set; the loop
  state is a real one; and the output queue holds distinct packets of the pool, all of
  them in use.
\<close>

theorem engine_invariant:
  assumes "fifo_queue R" and "queue_items R q = []"
  shows "engine_ok R (fold (dcc_event_step R) es (dcc_init q packet_pool_init))"
  using engine.inv_reachable [of R "dcc_init q packet_pool_init" es] assms
  by (auto simp: engine_inv_def engine_start_def)

theorem engine_invariant_witness:
  "engine_ok q8 (dcc_exec q8 Reminder_Update (dcc_exec q8 (Set_Function 4000 True 28 True)
     (dcc_init [] packet_pool_init)))"
  using engine_invariant [OF q8_fifo, of "[]"
     "[Command (Set_Function 4000 True 28 True), Command Reminder_Update]"]
  by (simp add: q8_def bounded_queue_def)

section \<open>What is sent when there is room\<close>

lemma pool_free_slot:
  assumes "pool_wf pl" and "card (pool_used pl) < PACKET_POOL_SIZE"
  obtains pl' k where "packet_alloc pl = (pl', Some k)"
proof (cases "packet_alloc pl")
  case (Pair pl' r)
  show thesis
  proof (cases r)
    case None
    with Pair have "pool_used pl = {..<PACKET_POOL_SIZE}"
      using assms(1) by (auto simp: packet_alloc_None pool_used_def pool_wf_def)
    with assms(2) show thesis by simp
  qed (use Pair that in auto)
qed

text \<open>One packet sent with room in the pool and in the queue.\<close>

lemma alloc_and_send_room:
  assumes "fifo_queue R" and "queue_room R n" and "pool_wf (packet_pool dcc)"
    and "length (queue_items R (output_queue dcc)) < n"
    and "card (pool_used (packet_pool dcc)) < PACKET_POOL_SIZE"
  obtains k p where "holds p []" "pkt_in_use p" "k \<notin> pool_used (packet_pool dcc)"
    "queue_items R (output_queue (alloc_and_send R f dcc)) = queue_items R (output_queue dcc) @ [k]"
    "packet_pool (alloc_and_send R f dcc) ! k = f p"
proof -
  obtain pl k where al: "packet_alloc (packet_pool dcc) = (pl, Some k)"
    using pool_free_slot [OF assms(3,5)] .
  note fresh = packet_alloc_holds [OF assms(3) al]
  obtain q where q: "xQueueSend R (output_queue dcc) k = Some q"
    using assms(2,4) by (auto simp: queue_room_def)
  have "alloc_and_send R f dcc = dcc\<lparr>packet_pool := update_packet k f pl, output_queue := q\<rparr>"
    using al q by (simp add: alloc_and_send_def send_packet_def)
  moreover have "k \<notin> pool_used (packet_pool dcc)"
    using pool.alloc_Some [OF assms(3) al] by simp
  ultimately show thesis
    using that [of "pl ! k" k] fresh fifo_send [OF assms(1) q] by (simp add: update_packet_def)
qed

text \<open>
  A throttle command does what it says. With the stop not held, a slot for the loco,
  and room in the pool and the queue: the table has the loco at the step, the last-throttle
  record is the command, no other loco changes, and exactly one packet is queued: the loco's
  address followed by the 128-step instruction and the step.
\<close>

theorem set_throttle_sends:
  assumes "fifo_queue R" and "queue_room R n" and "engine_ok R dcc" and "\<not> estop_all dcc"
    and "length (queue_items R (output_queue dcc)) < n"
    and "card (pool_used (packet_pool dcc)) < PACKET_POOL_SIZE"
    and "find_loco_locked dcc a \<noteq> None \<or> (\<exists>l\<in>set (locos dcc). \<not> loco_active l)"
  shows "let step = (speed AND 0x7F) OR (if forward then 0x80 else 0);
             long = is_long \<or> a > SHORT_ADDRESS_MAX;
             dcc' = dcc_set_throttle R a is_long speed forward dcc
         in \<exists>i k. i < MAX_LOCOS \<and>
              loco_active (locos dcc' ! i) \<and> loco_address (locos dcc' ! i) = a \<and>
              is_long_address (locos dcc' ! i) = long \<and> speed_step (locos dcc' ! i) = step \<and>
              (\<forall>j<MAX_LOCOS. j = i \<or> locos dcc' ! j = locos dcc ! j) \<and>
              dcc_get_last_throttle dcc' = Some (a, long, step) \<and>
              queue_items R (output_queue dcc') = queue_items R (output_queue dcc) @ [k] \<and>
              pkt_bytes (packet_pool dcc' ! k) = address_bytes a long @ [0x3F, step] \<and>
              pkt_priority (packet_pool dcc' ! k) =
                (if step < 2 then PRIORITY_EMERGENCY else PRIORITY_HIGH)"
proof -
  define step where "step = (speed AND 0x7F) OR (if forward then 0x80 else 0)"
  define long where "long \<longleftrightarrow> is_long \<or> a > SHORT_ADDRESS_MAX"
  obtain dcc1 r where f: "find_or_create_loco_locked dcc a is_long = (dcc1, r)"
    by (cases "find_or_create_loco_locked dcc a is_long")
  have wf: "table_ok (locos dcc)" "pool_wf (packet_pool dcc)"
    using assms(3) by (simp_all add: engine_ok_def dcc_wf_def)
  obtain i where r: "r = Some i"
  proof (cases r)
    case None
    with f assms(7) find_or_create_None [of dcc a is_long dcc1] show ?thesis
      by (auto simp: in_set_conv_nth)
  qed
  note i = find_or_create_Some [OF f [unfolded r]] and un = find_or_create_unchanged [OF f]
  have len: "length (locos dcc) = MAX_LOCOS" "length (locos dcc1) = MAX_LOCOS"
    using wf un by (simp_all add: table_ok_def)
  have mode: "speed_mode (locos dcc1 ! i) = SPEED_MODE_128"
    using table_ok_nth [OF find_or_create_table [OF f wf(1)], of i] i un by (simp add: loco_ok_def)
  define dcc2 where "dcc2 = (update_loco i (\<lambda>l. l\<lparr>speed_step := step\<rparr>) dcc1)
     \<lparr>last_throttle_valid := True, last_throttle_addr := a, last_throttle_is_long := long,
      last_throttle_speed_step := step\<rparr>"
  have same: "packet_pool dcc2 = packet_pool dcc" "output_queue dcc2 = output_queue dcc"
    using un by (simp_all add: dcc2_def)
  have eq: "dcc_set_throttle R a is_long speed forward dcc =
      alloc_and_send R (throttle_packet a long step SPEED_MODE_128) dcc2"
    using f r i un len assms(4) mode
    by (simp add: dcc_set_throttle_eq dcc2_def step_def long_def Let_def)
  obtain k p where k: "holds p []"
    "queue_items R (output_queue (dcc_set_throttle R a is_long speed forward dcc)) =
       queue_items R (output_queue dcc) @ [k]"
    "packet_pool (dcc_set_throttle R a is_long speed forward dcc) ! k =
       throttle_packet a long step SPEED_MODE_128 p"
    using alloc_and_send_room [OF assms(1,2), of dcc2 "throttle_packet a long step SPEED_MODE_128"]
      wf(2) assms(5,6) unfolding eq same by blast
  have "pkt_bytes (throttle_packet a long step SPEED_MODE_128 p) = address_bytes a long @ [0x3F, step]"
    using throttle_packet_to [OF k(1)] by (simp add: throttle_bytes_def CMD_SET_SPEED_def)
  moreover have "locos (dcc_set_throttle R a is_long speed forward dcc) =
      (locos dcc1)[i := (locos dcc1 ! i)\<lparr>speed_step := step\<rparr>]"
    by (simp add: eq dcc2_def)
  moreover have "dcc_get_last_throttle (dcc_set_throttle R a is_long speed forward dcc) = Some (a, long, step)"
    by (simp add: eq dcc2_def dcc_get_last_throttle_def)
  moreover have "pkt_priority (throttle_packet a long step SPEED_MODE_128 p) =
      (if step < 2 then PRIORITY_EMERGENCY else PRIORITY_HIGH)"
    by (simp add: throttle_packet_def)
  moreover have "(locos dcc1)[i := (locos dcc1 ! i)\<lparr>speed_step := step\<rparr>] ! i = (locos dcc1 ! i)\<lparr>speed_step := step\<rparr>"
    using i(1) len by simp
  moreover have "\<forall>j<MAX_LOCOS. j = i \<or> (locos dcc1)[i := (locos dcc1 ! i)\<lparr>speed_step := step\<rparr>] ! j = locos dcc ! j"
  proof (intro allI impI)
    fix j assume "j < MAX_LOCOS"
    then show "j = i \<or> (locos dcc1)[i := (locos dcc1 ! i)\<lparr>speed_step := step\<rparr>] ! j = locos dcc ! j"
      using un(6) len r by (cases "j = i") simp_all
  qed
  ultimately show ?thesis
    unfolding Let_def step_def [symmetric] long_def [symmetric]
    using k(2,3) i len(1) by (intro exI [of _ i] exI [of _ k]) (simp add: long_def)
qed

section \<open>The reminder loop\<close>

text \<open>What the loop has to send for a loco in a loop state, and how the state moves.\<close>

definition reminder_bytes :: "loop_state \<Rightarrow> bool \<Rightarrow> loco_state \<Rightarrow> u8 list option" where
  "reminder_bytes state held l =
     (if state = LOOP_STATE_SPEED
      then Some (address_bytes (loco_address l) (is_long_address l) @
             [0x3F, if held then estop_step (speed_step l) else speed_step l])
      else case fn_reminder state l of
             Some (flag, bytes) \<Rightarrow>
               (if group_flags l AND flag \<noteq> 0
                then Some (address_bytes (loco_address l) (is_long_address l) @ bytes) else None)
           | None \<Rightarrow> None)"

definition due_reminders :: "'q dcc_engine \<Rightarrow> u8 list list" where
  "due_reminders dcc = List.map_filter (reminder_bytes (loop_state dcc) (estop_all dcc))
     (filter loco_active (locos dcc))"

lemma reminder_packet_bytes:
  assumes "loco_ok l" and "loco_active l"
  shows "case reminder_packet state held l of
           None \<Rightarrow> reminder_bytes state held l = None
         | Some f \<Rightarrow> proper (\<lambda>p. True) f \<and>
             (\<forall>p. holds p [] \<longrightarrow> Some (pkt_bytes (f p)) = reminder_bytes state held l)"
proof (cases "state = LOOP_STATE_SPEED")
  case True
  have m: "speed_mode l = SPEED_MODE_128" using assms by (simp add: loco_ok_def)
  let ?s = "if held then estop_step (speed_step l) else speed_step l"
  have "pkt_wf (throttle_packet (loco_address l) (is_long_address l) ?s SPEED_MODE_128 p)"
    if "holds p []" for p
    using holds_throttle_packet [OF that] by (rule holds_wf)
  then show ?thesis
    using True m
    by (simp add: reminder_packet_def reminder_bytes_def proper_def pkt_wf_def throttle_packet_to
        throttle_bytes_def CMD_SET_SPEED_def)
next
  case False
  show ?thesis
  proof (cases "fn_reminder state l")
    case None
    with False show ?thesis by (simp add: reminder_packet_def reminder_bytes_def)
  next
    case (Some fb)
    then obtain flag bytes where fb: "fn_reminder state l = Some (flag, bytes)" by (cases fb) auto
    have "pkt_bytes (fold packet_add_byte bytes (addressed (loco_address l) (is_long_address l) p)) =
        address_bytes (loco_address l) (is_long_address l) @ bytes" if "holds p []" for p
      using group_byte_harmless(2) [OF fb] address_bytes_length [of "loco_address l" "is_long_address l"]
      by (intro holds_bytes holds_fold_add_byte holds_addressed that) (auto split: if_splits)
    moreover have "proper (\<lambda>p. True) (\<lambda>p. (fold packet_add_byte bytes
        (addressed (loco_address l) (is_long_address l) p))\<lparr>pkt_priority := x, pkt_repeats := r\<rparr>)" for x r
      by (rule proper_mono [OF proper_function_reminder [OF fb]]) simp
    ultimately show ?thesis
      using False fb by (simp add: reminder_packet_def reminder_bytes_def)
  qed
qed

text \<open>
  A pass of the loop as it really runs: \<open>xQueueSend\<close> may wait, and the queue task, which
  has a higher priority, takes packets out in the meantime. Before the turn of each entry of the table
  the consumer may take any steps; commands wait for the engine's mutex. What it takes is recorded by its bytes.
\<close>

definition queue_bytes :: "'q q_api \<Rightarrow> 'q dcc_engine \<Rightarrow> u8 list list" where
  "queue_bytes R dcc = map (\<lambda>k. pkt_bytes (packet_pool dcc ! k)) (queue_items R (output_queue dcc))"

fun consumer_run :: "'q q_api \<Rightarrow> dcc_event list \<Rightarrow> 'q dcc_engine \<Rightarrow> u8 list list \<times> 'q dcc_engine" where
  "consumer_run R [] dcc = ([], dcc)"
| "consumer_run R (Command c # es) dcc = consumer_run R es dcc"
| "consumer_run R (Dequeue # es) dcc =
     (case consumer_run R es (dcc_event_step R Dequeue dcc) of (x, d) \<Rightarrow> (take 1 (queue_bytes R dcc) @ x, d))"
| "consumer_run R (Consumer i p # es) dcc = consumer_run R es (dcc_event_step R (Consumer i p) dcc)"

fun reminder_pass :: "'q q_api \<Rightarrow> (dcc_event list \<times> nat) list \<Rightarrow> 'q dcc_engine \<Rightarrow> u8 list list \<times> 'q dcc_engine" where
  "reminder_pass R [] dcc = ([], dcc)"
| "reminder_pass R ((es, i) # ws) dcc =
     (case consumer_run R es dcc of (x, d) \<Rightarrow>
        (case reminder_pass R ws (if loco_active (locos d ! i) then send_reminder_packets R i d else d) of
           (y, d') \<Rightarrow> (x @ y, d')))"

definition dcc_update_waiting ::
  "'q q_api \<Rightarrow> dcc_event list list \<Rightarrow> 'q dcc_engine \<Rightarrow> u8 list list \<times> 'q dcc_engine" where
  "dcc_update_waiting R ess dcc =
     (case reminder_pass R (zip ess [0..<length (locos dcc)]) dcc of (x, d) \<Rightarrow>
        (let s = next_loop_state (loop_state d)
         in (x, d\<lparr>loop_state := (if s = LOOP_STATE_RESTART then LOOP_STATE_SPEED else s)\<rparr>)))"

text \<open>There is room in the queue and a free packet at the turn of every active loco.\<close>

definition has_room :: "'q q_api \<Rightarrow> nat \<Rightarrow> 'q dcc_engine \<Rightarrow> bool" where
  "has_room R n dcc \<longleftrightarrow> length (queue_items R (output_queue dcc)) < n \<and> card (pool_used (packet_pool dcc)) < PACKET_POOL_SIZE"

fun in_time :: "'q q_api \<Rightarrow> nat \<Rightarrow> (dcc_event list \<times> nat) list \<Rightarrow> 'q dcc_engine \<Rightarrow> bool" where
  "in_time R n [] dcc = True"
| "in_time R n ((es, i) # ws) dcc =
     (let d = snd (consumer_run R es dcc)
      in if loco_active (locos d ! i) then has_room R n d \<and> in_time R n ws (send_reminder_packets R i d) else in_time R n ws d)"

definition due_of :: "'q dcc_engine \<Rightarrow> nat list \<Rightarrow> u8 list list" where
  "due_of dcc is = List.map_filter (reminder_bytes (loop_state dcc) (estop_all dcc)) (filter loco_active (map ((!) (locos dcc)) is))"

lemma no_waiting: "reminder_pass R (map (\<lambda>i. ([], i)) is) dcc = ([], send_reminders R is dcc)"
  by (induction "is" arbitrary: dcc) (simp_all add: send_reminders_def)

lemma dequeue_bytes:
  assumes "fifo_queue R"
  shows "take 1 (queue_bytes R dcc) @ queue_bytes R (dcc_event_step R Dequeue dcc) = queue_bytes R dcc"
proof (cases "xQueueReceive R (output_queue dcc)")
  case None
  then have "queue_items R (output_queue dcc) = []" using assms by (simp add: fifo_queue_def)
  then show ?thesis using None by (simp add: queue_bytes_def)
next
  case (Some r)
  obtain k q where r: "r = (k, q)" by (cases r)
  have "queue_items R (output_queue dcc) = k # queue_items R q" by (rule fifo_receive [OF assms Some [unfolded r]])
  then show ?thesis using Some r by (simp add: queue_bytes_def)
qed

lemma consumer_bytes: "queue_bytes R (dcc_event_step R (Consumer i p) dcc) = queue_bytes R dcc"
proof -
  have "k \<in> set (queue_items R (output_queue dcc)) \<Longrightarrow> i \<notin> set (queue_items R (output_queue dcc)) \<Longrightarrow> i \<noteq> k" for k by auto
  then show ?thesis by (auto simp: queue_bytes_def)
qed

lemma consumer_same: "same_engine dcc (dcc_event_step R Dequeue dcc)" "same_engine dcc (dcc_event_step R (Consumer i p) dcc)"
  by (auto simp: same_engine_def split: option.split)

lemma same_engine_trans: "same_engine a b \<Longrightarrow> same_engine b c \<Longrightarrow> same_engine a c"
  by (simp add: same_engine_def)

lemma same_engine_self: "same_engine a a"
  by (simp add: same_engine_def)

lemma consumer_run_bytes:
  assumes "fifo_queue R" and "engine_ok R dcc" and "consumer_run R es dcc = (x, d)"
  shows "x @ queue_bytes R d = queue_bytes R dcc \<and> engine_ok R d \<and> same_engine dcc d"
  using assms(2,3)
proof (induction es arbitrary: dcc x)
  case (Cons e es)
  note ok = event_ok [OF assms(1) Cons.prems(1), of e]
  show ?case
  proof (cases e)
    case (Command c)
    then show ?thesis using Cons by simp
  next
    case Dequeue
    then obtain y where y: "consumer_run R es (dcc_event_step R e dcc) = (y, d)" "x = take 1 (queue_bytes R dcc) @ y"
      using Cons.prems(2) by (auto split: prod.splits)
    show ?thesis using Cons.IH [OF ok y(1)] dequeue_bytes [OF assms(1), of dcc] consumer_same(1) [of dcc R]
      unfolding y(2) Dequeue by (metis append.assoc same_engine_trans)
  next
    case (Consumer i p)
    then have "consumer_run R es (dcc_event_step R e dcc) = (x, d)" using Cons.prems(2) by simp
    from Cons.IH [OF ok this] show ?thesis using consumer_bytes [of R i p dcc] consumer_same(2) [of dcc R i p]
      unfolding Consumer by (metis same_engine_trans)
  qed
qed (simp add: same_engine_self)

text \<open>One turn queues what is due or, without room, nothing, and with room it queues it.\<close>

lemma alloc_and_send_one:
  assumes "fifo_queue R"
  shows "length (queue_items R (output_queue (alloc_and_send R f dcc))) \<le> Suc (length (queue_items R (output_queue dcc)))"
  using fifo_send [OF assms, of "output_queue dcc"]
  by (auto simp: alloc_and_send_def send_packet_def split: prod.split option.split)

lemma turn_bytes:
  assumes "fifo_queue R" and "queue_room R n" and "engine_ok R dcc" and "loco_ok (locos dcc ! i)" and "loco_active (locos dcc ! i)"
  shows "let d = send_reminder_packets R i dcc; due = due_of dcc [i] in
     (queue_bytes R d = queue_bytes R dcc \<or> queue_bytes R d = queue_bytes R dcc @ due) \<and>
     (has_room R n dcc \<longrightarrow> queue_bytes R d = queue_bytes R dcc @ due) \<and> engine_ok R d \<and> same_engine dcc d"
proof -
  have p: "pool_wf (packet_pool dcc)" "set (queue_items R (output_queue dcc)) \<subseteq> pool_used (packet_pool dcc)"
    "distinct (queue_items R (output_queue dcc))"
    using assms(3) by (simp_all add: engine_ok_def dcc_wf_def)
  have due: "due_of dcc [i] = (case reminder_bytes (loop_state dcc) (estop_all dcc) (locos dcc ! i) of None \<Rightarrow> [] | Some b \<Rightarrow> [b])"
    using assms(5) by (simp add: due_of_def List.map_filter_def split: option.split)
  have same: "same_engine dcc (send_reminder_packets R i dcc)" by (rule same_engine_reminder)
  show ?thesis
  proof (cases "reminder_packet (loop_state dcc) (estop_all dcc) (locos dcc ! i)")
    case None
    then have "send_reminder_packets R i dcc = dcc" by (simp add: send_reminder_packets_eq)
    moreover have "due_of dcc [i] = []" unfolding due
      using reminder_packet_bytes [OF assms(4,5), of "loop_state dcc" "estop_all dcc"] None by simp
    ultimately show ?thesis using assms(3) by (simp add: same_engine_self)
  next
    case (Some f)
    have f: "proper (\<lambda>p. True) f" "\<And>p. holds p [] \<Longrightarrow>
        reminder_bytes (loop_state dcc) (estop_all dcc) (locos dcc ! i) = Some (pkt_bytes (f p))"
      using reminder_packet_bytes [OF assms(4,5), of "loop_state dcc" "estop_all dcc"] Some by auto
    have g: "proper (\<lambda>p. [pkt_bytes p] = due_of dcc [i]) f"
      unfolding proper_def
    proof (intro allI impI)
      fix p assume "holds p [] \<and> pkt_in_use p"
      then show "pkt_wf (f p) \<and> pkt_in_use (f p) \<and> [pkt_bytes (f p)] = due_of dcc [i]"
        using f(1) f(2) [of p] by (simp add: due proper_def)
    qed
    have eq: "send_reminder_packets R i dcc = alloc_and_send R f dcc" using Some by (simp add: send_reminder_packets_eq)
    let ?d = "alloc_and_send R f dcc"
    obtain new where q: "queue_items R (output_queue ?d) = queue_items R (output_queue dcc) @ new" "distinct new"
        "set new \<inter> pool_used (packet_pool dcc) = {}" "pool_used (packet_pool ?d) = pool_used (packet_pool dcc) \<union> set new"
        "\<forall>i\<in>pool_used (packet_pool dcc). packet_pool ?d ! i = packet_pool dcc ! i"
        "\<forall>k\<in>set new. [pkt_bytes (packet_pool ?d ! k)] = due_of dcc [i]" "pool_wf (packet_pool ?d)"
      using queued_alloc_and_send [OF assms(1) p(1) g] by (auto simp: queued_def)
    have one: "length new \<le> 1" using alloc_and_send_one [OF assms(1), of f dcc] q(1) by simp
    have bytes: "queue_bytes R ?d = queue_bytes R dcc @ (if new = [] then [] else due_of dcc [i])"
    proof -
      have "map (\<lambda>k. pkt_bytes (packet_pool ?d ! k)) (queue_items R (output_queue dcc)) = queue_bytes R dcc"
        using p(2) q(5) by (auto simp: queue_bytes_def)
      moreover have "map (\<lambda>k. pkt_bytes (packet_pool ?d ! k)) new = (if new = [] then [] else due_of dcc [i])"
        using one q(6) by (cases new) auto
      ultimately show ?thesis by (simp add: queue_bytes_def q(1))
    qed
    moreover have "has_room R n dcc \<Longrightarrow> new \<noteq> []"
    proof -
      assume "has_room R n dcc"
      then obtain k p' where "queue_items R (output_queue ?d) = queue_items R (output_queue dcc) @ [k]"
        using alloc_and_send_room [OF assms(1,2) p(1), of f] by (auto simp: has_room_def)
      then show ?thesis using q(1) by simp
    qed
    moreover have "engine_ok R ?d"
    proof -
      have "dcc_wf ?d" using assms(3) q(7) by (simp add: engine_ok_def dcc_wf_def)
      then show ?thesis using p q(1-4) by (auto simp: engine_ok_def)
    qed
    ultimately show ?thesis using same unfolding eq Let_def by auto
  qed
qed

lemma due_of_Cons: "due_of dcc (i # is) = (if loco_active (locos dcc ! i) then due_of dcc [i] else []) @ due_of dcc is"
  by (simp add: due_of_def List.map_filter_def split: option.split)

lemma due_of_same: "same_engine a b \<Longrightarrow> due_of b is = due_of a is"
  by (simp add: due_of_def same_engine_def)

lemma pass_bytes:
  assumes "fifo_queue R" and "queue_room R n" and "engine_ok R dcc" and "\<forall>i\<in>snd ` set ws. loco_ok (locos dcc ! i)"
    and "reminder_pass R ws dcc = (x, d)"
  shows "\<exists>sent. x @ queue_bytes R d = queue_bytes R dcc @ sent \<and> subseq sent (due_of dcc (map snd ws)) \<and>
    (in_time R n ws dcc \<longrightarrow> sent = due_of dcc (map snd ws)) \<and> engine_ok R d \<and> same_engine dcc d"
  using assms(3-)
proof (induction ws arbitrary: dcc x)
  case Nil
  then show ?case by (simp add: due_of_def List.map_filter_def same_engine_self)
next
  case (Cons w ws)
  obtain es i where w: "w = (es, i)" by (cases w)
  obtain x1 d1 where 1: "consumer_run R es dcc = (x1, d1)" by (cases "consumer_run R es dcc")
  note c = consumer_run_bytes [OF assms(1) Cons.prems(1) 1]
  then have l: "locos d1 = locos dcc" by (simp add: same_engine_def)
  define d2 where "d2 = (if loco_active (locos d1 ! i) then send_reminder_packets R i d1 else d1)"
  define due where "due = (if loco_active (locos dcc ! i) then due_of dcc [i] else [])"
  obtain x2 where 2: "reminder_pass R ws d2 = (x2, d)" "x = x1 @ x2"
    using Cons.prems(3) by (auto simp: w 1 d2_def split: prod.splits)
  have turn: "(queue_bytes R d2 = queue_bytes R d1 \<or> queue_bytes R d2 = queue_bytes R d1 @ due) \<and>
     (in_time R n (w # ws) dcc \<longrightarrow> queue_bytes R d2 = queue_bytes R d1 @ due \<and> in_time R n ws d2) \<and> engine_ok R d2 \<and> same_engine d1 d2"
  proof (cases "loco_active (locos dcc ! i)")
    case True
    have "loco_ok (locos d1 ! i)" using Cons.prems(2) l by (simp add: w)
    from turn_bytes [OF assms(1,2) _ this] c True l have "let d = send_reminder_packets R i d1; due = due_of d1 [i] in
     (queue_bytes R d = queue_bytes R d1 \<or> queue_bytes R d = queue_bytes R d1 @ due) \<and>
     (has_room R n d1 \<longrightarrow> queue_bytes R d = queue_bytes R d1 @ due) \<and> engine_ok R d \<and> same_engine d1 d" by simp
    moreover have "due_of d1 [i] = due_of dcc [i]" using c due_of_same by blast
    ultimately show ?thesis using c True l by (simp add: Let_def d2_def due_def w 1)
  next
    case False
    then show ?thesis using c l by (simp add: d2_def due_def w 1 same_engine_self)
  qed
  have same: "same_engine dcc d2" using c turn by (blast intro: same_engine_trans)
  then have ok: "\<forall>i\<in>snd ` set ws. loco_ok (locos d2 ! i)" using Cons.prems(2) by (simp add: same_engine_def)
  obtain sent where s: "x2 @ queue_bytes R d = queue_bytes R d2 @ sent" "subseq sent (due_of dcc (map snd ws))"
    "in_time R n ws d2 \<longrightarrow> sent = due_of dcc (map snd ws)" "engine_ok R d" "same_engine d2 d"
    using Cons.IH [OF _ ok 2(1)] turn due_of_same [OF same] by auto
  define this_turn where "this_turn = (if queue_bytes R d2 = queue_bytes R d1 @ due then due else [])"
  have "queue_bytes R d2 = queue_bytes R d1 @ this_turn" using turn by (auto simp: this_turn_def)
  then have "x @ queue_bytes R d = queue_bytes R dcc @ this_turn @ sent" using s(1) c by (simp add: 2(2))
  moreover have "due_of dcc (map snd (w # ws)) = due @ due_of dcc (map snd ws)"
    by (simp add: w due_def due_of_Cons [of dcc i])
  moreover have "subseq (this_turn @ sent) (due @ due_of dcc (map snd ws))"
    using s(2) by (intro list_emb_append_mono) (simp_all add: this_turn_def)
  ultimately show ?case using s(3-5) turn same_engine_trans [OF same] this_turn_def
    by (intro exI [of _ "this_turn @ sent"]) auto
qed

text \<open>
  C29: A pass of the reminder loop refreshes the locos. Whatever the queue task does between the turns
  of the table, the packets that leave the queue during the pass and those in it afterwards are those that
  were in it before and then, in table order, at most one packet for each active loco that has something
  due in the current loop state: its stored speed (the emergency stop while that is held) or the bytes of the
  function group, and nothing else. If the queue, of whatever depth, has room and a packet is free at the turn of
  each active loco, none is missing. A pass without waiting is \<open>dcc_update\<close>.
\<close>

theorem reminders_refresh:
  assumes "fifo_queue R" and "queue_room R n" and "engine_ok R dcc" and "length ess = MAX_LOCOS"
    and "dcc_update_waiting R ess dcc = (received, dcc')"
  shows "(\<exists>sent. received @ queue_bytes R dcc' = queue_bytes R dcc @ sent \<and> subseq sent (due_reminders dcc) \<and>
       (in_time R n (zip ess [0..<MAX_LOCOS]) dcc \<longrightarrow> sent = due_reminders dcc)) \<and>
     engine_ok R dcc' \<and> locos dcc' = locos dcc \<and>
     ((\<forall>es\<in>set ess. es = []) \<longrightarrow> received = [] \<and> dcc' = dcc_update R dcc)"
proof -
  have t: "table_ok (locos dcc)" using assms(3) by (simp add: engine_ok_def dcc_wf_def)
  then have len: "length (locos dcc) = MAX_LOCOS" by (simp add: table_ok_def)
  let ?ws = "zip ess [0..<MAX_LOCOS]"
  obtain x d where p: "reminder_pass R ?ws dcc = (x, d)" by (cases "reminder_pass R ?ws dcc")
  have ix: "map snd ?ws = [0..<MAX_LOCOS]" using assms(4) by simp
  have ok: "\<forall>i\<in>snd ` set ?ws. loco_ok (locos dcc ! i)"
    using t len by (auto simp: table_ok_nth dest: set_zip_rightD)
  have due: "due_of dcc [0..<MAX_LOCOS] = due_reminders dcc"
    by (simp add: due_of_def due_reminders_def map_nth flip: len)
  obtain sent where s: "x @ queue_bytes R d = queue_bytes R dcc @ sent" "subseq sent (due_reminders dcc)"
    "in_time R n ?ws dcc \<longrightarrow> sent = due_reminders dcc" "engine_ok R d" "same_engine dcc d"
    using pass_bytes [OF assms(1-3) ok p] unfolding ix due by blast
  let ?s = "next_loop_state (loop_state d)"
  have out: "received = x" "dcc' = d\<lparr>loop_state := (if ?s = LOOP_STATE_RESTART then LOOP_STATE_SPEED else ?s)\<rparr>"
    using assms(5) by (simp_all add: dcc_update_waiting_def len p Let_def)
  have "queue_bytes R dcc' = queue_bytes R d" by (simp add: out queue_bytes_def)
  moreover have "engine_ok R dcc'" using s(4,5) by (simp add: out engine_ok_def dcc_wf_def)
  moreover have "received = [] \<and> dcc' = dcc_update R dcc" if "\<forall>es\<in>set ess. es = []"
  proof -
    have "ess = replicate MAX_LOCOS []" using that assms(4) by (metis replicate_length_same)
    then have "?ws = map (\<lambda>i. ([], i)) [0..<MAX_LOCOS]" by (simp add: zip_replicate1)
    then have "x = [] \<and> d = send_reminders R [0..<MAX_LOCOS] dcc" using p no_waiting [of R "[0..<MAX_LOCOS]" dcc] by simp
    then show ?thesis by (simp add: out dcc_update_eq len Let_def)
  qed
  moreover have "locos dcc' = locos dcc" using s(5) by (simp add: out same_engine_def)
  ultimately show ?thesis using s(1-3) by (auto simp: out(1))
qed

text \<open>
  It is enough that the queue task makes room: counting from \<open>l\<close> packets in the queue, one more at each
  turn, it has taken out enough before each.
\<close>

fun keeps_up :: "nat \<Rightarrow> nat \<Rightarrow> dcc_event list list \<Rightarrow> bool" where
  "keeps_up n l [] = True"
| "keeps_up n l (es # ess) = (set es \<subseteq> {Dequeue} \<and> l - length es < n \<and> keeps_up n (Suc (l - length es)) ess)"

lemma dequeues_length:
  assumes "fifo_queue R" and "set es \<subseteq> {Dequeue}"
  shows "length (queue_items R (output_queue (snd (consumer_run R es dcc)))) = length (queue_items R (output_queue dcc)) - length es \<and>
    packet_pool (snd (consumer_run R es dcc)) = packet_pool dcc"
  using assms(2)
proof (induction es arbitrary: dcc)
  case (Cons e es)
  have "length (queue_items R (output_queue (dcc_event_step R Dequeue dcc))) = length (queue_items R (output_queue dcc)) - 1 \<and>
      packet_pool (dcc_event_step R Dequeue dcc) = packet_pool dcc"
    using assms(1) fifo_receive [OF assms(1), of "output_queue dcc"] by (auto simp: fifo_queue_def split: option.split)
  then show ?case using Cons.IH [of "dcc_event_step R Dequeue dcc"] Cons.prems by (simp add: split_beta)
qed simp

lemma turn_card:
  assumes "fifo_queue R" and "pool_wf (packet_pool dcc)" and "loco_ok (locos dcc ! i)" and "loco_active (locos dcc ! i)"
  shows "length (queue_items R (output_queue (send_reminder_packets R i dcc))) \<le> Suc (length (queue_items R (output_queue dcc)))"
    and "card (pool_used (packet_pool (send_reminder_packets R i dcc))) \<le> Suc (card (pool_used (packet_pool dcc)))"
proof -
  have "length (queue_items R (output_queue (send_reminder_packets R i dcc))) \<le> Suc (length (queue_items R (output_queue dcc))) \<and>
    card (pool_used (packet_pool (send_reminder_packets R i dcc))) \<le> Suc (card (pool_used (packet_pool dcc)))"
  proof (cases "reminder_packet (loop_state dcc) (estop_all dcc) (locos dcc ! i)")
    case (Some f)
    have "proper (\<lambda>p. True) f" using reminder_packet_bytes [OF assms(3,4), of "loop_state dcc" "estop_all dcc"] Some by simp
    from queued_alloc_and_send [OF assms(1,2) this] obtain new
      where q: "queue_items R (output_queue (alloc_and_send R f dcc)) = queue_items R (output_queue dcc) @ new"
        "pool_used (packet_pool (alloc_and_send R f dcc)) = pool_used (packet_pool dcc) \<union> set new"
      by (auto simp: queued_def)
    have "length new \<le> 1" using alloc_and_send_one [OF assms(1), of f dcc] q(1) by simp
    moreover have "card (pool_used (packet_pool dcc) \<union> set new) \<le> card (pool_used (packet_pool dcc)) + card (set new)"
      by (rule card_Un_le)
    ultimately show ?thesis using q card_length [of new] Some by (simp add: send_reminder_packets_eq)
  qed (simp add: send_reminder_packets_eq)
  then show "length (queue_items R (output_queue (send_reminder_packets R i dcc))) \<le> Suc (length (queue_items R (output_queue dcc)))"
    and "card (pool_used (packet_pool (send_reminder_packets R i dcc))) \<le> Suc (card (pool_used (packet_pool dcc)))" by simp_all
qed

lemma keeps_up_in_time:
  assumes "fifo_queue R" and "queue_room R n" and "engine_ok R dcc" and "\<forall>i\<in>set is. loco_ok (locos dcc ! i)"
    and "length ess = length is" and "keeps_up n l ess" and "length (queue_items R (output_queue dcc)) \<le> l"
    and "card (pool_used (packet_pool dcc)) + length is \<le> PACKET_POOL_SIZE"
  shows "in_time R n (zip ess is) dcc"
  using assms(3-)
proof (induction ess arbitrary: l "is" dcc)
  case (Cons es ess)
  then obtain i is' where i: "is = i # is'" by (cases "is") auto
  obtain x d where d: "consumer_run R es dcc = (x, d)" by (cases "consumer_run R es dcc")
  note c = consumer_run_bytes [OF assms(1) Cons.prems(1) d]
  have l: "locos d = locos dcc" using c by (simp add: same_engine_def)
  have len: "length (queue_items R (output_queue d)) \<le> l - length es" "packet_pool d = packet_pool dcc"
    using dequeues_length [OF assms(1), of es dcc] Cons.prems(4,5) d by auto
  have ku: "l - length es < n" "keeps_up n (Suc (l - length es)) ess" using Cons.prems(4) by simp_all
  have ok: "loco_ok (locos d ! i)" "\<forall>i\<in>set is'. loco_ok (locos d ! i)" "length ess = length is'" using Cons.prems(2,3) l by (simp_all add: i)
  have card: "card (pool_used (packet_pool d)) + Suc (length is') \<le> PACKET_POOL_SIZE" using Cons.prems(6) len(2) by (simp add: i)
  have room: "has_room R n d" using len ku(1) card by (simp add: has_room_def)
  show ?case
  proof (cases "loco_active (locos d ! i)")
    case True
    let ?d = "send_reminder_packets R i d"
    have t: "engine_ok R ?d" "locos ?d = locos d"
      using turn_bytes [OF assms(1,2) conjunct1 [OF conjunct2 [OF c]] ok(1) True] by (simp_all add: Let_def same_engine_def)
    have "pool_wf (packet_pool d)" using c by (simp add: engine_ok_def dcc_wf_def)
    note tc = turn_card [OF assms(1) this ok(1) True]
    have "in_time R n (zip ess is') ?d"
      by (rule Cons.IH [OF t(1) _ ok(3) ku(2)]) (use ok(2) t(2) tc len card in simp_all)
    then show ?thesis using True room by (simp add: i d Let_def)
  next
    case False
    have "in_time R n (zip ess is') d"
      by (rule Cons.IH [OF _ ok(2,3) ku(2)]) (use c len card in simp_all)
    then show ?thesis using False by (simp add: i d Let_def)
  qed
qed simp

text \<open>
  Eighteen locos on the program's queue of sixteen: a pass in which the queue task empties the queue after the
  sixteenth turn.
\<close>

definition q16 :: "(pkt_ptr list, pkt_ptr) queue_api" where "q16 = bounded_queue 16"

definition busy_engine :: "pkt_ptr list dcc_engine" where
  "busy_engine = (dcc_init [] packet_pool_init)\<lparr>locos := map (\<lambda>i. zero_loco\<lparr>loco_active := True, loco_address := word_of_nat (Suc i),
     speed_mode := SPEED_MODE_128, speed_step := 0x85\<rparr>) [0..<18] @ replicate 32 zero_loco\<rparr>"

definition busy_waits :: "dcc_event list list" where
  "busy_waits = replicate 16 [] @ [replicate 16 Dequeue] @ replicate 15 [] @ [replicate 16 Dequeue] @ replicate 15 [] @ [replicate 16 Dequeue, []]"

lemma busy_engine_ok: "engine_ok q16 busy_engine"
proof -
  have a: "word_of_nat (Suc i) = (word_of_nat (Suc j) :: u16) \<Longrightarrow> i < 18 \<Longrightarrow> j < 18 \<Longrightarrow> i = j" for i j
    by (simp add: word_unat_eq_iff unat_of_nat del: of_nat_Suc)
  have "table_ok (locos busy_engine)"
    using a by (auto simp: table_ok_def busy_engine_def MAX_LOCOS_def loco_ok_def zero_loco_def nth_append SHORT_ADDRESS_MAX_def
        word_less_nat_alt unat_of_nat simp del: of_nat_Suc split: if_splits)
  moreover have "packet_pool busy_engine = packet_pool_init" "loop_state busy_engine = LOOP_STATE_SPEED"
    "queue_items q16 (output_queue busy_engine) = []"
    by (simp_all add: busy_engine_def dcc_init_def q16_def bounded_queue_def)
  ultimately show ?thesis using packet_pool_init_wf by (simp add: engine_ok_def dcc_wf_def)
qed

theorem reminders_refresh_witness:
  "let r = dcc_update_waiting q16 busy_waits busy_engine in length (fst r @ queue_bytes q16 (snd r)) = 18"
proof -
  obtain x d where r: "dcc_update_waiting q16 busy_waits busy_engine = (x, d)" by (cases "dcc_update_waiting q16 busy_waits busy_engine")
  have f: "fifo_queue q16" "queue_room q16 16" by (simp_all add: q16_def bounded_queue_fifo bounded_queue_room)
  have e: "packet_pool busy_engine = packet_pool_init" "queue_items q16 (output_queue busy_engine) = []"
    "length (locos busy_engine) = MAX_LOCOS"
    by (simp_all add: busy_engine_def dcc_init_def q16_def bounded_queue_def MAX_LOCOS_def)
  have ok: "\<forall>i\<in>set [0..<MAX_LOCOS]. loco_ok (locos busy_engine ! i)"
    using busy_engine_ok e(3) by (simp add: engine_ok_def dcc_wf_def table_ok_nth)
  have len: "length busy_waits = MAX_LOCOS" by (simp add: busy_waits_def MAX_LOCOS_def)
  have time: "in_time q16 16 (zip busy_waits [0..<MAX_LOCOS]) busy_engine"
  proof (rule keeps_up_in_time [OF f busy_engine_ok ok])
    show "keeps_up 16 0 busy_waits" by (simp add: busy_waits_def numeral_eq_Suc)
    show "card (pool_used (packet_pool busy_engine)) + length [0..<MAX_LOCOS] \<le> PACKET_POOL_SIZE"
      using packet_pool_init_wf by (simp add: e MAX_LOCOS_def PACKET_POOL_SIZE_def)
  qed (simp_all add: e len)
  have "filter loco_active (locos busy_engine) = map (\<lambda>i. zero_loco\<lparr>loco_active := True, loco_address := word_of_nat (Suc i),
     speed_mode := SPEED_MODE_128, speed_step := 0x85\<rparr>) [0..<18]"
    by (simp add: busy_engine_def zero_loco_def filter_empty_conv)
  then have "length (due_reminders busy_engine) = 18"
    by (simp add: due_reminders_def reminder_bytes_def List.map_filter_def busy_engine_def dcc_init_def comp_def)
  moreover have "queue_bytes q16 busy_engine = []" by (simp add: queue_bytes_def e)
  moreover have "x @ queue_bytes q16 d = queue_bytes q16 busy_engine @ due_reminders busy_engine"
    using reminders_refresh [OF f busy_engine_ok len r] time by auto
  ultimately have "length (x @ queue_bytes q16 d) = 18" by simp
  then show ?thesis by (simp add: r)
qed

definition loop_order :: "loop_state list" where
  "loop_order = [LOOP_STATE_SPEED, LOOP_STATE_FN_GROUP1, LOOP_STATE_FN_GROUP2, LOOP_STATE_FN_GROUP3,
     LOOP_STATE_FN_GROUP4, LOOP_STATE_FN_GROUP5, LOOP_STATE_FN_GROUP6, LOOP_STATE_FN_GROUP7,
     LOOP_STATE_FN_GROUP8, LOOP_STATE_FN_GROUP9, LOOP_STATE_FN_GROUP10]"

definition updates :: "dcc_event list \<Rightarrow> nat" where
  "updates es = length (filter (\<lambda>e. e = Command Reminder_Update) es)"

lemma loop_order_next:
  "\<forall>k<11. (let s = next_loop_state (loop_order ! k) in if s = LOOP_STATE_RESTART then LOOP_STATE_SPEED else s) =
     loop_order ! (Suc k mod 11)"
  by (simp add: all_less_numeral all_less_one loop_order_def)

lemma event_loop_state:
  assumes "fifo_queue R" and "engine_ok R dcc"
  shows "loop_state (dcc_event_step R e dcc) =
     (if e = Command Reminder_Update
      then (let s = next_loop_state (loop_state dcc) in if s = LOOP_STATE_RESTART then LOOP_STATE_SPEED else s)
      else loop_state dcc)"
  using assms dcc_exec_loop_state [OF assms(1)]
  by (cases e) (auto simp: engine_ok_def dcc_wf_def dcc_update_fields split: option.splits)

text \<open>
  The reminder loop comes round. In any run of the engine, whatever commands and
  consumer steps are mixed in, the loop state depends only on the number of updates: they
  walk through the eleven reminders, the speed and the ten function groups, in a fixed
  order that has each of them once, and start again.
\<close>

lemma reminder_rotation:
  assumes "fifo_queue R" and "engine_ok R dcc" and "k < 11" and "loop_state dcc = loop_order ! k"
  shows "loop_state (fold (dcc_event_step R) es dcc) = loop_order ! ((k + updates es) mod 11) \<and>
         distinct loop_order \<and> set loop_order = UNIV - {LOOP_STATE_RESTART}"
proof -
  have "loop_state (fold (dcc_event_step R) es dcc) = loop_order ! ((k + updates es) mod 11)"
    using assms(2-4)
  proof (induction es arbitrary: dcc k)
    case Nil
    then show ?case by (simp add: updates_def)
  next
    case (Cons e es)
    let ?k = "if e = Command Reminder_Update then Suc k mod 11 else k"
    have "loop_state (dcc_event_step R e dcc) = loop_order ! ?k"
      using event_loop_state [OF assms(1) Cons.prems(1)] Cons.prems loop_order_next by simp
    from Cons.IH [OF event_ok [OF assms(1) Cons.prems(1)] _ this] Cons.prems(2)
    have "loop_state (fold (dcc_event_step R) (e # es) dcc) = loop_order ! ((?k + updates es) mod 11)"
      by simp
    moreover have "(?k + updates es) mod 11 = (k + updates (e # es)) mod 11"
      by (simp add: updates_def mod_simps)
    ultimately show ?case by simp
  qed
  moreover have "set loop_order = UNIV - {LOOP_STATE_RESTART}"
    by (auto simp: loop_order_def) (metis loop_state.exhaust)
  moreover have "distinct loop_order" by (simp add: loop_order_def)
  ultimately show ?thesis by blast
qed


end
