(* ===== verification/Priority_Queue.thy ===== *)
theory Priority_Queue
  imports Packet Rtos "HOL-Library.Multiset"
begin

text \<open>
  The priority queue between the DCC engine and the wave generator:
  \<^verbatim>\<open>src/src/queue/priority_queue.h\<close> and \<^verbatim>\<open>priority_queue.c\<close>. A binary heap of packet
  pointers in an array of 64 slots (\<open>None\<close> is NULL), ordered by the packets' priorities,
  and the task that fills it from its input queue and sends its best packet on.

  The functions that reach the packet pool take and return it: the state is the pair of the
  pool and the queue. After the model: the heap lemmas, the contract of a maximum priority
  queue (a locale, interpreted on the heap), who owns which packet, and the properties.
\<close>

section \<open>State\<close>

definition PQUEUE_CAPACITY :: nat where "PQUEUE_CAPACITY = 64"

record 'q priority_queue =
  items :: "pkt_ptr option list"
  pq_count :: nat
  input_queue :: 'q
  pq_output_queue :: 'q

definition pqueue_init :: "'q \<Rightarrow> 'q \<Rightarrow> 'q priority_queue" where
  "pqueue_init input output = \<lparr>items = replicate PQUEUE_CAPACITY None, pq_count = 0,
     input_queue = input, pq_output_queue = output\<rparr>"

text \<open>\<open>pq->items[i]->priority\<close>, with the packets in the pool.\<close>

definition item_priority :: "pool \<Rightarrow> pkt_ptr option list \<Rightarrow> nat \<Rightarrow> dcc_priority" where
  "item_priority pl xs i = pkt_priority (pl ! the (xs ! i))"

definition swap_items :: "'a list \<Rightarrow> nat \<Rightarrow> nat \<Rightarrow> 'a list" where
  "swap_items xs i j = xs[i := xs ! j, j := xs ! i]"

section \<open>The heap\<close>

function sift_up :: "pool \<Rightarrow> pkt_ptr option list \<Rightarrow> nat \<Rightarrow> pkt_ptr option list" where
  "sift_up pl xs idx =
     (if idx > 0
      then let parent = (idx - 1) div 2
           in if item_priority pl xs idx \<le> item_priority pl xs parent then xs
              else sift_up pl (swap_items xs idx parent) parent
      else xs)"
  by pat_completeness auto
termination by (relation "measure (\<lambda>(pl, xs, idx). idx)") auto

function sift_down :: "pool \<Rightarrow> nat \<Rightarrow> pkt_ptr option list \<Rightarrow> nat \<Rightarrow> pkt_ptr option list" where
  "sift_down pl n xs idx =
     (let left = 2 * idx + 1;
          right = 2 * idx + 2;
          largest = (if left < n \<and> item_priority pl xs left > item_priority pl xs idx then left else idx);
          largest = (if right < n \<and> item_priority pl xs right > item_priority pl xs largest
                     then right else largest)
      in if largest = idx then xs else sift_down pl n (swap_items xs idx largest) largest)"
  by pat_completeness auto
termination by (relation "measure (\<lambda>(pl, n, xs, idx). n - idx)") (auto simp: Let_def split: if_splits)

declare sift_up.simps [simp del] sift_down.simps [simp del]

definition remove_top :: "pool \<Rightarrow> 'q priority_queue \<Rightarrow> 'q priority_queue" where
  "remove_top pl pq =
     (if pq_count pq = 0 then pq
      else let n = pq_count pq - 1;
               xs = (items pq)[0 := items pq ! n];
               xs = xs[n := None]
           in pq\<lparr>pq_count := n, items := (if n > 0 then sift_down pl n xs 0 else xs)\<rparr>)"

definition pqueue_push :: "pkt_ptr \<Rightarrow> pool \<times> 'q priority_queue \<Rightarrow> pool \<times> 'q priority_queue" where
  "pqueue_push pkt = (\<lambda>(pl, pq).
     if pq_count pq \<ge> PQUEUE_CAPACITY then (packet_free pl (Some pkt), pq)
     else let xs = (items pq)[pq_count pq := Some pkt]
          in (pl, pq\<lparr>items := sift_up pl xs (pq_count pq), pq_count := pq_count pq + 1\<rparr>))"

text \<open>\<open>memcpy (copy->data, top->data, top->len)\<close> and the four assignments after it.\<close>

definition copy_packet :: "dcc_packet \<Rightarrow> dcc_packet \<Rightarrow> dcc_packet" where
  "copy_packet first copy = copy\<lparr>pkt_data := take (pkt_len first) (pkt_data first) @ drop (pkt_len first) (pkt_data copy),
     pkt_len := pkt_len first, pkt_address := pkt_address first, pkt_priority := pkt_priority first,
     pkt_repeats := 0\<rparr>"

definition pqueue_pop :: "pool \<times> 'q priority_queue \<Rightarrow> pkt_ptr option \<times> pool \<times> 'q priority_queue" where
  "pqueue_pop = (\<lambda>(pl, pq).
     if pq_count pq = 0 then (None, pl, pq)
     else let first = the (items pq ! 0)
          in if pkt_repeats (pl ! first) > 0
             then (case packet_alloc pl of
                     (pl, None) \<Rightarrow> (None, pl, pq)
                   | (pl, Some copy) \<Rightarrow>
                       (let pl = pl[first := (pl ! first)\<lparr>pkt_repeats := pkt_repeats (pl ! first) - 1\<rparr>]
                        in (Some copy, pl[copy := copy_packet (pl ! first) (pl ! copy)], pq)))
             else (Some first, pl, remove_top pl pq))"

definition same_packet :: "dcc_packet \<Rightarrow> dcc_packet \<Rightarrow> bool" where
  "same_packet a b \<longleftrightarrow> pkt_address a = pkt_address b \<and> pkt_len a = pkt_len b \<and>
     take (pkt_len b) (pkt_data a) = take (pkt_len b) (pkt_data b)"

definition pqueue_contains :: "pool \<Rightarrow> 'q priority_queue \<Rightarrow> pkt_ptr \<Rightarrow> bool" where
  "pqueue_contains pl pq pkt \<longleftrightarrow> (\<exists>i<pq_count pq. same_packet (pl ! the (items pq ! i)) (pl ! pkt))"

definition pqueue_is_empty :: "'q priority_queue \<Rightarrow> bool" where
  "pqueue_is_empty pq \<longleftrightarrow> pq_count pq = 0"

section \<open>The task\<close>

text \<open>
  One turn of \<open>task_priority_queue\<close>: the drain of the input queue, then the dispatch. The
  drain ends when the queue is empty; \<open>fuel\<close> bounds the number of packets taken and
  \<open>None\<close> is a drain that did not end.
\<close>

definition accept_packet :: "pkt_ptr \<Rightarrow> pool \<times> 'q priority_queue \<Rightarrow> pool \<times> 'q priority_queue" where
  "accept_packet pkt = (\<lambda>(pl, pq).
     if \<not> pqueue_contains pl pq pkt then pqueue_push pkt (pl, pq)
     else (packet_free pl (Some pkt), pq))"

fun drain_input ::
  "('q, pkt_ptr) queue_api \<Rightarrow> nat \<Rightarrow> pool \<times> 'q priority_queue \<Rightarrow> (pool \<times> 'q priority_queue) option" where
  "drain_input R 0 s = None"
| "drain_input R (Suc fuel) (pl, pq) =
     (case xQueueReceive R (input_queue pq) of
        None \<Rightarrow> Some (pl, pq)
      | Some (pkt, q) \<Rightarrow> drain_input R fuel (accept_packet pkt (pl, pq\<lparr>input_queue := q\<rparr>)))"

definition dispatch ::
  "('q, pkt_ptr) queue_api \<Rightarrow> pool \<times> 'q priority_queue \<Rightarrow> pool \<times> 'q priority_queue" where
  "dispatch R = (\<lambda>(pl, pq).
     if pqueue_is_empty pq then (pl, pq)
     else case pqueue_pop (pl, pq) of
            (None, pl, pq) \<Rightarrow> (pl, pq)
          | (Some out, pl, pq) \<Rightarrow>
              (case xQueueSend R (pq_output_queue pq) out of
                 Some q \<Rightarrow> (pl, pq\<lparr>pq_output_queue := q\<rparr>)
               | None \<Rightarrow> (packet_free pl (Some out), pq)))"

definition task_priority_queue ::
  "('q, pkt_ptr) queue_api \<Rightarrow> nat \<Rightarrow> pool \<times> 'q priority_queue \<Rightarrow> (pool \<times> 'q priority_queue) option" where
  "task_priority_queue R fuel s = (case drain_input R fuel s of None \<Rightarrow> None | Some s \<Rightarrow> Some (dispatch R s))"

section \<open>The heap is a heap\<close>

definition parent :: "nat \<Rightarrow> nat" where "parent i = (i - 1) div 2"

lemma parent_less: "0 < i \<Longrightarrow> parent i < i"
  by (simp add: parent_def)

lemma parent_child: "0 < j \<Longrightarrow> parent j = i \<longleftrightarrow> j = 2 * i + 1 \<or> j = 2 * i + 2"
  unfolding parent_def by presburger

lemma parent_not_self: "0 < i \<Longrightarrow> parent i \<noteq> i"
  using parent_less [of i] by simp

lemma sift_up_rec:
  "sift_up pl xs i =
     (if i = 0 \<or> item_priority pl xs i \<le> item_priority pl xs (parent i) then xs
      else sift_up pl (swap_items xs i (parent i)) (parent i))"
  by (rule trans [OF sift_up.simps]) (simp add: Let_def parent_def)

definition heap_upto :: "pool \<Rightarrow> nat \<Rightarrow> pkt_ptr option list \<Rightarrow> bool" where
  "heap_upto pl n xs \<longleftrightarrow> (\<forall>j<n. 0 < j \<longrightarrow> item_priority pl xs j \<le> item_priority pl xs (parent j))"

text \<open>A heap but for the edge above \<open>i\<close>, and one but for the edges below \<open>i\<close>.\<close>

definition up_heap :: "pool \<Rightarrow> nat \<Rightarrow> pkt_ptr option list \<Rightarrow> nat \<Rightarrow> bool" where
  "up_heap pl n xs i \<longleftrightarrow>
     (\<forall>j<n. 0 < j \<and> j \<noteq> i \<longrightarrow> item_priority pl xs j \<le> item_priority pl xs (parent j)) \<and>
     (0 < i \<longrightarrow> (\<forall>j<n. 0 < j \<and> parent j = i \<longrightarrow> item_priority pl xs j \<le> item_priority pl xs (parent i)))"

definition down_heap :: "pool \<Rightarrow> nat \<Rightarrow> pkt_ptr option list \<Rightarrow> nat \<Rightarrow> bool" where
  "down_heap pl n xs i \<longleftrightarrow>
     (\<forall>j<n. 0 < j \<and> parent j \<noteq> i \<longrightarrow> item_priority pl xs j \<le> item_priority pl xs (parent j)) \<and>
     (0 < i \<longrightarrow> (\<forall>j<n. 0 < j \<and> parent j = i \<longrightarrow> item_priority pl xs j \<le> item_priority pl xs (parent i)))"

lemma swap_items_length [simp]: "length (swap_items xs i j) = length xs"
  by (simp add: swap_items_def)

lemma item_priority_swap:
  assumes "i < length xs" and "j < length xs"
  shows "item_priority pl (swap_items xs i j) k =
    (if k = i then item_priority pl xs j else if k = j then item_priority pl xs i else item_priority pl xs k)"
  using assms by (auto simp: item_priority_def swap_items_def nth_list_update)

lemma sift_up_heap:
  assumes "up_heap pl n xs i" and "i < n" and "n \<le> length xs"
  shows "heap_upto pl n (sift_up pl xs i)"
  using assms
proof (induction pl xs i rule: sift_up.induct)
  case (1 pl xs i)
  show ?case
  proof (cases "0 < i \<and> item_priority pl xs (parent i) < item_priority pl xs i")
    case False
    then have "sift_up pl xs i = xs" by (subst sift_up_rec) (auto simp: not_less)
    moreover have "item_priority pl xs i \<le> item_priority pl xs (parent i)" if "0 < i"
      using False that by simp
    ultimately show ?thesis
      using "1.prems"(1) unfolding up_heap_def heap_upto_def by metis
  next
    case True
    let ?p = "parent i" and ?ys = "swap_items xs i (parent i)"
    have lt: "?p < i" using True parent_less by blast
    have pr: "item_priority pl ?ys k = (if k = i then item_priority pl xs ?p
        else if k = ?p then item_priority pl xs i else item_priority pl xs k)" for k
      using lt "1.prems" by (intro item_priority_swap) auto
    have "up_heap pl n ?ys ?p"
      unfolding up_heap_def
    proof (intro conjI impI allI)
      fix j assume j: "j < n" "0 < j \<and> j \<noteq> ?p"
      have 1: "item_priority pl xs j \<le> item_priority pl xs (parent j)" if "j \<noteq> i"
        using "1.prems"(1) j that unfolding up_heap_def by blast
      have 2: "item_priority pl xs j \<le> item_priority pl xs ?p" if "parent j = i"
        using "1.prems"(1) j that True unfolding up_heap_def by blast
      have 3: "item_priority pl xs ?p \<le> item_priority pl xs i" using True by (blast intro: less_imp_le)
      have "j = i \<or> parent j = i \<or> parent j = ?p \<or> (parent j \<noteq> i \<and> parent j \<noteq> ?p)" by blast
      then show "item_priority pl ?ys j \<le> item_priority pl ?ys (parent j)"
      proof (elim disjE)
        assume "j = i" then show ?thesis using 3 lt by (simp add: pr)
      next
        assume "parent j = i" then show ?thesis using 2 j lt by (simp add: pr)
      next
        assume "parent j = ?p"
        then show ?thesis using order.trans [OF 1, of "item_priority pl xs i"] 3 j lt
          by (cases "j = i") (simp_all add: pr)
      next
        assume "parent j \<noteq> i \<and> parent j \<noteq> ?p"
        then show ?thesis using 1 j by (cases "j = i") (simp_all add: pr)
      qed
    next
      fix j assume j: "0 < ?p" "j < n" "0 < j \<and> parent j = ?p"
      have pp: "parent ?p \<noteq> ?p" "parent ?p \<noteq> i" using j(1) lt parent_less [of ?p] by linarith+
      have 1: "item_priority pl xs ?p \<le> item_priority pl xs (parent ?p)"
        using "1.prems"(1,2) j(1) lt unfolding up_heap_def by auto
      have 2: "item_priority pl xs j \<le> item_priority pl xs ?p" if "j \<noteq> i"
        using "1.prems"(1) j that unfolding up_heap_def by auto
      show "item_priority pl ?ys j \<le> item_priority pl ?ys (parent ?p)"
      proof (cases "j = i")
        case True
        then show ?thesis using 1 lt pp j by (simp add: pr)
      next
        case False
        then show ?thesis using order.trans [OF 2 1] lt pp j parent_not_self [of j] by (simp add: pr)
      qed
    qed
    moreover have "sift_up pl xs i = sift_up pl ?ys ?p"
      using True by (subst sift_up_rec) (auto simp: not_le)
    ultimately show ?thesis
      using "1.IH" [OF _ parent_def] True lt "1.prems"(2,3) by (simp add: not_le)
  qed
qed

text \<open>One round of \<open>sift_down\<close>: where it goes, or that it stops.\<close>

definition largest_child :: "pool \<Rightarrow> nat \<Rightarrow> pkt_ptr option list \<Rightarrow> nat \<Rightarrow> nat" where
  "largest_child pl n xs i =
     (let left = 2 * i + 1; right = 2 * i + 2;
          m = (if left < n \<and> item_priority pl xs left > item_priority pl xs i then left else i)
      in if right < n \<and> item_priority pl xs right > item_priority pl xs m then right else m)"

lemma sift_down_rec:
  "sift_down pl n xs i = (let m = largest_child pl n xs i in
     if m = i then xs else sift_down pl n (swap_items xs i m) m)"
  by (subst sift_down.simps) (simp add: largest_child_def Let_def)

lemma largest_child_grows:
  "largest_child pl n xs i = i \<or>
   (largest_child pl n xs i < n \<and> i < largest_child pl n xs i \<and> parent (largest_child pl n xs i) = i \<and>
    item_priority pl xs i < item_priority pl xs (largest_child pl n xs i))"
  unfolding largest_child_def Let_def by (auto intro: less_trans simp: parent_child)

lemma largest_child_max:
  assumes "j < n" and "0 < j" and "parent j = i"
  shows "item_priority pl xs j \<le> item_priority pl xs (largest_child pl n xs i)"
proof -
  have "j = 2 * i + 1 \<or> j = 2 * i + 2" using assms(2,3) by (simp only: parent_child)
  then show ?thesis
    using assms(1) unfolding largest_child_def Let_def
    by (auto simp: not_less intro: order.trans less_imp_le)
qed

lemma sift_down_heap:
  assumes "down_heap pl n xs i" and "i < n" and "n \<le> length xs"
  shows "heap_upto pl n (sift_down pl n xs i)"
  using assms
proof (induction "n - i" arbitrary: xs i rule: less_induct)
  case less
  define m where "m = largest_child pl n xs i"
  note m = largest_child_grows [of pl n xs i, folded m_def] largest_child_max [of _ n i pl xs, folded m_def]
  show ?case
  proof (cases "m = i")
    case True
    then have "sift_down pl n xs i = xs" by (subst sift_down_rec) (simp add: m_def)
    moreover have "item_priority pl xs j \<le> item_priority pl xs (parent j)" if "j < n" "0 < j" for j
      using less.prems(1) m(2) [OF that] that True by (cases "parent j = i") (auto simp: down_heap_def)
    ultimately show ?thesis by (simp add: heap_upto_def)
  next
    case False
    with m(1) have lt: "m < n" "i < m" "parent m = i" "item_priority pl xs i < item_priority pl xs m" by auto
    let ?ys = "swap_items xs i m"
    have pr: "item_priority pl ?ys k = (if k = i then item_priority pl xs m
        else if k = m then item_priority pl xs i else item_priority pl xs k)" for k
      using lt less.prems by (intro item_priority_swap) auto
    have "down_heap pl n ?ys m"
      unfolding down_heap_def
    proof (intro conjI impI allI)
      fix j assume j: "j < n" "0 < j \<and> parent j \<noteq> m"
      show "item_priority pl ?ys j \<le> item_priority pl ?ys (parent j)"
      proof (cases "parent j = i")
        case True
        then have "item_priority pl xs j \<le> item_priority pl xs m" using m(2) j by blast
        moreover have "j \<noteq> i" using True j parent_not_self [of j] by auto
        ultimately show ?thesis using True lt(2,4) by (auto simp: pr)
      next
        case False
        then have up: "item_priority pl xs j \<le> item_priority pl xs (parent j)"
          using less.prems(1) j by (auto simp: down_heap_def)
        show ?thesis
        proof (cases "j = i")
          case True
          have "item_priority pl xs m \<le> item_priority pl xs (parent i)"
            using less.prems(1) lt(1,2,3) j True unfolding down_heap_def by auto
          then show ?thesis using True False j by (simp add: pr)
        next
          case ji: False
          have "j \<noteq> m" using False lt(3) by auto
          with ji False j up show ?thesis by (simp add: pr)
        qed
      qed
    next
      fix j assume j: "0 < m" "j < n" "0 < j \<and> parent j = m"
      have "j \<noteq> i" "j \<noteq> m" "parent j \<noteq> i" using j lt(2) parent_less [of j] by auto
      moreover from this have "item_priority pl xs j \<le> item_priority pl xs m"
        using less.prems(1) j by (auto simp: down_heap_def)
      ultimately show "item_priority pl ?ys j \<le> item_priority pl ?ys (parent m)"
        using lt(3) by (simp add: pr)
    qed
    then have "heap_upto pl n (sift_down pl n ?ys m)"
      using lt less.prems by (intro less.hyps) auto
    moreover have "sift_down pl n xs i = sift_down pl n ?ys m"
      using False by (subst sift_down_rec) (simp add: m_def [symmetric] Let_def)
    ultimately show ?thesis by simp
  qed
qed

text \<open>Both only move entries, and leave the slots from \<open>n\<close> on alone.\<close>

lemma mset_take_swap:
  assumes "i < n" and "j < n" and "n \<le> length xs"
  shows "mset (take n (swap_items xs i j)) = mset (take n xs)"
proof -
  have "take n (swap_items xs i j) = (take n xs)[i := take n xs ! j, j := take n xs ! i]"
    using assms by (simp add: swap_items_def take_update_swap)
  then show ?thesis using assms mset_swap [of j "take n xs" i] by simp
qed

lemma drop_swap: "i < n \<Longrightarrow> j < n \<Longrightarrow> drop n (swap_items xs i j) = drop n xs"
  by (simp add: swap_items_def drop_update_cancel)

lemma sift_up_moves:
  assumes "i < n" and "n \<le> length xs"
  shows "mset (take n (sift_up pl xs i)) = mset (take n xs)" and "drop n (sift_up pl xs i) = drop n xs"
    and "length (sift_up pl xs i) = length xs"
proof -
  have "mset (take n (sift_up pl xs i)) = mset (take n xs) \<and> drop n (sift_up pl xs i) = drop n xs \<and>
     length (sift_up pl xs i) = length xs"
    using assms
  proof (induction pl xs i rule: sift_up.induct)
    case (1 pl xs i)
    show ?case
    proof (cases "0 < i \<and> item_priority pl xs (parent i) < item_priority pl xs i")
      case False
      then have "sift_up pl xs i = xs" by (subst sift_up_rec) (auto simp: not_less)
      then show ?thesis by simp
    next
      case True
      let ?p = "parent i" and ?ys = "swap_items xs i (parent i)"
      have lt: "?p < i" using True parent_less by blast
      have "sift_up pl xs i = sift_up pl ?ys ?p"
        using True by (subst sift_up_rec) (auto simp: not_le)
      then show ?thesis
        using "1.IH" [OF _ parent_def] True lt "1.prems" by (simp add: not_le mset_take_swap drop_swap)
    qed
  qed
  then show "mset (take n (sift_up pl xs i)) = mset (take n xs)" "drop n (sift_up pl xs i) = drop n xs"
    "length (sift_up pl xs i) = length xs" by blast+
qed

lemma sift_down_moves:
  assumes "i < n" and "n \<le> length xs"
  shows "mset (take n (sift_down pl n xs i)) = mset (take n xs)" and "drop n (sift_down pl n xs i) = drop n xs"
    and "length (sift_down pl n xs i) = length xs"
proof -
  have "mset (take n (sift_down pl n xs i)) = mset (take n xs) \<and> drop n (sift_down pl n xs i) = drop n xs \<and>
     length (sift_down pl n xs i) = length xs"
    using assms
  proof (induction "n - i" arbitrary: xs i rule: less_induct)
    case less
    define m where "m = largest_child pl n xs i"
    show ?case
    proof (cases "m = i")
      case True
      then have "sift_down pl n xs i = xs" by (subst sift_down_rec) (simp add: m_def)
      then show ?thesis by simp
    next
      case False
      with largest_child_grows [of pl n xs i, folded m_def] have lt: "m < n" "i < m" by auto
      have "sift_down pl n xs i = sift_down pl n (swap_items xs i m) m"
        using False by (subst sift_down_rec) (simp add: m_def [symmetric] Let_def)
      then show ?thesis
        using less.hyps [of m "swap_items xs i m"] lt less.prems by (simp add: mset_take_swap drop_swap)
    qed
  qed
  then show "mset (take n (sift_down pl n xs i)) = mset (take n xs)" "drop n (sift_down pl n xs i) = drop n xs"
    "length (sift_down pl n xs i) = length xs" by blast+
qed

lemma heap_root_max:
  assumes "heap_upto pl n xs" and "i < n"
  shows "item_priority pl xs i \<le> item_priority pl xs 0"
  using assms(2)
proof (induction i rule: less_induct)
  case (less i)
  show ?case
  proof (cases "i = 0")
    case False
    then have "item_priority pl xs i \<le> item_priority pl xs (parent i)"
      using assms(1) less.prems by (simp add: heap_upto_def)
    also have "\<dots> \<le> item_priority pl xs 0"
      using False less.prems parent_less [of i] by (intro less.IH) auto
    finally show ?thesis .
  qed simp
qed

section \<open>Well-formed queues\<close>

definition slots :: "'q priority_queue \<Rightarrow> pkt_ptr list" where
  "slots pq = map the (take (pq_count pq) (items pq))"

definition pq_wf :: "pool \<Rightarrow> 'q priority_queue \<Rightarrow> bool" where
  "pq_wf pl pq \<longleftrightarrow> length (items pq) = PQUEUE_CAPACITY \<and> pq_count pq \<le> PQUEUE_CAPACITY \<and>
     None \<notin> set (take (pq_count pq) (items pq)) \<and> set (drop (pq_count pq) (items pq)) \<subseteq> {None} \<and>
     heap_upto pl (pq_count pq) (items pq)"

lemma pqueue_init_wf [simp]: "pq_wf pl (pqueue_init i out)" "slots (pqueue_init i out) = []"
  by (auto simp: pq_wf_def pqueue_init_def heap_upto_def slots_def)

lemma pq_wf_queues [simp]:
  "pq_wf pl (pq\<lparr>input_queue := q\<rparr>) = pq_wf pl pq"
  "pq_wf pl (pq\<lparr>pq_output_queue := q\<rparr>) = pq_wf pl pq"
  "slots (pq\<lparr>input_queue := q\<rparr>) = slots pq"
  "slots (pq\<lparr>pq_output_queue := q\<rparr>) = slots pq"
  by (simp_all add: pq_wf_def slots_def)

lemma length_slots: "pq_wf pl pq \<Longrightarrow> length (slots pq) = pq_count pq"
  by (simp add: slots_def pq_wf_def)

lemma slots_nth: "pq_wf pl pq \<Longrightarrow> i < pq_count pq \<Longrightarrow> slots pq ! i = the (items pq ! i)"
  by (simp add: slots_def pq_wf_def)

lemma slots_mset: "mset (slots pq) = image_mset the (mset (take (pq_count pq) (items pq)))"
  by (simp add: slots_def)

lemma mem_slots: "pq_wf pl pq \<Longrightarrow> k \<in> set (slots pq) \<longleftrightarrow> (\<exists>i<pq_count pq. the (items pq ! i) = k)"
  by (auto simp: in_set_conv_nth length_slots slots_nth)

lemma heap_upto_cong:
  assumes "\<And>j. j < n \<Longrightarrow> item_priority pl xs j = item_priority pl' ys j"
  shows "heap_upto pl n xs = heap_upto pl' n ys"
proof -
  have "j < n \<Longrightarrow> 0 < j \<Longrightarrow> parent j < n" for j using parent_less [of j] by simp
  then show ?thesis using assms unfolding heap_upto_def by simp
qed

text \<open>The order depends on the priorities of the queued packets only.\<close>

lemma pq_wf_pool:
  assumes "pq_wf pl pq" and "\<And>k. k \<in> set (slots pq) \<Longrightarrow> pkt_priority (pl' ! k) = pkt_priority (pl ! k)"
  shows "pq_wf pl' pq"
proof -
  have "item_priority pl (items pq) j = item_priority pl' (items pq) j" if "j < pq_count pq" for j
    using assms(2) [of "the (items pq ! j)"] that mem_slots [OF assms(1)]
    unfolding item_priority_def by metis
  from heap_upto_cong [OF this, where n = "pq_count pq"] assms(1) show ?thesis
    by (simp add: pq_wf_def)
qed

lemma top_max: "pq_wf pl pq \<Longrightarrow> k \<in> set (slots pq) \<Longrightarrow>
  pkt_priority (pl ! k) \<le> pkt_priority (pl ! the (items pq ! 0))"
  using heap_root_max [of pl "pq_count pq" "items pq"] mem_slots [of pl pq k]
  by (auto simp: pq_wf_def item_priority_def)

lemma push_room:
  assumes "pq_wf pl pq" and "pq_count pq < PQUEUE_CAPACITY"
  obtains pq' where "pqueue_push k (pl, pq) = (pl, pq')" "pq_wf pl pq'"
    "mset (slots pq') = add_mset k (mset (slots pq))" "pq_count pq' = pq_count pq + 1"
    "input_queue pq' = input_queue pq" "pq_output_queue pq' = pq_output_queue pq"
proof -
  let ?n = "pq_count pq" and ?xs = "(items pq)[pq_count pq := Some k]"
  let ?ys = "sift_up pl ?xs ?n"
  have len: "?n < length (items pq)" using assms by (simp add: pq_wf_def)
  have t: "take (Suc ?n) ?xs = take ?n (items pq) @ [Some k]" using len by (rule take_Suc_update)
  have same: "item_priority pl ?xs j = item_priority pl (items pq) j" if "j < ?n" for j
    using that by (simp add: item_priority_def)
  have "up_heap pl (Suc ?n) ?xs ?n"
  proof -
    have "item_priority pl ?xs j \<le> item_priority pl ?xs (parent j)" if "j < Suc ?n" "0 < j" "j \<noteq> ?n" for j
      using that assms(1) same [of j] same [of "parent j"] parent_less [of j]
      by (auto simp: pq_wf_def heap_upto_def less_Suc_eq)
    moreover have "parent j \<noteq> ?n" if "j < Suc ?n" "0 < j" for j
      using that parent_less [of j] by auto
    ultimately show ?thesis by (auto simp: up_heap_def)
  qed
  then have heap: "heap_upto pl (Suc ?n) ?ys" using len by (intro sift_up_heap) auto
  note m = sift_up_moves [of ?n "Suc ?n" ?xs pl]
  have ms: "mset (take (Suc ?n) ?ys) = add_mset (Some k) (mset (take ?n (items pq)))"
    using m(1) len t by simp
  then have "set (take (Suc ?n) ?ys) = insert (Some k) (set (take ?n (items pq)))"
    by (metis set_mset_add_mset_insert set_mset_mset)
  moreover have "set (drop (Suc ?n) ?ys) \<subseteq> {None}"
  proof -
    have "drop (Suc ?n) ?ys = drop (Suc ?n) (items pq)" using m(2) len by simp
    moreover have "set (drop (Suc ?n) (items pq)) \<subseteq> set (drop ?n (items pq))"
      by (rule set_drop_subset_set_drop) simp
    ultimately show ?thesis using assms(1) by (auto simp: pq_wf_def)
  qed
  ultimately have "pq_wf pl (pq\<lparr>items := ?ys, pq_count := Suc ?n\<rparr>)"
    using assms heap m(3) len by (simp add: pq_wf_def)
  moreover have "pqueue_push k (pl, pq) = (pl, pq\<lparr>items := ?ys, pq_count := Suc ?n\<rparr>)"
    using assms(2) by (simp add: pqueue_push_def)
  ultimately show thesis
    using that [of "pq\<lparr>items := ?ys, pq_count := Suc ?n\<rparr>"] ms by (simp add: slots_mset)
qed

lemma remove_top_wf:
  assumes "pq_wf pl pq" and "0 < pq_count pq"
  shows "pq_wf pl (remove_top pl pq)"
    and "mset (slots pq) = add_mset (the (items pq ! 0)) (mset (slots (remove_top pl pq)))"
    and "pq_count (remove_top pl pq) = pq_count pq - 1"
    and "input_queue (remove_top pl pq) = input_queue pq"
    and "pq_output_queue (remove_top pl pq) = pq_output_queue pq"
proof -
  define n where "n = pq_count pq - 1"
  define xs where "xs = (items pq)[0 := items pq ! n, n := None]"
  define ys where "ys = (if n > 0 then sift_down pl n xs 0 else xs)"
  have cn: "pq_count pq = Suc n" using assms(2) by (simp add: n_def)
  have len: "n < length (items pq)" using assms(1) cn by (simp add: pq_wf_def)
  have eq: "remove_top pl pq = pq\<lparr>pq_count := n, items := ys\<rparr>"
    using assms(2) by (simp add: remove_top_def Let_def n_def ys_def xs_def)
  have same: "item_priority pl xs j = item_priority pl (items pq) j" if "0 < j" "j < n" for j
    using that by (simp add: item_priority_def xs_def)
  have heap: "heap_upto pl n ys"
  proof (cases "n > 0")
    case True
    have "item_priority pl xs j \<le> item_priority pl xs (parent j)" if "j < n" "0 < j" "parent j \<noteq> 0" for j
      using that assms(1) same [of j] same [of "parent j"] parent_less [of j] cn
      by (auto simp: pq_wf_def heap_upto_def)
    then have "down_heap pl n xs 0" by (auto simp: down_heap_def)
    then show ?thesis using True len by (auto simp: ys_def xs_def intro: sift_down_heap)
  qed (simp add: heap_upto_def)
  have tk: "take (Suc n) (items pq) = take n (items pq) @ [items pq ! n]"
    using len by (simp add: take_Suc_conv_app_nth)
  have mx: "mset (take (Suc n) (items pq)) = add_mset (items pq ! 0) (mset (take n xs))"
  proof (cases n)
    case 0
    then show ?thesis using tk by simp
  next
    case (Suc m)
    have t0: "take n xs = (take n (items pq))[0 := items pq ! n]"
      by (simp add: xs_def take_update_swap list_update_beyond)
    have "take n (items pq) = items pq ! 0 # drop 1 (take n (items pq))"
      using Suc len by (cases "items pq") auto
    then have "mset (take n (items pq)) = add_mset (items pq ! 0) (mset (drop 1 (take n (items pq))))"
      by (metis mset.simps(2))
    moreover have "mset (take n xs) = add_mset (items pq ! n) (mset (drop 1 (take n (items pq))))"
      using t0 \<open>take n (items pq) = _ # _\<close> by (metis list_update_code(2) mset.simps(2))
    ultimately show ?thesis using tk by simp
  qed
  have my: "mset (take n ys) = mset (take n xs)" "drop n ys = drop n xs" "length ys = length (items pq)"
    using sift_down_moves [of 0 n xs pl] len by (auto simp: ys_def xs_def)
  have dx: "set (drop n xs) \<subseteq> {None}"
  proof -
    have "drop n xs = None # drop (Suc n) (items pq)"
      using Cons_nth_drop_Suc [of n xs] len by (simp add: xs_def)
    then show ?thesis using assms(1) cn by (auto simp: pq_wf_def)
  qed
  have "set (take (Suc n) (items pq)) = insert (items pq ! 0) (set (take n ys))"
    using mx my(1) by (metis set_mset_add_mset_insert set_mset_mset)
  then show "pq_wf pl (remove_top pl pq)"
    using assms(1) heap my(2,3) dx cn len by (auto simp: eq pq_wf_def)
  show "mset (slots pq) = add_mset (the (items pq ! 0)) (mset (slots (remove_top pl pq)))"
    using mx my(1) cn by (simp add: slots_mset eq)
qed (use assms(2) in \<open>simp_all add: remove_top_def Let_def\<close>)

section \<open>The contract of a priority queue\<close>

locale max_priority_queue =
  fixes push :: "'x \<Rightarrow> 'q \<Rightarrow> 'q" and top_of :: "'q \<Rightarrow> 'x" and remove :: "'q \<Rightarrow> 'q"
    and elems :: "'q \<Rightarrow> 'x multiset" and ok :: "'q \<Rightarrow> bool" and room :: "'q \<Rightarrow> bool"
    and rank :: "'x \<Rightarrow> 'r::linorder"
  assumes push: "ok q \<Longrightarrow> room q \<Longrightarrow> ok (push x q) \<and> elems (push x q) = add_mset x (elems q)"
    and remove: "ok q \<Longrightarrow> elems q \<noteq> {#} \<Longrightarrow> ok (remove q) \<and> elems q = add_mset (top_of q) (elems (remove q))"
    and top_ranks: "ok q \<Longrightarrow> x \<in># elems q \<Longrightarrow> rank x \<le> rank (top_of q)"
begin

text \<open>Emptied from the top, a queue gives its elements, each once, highest rank first.\<close>

primrec take_all :: "nat \<Rightarrow> 'q \<Rightarrow> 'x list" where
  "take_all 0 q = []"
| "take_all (Suc n) q = top_of q # take_all n (remove q)"

lemma take_all_elems: "ok q \<Longrightarrow> size (elems q) = n \<Longrightarrow> mset (take_all n q) = elems q"
proof (induction n arbitrary: q)
  case (Suc n)
  then have "elems q \<noteq> {#}" by auto
  from remove [OF Suc.prems(1) this] have r: "ok (remove q)" "elems q = add_mset (top_of q) (elems (remove q))"
    by blast+
  from Suc.prems(2) have "size (elems (remove q)) = n" unfolding r(2) by simp
  with Suc.IH [OF r(1)] r(2) show ?case by simp
qed simp

lemma take_all_sorted: "ok q \<Longrightarrow> size (elems q) = n \<Longrightarrow> sorted_wrt (\<lambda>a b. rank b \<le> rank a) (take_all n q)"
proof (induction n arbitrary: q)
  case (Suc n)
  then have "elems q \<noteq> {#}" by auto
  from remove [OF Suc.prems(1) this] have r: "ok (remove q)" "elems q = add_mset (top_of q) (elems (remove q))"
    by blast+
  have n: "size (elems (remove q)) = n" using Suc.prems(2) r(2) by simp
  have "rank x \<le> rank (top_of q)" if "x \<in> set (take_all n (remove q))" for x
  proof -
    have "x \<in># elems (remove q)" using that take_all_elems [OF r(1) n] by (metis set_mset_mset)
    then show ?thesis using top_ranks [OF Suc.prems(1)] r(2) by simp
  qed
  with Suc.IH [OF r(1) n] show ?case by simp
qed simp

end

interpretation pq: max_priority_queue "\<lambda>k pq. snd (pqueue_push k (pl, pq))" "\<lambda>pq. the (items pq ! 0)"
  "remove_top pl" "\<lambda>pq. mset (slots pq)" "pq_wf pl" "\<lambda>pq. pq_count pq < PQUEUE_CAPACITY"
  "\<lambda>k. pkt_priority (pl ! k)"
proof unfold_locales
  fix q :: "'q priority_queue" and x
  show "pq_wf pl (snd (pqueue_push x (pl, q))) \<and>
      mset (slots (snd (pqueue_push x (pl, q)))) = add_mset x (mset (slots q))"
    if "pq_wf pl q" "pq_count q < PQUEUE_CAPACITY"
    by (rule push_room [OF that, of x]) simp
  show "pq_wf pl (remove_top pl q) \<and> mset (slots q) = add_mset (the (items q ! 0)) (mset (slots (remove_top pl q)))"
    if "pq_wf pl q" "mset (slots q) \<noteq> {#}"
  proof -
    have "0 < pq_count q" using that length_slots [OF that(1)] by (cases "slots q") auto
    then show ?thesis using remove_top_wf [OF that(1)] by blast
  qed
  show "pkt_priority (pl ! x) \<le> pkt_priority (pl ! the (items q ! 0))"
    if "pq_wf pl q" "x \<in># mset (slots q)"
    using top_max [OF that(1)] that(2) by simp
qed

section \<open>Ownership\<close>

text \<open>
  Who has a packet: the heap, the input queue, the output queue, or someone outside
  (\<open>ext\<close>), each packet in use exactly one of them.
\<close>

definition held_by :: "('q, pkt_ptr) queue_api \<Rightarrow> 'q priority_queue \<Rightarrow> pkt_ptr list" where
  "held_by R pq = slots pq @ queue_items R (input_queue pq) @ queue_items R (pq_output_queue pq)"

definition owns :: "('q, pkt_ptr) queue_api \<Rightarrow> pkt_ptr set \<Rightarrow> pool \<times> 'q priority_queue \<Rightarrow> bool" where
  "owns R ext = (\<lambda>(pl, pq). pool_wf pl \<and> pq_wf pl pq \<and> distinct (held_by R pq) \<and>
     set (held_by R pq) \<inter> ext = {} \<and> pool_used pl = set (held_by R pq) \<union> ext)"

text \<open>No two packets of the heap say the same.\<close>

definition no_twins :: "pool \<times> 'q priority_queue \<Rightarrow> bool" where
  "no_twins = (\<lambda>(pl, pq). \<forall>a\<in>set (slots pq). \<forall>b\<in>set (slots pq). same_packet (pl ! a) (pl ! b) \<longrightarrow> a = b)"

lemma pkt_priority_free [simp]:
  "pkt_priority (packet_free pl (Some k) ! j) = pkt_priority (pl ! j)"
  "pkt_address (packet_free pl (Some k) ! j) = pkt_address (pl ! j)"
  "pkt_len (packet_free pl (Some k) ! j) = pkt_len (pl ! j)"
  "pkt_data (packet_free pl (Some k) ! j) = pkt_data (pl ! j)"
  "pkt_repeats (packet_free pl (Some k) ! j) = pkt_repeats (pl ! j)"
  by (cases "j = k"; cases "k < length pl"; simp add: packet_free_def list_update_beyond)+

lemma same_packet_free [simp]:
  "same_packet (packet_free pl (Some k) ! a) (packet_free pl (Some k) ! b) = same_packet (pl ! a) (pl ! b)"
  by (simp add: same_packet_def)

lemma same_packet_sym: "same_packet a b \<Longrightarrow> same_packet b a"
  by (simp add: same_packet_def)

lemma free_owned:
  assumes "owns R (insert k ext) (pl, pq)" and "k \<notin> ext"
  shows "owns R ext (packet_free pl (Some k), pq)"
proof -
  have k: "k \<in> pool_used pl" "k \<notin> set (held_by R pq)" "pool_wf pl" using assms(1) by (auto simp: owns_def)
  have "pq_wf (packet_free pl (Some k)) pq"
    using assms(1) by (auto simp: owns_def intro: pq_wf_pool)
  with pool.free_Some [OF k(3,1)] assms k(2) show ?thesis by (auto simp: owns_def)
qed

lemma contains_slots:
  "pq_wf pl pq \<Longrightarrow> pqueue_contains pl pq k \<longleftrightarrow> (\<exists>a\<in>set (slots pq). same_packet (pl ! a) (pl ! k))"
  unfolding pqueue_contains_def using mem_slots [of pl pq] by metis

lemma accept_packet_owned:
  assumes "owns R (insert k ext) (pl, pq)" and "k \<notin> ext" and "no_twins (pl, pq)"
  shows "owns R ext (accept_packet k (pl, pq))" and "no_twins (accept_packet k (pl, pq))"
    and "input_queue (snd (accept_packet k (pl, pq))) = input_queue pq"
    and "pq_output_queue (snd (accept_packet k (pl, pq))) = pq_output_queue pq"
proof -
  have wf: "pq_wf pl pq" using assms(1) by (simp add: owns_def)
  consider (room) "\<not> pqueue_contains pl pq k" "pq_count pq < PQUEUE_CAPACITY"
    | (freed) "accept_packet k (pl, pq) = (packet_free pl (Some k), pq)"
    by (cases "pqueue_contains pl pq k"; cases "pq_count pq < PQUEUE_CAPACITY")
      (simp_all add: accept_packet_def pqueue_push_def)
  then have "owns R ext (accept_packet k (pl, pq)) \<and> no_twins (accept_packet k (pl, pq)) \<and>
      input_queue (snd (accept_packet k (pl, pq))) = input_queue pq \<and>
      pq_output_queue (snd (accept_packet k (pl, pq))) = pq_output_queue pq"
  proof cases
    case freed
    then show ?thesis using free_owned [OF assms(1,2)] assms(3) by (simp add: no_twins_def)
  next
    case room
    from push_room [OF wf room(2), of k] obtain pq' where p: "pqueue_push k (pl, pq) = (pl, pq')"
      "pq_wf pl pq'" "mset (slots pq') = add_mset k (mset (slots pq))"
      "input_queue pq' = input_queue pq" "pq_output_queue pq' = pq_output_queue pq" by metis
    have eq: "accept_packet k (pl, pq) = (pl, pq')" using room(1) p(1) by (simp add: accept_packet_def)
    have s: "set (slots pq') = insert k (set (slots pq))"
      using p(3) by (metis set_mset_add_mset_insert set_mset_mset)
    have "mset (held_by R pq') = add_mset k (mset (held_by R pq))" using p(3-5) by (simp add: held_by_def)
    moreover have "distinct (k # held_by R pq)" using assms(1) by (auto simp: owns_def)
    ultimately have h: "distinct (held_by R pq')" "set (held_by R pq') = insert k (set (held_by R pq))"
      by (metis mset.simps(2) mset_eq_imp_distinct_iff, metis set_mset_add_mset_insert set_mset_mset)
    have "no_twins (pl, pq')"
      using assms(3) room(1) contains_slots [OF wf] s same_packet_sym by (auto simp: no_twins_def)
    with p h assms show ?thesis by (auto simp: eq owns_def)
  qed
  then show "owns R ext (accept_packet k (pl, pq))" "no_twins (accept_packet k (pl, pq))"
    "input_queue (snd (accept_packet k (pl, pq))) = input_queue pq"
    "pq_output_queue (snd (accept_packet k (pl, pq))) = pq_output_queue pq" by blast+
qed

text \<open>The drain takes the whole input queue, with fuel for one more than it holds.\<close>

lemma drain_owned:
  assumes "fifo_queue R" and "owns R ext (pl, pq)" and "no_twins (pl, pq)"
    and "length (queue_items R (input_queue pq)) < fuel"
  obtains pl' pq' where "drain_input R fuel (pl, pq) = Some (pl', pq')" "owns R ext (pl', pq')"
    "no_twins (pl', pq')" "queue_items R (input_queue pq') = []" "pq_output_queue pq' = pq_output_queue pq"
proof -
  have "\<exists>pl' pq'. drain_input R fuel (pl, pq) = Some (pl', pq') \<and> owns R ext (pl', pq') \<and>
    no_twins (pl', pq') \<and> queue_items R (input_queue pq') = [] \<and> pq_output_queue pq' = pq_output_queue pq"
    using assms(2-4)
  proof (induction fuel arbitrary: pl pq)
    case (Suc fuel)
    show ?case
    proof (cases "xQueueReceive R (input_queue pq)")
      case None
      then have "queue_items R (input_queue pq) = []" using assms(1) by (simp add: fifo_queue_def)
      then show ?thesis using None Suc.prems by simp
    next
      case (Some r)
      obtain k q where r: "r = (k, q)" by (cases r)
      let ?pq = "pq\<lparr>input_queue := q\<rparr>"
      have items: "queue_items R (input_queue pq) = k # queue_items R q"
        using fifo_receive [OF assms(1)] Some r by simp
      have k: "owns R (insert k ext) (pl, ?pq)" "k \<notin> ext"
        using Suc.prems(1) items by (auto simp: owns_def held_by_def)
      have t: "no_twins (pl, ?pq)" using Suc.prems(2) by (simp add: no_twins_def)
      obtain pl1 pq1 where a: "accept_packet k (pl, ?pq) = (pl1, pq1)" by (cases "accept_packet k (pl, ?pq)")
      note acc = accept_packet_owned [OF k t, unfolded a]
      have "length (queue_items R (input_queue pq1)) < fuel" using acc(3) items Suc.prems(3) by simp
      from Suc.IH [OF acc(1,2) this] acc(4) Some r a show ?thesis by simp
    qed
  qed simp
  then show thesis using that by blast
qed

section \<open>Dispatch\<close>

text \<open>What \<open>pqueue_pop\<close> does on each branch.\<close>

definition copied_pool :: "pool \<Rightarrow> pkt_ptr \<Rightarrow> pkt_ptr \<Rightarrow> pool" where
  "copied_pool pl t k =
     (let pl = pl[k := (packet_reset (pl ! k))\<lparr>pkt_in_use := True\<rparr>];
          pl = pl[t := (pl ! t)\<lparr>pkt_repeats := pkt_repeats (pl ! t) - 1\<rparr>]
      in pl[k := copy_packet (pl ! t) (pl ! k)])"

lemma pop_cases:
  assumes "pool_wf pl" and "pq_count pq > 0"
  obtains (none) "pkt_repeats (pl ! the (items pq ! 0)) > 0" "pqueue_pop (pl, pq) = (None, pl, pq)"
      "\<forall>i<length pl. pkt_in_use (pl ! i)"
    | (copy) k where "pkt_repeats (pl ! the (items pq ! 0)) > 0" "k < length pl" "\<not> pkt_in_use (pl ! k)"
      "pqueue_pop (pl, pq) = (Some k, copied_pool pl (the (items pq ! 0)) k, pq)"
    | (take) "pkt_repeats (pl ! the (items pq ! 0)) \<le> 0"
      "pqueue_pop (pl, pq) = (Some (the (items pq ! 0)), pl, remove_top pl pq)"
proof (cases "pkt_repeats (pl ! the (items pq ! 0)) > 0")
  case True
  show thesis
  proof (cases "packet_alloc pl")
    case (Pair pl' r)
    show thesis
    proof (cases r)
      case None
      with Pair have al: "packet_alloc pl = (pl', None)" by simp
      then have "pl' = pl" "\<forall>i<length pl. pkt_in_use (pl ! i)" by (simp_all add: packet_alloc_None)
      with al show thesis
        using True assms(2) by (intro none) (simp_all add: pqueue_pop_def Let_def)
    next
      case (Some k)
      note al = packet_alloc_Some [OF Pair [unfolded Some]]
      show thesis
        by (rule copy [OF True al(1,2)]) (use Pair Some True assms(2) al(3) in \<open>simp add: pqueue_pop_def Let_def copied_pool_def\<close>)
    qed
  qed
next
  case False
  with assms(2) show thesis by (intro take) (auto simp: pqueue_pop_def)
qed

lemma top_slot: "pq_wf pl pq \<Longrightarrow> pq_count pq > 0 \<Longrightarrow> the (items pq ! 0) \<in> set (slots pq)"
  using mem_slots by blast

lemma held_not_free:
  assumes "owns R ext (pl, pq)" and "k < length pl" and "\<not> pkt_in_use (pl ! k)"
  shows "k \<notin> set (held_by R pq)" "k \<notin> ext" "j \<in> set (held_by R pq) \<Longrightarrow> j < length pl"
  using assms by (auto simp: owns_def pool_used_def)

text \<open>The pool after a copy: one packet more in use, the original one repeat shorter.\<close>

lemma pop_copy_pool:
  assumes "owns R ext (pl, pq)" and "0 < pq_count pq" and "k < length pl" and "\<not> pkt_in_use (pl ! k)"
  defines "t \<equiv> the (items pq ! 0)"
  defines "pl' \<equiv> copied_pool pl t k"
  shows "pool_wf pl'" and "pool_used pl' = insert k (pool_used pl)"
    and "pl' ! t = (pl ! t)\<lparr>pkt_repeats := pkt_repeats (pl ! t) - 1\<rparr>"
    and "\<And>j. j \<noteq> k \<Longrightarrow> j \<noteq> t \<Longrightarrow> pl' ! j = pl ! j"
    and "pkt_bytes (pl' ! k) = pkt_bytes (pl ! t)" and "pkt_address (pl' ! k) = pkt_address (pl ! t)"
    and "pkt_priority (pl' ! k) = pkt_priority (pl ! t)" and "pkt_repeats (pl' ! k) = 0"
proof -
  have wf: "pool_wf pl" "pq_wf pl pq" using assms(1) by (simp_all add: owns_def)
  have t: "t \<in> set (held_by R pq)" using top_slot [OF wf(2) assms(2)] by (simp add: t_def held_by_def)
  have tk: "t \<noteq> k" "t < length pl" using held_not_free [OF assms(1,3,4)] t by auto
  have used: "pkt_in_use (pl ! t)" using assms(1) t by (auto simp: owns_def pool_used_def)
  let ?p = "(packet_reset (pl ! k))\<lparr>pkt_in_use := True\<rparr>"
  let ?t = "(pl ! t)\<lparr>pkt_repeats := pkt_repeats (pl ! t) - 1\<rparr>"
  have eq: "pl' = pl[k := ?p, t := ?t, k := copy_packet ?t ?p]"
    using tk assms(3) by (simp add: pl'_def copied_pool_def Let_def)
  have sh: "pkt_shape (pl ! k)" "pkt_shape (pl ! t)"
    using wf(1) assms(3) tk by (simp_all add: pool_wf_nth)
  have cp: "pkt_shape (copy_packet ?t ?p)"
    using sh by (simp add: copy_packet_def pkt_shape_def packet_reset_def)
  have "pkt_shape ?p" using packet_reset_wf [OF sh(1)] by (simp add: pkt_wf_shape)
  with wf(1) sh cp show "pool_wf pl'" unfolding eq by (intro pool_wf_update) simp_all
  show "pool_used pl' = insert k (pool_used pl)"
    using tk assms(3) used by (auto simp: eq pool_used_def copy_packet_def nth_list_update)
  show "pl' ! t = ?t" "\<And>j. j \<noteq> k \<Longrightarrow> j \<noteq> t \<Longrightarrow> pl' ! j = pl ! j"
    using tk by (simp_all add: eq)
  show "pkt_bytes (pl' ! k) = pkt_bytes (pl ! t)" "pkt_address (pl' ! k) = pkt_address (pl ! t)"
    "pkt_priority (pl' ! k) = pkt_priority (pl ! t)" "pkt_repeats (pl' ! k) = 0"
    using tk assms(3) sh by (simp_all add: eq copy_packet_def pkt_shape_def)
qed

lemma pop_owned:
  assumes "owns R ext (pl, pq)" and "no_twins (pl, pq)" and "pqueue_pop (pl, pq) = (out, pl', pq')"
  shows "case out of None \<Rightarrow> pl' = pl \<and> pq' = pq
         | Some k \<Rightarrow> owns R (insert k ext) (pl', pq') \<and> k \<notin> ext \<and> no_twins (pl', pq')"
    and "input_queue pq' = input_queue pq" and "pq_output_queue pq' = pq_output_queue pq"
proof -
  have wf: "pool_wf pl" "pq_wf pl pq" using assms(1) by (simp_all add: owns_def)
  have "(case out of None \<Rightarrow> pl' = pl \<and> pq' = pq
         | Some k \<Rightarrow> owns R (insert k ext) (pl', pq') \<and> k \<notin> ext \<and> no_twins (pl', pq')) \<and>
      input_queue pq' = input_queue pq \<and> pq_output_queue pq' = pq_output_queue pq"
  proof (cases "pq_count pq = 0")
    case True
    with assms(3) show ?thesis by (simp add: pqueue_pop_def split: option.splits)
  next
    case False
    then have c: "pq_count pq > 0" by simp
    from wf(1) c show ?thesis
    proof (cases rule: pop_cases)
      case none
      with assms(3) show ?thesis by simp
    next
      case (copy k)
      note new = pop_copy_pool [OF assms(1) c copy(2,3)]
      have out: "out = Some k" "pq' = pq" and pl': "pl' = copied_pool pl (the (items pq ! 0)) k"
        using assms(3) copy(4) by auto
      note new = new [folded pl']
      note k = held_not_free(1,2) [OF assms(1) copy(2,3)]
      have same: "pkt_priority (pl' ! j) = pkt_priority (pl ! j)" "pkt_address (pl' ! j) = pkt_address (pl ! j)"
        "pkt_len (pl' ! j) = pkt_len (pl ! j)" "pkt_data (pl' ! j) = pkt_data (pl ! j)"
        if "j \<in> set (slots pq)" for j
      proof -
        have "j \<noteq> k" using that k by (auto simp: held_by_def)
        then have "pl' ! j = pl ! j \<or> pl' ! j = (pl ! j)\<lparr>pkt_repeats := pkt_repeats (pl ! j) - 1\<rparr>"
          using new(3,4) by metis
        then show "pkt_priority (pl' ! j) = pkt_priority (pl ! j)" "pkt_address (pl' ! j) = pkt_address (pl ! j)"
          "pkt_len (pl' ! j) = pkt_len (pl ! j)" "pkt_data (pl' ! j) = pkt_data (pl ! j)" by auto
      qed
      have "pq_wf pl' pq" using wf(2) same(1) by (rule pq_wf_pool)
      moreover have "no_twins (pl', pq)"
        using assms(2) same by (auto simp: no_twins_def same_packet_def)
      ultimately show ?thesis using assms(1) new(1,2) k by (auto simp: out owns_def)
    next
      case take
      note r = remove_top_wf [OF wf(2) c]
      let ?k = "the (items pq ! 0)"
      have out: "out = Some ?k" "pl' = pl" "pq' = remove_top pl pq" using take(2) assms(3) by auto
      have "mset (held_by R pq) = add_mset ?k (mset (held_by R pq'))" using r(2,4,5) by (simp add: held_by_def out)
      then have h: "distinct (?k # held_by R pq')" "set (held_by R pq) = insert ?k (set (held_by R pq'))"
        using assms(1) unfolding owns_def
        by (metis (mono_tags, lifting) case_prodD mset.simps(2) mset_eq_imp_distinct_iff,
          metis set_mset_add_mset_insert set_mset_mset)
      have "set (slots pq') \<subseteq> set (slots pq)"
        using r(2) by (metis out(3) set_mset_add_mset_insert set_mset_mset subset_insertI)
      then have "no_twins (pl, pq')" using assms(2) by (auto simp: no_twins_def)
      with h r assms(1) show ?thesis by (auto simp: out owns_def)
    qed
  qed
  then show "case out of None \<Rightarrow> pl' = pl \<and> pq' = pq
         | Some k \<Rightarrow> owns R (insert k ext) (pl', pq') \<and> k \<notin> ext \<and> no_twins (pl', pq')"
    and "input_queue pq' = input_queue pq" and "pq_output_queue pq' = pq_output_queue pq" by blast+
qed

lemma dispatch_owned:
  assumes "fifo_queue R" and "owns R ext s" and "no_twins s"
  shows "owns R ext (dispatch R s) \<and> no_twins (dispatch R s)"
proof -
  obtain pl pq where s: "s = (pl, pq)" by (cases s)
  obtain out pl' pq' where p: "pqueue_pop (pl, pq) = (out, pl', pq')" by (cases "pqueue_pop (pl, pq)") auto
  note pop = pop_owned [OF assms(2,3) [unfolded s] p]
  show ?thesis
  proof (cases "pqueue_is_empty pq \<or> out = None")
    case True
    then show ?thesis using assms(2,3) pop p by (auto simp: s dispatch_def)
  next
    case False
    then obtain k where k: "out = Some k" "\<not> pqueue_is_empty pq" by auto
    with pop have o: "owns R (insert k ext) (pl', pq')" "k \<notin> ext" "no_twins (pl', pq')" by auto
    show ?thesis
    proof (cases "xQueueSend R (pq_output_queue pq') k")
      case None
      then have "dispatch R s = (packet_free pl' (Some k), pq')" using k p by (simp add: s dispatch_def)
      then show ?thesis using free_owned [OF o(1,2)] o(3) by (simp add: no_twins_def)
    next
      case (Some q)
      then have "dispatch R s = (pl', pq'\<lparr>pq_output_queue := q\<rparr>)" using k p by (simp add: s dispatch_def)
      moreover have "owns R ext (pl', pq'\<lparr>pq_output_queue := q\<rparr>)"
        using o(1,2) fifo_send [OF assms(1) Some] by (auto simp: owns_def held_by_def)
      ultimately show ?thesis using o(3) by (simp add: no_twins_def)
    qed
  qed
qed

section \<open>Properties\<close>

text \<open>A queue with three packets of the pool, as the witnesses use it.\<close>

definition witness_pool :: pool where
  "witness_pool = packet_pool_init
     [0 := (packet_pool_init ! 0)\<lparr>pkt_in_use := True, pkt_priority := PRIORITY_LOW, pkt_address := 3\<rparr>,
      1 := (packet_pool_init ! 1)\<lparr>pkt_in_use := True, pkt_priority := PRIORITY_EMERGENCY, pkt_repeats := 2\<rparr>,
      2 := (packet_pool_init ! 2)\<lparr>pkt_in_use := True, pkt_priority := PRIORITY_HIGH, pkt_address := 5\<rparr>]"

definition witness_queue :: "pkt_ptr list priority_queue" where
  "witness_queue = pqueue_init [0, 1, 2] []"

primrec empty_heap :: "pool \<Rightarrow> nat \<Rightarrow> 'q priority_queue \<Rightarrow> pkt_ptr list" where
  "empty_heap pl 0 pq = []"
| "empty_heap pl (Suc n) pq = the (items pq ! 0) # empty_heap pl n (remove_top pl pq)"

lemma empty_heap_take_all: "empty_heap pl n pq = pq.take_all pl n pq"
  by (induction n arbitrary: pq) simp_all

text \<open>
  C4: The array heap is a priority queue. Whatever packets were pushed into it, as long as
  there was room, taking the top until nothing is left gives every one of them exactly
  once, no packet after one of lower priority.
\<close>

theorem heap_sorts:
  assumes "length ks \<le> PQUEUE_CAPACITY"
  shows "let pq = fold (\<lambda>k pq. snd (pqueue_push k (pl, pq))) ks (pqueue_init i out);
             out = empty_heap pl (length ks) pq
         in mset out = mset ks \<and>
            sorted_wrt (\<lambda>a b. pkt_priority (pl ! b) \<le> pkt_priority (pl ! a)) out"
proof -
  have push: "pq_wf pl (fold (\<lambda>k pq. snd (pqueue_push k (pl, pq))) ks pq) \<and>
      mset (slots (fold (\<lambda>k pq. snd (pqueue_push k (pl, pq))) ks pq)) = mset (slots pq) + mset ks"
    if "pq_wf pl pq" "length (slots pq) + length ks \<le> PQUEUE_CAPACITY" for pq :: "'a priority_queue"
    using that
  proof (induction ks arbitrary: pq)
    case (Cons k ks)
    have c: "pq_count pq < PQUEUE_CAPACITY" using Cons.prems length_slots by fastforce
    let ?p = "snd (pqueue_push k (pl, pq))"
    have p: "pq_wf pl ?p" "mset (slots ?p) = add_mset k (mset (slots pq))"
      using pq.push [OF Cons.prems(1) c] by blast+
    have "length (slots ?p) = length (slots pq) + 1" using p(2) by (metis size_add_mset size_mset Suc_eq_plus1)
    with Cons.IH [OF p(1)] Cons.prems(2) p(2) show ?case by simp
  qed simp
  let ?q = "fold (\<lambda>k pq. snd (pqueue_push k (pl, pq))) ks (pqueue_init i out)"
  have q: "pq_wf pl ?q" "mset (slots ?q) = mset ks"
    using push [of "pqueue_init i out"] assms by simp_all
  then have "size (mset (slots ?q)) = length ks" by (metis size_mset)
  from pq.take_all_elems [OF q(1) this] pq.take_all_sorted [OF q(1) this] q(2) show ?thesis
    by (simp add: Let_def empty_heap_take_all)
qed

theorem heap_sorts_witness:
  "let pq = fold (\<lambda>k pq. snd (pqueue_push k (witness_pool, pq))) [0, 1, 2] (pqueue_init [] []);
       out = empty_heap witness_pool (length [0, 1, 2 :: pkt_ptr]) pq
   in mset out = mset [0, 1, 2] \<and>
      sorted_wrt (\<lambda>a b. pkt_priority (witness_pool ! b) \<le> pkt_priority (witness_pool ! a)) out"
  by (rule heap_sorts) (simp add: PQUEUE_CAPACITY_def)

text \<open>
  The task leaks nothing and mixes nothing up. Given fuel for one more packet than the
  input queue holds, a turn of the task ends; after it every packet in use is still in
  exactly one place (heap, input queue, output queue, or with the outside), the heap is a
  heap, and no two packets in it carry the same bytes for the same address.
\<close>

lemma task_ownership:
  assumes "fifo_queue R" and "owns R ext (pl, pq)" and "no_twins (pl, pq)"
    and "length (queue_items R (input_queue pq)) < fuel"
  shows "\<exists>s. task_priority_queue R fuel (pl, pq) = Some s \<and> owns R ext s \<and> no_twins s"
proof -
  obtain pl' pq' where "drain_input R fuel (pl, pq) = Some (pl', pq')" "owns R ext (pl', pq')" "no_twins (pl', pq')"
    by (rule drain_owned [OF assms])
  with dispatch_owned [OF assms(1)] show ?thesis by (simp add: task_priority_queue_def)
qed

lemma witness_pool_props:
  "pool_wf witness_pool" "pool_used witness_pool = {0, 1, 2}"
proof -
  have l: "length packet_pool_init = 80" by (simp add: packet_pool_init_def PACKET_POOL_SIZE_def)
  have s: "pkt_shape (packet_pool_init ! i)" if "i < 3" for i
    using packet_pool_init_wf that l by (intro pool_wf_nth) auto
  show "pool_wf witness_pool" unfolding witness_pool_def
    by (intro pool_wf_update) (use packet_pool_init_wf s in simp_all)
  have "j < 80 \<Longrightarrow> \<not> pkt_in_use (packet_pool_init ! j)" for j
    using packet_pool_init_wf l by (auto simp: pool_used_def)
  then show "pool_used witness_pool = {0, 1, 2}"
    by (auto simp: witness_pool_def pool_used_def l nth_list_update split: if_splits)
qed

lemma witness_owns:
  "owns (bounded_queue 16) {} (witness_pool, witness_queue)" "no_twins (witness_pool, witness_queue)"
  by (auto simp: owns_def witness_queue_def held_by_def witness_pool_props bounded_queue_def no_twins_def)
    (auto simp: pqueue_init_def)


text \<open>
  What \<open>pqueue_pop\<close> returns. From a queue that holds something, with a free packet in
  the pool, it returns a packet no one else has, with the bytes, address and priority of a
  packet of the heap that no other outranks, and no repeats of its own. If that packet had
  repeats left, it stays with one less and the heap is unchanged; otherwise it is the
  packet itself, and it has left the heap.
\<close>

theorem pop_returns_best:
  assumes "owns R ext (pl, pq)" and "0 < pq_count pq"
    and "card (pool_used pl) < PACKET_POOL_SIZE"
  shows "\<exists>k top pl' pq'. pqueue_pop (pl, pq) = (Some k, pl', pq') \<and>
           top \<in> set (slots pq) \<and> (\<forall>j\<in>set (slots pq). pkt_priority (pl ! j) \<le> pkt_priority (pl ! top)) \<and>
           k \<in> pool_used pl' \<and> k \<notin> set (held_by R pq') \<and>
           pkt_bytes (pl' ! k) = pkt_bytes (pl ! top) \<and> pkt_address (pl' ! k) = pkt_address (pl ! top) \<and>
           pkt_priority (pl' ! k) = pkt_priority (pl ! top) \<and> pkt_repeats (pl' ! k) \<le> 0 \<and>
           (if pkt_repeats (pl ! top) > 0
            then pq' = pq \<and> k \<notin> pool_used pl \<and>
                 pl' ! top = (pl ! top)\<lparr>pkt_repeats := pkt_repeats (pl ! top) - 1\<rparr>
            else k = top \<and> pl' = pl \<and> mset (slots pq) = add_mset top (mset (slots pq')))"
proof -
  let ?t = "the (items pq ! 0)"
  have wf: "pool_wf pl" "pq_wf pl pq" using assms(1) by (simp_all add: owns_def)
  have t: "?t \<in> set (slots pq)" by (rule top_slot [OF wf(2) assms(2)])
  have best: "\<forall>j\<in>set (slots pq). pkt_priority (pl ! j) \<le> pkt_priority (pl ! ?t)"
    using top_max [OF wf(2)] by blast
  from wf(1) assms(2) show ?thesis
  proof (cases rule: pop_cases)
    case none
    then have "pool_used pl = {..<PACKET_POOL_SIZE}" using wf(1) by (auto simp: pool_used_def pool_wf_def)
    with assms(3) show ?thesis by simp
  next
    case (copy k)
    note new = pop_copy_pool [OF assms(1,2) copy(2,3)]
    have "k \<notin> set (held_by R pq)" "k \<notin> pool_used pl"
      using held_not_free(1) [OF assms(1) copy(2,3)] copy(3) by (auto simp: pool_used_def)
    with copy new t best show ?thesis
      by (intro exI [of _ k] exI [of _ ?t] exI [of _ "copied_pool pl ?t k"] exI [of _ pq]) simp
  next
    case take
    note r = remove_top_wf [OF wf(2) assms(2)]
    have "mset (held_by R pq) = add_mset ?t (mset (held_by R (remove_top pl pq)))"
      using r(2,4,5) by (simp add: held_by_def)
    then have "distinct (?t # held_by R (remove_top pl pq))"
      using assms(1) unfolding owns_def
      by (metis (mono_tags, lifting) case_prodD mset.simps(2) mset_eq_imp_distinct_iff)
    moreover have "?t \<in> pool_used pl" using assms(1) t by (auto simp: owns_def held_by_def)
    ultimately show ?thesis using take t best r(2)
      by (intro exI [of _ ?t] exI [of _ pl] exI [of _ "remove_top pl pq"]) simp
  qed
qed

definition witness_heap :: "pool \<times> pkt_ptr list priority_queue" where
  "witness_heap = accept_packet 1 (witness_pool, pqueue_init [0, 2] [])"

lemma witness_heap_eq:
  "witness_heap = (witness_pool, (pqueue_init [0, 2] [])\<lparr>items := (replicate PQUEUE_CAPACITY None)[0 := Some 1],
     pq_count := 1\<rparr>)"
  by (simp add: witness_heap_def accept_packet_def pqueue_contains_def pqueue_push_def pqueue_init_def
      PQUEUE_CAPACITY_def sift_up_rec)

lemma witness_heap_owns: "owns (bounded_queue 16) {} witness_heap" "no_twins witness_heap"
proof -
  have "owns (bounded_queue 16) {1} (witness_pool, pqueue_init [0, 2] [])"
    "no_twins (witness_pool, pqueue_init [0, 2] [])"
    by (auto simp: owns_def held_by_def witness_pool_props bounded_queue_def no_twins_def)
      (auto simp: pqueue_init_def)
  from accept_packet_owned [OF this(1) _ this(2)]
  show "owns (bounded_queue 16) {} witness_heap" "no_twins witness_heap"
    by (simp_all add: witness_heap_def)
qed

text \<open>
  The pool is large enough. With at most eight packets in the output queue (its depth)
  and at most seven with the engine and the wave generator, the dispatch after a drain
  never finds the pool empty: whenever the heap holds a packet, one is popped, repeats or
  not, so a packet with repeats left cannot block the queue.
\<close>

theorem pop_never_starves:
  assumes "fifo_queue R" and "owns R ext (pl, pq)" and "no_twins (pl, pq)"
    and "length (queue_items R (input_queue pq)) < fuel"
    and "length (queue_items R (pq_output_queue pq)) \<le> 8" and "finite ext" and "card ext \<le> 7"
  shows "\<exists>pl' pq'. drain_input R fuel (pl, pq) = Some (pl', pq') \<and>
           (pqueue_is_empty pq' \<or> (\<exists>k pl'' pq''. pqueue_pop (pl', pq') = (Some k, pl'', pq'')))"
proof -
  obtain pl' pq' where d: "drain_input R fuel (pl, pq) = Some (pl', pq')" "owns R ext (pl', pq')"
    "no_twins (pl', pq')" "queue_items R (input_queue pq') = []" "pq_output_queue pq' = pq_output_queue pq"
    by (rule drain_owned [OF assms(1-4)])
  have wf: "pool_wf pl'" "pq_wf pl' pq'" using d(2) by (simp_all add: owns_def)
  have "card (set (held_by R pq')) \<le> 64 + 8"
  proof -
    have "card (set (held_by R pq')) \<le> length (held_by R pq')" by (rule card_length)
    also have "\<dots> \<le> 64 + 8"
      using length_slots [OF wf(2)] wf(2) assms(5) d(4,5) by (simp add: held_by_def pq_wf_def PQUEUE_CAPACITY_def)
    finally show ?thesis .
  qed
  moreover have "pool_used pl' = set (held_by R pq') \<union> ext" using d(2) by (simp add: owns_def)
  ultimately have used: "card (pool_used pl') < PACKET_POOL_SIZE"
    using card_Un_le [of "set (held_by R pq')" ext] assms(7) by (simp add: PACKET_POOL_SIZE_def)
  show ?thesis
  proof (cases "pqueue_is_empty pq'")
    case False
    then have c: "0 < pq_count pq'" by (simp add: pqueue_is_empty_def)
    from wf(1) c have "\<exists>k pl'' pq''. pqueue_pop (pl', pq') = (Some k, pl'', pq'')"
    proof (cases rule: pop_cases)
      case none
      then have "pool_used pl' = {..<PACKET_POOL_SIZE}" using wf(1) by (auto simp: pool_used_def pool_wf_def)
      with used show ?thesis by simp
    qed auto
    with d(1) show ?thesis by blast
  qed (use d(1) in blast)
qed

end
