(* ===== verification/Wavegen.thy ===== *)
theory Wavegen
  imports Priority_Queue
begin

text \<open>
  The wave generator: \<^verbatim>\<open>src/src/wavegen/wavegen.c\<close> and \<^verbatim>\<open>wavegen.h\<close>, the task that puts the
  encoded packets into the FIFO of the PIO state machine that drives the rails, and the claiming
  and giving back of the PIO's resources. The PIO (the SDK's functions and the chip behind them)
  is an argument; what the SDK documents of it is the hypothesis \<open>pio_ok\<close>. Proved: what the state
  machine reads is the packets of the queue, in order and checksummed, each freed once; and a
  generator that is set up again holds what its new mode needs and nothing else.
\<close>

section \<open>The PIO\<close>

datatype pio_block = PIO0 | PIO1 | PIO2
datatype pio_program = Wavegen_Program | Wavegen_Nocutout_Program | Wavegen_Servicemode_Program | Cutout_Program

text \<open>
  The functions of the SDK on the state \<open>'p\<close> of the chip. \<open>claim_unused_sm\<close> is called with
  \<open>required\<close> set, with which it panics (\<open>None\<close>) when no state machine is free. \<open>program_init\<close> is
  the function of that name generated for each program, with its pin. \<open>task_delay\<close> is
  \<open>vTaskDelay\<close>: ticks pass, in which the state machine reads its FIFO.
\<close>

record 'p pio_sdk =
  can_add_program :: "pio_block \<Rightarrow> pio_program \<Rightarrow> 'p \<Rightarrow> bool"
  add_program :: "pio_block \<Rightarrow> pio_program \<Rightarrow> 'p \<Rightarrow> nat \<times> 'p"
  remove_program :: "pio_block \<Rightarrow> pio_program \<Rightarrow> nat \<Rightarrow> 'p \<Rightarrow> 'p"
  claim_unused_sm :: "pio_block \<Rightarrow> 'p \<Rightarrow> (nat \<times> 'p) option"
  sm_unclaim :: "pio_block \<Rightarrow> nat \<Rightarrow> 'p \<Rightarrow> 'p"
  program_init :: "pio_program \<Rightarrow> pio_block \<Rightarrow> nat \<Rightarrow> nat \<Rightarrow> nat \<Rightarrow> 'p \<Rightarrow> 'p"
  sm_set_enabled :: "pio_block \<Rightarrow> nat \<Rightarrow> bool \<Rightarrow> 'p \<Rightarrow> 'p"
  sm_is_tx_fifo_full :: "pio_block \<Rightarrow> nat \<Rightarrow> 'p \<Rightarrow> bool"
  sm_put :: "pio_block \<Rightarrow> nat \<Rightarrow> u32 \<Rightarrow> 'p \<Rightarrow> 'p"
  task_delay :: "nat \<Rightarrow> 'p \<Rightarrow> 'p"

section \<open>The generator\<close>

datatype wavegen_mode = WAVEGEN_NORMAL | WAVEGEN_NO_CUTOUT | WAVEGEN_SERVICE_MODE

record wavegen =
  wave_pio :: pio_block
  wave_sm :: nat
  wave_offset :: nat
  cutout_pio :: pio_block
  cutout_sm :: nat
  cutout_offset :: nat
  wg_mode :: wavegen_mode
  initialized :: bool

definition WAVEGEN_CUTOUT_PIO :: pio_block where "WAVEGEN_CUTOUT_PIO = PIO1"

fun wave_program :: "wavegen_mode \<Rightarrow> pio_program" where
  "wave_program WAVEGEN_NORMAL = Wavegen_Program"
| "wave_program WAVEGEN_NO_CUTOUT = Wavegen_Nocutout_Program"
| "wave_program WAVEGEN_SERVICE_MODE = Wavegen_Servicemode_Program"

text \<open>The result and the new state; \<open>None\<close> where the SDK panics.\<close>

definition init_wave_sm :: "'p pio_sdk \<Rightarrow> wavegen_mode \<Rightarrow> nat \<Rightarrow> wavegen \<times> 'p \<Rightarrow> (bool \<times> wavegen \<times> 'p) option" where
  "init_wave_sm S md signal_pin s =
     (case s of (wg, p) \<Rightarrow>
        (let program = wave_program md
         in if \<not> can_add_program S PIO0 program p then Some (False, wg, p)
            else case add_program S PIO0 program p of
                   (offset, p) \<Rightarrow>
                     (case claim_unused_sm S PIO0 p of
                        None \<Rightarrow> None
                      | Some (sm, p) \<Rightarrow>
                          Some (True, wg\<lparr>wave_offset := offset, wave_sm := sm, wave_pio := PIO0\<rparr>,
                                program_init S program PIO0 sm offset signal_pin p))))"

definition init_cutout_sm :: "'p pio_sdk \<Rightarrow> nat \<Rightarrow> wavegen \<times> 'p \<Rightarrow> (bool \<times> wavegen \<times> 'p) option" where
  "init_cutout_sm S brake_pin s =
     (case s of (wg, p) \<Rightarrow>
        (let pio = WAVEGEN_CUTOUT_PIO
         in if \<not> can_add_program S pio Cutout_Program p then Some (False, wg, p)
            else case add_program S pio Cutout_Program p of
                   (offset, p) \<Rightarrow>
                     (case claim_unused_sm S pio p of
                        None \<Rightarrow> None
                      | Some (sm, p) \<Rightarrow>
                          Some (True, wg\<lparr>cutout_offset := offset, cutout_sm := sm, cutout_pio := pio\<rparr>,
                                program_init S Cutout_Program pio sm offset brake_pin p))))"

definition wavegen_enable :: "'p pio_sdk \<Rightarrow> wavegen \<Rightarrow> bool \<Rightarrow> 'p \<Rightarrow> 'p" where
  "wavegen_enable S wg enabled p =
     (if \<not> initialized wg then p
      else let p = (if wg_mode wg = WAVEGEN_NORMAL then sm_set_enabled S (cutout_pio wg) (cutout_sm wg) enabled p else p)
           in sm_set_enabled S (wave_pio wg) (wave_sm wg) enabled p)"

definition wavegen_init :: "'p pio_sdk \<Rightarrow> wavegen_mode \<Rightarrow> nat \<Rightarrow> nat \<Rightarrow> wavegen \<times> 'p \<Rightarrow> (bool \<times> wavegen \<times> 'p) option" where
  "wavegen_init S md signal_pin brake_pin s =
     (case s of (wg, p) \<Rightarrow>
        (case init_wave_sm S md signal_pin (wg\<lparr>wg_mode := md, initialized := False\<rparr>, p) of
           None \<Rightarrow> None
         | Some (False, s) \<Rightarrow> Some (False, s)
         | Some (True, s) \<Rightarrow>
             (case (if md = WAVEGEN_NORMAL then init_cutout_sm S brake_pin s else Some (True, s)) of
                None \<Rightarrow> None
              | Some (False, s) \<Rightarrow> Some (False, s)
              | Some (True, wg, p) \<Rightarrow>
                  (let wg = wg\<lparr>initialized := True\<rparr> in Some (True, wg, wavegen_enable S wg True p)))))"

definition wavegen_release :: "'p pio_sdk \<Rightarrow> wavegen \<Rightarrow> 'p \<Rightarrow> 'p" where
  "wavegen_release S wg p =
     (let p = wavegen_enable S wg False p;
          p = sm_set_enabled S (wave_pio wg) (wave_sm wg) False p;
          p = sm_unclaim S (wave_pio wg) (wave_sm wg) p;
          p = remove_program S (wave_pio wg) (wave_program (wg_mode wg)) (wave_offset wg) p
      in if wg_mode wg = WAVEGEN_NORMAL
         then let p = sm_set_enabled S (cutout_pio wg) (cutout_sm wg) False p;
                  p = sm_unclaim S (cutout_pio wg) (cutout_sm wg) p
              in remove_program S (cutout_pio wg) Cutout_Program (cutout_offset wg) p
         else p)"

definition wavegen_reinit :: "'p pio_sdk \<Rightarrow> wavegen_mode \<Rightarrow> nat \<Rightarrow> nat \<Rightarrow> wavegen \<times> 'p \<Rightarrow> (bool \<times> wavegen \<times> 'p) option" where
  "wavegen_reinit S md signal_pin brake_pin s =
     (case s of (wg, p) \<Rightarrow>
        (if \<not> initialized wg then Some (False, s)
         else wavegen_init S md signal_pin brake_pin (wg\<lparr>initialized := False\<rparr>, wavegen_release S wg p)))"

section \<open>Sending\<close>

text \<open>The loop that waits for room, which does not return while the FIFO stays full.\<close>

partial_function (option) wait_tx_room :: "'p pio_sdk \<Rightarrow> wavegen \<Rightarrow> 'p \<Rightarrow> 'p option" where
  "wait_tx_room S wg p =
     (if sm_is_tx_fifo_full S (wave_pio wg) (wave_sm wg) p then wait_tx_room S wg (task_delay S 1 p) else Some p)"

primrec send_words :: "'p pio_sdk \<Rightarrow> wavegen \<Rightarrow> u32 list \<Rightarrow> 'p \<Rightarrow> 'p option" where
  "send_words S wg [] p = Some p"
| "send_words S wg (w # ws) p =
     (case wait_tx_room S wg p of
        None \<Rightarrow> None
      | Some p \<Rightarrow> send_words S wg ws (sm_put S (wave_pio wg) (wave_sm wg) w p))"

text \<open>
  The packet is passed by its pointer (\<open>None\<close> is NULL): encoding it adds the checksum to the
  packet of the pool.
\<close>

definition wavegen_send :: "'p pio_sdk \<Rightarrow> wavegen \<Rightarrow> pkt_ptr option \<Rightarrow> pool \<times> 'p \<Rightarrow> (pool \<times> 'p) option" where
  "wavegen_send S wg pkt s =
     (case (s, pkt) of
        (_, None) \<Rightarrow> Some s
      | ((pl, p), Some k) \<Rightarrow>
          (if \<not> initialized wg \<or> packet_is_invalid (pl ! k) then Some s
           else case packet_encode (pl ! k) of
                  None \<Rightarrow> None
                | Some (pkt', words) \<Rightarrow>
                    (case send_words S wg words p of
                       None \<Rightarrow> None
                     | Some p \<Rightarrow> Some (pl[k := pkt'], p))))"

text \<open>
  One turn of the task's endless loop. With nothing in the queue the task stays blocked in
  \<open>xQueueReceive\<close>.
\<close>

definition task_wavegen_turn ::
  "('q, pkt_ptr) queue_api \<Rightarrow> 'p pio_sdk \<Rightarrow> wavegen \<Rightarrow> 'q \<times> pool \<times> 'p \<Rightarrow> ('q \<times> pool \<times> 'p) option" where
  "task_wavegen_turn R S wg s =
     (case s of (q, pl, p) \<Rightarrow>
        (case xQueueReceive R q of
           None \<Rightarrow> Some s
         | Some (k, q) \<Rightarrow>
             (case wavegen_send S wg (Some k) (pl, p) of
                None \<Rightarrow> None
              | Some (pl, p) \<Rightarrow> Some (q, packet_free pl (Some k), p))))"

primrec task_wavegen ::
  "('q, pkt_ptr) queue_api \<Rightarrow> 'p pio_sdk \<Rightarrow> wavegen \<Rightarrow> nat \<Rightarrow> 'q \<times> pool \<times> 'p \<Rightarrow> ('q \<times> pool \<times> 'p) option" where
  "task_wavegen R S wg 0 s = Some s"
| "task_wavegen R S wg (Suc n) s =
     (case task_wavegen_turn R S wg s of None \<Rightarrow> None | Some s \<Rightarrow> task_wavegen R S wg n s)"

section \<open>What the SDK documents\<close>

text \<open>
  What the chip holds: the programs in its instruction memories, the state machines that are
  claimed and those that run, and all words ever put into each transmit FIFO.
\<close>

record pio_view =
  loaded :: "(pio_block \<times> pio_program \<times> nat) set"
  claimed :: "(pio_block \<times> nat) set"
  running :: "(pio_block \<times> nat) set"
  put :: "pio_block \<times> nat \<Rightarrow> u32 list"

definition pio_ok :: "'p pio_sdk \<Rightarrow> ('p \<Rightarrow> pio_view) \<Rightarrow> bool" where
  "pio_ok S view \<longleftrightarrow>
     (\<forall>b pr p off p'. can_add_program S b pr p \<longrightarrow> add_program S b pr p = (off, p') \<longrightarrow>
        (b, pr, off) \<notin> loaded (view p) \<and> view p' = (view p)\<lparr>loaded := insert (b, pr, off) (loaded (view p))\<rparr>) \<and>
     (\<forall>b pr off p. view (remove_program S b pr off p) = (view p)\<lparr>loaded := loaded (view p) - {(b, pr, off)}\<rparr>) \<and>
     (\<forall>b p sm p'. claim_unused_sm S b p = Some (sm, p') \<longrightarrow>
        (b, sm) \<notin> claimed (view p) \<and> view p' = (view p)\<lparr>claimed := insert (b, sm) (claimed (view p))\<rparr>) \<and>
     (\<forall>b sm p. view (sm_unclaim S b sm p) = (view p)\<lparr>claimed := claimed (view p) - {(b, sm)}\<rparr>) \<and>
     (\<forall>pr b sm off pin p. view (program_init S pr b sm off pin p) = (view p)\<lparr>running := running (view p) - {(b, sm)}\<rparr>) \<and>
     (\<forall>b sm p. view (sm_set_enabled S b sm True p) = (view p)\<lparr>running := insert (b, sm) (running (view p))\<rparr>) \<and>
     (\<forall>b sm p. view (sm_set_enabled S b sm False p) = (view p)\<lparr>running := running (view p) - {(b, sm)}\<rparr>) \<and>
     (\<forall>b sm w p. \<not> sm_is_tx_fifo_full S b sm p \<longrightarrow>
        view (sm_put S b sm w p) = (view p)\<lparr>put := (put (view p))((b, sm) := put (view p) (b, sm) @ [w])\<rparr>) \<and>
     (\<forall>n p. view (task_delay S n p) = view p)"

text \<open>A state machine that runs reads its FIFO: within some number of ticks there is room.\<close>

definition fifo_drains :: "'p pio_sdk \<Rightarrow> ('p \<Rightarrow> pio_view) \<Rightarrow> bool" where
  "fifo_drains S view \<longleftrightarrow>
     (\<forall>b sm p. (b, sm) \<in> running (view p) \<longrightarrow> (\<exists>n. \<not> sm_is_tx_fifo_full S b sm ((task_delay S 1 ^^ n) p)))"

text \<open>A block with nothing in it has room for any one program and a free state machine.\<close>

definition empty_block_serves :: "'p pio_sdk \<Rightarrow> ('p \<Rightarrow> pio_view) \<Rightarrow> bool" where
  "empty_block_serves S view \<longleftrightarrow>
     (\<forall>b pr p. (\<forall>x\<in>loaded (view p). fst x \<noteq> b) \<longrightarrow> can_add_program S b pr p) \<and>
     (\<forall>b p. (\<forall>x\<in>claimed (view p). fst x \<noteq> b) \<longrightarrow> claim_unused_sm S b p \<noteq> None)"

lemma pio_laws:
  assumes "pio_ok S view"
  shows "can_add_program S b pr p \<Longrightarrow> add_program S b pr p = (off, p') \<Longrightarrow>
        (b, pr, off) \<notin> loaded (view p) \<and> view p' = (view p)\<lparr>loaded := insert (b, pr, off) (loaded (view p))\<rparr>"
    and "view (remove_program S b pr off p) = (view p)\<lparr>loaded := loaded (view p) - {(b, pr, off)}\<rparr>"
    and "claim_unused_sm S b p = Some (sm, p') \<Longrightarrow>
        (b, sm) \<notin> claimed (view p) \<and> view p' = (view p)\<lparr>claimed := insert (b, sm) (claimed (view p))\<rparr>"
    and "view (sm_unclaim S b sm p) = (view p)\<lparr>claimed := claimed (view p) - {(b, sm)}\<rparr>"
    and "view (program_init S pr b sm off pin p) = (view p)\<lparr>running := running (view p) - {(b, sm)}\<rparr>"
    and "view (sm_set_enabled S b sm True p) = (view p)\<lparr>running := insert (b, sm) (running (view p))\<rparr>"
    and "view (sm_set_enabled S b sm False p) = (view p)\<lparr>running := running (view p) - {(b, sm)}\<rparr>"
    and "\<not> sm_is_tx_fifo_full S b sm p \<Longrightarrow>
        view (sm_put S b sm w p) = (view p)\<lparr>put := (put (view p))((b, sm) := put (view p) (b, sm) @ [w])\<rparr>"
    and "view (task_delay S n p) = view p"
  using assms by (simp_all add: pio_ok_def)

section \<open>Setting up and giving back\<close>

text \<open>
  What a generator that is set up holds in the chip: its state machines run, and they and the
  programs are its own.
\<close>

definition wg_programs :: "wavegen \<Rightarrow> (pio_block \<times> pio_program \<times> nat) set" where
  "wg_programs wg = insert (wave_pio wg, wave_program (wg_mode wg), wave_offset wg)
     (if wg_mode wg = WAVEGEN_NORMAL then {(cutout_pio wg, Cutout_Program, cutout_offset wg)} else {})"

definition wg_machines :: "wavegen \<Rightarrow> (pio_block \<times> nat) set" where
  "wg_machines wg = insert (wave_pio wg, wave_sm wg)
     (if wg_mode wg = WAVEGEN_NORMAL then {(cutout_pio wg, cutout_sm wg)} else {})"

definition wg_on :: "wavegen \<Rightarrow> pio_view \<Rightarrow> bool" where
  "wg_on wg v \<longleftrightarrow> initialized wg \<and> wave_pio wg = PIO0 \<and> (wg_mode wg = WAVEGEN_NORMAL \<longrightarrow> cutout_pio wg = PIO1) \<and>
     wg_programs wg \<subseteq> loaded v \<and> wg_machines wg \<subseteq> claimed v \<and> wg_machines wg \<subseteq> running v"

text \<open>The rest of the chip: what the other users of the PIO hold.\<close>

definition others :: "wavegen \<Rightarrow> pio_view \<Rightarrow> pio_view" where
  "others wg v = v\<lparr>loaded := loaded v - wg_programs wg, claimed := claimed v - wg_machines wg,
     running := running v - wg_machines wg\<rparr>"

lemma release_view:
  assumes "pio_ok S view" and "wg_on wg (view p)"
  shows "view (wavegen_release S wg p) = others wg (view p)"
  by (rule pio_view.equality) (use assms(2) in \<open>auto simp: wavegen_release_def wavegen_enable_def Let_def
      pio_laws [OF assms(1)] wg_on_def others_def wg_programs_def wg_machines_def\<close>)

lemma init_on:
  assumes "pio_ok S view" and "wavegen_init S md signal_pin brake_pin (wg, p) = Some (True, wg', p')"
  shows "wg_on wg' (view p') \<and> wg_mode wg' = md \<and> loaded (others wg' (view p')) = loaded (view p) \<and>
    claimed (others wg' (view p')) = claimed (view p) \<and> running (others wg' (view p')) = running (view p) - wg_machines wg' \<and>
    put (view p') = put (view p)"
  using assms(2)
  by (auto simp: wavegen_init_def init_wave_sm_def init_cutout_sm_def Let_def wavegen_enable_def WAVEGEN_CUTOUT_PIO_def
      wg_on_def others_def wg_programs_def wg_machines_def pio_laws(2-) [OF assms(1)]
      dest!: pio_laws(1) [OF assms(1)] pio_laws(3) [OF assms(1)] split: prod.splits option.splits if_splits bool.splits)

lemma init_succeeds:
  assumes "pio_ok S view" and "empty_block_serves S view"
    and "\<forall>x\<in>loaded (view p). fst x = PIO2" and "\<forall>x\<in>claimed (view p). fst x = PIO2"
  shows "\<exists>wg' p'. wavegen_init S md signal_pin brake_pin (wg, p) = Some (True, wg', p')"
proof -
  note serves = assms(2) [unfolded empty_block_serves_def]
  let ?pr = "wave_program md"
  have can: "can_add_program S PIO0 ?pr p" using serves assms(3) by force
  obtain off p1 where a: "add_program S PIO0 ?pr p = (off, p1)" by (metis surj_pair)
  note v1 = pio_laws(1) [OF assms(1) can a]
  have "claim_unused_sm S PIO0 p1 \<noteq> None" using serves assms(4) v1 by force
  then obtain sm p2 where c: "claim_unused_sm S PIO0 p1 = Some (sm, p2)" by (metis not_None_eq surj_pair)
  note v2 = pio_laws(3) [OF assms(1) c]
  define p3 where "p3 = program_init S ?pr PIO0 sm off signal_pin p2"
  have v3: "loaded (view p3) = insert (PIO0, ?pr, off) (loaded (view p))" "claimed (view p3) = insert (PIO0, sm) (claimed (view p))"
    using v1 v2 by (simp_all add: p3_def pio_laws(5) [OF assms(1)])
  have can': "can_add_program S PIO1 Cutout_Program p3" using serves assms(3) v3(1) by force
  obtain coff p4 where a': "add_program S PIO1 Cutout_Program p3 = (coff, p4)" by (metis surj_pair)
  have "claim_unused_sm S PIO1 p4 \<noteq> None"
    using serves assms(4) v3(2) pio_laws(1) [OF assms(1) can' a'] by force
  then obtain csm p5 where c': "claim_unused_sm S PIO1 p4 = Some (csm, p5)" by (metis not_None_eq surj_pair)
  show ?thesis
    using can a c can' a' c'
    by (cases md) (simp_all add: wavegen_init_def init_wave_sm_def init_cutout_sm_def Let_def WAVEGEN_CUTOUT_PIO_def p3_def)
qed

fun reinit_all :: "'p pio_sdk \<Rightarrow> (wavegen_mode \<times> nat \<times> nat) list \<Rightarrow> wavegen \<times> 'p \<Rightarrow> (wavegen \<times> 'p) option" where
  "reinit_all S [] s = Some s"
| "reinit_all S ((md, signal_pin, brake_pin) # ms) s =
     (case wavegen_reinit S md signal_pin brake_pin s of
        Some (True, s) \<Rightarrow> reinit_all S ms s
      | _ \<Rightarrow> None)"

lemma reinit_switches:
  assumes "pio_ok S view" and "empty_block_serves S view" and "wg_on wg (view p)"
    and "\<forall>x\<in>loaded (others wg (view p)). fst x = PIO2" and "\<forall>x\<in>claimed (others wg (view p)). fst x = PIO2"
    and "running (view p) \<subseteq> claimed (view p)"
  shows "\<exists>wg' p'. wavegen_reinit S md signal_pin brake_pin (wg, p) = Some (True, wg', p') \<and> wg_on wg' (view p') \<and>
    wg_mode wg' = md \<and> others wg' (view p') = others wg (view p) \<and> running (view p') \<subseteq> claimed (view p')"
proof -
  let ?p = "wavegen_release S wg p"
  note r = release_view [OF assms(1,3)]
  from init_succeeds [OF assms(1,2), of ?p md signal_pin brake_pin "wg\<lparr>initialized := False\<rparr>"] r assms(4,5)
  obtain wg' p' where i: "wavegen_init S md signal_pin brake_pin (wg\<lparr>initialized := False\<rparr>, ?p) = Some (True, wg', p')" by auto
  note on = init_on [OF assms(1) i]
  have "initialized wg" using assms(3) by (simp add: wg_on_def)
  then have re: "wavegen_reinit S md signal_pin brake_pin (wg, p) = Some (True, wg', p')" by (simp add: wavegen_reinit_def i)
  have sub: "running (view ?p) \<subseteq> claimed (view ?p)" using assms(6) unfolding r by (auto simp: others_def)
  have run: "running (others wg' (view p')) = running (view ?p)"
    using on sub by (auto simp: others_def)
  have "others wg' (view p') = others wg (view p)"
    unfolding r [symmetric] by (rule pio_view.equality) (use on run in \<open>auto simp: others_def\<close>)
  moreover have "running (view p') - wg_machines wg' \<subseteq> claimed (view p')" "wg_machines wg' \<subseteq> claimed (view p')"
    using on run sub by (auto simp: others_def wg_on_def)
  then have "running (view p') \<subseteq> claimed (view p')" by blast
  ultimately show ?thesis using re on by blast
qed

text \<open>
  C37: A generator that is set up again, as when the RailCom cutout is switched in the
  configuration, with nothing else in its two PIO blocks: it gives back everything it had, its
  new mode's programs and state machines are claimed and run, and nothing else in the chip has
  changed, so it can be set up again any number of times.
\<close>

theorem wavegen_reinit_keeps_chip:
  assumes "pio_ok S view" and "empty_block_serves S view" and "wg_on wg (view p)"
    and "\<forall>x\<in>loaded (others wg (view p)). fst x = PIO2" and "\<forall>x\<in>claimed (others wg (view p)). fst x = PIO2"
    and "running (view p) \<subseteq> claimed (view p)"
  shows "\<exists>wg' p'. reinit_all S ms (wg, p) = Some (wg', p') \<and> wg_on wg' (view p') \<and>
    wg_mode wg' = last (wg_mode wg # map fst ms) \<and> others wg' (view p') = others wg (view p)"
  using assms(3-6)
proof (induction ms arbitrary: wg p)
  case (Cons m ms)
  obtain md a b where m: "m = (md, a, b)" by (cases m)
  from reinit_switches [OF assms(1,2) Cons.prems, of md a b] obtain wg1 p1 where
    1: "wavegen_reinit S md a b (wg, p) = Some (True, wg1, p1)" "wg_on wg1 (view p1)" "wg_mode wg1 = md"
      "others wg1 (view p1) = others wg (view p)" "running (view p1) \<subseteq> claimed (view p1)" by blast
  from Cons.IH [of wg1 p1] 1 Cons.prems(2,3) show ?case by (auto simp: m)
qed auto

section \<open>What the state machine reads\<close>

text \<open>
  The packets in a stream of words, as the PIO programs read them: the first byte of a packet's
  first word is the number of bytes that follow; what is left of the packet's last word is
  dropped when the next packet's first word is pulled.
\<close>

function pio_stream :: "u32 list \<Rightarrow> u8 list list" where
  "pio_stream [] = []"
| "pio_stream (w # ws) =
     (let n = unat (hd (word_bytes w)); k = (n + 4) div 4
      in pio_receive (take k (w # ws)) # pio_stream (drop (k - 1) ws))"
  by pat_completeness auto
termination by (relation "measure length") auto

declare pio_stream.simps(2) [simp del]

lemma encode_loop_head:
  fixes x n :: u8
  assumes "0 < length bs" and "length bs \<le> 5"
  shows "hd (word_bytes (hd (encode_loop (bs @ [x]) (shl (u32_of n) 24) 2))) = n \<and>
         length (encode_loop (bs @ [x]) (shl (u32_of n) 24) 2) = (length bs + 5) div 4"
  using assms by (cases rule: list_upto5) (simp_all add: Let_def word_bytes_pack)

lemma encode_streams:
  assumes "pkt_wf p" and "pkt_len p \<noteq> 0"
  obtains p' ws where "packet_encode p = Some (p', ws)" "pkt_shape p'" "pkt_in_use p' = pkt_in_use p"
    "pkt_priority p' = pkt_priority p"
    "\<And>rest. pio_stream (ws @ rest) = (pkt_bytes p @ [xor_bytes (pkt_bytes p)]) # pio_stream rest"
proof -
  let ?bs = "pkt_bytes p"
  have l: "length (pkt_data p) = 6" "pkt_len p = length ?bs" "0 < length ?bs" "length ?bs \<le> 5"
    using assms by (auto simp: pkt_wf_def)
  then have "holds p ?bs" "?bs \<noteq> []" using assms by (auto simp: holds_def)
  from packet_encode_holds [OF this] obtain p' ws where
    e: "packet_encode p = Some (p', ws)" "pio_receive ws = ?bs @ [xor_bytes ?bs]" by blast
  have p': "p' = p\<lparr>pkt_data := (pkt_data p)[pkt_len p := xor_bytes ?bs], pkt_len := pkt_len p + 1\<rparr>"
    and ws: "ws = encode_loop (pkt_bytes p') (shl (u32_of (word_of_nat (pkt_len p') :: u8)) 24) 2"
    using e(1) assms l by (auto simp: packet_encode_def packet_add_checksum_def split: if_splits)
  have len: "pkt_len p' = length ?bs + 1" using l(2) by (simp add: p')
  have bytes: "pkt_bytes p' = ?bs @ [xor_bytes ?bs]" using l by (simp add: p' take_Suc_update)
  let ?n = "word_of_nat (length ?bs + 1) :: u8"
  have n: "unat ?n = length ?bs + 1" by (rule unat_of_nat_less) (use l in simp)
  note head = encode_loop_head [OF l(3,4), of "xor_bytes ?bs" ?n, folded bytes, folded len, folded ws]
  then obtain w ws' where w: "ws = w # ws'" using l(3) by (cases ws) auto
  have "pio_stream (ws @ rest) = (?bs @ [xor_bytes ?bs]) # pio_stream rest" for rest
  proof -
    have k: "(unat (hd (word_bytes w)) + 4) div 4 = length ws" using head n by (simp add: w len)
    have "take (length ws) (w # ws' @ rest) = ws" "drop (length ws - 1) (ws' @ rest) = rest" by (simp_all add: w)
    then show ?thesis using e(2) by (simp add: w pio_stream.simps k [unfolded w] Let_def)
  qed
  moreover have "pkt_shape p'" using l assms(1) by (simp add: p' pkt_shape_def pkt_wf_def)
  ultimately show thesis using e(1) by (intro that [of p' ws]) (simp_all add: p')
qed

section \<open>Sending\<close>

lemma wait_returns:
  assumes "pio_ok S view" and "\<not> sm_is_tx_fifo_full S (wave_pio wg) (wave_sm wg) ((task_delay S 1 ^^ n) p)"
  shows "\<exists>p'. wait_tx_room S wg p = Some p' \<and> view p' = view p \<and> \<not> sm_is_tx_fifo_full S (wave_pio wg) (wave_sm wg) p'"
  using assms(2)
proof (induction n arbitrary: p)
  case 0
  then show ?case by (simp add: wait_tx_room.simps [of S wg p])
next
  case (Suc n)
  from Suc.prems have "\<not> sm_is_tx_fifo_full S (wave_pio wg) (wave_sm wg) ((task_delay S 1 ^^ n) (task_delay S 1 p))"
    by (simp add: funpow_swap1)
  from Suc.IH [OF this] show ?case
    by (cases "sm_is_tx_fifo_full S (wave_pio wg) (wave_sm wg) p")
      (simp_all add: wait_tx_room.simps [of S wg p] pio_laws(9) [OF assms(1)])
qed

definition wave_put :: "wavegen \<Rightarrow> u32 list \<Rightarrow> pio_view \<Rightarrow> pio_view" where
  "wave_put wg ws v = v\<lparr>put := (put v)((wave_pio wg, wave_sm wg) := put v (wave_pio wg, wave_sm wg) @ ws)\<rparr>"

lemma wave_put_simps [simp]:
  "wave_put wg [] v = v" "wave_put wg us (wave_put wg ws v) = wave_put wg (ws @ us) v"
  "running (wave_put wg ws v) = running v" "loaded (wave_put wg ws v) = loaded v" "claimed (wave_put wg ws v) = claimed v"
  by (simp_all add: wave_put_def)

lemma send_words_view:
  assumes "pio_ok S view" and "fifo_drains S view" and "(wave_pio wg, wave_sm wg) \<in> running (view p)"
  shows "\<exists>p'. send_words S wg ws p = Some p' \<and> view p' = wave_put wg ws (view p)"
  using assms(3)
proof (induction ws arbitrary: p)
  case (Cons w ws)
  from Cons.prems assms(2) obtain n where "\<not> sm_is_tx_fifo_full S (wave_pio wg) (wave_sm wg) ((task_delay S 1 ^^ n) p)"
    unfolding fifo_drains_def by blast
  from wait_returns [OF assms(1) this] obtain p1 where
    p1: "wait_tx_room S wg p = Some p1" "view p1 = view p" "\<not> sm_is_tx_fifo_full S (wave_pio wg) (wave_sm wg) p1" by blast
  let ?p2 = "sm_put S (wave_pio wg) (wave_sm wg) w p1"
  have p2: "view ?p2 = wave_put wg [w] (view p)"
    using pio_laws(8) [OF assms(1) p1(3), of w] p1(2) by (simp add: wave_put_def)
  from Cons.IH [of ?p2] Cons.prems show ?case by (simp add: p1(1) p2)
qed simp

text \<open>What one packet sounds like on the rails: nothing when it is empty.\<close>

definition heard :: "dcc_packet \<Rightarrow> u8 list list" where
  "heard p = (if pkt_len p = 0 then [] else [pkt_bytes p @ [xor_bytes (pkt_bytes p)]])"

lemma heard_whole: "pkt_shape p \<Longrightarrow> b \<in> set (heard p) \<Longrightarrow> 1 < length b \<and> xor_bytes b = 0"
  by (auto simp: heard_def pkt_shape_def xor_bytes_checksum split: if_splits)

lemma send_streams:
  assumes "pio_ok S view" and "fifo_drains S view" and "wg_on wg (view p)" and "k < length pl" and "pkt_wf (pl ! k)"
  obtains pkt' p' ws where "wavegen_send S wg (Some k) (pl, p) = Some (pl[k := pkt'], p')"
    "view p' = wave_put wg ws (view p)" "\<And>rest. pio_stream (ws @ rest) = heard (pl ! k) @ pio_stream rest"
    "pkt_shape pkt'" "pkt_in_use pkt' = pkt_in_use (pl ! k)" "pkt_priority pkt' = pkt_priority (pl ! k)"
proof (cases "pkt_len (pl ! k) = 0")
  case True
  then show ?thesis using assms(5) by (intro that [of "pl ! k" p "[]"])
    (simp_all add: wavegen_send_def packet_is_invalid_def heard_def wf_intro)
next
  case False
  from encode_streams [OF assms(5) this] obtain pkt' ws where e: "packet_encode (pl ! k) = Some (pkt', ws)" "pkt_shape pkt'"
    "pkt_in_use pkt' = pkt_in_use (pl ! k)" "pkt_priority pkt' = pkt_priority (pl ! k)"
    "\<And>rest. pio_stream (ws @ rest) = (pkt_bytes (pl ! k) @ [xor_bytes (pkt_bytes (pl ! k))]) # pio_stream rest" by metis
  have on: "initialized wg" "(wave_pio wg, wave_sm wg) \<in> running (view p)"
    using assms(3) by (auto simp: wg_on_def wg_machines_def)
  from send_words_view [OF assms(1,2) on(2), of ws] obtain p' where
    "send_words S wg ws p = Some p'" "view p' = wave_put wg ws (view p)" by blast
  with e on(1) False show ?thesis
    by (intro that [of pkt' p' ws]) (simp_all add: wavegen_send_def packet_is_invalid_def heard_def)
qed

section \<open>The path of the packets\<close>

text \<open>Every packet in use has room for its checksum.\<close>

definition pool_short :: "pool \<Rightarrow> bool" where
  "pool_short pl \<longleftrightarrow> (\<forall>p\<in>set pl. pkt_in_use p \<longrightarrow> pkt_len p < MAX_PACKET_DATA)"

lemma pool_short_wf: "pool_short pl \<Longrightarrow> pool_wf pl \<Longrightarrow> k \<in> pool_used pl \<Longrightarrow> pkt_wf (pl ! k)"
  by (auto simp: pool_short_def pool_wf_def pool_used_def pkt_wf_def pkt_shape_def)

lemma pool_short_update: "pool_short pl \<Longrightarrow> (pkt_in_use p \<Longrightarrow> pkt_len p < MAX_PACKET_DATA) \<Longrightarrow> pool_short (pl[k := p])"
  using set_update_subset_insert [of pl k p] by (auto simp: pool_short_def)

lemma pool_short_free: "pool_short pl \<Longrightarrow> pool_short (packet_free pl (Some k))"
  by (auto simp: packet_free_def intro!: pool_short_update)

lemma drain_short: "drain_input R n (pl, pq) = Some (pl', pq') \<Longrightarrow> pool_short pl \<Longrightarrow> pool_short pl'"
proof (induction R n "(pl, pq)" arbitrary: pl pq rule: drain_input.induct)
  case (2 R fuel pl pq)
  show ?case
  proof (cases "xQueueReceive R (input_queue pq)")
    case (Some r)
    obtain k q where r: "r = (k, q)" by (cases r)
    obtain pl1 pq1 where a: "accept_packet k (pl, pq\<lparr>input_queue := q\<rparr>) = (pl1, pq1)" by (metis surj_pair)
    then have "pool_short pl1" using 2(3)
      by (auto simp: accept_packet_def pqueue_push_def pool_short_free Let_def split: if_splits)
    then show ?thesis using 2(1,2) Some by (auto simp: r a)
  qed (use 2 in simp)
qed simp

lemma dispatch_short:
  assumes "owns R ext (pl, pq)" and "pool_short pl"
  shows "pool_short (fst (dispatch R (pl, pq)))"
proof (cases "pqueue_is_empty pq")
  case False
  let ?t = "the (items pq ! 0)"
  have n: "pq_count pq \<noteq> 0" using False by (simp add: pqueue_is_empty_def)
  have "?t \<in> set (slots pq)" by (rule top_slot) (use assms(1) n in \<open>auto simp: owns_def\<close>)
  then have "?t \<in> pool_used pl" using assms(1) by (auto simp: owns_def held_by_def)
  then have top: "pkt_len (pl ! ?t) < MAX_PACKET_DATA" "?t < length pl" using assms(2) by (auto simp: pool_used_def pool_short_def)
  have "pool_short (fst (snd (pqueue_pop (pl, pq))))"
    using n top assms(2)
    by (auto simp: pqueue_pop_def packet_alloc_def Let_def copy_packet_def nth_list_update
        intro!: pool_short_update split: option.splits)
  then show ?thesis using False
    by (auto simp: dispatch_def pool_short_free split: prod.splits option.splits)
qed (simp add: dispatch_def assms)

text \<open>The two tasks at the ends of the output queue, in any order, on the shared pool.\<close>

datatype packet_task = Queue_Turn | Wave_Turn

definition packet_path_step ::
  "('q, pkt_ptr) queue_api \<Rightarrow> 'p pio_sdk \<Rightarrow> wavegen \<Rightarrow> packet_task \<Rightarrow> pool \<times> 'q priority_queue \<times> 'p \<Rightarrow>
    (pool \<times> 'q priority_queue \<times> 'p) option" where
  "packet_path_step R S wg t s =
     (case s of (pl, pq, p) \<Rightarrow>
        (case t of
           Queue_Turn \<Rightarrow>
             map_option (\<lambda>(pl, pq). (pl, pq, p))
               (task_priority_queue R (Suc (length (queue_items R (input_queue pq)))) (pl, pq))
         | Wave_Turn \<Rightarrow>
             map_option (\<lambda>(q, pl, p). (pl, pq\<lparr>pq_output_queue := q\<rparr>, p))
               (task_wavegen_turn R S wg (pq_output_queue pq, pl, p))))"

primrec packet_path ::
  "('q, pkt_ptr) queue_api \<Rightarrow> 'p pio_sdk \<Rightarrow> wavegen \<Rightarrow> packet_task list \<Rightarrow> pool \<times> 'q priority_queue \<times> 'p \<Rightarrow>
    (pool \<times> 'q priority_queue \<times> 'p) option" where
  "packet_path R S wg [] s = Some s"
| "packet_path R S wg (t # ts) s =
     (case packet_path_step R S wg t s of None \<Rightarrow> None | Some s \<Rightarrow> packet_path R S wg ts s)"

definition path_ok ::
  "('q, pkt_ptr) queue_api \<Rightarrow> ('p \<Rightarrow> pio_view) \<Rightarrow> wavegen \<Rightarrow> pkt_ptr set \<Rightarrow> pool \<times> 'q priority_queue \<times> 'p \<Rightarrow> bool" where
  "path_ok R view wg ext = (\<lambda>(pl, pq, p). owns R ext (pl, pq) \<and> no_twins (pl, pq) \<and> pool_short pl \<and> wg_on wg (view p))"

lemma wave_put_on [simp]: "wg_on wg (wave_put wg ws v) = wg_on wg v"
  by (simp add: wg_on_def)

lemma wave_turn_owned:
  assumes "fifo_queue R" and "pio_ok S view" and "fifo_drains S view" and "path_ok R view wg ext (pl, pq, p)"
    and "xQueueReceive R (pq_output_queue pq) = Some (k, q)"
  obtains pl' p' ws where "task_wavegen_turn R S wg (pq_output_queue pq, pl, p) = Some (q, pl', p')"
    "path_ok R view wg ext (pl', pq\<lparr>pq_output_queue := q\<rparr>, p')" "view p' = wave_put wg ws (view p)"
    "\<And>rest. pio_stream (ws @ rest) = heard (pl ! k) @ pio_stream rest"
    "\<And>j. j \<noteq> k \<Longrightarrow> pl' ! j = pl ! j" "pool_used pl' = pool_used pl - {k}"
proof -
  have own: "owns R ext (pl, pq)" "no_twins (pl, pq)" "pool_short pl" "wg_on wg (view p)"
    using assms(4) by (simp_all add: path_ok_def)
  have q: "queue_items R (pq_output_queue pq) = k # queue_items R q" using fifo_receive [OF assms(1,5)] .
  have k: "k \<in> pool_used pl" using own(1) q by (auto simp: owns_def held_by_def)
  then have l: "k < length pl" by (simp add: pool_used_def)
  have wf: "pkt_wf (pl ! k)" using pool_short_wf [OF own(3) _ k] own(1) by (simp add: owns_def)
  obtain pkt' p' ws where s: "wavegen_send S wg (Some k) (pl, p) = Some (pl[k := pkt'], p')"
    "view p' = wave_put wg ws (view p)" "\<And>rest. pio_stream (ws @ rest) = heard (pl ! k) @ pio_stream rest"
    "pkt_shape pkt'" "pkt_in_use pkt' = pkt_in_use (pl ! k)" "pkt_priority pkt' = pkt_priority (pl ! k)"
    using send_streams [OF assms(2,3) own(4) l wf] by blast
  let ?pl = "pl[k := pkt'\<lparr>pkt_in_use := False\<rparr>]" and ?pq = "pq\<lparr>pq_output_queue := q\<rparr>"
  have t: "task_wavegen_turn R S wg (pq_output_queue pq, pl, p) = Some (q, ?pl, p')"
    using s(1) l by (simp add: task_wavegen_turn_def assms(5) packet_free_def)
  have out: "k \<notin> set (slots pq)" "distinct (held_by R ?pq)" "k \<notin> set (held_by R ?pq)"
    "set (held_by R pq) = insert k (set (held_by R ?pq))" "k \<notin> ext"
    using own(1) q by (auto simp: owns_def held_by_def slots_def)
  have same: "?pl ! j = pl ! j" if "j \<in> set (slots pq)" for j using that out(1) by (cases "j = k") auto
  have "pq_wf ?pl ?pq" unfolding pq_wf_queues by (rule pq_wf_pool [of pl]) (use own(1) same in \<open>auto simp: owns_def\<close>)
  then have "owns R ext (?pl, ?pq)"
    using own(1) out s(4) l by (auto simp: owns_def pool_used_update intro!: pool_wf_update)
  moreover have "no_twins (?pl, ?pq)"
    using own(2) same by (auto simp: no_twins_def slots_def)
  moreover have "pool_short ?pl" using own(3) by (intro pool_short_update) simp_all
  ultimately have "path_ok R view wg ext (?pl, ?pq, p')" using own(4) by (simp add: path_ok_def s(2))
  then show thesis using t s(2,3) l by (intro that [of ?pl p' ws]) (simp_all add: pool_used_update)
qed

lemma path_step_owned:
  assumes "fifo_queue R" and "pio_ok S view" and "fifo_drains S view" and "path_ok R view wg ext s"
  obtains s' ws where "packet_path_step R S wg t s = Some s'" "path_ok R view wg ext s'"
    "view (snd (snd s')) = wave_put wg ws (view (snd (snd s)))"
    "\<And>rest. \<exists>bs. pio_stream (ws @ rest) = bs @ pio_stream rest \<and> (\<forall>b\<in>set bs. 1 < length b \<and> xor_bytes b = 0)"
proof -
  obtain pl pq p where s: "s = (pl, pq, p)" by (metis prod_cases3)
  have own: "owns R ext (pl, pq)" "no_twins (pl, pq)" "pool_short pl" "wg_on wg (view p)"
    using assms(4) by (simp_all add: path_ok_def s)
  show thesis
  proof (cases t)
    case Queue_Turn
    let ?n = "Suc (length (queue_items R (input_queue pq)))"
    obtain pl1 pq1 where d: "drain_input R ?n (pl, pq) = Some (pl1, pq1)" "owns R ext (pl1, pq1)" "no_twins (pl1, pq1)"
      by (rule drain_owned [OF assms(1) own(1,2), of ?n]) auto
    obtain pl2 pq2 where e: "dispatch R (pl1, pq1) = (pl2, pq2)" by (metis surj_pair)
    have "pool_short pl2" using dispatch_short [OF d(2) drain_short [OF d(1) own(3)]] by (simp add: e)
    moreover have "owns R ext (pl2, pq2) \<and> no_twins (pl2, pq2)" using dispatch_owned [OF assms(1) d(2,3)] by (simp add: e)
    ultimately show ?thesis using own(4) d(1)
      by (intro that [of "(pl2, pq2, p)" "[]"])
        (simp_all add: packet_path_step_def Queue_Turn s task_priority_queue_def e path_ok_def exI [of _ "[]"])
  next
    case Wave_Turn
    show ?thesis
    proof (cases "xQueueReceive R (pq_output_queue pq)")
      case None
      then show ?thesis using assms(4)
        by (intro that [of s "[]"]) (simp_all add: packet_path_step_def Wave_Turn s task_wavegen_turn_def exI [of _ "[]"])
    next
      case (Some r)
      obtain k q where r: "r = (k, q)" by (cases r)
      have "k \<in> pool_used pl" using own(1) fifo_receive [OF assms(1) Some [unfolded r]] by (auto simp: owns_def held_by_def)
      then have k: "pkt_shape (pl ! k)" using own(1) by (auto simp: owns_def pool_used_def pool_wf_def)
      from wave_turn_owned [OF assms(1-3) assms(4) [unfolded s] Some [unfolded r]] obtain pl' p' ws where
        w: "task_wavegen_turn R S wg (pq_output_queue pq, pl, p) = Some (q, pl', p')"
          "path_ok R view wg ext (pl', pq\<lparr>pq_output_queue := q\<rparr>, p')" "view p' = wave_put wg ws (view p)"
          "\<And>rest. pio_stream (ws @ rest) = heard (pl ! k) @ pio_stream rest" by metis
      show ?thesis
      proof (rule that)
        show "packet_path_step R S wg t s = Some (pl', pq\<lparr>pq_output_queue := q\<rparr>, p')"
          by (simp add: packet_path_step_def Wave_Turn s w(1))
        show "\<exists>bs. pio_stream (ws @ rest) = bs @ pio_stream rest \<and> (\<forall>b\<in>set bs. 1 < length b \<and> xor_bytes b = 0)" for rest
          using heard_whole [OF k] by (intro exI [of _ "heard (pl ! k)"]) (auto simp: w(4))
      qed (use w in \<open>simp_all add: s\<close>)
    qed
  qed
qed

text \<open>
  C25: The packets on their way to the rails. The priority queue's task and the wave generator's
  task take turns in any order on the shared pool: neither is ever stuck, every packet in use
  stays with exactly one owner and goes back to the pool once, and all that the state machine
  reads is whole packets, each closed by the checksum that makes its exclusive or zero.
\<close>

theorem packet_path_owned:
  assumes "fifo_queue R" and "pio_ok S view" and "fifo_drains S view" and "path_ok R view wg ext s"
  shows "\<exists>s' ws. packet_path R S wg ts s = Some s' \<and> path_ok R view wg ext s' \<and>
    view (snd (snd s')) = wave_put wg ws (view (snd (snd s))) \<and> (\<forall>bs\<in>set (pio_stream ws). 1 < length bs \<and> xor_bytes bs = 0)"
  using assms(4)
proof (induction ts arbitrary: s)
  case (Cons t ts)
  from path_step_owned [OF assms(1-3) Cons.prems, of t] obtain s1 ws where
    1: "packet_path_step R S wg t s = Some s1" "path_ok R view wg ext s1"
      "view (snd (snd s1)) = wave_put wg ws (view (snd (snd s)))"
      "\<And>rest. \<exists>bs. pio_stream (ws @ rest) = bs @ pio_stream rest \<and> (\<forall>b\<in>set bs. 1 < length b \<and> xor_bytes b = 0)" by metis
  from Cons.IH [OF 1(2)] obtain s2 us where
    2: "packet_path R S wg ts s1 = Some s2" "path_ok R view wg ext s2"
      "view (snd (snd s2)) = wave_put wg us (view (snd (snd s1)))" "\<forall>bs\<in>set (pio_stream us). 1 < length bs \<and> xor_bytes bs = 0" by blast
  have "\<forall>bs\<in>set (pio_stream (ws @ us)). 1 < length bs \<and> xor_bytes bs = 0"
    using 1(4) [of us] 2(4) by auto
  then show ?case using 1 2 by (intro exI [of _ s2] exI [of _ "ws @ us"]) simp
qed (auto intro!: exI [of _ "[]"])

section \<open>A small PIO\<close>

text \<open>One that behaves as documented: a program per block, four state machines, a FIFO that never fills.\<close>

definition small_pio :: "pio_view pio_sdk" where
  "small_pio = \<lparr>
     can_add_program = (\<lambda>b pr v. \<forall>x\<in>loaded v. fst x \<noteq> b),
     add_program = (\<lambda>b pr v. (0, v\<lparr>loaded := insert (b, pr, 0) (loaded v)\<rparr>)),
     remove_program = (\<lambda>b pr off v. v\<lparr>loaded := loaded v - {(b, pr, off)}\<rparr>),
     claim_unused_sm = (\<lambda>b v. case find (\<lambda>sm. (b, sm) \<notin> claimed v) [0..<4] of
        None \<Rightarrow> None | Some sm \<Rightarrow> Some (sm, v\<lparr>claimed := insert (b, sm) (claimed v)\<rparr>)),
     sm_unclaim = (\<lambda>b sm v. v\<lparr>claimed := claimed v - {(b, sm)}\<rparr>),
     program_init = (\<lambda>pr b sm off pin v. v\<lparr>running := running v - {(b, sm)}\<rparr>),
     sm_set_enabled = (\<lambda>b sm on v. v\<lparr>running := (if on then insert (b, sm) (running v) else running v - {(b, sm)})\<rparr>),
     sm_is_tx_fifo_full = (\<lambda>b sm v. False),
     sm_put = (\<lambda>b sm w v. v\<lparr>put := (put v)((b, sm) := put v (b, sm) @ [w])\<rparr>),
     task_delay = (\<lambda>n v. v)\<rparr>"

lemma small_pio_ok: "pio_ok small_pio (\<lambda>v. v)" "fifo_drains small_pio (\<lambda>v. v)" "empty_block_serves small_pio (\<lambda>v. v)"
proof -
  show "pio_ok small_pio (\<lambda>v. v)"
    by (auto simp: pio_ok_def small_pio_def find_Some_iff split: option.splits)
  show "fifo_drains small_pio (\<lambda>v. v)" by (simp add: fifo_drains_def small_pio_def)
  show "empty_block_serves small_pio (\<lambda>v. v)"
    by (force simp: empty_block_serves_def small_pio_def find_None_iff split: option.splits)
qed

definition lit_wavegen :: wavegen where
  "lit_wavegen = \<lparr>wave_pio = PIO0, wave_sm = 0, wave_offset = 0, cutout_pio = PIO1, cutout_sm = 0, cutout_offset = 0,
     wg_mode = WAVEGEN_NORMAL, initialized = True\<rparr>"

definition lit_view :: pio_view where
  "lit_view = \<lparr>loaded = {(PIO0, Wavegen_Program, 0), (PIO1, Cutout_Program, 0), (PIO2, Wavegen_Servicemode_Program, 0)},
     claimed = {(PIO0, 0), (PIO1, 0), (PIO2, 0)}, running = {(PIO0, 0), (PIO1, 0)}, put = (\<lambda>_. [])\<rparr>"

lemma lit_on: "wg_on lit_wavegen lit_view"
  by (simp add: wg_on_def lit_wavegen_def lit_view_def wg_programs_def wg_machines_def)

theorem wavegen_reinit_keeps_chip_witness:
  "\<exists>wg' v'. reinit_all small_pio [(WAVEGEN_NO_CUTOUT, 14, 15), (WAVEGEN_NORMAL, 14, 15)] (lit_wavegen, lit_view) = Some (wg', v') \<and>
     wg_on wg' v' \<and> wg_mode wg' = WAVEGEN_NORMAL \<and> others wg' v' = others lit_wavegen lit_view"
proof -
  have "\<forall>x\<in>loaded (others lit_wavegen lit_view). fst x = PIO2" "\<forall>x\<in>claimed (others lit_wavegen lit_view). fst x = PIO2"
    "running lit_view \<subseteq> claimed lit_view"
    by (auto simp: others_def lit_wavegen_def lit_view_def wg_programs_def wg_machines_def)
  from wavegen_reinit_keeps_chip [OF small_pio_ok(1,3) lit_on this, of "[(WAVEGEN_NO_CUTOUT, 14, 15), (WAVEGEN_NORMAL, 14, 15)]"]
  show ?thesis by simp
qed

text \<open>An idle packet in the output queue.\<close>

definition idle_path :: "pool \<times> pkt_ptr list priority_queue \<times> pio_view" where
  "idle_path = (packet_pool_init[0 := (packet_make_idle zero_packet)\<lparr>pkt_in_use := True\<rparr>], pqueue_init [] [0], lit_view)"

lemma idle_path_ok: "path_ok (bounded_queue 16) (\<lambda>v. v) lit_wavegen {} idle_path"
proof -
  let ?p = "(packet_make_idle zero_packet)\<lparr>pkt_in_use := True\<rparr>"
  have p: "pkt_shape ?p" "pkt_len ?p < MAX_PACKET_DATA"
    by (simp_all add: packet_make_idle_def packet_fill_def zero_packet_def Let_def pkt_shape_def)
  have queues: "input_queue (pqueue_init a b) = a" "pq_output_queue (pqueue_init a b) = b" for a b :: "nat list"
    by (simp_all add: pqueue_init_def)
  have l: "0 < length packet_pool_init" by (simp add: packet_pool_init_def PACKET_POOL_SIZE_def)
  have "pool_short packet_pool_init" by (simp add: pool_short_def packet_pool_init_def zero_packet_def)
  then have "pool_short (packet_pool_init[0 := ?p])" by (rule pool_short_update) (rule p(2))
  then show ?thesis using lit_on packet_pool_init_wf p(1) l
    by (auto simp: path_ok_def idle_path_def owns_def no_twins_def held_by_def bounded_queue_def pool_used_update
        queues intro!: pool_wf_update)
qed

theorem packet_path_owned_witness:
  "\<exists>s' ws. packet_path (bounded_queue 16) small_pio lit_wavegen [Queue_Turn, Wave_Turn, Wave_Turn] idle_path = Some s' \<and>
     path_ok (bounded_queue 16) (\<lambda>v. v) lit_wavegen {} s' \<and>
     snd (snd s') = wave_put lit_wavegen ws lit_view \<and> (\<forall>bs\<in>set (pio_stream ws). 1 < length bs \<and> xor_bytes bs = 0)"
  using packet_path_owned [OF bounded_queue_fifo small_pio_ok(1,2) idle_path_ok, of "[Queue_Turn, Wave_Turn, Wave_Turn]"]
  by (simp add: idle_path_def)

lemma wavegen_drains:
  assumes "fifo_queue R" and "pio_ok S view" and "fifo_drains S view" and "path_ok R view wg ext (pl, pq, p)"
  shows "\<exists>q' pl' p' ws. task_wavegen R S wg (length (queue_items R (pq_output_queue pq))) (pq_output_queue pq, pl, p) =
      Some (q', pl', p') \<and> queue_items R q' = [] \<and> view p' = wave_put wg ws (view p) \<and>
    pio_stream ws = concat (map (\<lambda>k. heard (pl ! k)) (queue_items R (pq_output_queue pq))) \<and>
    pool_used pl' = pool_used pl - set (queue_items R (pq_output_queue pq)) \<and> (\<forall>k\<in>pool_used pl'. pl' ! k = pl ! k)"
  using assms(4)
proof (induction "queue_items R (pq_output_queue pq)" arbitrary: pq pl p)
  case Nil
  then show ?case by (auto intro!: exI [of _ "[]"])
next
  case (Cons k ks)
  obtain q where r: "xQueueReceive R (pq_output_queue pq) = Some (k, q)" and q: "queue_items R q = ks"
    using Cons.hyps(2) assms(1) by (cases "xQueueReceive R (pq_output_queue pq)") (auto simp: fifo_queue_def)
  let ?pq = "pq\<lparr>pq_output_queue := q\<rparr>"
  obtain pl1 p1 ws where 1: "task_wavegen_turn R S wg (pq_output_queue pq, pl, p) = Some (q, pl1, p1)"
    "path_ok R view wg ext (pl1, ?pq, p1)" "view p1 = wave_put wg ws (view p)"
    "\<And>rest. pio_stream (ws @ rest) = heard (pl ! k) @ pio_stream rest" "\<And>j. j \<noteq> k \<Longrightarrow> pl1 ! j = pl ! j"
    and used: "pool_used pl1 = pool_used pl - {k}"
    using wave_turn_owned [OF assms(1-3) Cons.prems r] by metis
  have "distinct (k # ks)" using Cons.prems by (simp add: path_ok_def owns_def held_by_def flip: Cons.hyps(2))
  then have k: "k \<notin> set ks" by simp
  have oq: "pq_output_queue ?pq = q" by simp
  then have "ks = queue_items R (pq_output_queue ?pq)" by (simp add: q)
  note IH = Cons.hyps(1) [OF this 1(2)]
  obtain q' pl' p' us where 2: "task_wavegen R S wg (length ks) (q, pl1, p1) = Some (q', pl', p')" "queue_items R q' = []"
    "view p' = wave_put wg us (view p1)" "pio_stream us = concat (map (\<lambda>k. heard (pl1 ! k)) ks)"
    "pool_used pl' = pool_used pl1 - set ks" "\<forall>k\<in>pool_used pl'. pl' ! k = pl1 ! k"
    using IH unfolding oq q by blast
  have "map (\<lambda>k. heard (pl1 ! k)) ks = map (\<lambda>k. heard (pl ! k)) ks" 
  proof (rule map_cong [OF refl])
    fix j assume "j \<in> set ks"
    then have "j \<noteq> k" using k by auto
    then show "heard (pl1 ! j) = heard (pl ! j)" by (simp add: 1(5))
  qed
  then have stream: "pio_stream (ws @ us) = concat (map (\<lambda>k. heard (pl ! k)) (k # ks))" by (simp add: 1(4) 2(4) cong: map_cong)
  have t: "task_wavegen R S wg (length (k # ks)) (pq_output_queue pq, pl, p) = Some (q', pl', p')" using 1(1) 2(1) by simp
  have v: "view p' = wave_put wg (ws @ us) (view p)" by (simp add: 2(3) 1(3))
  have u: "pool_used pl' = pool_used pl - set (k # ks)" using used 2(5) by auto
  have o: "\<forall>j\<in>pool_used pl'. pl' ! j = pl ! j" using 2(5,6) used 1(5) by auto
  show ?case unfolding Cons.hyps(2) [symmetric] using t v u o stream 2(2) by blast
qed

text \<open>
  C26: What the rails hear. A turn of the wave generator's task for every packet of its queue:
  the queue is empty, the state machine has read exactly the bytes of those packets, in the
  queue's order and each with its checksum, empty packets left out, and every one of them is
  free again while the packets of everyone else are as they were.
\<close>

theorem wavegen_plays_queue:
  assumes "fifo_queue R" and "pio_ok S view" and "fifo_drains S view" and "path_ok R view wg ext (pl, pq, p)"
    and "ks = queue_items R (pq_output_queue pq)"
  shows "\<exists>q' pl' p' ws. task_wavegen R S wg (length ks) (pq_output_queue pq, pl, p) = Some (q', pl', p') \<and>
    queue_items R q' = [] \<and> view p' = wave_put wg ws (view p) \<and> pio_stream ws = concat (map (\<lambda>k. heard (pl ! k)) ks) \<and>
    pool_used pl' = pool_used pl - set ks \<and> (\<forall>k\<in>pool_used pl'. pl' ! k = pl ! k)"
  using wavegen_drains [OF assms(1-4)] unfolding assms(5) .

theorem wavegen_plays_queue_witness:
  "\<exists>q' pl' v' ws. task_wavegen (bounded_queue 16) small_pio lit_wavegen 1 ([0], fst idle_path, lit_view) = Some (q', pl', v') \<and>
     q' = [] \<and> v' = wave_put lit_wavegen ws lit_view \<and> pio_stream ws = [[0xFF, 0x00, 0xFF]] \<and> pool_used pl' = {}"
proof -
  obtain pl pq where s: "idle_path = (pl, pq, lit_view)" by (simp add: idle_path_def)
  have q: "pq_output_queue pq = [0]" using s by (auto simp: idle_path_def pqueue_init_def)
  have ks: "[0] = queue_items (bounded_queue 16) (pq_output_queue pq)" by (simp add: q bounded_queue_def)
  have "packet_pool_init \<noteq> []" by (simp add: packet_pool_init_def PACKET_POOL_SIZE_def)
  then have h: "heard (pl ! 0) = [[0xFF, 0x00, 0xFF]]" "pool_used pl = {0}"
    using s packet_pool_init_wf by (auto simp: idle_path_def heard_def packet_make_idle_def packet_fill_def zero_packet_def
        Let_def xor_bytes_def pool_used_update)
  from wavegen_plays_queue [OF bounded_queue_fifo small_pio_ok(1,2) idle_path_ok [unfolded s] ks] show ?thesis
    by (simp add: h q s bounded_queue_def) blast
qed

end
