(* ===== verification/Railcom_Decode.thy ===== *)
theory Railcom_Decode
  imports Prelude
begin

text \<open>
  RailCom decoding: \<^verbatim>\<open>src/src/railcom/railcom_decode.h\<close> and \<^verbatim>\<open>railcom_decode.c\<close>. The
  4-of-8 code table, the 12-bit datagrams and the search for a POM answer in channel 2;
  then that the code is exactly 4-of-8, the round trip of the datagrams, and an exact
  description of what the search finds.
\<close>

section \<open>The 4-of-8 code\<close>

definition RAILCOM_INV :: u8 where "RAILCOM_INV = 0xFF"
definition RAILCOM_ACK :: u8 where "RAILCOM_ACK = 0xFE"
definition RAILCOM_NACK :: u8 where "RAILCOM_NACK = 0xFD"
definition RAILCOM_BUSY :: u8 where "RAILCOM_BUSY = 0xFC"
definition RAILCOM_RSV :: u8 where "RAILCOM_RSV = 0xFB"

definition RAILCOM_ID_POM :: u8 where "RAILCOM_ID_POM = 0"
definition RAILCOM_ID_ADR_HIGH :: u8 where "RAILCOM_ID_ADR_HIGH = 1"
definition RAILCOM_ID_ADR_LOW :: u8 where "RAILCOM_ID_ADR_LOW = 2"
definition RAILCOM_ID_EXT :: u8 where "RAILCOM_ID_EXT = 3"
definition RAILCOM_ID_DYN :: u8 where "RAILCOM_ID_DYN = 7"

lemmas railcom_codes =
  RAILCOM_INV_def RAILCOM_ACK_def RAILCOM_NACK_def RAILCOM_BUSY_def RAILCOM_RSV_def
  RAILCOM_ID_POM_def RAILCOM_ID_ADR_HIGH_def RAILCOM_ID_ADR_LOW_def RAILCOM_ID_EXT_def RAILCOM_ID_DYN_def

definition decode_table :: "u8 list" where
  "decode_table = (let INV = RAILCOM_INV; ACK = RAILCOM_ACK; NACK = RAILCOM_NACK;
                       BUSY = RAILCOM_BUSY; RSV = RAILCOM_RSV in
    [INV, INV, INV, INV, INV, INV, INV, INV, INV, INV, INV, INV, INV, INV, INV, ACK,
     INV, INV, INV, INV, INV, INV, INV, 0x33, INV, INV, INV, 0x34, INV, 0x35, 0x36, INV,
     INV, INV, INV, INV, INV, INV, INV, 0x3A, INV, INV, INV, 0x3B, INV, 0x3C, 0x37, INV,
     INV, INV, INV, 0x3F, INV, 0x3D, 0x38, INV, INV, 0x3E, 0x39, INV, NACK, INV, INV, INV,
     INV, INV, INV, INV, INV, INV, INV, 0x24, INV, INV, INV, 0x23, INV, 0x22, 0x21, INV,
     INV, INV, INV, 0x1F, INV, 0x1E, 0x20, INV, INV, 0x1D, 0x1C, INV, 0x1B, INV, INV, INV,
     INV, INV, INV, 0x19, INV, 0x18, 0x1A, INV, INV, 0x17, 0x16, INV, 0x15, INV, INV, INV,
     INV, 0x25, 0x14, INV, 0x13, INV, INV, INV, 0x32, INV, INV, INV, INV, INV, INV, INV,
     INV, INV, INV, INV, INV, INV, INV, RSV, INV, INV, INV, 0x0E, INV, 0x0D, 0x0C, INV,
     INV, INV, INV, 0x0A, INV, 0x09, 0x0B, INV, INV, 0x08, 0x07, INV, 0x06, INV, INV, INV,
     INV, INV, INV, 0x04, INV, 0x03, 0x05, INV, INV, 0x02, 0x01, INV, 0x00, INV, INV, INV,
     INV, 0x0F, 0x10, INV, 0x11, INV, INV, INV, 0x12, INV, INV, INV, INV, INV, INV, INV,
     INV, INV, INV, RSV, INV, 0x2B, 0x30, INV, INV, 0x2A, 0x2F, INV, 0x31, INV, INV, INV,
     INV, 0x29, 0x2E, INV, 0x2D, INV, INV, INV, 0x2C, INV, INV, INV, INV, INV, INV, INV,
     INV, BUSY, 0x28, INV, 0x27, INV, INV, INV, 0x26, INV, INV, INV, INV, INV, INV, INV,
     ACK, INV, INV, INV, INV, INV, INV, INV, INV, INV, INV, INV, INV, INV, INV, INV])"

definition railcom_decode_byte :: "u8 \<Rightarrow> u8" where
  "railcom_decode_byte raw = decode_table ! unat raw"

text \<open>\<open>None\<close> is the result false; the two out parameters are the pair.\<close>

definition railcom_decode12 :: "u8 list \<Rightarrow> (u8 \<times> u8) option" where
  "railcom_decode12 raw =
     (let hi = railcom_decode_byte (raw ! 0);
          lo = railcom_decode_byte (raw ! 1)
      in if hi \<ge> 64 \<or> lo \<ge> 64 then None
         else Some (shr hi 2, shl (hi AND 0x03) 6 OR lo))"

definition datagram_len :: "u8 \<Rightarrow> u8" where
  "datagram_len ident =
     (if ident = RAILCOM_ID_POM \<or> ident = RAILCOM_ID_ADR_HIGH \<or> ident = RAILCOM_ID_ADR_LOW then 2
      else if ident = RAILCOM_ID_EXT \<or> ident = RAILCOM_ID_DYN then 3
      else if ident = 8 \<or> ident = 9 \<or> ident = 10 \<or> ident = 11 then 6
      else 0)"

section \<open>Looking for the answer to a POM read\<close>

datatype railcom_pom = RAILCOM_POM_NONE | RAILCOM_POM_VALUE | RAILCOM_POM_BUSY | RAILCOM_POM_OTHER

text \<open>
  The loop of \<open>railcom_parse_pom\<close>: the position \<open>i\<close>, the \<open>busy\<close> flag and the out parameter
  \<open>value\<close>. Positions are natural numbers: \<open>i + n \<le> len \<le> 255\<close> whenever the cast back to
  a byte happens, so it keeps the value.
\<close>

function parse_pom_loop :: "u8 list \<Rightarrow> nat \<Rightarrow> bool \<Rightarrow> nat \<Rightarrow> u8 \<Rightarrow> railcom_pom \<times> u8" where
  "parse_pom_loop ch2 len busy i value =
     (let finish = (if busy then RAILCOM_POM_BUSY else RAILCOM_POM_OTHER, value);
          d = railcom_decode_byte (ch2 ! i);
          ident = shr d 2;
          n = unat (datagram_len ident)
      in if \<not> i < len then finish
         else if d = RAILCOM_ACK \<or> d = RAILCOM_NACK then parse_pom_loop ch2 len busy (i + 1) value
         else if d = RAILCOM_BUSY then parse_pom_loop ch2 len True (i + 1) value
         else if d \<ge> 64 then finish
         else if n = 0 \<or> i + n > len then finish
         else case (if ident = RAILCOM_ID_POM then railcom_decode12 (drop i ch2) else None) of
                Some (dg_id, payload) \<Rightarrow> (RAILCOM_POM_VALUE, payload)
              | None \<Rightarrow> parse_pom_loop ch2 len busy (i + n) value)"
  by pat_completeness auto
termination
  by (relation "measure (\<lambda>(ch2, len, busy, i, value). len - i)") (auto simp: Let_def split: if_splits)

declare parse_pom_loop.simps [simp del]

definition railcom_parse_pom :: "u8 list \<Rightarrow> u8 \<Rightarrow> u8 \<Rightarrow> railcom_pom \<times> u8" where
  "railcom_parse_pom ch2 len value =
     (if len = 0 then (RAILCOM_POM_NONE, value) else parse_pom_loop ch2 (unat len) False 0 value)"

section \<open>The code is 4-of-8, and complete\<close>

definition ones :: "u8 \<Rightarrow> nat" where
  "ones b = length (filter (\<lambda>i. bit b i) [0..<8])"

lemma decode_table_length: "length decode_table = 256"
  by (simp add: decode_table_def Let_def)

lemma code_check:
  "list_all (\<lambda>(b, d). (d = RAILCOM_INV) = (ones b \<noteq> 4)) (zip (map word_of_int [0..255]) decode_table)"
  by code_simp

text \<open>The other side: the byte a decoder sends for each value of six bits.\<close>

definition code_table :: "u8 list" where
  "code_table =
    [0xAC, 0xAA, 0xA9, 0xA5, 0xA3, 0xA6, 0x9C, 0x9A,
     0x99, 0x95, 0x93, 0x96, 0x8E, 0x8D, 0x8B, 0xB1,
     0xB2, 0xB4, 0xB8, 0x74, 0x72, 0x6C, 0x6A, 0x69,
     0x65, 0x63, 0x66, 0x5C, 0x5A, 0x59, 0x55, 0x53,
     0x56, 0x4E, 0x4D, 0x4B, 0x47, 0x71, 0xE8, 0xE4,
     0xE2, 0xD1, 0xC9, 0xC5, 0xD8, 0xD4, 0xD2, 0xCA,
     0xC6, 0xCC, 0x78, 0x17, 0x1B, 0x1D, 0x1E, 0x2E,
     0x36, 0x3A, 0x27, 0x2B, 0x2D, 0x35, 0x39, 0x33]"

definition code_of :: "u8 \<Rightarrow> u8" where
  "code_of v = code_table ! unat v"

lemma code_table_length: "length code_table = 64"
  by (simp add: code_table_def)

lemma code_of_check:
  "map (\<lambda>c. decode_table ! unat c) code_table = map word_of_int [0..63]"
  by code_simp

lemma code_unique_check:
  "list_all (\<lambda>(b, d). d < 64 \<longrightarrow> code_table ! unat d = b) (zip (map word_of_int [0..255]) decode_table)"
  by code_simp

lemma all_bytes: "(b :: u8) \<in> set (map word_of_int [0..255])"
proof -
  have "uint b < 2 ^ 8" using uint_lt2p [of b] by simp
  then have "uint b \<in> set [0..255]" by simp
  then have "(word_of_int (uint b) :: u8) \<in> word_of_int ` set [0..255]" by (rule imageI)
  then show ?thesis by (simp only: set_map word_of_int_uint)
qed

lemma zip_bytes:
  "zip (map word_of_int [0..255]) decode_table =
   map (\<lambda>b. (b, railcom_decode_byte b)) (map word_of_int [0..255] :: u8 list)"
proof (rule nth_equalityI)
  have l: "length [0..255 :: int] = 256" by simp
  show "length (zip (map word_of_int [0..255]) decode_table) =
      length (map (\<lambda>b. (b, railcom_decode_byte b)) (map word_of_int [0..255] :: u8 list))"
    by (simp add: decode_table_length)
  fix i assume "i < length (zip (map word_of_int [0..255] :: u8 list) decode_table)"
  then have i: "i < 256" by (simp add: decode_table_length)
  have "unat (word_of_int (int i) :: u8) = i" using i by (simp add: unat_of_nat_less)
  with i show "zip (map word_of_int [0..255]) decode_table ! i =
      map (\<lambda>b. (b, railcom_decode_byte b)) (map word_of_int [0..255] :: u8 list) ! i"
    by (simp add: decode_table_length railcom_decode_byte_def)
qed

lemma decode_INV_iff: "railcom_decode_byte b = RAILCOM_INV \<longleftrightarrow> ones b \<noteq> 4"
  using code_check all_bytes [of b] unfolding zip_bytes list_all_iff by fastforce

lemma code_of_decode: "railcom_decode_byte b < 64 \<Longrightarrow> code_of (railcom_decode_byte b) = b"
  using code_unique_check all_bytes [of b] unfolding zip_bytes list_all_iff code_of_def by fastforce

lemma decode_code_of:
  assumes "v < 64"
  shows "railcom_decode_byte (code_of v) = v"
proof -
  have v: "unat v < 64" using assms by (simp add: word_less_nat_alt)
  have "map (\<lambda>c. decode_table ! unat c) code_table ! unat v = map word_of_int [0..63] ! unat v"
    by (simp only: code_of_check)
  moreover have "[0..63] ! unat v = int (unat v)" using v by (subst nth_upto) linarith+
  ultimately show ?thesis
    using v by (simp add: code_table_length railcom_decode_byte_def code_of_def del: uint_nat)
qed

lemma special_codes:
  "\<not> RAILCOM_ACK < 64" "\<not> RAILCOM_NACK < 64" "\<not> RAILCOM_BUSY < 64" "\<not> RAILCOM_INV < 64"
  "RAILCOM_ACK \<noteq> RAILCOM_BUSY" "RAILCOM_NACK \<noteq> RAILCOM_BUSY"
  by (simp_all add: railcom_codes)

text \<open>A 12-bit datagram as a decoder sends it.\<close>

definition encode12 :: "u8 \<Rightarrow> u8 \<Rightarrow> u8 list" where
  "encode12 ident payload =
     [code_of (shl ident 2 OR shr payload 6), code_of (payload AND 0x3F)]"

lemma bits_less_64: "(\<And>n. 6 \<le> n \<Longrightarrow> \<not> bit v n) \<Longrightarrow> v < 64" for v :: u8
proof -
  assume b: "\<And>n. 6 \<le> n \<Longrightarrow> \<not> bit v n"
  have "take_bit 6 v = v" by (rule bit_eqI) (use b not_le in \<open>auto simp: bit_take_bit_iff\<close>)
  then have "v < 2 ^ 6" using and_mask_less' [of 6 v] by (simp add: take_bit_eq_mask)
  then show ?thesis by simp
qed

text \<open>
  The 12-bit datagrams of RailCom. Whatever ID (four bits) and payload a decoder
  encodes, \<open>railcom_decode12\<close> reads them back; and it accepts no pair of bytes but the one
  the encoding of its result has. A byte is rejected as invalid exactly when it does not
  have four of its eight bits set.
\<close>

theorem datagram_roundtrip:
  "(ident < 16 \<longrightarrow> railcom_decode12 (encode12 ident payload @ rest) = Some (ident, payload)) \<and>
   (railcom_decode12 (a # b # rest) = Some (ident, payload) \<longrightarrow> [a, b] = encode12 ident payload) \<and>
   (railcom_decode_byte a = RAILCOM_INV \<longleftrightarrow> ones a \<noteq> 4)"
proof (intro conjI impI)
  assume "ident < 16"
  then have "ident < 2 ^ 4" by simp
  then have i: "\<not> bit ident n" if "4 \<le> n" for n using that by (rule bit_above_bound)
  have hi: "shl ident 2 OR shr payload 6 < 64"
    by (rule bits_less_64) (use i in \<open>auto simp: bit_simps dest: bit_imp_le_length\<close>)
  have lo: "payload AND 0x3F < 64"
    by (rule bits_less_64) (auto simp: bit_simps numeral_eq_Suc elim!: less_SucE)
  have "shr (shl ident 2 OR shr payload 6) 2 = ident"
    using i by (simp add: word_bits_simps)
  moreover have "shl ((shl ident 2 OR shr payload 6) AND 0x03) 6 OR payload AND 0x3F = payload"
    by (simp add: word_bits_simps)
  ultimately show "railcom_decode12 (encode12 ident payload @ rest) = Some (ident, payload)"
    using hi lo by (simp add: railcom_decode12_def encode12_def decode_code_of not_le Let_def)
next
  assume d: "railcom_decode12 (a # b # rest) = Some (ident, payload)"
  let ?h = "railcom_decode_byte a" and ?l = "railcom_decode_byte b"
  have lt: "?h < 64" "?l < 64" and i: "ident = shr ?h 2" and p: "payload = shl (?h AND 0x03) 6 OR ?l"
    using d by (auto simp: railcom_decode12_def Let_def split: if_splits)
  have "?l < 2 ^ 6" "?h < 2 ^ 6" using lt by simp_all
  then have bits: "6 \<le> n \<Longrightarrow> \<not> bit ?l n" "6 \<le> n \<Longrightarrow> \<not> bit ?h n" for n using bit_above_bound by blast+
  have "shl ident 2 OR shr payload 6 = ?h" "payload AND 0x3F = ?l"
    unfolding i p using bits by (simp_all add: word_bits_simps)
  then show "[a, b] = encode12 ident payload"
    using lt by (simp add: encode12_def code_of_decode)
qed (rule decode_INV_iff)

section \<open>What \<open>railcom_parse_pom\<close> finds\<close>

text \<open>
  One item of channel 2 the search steps over: an ACK, NACK or BUSY byte, or a datagram of
  known length that is not a readable POM datagram.
\<close>

definition skipped :: "u8 list \<Rightarrow> bool" where
  "skipped bs \<longleftrightarrow> bs \<noteq> [] \<and>
     (let d = railcom_decode_byte (hd bs)
      in if d = RAILCOM_ACK \<or> d = RAILCOM_NACK \<or> d = RAILCOM_BUSY then length bs = 1
         else d < 64 \<and> length bs = unat (datagram_len (shr d 2)) \<and>
              (shr d 2 = RAILCOM_ID_POM \<longrightarrow> railcom_decode12 bs = None))"

lemma datagram_len_two: "datagram_len i = 0 \<or> 2 \<le> unat (datagram_len i)"
  by (simp add: datagram_len_def)

lemma railcom_decode12_take: "2 \<le> n \<Longrightarrow> railcom_decode12 (take n bs) = railcom_decode12 bs"
  by (simp add: railcom_decode12_def)

text \<open>The loop on the bytes still to read.\<close>

function search_pom :: "u8 list \<Rightarrow> u8 option" where
  "search_pom bs =
     (if bs = [] then None
      else let d = railcom_decode_byte (hd bs); n = unat (datagram_len (shr d 2))
           in if d = RAILCOM_ACK \<or> d = RAILCOM_NACK \<or> d = RAILCOM_BUSY then search_pom (tl bs)
              else if d \<ge> 64 \<or> n = 0 \<or> n > length bs then None
              else case (if shr d 2 = RAILCOM_ID_POM then railcom_decode12 bs else None) of
                     Some (i, payload) \<Rightarrow> Some payload
                   | None \<Rightarrow> search_pom (drop n bs))"
  by pat_completeness auto
termination by (relation "measure length") (auto simp: Let_def)

declare search_pom.simps [simp del]

lemma parse_pom_loop_search:
  assumes "len \<le> length ch2" and "i \<le> len"
  shows "case search_pom (drop i (take len ch2)) of
           Some v \<Rightarrow> parse_pom_loop ch2 len busy i value = (RAILCOM_POM_VALUE, v)
         | None \<Rightarrow> fst (parse_pom_loop ch2 len busy i value) \<noteq> RAILCOM_POM_VALUE \<and>
                   snd (parse_pom_loop ch2 len busy i value) = value"
  using assms
proof (induction "len - i" arbitrary: i busy rule: less_induct)
  case less
  define bs where bs_def: "bs = drop i (take len ch2)"
  have "case search_pom bs of
           Some v \<Rightarrow> parse_pom_loop ch2 len busy i value = (RAILCOM_POM_VALUE, v)
         | None \<Rightarrow> fst (parse_pom_loop ch2 len busy i value) \<noteq> RAILCOM_POM_VALUE \<and>
                   snd (parse_pom_loop ch2 len busy i value) = value"
  proof (cases "i < len")
    case False
    then have "bs = []" by (simp add: bs_def)
    moreover have "parse_pom_loop ch2 len busy i value =
        (if busy then RAILCOM_POM_BUSY else RAILCOM_POM_OTHER, value)"
      using False by (subst parse_pom_loop.simps) (simp add: Let_def)
    ultimately show ?thesis by (simp add: search_pom.simps [of "[]"])
  next
    case True
    define d where "d = railcom_decode_byte (ch2 ! i)"
    define n where "n = unat (datagram_len (shr d 2))"
    have bs: "bs \<noteq> []" "hd bs = ch2 ! i" "tl bs = drop (i + 1) (take len ch2)" "length bs = len - i"
      "drop n bs = drop (i + n) (take len ch2)"
      using True less.prems by (auto simp: bs_def hd_drop_conv_nth drop_Suc tl_drop add.commute)
    have over: "n > len - i \<longleftrightarrow> i + n > len" using True by auto
    have dec: "railcom_decode12 bs = railcom_decode12 (drop i ch2)" if "i + n \<le> len" "n \<noteq> 0"
    proof -
      have "2 \<le> len - i" using that datagram_len_two [of "shr d 2"] by (auto simp: n_def)
      then show ?thesis using railcom_decode12_take [of "len - i" "drop i ch2"] by (simp add: bs_def drop_take)
    qed
    have S: "search_pom bs =
        (if d = RAILCOM_ACK \<or> d = RAILCOM_NACK \<or> d = RAILCOM_BUSY then search_pom (drop (i + 1) (take len ch2))
         else if d \<ge> 64 \<or> n = 0 \<or> i + n > len then None
         else case (if shr d 2 = RAILCOM_ID_POM then railcom_decode12 (drop i ch2) else None) of
                Some (x, payload) \<Rightarrow> Some payload
              | None \<Rightarrow> search_pom (drop (i + n) (take len ch2)))"
    proof -
      have "search_pom bs =
        (if d = RAILCOM_ACK \<or> d = RAILCOM_NACK \<or> d = RAILCOM_BUSY then search_pom (tl bs)
         else if d \<ge> 64 \<or> n = 0 \<or> n > length bs then None
         else case (if shr d 2 = RAILCOM_ID_POM then railcom_decode12 bs else None) of
                Some (x, payload) \<Rightarrow> Some payload
              | None \<Rightarrow> search_pom (drop n bs))"
        unfolding d_def n_def bs(2) [symmetric] by (subst search_pom.simps) (simp add: bs(1) Let_def)
      then show ?thesis
        unfolding bs(3-5) over using dec by (cases "i + n \<le> len \<and> n \<noteq> 0") auto
    qed
    have P: "parse_pom_loop ch2 len busy i value =
        (if d = RAILCOM_ACK \<or> d = RAILCOM_NACK then parse_pom_loop ch2 len busy (i + 1) value
         else if d = RAILCOM_BUSY then parse_pom_loop ch2 len True (i + 1) value
         else if d \<ge> 64 \<or> n = 0 \<or> i + n > len
              then (if busy then RAILCOM_POM_BUSY else RAILCOM_POM_OTHER, value)
         else case (if shr d 2 = RAILCOM_ID_POM then railcom_decode12 (drop i ch2) else None) of
                Some (x, payload) \<Rightarrow> (RAILCOM_POM_VALUE, payload)
              | None \<Rightarrow> parse_pom_loop ch2 len busy (i + n) value)"
      unfolding d_def n_def by (subst parse_pom_loop.simps) (simp add: True Let_def)
    note step = less.hyps [of "i + 1"] and skip = less.hyps [of "i + n"]
    show ?thesis
    proof (cases "d = RAILCOM_ACK \<or> d = RAILCOM_NACK \<or> d = RAILCOM_BUSY")
      case True
      then show ?thesis
        unfolding S P using \<open>i < len\<close> less.prems step [of busy] step [of True] special_codes(5,6) by auto
    next
      case nf: False
      show ?thesis
      proof (cases "d \<ge> 64 \<or> n = 0 \<or> i + n > len")
        case True
        with nf show ?thesis unfolding S P by simp
      next
        case False
        then have "len - (i + n) < len - i" "i + n \<le> len" using \<open>i < len\<close> by auto
        from skip [OF this(1) less.prems(1) this(2), of busy] False nf show ?thesis
          unfolding S P by (auto split: option.splits)
      qed
    qed
  qed
  then show ?case by (simp only: bs_def)
qed

lemma search_pom_sound:
  "search_pom bs = Some v \<Longrightarrow> \<exists>items a b rest. (\<forall>x\<in>set items. skipped x) \<and>
     bs = concat items @ a # b # rest \<and> railcom_decode12 [a, b] = Some (RAILCOM_ID_POM, v)"
proof (induction bs rule: search_pom.induct)
  case (1 bs)
  define d where "d = railcom_decode_byte (hd bs)"
  define n where "n = unat (datagram_len (shr d 2))"
  have ne: "bs \<noteq> []" using "1.prems" by (auto simp: search_pom.simps [of "[]"])
  then obtain b0 bt where cons: "bs = b0 # bt" by (cases bs) auto
  have S: "search_pom bs =
      (if d = RAILCOM_ACK \<or> d = RAILCOM_NACK \<or> d = RAILCOM_BUSY then search_pom (tl bs)
       else if d \<ge> 64 \<or> n = 0 \<or> n > length bs then None
       else case (if shr d 2 = RAILCOM_ID_POM then railcom_decode12 bs else None) of
              Some (x, payload) \<Rightarrow> Some payload
            | None \<Rightarrow> search_pom (drop n bs))"
    unfolding d_def n_def by (subst search_pom.simps) (simp add: ne Let_def)
  show ?case
  proof (cases "d = RAILCOM_ACK \<or> d = RAILCOM_NACK \<or> d = RAILCOM_BUSY")
    case True
    then have "search_pom (tl bs) = Some v"
      using "1.prems" by (simp add: S)
    from "1.IH" (1) [OF ne d_def n_def True this] obtain items a b rest where
      "\<forall>x\<in>set items. skipped x" "tl bs = concat items @ a # b # rest"
      "railcom_decode12 [a, b] = Some (RAILCOM_ID_POM, v)" by auto
    moreover have "skipped [b0]" using True by (auto simp: skipped_def d_def cons)
    ultimately show ?thesis using cons
      by (intro exI [of _ "[b0] # items"] exI [of _ a] exI [of _ b] exI [of _ rest]) simp
  next
    case nf: False
    have lt: "d < 64" "n \<noteq> 0" "n \<le> length bs"
      using "1.prems" nf unfolding S by (auto simp: not_le not_less split: if_splits)
    then have nle: "\<not> 64 \<le> d" by simp
    have two: "2 \<le> n" using lt(2) datagram_len_two [of "shr d 2"] by (auto simp: n_def)
    show ?thesis
    proof (cases "if shr d 2 = RAILCOM_ID_POM then railcom_decode12 bs else None")
      case (Some r)
      obtain x p where r: "r = (x, p)" by (cases r)
      have pom: "shr d 2 = RAILCOM_ID_POM" "railcom_decode12 bs = Some (x, p)"
        using Some r by (simp_all split: if_splits)
      have "v = p"
        using "1.prems" nf lt nle Some r unfolding S by simp
      moreover have "x = RAILCOM_ID_POM"
        using pom cons by (auto simp: railcom_decode12_def Let_def d_def split: if_splits)
      moreover obtain b1 bu where "bt = b1 # bu" using two lt(3) cons by (cases bt) auto
      ultimately show ?thesis
        using pom cons by (intro exI [of _ "[]"] exI [of _ b0] exI [of _ b1] exI [of _ bu])
          (simp add: railcom_decode12_def)
    next
      case None
      then have "search_pom (drop n bs) = Some v"
        using "1.prems" nf lt nle None unfolding S by simp
      from "1.IH"(2) [OF ne d_def n_def nf _ None this] lt nle obtain items a b rest where
        it: "\<forall>x\<in>set items. skipped x" "drop n bs = concat items @ a # b # rest"
        "railcom_decode12 [a, b] = Some (RAILCOM_ID_POM, v)" by auto
      have "hd (take n bs) = hd bs" using two ne by (cases bs) (auto simp: take_Cons')
      then have "skipped (take n bs)"
        using None nf lt two ne railcom_decode12_take [OF two, of bs]
        by (auto simp: skipped_def Let_def d_def n_def split: if_splits)
      then show ?thesis
        using it by (intro exI [of _ "take n bs # items"] exI [of _ a] exI [of _ b] exI [of _ rest])
          (simp, metis append_take_drop_id)
    qed
  qed
qed

lemma search_pom_complete:
  assumes "\<forall>x\<in>set items. skipped x" and "railcom_decode12 [a, b] = Some (RAILCOM_ID_POM, v)"
  shows "search_pom (concat items @ a # b # rest) = Some v"
  using assms(1)
proof (induction items)
  case Nil
  have d: "railcom_decode_byte a < 64" "shr (railcom_decode_byte a) 2 = RAILCOM_ID_POM"
    using assms(2) by (auto simp: railcom_decode12_def Let_def split: if_splits)
  have "railcom_decode12 (a # b # rest) = Some (RAILCOM_ID_POM, v)"
    using assms(2) by (simp add: railcom_decode12_def)
  moreover have "datagram_len RAILCOM_ID_POM = 2" by (simp add: datagram_len_def)
  ultimately show ?case
    using d special_codes by (subst search_pom.simps) (auto simp: Let_def not_le)
next
  case (Cons x items)
  let ?rest = "concat items @ a # b # rest"
  have x: "skipped x" and IH: "search_pom ?rest = Some v" using Cons by simp_all
  define d where "d = railcom_decode_byte (hd x)"
  define n where "n = unat (datagram_len (shr d 2))"
  have ne: "x \<noteq> []" using x by (simp add: skipped_def)
  have S: "search_pom (x @ ?rest) =
      (if d = RAILCOM_ACK \<or> d = RAILCOM_NACK \<or> d = RAILCOM_BUSY then search_pom (tl x @ ?rest)
       else if d \<ge> 64 \<or> n = 0 \<or> n > length (x @ ?rest) then None
       else case (if shr d 2 = RAILCOM_ID_POM then railcom_decode12 (x @ ?rest) else None) of
              Some (y, payload) \<Rightarrow> Some payload
            | None \<Rightarrow> search_pom (drop n (x @ ?rest)))"
    unfolding d_def n_def by (subst search_pom.simps) (simp add: ne Let_def)
  show ?case
  proof (cases "d = RAILCOM_ACK \<or> d = RAILCOM_NACK \<or> d = RAILCOM_BUSY")
    case True
    then have "tl x = []" using x by (auto simp: skipped_def d_def Let_def length_Suc_conv)
    with True S IH show ?thesis by simp
  next
    case False
    then have l: "d < 64" "length x = n" "shr d 2 = RAILCOM_ID_POM \<Longrightarrow> railcom_decode12 x = None"
      using x by (auto simp: skipped_def d_def n_def Let_def)
    have two: "2 \<le> n" using l(2) ne datagram_len_two [of "shr d 2"] by (auto simp: n_def)
    have "railcom_decode12 (x @ ?rest) = railcom_decode12 x"
      using railcom_decode12_take [OF two, of "x @ ?rest"] l(2) by simp
    with False S IH l two show ?thesis by (auto simp: not_le)
  qed
qed

text \<open>
  C20: The answer to a POM read is found exactly when it is there. \<open>railcom_parse_pom\<close>
  returns a value \<open>v\<close> if and only if channel 2 is made of ACK, NACK or BUSY bytes and
  whole datagrams of known length, in any number and order, and then a POM datagram that
  reads as \<open>v\<close>; what follows does not matter. In every other case \<open>*value\<close> is untouched.
\<close>

theorem parse_pom_exact:
  assumes "unat len \<le> length ch2"
  shows "(railcom_parse_pom ch2 len value = (RAILCOM_POM_VALUE, v) \<longleftrightarrow>
           (\<exists>items a b rest. (\<forall>x\<in>set items. skipped x) \<and>
              take (unat len) ch2 = concat items @ a # b # rest \<and>
              railcom_decode12 [a, b] = Some (RAILCOM_ID_POM, v))) \<and>
         (fst (railcom_parse_pom ch2 len value) = RAILCOM_POM_VALUE \<or>
          snd (railcom_parse_pom ch2 len value) = value)"
proof -
  have found: "search_pom (take (unat len) ch2) = Some w \<longleftrightarrow>
      (\<exists>items a b rest. (\<forall>x\<in>set items. skipped x) \<and>
        take (unat len) ch2 = concat items @ a # b # rest \<and>
        railcom_decode12 [a, b] = Some (RAILCOM_ID_POM, w))" for w
    using search_pom_sound search_pom_complete by (metis (no_types, lifting))
  have loop: "case search_pom (take (unat len) ch2) of
       Some v \<Rightarrow> railcom_parse_pom ch2 len value = (RAILCOM_POM_VALUE, v)
     | None \<Rightarrow> fst (railcom_parse_pom ch2 len value) \<noteq> RAILCOM_POM_VALUE \<and>
               snd (railcom_parse_pom ch2 len value) = value"
  proof (cases "len = 0")
    case True
    then show ?thesis by (simp add: railcom_parse_pom_def search_pom.simps [of "[]"])
  next
    case False
    then show ?thesis
      using parse_pom_loop_search [OF assms, of 0 False "value"] by (simp add: railcom_parse_pom_def split: option.splits)
  qed
  show ?thesis
    unfolding found [symmetric] using loop by (auto split: option.splits)
qed

theorem parse_pom_exact_witness:
  "railcom_parse_pom [0x0F, 0xE1, 0x99, 0xA3, 0xAC, 0x9A, 0, 0] 6 0 = (RAILCOM_POM_VALUE, 0x07) \<longleftrightarrow>
   (\<exists>items a b rest. (\<forall>x\<in>set items. skipped x) \<and>
      [0x0F, 0xE1, 0x99, 0xA3, 0xAC, 0x9A] = concat items @ a # b # rest \<and>
      railcom_decode12 [a, b] = Some (RAILCOM_ID_POM, 0x07))"
  using parse_pom_exact [of 6 "[0x0F, 0xE1, 0x99, 0xA3, 0xAC, 0x9A, 0, 0]" 0 "0x07"] by simp

end
