(* ===== verification/Railcom.thy ===== *)
theory Railcom
  imports Railcom_Decode Dcc
begin

text \<open>
  The RailCom receiver: \<^verbatim>\<open>src/src/railcom/railcom.h\<close>, \<^verbatim>\<open>railcom.c\<close>, \<^verbatim>\<open>pom_read.h\<close> and
  \<^verbatim>\<open>pom_read.c\<close>. The state machine of one POM read, the cutout interrupt with its ring,
  the channel 1 address watch and the task that runs the reads.

  The UART, the PIO and the clock are arguments: what they hold or show when the code looks.
  The interrupt and the task share \<open>railcom_state\<close>; each of them is one step, which is how
  the single-producer single-consumer ring and the atomic flags make them behave.
\<close>

section \<open>A POM read: \<open>pom_read.c\<close>\<close>

definition POM_READ_COPIES :: u8 where "POM_READ_COPIES = 2"
definition POM_READ_ATTEMPT_MS :: u32 where "POM_READ_ATTEMPT_MS = 250"
definition POM_READ_ATTEMPTS :: u8 where "POM_READ_ATTEMPTS = 4"

definition RAILCOM_CH1_MAX :: nat where "RAILCOM_CH1_MAX = 4"
definition RAILCOM_CH2_MAX :: nat where "RAILCOM_CH2_MAX = 8"

record railcom_cutout =
  cut_packet :: u32
  ch1_len :: u8
  ch2_len :: u8
  ch1 :: "u8 list"
  ch2 :: "u8 list"

datatype pom_read_step = POM_READ_WAIT | POM_READ_SEND | POM_READ_DONE | POM_READ_FAILED

record pom_read =
  pr_packet :: u32
  sent_ms :: u32
  attempts :: u8
  answers :: u8
  pr_done :: bool
  pr_value :: u8

text \<open>
  \<open>packet_encode\<close> has a result for every packet of at most five bytes; the read packets
  have four or five (\<open>pom_read_start_word\<close>).
\<close>

definition pom_read_start :: "dcc_packet \<Rightarrow> pom_read" where
  "pom_read_start pkt =
     \<lparr>pr_packet = (case packet_encode pkt of Some (_, w # ws) \<Rightarrow> w | _ \<Rightarrow> 0),
      sent_ms = 0, attempts = 0, answers = 0, pr_done = False, pr_value = 0\<rparr>"

definition pom_read_cutout :: "railcom_cutout \<Rightarrow> pom_read \<Rightarrow> pom_read_step \<times> pom_read" where
  "pom_read_cutout c r =
     (if pr_done r then (POM_READ_DONE, r)
      else if attempts r = 0 \<or> cut_packet c \<noteq> pr_packet r then (POM_READ_WAIT, r)
      else case railcom_parse_pom (ch2 c) (ch2_len c) 0 of
             (RAILCOM_POM_VALUE, v) \<Rightarrow> (POM_READ_DONE, r\<lparr>pr_done := True, pr_value := v\<rparr>)
           | _ \<Rightarrow> (POM_READ_WAIT,
                   if answers r < POM_READ_COPIES then r\<lparr>answers := answers r + 1\<rparr> else r))"

definition pom_read_poll :: "u32 \<Rightarrow> pom_read \<Rightarrow> pom_read_step \<times> pom_read" where
  "pom_read_poll now_ms r =
     (if pr_done r then (POM_READ_DONE, r)
      else let next = (attempts r = 0 \<or> answers r \<ge> POM_READ_COPIES \<or>
                       now_ms - sent_ms r \<ge> POM_READ_ATTEMPT_MS)
           in if \<not> next then (POM_READ_WAIT, r)
              else if attempts r \<ge> POM_READ_ATTEMPTS then (POM_READ_FAILED, r)
              else (POM_READ_SEND, r\<lparr>attempts := attempts r + 1, answers := 0, sent_ms := now_ms\<rparr>))"

section \<open>The receiver: \<open>railcom.c\<close>\<close>

definition RING_SIZE :: nat where "RING_SIZE = 16"
definition ADDRESS_REPEATS :: u8 where "ADDRESS_REPEATS = 3"

record pom_request =
  req_address :: u16
  req_is_long :: bool
  req_cv :: u16

record railcom_state =
  g_task :: bool
  g_cur :: railcom_cutout
  g_ring :: "railcom_cutout list"
  g_head :: u32
  g_tail :: u32
  g_cutouts :: u32
  g_dropped :: u32
  g_uart_errors :: u32
  g_ch1_bytes :: u32
  g_ch2_bytes :: u32
  g_req :: pom_request
  g_req_pending :: bool
  g_busy :: bool
  task_read :: pom_read
  task_reading :: bool
  adr_high :: int
  adr_low :: int
  adr_seen :: u8
  adr_logged :: u16

text \<open>
  \<open>drain\<close> empties the UART's FIFO: \<open>fifo\<close> are the data register words it finds there,
  \<open>errs\<close> is the SDK's mask of the framing, break and overrun bits. The first \<open>cap\<close> bytes
  overwrite the start of \<open>buf\<close>; the result is the new buffer, the number of bytes kept and
  the error count.
\<close>

definition drain_byte :: "u32 \<Rightarrow> u32 \<Rightarrow> u8" where
  "drain_byte errs dr = (if dr AND errs \<noteq> 0 then 0 else u8_of dr)"

fun drain :: "u32 \<Rightarrow> u32 list \<Rightarrow> nat \<Rightarrow> u8 list \<Rightarrow> nat \<Rightarrow> u32 \<Rightarrow> u8 list \<times> nat \<times> u32" where
  "drain errs [] cap buf n errors = (buf, n, errors)"
| "drain errs (dr # fifo) cap buf n errors =
     (let errors = (if dr AND errs \<noteq> 0 then errors + 1 else errors)
      in if n < cap then drain errs fifo cap (buf[n := drain_byte errs dr]) (n + 1) errors
         else drain errs fifo cap buf n errors)"

text \<open>The wake-up of the task by \<open>irq_set_pending\<close> has no state.\<close>

definition push_cutout :: "railcom_state \<Rightarrow> railcom_state" where
  "push_cutout s =
     (let head = g_head s
      in if head - g_tail s \<ge> word_of_nat RING_SIZE then s\<lparr>g_dropped := g_dropped s + 1\<rparr>
         else s\<lparr>g_ring := (g_ring s)[unat head mod RING_SIZE := g_cur s], g_head := head + 1\<rparr>)"

text \<open>
  The cutout interrupt. \<open>flags\<close> is the PIO's flag register; \<open>pio_words\<close> the words in the
  wave generator's RX FIFO (read only in normal mode, \<open>wave_normal\<close>); \<open>fifo0\<close>, \<open>fifo1\<close>,
  \<open>fifo2\<close> what the UART holds at each of the three drains.
\<close>

definition isr_start :: "bool \<Rightarrow> u32 list \<Rightarrow> u32 \<Rightarrow> u32 list \<Rightarrow> railcom_state \<Rightarrow> railcom_state" where
  "isr_start wave_normal pio_words errs fifo0 s =
     (let word = (if wave_normal then (if pio_words = [] then 0 else last pio_words) else 0);
          s = s\<lparr>g_cutouts := g_cutouts s + 1,
                g_cur := (g_cur s)\<lparr>cut_packet := word, ch1_len := 0, ch2_len := 0\<rparr>\<rparr>;
          (_, _, errors) = drain errs fifo0 0 [] 0 (g_uart_errors s)
      in s\<lparr>g_uart_errors := errors\<rparr>)"

definition isr_ch1 :: "u32 \<Rightarrow> u32 list \<Rightarrow> railcom_state \<Rightarrow> railcom_state" where
  "isr_ch1 errs fifo1 s =
     (case drain errs fifo1 RAILCOM_CH1_MAX (ch1 (g_cur s)) 0 (g_uart_errors s) of
        (buf, n, errors) \<Rightarrow>
          s\<lparr>g_cur := (g_cur s)\<lparr>ch1 := buf, ch1_len := word_of_nat n\<rparr>,
            g_ch1_bytes := g_ch1_bytes s + word_of_nat n, g_uart_errors := errors\<rparr>)"

definition isr_end :: "u32 \<Rightarrow> u32 list \<Rightarrow> railcom_state \<Rightarrow> railcom_state" where
  "isr_end errs fifo2 s =
     (case drain errs fifo2 RAILCOM_CH2_MAX (ch2 (g_cur s)) 0 (g_uart_errors s) of
        (buf, n, errors) \<Rightarrow>
          (let s = s\<lparr>g_cur := (g_cur s)\<lparr>ch2 := buf, ch2_len := word_of_nat n\<rparr>,
                     g_ch2_bytes := g_ch2_bytes s + word_of_nat n, g_uart_errors := errors\<rparr>
           in if ch1_len (g_cur s) \<noteq> 0 \<or> ch2_len (g_cur s) \<noteq> 0 then push_cutout s else s))"

definition cutout_isr ::
  "u32 \<Rightarrow> bool \<Rightarrow> u32 list \<Rightarrow> u32 \<Rightarrow> u32 list \<Rightarrow> u32 list \<Rightarrow> u32 list \<Rightarrow> railcom_state \<Rightarrow> railcom_state" where
  "cutout_isr flags wave_normal pio_words errs fifo0 fifo1 fifo2 s =
     (let s = (if flags AND 1 \<noteq> 0 then isr_start wave_normal pio_words errs fifo0 s else s);
          s = (if flags AND 2 \<noteq> 0 then isr_ch1 errs fifo1 s else s)
      in if flags AND 4 \<noteq> 0 then isr_end errs fifo2 s else s)"

definition ring_pop :: "railcom_state \<Rightarrow> (railcom_cutout \<times> railcom_state) option" where
  "ring_pop s =
     (let tail = g_tail s
      in if tail = g_head s then None
         else Some (g_ring s ! (unat tail mod RING_SIZE), s\<lparr>g_tail := tail + 1\<rparr>))"

datatype railcom_result = RAILCOM_READ_STARTED | RAILCOM_READ_BUSY | RAILCOM_READ_OFF

text \<open>\<open>wave_normal\<close>: the wave generator is initialised and in normal mode; \<open>has_done\<close>: the
  caller passed a callback.\<close>

definition railcom_pom_read ::
  "bool \<Rightarrow> bool \<Rightarrow> u16 \<Rightarrow> bool \<Rightarrow> u16 \<Rightarrow> railcom_state \<Rightarrow> railcom_result \<times> railcom_state" where
  "railcom_pom_read wave_normal has_done address is_long cv s =
     (if \<not> g_task s \<or> \<not> has_done \<or> \<not> wave_normal then (RAILCOM_READ_OFF, s)
      else if g_busy s then (RAILCOM_READ_BUSY, s)
      else (RAILCOM_READ_STARTED,
            s\<lparr>g_busy := True, g_req := \<lparr>req_address = address, req_is_long = is_long, req_cv = cv\<rparr>,
              g_req_pending := True\<rparr>))"

text \<open>
  Channel 1. The result has the address to print, if this cutout settled one: the value and
  whether it is long.
\<close>

definition watch_address :: "railcom_cutout \<Rightarrow> railcom_state \<Rightarrow> (u16 \<times> bool) option \<times> railcom_state" where
  "watch_address c s =
     (if ch1_len c \<noteq> 2 then (None, s)
      else case railcom_decode12 (ch1 c) of
        None \<Rightarrow> (None, s)
      | Some (ident, payload) \<Rightarrow>
          (if ident \<noteq> RAILCOM_ID_ADR_HIGH \<and> ident \<noteq> RAILCOM_ID_ADR_LOW then (None, s)
           else let part = (if ident = RAILCOM_ID_ADR_HIGH then adr_high s else adr_low s)
           in if part \<noteq> uint payload
              then (None, (if ident = RAILCOM_ID_ADR_HIGH then s\<lparr>adr_high := uint payload\<rparr>
                           else s\<lparr>adr_low := uint payload\<rparr>)\<lparr>adr_seen := 0\<rparr>)
              else let s = (if adr_seen s < ADDRESS_REPEATS then s\<lparr>adr_seen := adr_seen s + 1\<rparr> else s)
              in if adr_high s < 0 \<or> adr_low s < 0 \<or> adr_seen s < ADDRESS_REPEATS then (None, s)
                 else let raw = shl (word_of_int (adr_high s)) 8 OR word_of_int (adr_low s) :: u16
                 in if raw = adr_logged s then (None, s)
                    else (Some (raw AND 0x3FFF, (word_of_int (adr_high s) :: u16) AND 0x80 \<noteq> 0),
                          s\<lparr>adr_logged := raw\<rparr>)))"

section \<open>The task\<close>

text \<open>
  What a turn of \<open>task_railcom\<close> does to the outside: it asks the DCC engine for a read
  packet, or runs the \<open>done\<close> callback of the request.
\<close>

datatype railcom_effect = Dcc_Pom_Read_Byte u16 bool u16 int | Pom_Done bool u8

lemma watch_address_ring [simp]:
  "g_head (snd (watch_address c s)) = g_head s" "g_tail (snd (watch_address c s)) = g_tail s"
  "g_ring (snd (watch_address c s)) = g_ring s" "task_reading (snd (watch_address c s)) = task_reading s"
  "task_read (snd (watch_address c s)) = task_read s" "g_req_pending (snd (watch_address c s)) = g_req_pending s"
  "g_busy (snd (watch_address c s)) = g_busy s" "g_req (snd (watch_address c s)) = g_req s"
  "g_task (snd (watch_address c s)) = g_task s"
proof -
  let ?core = "\<lambda>s. s\<lparr>adr_high := 0, adr_low := 0, adr_seen := 0, adr_logged := 0\<rparr>"
  have e: "?core (snd (watch_address c s)) = ?core s"
    by (simp add: watch_address_def Let_def split: option.split)
  show "g_head (snd (watch_address c s)) = g_head s" "g_tail (snd (watch_address c s)) = g_tail s"
    "g_ring (snd (watch_address c s)) = g_ring s" "task_reading (snd (watch_address c s)) = task_reading s"
    "task_read (snd (watch_address c s)) = task_read s" "g_req_pending (snd (watch_address c s)) = g_req_pending s"
    "g_busy (snd (watch_address c s)) = g_busy s" "g_req (snd (watch_address c s)) = g_req s"
    "g_task (snd (watch_address c s)) = g_task s"
    using arg_cong [OF e, of g_head] arg_cong [OF e, of g_tail] arg_cong [OF e, of g_ring] arg_cong [OF e, of task_reading]
      arg_cong [OF e, of task_read] arg_cong [OF e, of g_req_pending] arg_cong [OF e, of g_busy] arg_cong [OF e, of g_req]
      arg_cong [OF e, of g_task] by simp_all
qed

lemma ring_pop_decreases:
  assumes "ring_pop s = Some (c, s')"
  shows "unat (g_head s' - g_tail s') < unat (g_head s - g_tail s)"
proof -
  have ne: "g_tail s \<noteq> g_head s" and s': "g_head s' = g_head s" "g_tail s' = g_tail s + 1"
    using assms by (auto simp: ring_pop_def Let_def split: if_splits)
  have "g_head s - g_tail s \<noteq> 0" using ne by simp
  moreover have "g_head s' - g_tail s' = (g_head s - g_tail s) - 1" by (simp add: s')
  ultimately show ?thesis by (metis measure_unat)
qed

text \<open>The \<open>while (ring_pop (&c))\<close> loop: every cutout in the ring, oldest first.\<close>

function ring_loop :: "railcom_state \<Rightarrow> railcom_state" where
  "ring_loop s =
     (case ring_pop s of
        None \<Rightarrow> s
      | Some (c, s') \<Rightarrow>
          (let s' = snd (watch_address c s')
           in ring_loop (if task_reading s'
                         then s'\<lparr>task_read := snd (pom_read_cutout c (task_read s'))\<rparr> else s')))"
  by pat_completeness auto
termination
  by (relation "measure (\<lambda>s. unat (g_head s - g_tail s))") (auto dest: ring_pop_decreases)

declare ring_loop.simps [simp del]

text \<open>
  One turn, after the wake-up; \<open>now\<close> is the time. The packet the read starts from is a local
  variable the builder fills from the start; its fields before that do not matter.
\<close>

definition take_request :: "railcom_state \<Rightarrow> railcom_state" where
  "take_request s =
     (if g_req_pending s
      then s\<lparr>g_req_pending := False,
             task_read := pom_read_start (packet_build_pom_read_byte (req_address (g_req s))
               (req_is_long (g_req s)) (req_cv (g_req s)) (uint POM_READ_COPIES - 1) zero_packet),
             task_reading := True\<rparr>
      else s)"

definition poll_read :: "u32 \<Rightarrow> railcom_state \<Rightarrow> railcom_effect list \<times> railcom_state" where
  "poll_read now s =
     (if \<not> task_reading s then ([], s)
      else case pom_read_poll now (task_read s) of
        (step, r) \<Rightarrow>
          (let s = s\<lparr>task_read := r\<rparr>
           in case step of
                POM_READ_SEND \<Rightarrow>
                  ([Dcc_Pom_Read_Byte (req_address (g_req s)) (req_is_long (g_req s))
                      (req_cv (g_req s)) (uint POM_READ_COPIES - 1)], s)
              | POM_READ_DONE \<Rightarrow>
                  ([Pom_Done True (pr_value r)], s\<lparr>task_reading := False, g_busy := False\<rparr>)
              | POM_READ_FAILED \<Rightarrow>
                  ([Pom_Done False 0], s\<lparr>task_reading := False, g_busy := False\<rparr>)
              | POM_READ_WAIT \<Rightarrow> ([], s)))"

definition task_railcom :: "u32 \<Rightarrow> railcom_state \<Rightarrow> railcom_effect list \<times> railcom_state" where
  "task_railcom now s = poll_read now (ring_loop (take_request s))"

section \<open>The ring is a bounded queue\<close>

text \<open>
  The contract of a queue with a capacity: what is pushed comes out in order, a push into a
  full queue leaves the contents alone.
\<close>

locale bounded_fifo =
  fixes push :: "'s \<Rightarrow> 's" and pop :: "'s \<Rightarrow> ('x \<times> 's) option"
    and contents :: "'s \<Rightarrow> 'x list" and item :: "'s \<Rightarrow> 'x" and ok :: "'s \<Rightarrow> bool" and depth :: nat
  assumes push_law: "ok s \<Longrightarrow> ok (push s) \<and>
      contents (push s) = (if length (contents s) < depth then contents s @ [item s] else contents s)"
    and pop_None: "ok s \<Longrightarrow> pop s = None \<longleftrightarrow> contents s = []"
    and pop_Some: "ok s \<Longrightarrow> pop s = Some (x, s') \<Longrightarrow> ok s' \<and> contents s = x # contents s'"
begin

text \<open>Popping until nothing is left gives the contents, oldest first.\<close>

primrec pop_n :: "nat \<Rightarrow> 's \<Rightarrow> 'x list" where
  "pop_n 0 s = []"
| "pop_n (Suc n) s = (case pop s of None \<Rightarrow> [] | Some (x, s') \<Rightarrow> x # pop_n n s')"

lemma pop_n_contents: "ok s \<Longrightarrow> length (contents s) \<le> n \<Longrightarrow> pop_n n s = contents s"
proof (induction n arbitrary: s)
  case (Suc n)
  show ?case
  proof (cases "pop s")
    case None
    then show ?thesis using pop_None [OF Suc.prems(1)] by simp
  next
    case (Some r)
    obtain x s' where r: "r = (x, s')" by (cases r)
    from pop_Some [OF Suc.prems(1) Some [unfolded r]] have "ok s'" "contents s = x # contents s'" by blast+
    with Suc.IH [of s'] Suc.prems(2) Some r show ?thesis by simp
  qed
qed simp

end

definition ring_ok :: "railcom_state \<Rightarrow> bool" where
  "ring_ok s \<longleftrightarrow> length (g_ring s) = RING_SIZE \<and> unat (g_head s - g_tail s) \<le> RING_SIZE"

definition ring_contents :: "railcom_state \<Rightarrow> railcom_cutout list" where
  "ring_contents s = map (\<lambda>k. g_ring s ! ((unat (g_tail s) + k) mod RING_SIZE)) [0..<unat (g_head s - g_tail s)]"

lemma slot_mod: "unat (w + word_of_nat k :: u32) mod 16 = (unat w + k) mod 16"
proof -
  have "unat (w + word_of_nat k) = (unat w + k) mod 2 ^ 32"
    by (simp add: unat_word_ariths unsigned_of_nat take_bit_eq_mod mod_simps)
  moreover have "(m mod 2 ^ 32) mod 16 = m mod 16" for m :: nat
    by (rule mod_mod_cancel) simp
  ultimately show ?thesis by simp
qed

lemma head_slot: "unat (g_head s) mod RING_SIZE = (unat (g_tail s) + unat (g_head s - g_tail s)) mod RING_SIZE"
  using slot_mod [of "g_tail s" "unat (g_head s - g_tail s)"] by (simp add: RING_SIZE_def)

lemma unat_succ_less:
  assumes "unat (w :: u32) < 2 ^ 31"
  shows "unat (w + 1) = unat w + 1"
  using assms by (simp add: unat_word_ariths)

lemma push_cutout_ring:
  assumes "ring_ok s"
  shows "ring_ok (push_cutout s)"
    and "ring_contents (push_cutout s) =
      (if length (ring_contents s) < RING_SIZE then ring_contents s @ [g_cur s] else ring_contents s)"
proof -
  define n where "n = unat (g_head s - g_tail s)"
  have len: "length (g_ring s) = 16" and n: "n \<le> 16" using assms by (simp_all add: ring_ok_def RING_SIZE_def n_def)
  have full: "g_head s - g_tail s \<ge> word_of_nat RING_SIZE \<longleftrightarrow> n \<ge> 16"
    by (simp add: word_le_nat_alt RING_SIZE_def n_def)
  have "ring_ok (push_cutout s) \<and> ring_contents (push_cutout s) =
      (if n < 16 then ring_contents s @ [g_cur s] else ring_contents s)"
  proof (cases "n < 16")
    case False
    with full assms show ?thesis
      by (simp add: push_cutout_def Let_def ring_ok_def ring_contents_def)
  next
    case True
    let ?s = "push_cutout s"
    have s: "g_ring ?s = (g_ring s)[(unat (g_tail s) + n) mod 16 := g_cur s]" "g_head ?s = g_head s + 1"
      "g_tail ?s = g_tail s"
      using True full head_slot [of s] by (simp_all add: push_cutout_def Let_def n_def RING_SIZE_def)
    have d: "unat (g_head ?s - g_tail ?s) = Suc n"
    proof -
      have "g_head ?s - g_tail ?s = (g_head s - g_tail s) + 1" by (simp add: s)
      then show ?thesis using unat_succ_less [of "g_head s - g_tail s"] True by (simp add: n_def)
    qed
    have "(unat (g_tail s) + n) mod 16 \<noteq> (unat (g_tail s) + k) mod 16" if "k < n" for k
    proof
      assume "(unat (g_tail s) + n) mod 16 = (unat (g_tail s) + k) mod 16"
      then have "(unat (g_tail s) + k) mod 16 = (unat (g_tail s) + k + (n - k)) mod 16" using that by (metis add.assoc le_add_diff_inverse less_imp_le)
      then have "(n - k) mod 16 = 0" by (metis add.commute add_diff_cancel_right' mod_eq_dvd_iff_nat dvd_eq_mod_eq_0 le_add1)
      then show False using that True by simp
    qed
    then have "map (\<lambda>k. g_ring ?s ! ((unat (g_tail s) + k) mod 16)) [0..<n] =
        map (\<lambda>k. g_ring s ! ((unat (g_tail s) + k) mod 16)) [0..<n]"
      by (intro map_cong) (simp_all add: s)
    then have "ring_contents ?s = ring_contents s @ [g_cur s]"
      using len unfolding ring_contents_def d by (simp add: s n_def RING_SIZE_def)
    moreover have "ring_ok ?s" using d True len s(1) by (simp add: ring_ok_def RING_SIZE_def)
    ultimately show ?thesis using True by simp
  qed
  then show "ring_ok (push_cutout s)" "ring_contents (push_cutout s) =
      (if length (ring_contents s) < RING_SIZE then ring_contents s @ [g_cur s] else ring_contents s)"
    by (simp_all add: ring_contents_def n_def RING_SIZE_def)
qed

lemma ring_pop_None: "ring_pop s = None \<longleftrightarrow> ring_contents s = []"
  by (auto simp: ring_pop_def ring_contents_def Let_def unat_eq_0)

lemma ring_pop_Some:
  assumes "ring_ok s" and "ring_pop s = Some (c, s')"
  shows "ring_ok s'" and "ring_contents s = c # ring_contents s'"
proof -
  have ne: "g_tail s \<noteq> g_head s" and c: "c = g_ring s ! (unat (g_tail s) mod 16)"
    and s': "s' = s\<lparr>g_tail := g_tail s + 1\<rparr>"
    using assms(2) by (auto simp: ring_pop_def Let_def RING_SIZE_def split: if_splits)
  have d: "unat (g_head s - g_tail s) = Suc (unat (g_head s' - g_tail s'))"
  proof -
    have nz: "unat (g_head s - g_tail s) \<noteq> 0" using ne by (simp add: unat_eq_0)
    have "g_head s' - g_tail s' = (g_head s - g_tail s) - 1" by (simp add: s')
    then have "unat (g_head s' - g_tail s') = unat (g_head s - g_tail s) - 1"
      using ne by (metis nz unat_eq_zero unat_minus_one)
    with nz show ?thesis by simp
  qed
  show "ring_ok s'" using assms(1) d by (simp add: ring_ok_def s')
  have "(unat (g_tail s') + k) mod 16 = (unat (g_tail s) + Suc k) mod 16" for k
  proof -
    have "unat (g_tail s') mod 16 = (unat (g_tail s) + 1) mod 16"
      using slot_mod [of "g_tail s" 1] by (simp add: s')
    then show ?thesis by (metis add_Suc_right add_Suc_shift mod_add_left_eq Suc_eq_plus1)
  qed
  then show "ring_contents s = c # ring_contents s'"
    unfolding ring_contents_def d by (simp add: upt_rec [of 0] map_Suc_upt [symmetric] c s' RING_SIZE_def
        del: upt_Suc)
qed

interpretation ring: bounded_fifo push_cutout ring_pop ring_contents g_cur ring_ok RING_SIZE
  by unfold_locales (use push_cutout_ring ring_pop_None ring_pop_Some in blast)+

lemma ring_ok_cong [simp]:
  "ring_ok (s\<lparr>g_cur := c\<rparr>) = ring_ok s" "ring_ok (s\<lparr>g_uart_errors := e\<rparr>) = ring_ok s"
  "ring_ok (s\<lparr>g_cutouts := e\<rparr>) = ring_ok s" "ring_ok (s\<lparr>g_ch1_bytes := e\<rparr>) = ring_ok s"
  "ring_ok (s\<lparr>g_ch2_bytes := e\<rparr>) = ring_ok s"
  by (simp_all add: ring_ok_def)

section \<open>Requests, interrupts and turns of the task\<close>

datatype railcom_event =
  Pom_Request bool bool u16 bool u16
| Cutout_Isr u32 bool "u32 list" u32 "u32 list" "u32 list" "u32 list"
| Task_Turn u32

datatype railcom_out = Started | Effect railcom_effect

fun railcom_event_step :: "railcom_event \<Rightarrow> railcom_state \<Rightarrow> railcom_out list \<times> railcom_state" where
  "railcom_event_step (Pom_Request wave has_done a l cv) s =
     (case railcom_pom_read wave has_done a l cv s of
        (RAILCOM_READ_STARTED, s) \<Rightarrow> ([Started], s) | (_, s) \<Rightarrow> ([], s))"
| "railcom_event_step (Cutout_Isr flags wave words errs f0 f1 f2) s =
     ([], cutout_isr flags wave words errs f0 f1 f2 s)"
| "railcom_event_step (Task_Turn now) s =
     (case task_railcom now s of (es, s) \<Rightarrow> (map Effect es, s))"

fun railcom_run :: "railcom_event list \<Rightarrow> railcom_state \<Rightarrow> railcom_out list \<times> railcom_state" where
  "railcom_run [] s = ([], s)"
| "railcom_run (e # es) s =
     (case railcom_event_step e s of (o1, s1) \<Rightarrow>
        (case railcom_run es s1 of (o2, s2) \<Rightarrow> (o1 @ o2, s2)))"

fun is_done :: "railcom_out \<Rightarrow> bool" where
  "is_done (Effect (Pom_Done answered v)) = True"
| "is_done _ = False"

text \<open>The flags: a request is under way exactly when it is pending or being read.\<close>

definition flags_ok :: "railcom_state \<Rightarrow> bool" where
  "flags_ok s \<longleftrightarrow> g_busy s = (g_req_pending s \<or> task_reading s) \<and> \<not> (g_req_pending s \<and> task_reading s)"

lemma push_cutout_flags [simp]:
  "g_busy (push_cutout s) = g_busy s" "g_req_pending (push_cutout s) = g_req_pending s"
  "task_reading (push_cutout s) = task_reading s" "task_read (push_cutout s) = task_read s"
  "g_req (push_cutout s) = g_req s" "g_task (push_cutout s) = g_task s"
  by (simp_all add: push_cutout_def Let_def)

lemma isr_start_flags [simp]:
  "g_busy (isr_start w ws e f s) = g_busy s" "g_req_pending (isr_start w ws e f s) = g_req_pending s"
  "task_reading (isr_start w ws e f s) = task_reading s" "task_read (isr_start w ws e f s) = task_read s"
  "g_req (isr_start w ws e f s) = g_req s" "g_task (isr_start w ws e f s) = g_task s"
  by (simp_all add: isr_start_def Let_def split_beta)

lemma isr_ch1_flags [simp]:
  "g_busy (isr_ch1 e f s) = g_busy s" "g_req_pending (isr_ch1 e f s) = g_req_pending s"
  "task_reading (isr_ch1 e f s) = task_reading s" "task_read (isr_ch1 e f s) = task_read s"
  "g_req (isr_ch1 e f s) = g_req s" "g_task (isr_ch1 e f s) = g_task s"
  by (simp_all add: isr_ch1_def split_beta)

lemma isr_end_flags [simp]:
  "g_busy (isr_end e f s) = g_busy s" "g_req_pending (isr_end e f s) = g_req_pending s"
  "task_reading (isr_end e f s) = task_reading s" "task_read (isr_end e f s) = task_read s"
  "g_req (isr_end e f s) = g_req s" "g_task (isr_end e f s) = g_task s"
  by (simp_all add: isr_end_def Let_def split_beta)

lemma cutout_isr_flags [simp]:
  "g_busy (cutout_isr f w ws e f0 f1 f2 s) = g_busy s" "g_req_pending (cutout_isr f w ws e f0 f1 f2 s) = g_req_pending s"
  "task_reading (cutout_isr f w ws e f0 f1 f2 s) = task_reading s" "task_read (cutout_isr f w ws e f0 f1 f2 s) = task_read s"
  "g_req (cutout_isr f w ws e f0 f1 f2 s) = g_req s" "g_task (cutout_isr f w ws e f0 f1 f2 s) = g_task s"
  by (simp_all add: cutout_isr_def Let_def)

lemma ring_pop_flags:
  "ring_pop s = Some (c, s') \<Longrightarrow> g_busy s' = g_busy s \<and> g_req_pending s' = g_req_pending s \<and>
   task_reading s' = task_reading s \<and> g_req s' = g_req s \<and> g_task s' = g_task s \<and> task_read s' = task_read s"
  by (auto simp: ring_pop_def Let_def split: if_splits)

lemma ring_loop_keeps:
  "g_busy (ring_loop s) = g_busy s \<and> g_req_pending (ring_loop s) = g_req_pending s \<and>
   task_reading (ring_loop s) = task_reading s \<and> g_req (ring_loop s) = g_req s \<and> g_task (ring_loop s) = g_task s"
proof (induction s rule: ring_loop.induct)
  case (1 s)
  show ?case
  proof (cases "ring_pop s")
    case None
    then show ?thesis by (simp add: ring_loop.simps [of s])
  next
    case (Some r)
    obtain c s' where r: "r = (c, s')" by (cases r)
    show ?thesis
      using "1.IH" [OF Some r [symmetric] refl] ring_pop_flags [OF Some [unfolded r]] Some r
      by (simp add: ring_loop.simps [of s] Let_def)
  qed
qed

lemmas ring_loop_flags [simp] = ring_loop_keeps [THEN conjunct1]
  ring_loop_keeps [THEN conjunct2, THEN conjunct1]
  ring_loop_keeps [THEN conjunct2, THEN conjunct2, THEN conjunct1]
  ring_loop_keeps [THEN conjunct2, THEN conjunct2, THEN conjunct2, THEN conjunct1]
  ring_loop_keeps [THEN conjunct2, THEN conjunct2, THEN conjunct2, THEN conjunct2]

lemma flags_ok_step: "flags_ok s \<Longrightarrow> flags_ok (snd (railcom_event_step e s))"
proof (cases e)
  case (Pom_Request wave has_done a l cv)
  assume "flags_ok s"
  with Pom_Request show ?thesis
    by (auto simp: railcom_pom_read_def flags_ok_def)
next
  case (Task_Turn now)
  assume "flags_ok s"
  with Task_Turn show ?thesis
    by (auto simp: task_railcom_def poll_read_def take_request_def flags_ok_def Let_def
        split: prod.splits pom_read_step.splits)
qed (auto simp: flags_ok_def)

interpretation railcom: invariant_system flags_ok "\<lambda>e s. snd (railcom_event_step e s)" flags_ok
  by unfold_locales (auto intro: flags_ok_step)

lemma railcom_run_state: "snd (railcom_run es s) = fold (\<lambda>e s. snd (railcom_event_step e s)) es s"
  by (induction es arbitrary: s) (simp_all add: case_prod_beta)

lemma step_count:
  assumes "flags_ok s"
  shows "length (filter is_done (fst (railcom_event_step e s))) + (if g_busy (snd (railcom_event_step e s)) then 1 else 0) =
         length (filter (\<lambda>x. x = Started) (fst (railcom_event_step e s))) + (if g_busy s then 1 else 0)"
proof (cases e)
  case (Pom_Request wave has_done a l cv)
  then show ?thesis by (auto simp: railcom_pom_read_def)
next
  case (Task_Turn now)
  with assms show ?thesis
    by (auto simp: task_railcom_def poll_read_def take_request_def flags_ok_def Let_def
        split: prod.splits pom_read_step.splits)
qed auto

text \<open>A state at start-up, as the witnesses use it.\<close>

definition railcom_boot :: railcom_state where
  "railcom_boot = \<lparr>g_task = True,
     g_cur = \<lparr>cut_packet = 0, ch1_len = 0, ch2_len = 0, ch1 = replicate 4 0, ch2 = replicate 8 0\<rparr>,
     g_ring = replicate 16 \<lparr>cut_packet = 0, ch1_len = 0, ch2_len = 0, ch1 = replicate 4 0, ch2 = replicate 8 0\<rparr>,
     g_head = 0, g_tail = 0, g_cutouts = 0, g_dropped = 0, g_uart_errors = 0, g_ch1_bytes = 0,
     g_ch2_bytes = 0, g_req = \<lparr>req_address = 0, req_is_long = False, req_cv = 0\<rparr>,
     g_req_pending = False, g_busy = False,
     task_read = \<lparr>pr_packet = 0, sent_ms = 0, attempts = 0, answers = 0, pr_done = False, pr_value = 0\<rparr>,
     task_reading = False, adr_high = -1, adr_low = -1, adr_seen = 0, adr_logged = 0xFFFF\<rparr>"

text \<open>
  C32: The interrupt's ring is a queue of sixteen cutouts. Also when the 32-bit counters
  wrap: a push appends the current cutout, or drops it and counts it when sixteen are
  waiting, and popping until the ring is empty gives what it held, oldest first.
\<close>

theorem ring_refines_queue:
  assumes "ring_ok s"
  shows "ring_contents (push_cutout s) =
           (if length (ring_contents s) < 16 then ring_contents s @ [g_cur s] else ring_contents s) \<and>
         (\<not> length (ring_contents s) < 16 \<longrightarrow> g_dropped (push_cutout s) = g_dropped s + 1) \<and>
         ring.pop_n 16 s = ring_contents s"
proof -
  have l: "length (ring_contents s) \<le> 16" using assms by (simp add: ring_ok_def ring_contents_def RING_SIZE_def)
  have "g_dropped (push_cutout s) = g_dropped s + 1" if "\<not> length (ring_contents s) < 16"
    using that by (simp add: push_cutout_def Let_def ring_contents_def word_le_nat_alt RING_SIZE_def)
  then show ?thesis
    using ring.push_law [OF assms] ring.pop_n_contents [OF assms l] by (simp add: RING_SIZE_def)
qed

theorem ring_refines_queue_witness:
  "ring_contents (push_cutout (railcom_boot\<lparr>g_head := 0xFFFFFFFF, g_tail := 0xFFFFFFFF\<rparr>)) = [g_cur railcom_boot]"
proof -
  have "ring_ok (railcom_boot\<lparr>g_head := 0xFFFFFFFF, g_tail := 0xFFFFFFFF\<rparr>)"
    by (simp add: ring_ok_def railcom_boot_def RING_SIZE_def)
  from ring_refines_queue [OF this] show ?thesis by (simp add: ring_contents_def)
qed

section \<open>The life of a read\<close>

definition answers_read :: "pom_read \<Rightarrow> u8 \<Rightarrow> railcom_cutout \<Rightarrow> bool" where
  "answers_read r v c \<longleftrightarrow> cut_packet c = pr_packet r \<and>
     railcom_parse_pom (ch2 c) (ch2_len c) 0 = (RAILCOM_POM_VALUE, v)"

lemma unat_succ8: "unat (a :: u8) < 255 \<Longrightarrow> unat (a + 1) = unat a + 1"
  by (simp add: unat_word_ariths)

text \<open>
  While a read is under way the task wakes at least every \<open>POLL_MS\<close>; \<open>late\<close> is what the scheduler
  may add. The times of the turns are what \<open>now_ms\<close> gave, modulo \<open>2 ^ 32\<close>.
\<close>

definition POLL_MS :: u32 where "POLL_MS = 10"

fun turn_times :: "railcom_event list \<Rightarrow> u32 list" where
  "turn_times [] = []"
| "turn_times (Task_Turn now # es) = now # turn_times es"
| "turn_times (e # es) = turn_times es"

fun elapsed :: "u32 list \<Rightarrow> nat" where
  "elapsed (t # t' # ts) = unat (t' - t) + elapsed (t' # ts)"
| "elapsed ts = 0"

fun paced :: "nat \<Rightarrow> u32 list \<Rightarrow> bool" where
  "paced late (t # t' # ts) = (unat (t' - t) \<le> unat POLL_MS + late \<and> paced late (t' # ts))"
| "paced late ts = True"

text \<open>The longest an attempt may last, and the time a read has left, as a potential that every turn pays from.\<close>

definition attempt_ms :: "nat \<Rightarrow> nat" where
  "attempt_ms late = unat POM_READ_ATTEMPT_MS + unat POLL_MS + late"

definition time_left :: "nat \<Rightarrow> u32 \<Rightarrow> pom_read \<Rightarrow> nat" where
  "time_left late t r = (4 - unat (attempts r)) * attempt_ms late + (attempt_ms late - unat (t - sent_ms r))"

definition read_under_way :: "u32 \<Rightarrow> railcom_state \<Rightarrow> bool" where
  "read_under_way t s \<longleftrightarrow> flags_ok s \<and> task_reading s \<and> \<not> pr_done (task_read s) \<and> attempts (task_read s) \<noteq> 0 \<and>
     unat (t - sent_ms (task_read s)) < unat POM_READ_ATTEMPT_MS"

definition read_asked :: "railcom_state \<Rightarrow> railcom_effect" where
  "read_asked s = Dcc_Pom_Read_Byte (req_address (g_req s)) (req_is_long (g_req s)) (req_cv (g_req s)) (uint POM_READ_COPIES - 1)"

text \<open>The cutouts only change how many answers were counted, or end the read.\<close>

lemma cutouts_keep: "let r' = fold (\<lambda>c r. snd (pom_read_cutout c r)) cs r in
   attempts r' = attempts r \<and> sent_ms r' = sent_ms r \<and> pr_packet r' = pr_packet r \<and>
   (pr_done r' \<and> \<not> pr_done r \<longrightarrow> attempts r \<noteq> 0 \<and> (\<exists>c\<in>set cs. answers_read r (pr_value r') c))"
proof (induction cs arbitrary: r)
  case (Cons c cs)
  let ?r = "snd (pom_read_cutout c r)"
  have 1: "attempts ?r = attempts r" "sent_ms ?r = sent_ms r" "pr_packet ?r = pr_packet r"
    by (auto simp: pom_read_cutout_def split: prod.splits railcom_pom.splits)
  have over: "fold (\<lambda>c r. snd (pom_read_cutout c r)) cs r' = r'" if "pr_done r'" for r'
    using that by (induction cs) (simp_all add: pom_read_cutout_def)
  have 2: "pr_done ?r \<Longrightarrow> \<not> pr_done r \<Longrightarrow> attempts r \<noteq> 0 \<and> answers_read r (pr_value ?r) c"
    by (auto simp: pom_read_cutout_def answers_read_def split: if_splits prod.splits railcom_pom.splits)
  show ?case
  proof (cases "pr_done ?r")
    case True
    then show ?thesis using 1 2 by (simp add: over)
  next
    case False
    have "answers_read ?r v c' = answers_read r v c'" for v c' by (simp add: answers_read_def 1)
    then show ?thesis using Cons.IH [of ?r] 1 False by (auto simp: Let_def)
  qed
qed simp

lemma ring_loop_read:
  "ring_ok s \<Longrightarrow> ring_ok (ring_loop s) \<and> task_read (ring_loop s) =
     (if task_reading s then fold (\<lambda>c r. snd (pom_read_cutout c r)) (ring_contents s) (task_read s) else task_read s)"
proof (induction s rule: ring_loop.induct)
  case (1 s)
  show ?case
  proof (cases "ring_pop s")
    case None
    then show ?thesis using 1 ring_pop_None [of s] by (simp add: ring_loop.simps [of s])
  next
    case (Some r)
    obtain c s' where r: "r = (c, s')" by (cases r)
    note pop = ring_pop_Some [OF 1(2) Some [unfolded r]] ring_pop_flags [OF Some [unfolded r]]
    have "ring_contents (snd (watch_address c s')) = ring_contents s'" "ring_ok (snd (watch_address c s'))"
      using pop(1) by (simp_all add: ring_contents_def ring_ok_def)
    then show ?thesis
      using "1.IH" [OF Some r [symmetric] refl] pop Some r
      by (simp add: ring_loop.simps [of s] Let_def ring_contents_def ring_ok_def)
  qed
qed

lemma ring_ok_step: "ring_ok s \<Longrightarrow> ring_ok (snd (railcom_event_step e s))"
proof (cases e)
  case (Pom_Request w h a l cv)
  assume "ring_ok s"
  then show ?thesis by (auto simp: Pom_Request railcom_pom_read_def ring_ok_def)
next
  case (Cutout_Isr f w ws er f0 f1 f2)
  assume "ring_ok s"
  moreover have "ring_ok (isr_start w ws er f0 s) = ring_ok s" "ring_ok (isr_ch1 er f1 s) = ring_ok s" for s
    by (auto simp: isr_start_def isr_ch1_def Let_def ring_ok_def split: prod.splits)
  moreover have "ring_ok s \<Longrightarrow> ring_ok (isr_end er f2 s)" for s
    by (auto simp: isr_end_def Let_def intro!: push_cutout_ring(1) split: prod.splits)
  ultimately show ?thesis by (simp add: Cutout_Isr cutout_isr_def Let_def)
next
  case (Task_Turn now)
  assume "ring_ok s"
  then have "ring_ok (take_request s)" by (simp add: take_request_def ring_ok_def)
  then have "ring_ok (ring_loop (take_request s))" using ring_loop_read by blast
  then show ?thesis
    by (auto simp: Task_Turn task_railcom_def poll_read_def Let_def ring_ok_def split: prod.splits pom_read_step.splits)
qed

text \<open>The four ends of a turn while a read is under way.\<close>

lemma turn_cases:
  assumes "read_under_way t s" and "ring_ok s" and "task_railcom now s = (es, s')"
  obtains (asked) "es = [read_asked s]" "read_under_way now s'" "unat (attempts (task_read s)) < 4"
      "attempts (task_read s') = attempts (task_read s) + 1" "sent_ms (task_read s') = now"
      "g_req s' = g_req s" "pr_packet (task_read s') = pr_packet (task_read s)"
  | (waits) "es = []" "read_under_way now s'" "attempts (task_read s') = attempts (task_read s)"
      "sent_ms (task_read s') = sent_ms (task_read s)"
      "g_req s' = g_req s" "pr_packet (task_read s') = pr_packet (task_read s)"
  | (answered) v c where "es = [Pom_Done True v]" "c \<in> set (ring_contents s)" "answers_read (task_read s) v c" "\<not> g_busy s'"
  | (failed) "es = [Pom_Done False 0]" "4 \<le> unat (attempts (task_read s))" "\<not> g_busy s'"
proof -
  let ?r = "fold (\<lambda>c r. snd (pom_read_cutout c r)) (ring_contents s) (task_read s)"
  note under = assms(1) [unfolded read_under_way_def]
  have np: "\<not> g_req_pending s" using under by (auto simp: flags_ok_def)
  have tr: "take_request s = s" using np by (simp add: take_request_def)
  have loop: "task_read (ring_loop s) = ?r" using ring_loop_read [OF assms(2)] under by simp
  note keep = cutouts_keep [of "ring_contents s" "task_read s", unfolded Let_def]
  have fl: "flags_ok s'" using flags_ok_step [of s "Task_Turn now"] assms(3) under by simp
  obtain x r' where p: "pom_read_poll now ?r = (x, r')" by (cases "pom_read_poll now ?r")
  have out: "poll_read now (ring_loop s) = (es, s')" using assms(3) by (simp add: task_railcom_def tr)
  have reading: "task_reading (ring_loop s)" "g_req (ring_loop s) = g_req s" using under by simp_all
  show thesis
  proof (cases "pr_done ?r")
    case True
    then have "x = POM_READ_DONE" "r' = ?r" using p by (simp_all add: pom_read_poll_def)
    then have "es = [Pom_Done True (pr_value ?r)]" "\<not> g_busy s'"
      using out p reading(1) by (auto simp: poll_read_def loop Let_def)
    then show thesis using answered keep True under by blast
  next
    case nd: False
    show thesis
    proof (cases "answers ?r \<ge> POM_READ_COPIES \<or> now - sent_ms ?r \<ge> POM_READ_ATTEMPT_MS")
      case wait: False
      then have "x = POM_READ_WAIT" "r' = ?r" using p nd keep under by (auto simp: pom_read_poll_def Let_def)
      then have e: "es = []" "s' = (ring_loop s)\<lparr>task_read := ?r\<rparr>"
        using out p reading(1) by (auto simp: poll_read_def loop Let_def)
      have "unat (now - sent_ms ?r) < unat POM_READ_ATTEMPT_MS" using wait by (simp add: word_le_nat_alt)
      then have "read_under_way now s'" using fl nd keep under by (simp add: read_under_way_def e)
      then show thesis using waits e keep reading by simp
    next
      case nx: True
      show thesis
      proof (cases "attempts ?r \<ge> POM_READ_ATTEMPTS")
        case True
        then have "x = POM_READ_FAILED" using p nd nx by (auto simp: pom_read_poll_def Let_def)
        then have "es = [Pom_Done False 0]" "\<not> g_busy s'"
          using out p reading(1) by (auto simp: poll_read_def loop Let_def)
        moreover have "4 \<le> unat (attempts (task_read s))" using True keep by (simp add: POM_READ_ATTEMPTS_def word_le_nat_alt)
        ultimately show thesis using failed by blast
      next
        case False
        then have "x = POM_READ_SEND" and r': "r' = ?r\<lparr>attempts := attempts ?r + 1, answers := 0, sent_ms := now\<rparr>"
          using p nd nx by (auto simp: pom_read_poll_def Let_def)
        then have e: "es = [read_asked s]" "s' = (ring_loop s)\<lparr>task_read := r'\<rparr>"
          using out p reading by (auto simp: poll_read_def loop Let_def read_asked_def)
        have a: "unat (attempts (task_read s)) < 4" using False keep by (simp add: POM_READ_ATTEMPTS_def word_le_nat_alt)
        have "unat (attempts ?r + 1) = Suc (unat (attempts ?r))" using a keep unat_succ8 [of "attempts ?r"] by simp
        then have "attempts ?r + 1 \<noteq> 0" by (metis nat.distinct(1) unat_0)
        then have "read_under_way now s'" using fl nd under by (simp add: read_under_way_def e r' POM_READ_ATTEMPT_MS_def)
        then show thesis using asked a e r' keep reading by simp
      qed
    qed
  qed
qed

text \<open>Every turn that does not end the read pays the time since the turn before from what is left.\<close>

lemma time_left_turn:
  assumes "read_under_way t s" and "read_under_way now s'" and "unat (now - t) \<le> unat POLL_MS + late" and "attempt_ms late < 2 ^ 32"
    and "(attempts (task_read s') = attempts (task_read s) \<and> sent_ms (task_read s') = sent_ms (task_read s)) \<or>
      (unat (attempts (task_read s)) < 4 \<and> attempts (task_read s') = attempts (task_read s) + 1 \<and> sent_ms (task_read s') = now)"
  shows "time_left late now (task_read s') + unat (now - t) \<le> time_left late t (task_read s)"
proof -
  let ?r = "task_read s" and ?A = "attempt_ms late"
  let ?age = "unat (t - sent_ms ?r)" and ?g = "unat (now - t)"
  have age: "?age < 250" using assms(1) by (simp add: read_under_way_def POM_READ_ATTEMPT_MS_def)
  have A: "?A = 260 + late" by (simp add: attempt_ms_def POM_READ_ATTEMPT_MS_def POLL_MS_def)
  have g: "?g \<le> 10 + late" using assms(3) by (simp add: POLL_MS_def)
  show ?thesis
  proof (cases "attempts (task_read s') = attempts ?r \<and> sent_ms (task_read s') = sent_ms ?r")
    case True
    have "now - sent_ms ?r = (now - t) + (t - sent_ms ?r)" by simp
    moreover have "?g + ?age < 2 ^ 32" using g age assms(4) A by simp
    moreover have "unat a + unat b < 2 ^ 32 \<Longrightarrow> unat (a + b) = unat a + unat b" for a b :: u32
      by (simp add: unat_word_ariths(1))
    ultimately have "unat (now - sent_ms ?r) = ?g + ?age" by metis
    then show ?thesis using True age g A by (simp add: time_left_def)
  next
    case False
    then have n: "unat (attempts ?r) < 4" "attempts (task_read s') = attempts ?r + 1" "sent_ms (task_read s') = now"
      using assms(5) by auto
    have a: "4 - unat (attempts ?r) = Suc (4 - unat (attempts (task_read s')))"
      using n(1) unat_succ8 [of "attempts ?r"] by (simp add: n(2))
    show ?thesis using age g A by (simp add: time_left_def a n(3))
  qed
qed

lemma time_left_pos: "read_under_way t s \<Longrightarrow> 0 < time_left late t (task_read s)"
  by (simp add: read_under_way_def time_left_def attempt_ms_def)

text \<open>Where the answer came from: a cutout in the ring when the task took a turn.\<close>

definition taken_in :: "railcom_state \<Rightarrow> railcom_event list \<Rightarrow> railcom_cutout \<Rightarrow> bool" where
  "taken_in s es c \<longleftrightarrow> (\<exists>es1 now es2. es = es1 @ Task_Turn now # es2 \<and> c \<in> set (ring_contents (snd (railcom_run es1 s))))"

lemma taken_in_Cons: "taken_in (snd (railcom_event_step e s)) es c \<Longrightarrow> taken_in s (e # es) c"
proof -
  assume "taken_in (snd (railcom_event_step e s)) es c"
  then obtain es1 now es2 where h: "es = es1 @ Task_Turn now # es2"
    "c \<in> set (ring_contents (snd (railcom_run es1 (snd (railcom_event_step e s)))))" by (auto simp: taken_in_def)
  have "snd (railcom_run (e # es1) s) = snd (railcom_run es1 (snd (railcom_event_step e s)))" by (simp add: split_beta)
  then show ?thesis using h unfolding taken_in_def by (intro exI [of _ "e # es1"] exI [of _ now] exI [of _ es2]) simp
qed

lemma quiet_step:
  assumes "flags_ok s" and "g_busy s" and "\<nexists>now. e = Task_Turn now"
  shows "fst (railcom_event_step e s) = []" and "task_read (snd (railcom_event_step e s)) = task_read s"
    and "g_req (snd (railcom_event_step e s)) = g_req s" and "g_req_pending (snd (railcom_event_step e s)) = g_req_pending s"
    and "task_reading (snd (railcom_event_step e s)) = task_reading s" and "g_busy (snd (railcom_event_step e s))"
  using assms by (cases e; auto simp: railcom_pom_read_def)+

text \<open>How far a read has come after \<open>n\<close> more attempts: it is still under way and has time left, or it is answered.\<close>

definition read_goes_on :: "nat \<Rightarrow> u32 \<Rightarrow> railcom_state \<Rightarrow> railcom_event list \<Rightarrow> railcom_out list \<Rightarrow> railcom_state \<Rightarrow> nat \<Rightarrow> bool" where
  "read_goes_on late t s es out s' n \<longleftrightarrow> out = replicate n (Effect (read_asked s)) \<and> g_busy s' \<and>
     (paced late (t # turn_times es) \<longrightarrow> elapsed (t # turn_times es) < time_left late t (task_read s))"

definition read_ended :: "railcom_state \<Rightarrow> railcom_event list \<Rightarrow> railcom_out list \<Rightarrow> nat \<Rightarrow> bool" where
  "read_ended s es out n \<longleftrightarrow> (\<exists>answered v rest.
     out = replicate n (Effect (read_asked s)) @ Effect (Pom_Done answered v) # rest \<and>
     (if answered then \<exists>c. taken_in s es c \<and> answers_read (task_read s) v c else v = 0 \<and> 4 \<le> unat (attempts (task_read s)) + n))"

lemma read_ended_step:
  assumes "read_ended s1 es out n" and "railcom_event_step e s = (map Effect xs, s1)" and "xs = replicate k (read_asked s)"
    and "read_asked s1 = read_asked s" and "pr_packet (task_read s1) = pr_packet (task_read s)"
    and "unat (attempts (task_read s1)) = unat (attempts (task_read s)) + k"
  shows "read_ended s (e # es) (map Effect xs @ out) (k + n)"
proof -
  obtain answered v rest where o: "out = replicate n (Effect (read_asked s1)) @ Effect (Pom_Done answered v) # rest"
    and w: "if answered then \<exists>c. taken_in s1 es c \<and> answers_read (task_read s1) v c
        else v = 0 \<and> 4 \<le> unat (attempts (task_read s1)) + n"
    using assms(1) unfolding read_ended_def by blast
  have "answers_read (task_read s1) v c = answers_read (task_read s) v c" for c by (simp add: answers_read_def assms(5))
  then have w': "if answered then \<exists>c. taken_in s (e # es) c \<and> answers_read (task_read s) v c
        else v = 0 \<and> 4 \<le> unat (attempts (task_read s)) + (k + n)"
    using w taken_in_Cons [of e s es] assms(2,6) by (auto split: if_splits)
  have "map Effect xs @ out = replicate (k + n) (Effect (read_asked s)) @ Effect (Pom_Done answered v) # rest"
    by (simp add: o assms(3,4) replicate_add)
  with w' show ?thesis unfolding read_ended_def by blast
qed

lemma read_goes_on_step:
  assumes "read_goes_on late t' s1 es out s' n" and "xs = replicate k (read_asked s)" and "read_asked s1 = read_asked s"
    and "paced late (t # turn_times (e # es)) \<Longrightarrow> paced late (t' # turn_times es) \<and>
      elapsed (t # turn_times (e # es)) + time_left late t' (task_read s1) \<le> elapsed (t' # turn_times es) + time_left late t (task_read s)"
  shows "read_goes_on late t s (e # es) (map Effect xs @ out) s' (k + n)"
  using assms by (auto simp: read_goes_on_def replicate_add)

lemma read_run:
  assumes "railcom_run es s = (out, s')" and "read_under_way t s" and "ring_ok s" and "attempt_ms late < 2 ^ 32"
  shows "\<exists>n. (n = 0 \<or> unat (attempts (task_read s)) + n \<le> 4) \<and> (read_goes_on late t s es out s' n \<or> read_ended s es out n)"
  using assms(1-3)
proof (induction es arbitrary: s t out)
  case Nil
  then show ?case using time_left_pos [of t s late]
    by (intro exI [of _ 0]) (auto simp: read_goes_on_def read_under_way_def flags_ok_def)
next
  case (Cons e es)
  obtain o1 s1 where 1: "railcom_event_step e s = (o1, s1)" by (cases "railcom_event_step e s")
  obtain o2 s2 where 2: "railcom_run es s1 = (o2, s2)" by (cases "railcom_run es s1")
  have out: "out = o1 @ o2" "s' = s2" using Cons.prems(1) 1 2 by simp_all
  note 2 = 2 [folded out(2)]
  have ring: "ring_ok s1" using ring_ok_step [OF Cons.prems(3), of e] 1 by simp
  have under: "flags_ok s" "g_busy s" using Cons.prems(2) by (auto simp: read_under_way_def flags_ok_def)
  show ?case
  proof (cases "\<exists>now. e = Task_Turn now")
    case False
    note q = quiet_step [OF under False, unfolded 1 fst_conv snd_conv]
    have "flags_ok s1" using flags_ok_step [OF under(1), of e] 1 by simp
    then have u: "read_under_way t s1" using Cons.prems(2) q by (simp add: read_under_way_def)
    have a: "read_asked s1 = read_asked s" by (simp add: read_asked_def q)
    have tt: "turn_times (e # es) = turn_times es" using False by (cases e) auto
    obtain n where n: "n = 0 \<or> unat (attempts (task_read s)) + n \<le> 4" "read_goes_on late t s1 es o2 s' n \<or> read_ended s1 es o2 n"
      using Cons.IH [OF 2 u ring] q(2) by auto
    have o: "o1 = map Effect []" "[] = replicate 0 (read_asked s)" using q(1) by simp_all
    have "read_goes_on late t s (e # es) (map Effect [] @ o2) s' (0 + n)" if g: "read_goes_on late t s1 es o2 s' n"
      by (rule read_goes_on_step [OF g o(2) a]) (simp add: tt q(2))
    moreover have "read_ended s1 es o2 n \<Longrightarrow> read_ended s (e # es) (map Effect [] @ o2) (0 + n)"
      by (rule read_ended_step [OF _ _ o(2) a]) (simp_all add: 1 o(1) q(2))
    ultimately show ?thesis using n out(1) q(1) by (intro exI [of _ n]) auto
  next
    case True
    then obtain now where e: "e = Task_Turn now" by blast
    obtain xs where t: "task_railcom now s = (xs, s1)" and o1: "o1 = map Effect xs"
      using 1 by (auto simp: e split: prod.splits)
    have on: ?thesis if u: "read_under_way now s1" and g: "g_req s1 = g_req s" "pr_packet (task_read s1) = pr_packet (task_read s)"
      and k: "xs = replicate k (read_asked s)" "unat (attempts (task_read s1)) = unat (attempts (task_read s)) + k" "k = 0 \<or> unat (attempts (task_read s1)) \<le> 4"
      and m: "(attempts (task_read s1) = attempts (task_read s) \<and> sent_ms (task_read s1) = sent_ms (task_read s)) \<or>
        (unat (attempts (task_read s)) < 4 \<and> attempts (task_read s1) = attempts (task_read s) + 1 \<and> sent_ms (task_read s1) = now)" for k
    proof -
      have a: "read_asked s1 = read_asked s" by (simp add: read_asked_def g)
      obtain n where n: "n = 0 \<or> unat (attempts (task_read s1)) + n \<le> 4" "read_goes_on late now s1 es o2 s' n \<or> read_ended s1 es o2 n"
        using Cons.IH [OF 2 u ring] by blast
      have "read_goes_on late now s1 es o2 s' n \<Longrightarrow> read_goes_on late t s (e # es) (map Effect xs @ o2) s' (k + n)"
        by (rule read_goes_on_step [OF _ k(1) a]) (use time_left_turn [OF Cons.prems(2) u _ assms(4) m] in \<open>auto simp: e\<close>)
      moreover have "read_ended s1 es o2 n \<Longrightarrow> read_ended s (e # es) (map Effect xs @ o2) (k + n)"
        by (rule read_ended_step [OF _ _ k(1) a g(2) k(2)]) (simp_all add: 1 o1)
      moreover have "k + n = 0 \<or> unat (attempts (task_read s)) + (k + n) \<le> 4" using n(1) k(2,3) by auto
      ultimately show ?thesis using n(2) out(1) o1 by (intro exI [of _ "k + n"]) auto
    qed
    from Cons.prems(2,3) t show ?thesis
    proof (cases rule: turn_cases)
      case asked
      then show ?thesis using unat_succ8 [of "attempts (task_read s)"] by (intro on [of 1]) auto
    next
      case waits
      then show ?thesis by (intro on [of 0]) auto
    next
      case (answered v c)
      have "taken_in s (e # es) c" unfolding taken_in_def
        by (intro exI [of _ "[]"] exI [of _ now] exI [of _ es]) (use answered e in simp)
      then have "read_ended s (e # es) out 0" unfolding read_ended_def using answered
        by (intro exI [of _ True] exI [of _ v] exI [of _ o2]) (auto simp: out(1) o1)
      then show ?thesis by blast
    next
      case failed
      then have "read_ended s (e # es) out 0" unfolding read_ended_def
        by (intro exI [of _ False] exI [of _ 0] exI [of _ o2]) (auto simp: out(1) o1)
      then show ?thesis by blast
    qed
  qed
qed

text \<open>The first turn of a read sends; a turn of a read in any state leaves it ended or under way.\<close>

definition asked_packet :: "railcom_state \<Rightarrow> dcc_packet" where
  "asked_packet s = packet_build_pom_read_byte (req_address (g_req s)) (req_is_long (g_req s)) (req_cv (g_req s))
     (uint POM_READ_COPIES - 1) zero_packet"

lemma first_turn:
  assumes "flags_ok s" and "g_req_pending s" and "ring_ok s" and "task_railcom now s = (es, s')"
  shows "es = [read_asked s]" and "read_under_way now s'" and "attempts (task_read s') = 1" and "sent_ms (task_read s') = now"
    and "g_req s' = g_req s" and "pr_packet (task_read s') = pr_packet (pom_read_start (asked_packet s))"
proof -
  let ?s = "take_request s"
  let ?r = "fold (\<lambda>c r. snd (pom_read_cutout c r)) (ring_contents ?s) (task_read ?s)"
  have s: "task_read ?s = pom_read_start (asked_packet s)" "task_reading ?s" "g_req ?s = g_req s"
    using assms(2) by (simp_all add: take_request_def asked_packet_def)
  have "ring_ok ?s" using assms(3) by (simp add: take_request_def ring_ok_def)
  then have loop: "task_read (ring_loop ?s) = ?r" using ring_loop_read s(2) by simp
  have r: "attempts ?r = 0" "\<not> pr_done ?r" "pr_packet ?r = pr_packet (pom_read_start (asked_packet s))"
    using cutouts_keep [of "ring_contents ?s" "task_read ?s"] by (auto simp: s(1) Let_def pom_read_start_def)
  have p: "pom_read_poll now ?r = (POM_READ_SEND, ?r\<lparr>attempts := 1, answers := 0, sent_ms := now\<rparr>)"
    using r by (simp add: pom_read_poll_def Let_def POM_READ_ATTEMPTS_def)
  have e: "es = [read_asked s]" "s' = (ring_loop ?s)\<lparr>task_read := ?r\<lparr>attempts := 1, answers := 0, sent_ms := now\<rparr>\<rparr>"
    using assms(4) s(2,3) by (auto simp: task_railcom_def poll_read_def loop p Let_def read_asked_def)
  show "es = [read_asked s]" by (rule e(1))
  have "flags_ok s'" using flags_ok_step [OF assms(1), of "Task_Turn now"] assms(4) by simp
  then show "read_under_way now s'" using r s by (simp add: e read_under_way_def POM_READ_ATTEMPT_MS_def)
  show "attempts (task_read s') = 1" "sent_ms (task_read s') = now" "g_req s' = g_req s"
    "pr_packet (task_read s') = pr_packet (pom_read_start (asked_packet s))" using r s by (simp_all add: e)
qed

lemma any_turn:
  assumes "flags_ok s" and "g_busy s" and "task_railcom now s = (es, s')"
  shows "\<not> g_busy s' \<or> read_under_way now s'"
proof -
  have fl: "flags_ok s'" using flags_ok_step [OF assms(1), of "Task_Turn now"] assms(3) by simp
  let ?s = "ring_loop (take_request s)"
  have reading: "task_reading ?s" using assms(1,2) by (auto simp: flags_ok_def take_request_def)
  obtain x r where p: "pom_read_poll now (task_read ?s) = (x, r)" by (cases "pom_read_poll now (task_read ?s)")
  have x: "x = POM_READ_DONE \<or> x = POM_READ_FAILED \<or> (\<not> pr_done r \<and> attempts r \<noteq> 0 \<and> unat (now - sent_ms r) < unat POM_READ_ATTEMPT_MS)"
  proof (cases "x = POM_READ_SEND")
    case True
    then have r: "r = (task_read ?s)\<lparr>attempts := attempts (task_read ?s) + 1, answers := 0, sent_ms := now\<rparr>"
      and a: "\<not> pr_done (task_read ?s)" "unat (attempts (task_read ?s)) < 4"
      using p by (auto simp: pom_read_poll_def Let_def POM_READ_ATTEMPTS_def word_le_nat_alt split: if_splits)
    have "unat (attempts (task_read ?s) + 1) = Suc (unat (attempts (task_read ?s)))" using a(2) by (simp add: unat_succ8)
    then have "attempts (task_read ?s) + 1 \<noteq> 0" by (metis nat.distinct(1) unat_0)
    then show ?thesis using a by (simp add: r POM_READ_ATTEMPT_MS_def)
  next
    case False
    then show ?thesis using p by (auto simp: pom_read_poll_def Let_def word_le_nat_alt split: if_splits)
  qed
  have "poll_read now ?s = (es, s')" using assms(3) by (simp add: task_railcom_def)
  then show ?thesis using x reading fl p
    by (auto simp: poll_read_def Let_def read_under_way_def flags_ok_def split: pom_read_step.splits)
qed

lemma time_left_start: "read_under_way t s \<Longrightarrow> time_left late t (task_read s) \<le> 4 * attempt_ms late"
proof -
  assume "read_under_way t s"
  then have "unat (attempts (task_read s)) \<noteq> 0" by (auto simp: read_under_way_def unat_eq_0)
  then have "4 - unat (attempts (task_read s)) \<le> 3" by simp
  then have "(4 - unat (attempts (task_read s))) * attempt_ms late \<le> 3 * attempt_ms late" by (rule mult_le_mono1)
  then show ?thesis unfolding time_left_def by linarith
qed

fun is_request :: "railcom_event \<Rightarrow> bool" where
  "is_request (Pom_Request w h a l cv) = True"
| "is_request _ = False"

lemma run_count:
  assumes "flags_ok s" and "railcom_run es s = (out, s')"
  shows "length (filter is_done out) + (if g_busy s' then 1 else 0) =
         length (filter (\<lambda>x. x = Started) out) + (if g_busy s then 1 else 0)"
  using assms
proof (induction es arbitrary: s out)
  case (Cons e es)
  obtain o1 s1 where 1: "railcom_event_step e s = (o1, s1)" by (cases "railcom_event_step e s")
  obtain o2 s2 where 2: "railcom_run es s1 = (o2, s2)" by (cases "railcom_run es s1")
  have ok: "flags_ok s1" using flags_ok_step [OF Cons.prems(1), of e] 1 by simp
  have out: "out = o1 @ o2" "s' = s2" using Cons.prems(2) 1 2 by simp_all
  from Cons.IH [OF ok, of o2] 2 out step_count [OF Cons.prems(1), of e] 1 show ?case by simp
qed simp

lemma no_start: "\<forall>e\<in>set es. \<not> is_request e \<Longrightarrow> railcom_run es s = (out, s') \<Longrightarrow> Started \<notin> set out"
proof (induction es arbitrary: s out)
  case (Cons e es)
  then show ?case by (cases e) (auto split: prod.splits)
qed simp

lemma busy_quiet:
  assumes "railcom_run es s = (out, s')" and "flags_ok s" and "ring_ok s" and "\<forall>e\<in>set es. \<not> is_request e"
    and "attempt_ms late < 2 ^ 32" and "g_busy s'" and "paced late (turn_times es)"
  shows "elapsed (turn_times es) < 4 * attempt_ms late"
  using assms(1-4,7)
proof (induction es arbitrary: s out)
  case (Cons e es)
  obtain o1 s1 where 1: "railcom_event_step e s = (o1, s1)" by (cases "railcom_event_step e s")
  obtain o2 where 2: "railcom_run es s1 = (o2, s')" "out = o1 @ o2" using Cons.prems(1) 1 by (auto split: prod.splits)
  have ok: "flags_ok s1" "ring_ok s1"
    using flags_ok_step [OF Cons.prems(2), of e] ring_ok_step [OF Cons.prems(3), of e] 1 by simp_all
  have q: "\<forall>e\<in>set es. \<not> is_request e" using Cons.prems(4) by simp
  show ?case
  proof (cases "\<exists>now. e = Task_Turn now")
    case False
    then have "turn_times (e # es) = turn_times es" by (cases e) auto
    then show ?thesis using Cons.IH [OF 2(1) ok q] Cons.prems(5) by simp
  next
    case True
    then obtain now where e: "e = Task_Turn now" by blast
    have none: "filter (\<lambda>x. x = Started) o2 = []" using no_start [OF q 2(1)] by (auto simp: filter_empty_conv)
    have b1: "g_busy s1" using run_count [OF ok(1) 2(1)] assms(6) unfolding none by (cases "g_busy s1") simp_all
    have "g_busy s" using step_count [OF Cons.prems(2), of e] 1 b1 by (auto simp: e split: prod.splits if_splits)
    moreover obtain xs where "task_railcom now s = (xs, s1)" using 1 by (auto simp: e split: prod.splits)
    ultimately have u: "read_under_way now s1" using any_turn [OF Cons.prems(2)] b1 by blast
    obtain n where "read_goes_on late now s1 es o2 s' n \<or> read_ended s1 es o2 n" using read_run [OF 2(1) u ok(2) assms(5)] by blast
    moreover have "\<not> read_ended s1 es o2 n"
      using run_count [OF ok(1) 2(1), unfolded none] assms(6) b1 by (auto simp: read_ended_def)
    ultimately have "elapsed (now # turn_times es) < time_left late now (task_read s1)"
      using Cons.prems(5) by (simp add: read_goes_on_def e)
    then show ?thesis using time_left_start [OF u, of late] by (simp add: e)
  qed
qed (simp add: attempt_ms_def POM_READ_ATTEMPT_MS_def)

lemma alternates:
  assumes "flags_ok s" and "railcom_run es s = (out, s')"
  shows "length (filter is_done (take n out)) \<le> length (filter (\<lambda>x. x = Started) (take n out)) + (if g_busy s then 1 else 0) \<and>
    length (filter (\<lambda>x. x = Started) (take n out)) + (if g_busy s then 1 else 0) \<le> length (filter is_done (take n out)) + 1"
  using assms
proof (induction es arbitrary: s out n)
  case (Cons e es)
  obtain o1 s1 where 1: "railcom_event_step e s = (o1, s1)" by (cases "railcom_event_step e s")
  obtain o2 where 2: "railcom_run es s1 = (o2, s')" using Cons.prems(2) 1 by (auto split: prod.splits)
  have ok: "flags_ok s1" using flags_ok_step [OF Cons.prems(1), of e] 1 by simp
  have out: "out = o1 @ o2" using Cons.prems(2) 1 2 by simp
  have "length o1 \<le> 1" using 1
    by (cases e) (auto simp: railcom_pom_read_def task_railcom_def poll_read_def Let_def split: if_splits prod.splits pom_read_step.splits)
  show ?case
  proof (cases "n < length o1")
    case True
    then have "n = 0" using \<open>length o1 \<le> 1\<close> by linarith
    then show ?thesis by simp
  next
    case False
    then have "take n out = o1 @ take (n - length o1) o2" by (simp add: out)
    then show ?thesis using Cons.IH [OF ok 2, of "n - length o1"] step_count [OF Cons.prems(1), of e] 1 by auto
  qed
qed simp

lemma ring_ok_run: "ring_ok s \<Longrightarrow> ring_ok (fold (\<lambda>e s. snd (railcom_event_step e s)) es s)"
  by (induction es arbitrary: s) (simp_all add: ring_ok_step)

text \<open>
  C21: Each POM read that was started is answered by exactly one callback. In any run of
  requests, cutout interrupts and turns of the task the \<open>done\<close> callbacks and the reads started
  alternate, at every moment of the run: a second request during a read is refused, so a
  callback never belongs to another read. And the callback comes: once no more request is made and the
  task has run for four attempts, waking every \<open>POLL_MS\<close> (at most \<open>late\<close> ms late) as it does while
  a read is under way, nothing is under way and every read started has had its callback.
\<close>

theorem pom_done_once:
  assumes "flags_ok s" and "ring_ok s" and "railcom_run (es @ quiet) s = (out, s')"
    and "\<forall>e\<in>set quiet. \<not> is_request e" and "attempt_ms late < 2 ^ 32"
  shows "(\<forall>n. length (filter is_done (take n out)) \<le> length (filter (\<lambda>x. x = Started) (take n out)) + (if g_busy s then 1 else 0) \<and>
        length (filter (\<lambda>x. x = Started) (take n out)) + (if g_busy s then 1 else 0) \<le> length (filter is_done (take n out)) + 1) \<and>
     length (filter is_done out) + (if g_busy s' then 1 else 0) =
        length (filter (\<lambda>x. x = Started) out) + (if g_busy s then 1 else 0) \<and>
     (paced late (turn_times quiet) \<and> 4 * attempt_ms late \<le> elapsed (turn_times quiet) \<longrightarrow> \<not> g_busy s' \<and>
        length (filter is_done out) = length (filter (\<lambda>x. x = Started) out) + (if g_busy s then 1 else 0))"
proof -
  obtain o1 s1 where 1: "railcom_run es s = (o1, s1)" by (cases "railcom_run es s")
  obtain o2 where 2: "railcom_run quiet s1 = (o2, s')"
    using assms(3) railcom_run_state [of "es @ quiet" s] railcom_run_state [of es s] railcom_run_state [of quiet s1] 1
    by (cases "railcom_run quiet s1") simp
  have ok: "flags_ok s1" "ring_ok s1"
    using railcom.inv_run [OF assms(1), of es] ring_ok_run [OF assms(2), of es] railcom_run_state [of es s] 1 by simp_all
  have "paced late (turn_times quiet) \<and> 4 * attempt_ms late \<le> elapsed (turn_times quiet) \<Longrightarrow> \<not> g_busy s'"
    using busy_quiet [OF 2 ok assms(4,5)] by (auto simp: not_le [symmetric])
  then show ?thesis using alternates [OF assms(1,3)] run_count [OF assms(1,3)] by auto
qed

text \<open>Turns every 10 ms for 1.05 seconds.\<close>

definition witness_turns :: "railcom_event list" where
  "witness_turns = map (\<lambda>i. Task_Turn (10 * word_of_nat i)) [0..<106]"

lemma witness_turns_paced:
  "paced 0 (turn_times witness_turns) \<and> elapsed (turn_times witness_turns) = 1050 \<and> (\<forall>e\<in>set witness_turns. \<not> is_request e)"
  by (simp add: witness_turns_def POLL_MS_def upt_rec)

lemma railcom_boot_ok: "flags_ok railcom_boot" "ring_ok railcom_boot" "\<not> g_busy railcom_boot"
  by (simp_all add: flags_ok_def ring_ok_def railcom_boot_def RING_SIZE_def)

theorem pom_done_once_witness:
  "length (filter is_done (fst (railcom_run ([Pom_Request True True 3 False 29] @ witness_turns) railcom_boot))) = 1"
proof -
  obtain o2 s' where 2: "railcom_run witness_turns (snd (railcom_pom_read True True 3 False 29 railcom_boot)) = (o2, s')"
    by (cases "railcom_run witness_turns (snd (railcom_pom_read True True 3 False 29 railcom_boot))")
  then have run: "railcom_run ([Pom_Request True True 3 False 29] @ witness_turns) railcom_boot = (Started # o2, s')"
    by (simp add: railcom_pom_read_def railcom_boot_def split_beta)
  have "filter (\<lambda>x. x = Started) o2 = []" using no_start [OF _ 2] witness_turns_paced by (auto simp: filter_empty_conv)
  then show ?thesis using pom_done_once [OF railcom_boot_ok(1,2) run, of 0] witness_turns_paced railcom_boot_ok(3)
    unfolding run fst_conv by (simp add: attempt_ms_def POM_READ_ATTEMPT_MS_def POLL_MS_def)
qed

text \<open>
  C22: A read that was asked for ends, and its answer is real. It sends at most four times; then its
  one callback comes, and it carries either a value that was decoded from a cutout of this read's own
  packet, which was in the ring when the task took a turn, or the failure, and that only after
  four attempts. While the callback has not come, the task has run, waking every \<open>POLL_MS\<close> (at most \<open>late\<close> ms
  late), for less than four attempts of 250 ms and one wake-up each. Cutout interrupts and refused
  requests may come at any moment.
\<close>

theorem pom_read_terminates:
  assumes "flags_ok s" and "ring_ok s" and "g_req_pending s" and "railcom_run es s = (out, s')" and "attempt_ms late < 2 ^ 32"
  shows "\<exists>n\<le>4. (out = replicate n (Effect (read_asked s)) \<and> g_busy s' \<and>
        (paced late (turn_times es) \<longrightarrow> elapsed (turn_times es) < 4 * attempt_ms late)) \<or>
     (\<exists>answered v rest. 0 < n \<and> out = replicate n (Effect (read_asked s)) @ Effect (Pom_Done answered v) # rest \<and>
        (if answered then \<exists>c. taken_in s es c \<and> answers_read (pom_read_start (asked_packet s)) v c else n = 4 \<and> v = 0))"
  using assms(1-4)
proof (induction es arbitrary: s out)
  case Nil
  then show ?case by (intro exI [of _ 0]) (auto simp: flags_ok_def attempt_ms_def POM_READ_ATTEMPT_MS_def)
next
  case (Cons e es)
  obtain o1 s1 where 1: "railcom_event_step e s = (o1, s1)" by (cases "railcom_event_step e s")
  obtain o2 where 2: "railcom_run es s1 = (o2, s')" "out = o1 @ o2" using Cons.prems(4) 1 by (auto split: prod.splits)
  have ok: "flags_ok s1" "ring_ok s1"
    using flags_ok_step [OF Cons.prems(1), of e] ring_ok_step [OF Cons.prems(2), of e] 1 by simp_all
  have busy: "g_busy s" using Cons.prems(1,3) by (simp add: flags_ok_def)
  show ?case
  proof (cases "\<exists>now. e = Task_Turn now")
    case False
    note q = quiet_step [OF Cons.prems(1) busy False, unfolded 1 fst_conv snd_conv]
    have same: "read_asked s1 = read_asked s" "asked_packet s1 = asked_packet s" "turn_times (e # es) = turn_times es"
      using False by (simp_all add: read_asked_def asked_packet_def q) (cases e; auto)
    have "g_req_pending s1" using q(4) Cons.prems(3) by simp
    from Cons.IH [OF ok this 2(1)] obtain n where n: "n \<le> 4"
      "(o2 = replicate n (Effect (read_asked s)) \<and> g_busy s' \<and>
          (paced late (turn_times es) \<longrightarrow> elapsed (turn_times es) < 4 * attempt_ms late)) \<or>
       (\<exists>answered v rest. 0 < n \<and> o2 = replicate n (Effect (read_asked s)) @ Effect (Pom_Done answered v) # rest \<and>
          (if answered then \<exists>c. taken_in s1 es c \<and> answers_read (pom_read_start (asked_packet s)) v c else n = 4 \<and> v = 0))"
      unfolding same by blast
    have "taken_in s1 es c \<Longrightarrow> taken_in s (e # es) c" for c using taken_in_Cons [of e s es c] 1 by simp
    then show ?thesis using n 2(2) q(1) unfolding same by (intro exI [of _ n]) (auto split: if_splits)
  next
    case True
    then obtain now where e: "e = Task_Turn now" by blast
    obtain xs where t: "task_railcom now s = (xs, s1)" and o1: "o1 = map Effect xs"
      using 1 by (auto simp: e split: prod.splits)
    note f = first_turn [OF Cons.prems(1,3,2) t]
    have a: "read_asked s1 = read_asked s" by (simp add: read_asked_def f(5))
    obtain n where n: "n = 0 \<or> unat (attempts (task_read s1)) + n \<le> 4" "read_goes_on late now s1 es o2 s' n \<or> read_ended s1 es o2 n"
      using read_run [OF 2(1) f(2) ok(2) assms(5)] by blast
    have n4: "Suc n \<le> 4" using n(1) by (auto simp: f(3))
    have out: "out = Effect (read_asked s) # o2" by (simp add: 2(2) o1 f(1))
    from n(2) show ?thesis
    proof
      assume g: "read_goes_on late now s1 es o2 s' n"
      then show ?thesis using n4 time_left_start [OF f(2), of late]
        by (intro exI [of _ "Suc n"] conjI disjI1) (auto simp: read_goes_on_def out a e)
    next
      assume "read_ended s1 es o2 n"
      then obtain answered v rest where r: "o2 = replicate n (Effect (read_asked s)) @ Effect (Pom_Done answered v) # rest"
        "if answered then \<exists>c. taken_in s1 es c \<and> answers_read (task_read s1) v c else v = 0 \<and> 4 \<le> unat (attempts (task_read s1)) + n"
        unfolding read_ended_def a by blast
      have "taken_in s1 es c \<Longrightarrow> taken_in s (e # es) c" for c using taken_in_Cons [of e s es c] 1 by simp
      moreover have "answers_read (task_read s1) v c = answers_read (pom_read_start (asked_packet s)) v c" for c
        by (simp add: answers_read_def f(6))
      ultimately have "if answered then \<exists>c. taken_in s (e # es) c \<and> answers_read (pom_read_start (asked_packet s)) v c
          else Suc n = 4 \<and> v = 0" using r(2) n4 by (auto simp: f(3) split: if_splits)
      moreover have "out = replicate (Suc n) (Effect (read_asked s)) @ Effect (Pom_Done answered v) # rest" by (simp add: out r(1))
      ultimately show ?thesis using n4 by blast
    qed
  qed
qed

theorem pom_read_terminates_witness:
  "\<exists>n answered v rest. 0 < n \<and> n \<le> 4 \<and>
     fst (railcom_run witness_turns (snd (railcom_pom_read True True 3 False 29 railcom_boot))) =
       replicate n (Effect (Dcc_Pom_Read_Byte 3 False 29 1)) @ Effect (Pom_Done answered v) # rest"
proof -
  let ?s = "snd (railcom_pom_read True True 3 False 29 railcom_boot)"
  obtain out s' where run: "railcom_run witness_turns ?s = (out, s')" by (cases "railcom_run witness_turns ?s")
  have s: "flags_ok ?s" "ring_ok ?s" "g_req_pending ?s" "read_asked ?s = Dcc_Pom_Read_Byte 3 False 29 1"
    by (simp_all add: flags_ok_def ring_ok_def railcom_boot_def railcom_pom_read_def RING_SIZE_def read_asked_def POM_READ_COPIES_def)
  obtain n where "n \<le> 4" and n: "(out = replicate n (Effect (read_asked ?s)) \<and> g_busy s' \<and>
        (paced 0 (turn_times witness_turns) \<longrightarrow> elapsed (turn_times witness_turns) < 4 * attempt_ms 0)) \<or>
     (\<exists>answered v rest. 0 < n \<and> out = replicate n (Effect (read_asked ?s)) @ Effect (Pom_Done answered v) # rest \<and>
        (if answered then \<exists>c. taken_in ?s witness_turns c \<and> answers_read (pom_read_start (asked_packet ?s)) v c else n = 4 \<and> v = 0))"
    using pom_read_terminates [OF s(1-3) run, of 0] by (auto simp: attempt_ms_def POM_READ_ATTEMPT_MS_def POLL_MS_def)
  then obtain answered v rest where "0 < n" "out = replicate n (Effect (read_asked ?s)) @ Effect (Pom_Done answered v) # rest"
    using witness_turns_paced by (auto simp: attempt_ms_def POM_READ_ATTEMPT_MS_def POLL_MS_def)
  then show ?thesis using \<open>n \<le> 4\<close> unfolding run fst_conv s(4) by blast
qed

section \<open>Which decoder answered\<close>

definition read_word :: "u16 \<Rightarrow> bool \<Rightarrow> u16 \<Rightarrow> u32" where
  "read_word a l cv = pr_packet (pom_read_start (packet_build_pom_read_byte a l cv 1 zero_packet))"

lemma encode_first_word:
  assumes "holds p bs" and "4 \<le> length bs"
  shows "\<exists>p' w ws. packet_encode p = Some (p', w # ws) \<and>
           word_bytes w = word_of_nat (length bs + 1) # take 3 bs"
proof -
  from assms have l: "length (pkt_data p) = 6" "pkt_len p = length bs" "length bs \<le> 5"
    and b: "take (length bs) (pkt_data p) = bs" by (auto simp: holds_def pkt_wf_def)
  obtain b0 b1 b2 rest where bs: "bs = b0 # b1 # b2 # rest" "rest \<noteq> []"
    using assms(2) by (auto simp: numeral_eq_Suc Suc_le_length_iff)
  let ?n = "word_of_nat (length bs + 1) :: u8"
  have t: "take (Suc (length bs)) ((pkt_data p)[length bs := xor_bytes bs]) = bs @ [xor_bytes bs]"
    using l b by (simp add: take_Suc_update)
  have "packet_encode p = Some (p\<lparr>pkt_data := (pkt_data p)[length bs := xor_bytes bs], pkt_len := Suc (length bs)\<rparr>,
      encode_loop (bs @ [xor_bytes bs]) (shl (u32_of ?n) 24) 2)"
    using l b t bs(1) by (simp add: packet_encode_def packet_add_checksum_def)
  moreover obtain ws where "encode_loop (bs @ [xor_bytes bs]) (shl (u32_of ?n) 24) 2 =
      (((shl (u32_of ?n) 24 OR shl (u32_of b0) 16) OR shl (u32_of b1) 8) OR u32_of b2) # ws"
    using bs by (simp add: Let_def)
  ultimately show ?thesis using word_bytes_pack(3) by (simp add: bs)
qed

lemma read_word_bytes:
  "word_bytes (read_word a l cv) = word_of_nat (length (address_bytes a l) + 4) # take 3 (address_bytes a l @
     [0xE4 OR u8_of (shr (wire_cv cv) 8 AND 0x03), u8_of (wire_cv cv AND 0xFF)])"
proof -
  have "pkt_shape zero_packet" by (simp add: pkt_shape_def zero_packet_def)
  note h = holds_pom [OF this, of "0xE4" a l cv 0 1]
  have l: "length (address_bytes a l) = 1 \<or> length (address_bytes a l) = 2" by (simp add: address_bytes_def)
  let ?bs = "address_bytes a l @ [0xE4 OR u8_of (shr (wire_cv cv) 8 AND 0x03), u8_of (wire_cv cv AND 0xFF), 0]"
  have "4 \<le> length ?bs" using l by auto
  from encode_first_word [OF h this] obtain p' w ws where
    "packet_encode (packet_build_pom 0xE4 a l cv 0 1 zero_packet) = Some (p', w # ws)"
    "word_bytes w = word_of_nat (length ?bs + 1) # take 3 ?bs" by blast
  then show ?thesis
    using l by (auto simp: read_word_def pom_read_start_def packet_build_pom_read_byte_def)
qed

text \<open>
  An answer is never taken for another decoder's. Two POM reads have the same first
  word only when they are for the same decoder address, as it goes over the rails; so a
  cutout that matches a read followed a packet to that decoder.
\<close>

theorem read_word_identifies_decoder:
  assumes "read_word a l cv = read_word a' l' cv'"
  shows "address_bytes a l = address_bytes a' l'"
proof -
  have "word_bytes (read_word a l cv) = word_bytes (read_word a' l' cv')" using assms by simp
  then show ?thesis unfolding read_word_bytes by (auto simp: address_bytes_def split: if_splits)
qed

text \<open>
  The word does not tell the CV apart: for a long address its three bytes end before the
  low byte of the CV number.
\<close>

lemma read_word_long_same_cv_high:
  assumes "shr (wire_cv cv) 8 AND 0x03 = shr (wire_cv cv') 8 AND 0x03" and "a > SHORT_ADDRESS_MAX_PKT"
  shows "word_bytes (read_word a l cv) = word_bytes (read_word a l cv')"
  using assms unfolding read_word_bytes by (simp add: address_bytes_def)

end
