(* ===== verification/Motor.thy ===== *)
theory Motor
  imports Prelude
begin

text \<open>
  Track power: \<^verbatim>\<open>src/src/motor/motor.h\<close>, \<^verbatim>\<open>motor.c\<close> and \<^verbatim>\<open>src/src/track/track.h\<close>,
  \<^verbatim>\<open>track.c\<close>. The overcurrent state machine of a motor channel, stepped once a
  millisecond by the track monitor while other tasks switch power.

  The conversions between mA and ADC units are floating point and are not modelled: limits
  are in raw units. The tick is one millisecond (\<^verbatim>\<open>src/include/FreeRTOSConfig.h\<close>).
\<close>

section \<open>Timing\<close>

definition MIN_OVERCURRENT_BACKOFF_MS :: u32 where "MIN_OVERCURRENT_BACKOFF_MS = 40"
definition OVERCURRENT_FAULT_WINDOW_MS :: u32 where "OVERCURRENT_FAULT_WINDOW_MS = 5000"
definition ALERT_WINDOW_MS :: u32 where "ALERT_WINDOW_MS = 20"
definition OVERCURRENT_TIMEOUT_MS :: u32 where "OVERCURRENT_TIMEOUT_MS = 100"
definition MAX_RETRY_WINDOW_MS :: u32 where "MAX_RETRY_WINDOW_MS = 10000"

definition portTICK_PERIOD_MS :: u32 where "portTICK_PERIOD_MS = 1"

lemmas motor_times = MIN_OVERCURRENT_BACKOFF_MS_def OVERCURRENT_FAULT_WINDOW_MS_def ALERT_WINDOW_MS_def
  OVERCURRENT_TIMEOUT_MS_def MAX_RETRY_WINDOW_MS_def portTICK_PERIOD_MS_def

section \<open>State\<close>

datatype power_mode = POWER_MODE_OFF | POWER_MODE_ON | POWER_MODE_ALERT | POWER_MODE_OVERLOAD

text \<open>
  \<open>motor_t\<close> without the pin numbers; \<open>power_out\<close> is the level of the output on
  \<open>power_pin\<close>.
\<close>

record motor =
  power_out :: bool
  current_limit :: u16
  limit_override :: u16
  last_reading :: u16
  alert_peak :: u16
  pstate :: power_mode
  prev_state :: power_mode
  state_entered_tick :: u32
  last_bad_tick :: u32
  overcurrent_backoff_ms :: u32

text \<open>\<open>limit\<close> is the limit in raw ADC units, \<open>motor_ma_to_raw (current_limit_ma)\<close>.\<close>

definition motor_init :: "u16 \<Rightarrow> motor" where
  "motor_init limit = \<lparr>power_out = False, current_limit = limit, limit_override = 0, last_reading = 0,
     alert_peak = 0, pstate = POWER_MODE_OFF, prev_state = POWER_MODE_OFF, state_entered_tick = 0,
     last_bad_tick = 0, overcurrent_backoff_ms = MIN_OVERCURRENT_BACKOFF_MS\<rparr>"

definition motor_set_current_limit :: "u16 \<Rightarrow> motor \<Rightarrow> motor" where
  "motor_set_current_limit limit m = m\<lparr>current_limit := limit\<rparr>"

definition motor_override_limit :: "u16 \<Rightarrow> motor \<Rightarrow> motor" where
  "motor_override_limit raw m = m\<lparr>limit_override := raw\<rparr>"

definition trip_limit :: "motor \<Rightarrow> u16" where
  "trip_limit m = (if limit_override m \<noteq> 0 then limit_override m else current_limit m)"

definition ms_since :: "u32 \<Rightarrow> u32 \<Rightarrow> u32" where
  "ms_since now tick = (now - tick) * portTICK_PERIOD_MS"

definition motor_check_overcurrent :: "u16 \<Rightarrow> motor \<Rightarrow> bool \<times> motor" where
  "motor_check_overcurrent raw m =
     (let m = m\<lparr>last_reading := raw\<rparr> in (last_reading m > trip_limit m, m))"

section \<open>Switching\<close>

definition apply_mode :: "u32 \<Rightarrow> power_mode \<Rightarrow> motor \<Rightarrow> motor" where
  "apply_mode now mode m =
     (if pstate m = mode then m
      else m\<lparr>power_out := (mode = POWER_MODE_ON \<or> mode = POWER_MODE_ALERT),
             state_entered_tick := now, pstate := mode\<rparr>)"

definition motor_transition :: "u32 \<Rightarrow> power_mode \<Rightarrow> power_mode \<Rightarrow> motor \<Rightarrow> bool \<times> motor" where
  "motor_transition now from to m =
     (let ok = (pstate m = from) in (ok, if ok then apply_mode now to m else m))"

definition motor_set_power :: "u32 \<Rightarrow> bool \<Rightarrow> motor \<Rightarrow> motor" where
  "motor_set_power now on m =
     (if \<not> on then apply_mode now POWER_MODE_OFF m
      else if pstate m = POWER_MODE_OFF then apply_mode now POWER_MODE_ON m
      else m)"

definition motor_is_on :: "motor \<Rightarrow> bool" where
  "motor_is_on m \<longleftrightarrow> pstate m = POWER_MODE_ON \<or> pstate m = POWER_MODE_ALERT"

section \<open>The track monitor\<close>

text \<open>
  One step of the monitor sees the fault pin, the current reading and the clock, and other
  tasks may switch power while it runs. \<open>mid\<close> are the power commands (with their times)
  that land after the step has read the state and before its transition, and \<open>now'\<close> is
  the time of the transition.
\<close>

record sensors =
  s_fault :: bool
  s_raw :: u16
  s_now :: u32
  s_mid :: "(u32 \<times> bool) list"
  s_now' :: u32

definition other_tasks :: "sensors \<Rightarrow> motor \<Rightarrow> motor" where
  "other_tasks e m = fold (\<lambda>(t, on). motor_set_power t on) (s_mid e) m"

definition handle_on_state :: "sensors \<Rightarrow> motor \<Rightarrow> motor" where
  "handle_on_state e m =
     (case motor_check_overcurrent (s_raw e) m of
        (overcurrent, m) \<Rightarrow>
          if \<not> overcurrent \<and> \<not> s_fault e
          then other_tasks e
                 (if ms_since (s_now e) (state_entered_tick m) > OVERCURRENT_FAULT_WINDOW_MS
                  then m\<lparr>overcurrent_backoff_ms := MIN_OVERCURRENT_BACKOFF_MS\<rparr> else m)
          else case motor_transition (s_now' e) POWER_MODE_ON POWER_MODE_ALERT (other_tasks e m) of
                 (ok, m) \<Rightarrow> if \<not> ok then m else m\<lparr>alert_peak := last_reading m\<rparr>)"

definition handle_alert_state :: "sensors \<Rightarrow> motor \<Rightarrow> motor" where
  "handle_alert_state e m =
     (let elapsed = ms_since (s_now e) (state_entered_tick m)
      in case motor_check_overcurrent (s_raw e) m of
        (overcurrent, m) \<Rightarrow>
          (let m = (if last_reading m > alert_peak m then m\<lparr>alert_peak := last_reading m\<rparr> else m)
           in if s_fault e \<or> overcurrent
              then let m = m\<lparr>last_bad_tick := s_now e\<rparr>
                   in if elapsed < OVERCURRENT_TIMEOUT_MS then other_tasks e m
                      else snd (motor_transition (s_now' e) POWER_MODE_ALERT POWER_MODE_OVERLOAD (other_tasks e m))
              else if elapsed > ALERT_WINDOW_MS
                   then snd (motor_transition (s_now' e) POWER_MODE_ALERT POWER_MODE_ON (other_tasks e m))
                   else other_tasks e m))"

definition handle_overload_state :: "sensors \<Rightarrow> motor \<Rightarrow> motor" where
  "handle_overload_state e m =
     (if ms_since (s_now e) (state_entered_tick m) < overcurrent_backoff_ms m then other_tasks e m
      else case motor_transition (s_now' e) POWER_MODE_OVERLOAD POWER_MODE_ALERT (other_tasks e m) of
             (ok, m) \<Rightarrow>
               if \<not> ok then m
               else let b = overcurrent_backoff_ms m * 2
                    in m\<lparr>overcurrent_backoff_ms := (if b > MAX_RETRY_WINDOW_MS then MAX_RETRY_WINDOW_MS else b)\<rparr>)"

definition motor_update :: "sensors \<Rightarrow> motor \<Rightarrow> motor" where
  "motor_update e m =
     (let m = (case pstate m of
                 POWER_MODE_OFF \<Rightarrow> other_tasks e (m\<lparr>overcurrent_backoff_ms := MIN_OVERCURRENT_BACKOFF_MS\<rparr>)
               | POWER_MODE_ON \<Rightarrow> handle_on_state e m
               | POWER_MODE_ALERT \<Rightarrow> handle_alert_state e m
               | POWER_MODE_OVERLOAD \<Rightarrow> handle_overload_state e m)
      in m\<lparr>prev_state := pstate m\<rparr>)"

text \<open>\<open>task_track_monitor\<close>: one turn over all motors.\<close>

definition task_track_monitor :: "sensors list \<Rightarrow> motor list \<Rightarrow> motor list" where
  "task_track_monitor es ms = map2 motor_update es ms"

section \<open>Tracks: \<open>track.c\<close>\<close>

datatype track_mode = TRACK_MODE_MAIN | TRACK_MODE_PROG

record track =
  track_motor :: motor
  track_mode :: track_mode
  power_on :: bool

definition track_init :: "track_mode \<Rightarrow> motor \<Rightarrow> track" where
  "track_init mode m = \<lparr>track_motor = m, track_mode = mode, power_on = False\<rparr>"

definition track_set_power :: "u32 \<Rightarrow> bool \<Rightarrow> track \<Rightarrow> track" where
  "track_set_power tick on t = t\<lparr>power_on := on, track_motor := motor_set_power tick on (track_motor t)\<rparr>"

definition track_is_powered :: "track \<Rightarrow> bool" where
  "track_is_powered t \<longleftrightarrow> power_on t \<and> motor_is_on (track_motor t)"

section \<open>Invariant\<close>

text \<open>The pin follows the state, and the backoff stays between its bounds.\<close>

definition motor_ok :: "motor \<Rightarrow> bool" where
  "motor_ok m \<longleftrightarrow> power_out m = motor_is_on m \<and>
     MIN_OVERCURRENT_BACKOFF_MS \<le> overcurrent_backoff_ms m \<and> overcurrent_backoff_ms m \<le> MAX_RETRY_WINDOW_MS"

lemma apply_mode_fields [simp]:
  "pstate (apply_mode t k m) = k" "overcurrent_backoff_ms (apply_mode t k m) = overcurrent_backoff_ms m"
  "last_reading (apply_mode t k m) = last_reading m" "current_limit (apply_mode t k m) = current_limit m"
  "limit_override (apply_mode t k m) = limit_override m"
  by (simp_all add: apply_mode_def)

lemma apply_mode_ok: "motor_ok m \<Longrightarrow> motor_ok (apply_mode t k m)"
  by (auto simp: motor_ok_def motor_is_on_def apply_mode_def)

lemma set_power_ok: "motor_ok m \<Longrightarrow> motor_ok (motor_set_power t on m)"
  by (simp add: motor_set_power_def apply_mode_ok)

lemma other_tasks_ok: "motor_ok m \<Longrightarrow> motor_ok (other_tasks e m)"
proof -
  have "motor_ok m \<Longrightarrow> motor_ok (fold (\<lambda>(t, on). motor_set_power t on) cs m)" for cs
    by (induction cs arbitrary: m) (auto intro: set_power_ok)
  then show "motor_ok m \<Longrightarrow> motor_ok (other_tasks e m)" by (simp add: other_tasks_def)
qed

lemma motor_ok_fields [simp]:
  "motor_ok (m\<lparr>last_reading := r\<rparr>) = motor_ok m" "motor_ok (m\<lparr>alert_peak := r\<rparr>) = motor_ok m"
  "motor_ok (m\<lparr>prev_state := k\<rparr>) = motor_ok m" "motor_ok (m\<lparr>last_bad_tick := t\<rparr>) = motor_ok m"
  "motor_ok (m\<lparr>limit_override := r\<rparr>) = motor_ok m" "motor_ok (m\<lparr>current_limit := r\<rparr>) = motor_ok m"
  by (simp_all add: motor_ok_def motor_is_on_def)

lemma motor_ok_min_backoff: "motor_ok m \<Longrightarrow> motor_ok (m\<lparr>overcurrent_backoff_ms := MIN_OVERCURRENT_BACKOFF_MS\<rparr>)"
  by (simp add: motor_ok_def motor_is_on_def motor_times)

lemma transition_ok: "motor_ok m \<Longrightarrow> motor_ok (snd (motor_transition t a b m))"
  by (simp add: motor_transition_def Let_def apply_mode_ok)

lemma backoff_doubled:
  assumes "MIN_OVERCURRENT_BACKOFF_MS \<le> b" and "b \<le> MAX_RETRY_WINDOW_MS"
  shows "MIN_OVERCURRENT_BACKOFF_MS \<le> b * 2" and "unat (b * 2) = 2 * unat b"
proof -
  have b: "40 \<le> unat b" "unat b \<le> 10000" using assms by (simp_all add: motor_times word_le_nat_alt)
  then show "unat (b * 2) = 2 * unat b" by (simp add: unat_word_ariths)
  with b show "MIN_OVERCURRENT_BACKOFF_MS \<le> b * 2" by (simp add: motor_times word_le_nat_alt)
qed

definition double_backoff :: "motor \<Rightarrow> motor" where
  "double_backoff m = m\<lparr>overcurrent_backoff_ms := (if overcurrent_backoff_ms m * 2 > MAX_RETRY_WINDOW_MS
     then MAX_RETRY_WINDOW_MS else overcurrent_backoff_ms m * 2)\<rparr>"

lemma double_backoff_ok:
  assumes "motor_ok m"
  shows "motor_ok (double_backoff m)"
proof (cases "overcurrent_backoff_ms m * 2 > MAX_RETRY_WINDOW_MS")
  case True
  with assms show ?thesis by (simp add: double_backoff_def motor_ok_def motor_is_on_def motor_times)
next
  case False
  have "MIN_OVERCURRENT_BACKOFF_MS \<le> overcurrent_backoff_ms m * 2"
    using assms by (intro backoff_doubled(1)) (simp_all add: motor_ok_def)
  with False assms show ?thesis
    by (simp add: double_backoff_def motor_ok_def motor_is_on_def)
qed

lemma handle_overload_eq:
  "handle_overload_state e m =
     (if ms_since (s_now e) (state_entered_tick m) < overcurrent_backoff_ms m then other_tasks e m
      else if pstate (other_tasks e m) = POWER_MODE_OVERLOAD
      then double_backoff (apply_mode (s_now' e) POWER_MODE_ALERT (other_tasks e m))
      else other_tasks e m)"
  by (simp add: handle_overload_state_def motor_transition_def double_backoff_def Let_def)

lemma overload_ok: "motor_ok m \<Longrightarrow> motor_ok (handle_overload_state e m)"
  unfolding handle_overload_eq by (simp add: double_backoff_ok apply_mode_ok other_tasks_ok)

lemma motor_update_ok:
  assumes "motor_ok m"
  shows "motor_ok (motor_update e m)"
proof -
  have on: "motor_ok (handle_on_state e m)"
    using assms transition_ok [OF other_tasks_ok, of "m\<lparr>last_reading := s_raw e\<rparr>" "s_now' e" POWER_MODE_ON POWER_MODE_ALERT e]
    by (auto simp: handle_on_state_def motor_check_overcurrent_def Let_def motor_ok_min_backoff
        intro!: other_tasks_ok split: prod.splits)
  have al: "motor_ok (handle_alert_state e m)"
    using assms by (auto simp: handle_alert_state_def motor_check_overcurrent_def Let_def
        intro!: other_tasks_ok transition_ok split: prod.splits)
  show ?thesis
    using assms on al overload_ok [OF assms, of e]
    by (auto simp: motor_update_def Let_def motor_ok_min_backoff intro!: other_tasks_ok split: power_mode.splits)
qed

section \<open>Runs\<close>

datatype motor_event = Monitor sensors | Power u32 bool | Override_Limit u16 | Set_Limit u16

fun motor_event_step :: "motor_event \<Rightarrow> motor \<Rightarrow> motor" where
  "motor_event_step (Monitor e) m = motor_update e m"
| "motor_event_step (Power t on) m = motor_set_power t on m"
| "motor_event_step (Override_Limit r) m = motor_override_limit r m"
| "motor_event_step (Set_Limit r) m = motor_set_current_limit r m"

definition motor_start :: "motor \<Rightarrow> bool" where
  "motor_start m \<longleftrightarrow> (\<exists>limit. m = motor_init limit)"

interpretation motor: invariant_system motor_start motor_event_step motor_ok
proof unfold_locales
  show "motor_start m \<Longrightarrow> motor_ok m" for m
    by (auto simp: motor_start_def motor_init_def motor_ok_def motor_is_on_def motor_times)
  show "motor_ok m \<Longrightarrow> motor_ok (motor_event_step e m)" for e m
    by (cases e) (simp_all add: motor_update_ok set_power_ok motor_override_limit_def motor_set_current_limit_def)
qed

text \<open>
  The power pin is high exactly in the states ON and ALERT, and the overload backoff
  stays between 40 ms and 10 s, in every state reachable by monitor steps, power commands
  and limit changes, with other tasks' power commands landing inside the steps.
\<close>

lemma motor_invariant:
  "motor_ok (fold motor_event_step es (motor_init limit))"
  by (rule motor.inv_reachable) (auto simp: motor_start_def)

text \<open>Does an event, or a power command inside a step, switch the track on?\<close>

fun switches_on :: "motor_event \<Rightarrow> bool" where
  "switches_on (Monitor e) = (\<exists>(t, on)\<in>set (s_mid e). on)"
| "switches_on (Power t on) = on"
| "switches_on _ = False"

lemma other_tasks_off:
  "\<forall>(t, on)\<in>set (s_mid e). \<not> on \<Longrightarrow> pstate m = POWER_MODE_OFF \<Longrightarrow> pstate (other_tasks e m) = POWER_MODE_OFF"
proof -
  have "\<forall>(t, on)\<in>set cs. \<not> on \<Longrightarrow> pstate m = POWER_MODE_OFF \<Longrightarrow>
      pstate (fold (\<lambda>(t, on). motor_set_power t on) cs m) = POWER_MODE_OFF" for cs
    by (induction cs arbitrary: m) (auto simp: motor_set_power_def)
  then show "\<forall>(t, on)\<in>set (s_mid e). \<not> on \<Longrightarrow> pstate m = POWER_MODE_OFF \<Longrightarrow> pstate (other_tasks e m) = POWER_MODE_OFF"
    by (simp add: other_tasks_def)
qed

lemma other_tasks_last_off:
  "s_mid e = cs @ [(t, False)] \<Longrightarrow> pstate (other_tasks e m) = POWER_MODE_OFF"
  by (simp add: other_tasks_def motor_set_power_def)

lemma update_last_off:
  assumes "s_mid e = cs @ [(t, False)]"
  shows "pstate (motor_update e m) = POWER_MODE_OFF"
  using other_tasks_last_off [OF assms]
  by (auto simp: motor_update_def Let_def handle_on_state_def handle_alert_state_def handle_overload_eq
      motor_check_overcurrent_def motor_transition_def split: power_mode.splits prod.splits)

lemma update_stays_off:
  assumes "\<forall>(t, on)\<in>set (s_mid e). \<not> on" and "pstate m = POWER_MODE_OFF"
  shows "pstate (motor_update e m) = POWER_MODE_OFF"
  using other_tasks_off [OF assms(1), of "m\<lparr>overcurrent_backoff_ms := MIN_OVERCURRENT_BACKOFF_MS\<rparr>"] assms(2)
  by (simp add: motor_update_def Let_def)

definition bad_reading :: "motor \<Rightarrow> sensors \<Rightarrow> bool" where
  "bad_reading m e \<longleftrightarrow> s_fault e \<or> s_raw e > trip_limit m"

definition short_step :: "u32 \<Rightarrow> (u32 \<times> bool) list \<Rightarrow> sensors" where
  "short_step t cs = \<lparr>s_fault = True, s_raw = 0, s_now = t, s_mid = cs, s_now' = t\<rparr>"

text \<open>
  C5: Off always wins. A power-off command, given between two steps of the monitor or in
  the middle of one, after whatever else happened in it, leaves the track off; and it stays
  off, the pin low, whatever the sensors show, until a command switches it on.
\<close>

theorem off_always_wins:
  assumes "motor_ok m" and "\<forall>ev\<in>set es. \<not> switches_on ev"
    and "first = Power t False \<or> (\<exists>e cs. first = Monitor e \<and> s_mid e = cs @ [(t, False)])"
  shows "pstate (fold motor_event_step (first # es) m) = POWER_MODE_OFF \<and>
         \<not> power_out (fold motor_event_step (first # es) m)"
proof -
  have 1: "pstate (motor_event_step first m) = POWER_MODE_OFF"
    using assms(3) update_last_off by (auto simp: motor_set_power_def)
  have "pstate k = POWER_MODE_OFF \<Longrightarrow> pstate (fold motor_event_step es k) = POWER_MODE_OFF" for k
    using assms(2)
  proof (induction es arbitrary: k)
    case (Cons ev es)
    have "pstate (motor_event_step ev k) = POWER_MODE_OFF"
      using Cons.prems update_stays_off [of _ k]
      by (cases ev) (auto simp: motor_set_power_def motor_override_limit_def motor_set_current_limit_def
          case_prod_beta)
    with Cons show ?case by simp
  qed simp
  with 1 have off: "pstate (fold motor_event_step (first # es) m) = POWER_MODE_OFF" by simp
  moreover have "motor_ok (fold motor_event_step (first # es) m)"
    by (rule motor.inv_run [OF assms(1)])
  ultimately show ?thesis by (simp add: motor_ok_def motor_is_on_def)
qed

theorem off_always_wins_witness:
  "pstate (fold motor_event_step [Monitor (short_step 7 [(7, True), (7, False)]), Monitor (short_step 200 [])]
     (motor_set_power 1 True (motor_init 100))) = POWER_MODE_OFF"
proof -
  have ok: "motor_ok (motor_set_power 1 True (motor_init 100))"
    by (rule set_power_ok) (simp add: motor_init_def motor_ok_def motor_is_on_def motor_times)
  have "\<exists>e cs. Monitor (short_step 7 [(7, True), (7, False)]) = Monitor e \<and> s_mid e = cs @ [(7, False)]"
    by (simp add: short_step_def)
  with off_always_wins [OF ok, of "[Monitor (short_step 200 [])]"
      "Monitor (short_step 7 [(7, True), (7, False)])" 7]
  show ?thesis by (simp add: short_step_def)
qed

lemma trip_limit_fields [simp]:
  "trip_limit (m\<lparr>last_reading := r\<rparr>) = trip_limit m" "trip_limit (m\<lparr>alert_peak := r\<rparr>) = trip_limit m"
  "trip_limit (m\<lparr>prev_state := k\<rparr>) = trip_limit m" "trip_limit (m\<lparr>last_bad_tick := t\<rparr>) = trip_limit m"
  "trip_limit (apply_mode t k m) = trip_limit m"
  by (simp_all add: trip_limit_def)

lemma update_quiet_alert:
  assumes "pstate m = POWER_MODE_ALERT" and "s_mid e = []" and "bad_reading m e"
  shows "pstate (motor_update e m) =
      (if ms_since (s_now e) (state_entered_tick m) < OVERCURRENT_TIMEOUT_MS then POWER_MODE_ALERT
       else POWER_MODE_OVERLOAD)"
    and "trip_limit (motor_update e m) = trip_limit m"
    and "pstate (motor_update e m) = POWER_MODE_ALERT \<Longrightarrow>
         state_entered_tick (motor_update e m) = state_entered_tick m"
  using assms
  by (auto simp: motor_update_def handle_alert_state_def motor_check_overcurrent_def Let_def other_tasks_def
      motor_transition_def bad_reading_def)

lemma update_quiet_on:
  assumes "pstate m = POWER_MODE_ON" and "s_mid e = []" and "bad_reading m e"
  shows "pstate (motor_update e m) = POWER_MODE_ALERT" and "trip_limit (motor_update e m) = trip_limit m"
    and "state_entered_tick (motor_update e m) = s_now' e"
  using assms
  by (auto simp: motor_update_def handle_on_state_def motor_check_overcurrent_def Let_def other_tasks_def
      motor_transition_def bad_reading_def apply_mode_def trip_limit_def)

lemma alert_trips:
  assumes "pstate m = POWER_MODE_ALERT" and "motor_ok m"
    and "\<forall>e\<in>set es. s_mid e = [] \<and> bad_reading m e"
    and "\<exists>e\<in>set es. ms_since (s_now e) (state_entered_tick m) \<ge> OVERCURRENT_TIMEOUT_MS"
  shows "\<exists>k\<le>length es. pstate (fold motor_update (take k es) m) = POWER_MODE_OVERLOAD"
  using assms
proof (induction es arbitrary: m)
  case (Cons e es)
  note q = update_quiet_alert [OF Cons.prems(1)]
  have e: "s_mid e = []" "bad_reading m e" using Cons.prems(3) by auto
  show ?case
  proof (cases "ms_since (s_now e) (state_entered_tick m) < OVERCURRENT_TIMEOUT_MS")
    case False
    then have "pstate (motor_update e m) = POWER_MODE_OVERLOAD" using q(1) [OF e] by simp
    then show ?thesis by (intro exI [of _ 1]) simp
  next
    case True
    then have a: "pstate (motor_update e m) = POWER_MODE_ALERT" using q(1) [OF e] by simp
    have "\<exists>k\<le>length es. pstate (fold motor_update (take k es) (motor_update e m)) = POWER_MODE_OVERLOAD"
      using Cons.prems True a q(2,3) [OF e] motor_update_ok [OF Cons.prems(2)]
      by (intro Cons.IH [OF a]) (auto simp: bad_reading_def)
    then obtain k where "k \<le> length es"
      "pstate (fold motor_update (take k es) (motor_update e m)) = POWER_MODE_OVERLOAD" by blast
    then show ?thesis by (intro exI [of _ "Suc k"]) simp
  qed
qed simp

text \<open>
  C27: A lasting short cuts the power. If a track that is on has a fault or is over its trip
  limit at every step of the monitor, the power pin is low at the latest after the first
  step that comes 100 ms or more after the alert began.
\<close>

theorem short_trips:
  assumes "motor_ok m" and "pstate m = POWER_MODE_ON"
    and "\<forall>e\<in>set (e0 # es). s_mid e = [] \<and> bad_reading m e"
    and "\<exists>e\<in>set es. ms_since (s_now e) (s_now' e0) \<ge> OVERCURRENT_TIMEOUT_MS"
  shows "\<exists>k\<le>length (e0 # es). \<not> power_out (fold motor_update (take k (e0 # es)) m)"
proof -
  have e0: "s_mid e0 = []" "bad_reading m e0" using assms(3) by auto
  note q = update_quiet_on [OF assms(2) e0]
  have ok: "motor_ok (motor_update e0 m)" by (rule motor_update_ok [OF assms(1)])
  have "\<exists>k\<le>length es. pstate (fold motor_update (take k es) (motor_update e0 m)) = POWER_MODE_OVERLOAD"
    by (rule alert_trips [OF q(1) ok]) (use assms q in \<open>auto simp: bad_reading_def\<close>)
  then obtain k where k: "k \<le> length es"
    "pstate (fold motor_update (take k es) (motor_update e0 m)) = POWER_MODE_OVERLOAD" by blast
  have "motor_ok (fold motor_update (take k es) (motor_update e0 m))"
  proof -
    have "(\<lambda>x. motor_event_step (Monitor x)) = motor_update" by (intro ext) simp
    then show ?thesis
      using motor.inv_run [OF ok, of "map Monitor (take k es)"] by (simp add: fold_map comp_def)
  qed
  with k show ?thesis
    by (intro exI [of _ "Suc k"]) (simp add: motor_ok_def motor_is_on_def)
qed

theorem short_trips_witness:
  "\<exists>k\<le>length [short_step 10 [], short_step 60 [], short_step 111 []].
     \<not> power_out (fold motor_update (take k [short_step 10 [], short_step 60 [], short_step 111 []])
     (motor_set_power 1 True (motor_init 100)))"
proof -
  have ok: "motor_ok (motor_set_power 1 True (motor_init 100))"
    by (rule set_power_ok) (simp add: motor_init_def motor_ok_def motor_is_on_def motor_times)
  have "pstate (motor_set_power 1 True (motor_init 100)) = POWER_MODE_ON"
    by (simp add: motor_set_power_def motor_init_def)
  then show ?thesis
    by (rule short_trips [OF ok]) (simp_all add: short_step_def bad_reading_def ms_since_def motor_times)
qed

text \<open>
  C40: The overload backoff. A tripped track that no one switches stays off until the
  backoff has passed since the trip; the first step after that tries again, in ALERT, and
  doubles the backoff, up to ten seconds.
\<close>

theorem overload_backoff:
  assumes "motor_ok m" and "pstate m = POWER_MODE_OVERLOAD" and "s_mid e = []"
  shows "if ms_since (s_now e) (state_entered_tick m) < overcurrent_backoff_ms m
         then pstate (motor_update e m) = POWER_MODE_OVERLOAD \<and> \<not> power_out (motor_update e m) \<and>
              overcurrent_backoff_ms (motor_update e m) = overcurrent_backoff_ms m
         else pstate (motor_update e m) = POWER_MODE_ALERT \<and> power_out (motor_update e m) \<and>
              unat (overcurrent_backoff_ms (motor_update e m)) =
                min (2 * unat (overcurrent_backoff_ms m)) 10000"
proof -
  have b: "unat (overcurrent_backoff_ms m * 2) = 2 * unat (overcurrent_backoff_ms m)"
    using assms(1) by (intro backoff_doubled(2)) (simp_all add: motor_ok_def)
  have "\<not> power_out m" using assms by (simp add: motor_ok_def motor_is_on_def)
  moreover have "unat MAX_RETRY_WINDOW_MS = 10000" by (simp add: motor_times)
  ultimately show ?thesis
    using assms(2,3) b
    by (auto simp: motor_update_def Let_def handle_overload_eq other_tasks_def double_backoff_def
        apply_mode_def word_less_nat_alt min_def)
qed

theorem overload_backoff_witness:
  "unat (overcurrent_backoff_ms (motor_update (short_step 150 [])
     ((motor_init 100)\<lparr>pstate := POWER_MODE_OVERLOAD, state_entered_tick := 100\<rparr>))) = 80"
proof -
  let ?m = "(motor_init 100)\<lparr>pstate := POWER_MODE_OVERLOAD, state_entered_tick := 100\<rparr>"
  have "motor_ok ?m" by (simp add: motor_init_def motor_ok_def motor_is_on_def motor_times)
  from overload_backoff [OF this, of "short_step 150 []"] show ?thesis
    by (simp add: short_step_def ms_since_def motor_init_def motor_times)
qed

end
