(* ===== verification/Svc_Cv.thy ===== *)
theory Svc_Cv
  imports Packet
begin

text \<open>
  Service Mode CV access, \<^verbatim>\<open>src/src/servicemode/svc_cv.c\<close> and \<^verbatim>\<open>svc_cv.h\<close>: reading a CV bit by bit
  with a confirming byte verify, and writing it. The step that sends an instruction and listens
  for the acknowledgement is an argument, as it is a callback of the code; the instructions are
  read back from the bytes of the packets as a decoder does.
\<close>

datatype svc_result = SVC_OK | SVC_NO_ACK | SVC_NO_LOCO | SVC_SHORT | SVC_BUSY | SVC_UNAVAILABLE

text \<open>
  \<open>svc_io_t\<close>: one instruction sent and listened for, on the state \<open>'c\<close> of the hardware and the
  decoder, with its result and whether the decoder acknowledged.
\<close>

type_synonym 'c svc_io = "dcc_packet \<Rightarrow> 'c \<Rightarrow> (svc_result \<times> bool) \<times> 'c"

definition READ_ATTEMPTS :: nat where "READ_ATTEMPTS = 2"

definition svc_packet :: dcc_packet where
  "svc_packet = zero_packet\<lparr>pkt_in_use := True\<rparr>"

definition verify_byte :: "'c svc_io \<Rightarrow> u16 \<Rightarrow> u8 \<Rightarrow> 'c \<Rightarrow> (svc_result \<times> bool) \<times> 'c" where
  "verify_byte send cv value c = send (packet_build_svc_verify_byte cv value svc_packet) c"

text \<open>The loop over the bits: what was read so far and whether anything answered.\<close>

fun read_bits :: "'c svc_io \<Rightarrow> u16 \<Rightarrow> nat list \<Rightarrow> u8 \<Rightarrow> bool \<Rightarrow> 'c \<Rightarrow> (svc_result \<times> u8 \<times> bool) \<times> 'c" where
  "read_bits send cv [] v any_ack c = ((SVC_OK, v, any_ack), c)"
| "read_bits send cv (b # bs) v any_ack c =
     (case send (packet_build_svc_verify_bit cv (of_nat b) True svc_packet) c of
        ((r, ack), c') \<Rightarrow>
          (if r \<noteq> SVC_OK then ((r, v, any_ack), c')
           else if ack then read_bits send cv bs (v OR shl 1 b) True c'
           else read_bits send cv bs v any_ack c'))"

fun read_attempts :: "'c svc_io \<Rightarrow> u16 \<Rightarrow> nat \<Rightarrow> bool \<Rightarrow> 'c \<Rightarrow> (svc_result \<times> u8 option) \<times> 'c" where
  "read_attempts send cv 0 any_ack c = (((if any_ack then SVC_NO_ACK else SVC_NO_LOCO), None), c)"
| "read_attempts send cv (Suc n) any_ack c =
     (case read_bits send cv [0..<8] 0 any_ack c of
        ((r, v, any_ack), c1) \<Rightarrow>
          (if r \<noteq> SVC_OK then ((r, None), c1)
           else case verify_byte send cv v c1 of
             ((r, ack), c2) \<Rightarrow>
               (if r \<noteq> SVC_OK then ((r, None), c2)
                else if ack then ((SVC_OK, Some v), c2)
                else read_attempts send cv n any_ack c2)))"

text \<open>The result and, with \<open>SVC_OK\<close> only, the value stored through \<open>value\<close>.\<close>

definition svc_cv_read :: "'c svc_io \<Rightarrow> u16 \<Rightarrow> 'c \<Rightarrow> (svc_result \<times> u8 option) \<times> 'c" where
  "svc_cv_read send cv c = read_attempts send cv READ_ATTEMPTS False c"

definition svc_cv_write :: "'c svc_io \<Rightarrow> u16 \<Rightarrow> u8 \<Rightarrow> 'c \<Rightarrow> svc_result \<times> 'c" where
  "svc_cv_write send cv value c =
     (case send (packet_build_svc_write_byte cv value svc_packet) c of
        ((r, ack), c1) \<Rightarrow>
          (if r \<noteq> SVC_OK then (r, c1)
           else if ack then (SVC_OK, c1)
           else case verify_byte send cv value c1 of
             ((r, ack), c2) \<Rightarrow> (if r \<noteq> SVC_OK then (r, c2) else (if ack then SVC_OK else SVC_NO_ACK, c2))))"

section \<open>The decoder's side\<close>

text \<open>The Direct mode instructions of S-9.2.3 as a decoder reads them from the bytes of a packet.\<close>

datatype svc_instruction = Verify_Byte u16 u8 | Write_Byte u16 u8 | Verify_Bit u16 nat bool

fun decode_svc :: "u8 list \<Rightarrow> svc_instruction option" where
  "decode_svc [a, b, v] =
     (let cv = (shl (u16_of (a AND 0x03)) 8 OR u16_of b) + 1
      in if a AND 0xFC = 0x7C then Some (Write_Byte cv v)
         else if a AND 0xFC = 0x74 then Some (Verify_Byte cv v)
         else if a AND 0xFC = 0x78 \<and> v AND 0xF0 = 0xE0 then Some (Verify_Bit cv (unat (v AND 0x07)) (v AND 0x08 \<noteq> 0))
         else None)"
| "decode_svc _ = None"

text \<open>
  A decoder that follows S-9.2.3 and a line without faults: a verify is acknowledged exactly
  when it holds, a write is stored and may or may not be acknowledged.
\<close>

definition compliant :: "'c svc_io \<Rightarrow> ('c \<Rightarrow> u16 \<Rightarrow> u8) \<Rightarrow> bool" where
  "compliant send cvs \<longleftrightarrow>
     (\<forall>p c cv v. decode_svc (pkt_bytes p) = Some (Verify_Byte cv v) \<longrightarrow>
        fst (send p c) = (SVC_OK, cvs c cv = v) \<and> cvs (snd (send p c)) = cvs c) \<and>
     (\<forall>p c cv b x. decode_svc (pkt_bytes p) = Some (Verify_Bit cv b x) \<longrightarrow>
        fst (send p c) = (SVC_OK, bit (cvs c cv) b = x) \<and> cvs (snd (send p c)) = cvs c) \<and>
     (\<forall>p c cv v. decode_svc (pkt_bytes p) = Some (Write_Byte cv v) \<longrightarrow>
        fst (fst (send p c)) = SVC_OK \<and> cvs (snd (send p c)) = (cvs c)(cv := v))"

lemma svc_packet_shape [simp]: "pkt_shape svc_packet"
  by (simp add: svc_packet_def zero_packet_def pkt_shape_def)

lemma svc_packet_instructions:
  assumes "1 \<le> cv" and "cv \<le> 1024"
  shows "decode_svc (pkt_bytes (packet_build_svc_verify_byte cv v svc_packet)) = Some (Verify_Byte cv v)"
    and "decode_svc (pkt_bytes (packet_build_svc_write_byte cv v svc_packet)) = Some (Write_Byte cv v)"
    and "b < 8 \<Longrightarrow> decode_svc (pkt_bytes (packet_build_svc_verify_bit cv (of_nat b) x svc_packet)) = Some (Verify_Bit cv b x)"
proof -
  define h where "h = u8_of (shr (wire_cv cv) 8 AND 0x03)"
  have op: "(opcode OR h) AND 0xFC = opcode \<and> (opcode OR h) AND 0x03 = h" if "opcode \<in> {0x74, 0x78, 0x7C}" for opcode :: u8
    using that by (auto simp: h_def word_bits_simps)
  have cv: "(shl (u16_of h) 8 OR u16_of (u8_of (wire_cv cv AND 0xFF))) + 1 = cv"
    using wire_cv_bytes [OF assms] by (simp add: h_def)
  note bytes = holds_bytes [OF holds_svc_direct [OF svc_packet_shape]]
  show "decode_svc (pkt_bytes (packet_build_svc_verify_byte cv v svc_packet)) = Some (Verify_Byte cv v)"
    using op [of "0x74"] cv by (simp add: packet_build_svc_verify_byte_def bytes h_def [symmetric] Let_def)
  show "decode_svc (pkt_bytes (packet_build_svc_write_byte cv v svc_packet)) = Some (Write_Byte cv v)"
    using op [of "0x7C"] cv by (simp add: packet_build_svc_write_byte_def bytes h_def [symmetric] Let_def)
  assume "b < 8"
  then have "b \<in> {0, 1, 2, 3, 4, 5, 6, 7}" by auto
  then show "decode_svc (pkt_bytes (packet_build_svc_verify_bit cv (of_nat b) x svc_packet)) = Some (Verify_Bit cv b x)"
    using op [of "0x78"] cv
    by (elim insertE emptyE) (simp_all add: packet_build_svc_verify_bit_def bytes h_def [symmetric] Let_def)
qed

section \<open>Reading and writing\<close>

lemma or_bit: "bit (v OR shl 1 n :: u8) i \<longleftrightarrow> bit v i \<or> i = n \<and> n < 8"
  by (auto simp: bit_simps bit_imp_le_length)

lemma read_bits_compliant:
  assumes "compliant send cvs" and "1 \<le> cv" and "cv \<le> 1024"
  shows "n \<le> 8 \<Longrightarrow> \<forall>i. bit v i \<longleftrightarrow> i < n \<and> bit (cvs c cv) i \<Longrightarrow>
    \<exists>any' c'. read_bits send cv [n..<8] v any_ack c = ((SVC_OK, cvs c cv, any'), c') \<and> cvs c' = cvs c"
proof (induction "8 - n" arbitrary: n v any_ack c)
  case 0
  then have "bit v i = bit (cvs c cv) i" for i
    using bit_imp_le_length [of "cvs c cv" i] by auto
  then have "v = cvs c cv" by (simp add: bit_eq_iff)
  with 0 show ?case by simp
next
  case (Suc k)
  then have n: "n < 8" by simp
  let ?p = "packet_build_svc_verify_bit cv (of_nat n) True svc_packet"
  have "fst (send ?p c) = (SVC_OK, bit (cvs c cv) n = True) \<and> cvs (snd (send ?p c)) = cvs c"
    using assms(1) svc_packet_instructions(3) [OF assms(2,3) n, of True] unfolding compliant_def by blast
  then have s: "fst (send ?p c) = (SVC_OK, bit (cvs c cv) n)" "cvs (snd (send ?p c)) = cvs c" by simp_all
  have IH: "\<exists>any' c'. read_bits send cv [Suc n..<8] v' a (snd (send ?p c)) = ((SVC_OK, cvs c cv, any'), c') \<and> cvs c' = cvs c"
    if "\<forall>i. bit v' i \<longleftrightarrow> i < Suc n \<and> bit (cvs c cv) i" for v' a
  proof -
    have "\<exists>any' c'. read_bits send cv [Suc n..<8] v' a (snd (send ?p c)) =
        ((SVC_OK, cvs (snd (send ?p c)) cv, any'), c') \<and> cvs c' = cvs (snd (send ?p c))"
      by (rule Suc.hyps(1)) (use Suc.hyps(2) n that s(2) in simp_all)
    then show ?thesis unfolding s(2) .
  qed
  let ?v = "if bit (cvs c cv) n then v OR shl 1 n else v"
  have "bit ?v i \<longleftrightarrow> i < Suc n \<and> bit (cvs c cv) i" for i
    using Suc.prems(2) n or_bit [of v n i] by (cases "bit (cvs c cv) n") (auto simp only: if_True if_False less_Suc_eq)
  then have "\<forall>i. bit ?v i \<longleftrightarrow> i < Suc n \<and> bit (cvs c cv) i" by blast
  note rest = IH [OF this, of "any_ack \<or> bit (cvs c cv) n"]
  have "read_bits send cv [n..<8] v any_ack c =
      read_bits send cv [Suc n..<8] ?v (any_ack \<or> bit (cvs c cv) n) (snd (send ?p c))"
    using s(1) n by (cases "send ?p c") (simp add: upt_conv_Cons del: upt_Suc)
  with rest show ?case by simp
qed

lemma verify_byte_compliant:
  assumes "compliant send cvs" and "1 \<le> cv" and "cv \<le> 1024"
  shows "\<exists>c'. verify_byte send cv v c = ((SVC_OK, cvs c cv = v), c') \<and> cvs c' = cvs c"
proof -
  let ?p = "packet_build_svc_verify_byte cv v svc_packet"
  have "fst (send ?p c) = (SVC_OK, cvs c cv = v) \<and> cvs (snd (send ?p c)) = cvs c"
    using assms(1) svc_packet_instructions(1) [OF assms(2,3), of v] unfolding compliant_def by blast
  then show ?thesis unfolding verify_byte_def by (cases "send ?p c") simp
qed

lemma svc_cv_read_compliant:
  assumes "compliant send cvs" and "1 \<le> cv" and "cv \<le> 1024"
  shows "\<exists>c'. svc_cv_read send cv c = ((SVC_OK, Some (cvs c cv)), c') \<and> cvs c' = cvs c"
proof -
  obtain any1 c1 where 1: "read_bits send cv [0..<8] 0 False c = ((SVC_OK, cvs c cv, any1), c1)" "cvs c1 = cvs c"
    using read_bits_compliant [OF assms, of 0 0 c False] by auto
  obtain c2 where "verify_byte send cv (cvs c cv) c1 = ((SVC_OK, True), c2)" "cvs c2 = cvs c"
    using verify_byte_compliant [OF assms, of "cvs c cv" c1] 1(2) by auto
  with 1 show ?thesis by (simp add: svc_cv_read_def READ_ATTEMPTS_def numeral_2_eq_2)
qed

lemma svc_cv_write_compliant:
  assumes "compliant send cvs" and "1 \<le> cv" and "cv \<le> 1024"
  shows "\<exists>c'. svc_cv_write send cv v c = (SVC_OK, c') \<and> cvs c' = (cvs c)(cv := v)"
proof -
  let ?p = "packet_build_svc_write_byte cv v svc_packet"
  obtain ack c1 where 1: "send ?p c = ((SVC_OK, ack), c1)" "cvs c1 = (cvs c)(cv := v)"
  proof -
    have "fst (fst (send ?p c)) = SVC_OK \<and> cvs (snd (send ?p c)) = (cvs c)(cv := v)"
      using assms(1) svc_packet_instructions(2) [OF assms(2,3), of v] unfolding compliant_def by blast
    then show thesis by (intro that [of "snd (fst (send ?p c))" "snd (send ?p c)"]) (simp_all add: prod_eq_iff)
  qed
  obtain c2 where "verify_byte send cv v c1 = ((SVC_OK, True), c2)" "cvs c2 = cvs c1"
    using verify_byte_compliant [OF assms, of v c1] 1(2) by auto
  with 1 show ?thesis by (simp add: svc_cv_write_def)
qed

text \<open>
  C18: On the programming track with a decoder that follows S-9.2.3, a CV write reports success
  and stores the value, also when the decoder does not acknowledge the write itself; a CV read
  then reports that value, and both leave every other CV alone.
\<close>

theorem svc_write_then_read:
  assumes "compliant send cvs" and "1 \<le> cv" and "cv \<le> 1024"
    and "svc_cv_write send cv v c = (r, c1)" and "svc_cv_read send cv c1 = ((r', x), c2)"
  shows "r = SVC_OK \<and> r' = SVC_OK \<and> x = Some v \<and> cvs c2 = (cvs c)(cv := v)"
  using svc_cv_write_compliant [OF assms(1-3), of v c] svc_cv_read_compliant [OF assms(1-3), of c1] assms(4,5)
  by auto

section \<open>Whatever the decoder does\<close>

text \<open>What went over the line: each instruction with its result and acknowledgement.\<close>

definition recorded :: "'c svc_io \<Rightarrow> ('c \<times> (dcc_packet \<times> svc_result \<times> bool) list) svc_io" where
  "recorded send p s = (case send p (fst s) of ((r, ack), c) \<Rightarrow> ((r, ack), (c, snd s @ [(p, r, ack)])))"

lemma recorded_apply:
  "recorded send p (c, tr) = (case send p c of ((r, ack), c') \<Rightarrow> ((r, ack), (c', tr @ [(p, r, ack)])))"
  by (simp add: recorded_def)

lemma read_bits_recorded:
  assumes "read_bits (recorded send) cv bs v a (c, tr) = ((r, v', a'), (c', tr'))"
  shows "\<exists>new. tr' = tr @ new \<and> length new \<le> length bs \<and> (a' \<longleftrightarrow> a \<or> (\<exists>(p, x, ack)\<in>set new. x = SVC_OK \<and> ack)) \<and>
    (if r = SVC_OK then \<forall>(p, x, ack)\<in>set new. x = SVC_OK else new \<noteq> [] \<and> fst (snd (last new)) = r)"
  using assms
proof (induction bs arbitrary: v a c tr)
  case (Cons b bs)
  let ?p = "packet_build_svc_verify_bit cv (of_nat b) True svc_packet"
  obtain x ack c1 where s: "send ?p c = ((x, ack), c1)" by (metis prod.exhaust)
  show ?case
  proof (cases "x = SVC_OK")
    case True
    let ?v = "if ack then v OR shl 1 b else v"
    from Cons.prems s True have "read_bits (recorded send) cv bs ?v (a \<or> ack) (c1, tr @ [(?p, x, ack)]) = ((r, v', a'), (c', tr'))"
      by (auto simp: recorded_apply split: if_splits)
    from Cons.IH [OF this] True show ?thesis by (force split: if_splits)
  qed (use Cons.prems s in \<open>auto simp: recorded_apply\<close>)
qed auto

type_synonym svc_record = "dcc_packet \<times> svc_result \<times> bool"

definition all_went :: "svc_record list \<Rightarrow> bool" where
  "all_went tr \<longleftrightarrow> (\<forall>e\<in>set tr. fst (snd e) = SVC_OK)"

definition some_ack :: "svc_record list \<Rightarrow> bool" where
  "some_ack tr \<longleftrightarrow> (\<exists>e\<in>set tr. fst (snd e) = SVC_OK \<and> snd (snd e))"

lemma went_simps [simp]:
  "all_went []" "all_went (xs @ ys) \<longleftrightarrow> all_went xs \<and> all_went ys" "all_went [(p, r, ack)] \<longleftrightarrow> r = SVC_OK"
  "\<not> some_ack []" "some_ack (xs @ ys) \<longleftrightarrow> some_ack xs \<or> some_ack ys" "some_ack [(p, r, ack)] \<longleftrightarrow> r = SVC_OK \<and> ack"
  by (auto simp: all_went_def some_ack_def)

text \<open>How a read may end after the instructions \<open>tr\<close>, with \<open>a\<close>: something answered before them.\<close>

definition read_outcome :: "u16 \<Rightarrow> bool \<Rightarrow> svc_result \<Rightarrow> u8 option \<Rightarrow> svc_record list \<Rightarrow> bool" where
  "read_outcome cv a r x tr \<longleftrightarrow>
     (if r = SVC_OK
      then \<exists>v. x = Some v \<and> tr \<noteq> [] \<and> last tr = (packet_build_svc_verify_byte cv v svc_packet, SVC_OK, True)
      else x = None \<and>
        (all_went tr \<and> r = (if a \<or> some_ack tr then SVC_NO_ACK else SVC_NO_LOCO) \<or> tr \<noteq> [] \<and> fst (snd (last tr)) = r))"

lemma read_outcome_append:
  assumes "read_outcome cv (a \<or> some_ack xs) r x ys" and "all_went xs"
  shows "read_outcome cv a r x (xs @ ys)"
  using assms by (auto simp: read_outcome_def split: if_splits)

lemma read_attempts_recorded:
  assumes "read_attempts (recorded send) cv n a (c, tr) = ((r, x), (c', tr'))"
  shows "\<exists>new. tr' = tr @ new \<and> length new \<le> 9 * n \<and> read_outcome cv a r x new"
  using assms
proof (induction n arbitrary: a c tr)
  case 0
  then show ?case by (auto simp: read_outcome_def split: if_splits)
next
  case (Suc n)
  obtain r1 v a1 c1 tr1 where b: "read_bits (recorded send) cv [0..<8] 0 a (c, tr) = ((r1, v, a1), (c1, tr1))"
    by (metis prod.exhaust)
  then obtain new where new: "tr1 = tr @ new" "length new \<le> 8" "a1 \<longleftrightarrow> a \<or> some_ack new"
    "if r1 = SVC_OK then all_went new else new \<noteq> [] \<and> fst (snd (last new)) = r1"
    using read_bits_recorded [OF b] by (auto simp: some_ack_def all_went_def case_prod_unfold split: if_splits)
  let ?p = "packet_build_svc_verify_byte cv v svc_packet"
  obtain r2 ack c2 where s: "send ?p c1 = ((r2, ack), c2)" by (metis prod.exhaust)
  let ?new = "new @ [(?p, r2, ack)]"
  consider "r1 \<noteq> SVC_OK" | "r1 = SVC_OK" "r2 \<noteq> SVC_OK" | "r1 = SVC_OK" "r2 = SVC_OK" "ack"
    | "r1 = SVC_OK" "r2 = SVC_OK" "\<not> ack" by blast
  then show ?case
  proof cases
    case 1
    with Suc.prems b new show ?thesis by (intro exI [of _ new]) (auto simp: read_outcome_def)
  next
    case 2
    with Suc.prems b new(1,2) s show ?thesis
      by (intro exI [of _ ?new]) (auto simp: read_outcome_def verify_byte_def recorded_apply)
  next
    case 3
    with Suc.prems b new(1,2) s show ?thesis
      by (intro exI [of _ ?new]) (auto simp: read_outcome_def verify_byte_def recorded_apply)
  next
    case 4
    with Suc.prems b s have "read_attempts (recorded send) cv n a1 (c2, tr1 @ [(?p, r2, ack)]) = ((r, x), (c', tr'))"
      by (simp add: verify_byte_def recorded_apply)
    then obtain new2 where "tr' = (tr1 @ [(?p, r2, ack)]) @ new2" "length new2 \<le> 9 * n" "read_outcome cv a1 r x new2"
      using Suc.IH by blast
    moreover from this(3) new(3,4) 4 have "read_outcome cv a r x (?new @ new2)"
      by (intro read_outcome_append) simp_all
    ultimately show ?thesis using new(1,2) by (intro exI [of _ "?new @ new2"]) simp
  qed
qed

text \<open>
  Whatever the decoder and the line do, a CV read ends after at most 18 instructions; it
  reports a value only if the last instruction verified exactly that value and was
  acknowledged, reports no decoder only if no instruction was acknowledged, and a fault of the
  line ends it at once with that fault.
\<close>

theorem svc_read_sound:
  assumes "svc_cv_read (recorded send) cv (c, []) = ((r, x), (c', tr))"
  shows "length tr \<le> 18 \<and> read_outcome cv False r x tr"
  using read_attempts_recorded [of send cv READ_ATTEMPTS False c "[]" r x c' tr] assms
  by (simp add: svc_cv_read_def READ_ATTEMPTS_def)

section \<open>A decoder\<close>

text \<open>A decoder that keeps its CVs and never acknowledges a write.\<close>

definition quiet_decoder :: "(u16 \<Rightarrow> u8) svc_io" where
  "quiet_decoder p cvs =
     (case decode_svc (pkt_bytes p) of
        Some (Verify_Byte cv v) \<Rightarrow> ((SVC_OK, cvs cv = v), cvs)
      | Some (Verify_Bit cv b x) \<Rightarrow> ((SVC_OK, bit (cvs cv) b = x), cvs)
      | Some (Write_Byte cv v) \<Rightarrow> ((SVC_OK, False), cvs(cv := v))
      | None \<Rightarrow> ((SVC_OK, False), cvs))"

lemma quiet_compliant: "compliant quiet_decoder (\<lambda>cvs. cvs)"
  by (simp add: compliant_def quiet_decoder_def)

lemma svc_write_then_read_witness:
  "\<exists>r c1 r' c2. svc_cv_write quiet_decoder 29 6 (\<lambda>cv. 0) = (r, c1) \<and>
     svc_cv_read quiet_decoder 29 c1 = ((r', Some 6), c2) \<and> r = SVC_OK \<and> r' = SVC_OK \<and> c2 = (\<lambda>cv. if cv = 29 then 6 else 0)"
proof -
  obtain r c1 where w: "svc_cv_write quiet_decoder 29 6 (\<lambda>cv. 0) = (r, c1)" by fastforce
  obtain r' x c2 where rd: "svc_cv_read quiet_decoder 29 c1 = ((r', x), c2)" by (metis prod.exhaust)
  from svc_write_then_read [OF quiet_compliant _ _ w rd]
  have e: "r = SVC_OK" "r' = SVC_OK" "x = Some 6" "c2 = (\<lambda>cv. if cv = 29 then 6 else 0)" by (auto simp: fun_eq_iff)
  show ?thesis using w rd unfolding e(3) by (intro exI [of _ r] exI [of _ c1] exI [of _ r'] exI [of _ c2]) (simp add: e)
qed

end
