(* ===== verification/Svc_Ack.thy ===== *)
theory Svc_Ack
  imports Prelude
begin

text \<open>
  The service-mode ACK detector: \<^verbatim>\<open>src/src/servicemode/svc_ack.h\<close> and \<^verbatim>\<open>svc_ack.c\<close>. A
  moving average over the programming track's current, a threshold derived from a baseline,
  and the search for a pulse of the right width above it. The ring index and the fill
  count are the code's 16-bit words, the sums its 32-bit words.
\<close>

section \<open>State\<close>

definition SVC_ACK_AVG_SAMPLES :: nat where "SVC_ACK_AVG_SAMPLES = 4"
definition SVC_ACK_SAMPLE_US :: u32 where "SVC_ACK_SAMPLE_US = 50"
definition SVC_ACK_WINDOW_US :: u32 where "SVC_ACK_WINDOW_US = 200"
definition SVC_ACK_MIN_US :: u32 where "SVC_ACK_MIN_US = 2000"
definition SVC_ACK_MAX_US :: u32 where "SVC_ACK_MAX_US = 20000"

lemmas svc_ack_consts [simp] = SVC_ACK_AVG_SAMPLES_def

record svc_ack =
  ring :: "u16 list"
  ring_sum :: u32
  ring_pos :: u16
  ring_fill :: u16
  base_sum :: u32
  base_n :: u32
  base_peak_sum :: u32
  threshold_sum :: u32
  above :: bool
  above_since :: u32
  acked :: bool

definition svc_ack_reset :: svc_ack where
  "svc_ack_reset = \<lparr>ring = replicate SVC_ACK_AVG_SAMPLES 0, ring_sum = 0, ring_pos = 0, ring_fill = 0,
     base_sum = 0, base_n = 0, base_peak_sum = 0, threshold_sum = 0, above = False, above_since = 0,
     acked = False\<rparr>"

text \<open>A sample through the moving average; the sum is the detector's \<open>ring_sum\<close> after it.\<close>

definition smooth :: "u16 \<Rightarrow> svc_ack \<Rightarrow> svc_ack" where
  "smooth raw d =
     (let d = d\<lparr>ring_sum := ring_sum d - u32_of (ring d ! unat (ring_pos d))\<rparr>;
          d = d\<lparr>ring := (ring d)[unat (ring_pos d) := raw]\<rparr>;
          d = d\<lparr>ring_sum := ring_sum d + u32_of raw\<rparr>;
          d = d\<lparr>ring_pos := (ring_pos d + 1) mod word_of_nat SVC_ACK_AVG_SAMPLES\<rparr>
      in if ring_fill d < word_of_nat SVC_ACK_AVG_SAMPLES then d\<lparr>ring_fill := ring_fill d + 1\<rparr> else d)"

definition svc_ack_baseline :: "u16 \<Rightarrow> svc_ack \<Rightarrow> svc_ack" where
  "svc_ack_baseline raw d =
     (let d = smooth raw d;
          sum = ring_sum d;
          d = d\<lparr>base_sum := base_sum d + u32_of raw, base_n := base_n d + 1\<rparr>
      in if ring_fill d = word_of_nat SVC_ACK_AVG_SAMPLES \<and> sum > base_peak_sum d
         then d\<lparr>base_peak_sum := sum\<rparr> else d)"

text \<open>The loop that fills a window the baseline left short.\<close>

definition fill_window :: "u16 \<Rightarrow> svc_ack \<Rightarrow> svc_ack" where
  "fill_window mean d = fold (\<lambda>i d. smooth mean d) [unat (ring_fill d)..<SVC_ACK_AVG_SAMPLES] d"

definition svc_ack_arm :: "u16 \<Rightarrow> svc_ack \<Rightarrow> u16 \<times> svc_ack" where
  "svc_ack_arm floor_raw d =
     (let mean = (if base_n d \<noteq> 0 then base_sum d div base_n d else 0);
          d = (if ring_fill d < word_of_nat SVC_ACK_AVG_SAMPLES
               then (let d = fill_window (u16_of mean) d in d\<lparr>base_peak_sum := ring_sum d\<rparr>) else d);
          mean_sum = mean * word_of_nat SVC_ACK_AVG_SAMPLES;
          swing = (if base_peak_sum d > mean_sum then base_peak_sum d - mean_sum else 0);
          margin = swing + swing div 2;
          floor_sum = u32_of floor_raw * word_of_nat SVC_ACK_AVG_SAMPLES
      in (u16_of mean,
          d\<lparr>threshold_sum := mean_sum + (if margin > floor_sum then margin else floor_sum),
            above := False, acked := False\<rparr>))"

definition svc_ack_sample :: "u16 \<Rightarrow> u32 \<Rightarrow> svc_ack \<Rightarrow> bool \<times> svc_ack" where
  "svc_ack_sample raw now_us d =
     (let d = smooth raw d; sum = ring_sum d
      in if acked d then (True, d)
         else if sum > threshold_sum d
         then (False, if \<not> above d then d\<lparr>above := True, above_since := now_us\<rparr> else d)
         else let d = (if above d
                       then let width = now_us - above_since d; d = d\<lparr>above := False\<rparr>
                            in if width \<ge> SVC_ACK_MIN_US \<and> width \<le> SVC_ACK_MAX_US
                               then d\<lparr>acked := True\<rparr> else d
                       else d)
              in (acked d, d))"

definition svc_ack_pending :: "u32 \<Rightarrow> svc_ack \<Rightarrow> bool" where
  "svc_ack_pending now_us d \<longleftrightarrow>
     \<not> acked d \<and> above d \<and> now_us - above_since d \<le> SVC_ACK_MAX_US + SVC_ACK_WINDOW_US"

section \<open>The moving average\<close>

text \<open>
  The window is the last four samples, oldest at \<open>ring_pos\<close>, and \<open>ring_sum\<close> is their sum,
  which never overflows.
\<close>

definition window :: "svc_ack \<Rightarrow> u16 list" where
  "window d = rotate (unat (ring_pos d)) (ring d)"

definition sum16 :: "u16 list \<Rightarrow> nat" where
  "sum16 xs = sum_list (map unat xs)"

definition ack_ok :: "svc_ack \<Rightarrow> bool" where
  "ack_ok d \<longleftrightarrow> length (ring d) = 4 \<and> unat (ring_pos d) < 4 \<and> unat (ring_fill d) \<le> 4 \<and>
     unat (ring_sum d) = sum16 (ring d)"

lemma list4:
  assumes "length xs = 4"
  obtains a b c e where "xs = [a, b, c, e]"
  using assms by (auto simp: numeral_eq_Suc length_Suc_conv)

lemma unat16_bound: "unat (x :: u16) < 65536"
  using unsigned_less [of x] by simp

lemma pos_next: "unat (p :: u16) < 4 \<Longrightarrow> unat ((p + 1) mod 4) = (unat p + 1) mod 4"
  by (simp add: unat_mod unat_word_ariths)

lemma smooth_ok:
  assumes "ack_ok d"
  shows "ack_ok (smooth raw d)"
    and "window (smooth raw d) = tl (window d) @ [raw]"
    and "unat (ring_fill (smooth raw d)) = min 4 (unat (ring_fill d) + 1)"
proof -
  obtain a b c e where r: "ring d = [a, b, c, e]"
    by (rule list4 [of "ring d"]) (use assms in \<open>simp_all add: ack_ok_def\<close>)
  have p: "unat (ring_pos d) = 0 \<or> unat (ring_pos d) = 1 \<or> unat (ring_pos d) = 2 \<or> unat (ring_pos d) = 3"
    using assms by (auto simp: ack_ok_def)
  have n: "unat ((ring_pos d + 1) mod 4) = (unat (ring_pos d) + 1) mod 4"
    using assms by (intro pos_next) (simp add: ack_ok_def)
  have s: "unat (ring_sum d) = unat a + unat b + unat c + unat e"
    using assms r by (simp add: ack_ok_def sum16_def)
  have f: "unat (ring_fill d) \<le> 4" using assms by (simp add: ack_ok_def)
  note bd = unat16_bound [of a] unat16_bound [of b] unat16_bound [of c] unat16_bound [of e] unat16_bound [of raw]
  have u32: "unat (u32_of x) = unat x" for x :: u16
    using unat16_bound [of x] by (simp add: unsigned_ucast_eq take_bit_nat_eq_self)
  have sub: "unat (ring_sum d - u32_of x) = unat (ring_sum d) - unat x" if "unat x \<le> unat (ring_sum d)" for x :: u16
    using that by (simp add: unat_sub_if_size u32)
  have add: "unat (w + u32_of raw) = unat w + unat raw" if "unat w < 2 ^ 20" for w :: u32
    using that bd by (simp add: unat_word_ariths u32)
  have sum: "unat (ring_sum d - u32_of (ring d ! unat (ring_pos d)) + u32_of raw) =
      sum16 ((ring d)[unat (ring_pos d) := raw])"
    using p s sub [of "ring d ! unat (ring_pos d)"] bd
    by (subst add) (auto simp: r sum16_def)
  have fill: "unat (if ring_fill d < 4 then ring_fill d + 1 else ring_fill d) = min 4 (unat (ring_fill d) + 1)"
    using f by (auto simp: word_less_nat_alt unat_word_ariths not_less)
  have fields: "ring (smooth raw d) = (ring d)[unat (ring_pos d) := raw]"
    "unat (ring_pos (smooth raw d)) = (unat (ring_pos d) + 1) mod 4"
    "unat (ring_sum (smooth raw d)) = sum16 ((ring d)[unat (ring_pos d) := raw])"
    "unat (ring_fill (smooth raw d)) = min 4 (unat (ring_fill d) + 1)"
    using n sum fill by (simp_all add: smooth_def Let_def split: if_splits)
  then show "ack_ok (smooth raw d)" "unat (ring_fill (smooth raw d)) = min 4 (unat (ring_fill d) + 1)"
    using assms by (simp_all add: ack_ok_def)
  show "window (smooth raw d) = tl (window d) @ [raw]"
    using p by (elim disjE) (simp_all add: window_def fields r rotate_drop_take)
qed

section \<open>What counts as an ACK\<close>

text \<open>The smoothed current against the threshold, sample by sample, with the times.\<close>

fun levels :: "svc_ack \<Rightarrow> (u16 \<times> u32) list \<Rightarrow> (bool \<times> u32) list" where
  "levels d [] = []"
| "levels d ((raw, t) # xs) =
     (ring_sum (smooth raw d) > threshold_sum d, t) # levels (snd (svc_ack_sample raw t d)) xs"

definition listen_run :: "(u16 \<times> u32) list \<Rightarrow> svc_ack \<Rightarrow> svc_ack" where
  "listen_run xs d = fold (\<lambda>(raw, t) d. snd (svc_ack_sample raw t d)) xs d"

text \<open>A whole pulse: a rise, high until a fall, the width within the limits.\<close>

definition pulse_in :: "(bool \<times> u32) list \<Rightarrow> bool" where
  "pulse_in ls \<longleftrightarrow> (\<exists>pre t0 up t1 post. ls = pre @ (True, t0) # up @ (False, t1) # post \<and>
     (pre = [] \<or> \<not> fst (last pre)) \<and> (\<forall>x\<in>set up. fst x) \<and>
     SVC_ACK_MIN_US \<le> t1 - t0 \<and> t1 - t0 \<le> SVC_ACK_MAX_US)"

lemma pulse_in_Nil [simp]: "\<not> pulse_in []"
  by (simp add: pulse_in_def)

lemma pulse_in_single [simp]: "\<not> pulse_in [x]"
  by (auto simp: pulse_in_def Cons_eq_append_conv append_eq_Cons_conv)

lemma pulse_in_low: "pulse_in ((False, t) # xs) = pulse_in xs"
proof
  assume "pulse_in ((False, t) # xs)"
  then obtain pre t0 up t1 post where *: "(False, t) # xs = pre @ (True, t0) # up @ (False, t1) # post"
    "pre = [] \<or> \<not> fst (last pre)" "\<forall>x\<in>set up. fst x" "SVC_ACK_MIN_US \<le> t1 - t0" "t1 - t0 \<le> SVC_ACK_MAX_US"
    unfolding pulse_in_def by blast
  then obtain pre' where pre: "pre = (False, t) # pre'" by (cases pre) auto
  with * have "xs = pre' @ (True, t0) # up @ (False, t1) # post" "pre' = [] \<or> \<not> fst (last pre')"
    by (auto split: if_splits)
  with * show "pulse_in xs" unfolding pulse_in_def by blast
next
  assume "pulse_in xs"
  then obtain pre t0 up t1 post where *: "xs = pre @ (True, t0) # up @ (False, t1) # post"
    "pre = [] \<or> \<not> fst (last pre)" "\<forall>x\<in>set up. fst x" "SVC_ACK_MIN_US \<le> t1 - t0" "t1 - t0 \<le> SVC_ACK_MAX_US"
    unfolding pulse_in_def by blast
  then show "pulse_in ((False, t) # xs)"
    unfolding pulse_in_def
    by (intro exI [of _ "(False, t) # pre"] exI [of _ t0] exI [of _ up] exI [of _ t1] exI [of _ post]) auto
qed

lemma pulse_in_high: "pulse_in ((True, s) # (True, t) # xs) = pulse_in ((True, s) # xs)"
proof
  assume "pulse_in ((True, s) # (True, t) # xs)"
  then obtain pre t0 up t1 post where *: "(True, s) # (True, t) # xs = pre @ (True, t0) # up @ (False, t1) # post"
    "pre = [] \<or> \<not> fst (last pre)" "\<forall>x\<in>set up. fst x" "SVC_ACK_MIN_US \<le> t1 - t0" "t1 - t0 \<le> SVC_ACK_MAX_US"
    unfolding pulse_in_def by blast
  show "pulse_in ((True, s) # xs)"
  proof (cases pre)
    case Nil
    with * obtain up' where "up = (True, t) # up'" "t0 = s" by (cases up) auto
    with * Nil have "(True, s) # xs = [] @ (True, t0) # up' @ (False, t1) # post" "\<forall>x\<in>set up'. fst x" by auto
    with * show ?thesis unfolding pulse_in_def by blast
  next
    case (Cons p pre')
    with * obtain pre'' where "pre' = (True, t) # pre''" by (cases pre') auto
    with * Cons have "(True, s) # xs = ((True, s) # pre'') @ (True, t0) # up @ (False, t1) # post"
      "\<not> fst (last ((True, s) # pre''))" by (auto split: if_splits)
    with * show ?thesis unfolding pulse_in_def by blast
  qed
next
  assume "pulse_in ((True, s) # xs)"
  then obtain pre t0 up t1 post where *: "(True, s) # xs = pre @ (True, t0) # up @ (False, t1) # post"
    "pre = [] \<or> \<not> fst (last pre)" "\<forall>x\<in>set up. fst x" "SVC_ACK_MIN_US \<le> t1 - t0" "t1 - t0 \<le> SVC_ACK_MAX_US"
    unfolding pulse_in_def by blast
  show "pulse_in ((True, s) # (True, t) # xs)"
  proof (cases pre)
    case Nil
    with * show ?thesis unfolding pulse_in_def
      by (intro exI [of _ "[]"] exI [of _ t0] exI [of _ "(True, t) # up"] exI [of _ t1] exI [of _ post]) auto
  next
    case (Cons p pre')
    with * show ?thesis unfolding pulse_in_def
      by (intro exI [of _ "p # (True, t) # pre'"] exI [of _ t0] exI [of _ up] exI [of _ t1] exI [of _ post])
        (auto split: if_splits)
  qed
qed

lemma pulse_in_fall:
  "pulse_in ((True, s) # (False, t) # xs) \<longleftrightarrow>
     (SVC_ACK_MIN_US \<le> t - s \<and> t - s \<le> SVC_ACK_MAX_US) \<or> pulse_in xs"
proof
  assume "pulse_in ((True, s) # (False, t) # xs)"
  then obtain pre t0 up t1 post where *: "(True, s) # (False, t) # xs = pre @ (True, t0) # up @ (False, t1) # post"
    "pre = [] \<or> \<not> fst (last pre)" "\<forall>x\<in>set up. fst x" "SVC_ACK_MIN_US \<le> t1 - t0" "t1 - t0 \<le> SVC_ACK_MAX_US"
    unfolding pulse_in_def by blast
  show "(SVC_ACK_MIN_US \<le> t - s \<and> t - s \<le> SVC_ACK_MAX_US) \<or> pulse_in xs"
  proof (cases pre)
    case Nil
    with * show ?thesis by (cases up) auto
  next
    case (Cons p pre')
    with * obtain pre'' where "pre' = (False, t) # pre''" by (cases pre') auto
    with * Cons have "xs = pre'' @ (True, t0) # up @ (False, t1) # post" "pre'' = [] \<or> \<not> fst (last pre'')"
      by (auto split: if_splits)
    with * show ?thesis unfolding pulse_in_def by blast
  qed
next
  assume "(SVC_ACK_MIN_US \<le> t - s \<and> t - s \<le> SVC_ACK_MAX_US) \<or> pulse_in xs"
  then show "pulse_in ((True, s) # (False, t) # xs)"
  proof
    assume "SVC_ACK_MIN_US \<le> t - s \<and> t - s \<le> SVC_ACK_MAX_US"
    then show ?thesis unfolding pulse_in_def
      by (intro exI [of _ "[]"] exI [of _ s] exI [of _ "[]"] exI [of _ t] exI [of _ xs]) auto
  next
    assume "pulse_in xs"
    then obtain pre t0 up t1 post where *: "xs = pre @ (True, t0) # up @ (False, t1) # post"
      "pre = [] \<or> \<not> fst (last pre)" "\<forall>x\<in>set up. fst x" "SVC_ACK_MIN_US \<le> t1 - t0" "t1 - t0 \<le> SVC_ACK_MAX_US"
      unfolding pulse_in_def by blast
    then show ?thesis unfolding pulse_in_def
      by (intro exI [of _ "(True, s) # (False, t) # pre"] exI [of _ t0] exI [of _ up] exI [of _ t1] exI [of _ post]) auto
  qed
qed

lemma smooth_flags [simp]:
  "threshold_sum (smooth raw d) = threshold_sum d" "above (smooth raw d) = above d"
  "above_since (smooth raw d) = above_since d" "acked (smooth raw d) = acked d"
  "base_sum (smooth raw d) = base_sum d" "base_n (smooth raw d) = base_n d"
  "base_peak_sum (smooth raw d) = base_peak_sum d"
  by (simp_all add: smooth_def Let_def)

lemma acked_stays: "acked d \<Longrightarrow> acked (listen_run xs d)"
proof (induction xs arbitrary: d)
  case (Cons x xs)
  obtain raw t where x: "x = (raw, t)" by (cases x)
  have "acked (snd (svc_ack_sample raw t d))" using Cons.prems by (simp add: svc_ack_sample_def Let_def)
  with Cons.IH x show ?case by (simp add: listen_run_def)
qed (simp add: listen_run_def)

lemma listen_run_pulse:
  "\<not> acked d \<Longrightarrow> acked (listen_run xs d) \<longleftrightarrow>
     pulse_in ((if above d then [(True, above_since d)] else []) @ levels d xs)"
proof (induction xs arbitrary: d)
  case Nil
  then show ?case by (simp add: listen_run_def)
next
  case (Cons x xs)
  obtain raw t where x: "x = (raw, t)" by (cases x)
  let ?d = "snd (svc_ack_sample raw t d)"
  let ?hi = "ring_sum (smooth raw d) > threshold_sum d"
  have run: "listen_run (x # xs) d = listen_run xs ?d" by (simp add: listen_run_def x)
  have lv: "levels d (x # xs) = (?hi, t) # levels ?d xs" by (simp add: x)
  show ?case
  proof (cases ?hi)
    case True
    then have "\<not> acked ?d" "above ?d" "above_since ?d = (if above d then above_since d else t)"
      using Cons.prems by (simp_all add: svc_ack_sample_def Let_def)
    with Cons.IH [of ?d] True show ?thesis
      unfolding run lv by (simp add: pulse_in_high)
  next
    case False
    have d: "\<not> above ?d" "acked ?d \<longleftrightarrow> above d \<and> SVC_ACK_MIN_US \<le> t - above_since d \<and>
        t - above_since d \<le> SVC_ACK_MAX_US"
      using Cons.prems False by (auto simp: svc_ack_sample_def Let_def)
    show ?thesis
    proof (cases "acked ?d")
      case True
      then show ?thesis unfolding run lv
        using acked_stays [OF True, of xs] d False by (simp add: pulse_in_fall)
    next
      case na: False
      with Cons.IH [of ?d] d False show ?thesis
        unfolding run lv by (auto simp: pulse_in_fall pulse_in_low)
    qed
  qed
qed

text \<open>
  C19: An ACK is a pulse of the right width, and every such pulse is one. An armed detector
  that has heard the samples \<open>xs\<close> reports an ACK if and only if the smoothed current rose
  above the threshold, stayed there and fell again between 2 ms and 20 ms later; a spike
  and a load that stays on are not ACKs.
\<close>

theorem ack_iff_pulse:
  "acked (listen_run xs (snd (svc_ack_arm floor d))) \<longleftrightarrow> pulse_in (levels (snd (svc_ack_arm floor d)) xs)"
proof -
  have "\<not> acked (snd (svc_ack_arm floor d))" "\<not> above (snd (svc_ack_arm floor d))"
    by (simp_all add: svc_ack_arm_def Let_def)
  then show ?thesis using listen_run_pulse [of "snd (svc_ack_arm floor d)" xs] by simp
qed

section \<open>The threshold\<close>

text \<open>The sums of the whole windows of the baseline, and the highest of them.\<close>

definition window_sums :: "u16 list \<Rightarrow> nat list" where
  "window_sums bs = map (\<lambda>i. sum16 (take 4 (drop i bs))) [0..<length bs - 3]"

definition peak_sum :: "u16 list \<Rightarrow> nat" where
  "peak_sum bs = fold max (window_sums bs) 0"

lemma sum16_append: "sum16 (xs @ ys) = sum16 xs + sum16 ys"
  by (simp add: sum16_def)

lemma sum16_bound: "sum16 xs \<le> 65535 * length xs"
proof (induction xs)
  case (Cons x xs)
  have "unat x < 65536" by (rule unat16_bound)
  with Cons.IH show ?case by (simp add: sum16_def)
qed (simp add: sum16_def)

lemma sum16_rotate: "sum16 (rotate n xs) = sum16 xs"
proof (induction n)
  case (Suc n)
  have "sum16 (rotate1 ys) = sum16 ys" for ys by (cases ys) (simp_all add: sum16_def)
  with Suc show ?case by (simp add: rotate_Suc)
qed simp

lemma window_sums_snoc:
  "window_sums (bs @ [b]) = window_sums bs @
     (if length bs \<ge> 3 then [sum16 (drop (length bs - 3) bs @ [b])] else [])"
proof (cases "length bs \<ge> 3")
  case True
  then obtain k where "length bs = k + 3" by (metis le_add_diff_inverse2)
  then have "[0..<length (bs @ [b]) - 3] = [0..<length bs - 3] @ [length bs - 3]" by simp
  with True show ?thesis by (simp add: window_sums_def)
qed (simp add: window_sums_def)

lemma peak_sum_snoc:
  "peak_sum (bs @ [b]) =
     (if length bs \<ge> 3 then max (sum16 (drop (length bs - 3) bs @ [b])) (peak_sum bs) else peak_sum bs)"
  by (simp add: peak_sum_def window_sums_snoc)

lemma peak_sum_bound: "peak_sum bs \<le> 4 * 65535"
proof (induction bs rule: rev_induct)
  case (snoc b bs)
  have "sum16 (drop (length bs - 3) bs @ [b]) \<le> 65535 * length (drop (length bs - 3) bs @ [b])"
    by (rule sum16_bound)
  also have "\<dots> \<le> 65535 * 4" by (rule mult_le_mono2) simp
  finally show ?case using snoc.IH by (simp add: peak_sum_snoc)
qed (simp add: peak_sum_def window_sums_def)

definition baseline_run :: "u16 list \<Rightarrow> svc_ack" where
  "baseline_run bs = fold svc_ack_baseline bs svc_ack_reset"

lemma baseline_inv:
  assumes "length bs \<le> 65535"
  shows "ack_ok (baseline_run bs) \<and> window (baseline_run bs) = drop (length bs) (replicate 4 0 @ bs) \<and>
    unat (ring_fill (baseline_run bs)) = min 4 (length bs) \<and> unat (base_sum (baseline_run bs)) = sum16 bs \<and>
    unat (base_n (baseline_run bs)) = length bs \<and> unat (base_peak_sum (baseline_run bs)) = peak_sum bs"
  using assms
proof (induction bs rule: rev_induct)
  case Nil
  show ?case
    by (simp add: baseline_run_def svc_ack_reset_def ack_ok_def sum16_def window_def peak_sum_def
        window_sums_def)
next
  case (snoc b bs)
  let ?d = "baseline_run bs"
  let ?s = "smooth b ?d"
  have IH: "ack_ok ?d" "window ?d = drop (length bs) (replicate 4 0 @ bs)"
    "unat (ring_fill ?d) = min 4 (length bs)" "unat (base_sum ?d) = sum16 bs"
    "unat (base_n ?d) = length bs" "unat (base_peak_sum ?d) = peak_sum bs"
    using snoc by auto
  have run: "baseline_run (bs @ [b]) = svc_ack_baseline b ?d" by (simp add: baseline_run_def)
  note ok = smooth_ok [OF IH(1), of b]
  have win: "window ?s = drop (length (bs @ [b])) (replicate 4 0 @ bs @ [b])"
  proof -
    have "tl (drop (length bs) (replicate 4 0 @ bs)) = drop (Suc (length bs)) (replicate 4 0 @ bs)"
      by (simp only: drop_Suc tl_drop)
    then show ?thesis by (simp add: ok(2) IH(2))
  qed
  have sum: "unat (ring_sum ?s) = sum16 (window ?s)"
    using ok(1) by (simp add: ack_ok_def window_def sum16_rotate)
  have full: "window ?s = drop (length bs - 3) bs @ [b]" if "length bs \<ge> 3"
    using that by (simp add: win Suc_diff_le)
  have fill4: "ring_fill ?s = 4 \<longleftrightarrow> length bs \<ge> 3"
  proof -
    have "ring_fill ?s = 4 \<longleftrightarrow> unat (ring_fill ?s) = unat (4 :: u16)" by (simp only: word_unat_eq_iff)
    then show ?thesis by (simp add: ok(3) IH(3)) linarith
  qed
  have bsum: "unat (base_sum ?d + u32_of b) = sum16 (bs @ [b])"
  proof -
    have "sum16 (bs @ [b]) \<le> 65535 * length (bs @ [b])" by (rule sum16_bound)
    also have "\<dots> \<le> 65535 * 65535" using snoc.prems by (intro mult_le_mono2) simp
    finally have "sum16 (bs @ [b]) < 2 ^ 32" by simp
    moreover have "unat (u32_of b) = unat b"
      using unat16_bound [of b] by (simp add: unsigned_ucast_eq take_bit_nat_eq_self)
    ultimately show ?thesis
      by (simp add: unat_word_ariths IH(4) sum16_append) (simp add: sum16_def)
  qed
  have bn: "unat (base_n ?d + 1) = length (bs @ [b])"
    using snoc.prems by (simp add: unat_word_ariths IH(5))
  show ?case
    unfolding run
    using ok(1,3) win sum bsum bn fill4 full IH(3,6)
    by (cases "length bs \<ge> 3")
      (auto simp: svc_ack_baseline_def Let_def ack_ok_def window_def peak_sum_snoc word_less_nat_alt)
qed

lemma add_small: "unat (x :: u32) = a \<Longrightarrow> unat y = b \<Longrightarrow> a + b < 2 ^ 32 \<Longrightarrow> unat (x + y) = a + b"
  by (simp add: unat_word_ariths)

text \<open>
  The threshold clears the baseline. After a baseline of 4 to 65535 samples the detector
  arms with the mean of the baseline plus half as much again as the baseline's highest
  window swings above that mean, and at least \<open>floor_raw\<close> above it; none of the 32-bit
  sums overflows, so the threshold is never below a window seen in the baseline.
\<close>

theorem arm_clears_baseline:
  assumes "4 \<le> length bs" and "length bs \<le> 65535"
  shows "case svc_ack_arm floor_raw (fold svc_ack_baseline bs svc_ack_reset) of (mean, d) \<Rightarrow>
    unat mean = sum16 bs div length bs \<and>
    unat (threshold_sum d) = 4 * unat mean +
      (let swing = peak_sum bs - 4 * unat mean in max (swing + swing div 2) (4 * unat floor_raw)) \<and>
    (\<forall>s\<in>set (window_sums bs). s \<le> unat (threshold_sum d))"
proof -
  let ?d = "baseline_run bs"
  let ?m = "base_sum ?d div base_n ?d"
  let ?swing = "if base_peak_sum ?d > ?m * 4 then base_peak_sum ?d - ?m * 4 else 0"
  let ?margin = "?swing + ?swing div 2"
  have inv: "unat (ring_fill ?d) = 4" "unat (base_sum ?d) = sum16 bs" "unat (base_n ?d) = length bs"
    "unat (base_peak_sum ?d) = peak_sum bs"
    using baseline_inv [OF assms(2)] assms(1) by auto
  have n0: "base_n ?d \<noteq> 0" using inv(3) assms(1) by auto
  have m: "unat ?m = sum16 bs div length bs" by (simp add: unat_div inv)
  have mb: "sum16 bs div length bs \<le> 65535"
  proof -
    have "sum16 bs div length bs \<le> 65535 * length bs div length bs" by (rule div_le_mono [OF sum16_bound])
    then show ?thesis using assms(1) by (simp split: if_splits)
  qed
  have m16: "unat (u16_of ?m) = sum16 bs div length bs"
    unfolding unsigned_ucast_eq m using mb by (intro take_bit_nat_eq_self) simp
  have m4: "unat (?m * 4) = 4 * (sum16 bs div length bs)"
    unfolding unat_word_ariths(2) m using mb by simp
  have sw: "unat ?swing = peak_sum bs - 4 * (sum16 bs div length bs)"
    unfolding word_less_nat_alt m4 inv(4) using m4 inv(4) by (auto simp: unat_sub_if_size)
  have swb: "unat ?swing \<le> 262140" using peak_sum_bound [of bs] unfolding sw by simp
  have mg: "unat ?margin = unat ?swing + unat ?swing div 2"
    using swb by (simp only: unat_word_ariths unat_div) simp
  have fl: "unat (u32_of floor_raw * 4) = 4 * unat floor_raw"
    using unat16_bound [of floor_raw]
    by (simp add: unat_word_ariths unsigned_ucast_eq take_bit_nat_eq_self)
  have pick: "unat (if ?margin > u32_of floor_raw * 4 then ?margin else u32_of floor_raw * 4) =
      max (unat ?margin) (4 * unat floor_raw)"
    using fl by (auto simp: word_less_nat_alt max_def)
  have thr: "unat (?m * 4 + (if ?margin > u32_of floor_raw * 4 then ?margin else u32_of floor_raw * 4)) =
      4 * (sum16 bs div length bs) + max (unat ?swing + unat ?swing div 2) (4 * unat floor_raw)"
    by (rule add_small [OF m4 trans [OF pick arg_cong [where f = "\<lambda>n. max n _", OF mg]]])
      (use mb swb unat16_bound [of floor_raw] in \<open>auto simp: max_def\<close>)
  have nf: "\<not> ring_fill ?d < word_of_nat SVC_ACK_AVG_SAMPLES" by (simp add: word_less_nat_alt inv(1))
  have peak: "s \<le> peak_sum bs" if "s \<in> set (window_sums bs)" for s
    using that unfolding peak_sum_def
    by (metis List.finite_set Max.coboundedI Max.set_eq_fold insertCI list.set(2))
  have res: "svc_ack_arm floor_raw ?d = (u16_of ?m,
      ?d\<lparr>threshold_sum := ?m * 4 + (if ?margin > u32_of floor_raw * 4 then ?margin else u32_of floor_raw * 4),
         above := False, acked := False\<rparr>)"
    using n0 nf by (simp add: svc_ack_arm_def Let_def)
  have "unat (threshold_sum (snd (svc_ack_arm floor_raw ?d))) =
      4 * (sum16 bs div length bs) + max (unat ?swing + unat ?swing div 2) (4 * unat floor_raw)"
    unfolding res using thr by simp
  moreover have "fst (svc_ack_arm floor_raw ?d) = u16_of ?m" unfolding res by simp
  moreover have "s \<le> 4 * (sum16 bs div length bs) + max (unat ?swing + unat ?swing div 2) (4 * unat floor_raw)"
    if "s \<in> set (window_sums bs)" for s
    using peak [OF that] unfolding sw by simp
  ultimately show ?thesis
    unfolding baseline_run_def [symmetric] using m16 by (simp add: split_beta Let_def sw)
qed

end
