(* ===== verification/Servicemode.thy ===== *)
theory Servicemode
  imports Svc_Cv Svc_Ack Motor
begin

text \<open>
  The driver of the programming track, \<^verbatim>\<open>src/src/servicemode/servicemode.c\<close> and
  \<^verbatim>\<open>servicemode.h\<close>: the queue of requests, the sampling of the idle current, the burst of an
  instruction with the search for its acknowledgement, and a turn of the task. Clock, current
  sensor and PIO are a record of functions; every loop that waits for them is a partial
  function, and the laws of the clock and the PIO under which they end are the predicate
  \<open>hw_ok\<close>.
\<close>

section \<open>Timing\<close>

definition POWER_ON_SETTLE_MS :: nat where "POWER_ON_SETTLE_MS = 200"
definition IDLE_SETTLE_MAX_MS :: u32 where "IDLE_SETTLE_MAX_MS = 1000"
definition IDLE_RECHECK_STEP_MS :: nat where "IDLE_RECHECK_STEP_MS = 50"
definition BASELINE_MS :: u32 where "BASELINE_MS = 20"
definition CMD_REPEATS :: nat where "CMD_REPEATS = 15"
definition ACK_TAIL_MS :: u32 where "ACK_TAIL_MS = 20"
definition RECOVERY_MS :: nat where "RECOVERY_MS = 50"
definition WRITE_HOLD_MS :: nat where "WRITE_HOLD_MS = 100"
definition PIO_TX_FIFO_WORDS :: nat where "PIO_TX_FIFO_WORDS = 8"

section \<open>Requests\<close>

datatype svc_op = SVC_OP_READ | SVC_OP_WRITE

text \<open>\<open>'k\<close> is the completion callback with its context.\<close>

record 'k svc_request =
  rq_op :: svc_op
  rq_cv :: u16
  rq_value :: u8
  rq_done :: 'k

text \<open>\<open>g_queue\<close>, of length 1: \<open>None\<close> before \<open>servicemode_init\<close>. A NULL \<open>done\<close> is \<open>None\<close>.\<close>

text \<open>
  Whether both motors were given, the PIO has room for the program and the queue could be
  created are arguments; claiming the state machine is hardware set-up.
\<close>

definition servicemode_init ::
  "bool \<Rightarrow> bool \<Rightarrow> bool \<Rightarrow> 'k svc_request option option \<Rightarrow> bool \<times> 'k svc_request option option" where
  "servicemode_init motors pio_room created queue =
     (if queue \<noteq> None then (True, queue)
      else if \<not> motors then (False, queue)
      else if \<not> pio_room then (False, queue)
      else if \<not> created then (False, queue)
      else (True, Some None))"

definition servicemode_submit ::
  "svc_op \<Rightarrow> u16 \<Rightarrow> u8 \<Rightarrow> 'k option \<Rightarrow> 'k svc_request option option \<Rightarrow> svc_result \<times> 'k svc_request option option" where
  "servicemode_submit op cv value done_fn queue =
     (case (queue, done_fn) of
        (None, _) \<Rightarrow> (SVC_UNAVAILABLE, queue)
      | (_, None) \<Rightarrow> (SVC_UNAVAILABLE, queue)
      | (Some slot, Some f) \<Rightarrow>
          (let req = \<lparr>rq_op = op, rq_cv = cv, rq_value = value, rq_done = f\<rparr>
           in if slot = None then (SVC_OK, Some (Some req)) else (SVC_BUSY, queue)))"

section \<open>The hardware\<close>

text \<open>
  The programming track is its motor, which the track monitor also acts on, and the hardware
  \<open>'h\<close>: the clock in microseconds since power-up, the current reading, the fill level of the
  PIO's queue, a word put into it, and waiting, in which time passes, the PIO sends and the
  other tasks run. The clock is read between waits only. \<open>hw_floor\<close> is
  \<open>motor_ma_to_raw (ACK_THRESHOLD_MA)\<close>.
\<close>

record 'h svc_hw =
  hw_time :: "'h \<Rightarrow> nat"
  hw_adc :: "'h \<Rightarrow> u16"
  hw_level :: "'h \<Rightarrow> nat"
  hw_put :: "u32 \<Rightarrow> 'h \<Rightarrow> 'h"
  hw_wait :: "nat \<Rightarrow> motor \<times> 'h \<Rightarrow> motor \<times> 'h"
  hw_floor :: u16

definition time_us_32 :: "'h svc_hw \<Rightarrow> motor \<times> 'h \<Rightarrow> u32" where
  "time_us_32 hw s = of_nat (hw_time hw (snd s))"

definition xTaskGetTickCount :: "'h svc_hw \<Rightarrow> motor \<times> 'h \<Rightarrow> u32" where
  "xTaskGetTickCount hw s = of_nat (hw_time hw (snd s) div 1000)"

definition vTaskDelay :: "'h svc_hw \<Rightarrow> nat \<Rightarrow> motor \<times> 'h \<Rightarrow> motor \<times> 'h" where
  "vTaskDelay hw ms s = hw_wait hw (ms * 1000) s"

definition sample_wait :: "'h svc_hw \<Rightarrow> motor \<times> 'h \<Rightarrow> motor \<times> 'h" where
  "sample_wait hw s = hw_wait hw (unat SVC_ACK_SAMPLE_US) s"

section \<open>Idle current\<close>

text \<open>Loops that wait for time to pass or the queue to empty; \<open>None\<close> is a loop that never ends.\<close>

partial_function (option) baseline_loop ::
  "'h svc_hw \<Rightarrow> u32 \<Rightarrow> svc_ack \<Rightarrow> motor \<times> 'h \<Rightarrow> (svc_ack \<times> motor \<times> 'h) option" where
  "baseline_loop hw start d s =
     (if time_us_32 hw s - start < BASELINE_MS * 1000
      then baseline_loop hw start (svc_ack_baseline (hw_adc hw (snd s)) d) (sample_wait hw s)
      else Some (d, s))"

definition sample_baseline :: "'h svc_hw \<Rightarrow> motor \<times> 'h \<Rightarrow> (u16 \<times> svc_ack \<times> motor \<times> 'h) option" where
  "sample_baseline hw s =
     (case baseline_loop hw (time_us_32 hw s) svc_ack_reset s of
        None \<Rightarrow> None
      | Some (d, s) \<Rightarrow> (case svc_ack_arm (hw_floor hw) d of (idle, d) \<Rightarrow> Some (idle, d, s)))"

definition idle_over_limit :: "u16 \<Rightarrow> motor \<Rightarrow> bool" where
  "idle_over_limit idle m \<longleftrightarrow> \<not> idle \<le> current_limit m"

partial_function (option) settle_loop :: "'h svc_hw \<Rightarrow> u32 \<Rightarrow> motor \<times> 'h \<Rightarrow> (bool \<times> motor \<times> 'h) option" where
  "settle_loop hw start s =
     (case sample_baseline hw s of
        None \<Rightarrow> None
      | Some (idle, d, s) \<Rightarrow>
          (if idle \<le> current_limit (fst s) then Some (True, s)
           else if \<not> motor_is_on (fst s) \<or> xTaskGetTickCount hw s - start \<ge> IDLE_SETTLE_MAX_MS
           then Some (\<not> idle_over_limit idle (fst s), s)
           else settle_loop hw start (vTaskDelay hw IDLE_RECHECK_STEP_MS s)))"

definition idle_settles :: "'h svc_hw \<Rightarrow> motor \<times> 'h \<Rightarrow> (bool \<times> motor \<times> 'h) option" where
  "idle_settles hw s = settle_loop hw (xTaskGetTickCount hw s) s"

section \<open>One instruction\<close>

definition track_tripped :: "motor \<Rightarrow> bool" where
  "track_tripped m \<longleftrightarrow> \<not> motor_is_on m"

definition listen ::
  "'h svc_hw \<Rightarrow> svc_ack \<Rightarrow> bool \<Rightarrow> motor \<times> 'h \<Rightarrow> svc_result \<times> svc_ack \<times> bool \<times> motor \<times> 'h" where
  "listen hw d ack s =
     (case (if \<not> ack then svc_ack_sample (hw_adc hw (snd s)) (time_us_32 hw s) d else (True, d)) of
        (ack, d) \<Rightarrow>
          (if track_tripped (fst s) then (SVC_SHORT, d, ack, s) else (SVC_OK, d, ack, sample_wait hw s)))"

definition put_words :: "'h svc_hw \<Rightarrow> u32 list \<Rightarrow> motor \<times> 'h \<Rightarrow> motor \<times> 'h" where
  "put_words hw ws s = (fst s, fold (hw_put hw) ws (snd s))"

text \<open>The three loops of \<open>hw_send\<close>, each with the result of the first \<open>listen\<close> that is not OK.\<close>

partial_function (option) burst_loop ::
  "'h svc_hw \<Rightarrow> u32 list \<Rightarrow> nat \<Rightarrow> svc_ack \<Rightarrow> bool \<Rightarrow> motor \<times> 'h \<Rightarrow> (svc_result \<times> svc_ack \<times> bool \<times> motor \<times> 'h) option" where
  "burst_loop hw ws sent d ack s =
     (if sent < CMD_REPEATS \<and> \<not> ack
      then (let room = (hw_level hw (snd s) + length ws \<le> PIO_TX_FIFO_WORDS);
                sent = (if room then sent + 1 else sent);
                s = (if room then put_words hw ws s else s)
            in case listen hw d ack s of
                 (r, d, ack, s) \<Rightarrow> (if r \<noteq> SVC_OK then Some (r, d, ack, s) else burst_loop hw ws sent d ack s))
      else Some (SVC_OK, d, ack, s))"

partial_function (option) drain_loop ::
  "'h svc_hw \<Rightarrow> svc_ack \<Rightarrow> bool \<Rightarrow> motor \<times> 'h \<Rightarrow> (svc_result \<times> svc_ack \<times> bool \<times> motor \<times> 'h) option" where
  "drain_loop hw d ack s =
     (if hw_level hw (snd s) \<noteq> 0
      then (case listen hw d ack s of
              (r, d, ack, s) \<Rightarrow> (if r \<noteq> SVC_OK then Some (r, d, ack, s) else drain_loop hw d ack s))
      else Some (SVC_OK, d, ack, s))"

partial_function (option) tail_loop ::
  "'h svc_hw \<Rightarrow> u32 \<Rightarrow> svc_ack \<Rightarrow> bool \<Rightarrow> motor \<times> 'h \<Rightarrow> (svc_result \<times> svc_ack \<times> bool \<times> motor \<times> 'h) option" where
  "tail_loop hw tail_start d ack s =
     (if \<not> ack \<and> (time_us_32 hw s - tail_start < ACK_TAIL_MS * 1000 \<or> svc_ack_pending (time_us_32 hw s) d)
      then (case listen hw d ack s of
              (r, d, ack, s) \<Rightarrow> (if r \<noteq> SVC_OK then Some (r, d, ack, s) else tail_loop hw tail_start d ack s))
      else Some (SVC_OK, d, ack, s))"

text \<open>\<open>packet_encode\<close> succeeds for every packet the callers build; otherwise there are no words.\<close>

definition encoded_words :: "dcc_packet \<Rightarrow> u32 list" where
  "encoded_words pkt = (case packet_encode pkt of Some (p, ws) \<Rightarrow> ws | None \<Rightarrow> [])"

text \<open>The next loop, unless the one before it ended with a result that is not OK.\<close>

definition and_then ::
  "(svc_result \<times> svc_ack \<times> bool \<times> motor \<times> 'h) option \<Rightarrow>
   (svc_ack \<Rightarrow> bool \<Rightarrow> motor \<times> 'h \<Rightarrow> (svc_result \<times> svc_ack \<times> bool \<times> motor \<times> 'h) option) \<Rightarrow>
   (svc_result \<times> svc_ack \<times> bool \<times> motor \<times> 'h) option" where
  "and_then x f =
     (case x of None \<Rightarrow> None | Some (r, d, ack, s) \<Rightarrow> (if r \<noteq> SVC_OK then Some (r, d, ack, s) else f d ack s))"

definition hw_send :: "'h svc_hw \<Rightarrow> dcc_packet \<Rightarrow> motor \<times> 'h \<Rightarrow> ((svc_result \<times> bool) \<times> motor \<times> 'h) option" where
  "hw_send hw pkt s =
     (if track_tripped (fst s) then Some ((SVC_SHORT, False), s)
      else case sample_baseline hw s of
        None \<Rightarrow> None
      | Some (idle, d, s) \<Rightarrow>
          (if idle_over_limit idle (fst s) then Some ((SVC_SHORT, False), s)
           else case and_then (and_then (burst_loop hw (encoded_words pkt) 0 d False s) (drain_loop hw))
                       (\<lambda>d ack s. tail_loop hw (time_us_32 hw s) d ack s) of
             None \<Rightarrow> None
           | Some (r, d, ack, s) \<Rightarrow>
               (if r \<noteq> SVC_OK then Some ((r, ack), s)
                else let s = vTaskDelay hw RECOVERY_MS s
                     in Some ((if track_tripped (fst s) then SVC_SHORT else SVC_OK, ack), s))))"

section \<open>The task\<close>

definition track_power :: "'h svc_hw \<Rightarrow> u16 \<Rightarrow> bool \<Rightarrow> motor \<times> 'h \<Rightarrow> motor \<times> 'h" where
  "track_power hw main_limit on s =
     (let now_tick = xTaskGetTickCount hw s
      in if on then (motor_set_power now_tick True (motor_override_limit main_limit (fst s)), snd s)
         else (motor_override_limit 0 (motor_set_power now_tick False (fst s)), snd s))"

text \<open>
  The callback that \<open>svc_cv_read\<close> and \<open>svc_cv_write\<close> send through; its state is \<open>None\<close> from
  the point where \<open>hw_send\<close> does not return.
\<close>

definition svc_send :: "'h svc_hw \<Rightarrow> (motor \<times> 'h) option svc_io" where
  "svc_send hw pkt c =
     (case c of
        None \<Rightarrow> ((SVC_SHORT, False), None)
      | Some s \<Rightarrow>
          (case hw_send hw pkt s of None \<Rightarrow> ((SVC_SHORT, False), None) | Some (r, s) \<Rightarrow> (r, Some s)))"

text \<open>
  One turn of \<open>task_servicemode\<close>: what it hands to the callback and the programming track
  after it. \<open>main_limit\<close> is the limit of the main track.
\<close>

definition servicemode_turn ::
  "'h svc_hw \<Rightarrow> u16 \<Rightarrow> 'k svc_request \<Rightarrow> motor \<times> 'h \<Rightarrow> ((svc_result \<times> u8) \<times> motor \<times> 'h) option" where
  "servicemode_turn hw main_limit req s =
     (let s = track_power hw main_limit True s;
          s = vTaskDelay hw POWER_ON_SETTLE_MS s
      in case idle_settles hw s of
           None \<Rightarrow> None
         | Some (settled, s) \<Rightarrow>
             (case (if \<not> settled then ((SVC_SHORT, rq_value req), Some s)
                    else if rq_op req = SVC_OP_READ
                    then (case svc_cv_read (svc_send hw) (rq_cv req) (Some s) of
                            ((r, v), c) \<Rightarrow> ((r, case v of Some v \<Rightarrow> v | None \<Rightarrow> rq_value req), c))
                    else (case svc_cv_write (svc_send hw) (rq_cv req) (rq_value req) (Some s) of
                            (r, c) \<Rightarrow> ((r, rq_value req), c))) of
                (_, None) \<Rightarrow> None
              | ((res, value), Some s) \<Rightarrow>
                  (let s = (if rq_op req = SVC_OP_WRITE \<and> res \<noteq> SVC_SHORT then vTaskDelay hw WRITE_HOLD_MS s else s)
                   in Some ((res, value), track_power hw main_limit False s))))"

section \<open>Every loop ends\<close>

text \<open>
  What is relied on of the clock and the PIO: a wait takes at least as long as asked and at
  most \<open>2 ^ 30\<close> us longer, putting a word into the queue takes no time, and while words are
  queued each sample period brings the PIO closer to an empty queue (\<open>rest\<close>).
\<close>

definition max_delay :: nat where "max_delay = 2 ^ 30"

definition hw_ok :: "'h svc_hw \<Rightarrow> ('h \<Rightarrow> nat) \<Rightarrow> bool" where
  "hw_ok hw rest \<longleftrightarrow>
     (\<forall>n s. hw_time hw (snd s) + n \<le> hw_time hw (snd (hw_wait hw n s)) \<and>
            hw_time hw (snd (hw_wait hw n s)) \<le> hw_time hw (snd s) + n + max_delay) \<and>
     (\<forall>w h. hw_time hw (hw_put hw w h) = hw_time hw h) \<and>
     (\<forall>s. hw_level hw (snd s) \<noteq> 0 \<longrightarrow> rest (snd (sample_wait hw s)) < rest (snd s))"

abbreviation time_of :: "'h svc_hw \<Rightarrow> motor \<times> 'h \<Rightarrow> nat" where "time_of hw s \<equiv> hw_time hw (snd s)"

lemma hw_ok_wait:
  "hw_ok hw rest \<Longrightarrow> time_of hw s + n \<le> time_of hw (hw_wait hw n s) \<and> time_of hw (hw_wait hw n s) \<le> time_of hw s + n + max_delay"
  unfolding hw_ok_def by blast

lemma hw_ok_rest: "hw_ok hw rest \<Longrightarrow> hw_level hw (snd s) \<noteq> 0 \<Longrightarrow> rest (snd (sample_wait hw s)) < rest (snd s)"
  unfolding hw_ok_def by blast

lemma sample_wait_time:
  "hw_ok hw rest \<Longrightarrow> time_of hw s + 50 \<le> time_of hw (sample_wait hw s) \<and> time_of hw (sample_wait hw s) \<le> time_of hw s + 50 + 2 ^ 30"
  using hw_ok_wait [of hw rest s 50] by (simp add: sample_wait_def SVC_ACK_SAMPLE_US_def max_delay_def)

lemma word_time_diff:
  assumes "a \<le> b" and "b - a < 2 ^ 32"
  shows "unat (of_nat b - of_nat a :: u32) = b - a"
proof -
  have "(of_nat b - of_nat a :: u32) = of_nat (b - a)" using assms(1) by simp
  then show ?thesis using assms(2) by (simp add: unat_of_nat_less)
qed

lemma baseline_loop_ends:
  assumes ok: "hw_ok hw rest"
  shows "t \<le> time_of hw s \<Longrightarrow> time_of hw s \<le> t + 2 ^ 31 \<Longrightarrow>
    \<exists>d' s'. baseline_loop hw (of_nat t) d s = Some (d', s') \<and> time_of hw s \<le> time_of hw s' \<and> time_of hw s' \<le> t + 2 ^ 31"
proof (induction "20000 - (time_of hw s - t)" arbitrary: s d rule: less_induct)
  case less
  have c: "time_us_32 hw s - of_nat t < BASELINE_MS * 1000 \<longleftrightarrow> time_of hw s - t < 20000"
    using less.prems word_time_diff [of t "time_of hw s"]
    by (simp add: time_us_32_def BASELINE_MS_def word_less_nat_alt)
  show ?case
  proof (cases "time_of hw s - t < 20000")
    case True
    let ?s = "sample_wait hw s"
    have w: "time_of hw s + 50 \<le> time_of hw ?s" "time_of hw ?s \<le> time_of hw s + 50 + 2 ^ 30"
      using sample_wait_time [OF ok] by blast+
    have "t \<le> time_of hw ?s" "time_of hw ?s \<le> t + 2 ^ 31" "20000 - (time_of hw ?s - t) < 20000 - (time_of hw s - t)"
      using w True less.prems by simp_all
    from less.hyps [OF this(3,1,2), of "svc_ack_baseline (hw_adc hw (snd s)) d"] True w(1) show ?thesis
      by (subst baseline_loop.simps) (auto simp: c)
  next
    case False
    with less.prems show ?thesis by (subst baseline_loop.simps) (auto simp: c)
  qed
qed

lemma sample_baseline_ends:
  assumes ok: "hw_ok hw rest"
  shows "\<exists>idle d s'. sample_baseline hw s = Some (idle, d, s') \<and> time_of hw s \<le> time_of hw s' \<and>
    time_of hw s' \<le> time_of hw s + 2 ^ 31"
proof -
  obtain d' s' where "baseline_loop hw (of_nat (time_of hw s)) svc_ack_reset s = Some (d', s')"
    "time_of hw s \<le> time_of hw s'" "time_of hw s' \<le> time_of hw s + 2 ^ 31"
    using baseline_loop_ends [OF ok, of "time_of hw s" s svc_ack_reset] by auto
  then show ?thesis by (cases "svc_ack_arm (hw_floor hw) d'") (simp add: sample_baseline_def time_us_32_def)
qed

lemma settle_loop_ends:
  assumes ok: "hw_ok hw rest"
  shows "t \<le> time_of hw s \<Longrightarrow> time_of hw s \<le> t + 2 ^ 31 \<Longrightarrow>
    \<exists>b s'. settle_loop hw (of_nat (t div 1000)) s = Some (b, s')"
proof (induction "2000000 - (time_of hw s - t)" arbitrary: s rule: less_induct)
  case less
  obtain idle d s1 where b: "sample_baseline hw s = Some (idle, d, s1)" "time_of hw s \<le> time_of hw s1"
    "time_of hw s1 \<le> time_of hw s + 2 ^ 31"
    using sample_baseline_ends [OF ok] by blast
  have diff: "time_of hw s1 div 1000 - t div 1000 < 2 ^ 32" "t div 1000 \<le> time_of hw s1 div 1000"
    using b less.prems by (simp_all add: div_le_mono)
  have c: "xTaskGetTickCount hw s1 - of_nat (t div 1000) \<ge> IDLE_SETTLE_MAX_MS \<longleftrightarrow>
      time_of hw s1 div 1000 - t div 1000 \<ge> 1000"
    using word_time_diff [OF diff(2,1)]
    by (simp add: xTaskGetTickCount_def IDLE_SETTLE_MAX_MS_def word_le_nat_alt)
  show ?case
  proof (cases "idle \<le> current_limit (fst s1) \<or> \<not> motor_is_on (fst s1) \<or> time_of hw s1 div 1000 - t div 1000 \<ge> 1000")
    case True
    with b c show ?thesis by (subst settle_loop.simps) auto
  next
    case False
    let ?s = "vTaskDelay hw IDLE_RECHECK_STEP_MS s1"
    have w: "time_of hw s1 + 50000 \<le> time_of hw ?s" "time_of hw ?s \<le> time_of hw s1 + 50000 + 2 ^ 30"
      using hw_ok_wait [OF ok, of s1 50000] by (simp_all add: vTaskDelay_def IDLE_RECHECK_STEP_MS_def max_delay_def)
    have small: "time_of hw s1 - t < 1001000" using False less.prems(1) b(2) by linarith
    have "t \<le> time_of hw ?s" "time_of hw ?s \<le> t + 2 ^ 31" "2000000 - (time_of hw ?s - t) < 2000000 - (time_of hw s - t)"
      using w small less.prems b by simp_all
    from less.hyps [OF this(3,1,2)] False b(1) c show ?thesis
      by (subst settle_loop.simps) auto
  qed
qed

lemma listen_OK:
  assumes "listen hw d ack s = (SVC_OK, d', ack', s')"
  shows "s' = sample_wait hw s" "motor_is_on (fst s)"
    "\<not> ack \<Longrightarrow> (ack', d') = svc_ack_sample (hw_adc hw (snd s)) (time_us_32 hw s) d"
  using assms by (auto simp: listen_def track_tripped_def split: prod.splits if_splits)

lemma put_words_time:
  assumes "hw_ok hw rest"
  shows "time_of hw (put_words hw ws s) = time_of hw s"
proof -
  have "hw_time hw (fold (hw_put hw) ws h) = hw_time hw h" for h
    using assms by (induction ws arbitrary: h) (simp_all add: hw_ok_def)
  then show ?thesis by (simp add: put_words_def)
qed

lemma burst_loop_ends:
  assumes ok: "hw_ok hw rest" and fits: "length ws \<le> PIO_TX_FIFO_WORDS"
  shows "\<exists>r. burst_loop hw ws sent d ack s = Some r"
proof (induction "(CMD_REPEATS - sent, rest (snd s))" arbitrary: sent d ack s rule: wf_induct [OF wf_lex_prod [OF wf_less_than wf_less_than]])
  case 1
  show ?case
  proof (cases "sent < CMD_REPEATS \<and> \<not> ack")
    case True
    let ?room = "hw_level hw (snd s) + length ws \<le> PIO_TX_FIFO_WORDS"
    let ?sent = "if ?room then sent + 1 else sent" and ?s = "if ?room then put_words hw ws s else s"
    obtain r d1 ack1 s1 where l: "listen hw d ack ?s = (r, d1, ack1, s1)" by (metis prod_cases4)
    show ?thesis
    proof (cases "r = SVC_OK")
      case OK: True
      then have s1: "s1 = sample_wait hw ?s" using listen_OK(1) l by blast
      have "((CMD_REPEATS - ?sent, rest (snd s1)), (CMD_REPEATS - sent, rest (snd s))) \<in> less_than <*lex*> less_than"
      proof (cases ?room)
        case False
        with fits have "hw_level hw (snd s) \<noteq> 0" by linarith
        from hw_ok_rest [OF ok this] False s1 show ?thesis by simp
      qed (use True in \<open>auto simp: CMD_REPEATS_def\<close>)
      then have "\<exists>r. burst_loop hw ws ?sent d1 ack1 s1 = Some r" using 1 by blast
      with True l OK show ?thesis by (subst burst_loop.simps) (simp add: Let_def)
    qed (use True l in \<open>subst burst_loop.simps, simp add: Let_def\<close>)
  qed (subst burst_loop.simps, auto)
qed

lemma drain_loop_ends:
  assumes ok: "hw_ok hw rest"
  shows "\<exists>r. drain_loop hw d ack s = Some r"
proof (induction "rest (snd s)" arbitrary: d ack s rule: less_induct)
  case less
  show ?case
  proof (cases "hw_level hw (snd s) = 0")
    case False
    obtain r d1 ack1 s1 where l: "listen hw d ack s = (r, d1, ack1, s1)" by (metis prod_cases4)
    show ?thesis
    proof (cases "r = SVC_OK")
      case True
      then have "s1 = sample_wait hw s" using listen_OK(1) l by blast
      with hw_ok_rest [OF ok False] have "rest (snd s1) < rest (snd s)" by simp
      then have "\<exists>r. drain_loop hw d1 ack1 s1 = Some r" using less by blast
      with False l True show ?thesis by (subst drain_loop.simps) simp
    qed (use False l in \<open>subst drain_loop.simps, simp\<close>)
  qed (subst drain_loop.simps, simp)
qed


text \<open>The detector after a sample: still above since the same time, or not above.\<close>

lemma sample_pending:
  assumes "svc_ack_sample raw now d = (ack', d')" and "\<not> ack'" and "above d" and "svc_ack_pending later d'"
  shows "above d' \<and> above_since d' = above_since d"
proof -
  have "above (smooth raw d) = above d" "above_since (smooth raw d) = above_since d"
    by (simp_all add: smooth_def Let_def)
  with assms show ?thesis by (auto simp: svc_ack_sample_def svc_ack_pending_def Let_def split: if_splits)
qed

lemma tail_stops:
  assumes "ack \<or> \<not> (time_us_32 hw s - t < ACK_TAIL_MS * 1000 \<or> svc_ack_pending (time_us_32 hw s) d)"
  shows "\<exists>r. tail_loop hw t d ack s = Some r"
proof -
  have "\<not> (\<not> ack \<and> (time_us_32 hw s - t < ACK_TAIL_MS * 1000 \<or> svc_ack_pending (time_us_32 hw s) d))"
    using assms by blast
  then show ?thesis by (subst tail_loop.simps) (simp only: if_False, blast)
qed

lemma tail_step:
  assumes "\<And>d1 ack1 s1. listen hw d False s = (SVC_OK, d1, ack1, s1) \<Longrightarrow> \<exists>r. tail_loop hw t d1 ack1 s1 = Some r"
  shows "\<exists>r. tail_loop hw t d ack s = Some r"
proof (cases "\<not> ack \<and> (time_us_32 hw s - t < ACK_TAIL_MS * 1000 \<or> svc_ack_pending (time_us_32 hw s) d)")
  case True
  obtain r d1 ack1 s1 where l: "listen hw d False s = (r, d1, ack1, s1)" by (metis prod_cases4)
  from True have "tail_loop hw t d ack s = (if r \<noteq> SVC_OK then Some (r, d1, ack1, s1) else tail_loop hw t d1 ack1 s1)"
    by (subst tail_loop.simps) (simp add: l)
  with assms l show ?thesis by simp
qed (rule tail_stops, blast)

lemma tail_time:
  assumes "t \<le> time_of hw s" and "time_of hw s - t < 2 ^ 32"
  shows "time_us_32 hw s - of_nat t < ACK_TAIL_MS * 1000 \<longleftrightarrow> time_of hw s - t < 20000"
  using word_time_diff [OF assms] by (simp add: time_us_32_def ACK_TAIL_MS_def word_less_nat_alt)

text \<open>The last 20 ms over, the tail goes on only while one pulse lasts.\<close>

lemma tail_pulse_ends:
  assumes ok: "hw_ok hw rest"
  shows "t + 20000 \<le> time_of hw s \<Longrightarrow> time_of hw s - t < 2 ^ 32 \<Longrightarrow>
    time_of hw s - t \<le> 2 ^ 31 + unat (time_us_32 hw s - above_since d) \<Longrightarrow> \<exists>r. tail_loop hw (of_nat t) d ack s = Some r"
proof (induction "20201 - unat (time_us_32 hw s - above_since d)" arbitrary: d ack s rule: less_induct)
  case less
  have over: "\<not> time_us_32 hw s - of_nat t < ACK_TAIL_MS * 1000"
    using tail_time [of t hw s] less.prems by linarith
  show ?case
  proof (cases "svc_ack_pending (time_us_32 hw s) d")
    case pending: True
    then have up: "above d" and x: "unat (time_us_32 hw s - above_since d) \<le> 20200"
      by (simp_all add: svc_ack_pending_def SVC_ACK_MAX_US_def SVC_ACK_WINDOW_US_def word_le_nat_alt)
    show ?thesis
    proof (rule tail_step)
      fix d1 ack1 s1
      assume l: "listen hw d False s = (SVC_OK, d1, ack1, s1)"
      note s1 = listen_OK [OF l]
      have w: "time_of hw s + 50 \<le> time_of hw s1" "time_of hw s1 \<le> time_of hw s + 50 + 2 ^ 30"
        using sample_wait_time [OF ok, of s] s1(1) by simp_all
      have later: "t + 20000 \<le> time_of hw s1" "time_of hw s1 - t < 2 ^ 32" using less.prems x w by simp_all
      show "\<exists>r. tail_loop hw (of_nat t) d1 ack1 s1 = Some r"
      proof (cases "ack1 \<or> \<not> svc_ack_pending (time_us_32 hw s1) d1")
        case True
        then show ?thesis using tail_time [OF _ later(2)] later(1) by (intro tail_stops) auto
      next
        case False
        have a: "svc_ack_sample (hw_adc hw (snd s)) (time_us_32 hw s) d = (ack1, d1)" using s1(3) by simp
        have since: "above_since d1 = above_since d" using sample_pending [OF a _ up] False by blast
        obtain \<delta> where \<delta>: "time_of hw s1 = time_of hw s + \<delta>" using w(1) by (metis add_leD1 le_Suc_ex)
        have "time_us_32 hw s1 - above_since d1 = (time_us_32 hw s - above_since d) + of_nat \<delta>"
          by (simp add: since time_us_32_def \<delta>)
        moreover have "unat (of_nat \<delta> :: u32) = \<delta>" using w \<delta> by (intro unat_of_nat_less) simp
        ultimately have x1: "unat (time_us_32 hw s1 - above_since d1) = unat (time_us_32 hw s - above_since d) + \<delta>"
          using w x \<delta> by (simp add: unat_word_ariths)
        show ?thesis
          using less.hyps [OF _ later, of d1] x1 x w less.prems(3) \<delta> by force
      qed
    qed
  next
    case False
    with over show ?thesis by (intro tail_stops) blast
  qed
qed

lemma tail_loop_ends:
  assumes ok: "hw_ok hw rest"
  shows "t \<le> time_of hw s \<Longrightarrow> time_of hw s \<le> t + 20050 + 2 ^ 30 \<Longrightarrow> \<exists>r. tail_loop hw (of_nat t) d ack s = Some r"
proof (induction "20000 - (time_of hw s - t)" arbitrary: d ack s rule: less_induct)
  case less
  show ?case
  proof (cases "time_of hw s - t < 20000")
    case True
    show ?thesis
    proof (rule tail_step)
      fix d1 ack1 s1
      assume l: "listen hw d False s = (SVC_OK, d1, ack1, s1)"
      have w: "time_of hw s + 50 \<le> time_of hw s1" "time_of hw s1 \<le> time_of hw s + 50 + 2 ^ 30"
        using sample_wait_time [OF ok, of s] listen_OK(1) [OF l] by simp_all
      show "\<exists>r. tail_loop hw (of_nat t) d1 ack1 s1 = Some r"
        using w True less.prems by (intro less.hyps) simp_all
    qed
  next
    case False
    with less.prems show ?thesis by (intro tail_pulse_ends [OF ok]) simp_all
  qed
qed

section \<open>One instruction\<close>

definition svc_pkt :: "dcc_packet \<Rightarrow> bool" where
  "svc_pkt p \<longleftrightarrow> (\<exists>op cv v. p = packet_build_svc_direct op cv v svc_packet)"

lemma svc_pkt_build [simp]:
  "svc_pkt (packet_build_svc_verify_byte cv v svc_packet)" "svc_pkt (packet_build_svc_write_byte cv v svc_packet)"
  "svc_pkt (packet_build_svc_verify_bit cv b x svc_packet)"
  unfolding svc_pkt_def packet_build_svc_verify_byte_def packet_build_svc_write_byte_def packet_build_svc_verify_bit_def
  by blast+

lemma svc_pkt_fits: "svc_pkt p \<Longrightarrow> length (encoded_words p) \<le> PIO_TX_FIFO_WORDS"
proof -
  assume "svc_pkt p"
  then obtain bs where "holds p bs" "bs \<noteq> []"
    unfolding svc_pkt_def using holds_svc_direct [OF svc_packet_shape] by blast
  from packet_encode_holds [OF this] show ?thesis by (auto simp: encoded_words_def PIO_TX_FIFO_WORDS_def)
qed

lemma and_then_ends:
  assumes "x \<noteq> None" and "\<And>d ack s. f d ack s \<noteq> None"
  shows "and_then x f \<noteq> None"
proof -
  obtain r d ack s where "x = Some (r, d, ack, s)" using assms(1) by (metis not_None_eq prod_cases4)
  then show ?thesis using assms(2) [of d ack s] by (simp add: and_then_def del: not_None_eq)
qed

lemma hw_send_ends:
  assumes ok: "hw_ok hw rest" and fits: "length (encoded_words p) \<le> PIO_TX_FIFO_WORDS"
  shows "\<exists>r s'. hw_send hw p s = Some (r, s')"
proof -
  obtain idle d s1 where 1: "sample_baseline hw s = Some (idle, d, s1)" using sample_baseline_ends [OF ok] by blast
  have "tail_loop hw (time_us_32 hw s) d ack s \<noteq> None" for d ack s
    using tail_loop_ends [OF ok, of "time_of hw s" s d ack] by (auto simp: time_us_32_def)
  then have "and_then (and_then (burst_loop hw (encoded_words p) 0 d False s1) (drain_loop hw))
      (\<lambda>d ack s. tail_loop hw (time_us_32 hw s) d ack s) \<noteq> None"
    using burst_loop_ends [OF ok fits, of 0 d False s1] drain_loop_ends [OF ok] by (intro and_then_ends) auto
  with 1 have "hw_send hw p s \<noteq> None"
    by (cases "and_then (and_then (burst_loop hw (encoded_words p) 0 d False s1) (drain_loop hw))
      (\<lambda>d ack s. tail_loop hw (time_us_32 hw s) d ack s)") (auto simp: hw_send_def Let_def simp del: not_None_eq)
  then show ?thesis by auto
qed

text \<open>A loop ends OK or with a short of a track that is off.\<close>

definition ok_or_short :: "svc_result \<times> svc_ack \<times> bool \<times> motor \<times> 'h \<Rightarrow> bool" where
  "ok_or_short y \<longleftrightarrow> (case y of (r, d, ack, s) \<Rightarrow> r = SVC_OK \<or> r = SVC_SHORT \<and> \<not> motor_is_on (fst s))"

lemma listen_short: "listen hw d ack s = y \<Longrightarrow> fst y \<noteq> SVC_OK \<Longrightarrow> ok_or_short y"
  by (auto simp: listen_def track_tripped_def ok_or_short_def split: prod.splits if_splits)

text \<open>
  A record of the words put into the queue (\<open>log\<close>), which waiting does not change. The burst
  puts whole copies of the packet, all of the fifteen unless an acknowledgement or a short
  ends it.
\<close>

definition logs_words :: "'h svc_hw \<Rightarrow> ('h \<Rightarrow> u32 list) \<Rightarrow> bool" where
  "logs_words hw log \<longleftrightarrow> (\<forall>w h. log (hw_put hw w h) = log h @ [w]) \<and> (\<forall>n s. log (snd (hw_wait hw n s)) = log (snd s))"

lemma logs_put_words: "logs_words hw log \<Longrightarrow> log (snd (put_words hw ws s)) = log (snd s) @ ws"
proof -
  assume a: "logs_words hw log"
  have "log (fold (hw_put hw) ws h) = log h @ ws" for h
    using a by (induction ws arbitrary: h) (simp_all add: logs_words_def)
  then show ?thesis by (simp add: put_words_def)
qed

lemma logs_wait: "logs_words hw log \<Longrightarrow> log (snd (hw_wait hw n s)) = log (snd s)"
  unfolding logs_words_def by blast

lemma logs_listen: "logs_words hw log \<Longrightarrow> listen hw d ack s = (r, d', ack', s') \<Longrightarrow> log (snd s') = log (snd s)"
  using logs_wait [of hw log "unat SVC_ACK_SAMPLE_US" s]
  by (auto simp: listen_def sample_wait_def split: prod.splits if_splits)

text \<open>What the loops after the burst keep.\<close>

definition listened ::
  "('h \<Rightarrow> u32 list) \<Rightarrow> bool \<Rightarrow> motor \<times> 'h \<Rightarrow> svc_result \<times> svc_ack \<times> bool \<times> motor \<times> 'h \<Rightarrow> bool" where
  "listened log ack s y \<longleftrightarrow> (case y of (r, d', ack', s') \<Rightarrow> ok_or_short y \<and> (ack \<longrightarrow> ack') \<and> log (snd s') = log (snd s))"

lemma listen_listened: "logs_words hw log \<Longrightarrow> listen hw d ack s = y \<Longrightarrow> listened log ack s y"
  using listen_short [of hw d ack s] logs_listen [of hw log d ack s]
  by (fastforce simp: listened_def ok_or_short_def listen_def split: prod.splits if_splits)

lemma listened_trans: "listened log ack s (r, d, ack1, s1) \<Longrightarrow> listened log ack1 s1 y \<Longrightarrow> listened log ack s y"
  by (auto simp: listened_def)

lemma listened_OK: "listened log ack s (SVC_OK, d, ack, s)"
  by (simp add: listened_def ok_or_short_def)

lemma drain_loop_listened:
  assumes "logs_words hw log" and "drain_loop hw d ack s = Some y"
  shows "listened log ack s y"
proof -
  have "logs_words hw log \<longrightarrow> listened log ack s y"
  proof (rule drain_loop.raw_induct [of "\<lambda>hw d ack s y. logs_words hw log \<longrightarrow> listened log ack s y", OF _ assms(2)], goal_cases)
    case (1 loop hw d ack s y)
    obtain r d1 ack1 s1 where l: "listen hw d ack s = (r, d1, ack1, s1)" by (metis prod_cases4)
    show ?case using 1(2) listen_listened [OF _ l] 1(1) [of hw d1 ack1 s1 y]
      by (auto simp: l split: if_splits intro: listened_trans listened_OK)
  qed
  with assms(1) show ?thesis by blast
qed

lemma tail_loop_listened:
  assumes "logs_words hw log" and "tail_loop hw t d ack s = Some y"
  shows "listened log ack s y"
proof -
  have "logs_words hw log \<longrightarrow> listened log ack s y"
  proof (rule tail_loop.raw_induct [of "\<lambda>hw t d ack s y. logs_words hw log \<longrightarrow> listened log ack s y", OF _ assms(2)], goal_cases)
    case (1 loop hw t d ack s y)
    obtain r d1 ack1 s1 where l: "listen hw d False s = (r, d1, ack1, s1)" by (metis prod_cases4)
    show ?case using 1(2) listen_listened [OF _ l] 1(1) [of hw t d1 ack1 s1 y]
      by (auto simp: l split: if_splits intro: listened_trans listened_OK)
  qed
  with assms(1) show ?thesis by blast
qed

definition burst_outcome ::
  "('h \<Rightarrow> u32 list) \<Rightarrow> u32 list \<Rightarrow> nat \<Rightarrow> motor \<times> 'h \<Rightarrow> svc_result \<times> svc_ack \<times> bool \<times> motor \<times> 'h \<Rightarrow> bool" where
  "burst_outcome log ws sent s y \<longleftrightarrow>
     (\<exists>k. log (snd (snd (snd (snd y)))) = log (snd s) @ concat (replicate k ws) \<and>
        (sent \<le> CMD_REPEATS \<longrightarrow> sent + k \<le> CMD_REPEATS) \<and>
        (fst y = SVC_OK \<and> \<not> fst (snd (snd y)) \<longrightarrow> CMD_REPEATS \<le> sent + k))"

lemma burst_outcome_step:
  assumes "burst_outcome log ws (sent + n) s1 y" and "log (snd s1) = log (snd s) @ concat (replicate n ws)"
    and "sent + n \<le> CMD_REPEATS"
  shows "burst_outcome log ws sent s y"
proof -
  obtain k where "log (snd (snd (snd (snd y)))) = log (snd s1) @ concat (replicate k ws)" "sent + n + k \<le> CMD_REPEATS"
    "fst y = SVC_OK \<and> \<not> fst (snd (snd y)) \<longrightarrow> CMD_REPEATS \<le> sent + n + k"
    using assms(1,3) by (auto simp: burst_outcome_def)
  with assms(2) show ?thesis unfolding burst_outcome_def
    by (intro exI [of _ "n + k"]) (simp add: replicate_add add.assoc)
qed

lemma burst_loop_outcome:
  assumes "logs_words hw log" and "burst_loop hw ws sent d ack s = Some y"
  shows "ok_or_short y \<and> burst_outcome log ws sent s y"
proof -
  have "logs_words hw log \<longrightarrow> ok_or_short y \<and> burst_outcome log ws sent s y"
  proof (rule burst_loop.raw_induct
      [of "\<lambda>hw ws sent d ack s y. logs_words hw log \<longrightarrow> ok_or_short y \<and> burst_outcome log ws sent s y", OF _ assms(2)],
      goal_cases)
    case (1 loop hw ws sent d ack s y)
    let ?room = "hw_level hw (snd s) + length ws \<le> PIO_TX_FIFO_WORDS"
    let ?n = "if ?room then 1 else 0" and ?s = "if ?room then put_words hw ws s else s"
    obtain r d1 ack1 s1 where l: "listen hw d ack ?s = (r, d1, ack1, s1)" by (metis prod_cases4)
    show ?case
    proof
      assume logs: "logs_words hw log"
      have s1: "log (snd s1) = log (snd s) @ concat (replicate ?n ws)"
        using logs_listen [OF logs l] logs_put_words [OF logs, of ws s] by auto
      show "ok_or_short y \<and> burst_outcome log ws sent s y"
      proof (cases "sent < CMD_REPEATS \<and> \<not> ack")
        case False
        with 1(2) have "y = (SVC_OK, d, ack, s)" by auto
        with False show ?thesis by (auto simp: ok_or_short_def burst_outcome_def intro: exI [of _ 0])
      next
        case True
        show ?thesis
        proof (cases "r = SVC_OK")
          case False
          with True 1(2) l have "y = (r, d1, ack1, s1)" by (auto simp: Let_def)
          moreover from this have "burst_outcome log ws (sent + ?n) s1 y"
            using False by (auto simp: burst_outcome_def intro: exI [of _ 0])
          ultimately show ?thesis
            using burst_outcome_step [OF _ s1] listen_short [OF l] False True by auto
        next
          case OK: True
          with True 1(2) l have "loop hw ws (sent + ?n) d1 ack1 s1 = Some y" by (auto simp: Let_def)
          then have "ok_or_short y \<and> burst_outcome log ws (sent + ?n) s1 y" using 1(1) logs by blast
          then show ?thesis using burst_outcome_step [OF _ s1] True by auto
        qed
      qed
    qed
  qed
  with assms(1) show ?thesis by blast
qed

lemma logs_baseline:
  assumes "logs_words hw log" and "sample_baseline hw s = Some (idle, d, s')"
  shows "log (snd s') = log (snd s)"
proof -
  have loop: "logs_words hw log \<longrightarrow> log (snd (snd y)) = log (snd s)" if "baseline_loop hw start d s = Some y" for start d y
  proof (rule baseline_loop.raw_induct [of "\<lambda>hw start d s y. logs_words hw log \<longrightarrow> log (snd (snd y)) = log (snd s)", OF _ that],
      goal_cases)
    case (1 loop hw start d s y)
    then show ?case using logs_wait [of hw log _ s] by (auto simp: sample_wait_def split: if_splits)
  qed
  show ?thesis using assms loop by (auto simp: sample_baseline_def split: option.splits prod.splits)
qed

lemma and_then_outcome:
  assumes "and_then x f = Some y" and "\<And>y. x = Some y \<Longrightarrow> Q y"
    and "\<And>d ack s y. Q (SVC_OK, d, ack, s) \<Longrightarrow> f d ack s = Some y \<Longrightarrow> Q y"
  shows "Q y"
proof -
  obtain r d ack s where x: "x = Some (r, d, ack, s)" using assms(1) by (auto simp: and_then_def split: option.splits)
  show ?thesis using assms(1) assms(2) [OF x] assms(3) [of d ack s y] by (auto simp: and_then_def x split: if_splits)
qed

text \<open>What the three loops of an instruction do together.\<close>

definition sent_outcome ::
  "('h \<Rightarrow> u32 list) \<Rightarrow> u32 list \<Rightarrow> motor \<times> 'h \<Rightarrow> svc_result \<times> svc_ack \<times> bool \<times> motor \<times> 'h \<Rightarrow> bool" where
  "sent_outcome log ws s y \<longleftrightarrow> ok_or_short y \<and> burst_outcome log ws 0 s y"

lemma sent_outcome_listened:
  assumes "sent_outcome log ws s (SVC_OK, d, ack, s1)" and "listened log ack s1 y"
  shows "sent_outcome log ws s y"
  using assms by (auto simp: sent_outcome_def burst_outcome_def listened_def)

lemma loops_outcome:
  assumes "logs_words hw log"
    and "and_then (and_then (burst_loop hw ws 0 d False s) (drain_loop hw)) (\<lambda>d ack s. tail_loop hw (time_us_32 hw s) d ack s) = Some y"
  shows "sent_outcome log ws s y"
proof (rule and_then_outcome [OF assms(2)])
  fix y
  assume "and_then (burst_loop hw ws 0 d False s) (drain_loop hw) = Some y"
  then show "sent_outcome log ws s y"
  proof (rule and_then_outcome)
    show "burst_loop hw ws 0 d False s = Some y \<Longrightarrow> sent_outcome log ws s y" for y
      using burst_loop_outcome [OF assms(1)] unfolding sent_outcome_def by blast
    show "sent_outcome log ws s (SVC_OK, d, ack, s1) \<Longrightarrow> drain_loop hw d ack s1 = Some y \<Longrightarrow> sent_outcome log ws s y"
      for d ack s1 y using drain_loop_listened [OF assms(1)] sent_outcome_listened by blast
  qed
next
  show "sent_outcome log ws s (SVC_OK, d, ack, s1) \<Longrightarrow> tail_loop hw (time_us_32 hw s1) d ack s1 = Some y \<Longrightarrow> sent_outcome log ws s y"
    for d ack s1 y using tail_loop_listened [OF assms(1)] sent_outcome_listened by blast
qed

text \<open>
  C24: An instruction ends OK only on a track that is still on, and otherwise with a short: of
  a track that is off, or of a decoder that draws more than the limit before anything is
  sent. Into the PIO go whole copies of the encoded packet, at most fifteen, and all fifteen
  unless the decoder acknowledged or the track was shorted.
\<close>

theorem hw_send_outcome:
  assumes "logs_words hw log" and "hw_send hw p s = Some ((r, ack), s')"
  shows "(r = SVC_OK \<and> motor_is_on (fst s') \<or>
      r = SVC_SHORT \<and> (\<not> motor_is_on (fst s') \<or>
        (\<exists>idle d. sample_baseline hw s = Some (idle, d, s') \<and> idle_over_limit idle (fst s')))) \<and>
    (\<exists>k \<le> CMD_REPEATS. log (snd s') = log (snd s) @ concat (replicate k (encoded_words p)) \<and>
       (r = SVC_OK \<and> \<not> ack \<longrightarrow> k = CMD_REPEATS))"
proof -
  consider (off) "\<not> motor_is_on (fst s)" "r = SVC_SHORT" "s' = s"
    | (idle) idle d where "sample_baseline hw s = Some (idle, d, s')" "idle_over_limit idle (fst s')" "r = SVC_SHORT"
    | (sent) idle d s1 r1 d1 s2 where "sample_baseline hw s = Some (idle, d, s1)"
        "and_then (and_then (burst_loop hw (encoded_words p) 0 d False s1) (drain_loop hw))
           (\<lambda>d ack s. tail_loop hw (time_us_32 hw s) d ack s) = Some (r1, d1, ack, s2)"
        "if r1 \<noteq> SVC_OK then r = r1 \<and> s' = s2
         else s' = vTaskDelay hw RECOVERY_MS s2 \<and> r = (if track_tripped (fst s') then SVC_SHORT else SVC_OK)"
    using assms(2) by (fastforce simp: hw_send_def track_tripped_def Let_def split: option.splits prod.splits if_splits)
  then show ?thesis
  proof cases
    case off
    then show ?thesis using assms(2) by (auto simp: hw_send_def track_tripped_def intro!: exI [of _ 0])
  next
    case idle
    then show ?thesis using assms logs_baseline [OF assms(1) idle(1)]
      by (auto simp: hw_send_def track_tripped_def intro!: exI [of _ 0] split: if_splits)
  next
    case sent
    have "sent_outcome log (encoded_words p) s1 (r1, d1, ack, s2)" using loops_outcome [OF assms(1) sent(2)] .
    then show ?thesis
      using sent(3) logs_baseline [OF assms(1) sent(1)] logs_wait [OF assms(1), of "RECOVERY_MS * 1000" s2]
      by (auto simp: sent_outcome_def burst_outcome_def ok_or_short_def vTaskDelay_def track_tripped_def split: if_splits)
  qed
qed

section \<open>Operations\<close>

text \<open>What every instruction keeps of the state, a CV operation keeps.\<close>

lemma read_bits_keeps:
  assumes "\<And>p c. svc_pkt p \<Longrightarrow> P c \<Longrightarrow> P (snd (send p c))"
  shows "P c \<Longrightarrow> P (snd (read_bits send cv bs v a c))"
proof (induction bs arbitrary: v a c)
  case (Cons b bs)
  obtain r ack c' where s: "send (packet_build_svc_verify_bit cv (of_nat b) True svc_packet) c = ((r, ack), c')"
    by (metis prod.exhaust)
  then have "P c'" using assms [OF svc_pkt_build(3) Cons.prems] by (metis snd_conv)
  with Cons.IH s show ?case by simp
qed simp

lemma svc_cv_read_keeps:
  assumes "\<And>p c. svc_pkt p \<Longrightarrow> P c \<Longrightarrow> P (snd (send p c))" and "P c"
  shows "P (snd (svc_cv_read send cv c))"
proof -
  have "P c \<Longrightarrow> P (snd (read_attempts send cv n a c))" for n a
  proof (induction n arbitrary: a c)
    case (Suc n)
    obtain r v a1 c1 where b: "read_bits send cv [0..<8] 0 a c = ((r, v, a1), c1)" by (metis prod.exhaust)
    have "P c1" using read_bits_keeps [of P send c cv "[0..<8]" 0 a, OF assms(1) Suc.prems] b by simp
    moreover obtain r2 ack c2 where s: "verify_byte send cv v c1 = ((r2, ack), c2)" by (metis prod.exhaust)
    ultimately have "P c2" using assms(1) [OF svc_pkt_build(1), of c1 cv v] by (simp add: verify_byte_def)
    with Suc.IH b s \<open>P c1\<close> show ?case by simp
  qed simp
  then show ?thesis using assms(2) by (simp add: svc_cv_read_def)
qed

lemma svc_cv_write_keeps:
  assumes "\<And>p c. svc_pkt p \<Longrightarrow> P c \<Longrightarrow> P (snd (send p c))" and "P c"
  shows "P (snd (svc_cv_write send cv v c))"
proof -
  obtain r ack c1 where w: "send (packet_build_svc_write_byte cv v svc_packet) c = ((r, ack), c1)" by (metis prod.exhaust)
  then have "P c1" using assms(1) [OF svc_pkt_build(2) assms(2)] by (metis snd_conv)
  moreover obtain r2 ack2 c2 where s: "verify_byte send cv v c1 = ((r2, ack2), c2)" by (metis prod.exhaust)
  ultimately have "P c2" using assms(1) [OF svc_pkt_build(1), of c1 cv v] by (simp add: verify_byte_def)
  with w s \<open>P c1\<close> show ?thesis by (simp add: svc_cv_write_def)
qed

lemma svc_send_ends:
  assumes "hw_ok hw rest" and "svc_pkt p" and "c \<noteq> None"
  shows "snd (svc_send hw p c) \<noteq> None"
proof -
  obtain s where "c = Some s" using assms(3) by blast
  moreover obtain r s' where "hw_send hw p s = Some (r, s')"
    using hw_send_ends [OF assms(1) svc_pkt_fits [OF assms(2)]] by blast
  ultimately show ?thesis by (simp add: svc_send_def)
qed

lemma track_power_off:
  "pstate (fst (track_power hw l False s)) = POWER_MODE_OFF" "limit_override (fst (track_power hw l False s)) = 0"
  by (simp_all add: track_power_def motor_set_power_def motor_override_limit_def apply_mode_def Let_def)

lemma turn_ends:
  assumes "hw_ok hw rest"
  shows "\<exists>r s'. servicemode_turn hw l req s = Some (r, s') \<and> pstate (fst s') = POWER_MODE_OFF \<and> limit_override (fst s') = 0"
proof -
  define s1 where "s1 = vTaskDelay hw POWER_ON_SETTLE_MS (track_power hw l True s)"
  obtain settled s2 where i: "idle_settles hw s1 = Some (settled, s2)"
    using settle_loop_ends [OF assms, of "time_of hw s1" s1] by (auto simp: idle_settles_def xTaskGetTickCount_def)
  obtain r v c where rd: "svc_cv_read (svc_send hw) (rq_cv req) (Some s2) = ((r, v), c)" by (metis prod.exhaust)
  obtain r' c' where wr: "svc_cv_write (svc_send hw) (rq_cv req) (rq_value req) (Some s2) = (r', c')" by (metis prod.exhaust)
  have "c \<noteq> None" "c' \<noteq> None"
    using svc_cv_read_keeps [of "\<lambda>c. c \<noteq> None" "svc_send hw" "Some s2" "rq_cv req", OF svc_send_ends [OF assms]]
      svc_cv_write_keeps [of "\<lambda>c. c \<noteq> None" "svc_send hw" "Some s2" "rq_cv req" "rq_value req", OF svc_send_ends [OF assms]]
      rd wr by simp_all
  then obtain s3 s4 where c: "c = Some s3" "c' = Some s4" by auto
  have "pstate (fst s') = POWER_MODE_OFF \<and> limit_override (fst s') = 0" if "servicemode_turn hw l req s = Some (r, s')" for r s'
    using that unfolding servicemode_turn_def Let_def s1_def [symmetric] i
    by (auto simp: rd wr c track_power_off split: if_splits)
  moreover have "servicemode_turn hw l req s \<noteq> None"
    unfolding servicemode_turn_def Let_def s1_def [symmetric] i by (simp add: rd wr c del: not_None_eq)
  ultimately show ?thesis by (metis not_None_eq prod.exhaust)
qed

text \<open>
  C23: Whatever the decoder and the track do, every operation ends, and it leaves the
  programming track off with its own current limit in force.
\<close>

theorem operation_ends_off:
  assumes "hw_ok hw rest"
  shows "\<exists>res value m h. servicemode_turn hw main_limit req s = Some ((res, value), (m, h)) \<and>
    pstate m = POWER_MODE_OFF \<and> trip_limit m = current_limit m"
  using turn_ends [OF assms, of main_limit req s] by (auto simp: trip_limit_def)

section \<open>Requests and completions\<close>

datatype 'k svc_event = Submit svc_op u16 u8 "'k option" | Turn

text \<open>
  The queue and the track, with the callbacks of the requests accepted and the calls made so
  far; a turn of the task that does not return ends everything.
\<close>

record ('k, 'h) svc_state =
  st_queue :: "'k svc_request option option"
  st_track :: "motor \<times> 'h"
  st_accepted :: "'k list"
  st_done :: "('k \<times> svc_result \<times> u8) list"

fun svc_step :: "'h svc_hw \<Rightarrow> u16 \<Rightarrow> 'k svc_event \<Rightarrow> ('k, 'h) svc_state option \<Rightarrow> ('k, 'h) svc_state option" where
  "svc_step hw l e None = None"
| "svc_step hw l (Submit op cv v k) (Some s) =
     (case servicemode_submit op cv v k (st_queue s) of
        (r, q) \<Rightarrow> Some (s\<lparr>st_queue := q, st_accepted := st_accepted s @ (if r = SVC_OK then [the k] else [])\<rparr>))"
| "svc_step hw l Turn (Some s) =
     (case st_queue s of
        Some (Some req) \<Rightarrow>
          (case servicemode_turn hw l req (st_track s) of
             None \<Rightarrow> None
           | Some ((res, v), t) \<Rightarrow>
               Some (s\<lparr>st_queue := Some None, st_track := t, st_done := st_done s @ [(rq_done req, res, v)]\<rparr>))
      | _ \<Rightarrow> Some s)"

definition svc_start :: "motor \<times> 'h \<Rightarrow> ('k, 'h) svc_state option" where
  "svc_start t = Some \<lparr>st_queue = Some None, st_track = t, st_accepted = [], st_done = []\<rparr>"

definition waiting_request :: "('k, 'h) svc_state \<Rightarrow> 'k list" where
  "waiting_request s = (case st_queue s of Some (Some req) \<Rightarrow> [rq_done req] | _ \<Rightarrow> [])"

definition answered_in_order :: "('k, 'h) svc_state option \<Rightarrow> bool" where
  "answered_in_order s \<longleftrightarrow> (\<exists>s'. s = Some s' \<and> st_accepted s' = map fst (st_done s') @ waiting_request s')"

lemma svc_step_answered:
  assumes "hw_ok hw rest" and "answered_in_order s"
  shows "answered_in_order (svc_step hw l e s)"
proof -
  obtain s' where s: "s = Some s'" "st_accepted s' = map fst (st_done s') @ waiting_request s'"
    using assms(2) by (auto simp: answered_in_order_def)
  show ?thesis
  proof (cases e)
    case (Submit op cv v k)
    with s show ?thesis
      by (auto simp: answered_in_order_def servicemode_submit_def waiting_request_def Let_def split: option.splits)
  next
    case Turn
    show ?thesis
    proof (cases "st_queue s'")
      case (Some slot)
      show ?thesis
      proof (cases slot)
        case req: (Some req)
        obtain res v t where "servicemode_turn hw l req (st_track s') = Some ((res, v), t)"
          using turn_ends [OF assms(1)] by (metis prod.exhaust)
        with s Turn Some req show ?thesis by (simp add: answered_in_order_def waiting_request_def)
      qed (use s Turn Some in \<open>simp add: answered_in_order_def\<close>)
    qed (use s Turn in \<open>simp add: answered_in_order_def\<close>)
  qed
qed

text \<open>
  C10: Whatever is submitted and however the turns of the task come, every accepted request
  gets exactly one call of its callback, in the order of acceptance; at most one is waiting.
\<close>

theorem requests_answered_once:
  assumes "hw_ok hw rest"
  shows "\<exists>s. fold (svc_step hw main_limit) es (svc_start t) = Some s \<and>
    st_accepted s = map fst (st_done s) @ waiting_request s \<and> length (waiting_request s) \<le> 1"
proof -
  have "answered_in_order s \<Longrightarrow> answered_in_order (fold (svc_step hw main_limit) es s)" for s
    by (induction es arbitrary: s) (auto intro: svc_step_answered [OF assms])
  moreover have "answered_in_order (svc_start t)" by (simp add: answered_in_order_def svc_start_def waiting_request_def)
  moreover have "length (waiting_request s) \<le> 1" for s :: "('c, 'd) svc_state"
    by (auto simp: waiting_request_def split: option.splits)
  ultimately show ?thesis unfolding answered_in_order_def by blast
qed

section \<open>A bench\<close>

text \<open>
  A programming track without a decoder: the time, the words queued, of which the PIO takes
  one with every wait, and all words ever put.
\<close>

definition bench :: "(nat \<times> u32 list \<times> u32 list) svc_hw" where
  "bench = \<lparr>hw_time = fst, hw_adc = (\<lambda>h. 0), hw_level = (\<lambda>h. length (fst (snd h))),
     hw_put = (\<lambda>w (t, q, log). (t, q @ [w], log @ [w])), hw_wait = (\<lambda>n (m, (t, q, log)). (m, (t + n, drop 1 q, log))),
     hw_floor = 60\<rparr>"

lemma bench_ok: "hw_ok bench (\<lambda>h. length (fst (snd h)))"
  by (auto simp: hw_ok_def bench_def sample_wait_def)

lemma bench_logs: "logs_words bench (\<lambda>h. snd (snd h))"
  by (auto simp: logs_words_def bench_def)

definition bench_track :: "motor \<times> nat \<times> u32 list \<times> u32 list" where
  "bench_track = (motor_set_power 0 True (motor_init 400), (0, [], []))"

lemma hw_send_outcome_witness:
  "\<exists>r ack s' k. hw_send bench (packet_build_svc_verify_byte 8 3 svc_packet) bench_track = Some ((r, ack), s') \<and>
     snd (snd (snd s')) = concat (replicate k (encoded_words (packet_build_svc_verify_byte 8 3 svc_packet))) \<and> k \<le> 15"
proof -
  let ?p = "packet_build_svc_verify_byte 8 3 svc_packet"
  obtain r ack s' where s: "hw_send bench ?p bench_track = Some ((r, ack), s')"
    using hw_send_ends [OF bench_ok svc_pkt_fits [OF svc_pkt_build(1)]] by (metis prod.exhaust)
  from hw_send_outcome [OF bench_logs s] s show ?thesis
    by (auto simp: CMD_REPEATS_def bench_track_def)
qed

definition bench_request :: "nat svc_request" where
  "bench_request = \<lparr>rq_op = SVC_OP_READ, rq_cv = 8, rq_value = 0, rq_done = 7\<rparr>"

lemma operation_ends_off_witness:
  "\<exists>res value m h. servicemode_turn bench 500 bench_request bench_track = Some ((res, value), (m, h)) \<and>
     pstate m = POWER_MODE_OFF \<and> trip_limit m = current_limit m"
  by (rule operation_ends_off [OF bench_ok])

lemma requests_answered_once_witness:
  "\<exists>s. fold (svc_step bench 500) [Submit SVC_OP_READ 8 0 (Some 1), Submit SVC_OP_WRITE 8 3 (Some 2), Turn, Turn,
      Submit SVC_OP_WRITE 8 3 (Some 3)] (svc_start bench_track) = Some s \<and> st_accepted s = [1, 3 :: nat] \<and>
    map fst (st_done s) = [1]"
proof -
  let ?es = "[Submit SVC_OP_READ 8 0 (Some 1), Submit SVC_OP_WRITE 8 3 (Some 2), Turn, Turn, Submit SVC_OP_WRITE 8 3 (Some (3 :: nat))]"
  obtain s where s: "fold (svc_step bench 500) ?es (svc_start bench_track) = Some s"
    "st_accepted s = map fst (st_done s) @ waiting_request s" "length (waiting_request s) \<le> 1"
    using requests_answered_once [OF bench_ok, of 500 ?es bench_track] by auto
  moreover have "st_accepted s = [1, 3] \<and> waiting_request s = [3]"
    using s(1) by (auto simp: svc_start_def servicemode_submit_def waiting_request_def Let_def split: option.splits)
  ultimately show ?thesis by auto
qed

end
