(* ===== verification/Lcc_Frame.thy ===== *)
theory Lcc_Frame
  imports Prelude
begin

text \<open>
  OpenLCB frames on CAN: \<^verbatim>\<open>src/src/lcc/lcc_defs.h\<close> and \<^verbatim>\<open>lcc_frame.h\<close>. The protocol
  constants, the identifier fields, the header of addressed messages and the big-endian
  node and event IDs, with the lemmas that what is put in comes out.
\<close>

named_theorems lcc_consts \<open>values of the protocol constants\<close>

section \<open>Constants: \<open>lcc_defs.h\<close>\<close>

definition LCC_FRAME_GLOBAL_ADDRESSED :: u8 where [lcc_consts]: "LCC_FRAME_GLOBAL_ADDRESSED = 1"
definition LCC_FRAME_DATAGRAM_ONE :: u8 where [lcc_consts]: "LCC_FRAME_DATAGRAM_ONE = 2"
definition LCC_FRAME_DATAGRAM_FIRST :: u8 where [lcc_consts]: "LCC_FRAME_DATAGRAM_FIRST = 3"
definition LCC_FRAME_DATAGRAM_MIDDLE :: u8 where [lcc_consts]: "LCC_FRAME_DATAGRAM_MIDDLE = 4"
definition LCC_FRAME_DATAGRAM_FINAL :: u8 where [lcc_consts]: "LCC_FRAME_DATAGRAM_FINAL = 5"

definition LCC_CONTROL_RID :: u16 where [lcc_consts]: "LCC_CONTROL_RID = 0x0700"
definition LCC_CONTROL_AMD :: u16 where [lcc_consts]: "LCC_CONTROL_AMD = 0x0701"
definition LCC_CONTROL_AME :: u16 where [lcc_consts]: "LCC_CONTROL_AME = 0x0702"
definition LCC_CONTROL_AMR :: u16 where [lcc_consts]: "LCC_CONTROL_AMR = 0x0703"

definition LCC_MTI_INITIALIZATION_COMPLETE :: u16 where [lcc_consts]: "LCC_MTI_INITIALIZATION_COMPLETE = 0x0100"
definition LCC_MTI_VERIFY_NODE_ID_GLOBAL :: u16 where [lcc_consts]: "LCC_MTI_VERIFY_NODE_ID_GLOBAL = 0x0490"
definition LCC_MTI_VERIFY_NODE_ID_ADDRESSED :: u16 where [lcc_consts]: "LCC_MTI_VERIFY_NODE_ID_ADDRESSED = 0x0488"
definition LCC_MTI_VERIFIED_NODE_ID :: u16 where [lcc_consts]: "LCC_MTI_VERIFIED_NODE_ID = 0x0170"
definition LCC_MTI_PROTOCOL_SUPPORT_INQUIRY :: u16 where [lcc_consts]: "LCC_MTI_PROTOCOL_SUPPORT_INQUIRY = 0x0828"
definition LCC_MTI_PROTOCOL_SUPPORT_REPLY :: u16 where [lcc_consts]: "LCC_MTI_PROTOCOL_SUPPORT_REPLY = 0x0668"
definition LCC_MTI_IDENT_INFO_REQUEST :: u16 where [lcc_consts]: "LCC_MTI_IDENT_INFO_REQUEST = 0x0DE8"
definition LCC_MTI_IDENT_INFO_REPLY :: u16 where [lcc_consts]: "LCC_MTI_IDENT_INFO_REPLY = 0x0A08"
definition LCC_MTI_DATAGRAM_OK :: u16 where [lcc_consts]: "LCC_MTI_DATAGRAM_OK = 0x0A28"
definition LCC_MTI_DATAGRAM_REJECTED :: u16 where [lcc_consts]: "LCC_MTI_DATAGRAM_REJECTED = 0x0A48"

definition LCC_MTI_ADDRESS_MASK :: u16 where [lcc_consts]: "LCC_MTI_ADDRESS_MASK = 0x0008"

definition LCC_NOT_FIRST_FRAME :: u8 where [lcc_consts]: "LCC_NOT_FIRST_FRAME = 0x20"
definition LCC_NOT_LAST_FRAME :: u8 where [lcc_consts]: "LCC_NOT_LAST_FRAME = 0x10"

section \<open>Frames\<close>

text \<open>
  A CAN frame: the 29-bit identifier and the data bytes. The bytes of \<open>data[8]\<close> behind
  \<open>dlc\<close> are never read, so \<open>fr_data\<close> holds the bytes in use and \<open>dlc\<close> is its length.
\<close>

record lcc_frame =
  fr_id :: u32
  fr_data :: "u8 list"

abbreviation dlc :: "lcc_frame \<Rightarrow> nat" where "dlc f \<equiv> length (fr_data f)"

section \<open>Identifiers\<close>

definition lcc_can_id :: "u16 \<Rightarrow> u16 \<Rightarrow> u32" where
  "lcc_can_id mti src_alias = u32_of (src_alias AND 0xFFF) OR shl (u32_of mti) 12
     OR shl (u32_of LCC_FRAME_GLOBAL_ADDRESSED) 24 OR shl 1 27 OR shl 1 28"

definition lcc_control_id :: "u16 \<Rightarrow> u16 \<Rightarrow> u8 \<Rightarrow> u32" where
  "lcc_control_id src_alias field sequence = u32_of (src_alias AND 0xFFF) OR shl (u32_of (field AND 0xFFF)) 12
     OR shl (u32_of (sequence AND 0x7)) 24 OR shl 0 27 OR shl 1 28"

definition lcc_frame_datagram_id :: "u8 \<Rightarrow> u16 \<Rightarrow> u16 \<Rightarrow> u32" where
  "lcc_frame_datagram_id frame_type dst_alias src_alias = u32_of (src_alias AND 0xFFF)
     OR shl (u32_of (dst_alias AND 0xFFF)) 12 OR shl (u32_of frame_type) 24 OR shl 1 27 OR shl 1 28"

definition lcc_get_src :: "u32 \<Rightarrow> u16" where
  "lcc_get_src can_id = u16_of (can_id AND 0x00000FFF)"

definition lcc_get_mti :: "u32 \<Rightarrow> u16" where
  "lcc_get_mti can_id = u16_of (shr (can_id AND 0x00FFF000) 12)"

definition lcc_get_can_frame_type :: "u32 \<Rightarrow> u8" where
  "lcc_get_can_frame_type can_id = u8_of (shr (can_id AND 0x07000000) 24)"

definition lcc_is_control_frame :: "u32 \<Rightarrow> bool" where
  "lcc_is_control_frame can_id \<longleftrightarrow> shr (can_id AND 0x08000000) 27 = 0"

definition lcc_get_control_field :: "u32 \<Rightarrow> u16" where
  "lcc_get_control_field can_id = u16_of (shr (can_id AND 0x07FFF000) 12)"

definition lcc_get_datagram_dst :: "u32 \<Rightarrow> u16" where
  "lcc_get_datagram_dst can_id = u16_of (shr can_id 12 AND 0xFFF)"

section \<open>The header of addressed messages\<close>

definition lcc_frame_addressed_dst :: "lcc_frame \<Rightarrow> u16" where
  "lcc_frame_addressed_dst f = shl (u16_of (fr_data f ! 0 AND 0x0F)) 8 OR u16_of (fr_data f ! 1)"

definition lcc_frame_addressed_flags :: "lcc_frame \<Rightarrow> u8" where
  "lcc_frame_addressed_flags f = fr_data f ! 0 AND 0xF0"

definition lcc_frame_addressed_is_first :: "lcc_frame \<Rightarrow> bool" where
  "lcc_frame_addressed_is_first f \<longleftrightarrow> lcc_frame_addressed_flags f AND LCC_NOT_FIRST_FRAME = 0"

definition lcc_frame_addressed_is_last :: "lcc_frame \<Rightarrow> bool" where
  "lcc_frame_addressed_is_last f \<longleftrightarrow> lcc_frame_addressed_flags f AND LCC_NOT_LAST_FRAME = 0"

definition lcc_frame_build_addressed_hdr :: "u16 \<Rightarrow> u8 \<Rightarrow> u8 list" where
  "lcc_frame_build_addressed_hdr dst_alias flags =
     [u8_of (shr dst_alias 8 AND 0x0F) OR (flags AND 0xF0), u8_of (dst_alias AND 0xFF)]"

section \<open>Big-endian fields\<close>

definition lcc_node_id_to_buf :: "u64 \<Rightarrow> u8 list" where
  "lcc_node_id_to_buf node_id =
     map (\<lambda>n. u8_of (shr node_id n AND 0xFF)) [40, 32, 24, 16, 8, 0]"

definition lcc_node_id_from_buf :: "u8 list \<Rightarrow> u64" where
  "lcc_node_id_from_buf buf = shl (u64_of (buf ! 0)) 40 OR shl (u64_of (buf ! 1)) 32 OR
     shl (u64_of (buf ! 2)) 24 OR shl (u64_of (buf ! 3)) 16 OR shl (u64_of (buf ! 4)) 8 OR u64_of (buf ! 5)"

definition lcc_event_from_buf :: "u8 list \<Rightarrow> u64" where
  "lcc_event_from_buf buf = shl (u64_of (buf ! 0)) 56 OR shl (u64_of (buf ! 1)) 48 OR
     shl (u64_of (buf ! 2)) 40 OR shl (u64_of (buf ! 3)) 32 OR shl (u64_of (buf ! 4)) 24 OR
     shl (u64_of (buf ! 5)) 16 OR shl (u64_of (buf ! 6)) 8 OR u64_of (buf ! 7)"

definition lcc_event_to_buf :: "u64 \<Rightarrow> u8 list" where
  "lcc_event_to_buf event_id =
     map (\<lambda>n. u8_of (shr event_id n AND 0xFF)) [56, 48, 40, 32, 24, 16, 8, 0]"

section \<open>What is put in comes out\<close>

lemma alias_bits: "(a :: u16) < 0x1000 \<Longrightarrow> 12 \<le> n \<Longrightarrow> \<not> bit a n"
  using bit_above_bound [of a 12 n] by simp

lemma can_id_fields:
  assumes "mti < 0x1000" and "src < 0x1000"
  shows "lcc_get_src (lcc_can_id mti src) = src" and "lcc_get_mti (lcc_can_id mti src) = mti"
    and "lcc_get_can_frame_type (lcc_can_id mti src) = LCC_FRAME_GLOBAL_ADDRESSED"
    and "\<not> lcc_is_control_frame (lcc_can_id mti src)"
  using alias_bits [OF assms(1)] alias_bits [OF assms(2)]
  by (simp_all add: lcc_can_id_def lcc_get_src_def lcc_get_mti_def lcc_get_can_frame_type_def
      lcc_is_control_frame_def LCC_FRAME_GLOBAL_ADDRESSED_def word_bits_simps)

lemma control_id_fields:
  assumes "src < 0x1000" and "field < 0x1000"
  shows "lcc_get_src (lcc_control_id src field sq) = src" and "lcc_is_control_frame (lcc_control_id src field sq)"
    and "lcc_get_control_field (lcc_control_id src field 0) = field"
  using alias_bits [OF assms(1)] alias_bits [OF assms(2)]
  by (simp_all add: lcc_control_id_def lcc_get_src_def lcc_get_control_field_def
      lcc_is_control_frame_def word_bits_simps)

lemma datagram_id_fields:
  assumes "src < 0x1000" and "dst < 0x1000" and "t < 8"
  shows "lcc_get_src (lcc_frame_datagram_id t dst src) = src"
    and "lcc_get_datagram_dst (lcc_frame_datagram_id t dst src) = dst"
    and "lcc_get_can_frame_type (lcc_frame_datagram_id t dst src) = t"
    and "\<not> lcc_is_control_frame (lcc_frame_datagram_id t dst src)"
proof -
  have "\<forall>n\<ge>3. \<not> bit t n" using bit_above_bound [of t 3] assms(3) by auto
  then show "lcc_get_src (lcc_frame_datagram_id t dst src) = src"
    "lcc_get_datagram_dst (lcc_frame_datagram_id t dst src) = dst"
    "lcc_get_can_frame_type (lcc_frame_datagram_id t dst src) = t"
    "\<not> lcc_is_control_frame (lcc_frame_datagram_id t dst src)"
    using alias_bits [OF assms(1)] alias_bits [OF assms(2)]
    by (simp_all add: lcc_frame_datagram_id_def lcc_get_src_def lcc_get_datagram_dst_def
        lcc_get_can_frame_type_def lcc_is_control_frame_def word_bits_simps)
qed

lemma addressed_hdr_fields:
  assumes "dst < 0x1000"
  shows "lcc_frame_addressed_dst \<lparr>fr_id = i, fr_data = lcc_frame_build_addressed_hdr dst flags @ bs\<rparr> = dst"
    and "lcc_frame_addressed_flags \<lparr>fr_id = i, fr_data = lcc_frame_build_addressed_hdr dst flags @ bs\<rparr> = flags AND 0xF0"
  using alias_bits [OF assms]
  by (simp_all add: lcc_frame_addressed_dst_def lcc_frame_addressed_flags_def
      lcc_frame_build_addressed_hdr_def word_bits_simps)

lemma addressed_hdr_length [simp]: "length (lcc_frame_build_addressed_hdr dst flags) = 2"
  by (simp add: lcc_frame_build_addressed_hdr_def)

lemma node_id_length [simp]: "length (lcc_node_id_to_buf i) = 6"
  by (simp add: lcc_node_id_to_buf_def)

lemma node_id_roundtrip:
  assumes "i < 0x1000000000000"
  shows "lcc_node_id_from_buf (lcc_node_id_to_buf i @ bs) = i"
proof -
  have "\<forall>n\<ge>48. \<not> bit i n" using bit_above_bound [of i 48] assms by auto
  then show ?thesis by (simp add: lcc_node_id_from_buf_def lcc_node_id_to_buf_def word_bits_simps)
qed

lemma event_roundtrip: "lcc_event_from_buf (lcc_event_to_buf e @ bs) = e"
  by (simp add: lcc_event_from_buf_def lcc_event_to_buf_def word_bits_simps)

end
