(* ===== verification/Lcc_Gc.thy ===== *)
theory Lcc_Gc
  imports Lcc_Frame
begin

text \<open>
  The GridConnect codec: \<^verbatim>\<open>src/src/lcc/lcc_gc.h\<close> and \<^verbatim>\<open>lcc_gc.c\<close>. Frames as ASCII text on
  the USB serial line, and the parser that takes one character at a time.
\<close>

section \<open>Codec\<close>

definition LCC_GC_MAX_LEN :: int where "LCC_GC_MAX_LEN = 30"

datatype gc_state = GC_STATE_IDLE | GC_STATE_TYPE | GC_STATE_ID | GC_STATE_DATA

record lcc_gc_parser =
  gp_state :: gc_state
  gp_id :: u32
  gp_data :: "u8 list"
  gp_dlc :: nat
  gp_nibble :: u8

definition gc_parser_zero :: lcc_gc_parser where
  "gc_parser_zero = \<lparr>gp_state = GC_STATE_IDLE, gp_id = 0, gp_data = replicate 8 0, gp_dlc = 0, gp_nibble = 0\<rparr>"

definition hex_chars :: string where "hex_chars = ''0123456789ABCDEF''"

definition hex_val :: "char \<Rightarrow> int" where
  "hex_val c =
     (let n = of_char c :: int
      in if of_char (CHR ''0'') \<le> n \<and> n \<le> of_char (CHR ''9'') then n - of_char (CHR ''0'')
         else if of_char (CHR ''A'') \<le> n \<and> n \<le> of_char (CHR ''F'') then n - of_char (CHR ''A'') + 10
         else if of_char (CHR ''a'') \<le> n \<and> n \<le> of_char (CHR ''f'') then n - of_char (CHR ''a'') + 10
         else - 1)"

text \<open>The text without the terminating NUL; \<open>None\<close> is the result \<open>-1\<close>.\<close>

definition lcc_gc_encode :: "lcc_frame \<Rightarrow> int \<Rightarrow> string option" where
  "lcc_gc_encode frame buf_size =
     (if buf_size < LCC_GC_MAX_LEN then None
      else Some ('':X'' @
        map (\<lambda>i. hex_chars ! unat (shr (fr_id frame) (i * 4) AND 0xF)) [7, 6, 5, 4, 3, 2, 1, 0] @ ''N'' @
        concat (map (\<lambda>b. [hex_chars ! unat (shr b 4 AND 0xF), hex_chars ! unat (b AND 0xF)])
          (take 8 (fr_data frame))) @ [CHR '';'', CHR 0x0A]))"

definition lcc_gc_parse_byte :: "char \<Rightarrow> lcc_gc_parser \<Rightarrow> lcc_frame option \<times> lcc_gc_parser" where
  "lcc_gc_parse_byte c p =
     (case gp_state p of
        GC_STATE_IDLE \<Rightarrow>
          (None, if c = CHR '':'' then p\<lparr>gp_id := 0, gp_dlc := 0, gp_nibble := 0, gp_state := GC_STATE_TYPE\<rparr> else p)
      | GC_STATE_TYPE \<Rightarrow>
          (None, if c = CHR ''X'' \<or> c = CHR ''x'' then p\<lparr>gp_state := GC_STATE_ID\<rparr>
                 else p\<lparr>gp_state := GC_STATE_IDLE\<rparr>)
      | GC_STATE_ID \<Rightarrow>
          (None, if c = CHR ''N'' \<or> c = CHR ''n'' then p\<lparr>gp_state := GC_STATE_DATA\<rparr>
                 else let v = hex_val c
                      in if v \<ge> 0 then p\<lparr>gp_id := shl (gp_id p) 4 OR word_of_int v\<rparr>
                         else p\<lparr>gp_state := GC_STATE_IDLE\<rparr>)
      | GC_STATE_DATA \<Rightarrow>
          (if c = CHR '';''
           then (Some \<lparr>fr_id = gp_id p AND 0x1FFFFFFF, fr_data = take (gp_dlc p) (gp_data p)\<rparr>,
                 p\<lparr>gp_state := GC_STATE_IDLE\<rparr>)
           else let v = hex_val c
                in (None,
                    if v \<ge> 0 \<and> gp_dlc p < 8
                    then (let p = (if gp_nibble p AND 1 = 0
                                   then p\<lparr>gp_data := (gp_data p)[gp_dlc p := word_of_int (v * 16)]\<rparr>
                                   else p\<lparr>gp_data := (gp_data p)[gp_dlc p := gp_data p ! gp_dlc p OR word_of_int v],
                                          gp_dlc := gp_dlc p + 1\<rparr>)
                          in p\<lparr>gp_nibble := gp_nibble p + 1\<rparr>)
                    else if v < 0 then p\<lparr>gp_state := GC_STATE_IDLE\<rparr> else p)))"

text \<open>A stream of characters: the frames it gives and the parser after it.\<close>

fun gc_stream :: "string \<Rightarrow> lcc_gc_parser \<Rightarrow> lcc_frame list \<times> lcc_gc_parser" where
  "gc_stream [] p = ([], p)"
| "gc_stream (c # cs) p =
     (case lcc_gc_parse_byte c p of
        (r, p') \<Rightarrow> (case gc_stream cs p' of (fs, p'') \<Rightarrow> (case r of None \<Rightarrow> fs | Some f \<Rightarrow> f # fs, p'')))"

section \<open>The parser reads what the encoder writes\<close>

definition can_frame_ok :: "lcc_frame \<Rightarrow> bool" where
  "can_frame_ok f \<longleftrightarrow> fr_id f < 0x20000000 \<and> dlc f \<le> 8"

lemma gc_stream_append:
  "gc_stream (xs @ ys) p =
     (case gc_stream xs p of (fs, p') \<Rightarrow> (case gc_stream ys p' of (gs, p'') \<Rightarrow> (fs @ gs, p'')))"
  by (induction xs arbitrary: p) (auto split: prod.splits option.splits)

lemma hex_digits:
  "\<forall>k<16. hex_val (hex_chars ! k) = int k \<and> hex_chars ! k \<noteq> CHR ''N'' \<and> hex_chars ! k \<noteq> CHR ''n'' \<and>
     hex_chars ! k \<noteq> CHR '';''"
  by (simp add: all_less_numeral all_less_one hex_chars_def hex_val_def)

lemma hex_digit:
  assumes "k < 16"
  shows "hex_val (hex_chars ! k) = int k" and "hex_chars ! k \<noteq> CHR ''N''" and "hex_chars ! k \<noteq> CHR ''n''"
    and "hex_chars ! k \<noteq> CHR '';''"
  using hex_digits assms by simp_all

lemma nibble_less: "unat ((w :: 'a::len word) AND 0xF) < 16"
proof -
  have "w AND 0xF = take_bit 4 w" by (simp add: take_bit_eq_mask mask_numeral)
  moreover have "take_bit 4 (unat w) < 16" using take_bit_nat_less_exp [of 4 "unat w"] by simp
  ultimately show ?thesis by (simp add: unsigned_take_bit_eq)
qed

lemma parse_id_digit:
  assumes "gp_state p = GC_STATE_ID" and "k < 16"
  shows "lcc_gc_parse_byte (hex_chars ! k) p = (None, p\<lparr>gp_id := shl (gp_id p) 4 OR word_of_nat k\<rparr>)"
  using assms hex_digit [OF assms(2)] by (simp add: lcc_gc_parse_byte_def)

lemma parse_id_digits:
  "gp_state p = GC_STATE_ID \<Longrightarrow> gc_stream (map (\<lambda>w. hex_chars ! unat (w AND 0xF)) ws) p =
     ([], p\<lparr>gp_id := fold (\<lambda>w i. shl i 4 OR (w AND 0xF)) ws (gp_id p)\<rparr>)"
proof (induction ws arbitrary: p)
  case (Cons w ws)
  have "gc_stream (map (\<lambda>w. hex_chars ! unat (w AND 0xF)) ws) (p\<lparr>gp_id := shl (gp_id p) 4 OR (w AND 0xF)\<rparr>) =
      ([], p\<lparr>gp_id := fold (\<lambda>w i. shl i 4 OR (w AND 0xF)) (w # ws) (gp_id p)\<rparr>)"
    using Cons.IH [of "p\<lparr>gp_id := shl (gp_id p) 4 OR (w AND 0xF)\<rparr>"] Cons.prems by simp
  then show ?case using parse_id_digit [OF Cons.prems nibble_less, of w] by simp
qed simp

lemma parse_id:
  assumes "gp_state p = GC_STATE_ID" and "gp_id p = 0"
  shows "gc_stream (map (\<lambda>i. hex_chars ! unat (shr w (i * 4) AND 0xF)) [7, 6, 5, 4, 3, 2, 1, 0]) p =
    ([], p\<lparr>gp_id := w\<rparr>)"
proof -
  have "fold (\<lambda>w i. shl i 4 OR (w AND 0xF)) (map (\<lambda>i. shr w (i * 4)) [7, 6, 5, 4, 3, 2, 1, 0]) 0 = w"
    by (simp add: word_bits_simps)
  then show ?thesis
    using parse_id_digits [OF assms(1), of "map (\<lambda>i. shr w (i * 4)) [7, 6, 5, 4, 3, 2, 1, 0]"] assms(2)
    by (simp add: comp_def)
qed

text \<open>The data: two digits for a byte.\<close>

lemma and_one_zero: "(x :: 'a::len word) AND 1 = 0 \<longleftrightarrow> even x"
  by (simp add: and_one_eq even_iff_mod_2_eq_zero)

lemma parse_data_byte:
  assumes "gp_state p = GC_STATE_DATA" and "gp_dlc p < 8" and "length (gp_data p) = 8"
    and "gp_nibble p AND 1 = 0"
  shows "gc_stream [hex_chars ! unat (shr b 4 AND 0xF), hex_chars ! unat (b AND 0xF)] p =
    ([], p\<lparr>gp_data := (gp_data p)[gp_dlc p := b], gp_dlc := gp_dlc p + 1, gp_nibble := gp_nibble p + 2\<rparr>)"
proof -
  let ?h = "unat (shr b 4 AND 0xF)" and ?l = "unat (b AND 0xF)"
  have odd: "(gp_nibble p + 1) AND 1 \<noteq> 0"
    using assms(4) unfolding and_one_zero by (simp only: even_plus_one_iff not_not)
  have byte: "word_of_int (int ?h * 16) OR word_of_int (int ?l) = b"
  proof -
    have "word_of_int (int ?h * 16) = shl (shr b 4 AND 0xF) 4" by (simp add: push_bit_eq_mult)
    then show ?thesis by (simp add: word_bits_simps)
  qed
  show ?thesis
    using assms odd byte hex_digit [OF nibble_less, of "shr b 4"] hex_digit [OF nibble_less, of b]
    by (simp add: lcc_gc_parse_byte_def Let_def)
qed

lemma parse_data:
  assumes "gp_state p = GC_STATE_DATA" and "gp_dlc p + length bs \<le> 8" and "length (gp_data p) = 8"
    and "gp_nibble p AND 1 = 0"
  shows "\<exists>p'. gc_stream (concat (map (\<lambda>b. [hex_chars ! unat (shr b 4 AND 0xF), hex_chars ! unat (b AND 0xF)]) bs)) p
      = ([], p') \<and> gp_state p' = GC_STATE_DATA \<and> gp_id p' = gp_id p \<and> length (gp_data p') = 8 \<and>
    take (gp_dlc p') (gp_data p') = take (gp_dlc p) (gp_data p) @ bs"
  using assms
proof (induction bs arbitrary: p)
  case (Cons b bs)
  let ?p = "p\<lparr>gp_data := (gp_data p)[gp_dlc p := b], gp_dlc := gp_dlc p + 1, gp_nibble := gp_nibble p + 2\<rparr>"
  have odd: "gp_nibble ?p AND 1 = 0"
    using Cons.prems(4) unfolding and_one_zero by (auto intro: dvd_add)
  have byte: "gc_stream ([hex_chars ! unat (shr b 4 AND 0xF), hex_chars ! unat (b AND 0xF)] @ cs) p = gc_stream cs ?p"
    for cs
    unfolding gc_stream_append using Cons.prems by (subst parse_data_byte) simp_all
  have "take (gp_dlc ?p) (gp_data ?p) = take (gp_dlc p) (gp_data p) @ [b]"
    using Cons.prems take_Suc_update [of "gp_dlc p" "gp_data p" b] by simp
  then show ?case
    using Cons.IH [of ?p] Cons.prems odd byte by simp
qed simp

lemma gc_frame:
  assumes "can_frame_ok f" and "gp_state p = GC_STATE_IDLE" and "length (gp_data p) = 8"
    and "LCC_GC_MAX_LEN \<le> n"
  shows "\<exists>t p'. lcc_gc_encode f n = Some t \<and> int (length t) < n \<and>
    gc_stream t p = ([f], p') \<and> gp_state p' = GC_STATE_IDLE \<and> length (gp_data p') = 8"
proof -
  let ?digits = "map (\<lambda>i. hex_chars ! unat (shr (fr_id f) (i * 4) AND 0xF)) [7, 6, 5, 4, 3, 2, 1, 0]"
  let ?bytes = "concat (map (\<lambda>b. [hex_chars ! unat (shr b 4 AND 0xF), hex_chars ! unat (b AND 0xF)]) (fr_data f))"
  let ?start = "p\<lparr>gp_id := 0, gp_dlc := 0, gp_nibble := 0, gp_state := GC_STATE_ID\<rparr>"
  let ?text = "'':X'' @ ?digits @ ''N'' @ ?bytes @ [CHR '';'', CHR 0x0A]"
  have enc: "lcc_gc_encode f n = Some ?text"
    using assms(1,4) by (simp add: lcc_gc_encode_def can_frame_ok_def)
  have len: "length ?bytes = 2 * dlc f" by (simp add: length_concat comp_def sum_list_triv)
  then have small: "int (length ?text) < n"
    using assms(1,4) by (simp add: can_frame_ok_def LCC_GC_MAX_LEN_def)
  have head: "gc_stream '':X'' p = ([], ?start)"
    using assms(2) by (simp add: lcc_gc_parse_byte_def)
  have ident: "gc_stream ?digits ?start = ([], ?start\<lparr>gp_id := fr_id f\<rparr>)"
    by (rule parse_id) simp_all
  have sep: "gc_stream ''N'' (?start\<lparr>gp_id := fr_id f\<rparr>) = ([], ?start\<lparr>gp_id := fr_id f, gp_state := GC_STATE_DATA\<rparr>)"
    by (simp add: lcc_gc_parse_byte_def)
  obtain q where q: "gc_stream ?bytes (?start\<lparr>gp_id := fr_id f, gp_state := GC_STATE_DATA\<rparr>) = ([], q)"
    "gp_state q = GC_STATE_DATA" "gp_id q = fr_id f" "length (gp_data q) = 8"
    "take (gp_dlc q) (gp_data q) = fr_data f"
    using parse_data [of "?start\<lparr>gp_id := fr_id f, gp_state := GC_STATE_DATA\<rparr>" "fr_data f"] assms(1,3)
    by (auto simp: can_frame_ok_def)
  have "fr_id f AND 0x1FFFFFFF = fr_id f"
    using bit_above_bound [of "fr_id f" 29] assms(1) by (simp add: can_frame_ok_def word_bits_simps)
  then have tail: "gc_stream [CHR '';'', CHR 0x0A] q = ([f], q\<lparr>gp_state := GC_STATE_IDLE\<rparr>)"
    using q by (simp add: lcc_gc_parse_byte_def)
  have "gc_stream ?text p = ([f], q\<lparr>gp_state := GC_STATE_IDLE\<rparr>)"
    unfolding gc_stream_append head ident sep q(1) tail prod.case by simp
  then show ?thesis using enc small q(4) by auto
qed

text \<open>The texts of a list of frames, one after the other.\<close>

definition gc_encode_all :: "lcc_frame list \<Rightarrow> string" where
  "gc_encode_all fs = concat (map (\<lambda>f. the (lcc_gc_encode f LCC_GC_MAX_LEN)) fs)"

text \<open>
  C12: The GridConnect codec. A buffer of 30 characters is enough for every frame with a
  29-bit identifier and up to eight bytes, NUL included, and a parser at rest that is fed
  the texts of any number of frames, byte by byte, gives exactly those frames, in order, and
  is at rest again.
\<close>

theorem gridconnect_roundtrip:
  assumes "\<forall>f\<in>set fs. can_frame_ok f" and "gp_state p = GC_STATE_IDLE" and "length (gp_data p) = 8"
  shows "\<exists>p'. gc_stream (gc_encode_all fs) p = (fs, p') \<and> gp_state p' = GC_STATE_IDLE \<and>
    (\<forall>f\<in>set fs. \<exists>t. lcc_gc_encode f LCC_GC_MAX_LEN = Some t \<and> int (length t) < LCC_GC_MAX_LEN)"
  using assms
proof (induction fs arbitrary: p)
  case (Cons f fs)
  obtain t p' where f: "lcc_gc_encode f LCC_GC_MAX_LEN = Some t" "int (length t) < LCC_GC_MAX_LEN"
    "gc_stream t p = ([f], p')" "gp_state p' = GC_STATE_IDLE" "length (gp_data p') = 8"
    using gc_frame [of f p LCC_GC_MAX_LEN] Cons.prems by auto
  obtain p'' where "gc_stream (gc_encode_all fs) p' = (fs, p'')" "gp_state p'' = GC_STATE_IDLE"
    "\<forall>f\<in>set fs. \<exists>t. lcc_gc_encode f LCC_GC_MAX_LEN = Some t \<and> int (length t) < LCC_GC_MAX_LEN"
    using Cons.IH [of p'] Cons.prems f by auto
  then show ?case using f by (auto simp: gc_encode_all_def gc_stream_append)
qed (simp add: gc_encode_all_def)

theorem gridconnect_roundtrip_witness:
  "\<exists>p'. gc_stream (gc_encode_all [\<lparr>fr_id = 0x19490123, fr_data = [0xAB, 0x05]\<rparr>, \<lparr>fr_id = 7, fr_data = []\<rparr>])
      gc_parser_zero = ([\<lparr>fr_id = 0x19490123, fr_data = [0xAB, 0x05]\<rparr>, \<lparr>fr_id = 7, fr_data = []\<rparr>], p')"
  using gridconnect_roundtrip [of "[\<lparr>fr_id = 0x19490123, fr_data = [0xAB, 0x05]\<rparr>, \<lparr>fr_id = 7, fr_data = []\<rparr>]"
      gc_parser_zero]
  by (auto simp: can_frame_ok_def gc_parser_zero_def)

text \<open>Whatever characters come in, the parser stays inside its eight bytes.\<close>

definition gc_ok :: "lcc_gc_parser \<Rightarrow> bool" where
  "gc_ok p \<longleftrightarrow> length (gp_data p) = 8 \<and> gp_dlc p \<le> 8"

lemma gc_parse_ok:
  assumes "gc_ok p"
  shows "gc_ok (snd (lcc_gc_parse_byte c p))"
    and "fst (lcc_gc_parse_byte c p) = Some f \<Longrightarrow> can_frame_ok f"
proof -
  show "gc_ok (snd (lcc_gc_parse_byte c p))"
    using assms by (simp add: gc_ok_def lcc_gc_parse_byte_def Let_def split: gc_state.splits)
  assume "fst (lcc_gc_parse_byte c p) = Some f"
  then have f: "f = \<lparr>fr_id = gp_id p AND 0x1FFFFFFF, fr_data = take (gp_dlc p) (gp_data p)\<rparr>"
    by (auto simp: lcc_gc_parse_byte_def Let_def split: gc_state.splits if_splits)
  have "gp_id p AND 0x1FFFFFFF \<le> 0x1FFFFFFF" by (rule word_and_le1)
  then have "gp_id p AND 0x1FFFFFFF < 0x20000000" by (rule le_less_trans) simp
  then show "can_frame_ok f" using assms unfolding f by (simp add: can_frame_ok_def gc_ok_def)
qed

text \<open>
  No input makes the parser misbehave. From a parser within its bounds, any stream of
  characters whatever leaves it within them (the eight data bytes are never overrun), and
  every frame it hands out has a 29-bit identifier and at most eight bytes.
\<close>

theorem gridconnect_parser_safe:
  assumes "gc_ok p"
  shows "gc_ok (snd (gc_stream cs p)) \<and> (\<forall>f\<in>set (fst (gc_stream cs p)). can_frame_ok f)"
  using assms
proof (induction cs arbitrary: p)
  case (Cons c cs)
  obtain r p' where r: "lcc_gc_parse_byte c p = (r, p')" by (metis surj_pair)
  then have "gc_ok p'" "\<And>f. r = Some f \<Longrightarrow> can_frame_ok f" using gc_parse_ok [OF Cons.prems, of c] by auto
  then show ?case using Cons.IH [of p'] r by (auto split: prod.splits option.splits)
qed simp

end
