(* ===== verification/Lcc_Node.thy ===== *)
theory Lcc_Node
  imports Lcc_Frame
begin

text \<open>
  OpenLCB nodes: \<^verbatim>\<open>src/src/lcc/lcc_node.h\<close>, \<^verbatim>\<open>lcc_node.c\<close>, \<^verbatim>\<open>lcc_pip.c\<close> and \<^verbatim>\<open>lcc_snip.c\<close>. The
  node record, the registry, the sending of frames with the fragmentation of addressed
  messages, and the identification replies. The dispatch of received frames is in theory
  \<open>Lcc_If\<close>.
\<close>

section \<open>Nodes\<close>

datatype lcc_node_role = LCC_ROLE_CS | LCC_ROLE_TRAIN

datatype lcc_alias_state = LCC_A_IDLE | LCC_A_CID | LCC_A_WAIT | LCC_A_CONFIRMED | LCC_A_CONFLICT

text \<open>
  The reassembly buffer of a node: \<open>dg_buf\<close> is the \<open>len\<close> bytes received so far, and a
  buffer that is not \<open>active\<close> holds none.
\<close>

record lcc_datagram_rx =
  dg_src_alias :: u16
  dg_buf :: "u8 list"
  dg_active :: bool

text \<open>The strings as bytes without their NUL; \<open>None\<close> is a NULL pointer.\<close>

record lcc_snip =
  mfg_name :: "u8 list option"
  model_name :: "u8 list option"
  hw_version :: "u8 list option"
  sw_version :: "u8 list option"
  user_name :: "u8 list option"
  user_desc :: "u8 list option"

text \<open>
  A node, with the state of its train (\<open>'t\<close>, theory \<open>Lcc_Traction\<close>) and its own memory
  spaces (\<open>'s\<close>, theory \<open>Lcc_Memconfig\<close>) as parameters of the type.
\<close>

record ('t, 's) lcc_node =
  node_id :: u64
  node_alias :: u16
  role :: lcc_node_role
  alias_state :: lcc_alias_state
  alias_wait_ticks :: u8
  alias_retries :: u8
  snip :: "lcc_snip option"
  pip_bits :: u64
  dg_rx :: lcc_datagram_rx
  train :: "'t option"
  node_spaces :: "'s list"

definition lcc_node_init :: "u64 \<Rightarrow> lcc_node_role \<Rightarrow> ('t, 's) lcc_node" where
  "lcc_node_init ident r = \<lparr>node_id = ident, node_alias = 0, role = r, alias_state = LCC_A_IDLE,
     alias_wait_ticks = 0, alias_retries = 0, snip = None, pip_bits = 0,
     dg_rx = \<lparr>dg_src_alias = 0, dg_buf = [], dg_active = False\<rparr>, train = None, node_spaces = []\<rparr>"

section \<open>The registry\<close>

text \<open>The registered nodes in order; a node pointer is an index into the list.\<close>

definition LCC_MAX_NODES :: nat where "LCC_MAX_NODES = 24"

definition lcc_node_registry_reset :: "('t, 's) lcc_node list" where
  "lcc_node_registry_reset = []"

definition lcc_node_register ::
  "('t, 's) lcc_node \<Rightarrow> ('t, 's) lcc_node list \<Rightarrow> bool \<times> ('t, 's) lcc_node list" where
  "lcc_node_register node g_nodes =
     (if length g_nodes \<ge> LCC_MAX_NODES then (False, g_nodes) else (True, g_nodes @ [node]))"

definition lcc_node_at :: "int \<Rightarrow> ('t, 's) lcc_node list \<Rightarrow> ('t, 's) lcc_node option" where
  "lcc_node_at idx g_nodes =
     (if idx < 0 \<or> idx \<ge> int (length g_nodes) then None else Some (g_nodes ! nat idx))"

definition lcc_node_find_by_alias :: "u16 \<Rightarrow> ('t, 's) lcc_node list \<Rightarrow> nat option" where
  "lcc_node_find_by_alias a g_nodes =
     find (\<lambda>i. alias_state (g_nodes ! i) = LCC_A_CONFIRMED \<and> node_alias (g_nodes ! i) = a) [0..<length g_nodes]"

section \<open>Sending\<close>

text \<open>
  Each send gives the frames handed to \<open>lcc_if_tx\<close>, whose result no caller looks at.
\<close>

definition lcc_node_send_global :: "('t, 's) lcc_node \<Rightarrow> u16 \<Rightarrow> u8 list \<Rightarrow> lcc_frame list" where
  "lcc_node_send_global node mti bytes = [\<lparr>fr_id = lcc_can_id mti (node_alias node), fr_data = bytes\<rparr>]"

definition lcc_node_send_control :: "('t, 's) lcc_node \<Rightarrow> u16 \<Rightarrow> u8 list \<Rightarrow> lcc_frame list" where
  "lcc_node_send_control node field bytes =
     [\<lparr>fr_id = lcc_control_id (node_alias node) field 0, fr_data = bytes\<rparr>]"

text \<open>The loop of \<open>lcc_node_send_addressed\<close> over what is left of the payload.\<close>

function addressed_loop :: "u32 \<Rightarrow> u16 \<Rightarrow> bool \<Rightarrow> u8 list \<Rightarrow> lcc_frame list" where
  "addressed_loop ident dst_alias first payload =
     (if payload = [] \<and> \<not> first then []
      else let chunk = take 6 payload;
               rest = drop 6 payload;
               flags = (if first then 0 else LCC_NOT_FIRST_FRAME) OR (if rest = [] then 0 else LCC_NOT_LAST_FRAME)
           in \<lparr>fr_id = ident, fr_data = lcc_frame_build_addressed_hdr dst_alias flags @ chunk\<rparr> #
              addressed_loop ident dst_alias False rest)"
  by pat_completeness auto
termination by (relation "measure (\<lambda>(i, d, first, p). length p + (if first then 1 else 0))") auto

declare addressed_loop.simps [simp del]

definition lcc_node_send_addressed :: "('t, 's) lcc_node \<Rightarrow> u16 \<Rightarrow> u16 \<Rightarrow> u8 list \<Rightarrow> lcc_frame list" where
  "lcc_node_send_addressed node mti dst_alias payload =
     addressed_loop (lcc_can_id mti (node_alias node)) dst_alias True payload"

section \<open>Identification\<close>

definition handle_verify_node_id :: "('t, 's) lcc_node \<Rightarrow> lcc_frame \<Rightarrow> lcc_frame list" where
  "handle_verify_node_id node f =
     (if lcc_get_mti (fr_id f) = LCC_MTI_VERIFY_NODE_ID_GLOBAL \<and> dlc f = 6 \<and>
         lcc_node_id_from_buf (fr_data f) \<noteq> node_id node
      then [] else lcc_node_send_global node LCC_MTI_VERIFIED_NODE_ID (lcc_node_id_to_buf (node_id node)))"

definition handle_ame :: "('t, 's) lcc_node \<Rightarrow> lcc_frame \<Rightarrow> lcc_frame list" where
  "handle_ame node f =
     (if dlc f = 6 \<and> lcc_node_id_from_buf (fr_data f) \<noteq> node_id node then []
      else lcc_node_send_control node LCC_CONTROL_AMD (lcc_node_id_to_buf (node_id node)))"

definition addressed_dst_matches :: "('t, 's) lcc_node \<Rightarrow> lcc_frame \<Rightarrow> bool" where
  "addressed_dst_matches node f \<longleftrightarrow> \<not> dlc f < 2 \<and> lcc_frame_addressed_dst f = node_alias node"

definition lcc_pip_handle :: "('t, 's) lcc_node \<Rightarrow> lcc_frame \<Rightarrow> lcc_frame list" where
  "lcc_pip_handle node f =
     (let pip = map (\<lambda>n. u8_of (shr (pip_bits node) n AND 0xFF)) [40, 32, 24, 16, 8, 0]
      in lcc_node_send_addressed node LCC_MTI_PROTOCOL_SUPPORT_REPLY (lcc_get_src (fr_id f)) pip)"

subsection \<open>Simple node information: \<open>lcc_snip.c\<close>\<close>

text \<open>\<open>buf\<close> is the \<open>pos\<close> bytes written so far.\<close>

definition SNIP_MAX_BYTES :: nat where "SNIP_MAX_BYTES = 320"

definition append_byte :: "u8 \<Rightarrow> nat \<Rightarrow> u8 list \<Rightarrow> u8 list" where
  "append_byte b cap buf = (if length buf < cap then buf @ [b] else buf)"

definition append_str :: "u8 list option \<Rightarrow> nat \<Rightarrow> u8 list \<Rightarrow> u8 list" where
  "append_str s cap buf =
     (let s = (case s of None \<Rightarrow> [] | Some s \<Rightarrow> s);
          buf = buf @ take (cap - 1 - length buf) s
      in if length buf < cap then buf @ [0] else buf)"

definition lcc_snip_handle :: "('t, 's) lcc_node \<Rightarrow> lcc_frame \<Rightarrow> lcc_frame list" where
  "lcc_snip_handle node f =
     (case snip node of
        None \<Rightarrow> []
      | Some sn \<Rightarrow>
          (let buf = append_byte 4 SNIP_MAX_BYTES [];
               buf = append_str (mfg_name sn) SNIP_MAX_BYTES buf;
               buf = append_str (model_name sn) SNIP_MAX_BYTES buf;
               buf = append_str (hw_version sn) SNIP_MAX_BYTES buf;
               buf = append_str (sw_version sn) SNIP_MAX_BYTES buf;
               buf = append_byte 2 SNIP_MAX_BYTES buf;
               buf = append_str (user_name sn) SNIP_MAX_BYTES buf;
               buf = append_str (user_desc sn) SNIP_MAX_BYTES buf
           in lcc_node_send_addressed node LCC_MTI_IDENT_INFO_REPLY (lcc_get_src (fr_id f)) buf))"

section \<open>Reassembly\<close>

text \<open>
  The frames of an addressed message as its receiver takes them: the header gives the
  destination and the first and last flags, the payload is what follows.
\<close>

definition addressed_shape :: "u32 \<Rightarrow> u16 \<Rightarrow> bool \<Rightarrow> u8 list \<Rightarrow> lcc_frame list \<Rightarrow> bool" where
  "addressed_shape ident dst first payload fs \<longleftrightarrow> fs \<noteq> [] \<and>
     (\<forall>f\<in>set fs. fr_id f = ident \<and> 2 \<le> dlc f \<and> dlc f \<le> 8 \<and> lcc_frame_addressed_dst f = dst) \<and>
     map lcc_frame_addressed_is_first fs = first # replicate (length fs - 1) False \<and>
     map lcc_frame_addressed_is_last fs = replicate (length fs - 1) False @ [True] \<and>
     concat (map (\<lambda>f. drop 2 (fr_data f)) fs) = payload"

lemma hdr_flags:
  assumes "dst < 0x1000"
  shows "lcc_frame_addressed_is_first \<lparr>fr_id = i, fr_data = lcc_frame_build_addressed_hdr dst
      ((if first then 0 else LCC_NOT_FIRST_FRAME) OR (if lst then 0 else LCC_NOT_LAST_FRAME)) @ bs\<rparr> = first"
    and "lcc_frame_addressed_is_last \<lparr>fr_id = i, fr_data = lcc_frame_build_addressed_hdr dst
      ((if first then 0 else LCC_NOT_FIRST_FRAME) OR (if lst then 0 else LCC_NOT_LAST_FRAME)) @ bs\<rparr> = lst"
  by (simp_all add: lcc_frame_addressed_is_first_def lcc_frame_addressed_is_last_def
      addressed_hdr_fields [OF assms] lcc_consts)

lemma addressed_loop_shape:
  assumes "dst < 0x1000"
  shows "payload \<noteq> [] \<or> first \<Longrightarrow> addressed_shape ident dst first payload (addressed_loop ident dst first payload)"
proof (induction "length payload" arbitrary: payload first rule: less_induct)
  case less
  let ?rest = "drop 6 payload"
  let ?f = "\<lparr>fr_id = ident, fr_data = lcc_frame_build_addressed_hdr dst
      ((if first then 0 else LCC_NOT_FIRST_FRAME) OR (if ?rest = [] then 0 else LCC_NOT_LAST_FRAME)) @ take 6 payload\<rparr>"
  have loop: "addressed_loop ident dst first payload = ?f # addressed_loop ident dst False ?rest"
    using less.prems by (subst addressed_loop.simps) (auto simp: Let_def)
  have f: "lcc_frame_addressed_is_first ?f = first" "lcc_frame_addressed_is_last ?f = (?rest = [])"
    "lcc_frame_addressed_dst ?f = dst" "drop 2 (fr_data ?f) = take 6 payload" "fr_id ?f = ident"
    "2 \<le> dlc ?f" "dlc ?f \<le> 8"
    using hdr_flags [OF assms, of ident first "?rest = []"] addressed_hdr_fields [OF assms] by simp_all
  show ?case
  proof (cases "?rest = []")
    case True
    then have "addressed_loop ident dst first payload = [?f]"
      unfolding loop by (subst addressed_loop.simps) simp
    with True f show ?thesis by (simp add: addressed_shape_def del: lcc_frame.select_convs)
  next
    case False
    then have IH: "addressed_shape ident dst False ?rest (addressed_loop ident dst False ?rest)"
      using less.hyps [of ?rest False] by simp
    then obtain g gs where g: "addressed_loop ident dst False ?rest = g # gs"
      by (cases "addressed_loop ident dst False ?rest") (auto simp: addressed_shape_def)
    show ?thesis
      using IH f False unfolding loop g by (simp add: addressed_shape_def del: lcc_frame.select_convs)
  qed
qed

lemma send_addressed_shape:
  assumes "dst < 0x1000"
  shows "addressed_shape (lcc_can_id mti (node_alias node)) dst True payload
           (lcc_node_send_addressed node mti dst payload)"
  using addressed_loop_shape [OF assms] by (simp add: lcc_node_send_addressed_def)

end
