(* ===== verification/Lcc_Events.thy ===== *)
theory Lcc_Events
  imports Lcc_Node
begin

text \<open>
  Event exchange: \<^verbatim>\<open>src/src/lcc/lcc_events.h\<close> and \<^verbatim>\<open>lcc_events.c\<close>. The registered events
  and ranges of events with their callbacks, the Identified replies and the delivery of
  event reports.
\<close>

section \<open>Constants\<close>

definition LCC_MTI_CONSUMER_IDENTIFY :: u16 where [lcc_consts]: "LCC_MTI_CONSUMER_IDENTIFY = 0x08F4"
definition LCC_MTI_CONSUMER_IDENTIFIED_RANGE :: u16 where [lcc_consts]: "LCC_MTI_CONSUMER_IDENTIFIED_RANGE = 0x04A4"
definition LCC_MTI_CONSUMER_IDENTIFIED_VALID :: u16 where [lcc_consts]: "LCC_MTI_CONSUMER_IDENTIFIED_VALID = 0x04C4"
definition LCC_MTI_CONSUMER_IDENTIFIED_INVALID :: u16 where [lcc_consts]: "LCC_MTI_CONSUMER_IDENTIFIED_INVALID = 0x04C5"
definition LCC_MTI_CONSUMER_IDENTIFIED_UNKNOWN :: u16 where [lcc_consts]: "LCC_MTI_CONSUMER_IDENTIFIED_UNKNOWN = 0x04C7"
definition LCC_MTI_PRODUCER_IDENTIFY :: u16 where [lcc_consts]: "LCC_MTI_PRODUCER_IDENTIFY = 0x0914"
definition LCC_MTI_PRODUCER_IDENTIFIED_VALID :: u16 where [lcc_consts]: "LCC_MTI_PRODUCER_IDENTIFIED_VALID = 0x0544"
definition LCC_MTI_PRODUCER_IDENTIFIED_INVALID :: u16 where [lcc_consts]: "LCC_MTI_PRODUCER_IDENTIFIED_INVALID = 0x0545"
definition LCC_MTI_PRODUCER_IDENTIFIED_UNKNOWN :: u16 where [lcc_consts]: "LCC_MTI_PRODUCER_IDENTIFIED_UNKNOWN = 0x0547"
definition LCC_MTI_EVENTS_IDENTIFY_ADDRESSED :: u16 where [lcc_consts]: "LCC_MTI_EVENTS_IDENTIFY_ADDRESSED = 0x0968"
definition LCC_MTI_EVENTS_IDENTIFY_GLOBAL :: u16 where [lcc_consts]: "LCC_MTI_EVENTS_IDENTIFY_GLOBAL = 0x0970"
definition LCC_MTI_EVENT_REPORT :: u16 where [lcc_consts]: "LCC_MTI_EVENT_REPORT = 0x05B4"

definition LCC_EVENT_IS_TRAIN :: u64 where [lcc_consts]: "LCC_EVENT_IS_TRAIN = 0x0101000000000303"

definition LCC_EVENT_PRODUCER :: u8 where [lcc_consts]: "LCC_EVENT_PRODUCER = 0x01"
definition LCC_EVENT_CONSUMER :: u8 where [lcc_consts]: "LCC_EVENT_CONSUMER = 0x02"

definition LCC_MAX_EVENT_REGISTRATIONS :: nat where "LCC_MAX_EVENT_REGISTRATIONS = 16"
definition LCC_MAX_EVENT_RANGES :: nat where "LCC_MAX_EVENT_RANGES = 4"

section \<open>The tables\<close>

datatype lcc_event_state = LCC_EVENT_STATE_UNKNOWN | LCC_EVENT_STATE_VALID | LCC_EVENT_STATE_INVALID

text \<open>
  The callbacks act on the rest of the program, \<open>'w\<close>. A registration's node is given by
  its node ID. Entries are never removed, so the used entries of a table are a list.
\<close>

record 'w lcc_event_reg =
  er_node :: u64
  er_event_id :: u64
  er_flags :: u8
  er_on_report :: "(u64 \<Rightarrow> 'w \<Rightarrow> 'w) option"
  er_state :: "(u64 \<Rightarrow> 'w \<Rightarrow> lcc_event_state) option"

record 'w lcc_event_range =
  ev_node :: u64
  ev_base :: u64
  ev_mask :: u64
  ev_on_report :: "(u64 \<Rightarrow> 'w \<Rightarrow> 'w) option"
  ev_state :: "(u64 \<Rightarrow> 'w \<Rightarrow> lcc_event_state) option"

record 'w lcc_events =
  g_table :: "'w lcc_event_reg list"
  g_ranges :: "'w lcc_event_range list"

definition lcc_events_reset :: "'w lcc_events" where
  "lcc_events_reset = \<lparr>g_table = [], g_ranges = []\<rparr>"

definition lcc_events_register ::
  "u64 \<Rightarrow> u64 \<Rightarrow> u8 \<Rightarrow> (u64 \<Rightarrow> 'w \<Rightarrow> 'w) option \<Rightarrow> (u64 \<Rightarrow> 'w \<Rightarrow> lcc_event_state) option \<Rightarrow>
   'w lcc_events \<Rightarrow> bool \<times> 'w lcc_events" where
  "lcc_events_register node event_id flags on_report state E =
     (if length (g_table E) < LCC_MAX_EVENT_REGISTRATIONS
      then (True, E\<lparr>g_table := g_table E @ [\<lparr>er_node = node, er_event_id = event_id, er_flags = flags,
                      er_on_report = on_report, er_state = state\<rparr>]\<rparr>)
      else (False, E))"

definition lcc_events_register_consumer_range ::
  "u64 \<Rightarrow> u64 \<Rightarrow> u8 \<Rightarrow> (u64 \<Rightarrow> 'w \<Rightarrow> 'w) option \<Rightarrow> (u64 \<Rightarrow> 'w \<Rightarrow> lcc_event_state) option \<Rightarrow>
   'w lcc_events \<Rightarrow> bool \<times> 'w lcc_events" where
  "lcc_events_register_consumer_range node base mask_bits on_report state E =
     (if length (g_ranges E) < LCC_MAX_EVENT_RANGES
      then (True, E\<lparr>g_ranges := g_ranges E @ [\<lparr>ev_node = node, ev_base = base,
                      ev_mask = shl 1 (unat mask_bits) - 1, ev_on_report = on_report, ev_state = state\<rparr>]\<rparr>)
      else (False, E))"

definition find_range :: "u64 \<Rightarrow> u64 \<Rightarrow> 'w lcc_events \<Rightarrow> 'w lcc_event_range option" where
  "find_range node event_id E =
     find (\<lambda>r. ev_node r = node \<and> event_id AND NOT (ev_mask r) = ev_base r) (g_ranges E)"

definition range_event :: "'w lcc_event_range \<Rightarrow> u64" where
  "range_event r = (if ev_base r AND (ev_mask r + 1) \<noteq> 0 then ev_base r else ev_base r OR ev_mask r)"

definition send_global_event :: "('t, 's) lcc_node \<Rightarrow> u16 \<Rightarrow> u64 \<Rightarrow> lcc_frame list" where
  "send_global_event node mti event_id = lcc_node_send_global node mti (lcc_event_to_buf event_id)"

definition lcc_events_send_report :: "('t, 's) lcc_node \<Rightarrow> u64 \<Rightarrow> lcc_frame list" where
  "lcc_events_send_report node event_id = send_global_event node LCC_MTI_EVENT_REPORT event_id"

section \<open>Identification\<close>

definition send_identified ::
  "('t, 's) lcc_node \<Rightarrow> u64 \<Rightarrow> (u64 \<Rightarrow> 'w \<Rightarrow> lcc_event_state) option \<Rightarrow> u8 \<Rightarrow> 'w \<Rightarrow> lcc_frame list" where
  "send_identified node event_id state r w =
     (let st = (case state of Some f \<Rightarrow> f event_id w | None \<Rightarrow> LCC_EVENT_STATE_UNKNOWN);
          producer = (r = LCC_EVENT_PRODUCER);
          mti = (case st of
                   LCC_EVENT_STATE_VALID \<Rightarrow>
                     if producer then LCC_MTI_PRODUCER_IDENTIFIED_VALID else LCC_MTI_CONSUMER_IDENTIFIED_VALID
                 | LCC_EVENT_STATE_INVALID \<Rightarrow>
                     if producer then LCC_MTI_PRODUCER_IDENTIFIED_INVALID else LCC_MTI_CONSUMER_IDENTIFIED_INVALID
                 | LCC_EVENT_STATE_UNKNOWN \<Rightarrow>
                     if producer then LCC_MTI_PRODUCER_IDENTIFIED_UNKNOWN else LCC_MTI_CONSUMER_IDENTIFIED_UNKNOWN)
      in send_global_event node mti event_id)"

definition send_is_train :: "('t, 's) lcc_node \<Rightarrow> lcc_frame list" where
  "send_is_train node =
     (if role node = LCC_ROLE_TRAIN
      then send_global_event node LCC_MTI_PRODUCER_IDENTIFIED_UNKNOWN LCC_EVENT_IS_TRAIN else [])"

definition emit_identities_for_node ::
  "('t, 's) lcc_node \<Rightarrow> 'w lcc_events \<Rightarrow> 'w \<Rightarrow> lcc_frame list" where
  "emit_identities_for_node node E w =
     send_is_train node @
     concat (map (\<lambda>r. if er_node r \<noteq> node_id node then []
                      else (if er_flags r AND LCC_EVENT_PRODUCER \<noteq> 0
                            then send_identified node (er_event_id r) (er_state r) LCC_EVENT_PRODUCER w else []) @
                           (if er_flags r AND LCC_EVENT_CONSUMER \<noteq> 0
                            then send_identified node (er_event_id r) (er_state r) LCC_EVENT_CONSUMER w else []))
               (g_table E)) @
     concat (map (\<lambda>r. if ev_node r = node_id node
                      then send_global_event node LCC_MTI_CONSUMER_IDENTIFIED_RANGE (range_event r) else [])
               (g_ranges E))"

definition lcc_events_announce :: "('t, 's) lcc_node \<Rightarrow> 'w lcc_events \<Rightarrow> 'w \<Rightarrow> lcc_frame list" where
  "lcc_events_announce node E w = emit_identities_for_node node E w"

definition handle_single_identify ::
  "('t, 's) lcc_node \<Rightarrow> u64 \<Rightarrow> u8 \<Rightarrow> 'w lcc_events \<Rightarrow> 'w \<Rightarrow> lcc_frame list" where
  "handle_single_identify node event_id r E w =
     (if r = LCC_EVENT_PRODUCER \<and> event_id = LCC_EVENT_IS_TRAIN then send_is_train node
      else case find (\<lambda>e. er_node e = node_id node \<and> er_flags e AND r \<noteq> 0 \<and> er_event_id e = event_id)
                  (g_table E) of
             Some e \<Rightarrow> send_identified node event_id (er_state e) r w
           | None \<Rightarrow>
               (if r = LCC_EVENT_CONSUMER
                then case find_range (node_id node) event_id E of
                       Some g \<Rightarrow> send_identified node event_id (ev_state g) r w
                     | None \<Rightarrow> []
                else []))"

section \<open>Received frames\<close>

definition report_registered :: "u64 \<Rightarrow> u64 \<Rightarrow> 'w lcc_event_reg \<Rightarrow> 'w \<Rightarrow> 'w" where
  "report_registered node ev r w =
     (if er_node r = node \<and> er_flags r AND LCC_EVENT_CONSUMER \<noteq> 0 \<and> er_event_id r = ev
      then case er_on_report r of Some f \<Rightarrow> f ev w | None \<Rightarrow> w else w)"

definition lcc_events_handle_frame ::
  "('t, 's) lcc_node \<Rightarrow> lcc_frame \<Rightarrow> 'w lcc_events \<Rightarrow> 'w \<Rightarrow> lcc_frame list \<times> 'w" where
  "lcc_events_handle_frame node f E w =
     (let mti = lcc_get_mti (fr_id f); ev = lcc_event_from_buf (fr_data f)
      in if mti = LCC_MTI_EVENTS_IDENTIFY_GLOBAL \<or> mti = LCC_MTI_EVENTS_IDENTIFY_ADDRESSED
         then (emit_identities_for_node node E w, w)
         else if mti = LCC_MTI_CONSUMER_IDENTIFY
         then (if dlc f < 8 then [] else handle_single_identify node ev LCC_EVENT_CONSUMER E w, w)
         else if mti = LCC_MTI_PRODUCER_IDENTIFY
         then (if dlc f < 8 then [] else handle_single_identify node ev LCC_EVENT_PRODUCER E w, w)
         else if mti = LCC_MTI_EVENT_REPORT
         then ([], if dlc f < 8 then w
                   else let w = fold (report_registered (node_id node) ev) (g_table E) w
                        in case find_range (node_id node) ev E of
                             Some r \<Rightarrow> (case ev_on_report r of Some g \<Rightarrow> g ev w | None \<Rightarrow> w)
                           | None \<Rightarrow> w)
         else ([], w))"

end
