(* ===== verification/Lcc_Accessory.thy ===== *)
theory Lcc_Accessory
  imports Lcc_Events
begin

text \<open>
  DCC accessories through the well-known accessory events:
  \<^verbatim>\<open>src/src/lcc/lcc_accessory.h\<close> and \<^verbatim>\<open>lcc_accessory.c\<close>. The callbacks of the three ranges
  and the memory of the outputs' states, which is refined to a map from outputs to states.
\<close>

section \<open>State and callbacks\<close>

definition LCC_EVENT_ACCY_ACTIVATE_BASE :: u64 where "LCC_EVENT_ACCY_ACTIVATE_BASE = 0x0101020000FF0000"
definition LCC_EVENT_ACCY_DEACTIVATE_BASE :: u64 where "LCC_EVENT_ACCY_DEACTIVATE_BASE = 0x0101020000FE0000"
definition LCC_EVENT_ACCY_EXT_BASE :: u64 where "LCC_EVENT_ACCY_EXT_BASE = 0x0101020001000000"

definition ACCY_OUTPUTS :: nat where "ACCY_OUTPUTS = 2048"
definition ACCY_BASIC_BITS :: u8 where "ACCY_BASIC_BITS = 12"
definition ACCY_EXT_BITS :: u8 where "ACCY_EXT_BITS = 19"

lemmas accy_consts = LCC_EVENT_ACCY_ACTIVATE_BASE_def LCC_EVENT_ACCY_DEACTIVATE_BASE_def
  LCC_EVENT_ACCY_EXT_BASE_def ACCY_OUTPUTS_def ACCY_BASIC_BITS_def ACCY_EXT_BITS_def

text \<open>One bit per output; the record is extended by the rest of the program the hooks act on.\<close>

record accessories =
  g_known :: "u32 list"
  g_normal :: "u32 list"

record 'w lcc_accessory_hooks =
  hook_basic :: "(u16 \<Rightarrow> bool \<Rightarrow> bool \<Rightarrow> 'w \<Rightarrow> 'w) option"
  hook_extended :: "(u16 \<Rightarrow> u8 \<Rightarrow> 'w \<Rightarrow> 'w) option"

definition event_output :: "u64 \<Rightarrow> u16" where
  "event_output event_id = u16_of (shr event_id 1 AND (word_of_nat ACCY_OUTPUTS - 1))"

definition output_bit :: "u16 \<Rightarrow> u32" where
  "output_bit addr = shl 1 (unat (addr AND 31))"

definition set_output :: "u16 \<Rightarrow> bool \<Rightarrow> 'a accessories_scheme \<Rightarrow> 'a accessories_scheme" where
  "set_output addr normal w =
     (let i = unat (addr div 32);
          w = w\<lparr>g_known := (g_known w)[i := g_known w ! i OR output_bit addr]\<rparr>
      in if normal then w\<lparr>g_normal := (g_normal w)[i := g_normal w ! i OR output_bit addr]\<rparr>
         else w\<lparr>g_normal := (g_normal w)[i := g_normal w ! i AND NOT (output_bit addr)]\<rparr>)"

definition on_basic ::
  "'a accessories_scheme lcc_accessory_hooks \<Rightarrow> u64 \<Rightarrow> 'a accessories_scheme \<Rightarrow> 'a accessories_scheme" where
  "on_basic hooks event_id w =
     (let addr = event_output event_id;
          normal = (event_id AND 1 \<noteq> 0);
          activate = (shr event_id (unat ACCY_BASIC_BITS) = shr LCC_EVENT_ACCY_ACTIVATE_BASE (unat ACCY_BASIC_BITS));
          w = set_output addr normal w
      in case hook_basic hooks of Some h \<Rightarrow> h addr normal activate w | None \<Rightarrow> w)"

definition basic_state :: "u64 \<Rightarrow> 'a accessories_scheme \<Rightarrow> lcc_event_state" where
  "basic_state event_id w =
     (let addr = event_output event_id; i = unat (addr div 32)
      in if g_known w ! i AND output_bit addr = 0 then LCC_EVENT_STATE_UNKNOWN
         else if (g_normal w ! i AND output_bit addr \<noteq> 0) = (event_id AND 1 \<noteq> 0)
         then LCC_EVENT_STATE_VALID else LCC_EVENT_STATE_INVALID)"

definition on_extended ::
  "'a accessories_scheme lcc_accessory_hooks \<Rightarrow> u64 \<Rightarrow> 'a accessories_scheme \<Rightarrow> 'a accessories_scheme" where
  "on_extended hooks event_id w =
     (case hook_extended hooks of
        Some h \<Rightarrow> h (u16_of (shr event_id 8 AND (word_of_nat ACCY_OUTPUTS - 1))) (u8_of event_id) w
      | None \<Rightarrow> w)"

definition lcc_accessory_init ::
  "u64 \<Rightarrow> 'a accessories_scheme lcc_accessory_hooks \<Rightarrow> 'a accessories_scheme lcc_events \<Rightarrow> 'a accessories_scheme \<Rightarrow>
   'a accessories_scheme lcc_events \<times> 'a accessories_scheme" where
  "lcc_accessory_init node hooks E w =
     (let w = w\<lparr>g_known := replicate (ACCY_OUTPUTS div 32) 0, g_normal := replicate (ACCY_OUTPUTS div 32) 0\<rparr>;
          E = snd (lcc_events_register_consumer_range node LCC_EVENT_ACCY_ACTIVATE_BASE ACCY_BASIC_BITS
                     (Some (on_basic hooks)) (Some basic_state) E);
          E = snd (lcc_events_register_consumer_range node LCC_EVENT_ACCY_DEACTIVATE_BASE ACCY_BASIC_BITS
                     (Some (on_basic hooks)) (Some basic_state) E);
          E = snd (lcc_events_register_consumer_range node LCC_EVENT_ACCY_EXT_BASE ACCY_EXT_BITS
                     (Some (on_extended hooks)) None E)
      in (E, w))"

section \<open>The memory of the outputs\<close>

text \<open>The bits as a map: an output's last known state.\<close>

definition output_state :: "'a accessories_scheme \<Rightarrow> u16 \<Rightarrow> bool option" where
  "output_state w addr =
     (let i = unat (addr div 32)
      in if g_known w ! i AND output_bit addr = 0 then None
         else Some (g_normal w ! i AND output_bit addr \<noteq> 0))"

definition accy_ok :: "'a accessories_scheme \<Rightarrow> bool" where
  "accy_ok w \<longleftrightarrow> length (g_known w) = 64 \<and> length (g_normal w) = 64"

lemma output_bit_bit: "bit (output_bit addr) n \<longleftrightarrow> n = unat addr mod 32"
proof -
  have "addr AND 31 = take_bit 5 addr" by (simp only: take_bit_eq_mask) (simp add: mask_numeral)
  then have "unat (addr AND 31) = take_bit 5 (unat addr)" by (simp only: unsigned_take_bit_eq)
  then have "unat (addr AND 31) = unat addr mod 32" by (simp add: take_bit_eq_mod)
  then show ?thesis by (auto simp: output_bit_def bit_simps)
qed

lemma and_output_bit: "(x AND output_bit addr \<noteq> 0) = bit x (unat addr mod 32)"
proof
  assume "x AND output_bit addr \<noteq> 0"
  then obtain n where "bit (x AND output_bit addr) n" using bit_word_eqI [of "x AND output_bit addr" 0] by auto
  then show "bit x (unat addr mod 32)" unfolding bit_and_iff output_bit_bit by blast
next
  assume "bit x (unat addr mod 32)"
  then have "bit (x AND output_bit addr) (unat addr mod 32)" by (simp add: bit_and_iff output_bit_bit)
  then show "x AND output_bit addr \<noteq> 0" by (metis bit_0_eq bot_apply bot_bool_def)
qed

lemma output_state_bits:
  "output_state w addr = (let i = unat addr div 32
     in if bit (g_known w ! i) (unat addr mod 32) then Some (bit (g_normal w ! i) (unat addr mod 32)) else None)"
  using and_output_bit [of "g_known w ! (unat addr div 32)" addr] and_output_bit [of "g_normal w ! (unat addr div 32)" addr]
  by (auto simp: output_state_def unat_div Let_def)

lemma set_output_ok: "accy_ok (set_output addr normal w) = accy_ok w"
  by (simp add: accy_ok_def set_output_def Let_def)

lemma set_output_state:
  assumes "accy_ok w" and "addr < 2048" and "b < 2048"
  shows "output_state (set_output addr normal w) b = (if b = addr then Some normal else output_state w b)"
proof -
  have i: "unat addr div 32 < 64" "unat b div 32 < 64" using assms(2,3) by (auto simp: word_less_nat_alt)
  have eq: "b = addr \<longleftrightarrow> unat b div 32 = unat addr div 32 \<and> unat b mod 32 = unat addr mod 32"
    by (metis div_mult_mod_eq word_unat_eq_iff)
  show ?thesis
    using assms(1) i by (auto simp: output_state_bits set_output_def accy_ok_def unat_div Let_def eq
        nth_list_update bit_simps output_bit_bit)
qed

section \<open>Events and frames\<close>

definition basic_event :: "bool \<Rightarrow> u16 \<Rightarrow> bool \<Rightarrow> u64" where
  "basic_event activate addr normal =
     (if activate then LCC_EVENT_ACCY_ACTIVATE_BASE else LCC_EVENT_ACCY_DEACTIVATE_BASE)
       OR shl (u64_of addr) 1 OR (if normal then 1 else 0)"

definition extended_event :: "u16 \<Rightarrow> u8 \<Rightarrow> u64" where
  "extended_event addr aspect = LCC_EVENT_ACCY_EXT_BASE OR shl (u64_of addr) 8 OR u64_of aspect"

definition event_frame :: "u16 \<Rightarrow> u16 \<Rightarrow> u64 \<Rightarrow> lcc_frame" where
  "event_frame mti src ev = \<lparr>fr_id = lcc_can_id mti src, fr_data = lcc_event_to_buf ev\<rparr>"

lemma basic_event_fields:
  assumes "addr < 2048"
  shows "event_output (basic_event act addr normal) = addr"
    and "(basic_event act addr normal AND 1 \<noteq> 0) = normal"
    and "(shr (basic_event act addr normal) 12 = shr LCC_EVENT_ACCY_ACTIVATE_BASE 12) = act"
    and "basic_event act addr normal AND NOT 0xFFF =
           (if act then LCC_EVENT_ACCY_ACTIVATE_BASE else LCC_EVENT_ACCY_DEACTIVATE_BASE)"
    and "basic_event act addr normal AND NOT 0x7FFFF \<noteq> LCC_EVENT_ACCY_EXT_BASE"
proof -
  have b: "\<forall>n\<ge>11. \<not> bit addr n" using bit_above_bound [of addr 11] assms by auto
  show "event_output (basic_event act addr normal) = addr"
    "(basic_event act addr normal AND 1 \<noteq> 0) = normal"
    "(shr (basic_event act addr normal) 12 = shr LCC_EVENT_ACCY_ACTIVATE_BASE 12) = act"
    "basic_event act addr normal AND NOT 0xFFF =
       (if act then LCC_EVENT_ACCY_ACTIVATE_BASE else LCC_EVENT_ACCY_DEACTIVATE_BASE)"
    "basic_event act addr normal AND NOT 0x7FFFF \<noteq> LCC_EVENT_ACCY_EXT_BASE"
    using b by (simp_all add: event_output_def basic_event_def accy_consts word_bits_simps del: push_bit_Suc drop_bit_Suc)
qed

lemma extended_event_fields:
  assumes "addr < 2048"
  shows "u16_of (shr (extended_event addr aspect) 8 AND 2047) = addr"
    and "u8_of (extended_event addr aspect) = aspect"
    and "extended_event addr aspect AND NOT 0x7FFFF = LCC_EVENT_ACCY_EXT_BASE"
    and "extended_event addr aspect AND NOT 0xFFF \<noteq> LCC_EVENT_ACCY_ACTIVATE_BASE"
    and "extended_event addr aspect AND NOT 0xFFF \<noteq> LCC_EVENT_ACCY_DEACTIVATE_BASE"
proof -
  have b: "\<forall>n\<ge>11. \<not> bit addr n" using bit_above_bound [of addr 11] assms by auto
  show "u16_of (shr (extended_event addr aspect) 8 AND 2047) = addr"
    "u8_of (extended_event addr aspect) = aspect"
    "extended_event addr aspect AND NOT 0x7FFFF = LCC_EVENT_ACCY_EXT_BASE"
    "extended_event addr aspect AND NOT 0xFFF \<noteq> LCC_EVENT_ACCY_ACTIVATE_BASE"
    "extended_event addr aspect AND NOT 0xFFF \<noteq> LCC_EVENT_ACCY_DEACTIVATE_BASE"
    using b by (simp_all add: extended_event_def accy_consts word_bits_simps)
qed

section \<open>An accessory node at work\<close>

text \<open>
  The tables after \<open>lcc_accessory_init\<close> on tables with no ranges and no registration of an
  accessory event, and hooks that leave the memory of the outputs alone.
\<close>

definition no_accessory_events :: "'w lcc_events \<Rightarrow> bool" where
  "no_accessory_events E \<longleftrightarrow> g_ranges E = [] \<and>
     (\<forall>r\<in>set (g_table E). \<forall>e. er_event_id r = e \<longrightarrow>
        e AND NOT 0xFFF \<noteq> LCC_EVENT_ACCY_ACTIVATE_BASE \<and> e AND NOT 0xFFF \<noteq> LCC_EVENT_ACCY_DEACTIVATE_BASE \<and>
        e AND NOT 0x7FFFF \<noteq> LCC_EVENT_ACCY_EXT_BASE)"

definition keeps_memory :: "'a accessories_scheme lcc_accessory_hooks \<Rightarrow> bool" where
  "keeps_memory hooks \<longleftrightarrow> (\<forall>h. hook_basic hooks = Some h \<longrightarrow>
     (\<forall>addr normal activate w. g_known (h addr normal activate w) = g_known w \<and>
        g_normal (h addr normal activate w) = g_normal w))"

lemma accessory_ranges:
  assumes "no_accessory_events E"
  shows "g_ranges (fst (lcc_accessory_init n hooks E w)) =
     [\<lparr>ev_node = n, ev_base = LCC_EVENT_ACCY_ACTIVATE_BASE, ev_mask = 0xFFF,
        ev_on_report = Some (on_basic hooks), ev_state = Some basic_state\<rparr>,
      \<lparr>ev_node = n, ev_base = LCC_EVENT_ACCY_DEACTIVATE_BASE, ev_mask = 0xFFF,
        ev_on_report = Some (on_basic hooks), ev_state = Some basic_state\<rparr>,
      \<lparr>ev_node = n, ev_base = LCC_EVENT_ACCY_EXT_BASE, ev_mask = 0x7FFFF,
        ev_on_report = Some (on_extended hooks), ev_state = None\<rparr>]"
    and "g_table (fst (lcc_accessory_init n hooks E w)) = g_table E"
  using assms by (simp_all add: no_accessory_events_def lcc_accessory_init_def Let_def
      lcc_events_register_consumer_range_def LCC_MAX_EVENT_RANGES_def ACCY_BASIC_BITS_def ACCY_EXT_BITS_def
      push_bit_eq_mult)

lemma event_frame_fields:
  assumes "src < 0x1000" and "mti < 0x1000"
  shows "lcc_get_mti (fr_id (event_frame mti src ev)) = mti"
    and "lcc_event_from_buf (fr_data (event_frame mti src ev)) = ev" and "dlc (event_frame mti src ev) = 8"
  using can_id_fields(2) [OF assms(2,1)] event_roundtrip [of ev "[]"]
  by (simp_all add: event_frame_def lcc_event_to_buf_def)

lemma no_report:
  assumes "\<forall>r\<in>set rs. er_event_id r \<noteq> ev"
  shows "fold (report_registered n ev) rs w = w"
  using assms by (induction rs) (auto simp: report_registered_def)

lemma table_basic:
  assumes "no_accessory_events E" and "addr < 2048"
  shows "\<forall>r\<in>set (g_table E). er_event_id r \<noteq> basic_event act addr normal"
  using assms(1) basic_event_fields(4) [OF assms(2), of act normal]
  by (cases act) (auto simp: no_accessory_events_def)

lemma range_basic:
  assumes "no_accessory_events E" and "addr < 2048"
  obtains r where "find_range n (basic_event act addr normal) (fst (lcc_accessory_init n hooks E w)) = Some r"
    and "ev_on_report r = Some (on_basic hooks)" and "ev_state r = Some basic_state"
  using basic_event_fields(4) [OF assms(2), of act normal]
  by (cases act) (auto simp: find_range_def accessory_ranges [OF assms(1)] accy_consts)

text \<open>What the report of an accessory event does, and what a query is answered.\<close>

lemma report_basic:
  assumes "no_accessory_events E" and "addr < 2048" and "src < 0x1000" and "hook_basic hooks = Some h"
  shows "lcc_events_handle_frame node (event_frame LCC_MTI_EVENT_REPORT src (basic_event act addr normal))
      (fst (lcc_accessory_init (node_id node) hooks E w0)) w =
    ([], h addr normal act (set_output addr normal w))"
proof -
  let ?ev = "basic_event act addr normal" and ?E = "fst (lcc_accessory_init (node_id node) hooks E w0)"
  obtain r where r: "find_range (node_id node) ?ev ?E = Some r" "ev_on_report r = Some (on_basic hooks)"
    by (rule range_basic [OF assms(1,2)])
  have t: "fold (report_registered (node_id node) ?ev) (g_table ?E) w = w"
    by (intro no_report) (use table_basic [OF assms(1,2)] in \<open>simp add: accessory_ranges [OF assms(1)]\<close>)
  have "on_basic hooks ?ev w = h addr normal act (set_output addr normal w)"
    using basic_event_fields(1-3) [OF assms(2), of act normal] assms(4)
    by (simp add: on_basic_def Let_def ACCY_BASIC_BITS_def)
  then show ?thesis
    using event_frame_fields [OF assms(3), of LCC_MTI_EVENT_REPORT ?ev] r t
    by (simp add: lcc_events_handle_frame_def Let_def lcc_consts)
qed

lemma identify_basic:
  assumes "no_accessory_events E" and "addr < 2048" and "src < 0x1000"
  shows "lcc_events_handle_frame node (event_frame LCC_MTI_CONSUMER_IDENTIFY src (basic_event act addr normal))
      (fst (lcc_accessory_init (node_id node) hooks E w0)) w =
    (send_global_event node
       (case output_state w addr of None \<Rightarrow> LCC_MTI_CONSUMER_IDENTIFIED_UNKNOWN
        | Some n \<Rightarrow> if n = normal then LCC_MTI_CONSUMER_IDENTIFIED_VALID else LCC_MTI_CONSUMER_IDENTIFIED_INVALID)
       (basic_event act addr normal), w)"
proof -
  let ?ev = "basic_event act addr normal" and ?E = "fst (lcc_accessory_init (node_id node) hooks E w0)"
  obtain r where r: "find_range (node_id node) ?ev ?E = Some r" "ev_state r = Some basic_state"
    by (rule range_basic [OF assms(1,2)])
  have "find (\<lambda>e. er_node e = node_id node \<and> er_flags e AND LCC_EVENT_CONSUMER \<noteq> 0 \<and> er_event_id e = ?ev)
      (g_table ?E) = None"
    using table_basic [OF assms(1,2)] by (auto simp: find_None_iff accessory_ranges [OF assms(1)])
  then have "handle_single_identify node ?ev LCC_EVENT_CONSUMER ?E w =
      send_identified node ?ev (Some basic_state) LCC_EVENT_CONSUMER w"
    using r by (simp add: handle_single_identify_def lcc_consts)
  moreover have "basic_state ?ev w = (case output_state w addr of None \<Rightarrow> LCC_EVENT_STATE_UNKNOWN
        | Some n \<Rightarrow> if n = normal then LCC_EVENT_STATE_VALID else LCC_EVENT_STATE_INVALID)"
    using basic_event_fields(1,2) [OF assms(2), of act normal]
    by (auto simp: basic_state_def output_state_def Let_def)
  ultimately show ?thesis
    using event_frame_fields [OF assms(3), of LCC_MTI_CONSUMER_IDENTIFY ?ev]
    by (simp add: lcc_events_handle_frame_def Let_def lcc_consts send_identified_def split: option.splits)
qed

text \<open>A history of reported accessory events, each with its activation, output and state.\<close>

definition report_all ::
  "('t, 's) lcc_node \<Rightarrow> u16 \<Rightarrow> 'a accessories_scheme lcc_events \<Rightarrow> (bool \<times> u16 \<times> bool) list \<Rightarrow>
   'a accessories_scheme \<Rightarrow> 'a accessories_scheme" where
  "report_all node src E es w = fold (\<lambda>(act, addr, normal) w. snd (lcc_events_handle_frame node
     (event_frame LCC_MTI_EVENT_REPORT src (basic_event act addr normal)) E w)) es w"

lemma report_all_state:
  assumes E: "no_accessory_events E" and "src < 0x1000" and hook: "hook_basic hooks = Some h" "keeps_memory hooks"
    and "\<forall>(act, addr, normal)\<in>set es. addr < 2048" and "accy_ok w" and "a < 2048"
  shows "output_state (report_all node src (fst (lcc_accessory_init (node_id node) hooks E w0)) es w) a =
    (case map_of (rev (map snd es)) a of None \<Rightarrow> output_state w a | Some n \<Rightarrow> Some n)"
  using assms(5,6)
proof (induction es arbitrary: w)
  case (Cons e es)
  obtain act addr normal where e: "e = (act, addr, normal)" by (metis surj_pair)
  let ?w = "h addr normal act (set_output addr normal w)"
  have addr: "addr < 2048" using Cons.prems(1) e by simp
  have mem: "g_known ?w = g_known (set_output addr normal w)" "g_normal ?w = g_normal (set_output addr normal w)"
    using hook by (simp_all add: keeps_memory_def)
  then have "accy_ok ?w" using Cons.prems(2) set_output_ok [of addr normal w] by (simp add: accy_ok_def)
  moreover have "output_state ?w a = (if a = addr then Some normal else output_state w a)"
  proof -
    have "output_state ?w a = output_state (set_output addr normal w) a"
      unfolding output_state_def mem by (rule refl)
    then show ?thesis using set_output_state [OF Cons.prems(2) addr assms(7), of normal] by simp
  qed
  ultimately show ?case
    using Cons.IH [of ?w] Cons.prems(1) report_basic [OF E addr assms(2) hook(1), of node act normal w0 w]
    by (auto simp: report_all_def e map_add_def split: option.splits)
qed (simp add: report_all_def)

text \<open>
  C38: The command station remembers its turnouts. After any history of basic accessory
  events (activations and deactivations of any of the 2048 outputs), the answer to an
  Identify Consumer for an event of an output is Valid if the last event reported for that
  output had the same state, Invalid if it had the other one and Unknown if none was reported.
\<close>

theorem accessory_memory:
  assumes "no_accessory_events E" and "src < 0x1000" and "hook_basic hooks = Some h" and "keeps_memory hooks"
    and "\<forall>(act, addr, normal)\<in>set es. addr < 2048" and "a < 2048"
    and "lcc_accessory_init (node_id node) hooks E w = (E', w')"
  shows "fst (lcc_events_handle_frame node (event_frame LCC_MTI_CONSUMER_IDENTIFY src (basic_event act a normal)) E'
      (report_all node src E' es w')) =
    send_global_event node
      (case map_of (rev (map snd es)) a of None \<Rightarrow> LCC_MTI_CONSUMER_IDENTIFIED_UNKNOWN
       | Some n \<Rightarrow> if n = normal then LCC_MTI_CONSUMER_IDENTIFIED_VALID else LCC_MTI_CONSUMER_IDENTIFIED_INVALID)
      (basic_event act a normal)"
proof -
  have E': "E' = fst (lcc_accessory_init (node_id node) hooks E w)" using assms(7) by simp
  have w': "w' = w\<lparr>g_known := replicate 64 0, g_normal := replicate 64 0\<rparr>"
    using assms(7) by (simp add: lcc_accessory_init_def Let_def ACCY_OUTPUTS_def)
  have ok: "accy_ok w'" by (simp add: w' accy_ok_def)
  have "unat a div 32 < 64" using assms(6) by (auto simp: word_less_nat_alt)
  then have "output_state w' a = None" by (simp add: w' output_state_bits Let_def)
  then have "output_state (report_all node src E' es w') a = map_of (rev (map snd es)) a"
    unfolding E' by (simp add: report_all_state [OF assms(1-5) ok assms(6)] split: option.splits)
  then show ?thesis
    unfolding E' by (simp add: identify_basic [OF assms(1,6,2)])
qed

theorem accessory_memory_witness:
  "let node = lcc_node_init 0x0A0000000001 LCC_ROLE_CS :: (unit, unit) lcc_node;
       E' = fst (lcc_accessory_init 0x0A0000000001 \<lparr>hook_basic = Some (\<lambda>_ _ _ w. w), hook_extended = None\<rparr>
              lcc_events_reset \<lparr>g_known = [], g_normal = []\<rparr>);
       w' = snd (lcc_accessory_init 0x0A0000000001 \<lparr>hook_basic = Some (\<lambda>_ _ _ w. w), hook_extended = None\<rparr>
              lcc_events_reset \<lparr>g_known = [], g_normal = []\<rparr>)
   in fst (lcc_events_handle_frame node
        (event_frame LCC_MTI_CONSUMER_IDENTIFY 0x123 (basic_event False 7 True)) E'
        (report_all node 0x123 E' [(True, 7, False), (True, 9, False), (True, 7, True)] w')) =
      send_global_event node LCC_MTI_CONSUMER_IDENTIFIED_VALID (basic_event False 7 True)"
proof -
  let ?node = "lcc_node_init 0x0A0000000001 LCC_ROLE_CS :: (unit, unit) lcc_node"
  let ?hooks = "\<lparr>hook_basic = Some (\<lambda>_ _ _ w. w), hook_extended = None\<rparr> :: accessories lcc_accessory_hooks"
  let ?w = "\<lparr>g_known = [], g_normal = []\<rparr> :: accessories"
  have "fst (lcc_events_handle_frame ?node
        (event_frame LCC_MTI_CONSUMER_IDENTIFY 0x123 (basic_event False 7 True))
          (fst (lcc_accessory_init (node_id ?node) ?hooks lcc_events_reset ?w))
        (report_all ?node 0x123 (fst (lcc_accessory_init (node_id ?node) ?hooks lcc_events_reset ?w))
          [(True, 7, False), (True, 9, False), (True, 7, True)]
          (snd (lcc_accessory_init (node_id ?node) ?hooks lcc_events_reset ?w)))) =
    send_global_event ?node
      (case map_of (rev (map snd [(True, 7, False), (True, 9, False), (True, 7, True)])) (7 :: u16) of
         None \<Rightarrow> LCC_MTI_CONSUMER_IDENTIFIED_UNKNOWN
       | Some n \<Rightarrow> if n = True then LCC_MTI_CONSUMER_IDENTIFIED_VALID else LCC_MTI_CONSUMER_IDENTIFIED_INVALID)
      (basic_event False 7 True)"
    by (rule accessory_memory [OF _ _ _ _ _ _ prod.collapse [symmetric]])
      (simp_all add: no_accessory_events_def lcc_events_reset_def keeps_memory_def)
  then show ?thesis by (simp add: lcc_node_init_def Let_def)
qed

end
