(* ===== verification/Lcc_Datagram.thy ===== *)
theory Lcc_Datagram
  imports Lcc_Node
begin

text \<open>
  Datagrams on the sending side, \<^verbatim>\<open>src/src/lcc/lcc_datagram.c\<close>: the acknowledgements and the
  fragmentation of a datagram into frames. Reassembly and dispatch are in theory
  \<open>Lcc_Datagram_Rx\<close>, as they call the Memory Configuration protocol.
\<close>

section \<open>Sending datagrams\<close>

definition LCC_DATAGRAM_MAX :: nat where "LCC_DATAGRAM_MAX = 72"

definition lcc_datagram_send_ok_flags :: "('t, 's) lcc_node \<Rightarrow> u16 \<Rightarrow> u8 \<Rightarrow> lcc_frame list" where
  "lcc_datagram_send_ok_flags node dst_alias flags =
     [\<lparr>fr_id = lcc_can_id LCC_MTI_DATAGRAM_OK (node_alias node),
       fr_data = lcc_frame_build_addressed_hdr dst_alias 0 @ (if flags \<noteq> 0 then [flags] else [])\<rparr>]"

definition lcc_datagram_send_ok :: "('t, 's) lcc_node \<Rightarrow> u16 \<Rightarrow> lcc_frame list" where
  "lcc_datagram_send_ok node dst_alias = lcc_datagram_send_ok_flags node dst_alias 0"

definition lcc_datagram_send_rejected :: "('t, 's) lcc_node \<Rightarrow> u16 \<Rightarrow> u16 \<Rightarrow> lcc_frame list" where
  "lcc_datagram_send_rejected node dst_alias error_code =
     [\<lparr>fr_id = lcc_can_id LCC_MTI_DATAGRAM_REJECTED (node_alias node),
       fr_data = lcc_frame_build_addressed_hdr dst_alias 0 @ [u8_of (shr error_code 8), u8_of (error_code AND 0xFF)]\<rparr>]"

text \<open>The frames after the first one: MIDDLE frames of eight bytes and the FINAL frame.\<close>

function datagram_loop :: "u16 \<Rightarrow> u16 \<Rightarrow> u8 list \<Rightarrow> lcc_frame list" where
  "datagram_loop dst_alias src_alias payload =
     (if payload = [] then []
      else let is_last = (length payload \<le> 8); chunk = take 8 payload
           in \<lparr>fr_id = lcc_frame_datagram_id (if is_last then LCC_FRAME_DATAGRAM_FINAL else LCC_FRAME_DATAGRAM_MIDDLE)
                  dst_alias src_alias, fr_data = chunk\<rparr> # datagram_loop dst_alias src_alias (drop 8 payload))"
  by pat_completeness auto
termination by (relation "measure (\<lambda>(d, s, p). length p)") auto

declare datagram_loop.simps [simp del]

definition lcc_datagram_send :: "('t, 's) lcc_node \<Rightarrow> u16 \<Rightarrow> u8 list \<Rightarrow> lcc_frame list" where
  "lcc_datagram_send node dst_alias payload =
     (if payload = [] then []
      else if length payload \<le> 8
      then [\<lparr>fr_id = lcc_frame_datagram_id LCC_FRAME_DATAGRAM_ONE dst_alias (node_alias node), fr_data = payload\<rparr>]
      else \<lparr>fr_id = lcc_frame_datagram_id LCC_FRAME_DATAGRAM_FIRST dst_alias (node_alias node),
             fr_data = take 8 payload\<rparr> # datagram_loop dst_alias (node_alias node) (drop 8 payload))"

end
