(* ===== verification/Lcc_Memconfig.thy ===== *)
theory Lcc_Memconfig
  imports Lcc_Datagram
begin

text \<open>
  The Memory Configuration protocol, \<^verbatim>\<open>src/src/lcc/lcc_memconfig.c\<close> and \<^verbatim>\<open>lcc_memconfig.h\<close>: the
  table of memory spaces, the vetting of a request (\<open>lcc_memconfig_check\<close>), its execution
  (\<open>lcc_memconfig_handle\<close>), and the slot for requests answered later. The handlers of the
  spaces are functions on the rest of the program; the locales \<open>readable_space\<close> and
  \<open>byte_store\<close> state what a space that is an array of bytes promises, and what the protocol
  makes of it. Theory \<open>Lcc_Config\<close> gives the spaces of the command station.
\<close>

section \<open>Constants\<close>

definition LCC_MEMCONFIG_CMD :: u8 where [lcc_consts]: "LCC_MEMCONFIG_CMD = 0x20"
definition LCC_MEMCFG_CMD_MASK :: u8 where [lcc_consts]: "LCC_MEMCFG_CMD_MASK = 0xFC"
definition LCC_MEMCFG_WRITE :: u8 where [lcc_consts]: "LCC_MEMCFG_WRITE = 0x00"
definition LCC_MEMCFG_READ :: u8 where [lcc_consts]: "LCC_MEMCFG_READ = 0x40"
definition LCC_MEMCFG_READ_REPLY :: u8 where [lcc_consts]: "LCC_MEMCFG_READ_REPLY = 0x50"
definition LCC_MEMCFG_WRITE_REPLY :: u8 where [lcc_consts]: "LCC_MEMCFG_WRITE_REPLY = 0x10"
definition LCC_MEMCFG_REPLY_FAILED :: u8 where [lcc_consts]: "LCC_MEMCFG_REPLY_FAILED = 0x08"
definition LCC_MEMCFG_GET_OPTIONS :: u8 where [lcc_consts]: "LCC_MEMCFG_GET_OPTIONS = 0x80"
definition LCC_MEMCFG_OPTIONS_REPLY :: u8 where [lcc_consts]: "LCC_MEMCFG_OPTIONS_REPLY = 0x82"
definition LCC_MEMCFG_GET_SPACE_INFO :: u8 where [lcc_consts]: "LCC_MEMCFG_GET_SPACE_INFO = 0x84"
definition LCC_MEMCFG_SPACE_INFO_REPLY :: u8 where [lcc_consts]: "LCC_MEMCFG_SPACE_INFO_REPLY = 0x87"
definition LCC_MEMCFG_SPACE_NOT_KNOWN :: u8 where [lcc_consts]: "LCC_MEMCFG_SPACE_NOT_KNOWN = 0x86"
definition LCC_MEMCFG_UPDATE_COMPLETE :: u8 where [lcc_consts]: "LCC_MEMCFG_UPDATE_COMPLETE = 0xA8"
definition LCC_MEMCFG_REBOOT :: u8 where [lcc_consts]: "LCC_MEMCFG_REBOOT = 0xA9"
definition LCC_MEMCFG_FACTORY_RESET :: u8 where [lcc_consts]: "LCC_MEMCFG_FACTORY_RESET = 0xAA"
definition LCC_MEMCFG_AVAIL_UNALIGNED_READ :: u16 where [lcc_consts]: "LCC_MEMCFG_AVAIL_UNALIGNED_READ = 0x4000"
definition LCC_MEMCFG_AVAIL_UNALIGNED_WRITE :: u16 where [lcc_consts]: "LCC_MEMCFG_AVAIL_UNALIGNED_WRITE = 0x2000"
definition LCC_MEMCFG_AVAIL_READ_FC :: u16 where [lcc_consts]: "LCC_MEMCFG_AVAIL_READ_FC = 0x0800"
definition LCC_MEMCFG_AVAIL_READ_FB :: u16 where [lcc_consts]: "LCC_MEMCFG_AVAIL_READ_FB = 0x0400"
definition LCC_MEMCFG_AVAIL_WRITE_FB :: u16 where [lcc_consts]: "LCC_MEMCFG_AVAIL_WRITE_FB = 0x0200"
definition LCC_MEMCFG_WRITE_LENGTHS :: u8 where [lcc_consts]: "LCC_MEMCFG_WRITE_LENGTHS = 0xE2"
definition LCC_DATAGRAM_OK_REPLY_PENDING :: u8 where [lcc_consts]: "LCC_DATAGRAM_OK_REPLY_PENDING = 0x80"
definition LCC_MEMCFG_DEFER_TIMEOUT_EXP :: u8 where [lcc_consts]: "LCC_MEMCFG_DEFER_TIMEOUT_EXP = 3"
definition LCC_MEMCFG_DEFER :: u16 where [lcc_consts]: "LCC_MEMCFG_DEFER = 0xFFFF"

definition LCC_ERR_PERMANENT :: u16 where [lcc_consts]: "LCC_ERR_PERMANENT = 0x1000"
definition LCC_ERR_TEMPORARY :: u16 where [lcc_consts]: "LCC_ERR_TEMPORARY = 0x2000"
definition LCC_ERR_UNIMPLEMENTED_SUBCMD :: u16 where [lcc_consts]: "LCC_ERR_UNIMPLEMENTED_SUBCMD = 0x1041"
definition LCC_ERR_UNIMPLEMENTED_CMD :: u16 where [lcc_consts]: "LCC_ERR_UNIMPLEMENTED_CMD = 0x1042"
definition LCC_ERR_INVALID_ARGUMENTS :: u16 where [lcc_consts]: "LCC_ERR_INVALID_ARGUMENTS = 0x1080"
definition LCC_ERR_SPACE_UNKNOWN :: u16 where [lcc_consts]: "LCC_ERR_SPACE_UNKNOWN = 0x1081"
definition LCC_ERR_OUT_OF_BOUNDS :: u16 where [lcc_consts]: "LCC_ERR_OUT_OF_BOUNDS = 0x1082"
definition LCC_ERR_WRITE_READ_ONLY :: u16 where [lcc_consts]: "LCC_ERR_WRITE_READ_ONLY = 0x1083"
definition LCC_ERR_OUT_OF_ORDER :: u16 where [lcc_consts]: "LCC_ERR_OUT_OF_ORDER = 0x2040"

definition LCC_MAX_MEMSPACES :: nat where "LCC_MAX_MEMSPACES = 8"

section \<open>State\<close>

text \<open>
  A memory space: its callbacks act on the rest of the program, \<open>'w\<close>, and are given the
  node's ID for the node. \<open>read\<close> gives the bytes it produced and its error code, \<open>write\<close> is
  given the bytes to write and gives how many it took and its error code, \<open>defer\<close> gives 0 or
  the error code. Counts are natural numbers (bytes in the code).
\<close>

record lcc_memconfig_deferred =
  dr_is_write :: bool
  dr_space :: u8
  dr_addr :: u32
  dr_count :: nat
  dr_data :: "u8 list"

record 'w lcc_memspace =
  ms_space :: u8
  ms_size :: u32
  ms_read_only :: bool
  ms_read :: "(u64 \<Rightarrow> u32 \<Rightarrow> nat \<Rightarrow> 'w \<Rightarrow> (u8 list \<times> u16) \<times> 'w) option"
  ms_write :: "(u64 \<Rightarrow> u32 \<Rightarrow> u8 list \<Rightarrow> 'w \<Rightarrow> (nat \<times> u16) \<times> 'w) option"
  ms_update_complete :: "(u64 \<Rightarrow> 'w \<Rightarrow> 'w) option"
  ms_defer :: "(u64 \<Rightarrow> lcc_memconfig_deferred \<Rightarrow> 'w \<Rightarrow> u16 \<times> 'w) option"

datatype deferred_state = DEFERRED_IDLE | DEFERRED_PENDING | DEFERRED_DONE

text \<open>\<open>g_deferred\<close>: its node is given by the node's ID.\<close>

record deferred =
  df_state :: deferred_state
  df_node :: u64
  df_src_alias :: u16
  df_cmd :: u8
  df_space :: u8
  df_addr :: u32
  df_error :: u16
  df_data :: "u8 list"

record 'w memconfig =
  g_spaces :: "'w lcc_memspace list"
  g_reboot :: "('w \<Rightarrow> 'w) option"
  g_factory_reset :: "(u64 \<Rightarrow> 'w \<Rightarrow> 'w) option"
  g_deferred :: deferred
  the_rest :: 'w

type_synonym ('t, 'w) mnode = "('t, 'w lcc_memspace) lcc_node"

definition lcc_memconfig_register_spaces :: "'w lcc_memspace list \<Rightarrow> 'w memconfig \<Rightarrow> 'w memconfig" where
  "lcc_memconfig_register_spaces spaces mc = mc\<lparr>g_spaces := take LCC_MAX_MEMSPACES spaces\<rparr>"

definition lcc_memconfig_register_node_spaces :: "'w lcc_memspace list \<Rightarrow> ('t, 'w) mnode \<Rightarrow> ('t, 'w) mnode" where
  "lcc_memconfig_register_node_spaces spaces node = node\<lparr>node_spaces := take LCC_MAX_MEMSPACES spaces\<rparr>"

definition lcc_memconfig_set_hooks ::
  "('w \<Rightarrow> 'w) option \<Rightarrow> (u64 \<Rightarrow> 'w \<Rightarrow> 'w) option \<Rightarrow> 'w memconfig \<Rightarrow> 'w memconfig" where
  "lcc_memconfig_set_hooks reboot factory_reset mc = mc\<lparr>g_reboot := reboot, g_factory_reset := factory_reset\<rparr>"

definition find_space :: "('t, 'w) mnode \<Rightarrow> u8 \<Rightarrow> 'w memconfig \<Rightarrow> 'w lcc_memspace option" where
  "find_space node space mc =
     (case find (\<lambda>h. ms_space h = space) (node_spaces node) of
        Some h \<Rightarrow> Some h
      | None \<Rightarrow> find (\<lambda>h. ms_space h = space) (g_spaces mc))"

section \<open>Requests\<close>

definition be32 :: "u8 list \<Rightarrow> u32" where
  "be32 b = shl (u32_of (b ! 0)) 24 OR shl (u32_of (b ! 1)) 16 OR shl (u32_of (b ! 2)) 8 OR u32_of (b ! 3)"

definition be32_to_buf :: "u32 \<Rightarrow> u8 list" where
  "be32_to_buf a = [u8_of (shr a 24 AND 0xFF), u8_of (shr a 16 AND 0xFF), u8_of (shr a 8 AND 0xFF), u8_of (a AND 0xFF)]"

text \<open>The space, the address and the offset of the data.\<close>

definition decode_space :: "u8 \<Rightarrow> u8 list \<Rightarrow> u8 \<times> u32 \<times> nat" where
  "decode_space cmd buf =
     (let addr = be32 (drop 2 buf); space_bits = cmd AND 0x03
      in if space_bits \<noteq> 0 then (0xFC + space_bits, addr, 6)
         else (if length buf > 6 then buf ! 6 else 0, addr, 7))"

definition is_read_cmd :: "u8 \<Rightarrow> bool" where
  "is_read_cmd cmd \<longleftrightarrow> cmd AND LCC_MEMCFG_CMD_MASK = LCC_MEMCFG_READ"

definition is_write_cmd :: "u8 \<Rightarrow> bool" where
  "is_write_cmd cmd \<longleftrightarrow> cmd AND LCC_MEMCFG_CMD_MASK = LCC_MEMCFG_WRITE"

record 'w rw_req =
  rq_space :: u8
  rq_addr :: u32
  rq_count :: nat
  rq_data :: "u8 list"
  rq_h :: "'w lcc_memspace"

definition parse_rw :: "('t, 'w) mnode \<Rightarrow> u8 list \<Rightarrow> 'w memconfig \<Rightarrow> u16 + 'w rw_req" where
  "parse_rw node buf mc =
     (if length buf < 7 then Inl LCC_ERR_INVALID_ARGUMENTS
      else case decode_space (buf ! 1) buf of
        (space, addr, data_offset) \<Rightarrow>
          (if data_offset \<ge> length buf then Inl LCC_ERR_INVALID_ARGUMENTS
           else if is_read_cmd (buf ! 1)
           then (let count = unat (buf ! data_offset)
                 in if count = 0 then Inl LCC_ERR_INVALID_ARGUMENTS
                    else case find_space node space mc of
                           None \<Rightarrow> Inl LCC_ERR_SPACE_UNKNOWN
                         | Some h \<Rightarrow>
                             (if ms_defer h = None \<and> ms_read h = None then Inl LCC_ERR_SPACE_UNKNOWN
                              else Inr \<lparr>rq_space = space, rq_addr = addr, rq_count = count, rq_data = [], rq_h = h\<rparr>))
           else case find_space node space mc of
                  None \<Rightarrow> Inl LCC_ERR_SPACE_UNKNOWN
                | Some h \<Rightarrow>
                    (if ms_read_only h \<or> (ms_defer h = None \<and> ms_write h = None) then Inl LCC_ERR_WRITE_READ_ONLY
                     else if ms_write h \<noteq> None \<and> addr \<ge> ms_size h then Inl LCC_ERR_OUT_OF_BOUNDS
                     else Inr \<lparr>rq_space = space, rq_addr = addr, rq_count = length buf - data_offset,
                                rq_data = drop data_offset buf, rq_h = h\<rparr>)))"

definition factory_reset_confirmed :: "('t, 'w) mnode \<Rightarrow> u8 list \<Rightarrow> bool" where
  "factory_reset_confirmed node buf \<longleftrightarrow> \<not> length buf < 8 \<and> lcc_node_id_from_buf (drop 2 buf) = node_id node"

text \<open>Either the error code to reject the datagram with or the flags of its Datagram OK.\<close>

definition lcc_memconfig_check :: "('t, 'w) mnode \<Rightarrow> u8 list \<Rightarrow> 'w memconfig \<Rightarrow> u16 + u8" where
  "lcc_memconfig_check node payload mc =
     (if length payload < 2 then Inl LCC_ERR_INVALID_ARGUMENTS
      else let cmd = payload ! 1
      in if is_read_cmd cmd \<or> is_write_cmd cmd
         then (case parse_rw node payload mc of
                 Inl error \<Rightarrow> Inl error
               | Inr rq \<Rightarrow> Inr (LCC_DATAGRAM_OK_REPLY_PENDING OR
                   (if ms_defer (rq_h rq) \<noteq> None then LCC_MEMCFG_DEFER_TIMEOUT_EXP else 0)))
         else if cmd = LCC_MEMCFG_GET_OPTIONS then Inr LCC_DATAGRAM_OK_REPLY_PENDING
         else if cmd = LCC_MEMCFG_GET_SPACE_INFO
         then (if length payload < 3 then Inl LCC_ERR_INVALID_ARGUMENTS else Inr LCC_DATAGRAM_OK_REPLY_PENDING)
         else if cmd = LCC_MEMCFG_UPDATE_COMPLETE then Inr 0
         else if cmd = LCC_MEMCFG_REBOOT
         then (if g_reboot mc \<noteq> None then Inr 0 else Inl LCC_ERR_UNIMPLEMENTED_SUBCMD)
         else if cmd = LCC_MEMCFG_FACTORY_RESET
         then (if g_factory_reset mc = None then Inl LCC_ERR_UNIMPLEMENTED_SUBCMD
               else if factory_reset_confirmed node payload then Inr 0 else Inl LCC_ERR_INVALID_ARGUMENTS)
         else Inl LCC_ERR_UNIMPLEMENTED_SUBCMD)"

section \<open>Replies\<close>

definition read_write_reply :: "u8 \<Rightarrow> u8 \<Rightarrow> u32 \<Rightarrow> u16 \<Rightarrow> u8 list \<Rightarrow> u8 list" where
  "read_write_reply cmd space addr error bytes =
     (let is_write = (cmd AND 0xF0 = LCC_MEMCFG_WRITE); space_bits = cmd AND 0x03;
          hdr = [LCC_MEMCONFIG_CMD, (if is_write then LCC_MEMCFG_WRITE_REPLY else LCC_MEMCFG_READ_REPLY)
                   OR (if error \<noteq> 0 then LCC_MEMCFG_REPLY_FAILED else 0) OR space_bits] @
                be32_to_buf addr @ (if space_bits = 0 then [space] else [])
      in if error \<noteq> 0 then hdr @ [u8_of (shr error 8), u8_of (error AND 0xFF)]
         else if \<not> is_write then hdr @ take (LCC_DATAGRAM_MAX - length hdr) bytes
         else hdr)"

definition send_reply ::
  "('t, 'w) mnode \<Rightarrow> u16 \<Rightarrow> u8 \<Rightarrow> u8 \<Rightarrow> u32 \<Rightarrow> u16 \<Rightarrow> u8 list \<Rightarrow> lcc_frame list" where
  "send_reply node dst_alias cmd space addr error bytes =
     lcc_datagram_send node dst_alias (read_write_reply cmd space addr error bytes)"

section \<open>Deferred requests\<close>

definition DEFERRED_DATA_MAX :: nat where "DEFERRED_DATA_MAX = LCC_DATAGRAM_MAX - 7"

text \<open>\<open>bytes\<close> is \<open>None\<close> for a read.\<close>

definition start_deferred ::
  "('t, 'w) mnode \<Rightarrow> u16 \<Rightarrow> u8 \<Rightarrow> u8 \<Rightarrow> u32 \<Rightarrow> nat \<Rightarrow> u8 list option \<Rightarrow> 'w lcc_memspace \<Rightarrow>
   (u64 \<Rightarrow> lcc_memconfig_deferred \<Rightarrow> 'w \<Rightarrow> u16 \<times> 'w) \<Rightarrow> 'w memconfig \<Rightarrow> lcc_frame list \<times> 'w memconfig" where
  "start_deferred node src_alias cmd space addr count bytes h defer mc =
     (if addr \<ge> ms_size h then (send_reply node src_alias cmd space addr LCC_ERR_OUT_OF_BOUNDS [], mc)
      else if df_state (g_deferred mc) \<noteq> DEFERRED_IDLE
      then (send_reply node src_alias cmd space addr LCC_ERR_TEMPORARY [], mc)
      else let mc = mc\<lparr>g_deferred := (g_deferred mc)\<lparr>df_node := node_id node, df_src_alias := src_alias, df_cmd := cmd,
                         df_space := space, df_addr := addr, df_error := 0, df_data := [],
                         df_state := DEFERRED_PENDING\<rparr>\<rparr>
           in case defer (node_id node) \<lparr>dr_is_write = (bytes \<noteq> None), dr_space = space, dr_addr = addr,
                       dr_count = count, dr_data = (case bytes of Some b \<Rightarrow> b | None \<Rightarrow> [])\<rparr> (the_rest mc) of
                (error, w) \<Rightarrow>
                  (let mc = mc\<lparr>the_rest := w\<rparr>
                   in if error = 0 then ([], mc)
                      else (send_reply node src_alias cmd space addr error [],
                            mc\<lparr>g_deferred := (g_deferred mc)\<lparr>df_state := DEFERRED_IDLE\<rparr>\<rparr>)))"

text \<open>The bytes of \<open>lcc_memconfig_complete\<close>; \<open>None\<close> is NULL.\<close>

definition lcc_memconfig_complete :: "u16 \<Rightarrow> u8 list option \<Rightarrow> 'w memconfig \<Rightarrow> 'w memconfig" where
  "lcc_memconfig_complete error bytes mc =
     (if df_state (g_deferred mc) \<noteq> DEFERRED_PENDING then mc
      else mc\<lparr>g_deferred := (g_deferred mc)\<lparr>
             df_data := (case bytes of Some b \<Rightarrow> take DEFERRED_DATA_MAX b | None \<Rightarrow> []),
             df_error := error, df_state := DEFERRED_DONE\<rparr>\<rparr>)"

text \<open>\<open>node_of\<close> finds the node of an ID.\<close>

definition lcc_memconfig_flush_deferred ::
  "(u64 \<Rightarrow> ('t, 'w) mnode) \<Rightarrow> 'w memconfig \<Rightarrow> lcc_frame list \<times> 'w memconfig" where
  "lcc_memconfig_flush_deferred node_of mc =
     (let d = g_deferred mc
      in if df_state d \<noteq> DEFERRED_DONE then ([], mc)
         else (send_reply (node_of (df_node d)) (df_src_alias d) (df_cmd d) (df_space d) (df_addr d) (df_error d) (df_data d),
               mc\<lparr>g_deferred := d\<lparr>df_state := DEFERRED_IDLE\<rparr>\<rparr>))"

definition lcc_memconfig_deferred_pending :: "'w memconfig \<Rightarrow> bool" where
  "lcc_memconfig_deferred_pending mc \<longleftrightarrow> df_state (g_deferred mc) \<noteq> DEFERRED_IDLE"

section \<open>Requests answered at once\<close>

definition space_readable :: "'w lcc_memspace option \<Rightarrow> bool" where
  "space_readable h = (case h of None \<Rightarrow> False | Some h \<Rightarrow> ms_read h \<noteq> None \<or> ms_defer h \<noteq> None)"

text \<open>The lowest and the highest space number so far.\<close>

definition note_space :: "u8 \<Rightarrow> u8 \<times> u8 \<Rightarrow> u8 \<times> u8" where
  "note_space space r =
     (if space \<ge> 0xFD then r
      else (if space < fst r then space else fst r, if space > snd r then space else snd r))"

definition handle_get_options :: "('t, 'w) mnode \<Rightarrow> u16 \<Rightarrow> 'w memconfig \<Rightarrow> lcc_frame list" where
  "handle_get_options node src_alias mc =
     (let avail = LCC_MEMCFG_AVAIL_UNALIGNED_READ OR LCC_MEMCFG_AVAIL_UNALIGNED_WRITE;
          avail = (if space_readable (find_space node 0xFC mc) then avail OR LCC_MEMCFG_AVAIL_READ_FC else avail);
          fb = find_space node 0xFB mc;
          avail = (if space_readable fb then avail OR LCC_MEMCFG_AVAIL_READ_FB else avail);
          avail = (case fb of
                     Some h \<Rightarrow> (if space_readable fb \<and> \<not> ms_read_only h \<and> (ms_write h \<noteq> None \<or> ms_defer h \<noteq> None)
                               then avail OR LCC_MEMCFG_AVAIL_WRITE_FB else avail)
                   | None \<Rightarrow> avail);
          (lowest, highest) = fold (\<lambda>h. note_space (ms_space h)) (node_spaces node @ g_spaces mc) (0xFF, 0);
          (lowest, highest) = (if highest < lowest then (0xFD, 0xFF) else (lowest, highest))
      in lcc_datagram_send node src_alias
           [LCC_MEMCONFIG_CMD, LCC_MEMCFG_OPTIONS_REPLY, u8_of (shr avail 8), u8_of avail,
            LCC_MEMCFG_WRITE_LENGTHS, highest, lowest])"

definition handle_get_space_info :: "('t, 'w) mnode \<Rightarrow> u16 \<Rightarrow> u8 list \<Rightarrow> 'w memconfig \<Rightarrow> lcc_frame list" where
  "handle_get_space_info node src_alias buf mc =
     (if length buf < 3 then []
      else let space = buf ! 2
      in case find_space node space mc of
           None \<Rightarrow> lcc_datagram_send node src_alias [LCC_MEMCONFIG_CMD, LCC_MEMCFG_SPACE_NOT_KNOWN, space]
         | Some h \<Rightarrow>
             (let highest = (if ms_size h > 0 then ms_size h - 1 else 0)
              in lcc_datagram_send node src_alias
                   ([LCC_MEMCONFIG_CMD, LCC_MEMCFG_SPACE_INFO_REPLY, space] @ be32_to_buf highest @
                    [if ms_read_only h then 0x01 else 0x00])))"

section \<open>Reads\<close>

text \<open>The clamp of a read to its space and to the reply.\<close>

definition read_count :: "'w lcc_memspace \<Rightarrow> u32 \<Rightarrow> nat \<Rightarrow> nat" where
  "read_count h addr count =
     (let count = (if addr \<ge> ms_size h then 0
                   else if addr + of_nat count > ms_size h then unat (u8_of (ms_size h - addr)) else count)
      in if count > DEFERRED_DATA_MAX then DEFERRED_DATA_MAX else count)"

text \<open>The call of the read handler: none when nothing is left to read.\<close>

definition call_read ::
  "(u64 \<Rightarrow> u32 \<Rightarrow> nat \<Rightarrow> 'w \<Rightarrow> (u8 list \<times> u16) \<times> 'w) \<Rightarrow> u64 \<Rightarrow> u32 \<Rightarrow> nat \<Rightarrow> 'w \<Rightarrow> (u8 list \<times> u16) \<times> 'w" where
  "call_read read node addr count w = (if count > 0 then read node addr count w else (([], 0), w))"

definition handle_read ::
  "('t, 'w) mnode \<Rightarrow> u16 \<Rightarrow> u8 list \<Rightarrow> 'w memconfig \<Rightarrow> lcc_frame list \<times> 'w memconfig" where
  "handle_read node src_alias buf mc =
     (case parse_rw node buf mc of
        Inl error \<Rightarrow> ([], mc)
      | Inr rq \<Rightarrow>
          (let h = rq_h rq; cmd = buf ! 1 in
           case ms_read h of
             None \<Rightarrow>
               (case ms_defer h of
                  None \<Rightarrow> ([], mc)
                | Some defer \<Rightarrow> start_deferred node src_alias cmd (rq_space rq) (rq_addr rq) (rq_count rq) None h defer mc)
           | Some read \<Rightarrow>
               (let count = read_count h (rq_addr rq) (rq_count rq) in
                case call_read read (node_id node) (rq_addr rq) count (the_rest mc) of
                  ((bytes, error), w) \<Rightarrow>
                    (let mc = mc\<lparr>the_rest := w\<rparr> in
                     if error = LCC_MEMCFG_DEFER \<and> ms_defer h \<noteq> None
                     then start_deferred node src_alias cmd (rq_space rq) (rq_addr rq) (rq_count rq) None h
                            (the (ms_defer h)) mc
                     else (let error = (if error = LCC_MEMCFG_DEFER then LCC_ERR_PERMANENT else error)
                           in (send_reply node src_alias cmd (rq_space rq) (rq_addr rq) error (take count bytes), mc))))))"

section \<open>Writes\<close>

text \<open>The loop that hands the handler the bytes it has not taken yet; the value is the error code.\<close>

function write_loop ::
  "(u64 \<Rightarrow> u32 \<Rightarrow> u8 list \<Rightarrow> 'w \<Rightarrow> (nat \<times> u16) \<times> 'w) \<Rightarrow> u64 \<Rightarrow> u32 \<Rightarrow> u8 list \<Rightarrow> 'w \<Rightarrow> u16 \<times> 'w" where
  "write_loop write node addr bytes w =
     (if bytes = [] then (0, w)
      else case write node addr bytes w of
        ((n, error), w') \<Rightarrow>
          (let n = (if n > length bytes then length bytes else n);
               error = (if n = 0 \<and> error = 0 then LCC_ERR_PERMANENT else error)
           in if error \<noteq> 0 then (error, w')
              else write_loop write node (addr + of_nat n) (drop n bytes) w'))"
  by pat_completeness auto
termination
  by (relation "measure (\<lambda>(f, i, a, b, w). length b)") (auto simp: LCC_ERR_PERMANENT_def split: if_splits)

declare write_loop.simps [simp del]

definition in_bounds :: "'w lcc_memspace \<Rightarrow> u32 \<Rightarrow> nat \<Rightarrow> nat" where
  "in_bounds h addr count =
     (if addr + of_nat count > ms_size h then unat (u8_of (ms_size h - addr)) else count)"

definition handle_write ::
  "('t, 'w) mnode \<Rightarrow> u16 \<Rightarrow> u8 list \<Rightarrow> 'w memconfig \<Rightarrow> lcc_frame list \<times> 'w memconfig" where
  "handle_write node src_alias buf mc =
     (case parse_rw node buf mc of
        Inl error \<Rightarrow> ([], mc)
      | Inr rq \<Rightarrow>
          (let h = rq_h rq; cmd = buf ! 1 in
           case ms_write h of
             None \<Rightarrow>
               (case ms_defer h of
                  None \<Rightarrow> ([], mc)
                | Some defer \<Rightarrow>
                    start_deferred node src_alias cmd (rq_space rq) (rq_addr rq) (rq_count rq) (Some (rq_data rq)) h defer mc)
           | Some write \<Rightarrow>
               (let fit = in_bounds h (rq_addr rq) (rq_count rq) in
                case write_loop write (node_id node) (rq_addr rq) (take fit (rq_data rq)) (the_rest mc) of
                  (error, w) \<Rightarrow>
                    (let error = (if error = 0 \<and> fit < rq_count rq then LCC_ERR_OUT_OF_BOUNDS else error)
                     in (send_reply node src_alias cmd (rq_space rq) (rq_addr rq) error [], mc\<lparr>the_rest := w\<rparr>)))))"

section \<open>Update complete, reboot, factory reset\<close>

definition call_update_complete :: "u64 \<Rightarrow> 'w lcc_memspace \<Rightarrow> 'w \<Rightarrow> 'w" where
  "call_update_complete node h w = (case ms_update_complete h of Some f \<Rightarrow> f node w | None \<Rightarrow> w)"

definition handle_update_complete :: "('t, 'w) mnode \<Rightarrow> 'w memconfig \<Rightarrow> 'w memconfig" where
  "handle_update_complete node mc =
     (let w = fold (call_update_complete (node_id node)) (node_spaces node) (the_rest mc)
      in mc\<lparr>the_rest := fold (call_update_complete (node_id node)) (g_spaces mc) w\<rparr>)"

definition handle_reboot :: "'w memconfig \<Rightarrow> 'w memconfig" where
  "handle_reboot mc = (case g_reboot mc of Some f \<Rightarrow> mc\<lparr>the_rest := f (the_rest mc)\<rparr> | None \<Rightarrow> mc)"

definition handle_factory_reset :: "('t, 'w) mnode \<Rightarrow> u8 list \<Rightarrow> 'w memconfig \<Rightarrow> 'w memconfig" where
  "handle_factory_reset node buf mc =
     (if \<not> factory_reset_confirmed node buf then mc
      else case g_factory_reset mc of Some f \<Rightarrow> mc\<lparr>the_rest := f (node_id node) (the_rest mc)\<rparr> | None \<Rightarrow> mc)"

definition lcc_memconfig_handle ::
  "('t, 'w) mnode \<Rightarrow> u16 \<Rightarrow> u8 list \<Rightarrow> 'w memconfig \<Rightarrow> lcc_frame list \<times> 'w memconfig" where
  "lcc_memconfig_handle node src_alias payload mc =
     (if length payload < 2 then ([], mc)
      else let cmd = payload ! 1
      in if cmd = LCC_MEMCFG_GET_OPTIONS then (handle_get_options node src_alias mc, mc)
         else if cmd = LCC_MEMCFG_GET_SPACE_INFO then (handle_get_space_info node src_alias payload mc, mc)
         else if cmd = LCC_MEMCFG_UPDATE_COMPLETE then ([], handle_update_complete node mc)
         else if cmd = LCC_MEMCFG_REBOOT then ([], handle_reboot mc)
         else if cmd = LCC_MEMCFG_FACTORY_RESET then ([], handle_factory_reset node payload mc)
         else if is_read_cmd cmd then handle_read node src_alias payload mc
         else if is_write_cmd cmd then handle_write node src_alias payload mc
         else ([], mc))"

section \<open>Sample states\<close>

text \<open>A command station without memory spaces, and a write of three bytes to space 0x11 of it.\<close>

definition bare_node :: "u16 \<Rightarrow> (unit, unit) mnode" where
  "bare_node a = (lcc_node_init 0x0A0000000001 LCC_ROLE_CS)\<lparr>node_alias := a\<rparr>"

definition bare_memconfig :: "unit memconfig" where
  "bare_memconfig = \<lparr>g_spaces = [], g_reboot = None, g_factory_reset = None,
     g_deferred = \<lparr>df_state = DEFERRED_IDLE, df_node = 0, df_src_alias = 0, df_cmd = 0, df_space = 0, df_addr = 0,
       df_error = 0, df_data = []\<rparr>, the_rest = ()\<rparr>"

lemmas bare_defs = bare_node_def bare_memconfig_def lcc_node_init_def


section \<open>Every accepted request is answered\<close>

text \<open>A reply datagram of one to 72 bytes to the requester.\<close>

definition is_reply :: "('t, 'w) mnode \<Rightarrow> u16 \<Rightarrow> lcc_frame list \<Rightarrow> bool" where
  "is_reply node src fs \<longleftrightarrow> (\<exists>reply. fs = lcc_datagram_send node src reply \<and> 3 \<le> length reply \<and>
     length reply \<le> LCC_DATAGRAM_MAX \<and> reply ! 0 = LCC_MEMCONFIG_CMD)"

text \<open>The request has been handed over and its slot taken.\<close>

definition handed_over :: "('t, 'w) mnode \<Rightarrow> u16 \<Rightarrow> u8 \<Rightarrow> u8 \<Rightarrow> u32 \<Rightarrow> deferred \<Rightarrow> bool" where
  "handed_over node src cmd space addr d \<longleftrightarrow>
     d = \<lparr>df_state = DEFERRED_PENDING, df_node = node_id node, df_src_alias = src, df_cmd = cmd, df_space = space,
          df_addr = addr, df_error = 0, df_data = []\<rparr>"

text \<open>How a read or write request ends: a reply at once, or the hand-over to \<open>defer\<close>.\<close>

definition rw_outcome ::
  "('t, 'w) mnode \<Rightarrow> u16 \<Rightarrow> u8 \<Rightarrow> u8 \<Rightarrow> u32 \<Rightarrow> 'w memconfig \<Rightarrow> lcc_frame list \<times> 'w memconfig \<Rightarrow> bool" where
  "rw_outcome node src cmd space addr mc r \<longleftrightarrow>
     is_reply node src (fst r) \<and> df_state (g_deferred (snd r)) = df_state (g_deferred mc) \<and>
       (df_state (g_deferred mc) \<noteq> DEFERRED_IDLE \<longrightarrow> g_deferred (snd r) = g_deferred mc) \<or>
     fst r = [] \<and> df_state (g_deferred mc) = DEFERRED_IDLE \<and> handed_over node src cmd space addr (g_deferred (snd r))"

lemma be32_length [simp]: "length (be32_to_buf a) = 4"
  by (simp add: be32_to_buf_def)

lemma is_reply_send_reply: "is_reply node src (send_reply node src cmd space addr error bytes)"
  unfolding is_reply_def send_reply_def
  by (intro exI [of _ "read_write_reply cmd space addr error bytes"])
    (auto simp: read_write_reply_def Let_def LCC_DATAGRAM_MAX_def)

lemma is_reply_send:
  "3 \<le> length reply \<Longrightarrow> length reply \<le> LCC_DATAGRAM_MAX \<Longrightarrow> reply ! 0 = LCC_MEMCONFIG_CMD \<Longrightarrow>
   is_reply node src (lcc_datagram_send node src reply)"
  unfolding is_reply_def by blast

lemma rw_outcome_reply:
  "rw_outcome node src cmd space addr mc (send_reply node src cmd space addr error bytes, mc\<lparr>the_rest := w\<rparr>)"
  by (simp add: rw_outcome_def is_reply_send_reply)

lemma start_deferred_outcome:
  "rw_outcome node src cmd space addr mc (start_deferred node src cmd space addr count bytes h defer (mc\<lparr>the_rest := w\<rparr>))"
  by (auto simp: start_deferred_def rw_outcome_def is_reply_send_reply handed_over_def Let_def split: prod.splits)

lemma start_deferred_outcome':
  "rw_outcome node src cmd space addr mc (start_deferred node src cmd space addr count bytes h defer mc)"
  using start_deferred_outcome [of node src cmd space addr mc count bytes h "defer" "the_rest mc"] by simp

lemma parse_rw_handler:
  assumes "parse_rw node buf mc = Inr rq"
  shows "is_read_cmd (buf ! 1) \<Longrightarrow> ms_read (rq_h rq) \<noteq> None \<or> ms_defer (rq_h rq) \<noteq> None"
    and "\<not> is_read_cmd (buf ! 1) \<Longrightarrow> ms_write (rq_h rq) \<noteq> None \<or> ms_defer (rq_h rq) \<noteq> None"
  using assms by (auto simp: parse_rw_def Let_def split: if_splits prod.splits option.splits)

lemma handle_read_outcome:
  assumes "parse_rw node buf mc = Inr rq" and "is_read_cmd (buf ! 1)"
  shows "rw_outcome node src (buf ! 1) (rq_space rq) (rq_addr rq) mc (handle_read node src buf mc)"
  using parse_rw_handler(1) [OF assms] assms(1)
  by (auto simp: handle_read_def Let_def start_deferred_outcome start_deferred_outcome' rw_outcome_reply
      split: option.splits prod.splits)

lemma handle_write_outcome:
  assumes "parse_rw node buf mc = Inr rq" and "\<not> is_read_cmd (buf ! 1)"
  shows "rw_outcome node src (buf ! 1) (rq_space rq) (rq_addr rq) mc (handle_write node src buf mc)"
  using parse_rw_handler(2) [OF assms] assms(1)
  by (auto simp: handle_write_def Let_def start_deferred_outcome' rw_outcome_reply split: option.splits prod.splits)

lemma rw_commands_apart:
  assumes "is_read_cmd cmd \<or> is_write_cmd cmd"
  shows "cmd \<noteq> LCC_MEMCFG_GET_OPTIONS" "cmd \<noteq> LCC_MEMCFG_GET_SPACE_INFO" "cmd \<noteq> LCC_MEMCFG_UPDATE_COMPLETE"
    "cmd \<noteq> LCC_MEMCFG_REBOOT" "cmd \<noteq> LCC_MEMCFG_FACTORY_RESET"
  using assms by (auto simp: is_read_cmd_def is_write_cmd_def lcc_consts)

lemma pending_flags:
  "LCC_DATAGRAM_OK_REPLY_PENDING \<noteq> 0"
  "(LCC_DATAGRAM_OK_REPLY_PENDING OR LCC_MEMCFG_DEFER_TIMEOUT_EXP) AND LCC_DATAGRAM_OK_REPLY_PENDING \<noteq> 0"
  by (simp_all add: lcc_consts)

lemma handle_rw_outcome:
  assumes "\<not> length payload < 2" and "is_read_cmd (payload ! 1) \<or> is_write_cmd (payload ! 1)"
    and "parse_rw node payload mc = Inr rq"
  shows "rw_outcome node src (payload ! 1) (rq_space rq) (rq_addr rq) mc (lcc_memconfig_handle node src payload mc)"
proof (cases "is_read_cmd (payload ! 1)")
  case True
  then show ?thesis using assms(1) rw_commands_apart [OF assms(2)] handle_read_outcome [OF assms(3), of src]
    by (simp add: lcc_memconfig_handle_def Let_def)
next
  case False
  then show ?thesis using assms(1,2) rw_commands_apart [OF assms(2)] handle_write_outcome [OF assms(3), of src]
    by (simp add: lcc_memconfig_handle_def Let_def)
qed

lemma get_options_reply: "is_reply node src (handle_get_options node src mc)"
  by (auto simp: handle_get_options_def Let_def LCC_DATAGRAM_MAX_def intro!: is_reply_send split: prod.splits)

lemma get_space_info_reply: "3 \<le> length buf \<Longrightarrow> is_reply node src (handle_get_space_info node src buf mc)"
  by (auto simp: handle_get_space_info_def Let_def LCC_DATAGRAM_MAX_def intro!: is_reply_send split: option.splits)

text \<open>The request as its datagram gives it: node ID, requester, sub-command, space and address.\<close>

type_synonym request = "u64 \<times> u16 \<times> u8 \<times> u8 \<times> u32"

definition request_of :: "('t, 'w) mnode \<Rightarrow> u16 \<Rightarrow> u8 list \<Rightarrow> request" where
  "request_of node src payload =
     (case decode_space (payload ! 1) payload of (space, addr, offset) \<Rightarrow> (node_id node, src, payload ! 1, space, addr))"

lemma parse_rw_request: "parse_rw node payload mc = Inr rq \<Longrightarrow>
  request_of node src payload = (node_id node, src, payload ! 1, rq_space rq, rq_addr rq)"
  by (auto simp: parse_rw_def request_of_def Let_def split: if_splits option.splits prod.splits)

text \<open>
  A Memory Configuration datagram that is accepted with the Reply Pending flag is answered
  with exactly one reply datagram to its sender, at once or, when the one slot for deferred
  requests was free, by the request that now holds the slot; one accepted without the flag is
  answered with nothing, and neither touches a deferred request under way.
\<close>

lemma reply_pending_exact:
  assumes "lcc_memconfig_check node payload mc = Inr flags"
    and "lcc_memconfig_handle node src payload mc = (fs, mc')"
  shows "if flags AND LCC_DATAGRAM_OK_REPLY_PENDING \<noteq> 0
    then (is_reply node src fs \<and> df_state (g_deferred mc') = df_state (g_deferred mc) \<and>
          (df_state (g_deferred mc) \<noteq> DEFERRED_IDLE \<longrightarrow> g_deferred mc' = g_deferred mc)) \<or>
         (fs = [] \<and> df_state (g_deferred mc) = DEFERRED_IDLE \<and>
          (\<exists>space addr. request_of node src payload = (node_id node, src, payload ! 1, space, addr) \<and>
             handed_over node src (payload ! 1) space addr (g_deferred mc')))
    else fs = [] \<and> g_deferred mc' = g_deferred mc"
proof (cases "is_read_cmd (payload ! 1) \<or> is_write_cmd (payload ! 1)")
  case True
  with assms(1) obtain rq where "parse_rw node payload mc = Inr rq" and "\<not> length payload < 2"
    and "flags AND LCC_DATAGRAM_OK_REPLY_PENDING \<noteq> 0"
    by (auto simp: lcc_memconfig_check_def Let_def pending_flags split: if_splits sum.splits)
  with handle_rw_outcome [OF this(2) True this(1), of src] parse_rw_request [OF this(1), of src] assms(2) show ?thesis
    unfolding rw_outcome_def by auto
next
  case False
  consider "payload ! 1 = LCC_MEMCFG_GET_OPTIONS" | "payload ! 1 = LCC_MEMCFG_GET_SPACE_INFO"
    | "payload ! 1 = LCC_MEMCFG_UPDATE_COMPLETE" | "payload ! 1 = LCC_MEMCFG_REBOOT"
    | "payload ! 1 = LCC_MEMCFG_FACTORY_RESET"
    using False assms(1) by (auto simp: lcc_memconfig_check_def Let_def split: if_splits)
  then show ?thesis
  proof cases
    case 1
    then show ?thesis using assms False pending_flags get_options_reply [of node src mc]
      by (auto simp: lcc_memconfig_check_def lcc_memconfig_handle_def Let_def split: if_splits)
  next
    case 2
    then show ?thesis using assms False pending_flags get_space_info_reply [of payload node src mc]
      by (auto simp: lcc_memconfig_check_def lcc_memconfig_handle_def Let_def lcc_consts split: if_splits)
  qed (use assms False in \<open>auto simp: lcc_memconfig_check_def lcc_memconfig_handle_def Let_def lcc_consts
      handle_update_complete_def handle_reboot_def handle_factory_reset_def split: if_splits option.splits\<close>)
qed

lemma reply_pending_exact_witness:
  "let payload = [0x20, 0x84, 0xFD] in
   lcc_memconfig_check (bare_node 0x222) payload bare_memconfig = Inr 0x80 \<and>
   is_reply (bare_node 0x222) 0x111 (fst (lcc_memconfig_handle (bare_node 0x222) 0x111 payload bare_memconfig))"
proof -
  have c: "lcc_memconfig_check (bare_node 0x222) [0x20, 0x84, 0xFD] bare_memconfig = Inr 0x80"
    by (simp add: lcc_memconfig_check_def is_read_cmd_def is_write_cmd_def lcc_consts)
  moreover have "snd (lcc_memconfig_handle (bare_node 0x222) 0x111 [0x20, 0x84, 0xFD] bare_memconfig) = bare_memconfig"
    by (simp add: lcc_memconfig_handle_def lcc_consts)
  ultimately show ?thesis
    using reply_pending_exact [OF c surjective_pairing, of "0x111"]
    by (simp add: lcc_consts handed_over_def bare_memconfig_def)
qed

section \<open>Deferred requests over time\<close>

text \<open>What can happen to the slot: a datagram, the end of the operation, and the LCC task's flush.\<close>

datatype ('t, 'w) deferred_event =
    Datagram "('t, 'w) mnode" u16 "u8 list"
  | Completed u16 "u8 list option"
  | Flush

text \<open>The same with what the code did: whether the datagram was accepted, and the frames that were sent.\<close>

datatype ('t, 'w) deferred_entry =
    Rejected u16
  | Accepted "('t, 'w) mnode" u16 "u8 list" u8 "lcc_frame list"
  | Finished u16 "u8 list option"
  | Flushed "lcc_frame list"

definition deferred_step ::
  "(u64 \<Rightarrow> ('t, 'w) mnode) \<Rightarrow> ('t, 'w) deferred_event \<Rightarrow> 'w memconfig \<Rightarrow> ('t, 'w) deferred_entry \<times> 'w memconfig" where
  "deferred_step node_of e mc =
     (case e of
        Datagram node src payload \<Rightarrow>
          (case lcc_memconfig_check node payload mc of
             Inl error \<Rightarrow> (Rejected error, mc)
           | Inr flags \<Rightarrow>
               (case lcc_memconfig_handle node src payload mc of
                  (fs, mc') \<Rightarrow> (Accepted node src payload flags fs, mc')))
      | Completed error bytes \<Rightarrow> (Finished error bytes, lcc_memconfig_complete error bytes mc)
      | Flush \<Rightarrow> (case lcc_memconfig_flush_deferred node_of mc of (fs, mc') \<Rightarrow> (Flushed fs, mc')))"

fun deferred_run ::
  "(u64 \<Rightarrow> ('t, 'w) mnode) \<Rightarrow> ('t, 'w) deferred_event list \<Rightarrow> 'w memconfig \<Rightarrow> ('t, 'w) deferred_entry list \<times> 'w memconfig" where
  "deferred_run node_of [] mc = ([], mc)"
| "deferred_run node_of (e # es) mc =
     (case deferred_step node_of e mc of (x, mc1) \<Rightarrow>
        (case deferred_run node_of es mc1 of (xs, mc2) \<Rightarrow> (x # xs, mc2)))"

text \<open>
  What the requester may rely on, told without the code's state: \<open>held\<close> is the request that is being
  worked on, with its result once there is one. A datagram accepted with the Reply Pending flag is
  answered at once, or, when nothing is held, silently held; one without the flag is answered with
  nothing. The first completion gives the held request its result, others do nothing, and the
  flush after it sends this result, and nothing else, to the one who asked.
\<close>

type_synonym held = "(request \<times> (u16 \<times> u8 list) option) option"

definition result_reply :: "(u64 \<Rightarrow> ('t, 'w) mnode) \<Rightarrow> request \<Rightarrow> u16 \<times> u8 list \<Rightarrow> lcc_frame list" where
  "result_reply node_of r res = (case r of (n, src, cmd, space, addr) \<Rightarrow> send_reply (node_of n) src cmd space addr (fst res) (snd res))"

definition reply_owed :: "('t, 'w) deferred_entry \<Rightarrow> bool" where
  "reply_owed x \<longleftrightarrow> (case x of Accepted node src payload flags fs \<Rightarrow> flags AND LCC_DATAGRAM_OK_REPLY_PENDING \<noteq> 0 | _ \<Rightarrow> False)"

definition reply_sent :: "('t, 'w) deferred_entry \<Rightarrow> bool" where
  "reply_sent x \<longleftrightarrow> (case x of Accepted node src payload flags fs \<Rightarrow> fs \<noteq> [] | Flushed fs \<Rightarrow> fs \<noteq> [] | _ \<Rightarrow> False)"

inductive answers_as :: "(u64 \<Rightarrow> ('t, 'w) mnode) \<Rightarrow> held \<Rightarrow> ('t, 'w) deferred_entry \<Rightarrow> held \<Rightarrow> bool"
  for node_of where
  "answers_as node_of h (Rejected error) h"
| "flags AND LCC_DATAGRAM_OK_REPLY_PENDING = 0 \<Longrightarrow> answers_as node_of h (Accepted node src payload flags []) h"
| "flags AND LCC_DATAGRAM_OK_REPLY_PENDING \<noteq> 0 \<Longrightarrow> is_reply node src fs \<Longrightarrow>
    answers_as node_of h (Accepted node src payload flags fs) h"
| "flags AND LCC_DATAGRAM_OK_REPLY_PENDING \<noteq> 0 \<Longrightarrow>
    answers_as node_of None (Accepted node src payload flags []) (Some (request_of node src payload, None))"
| "answers_as node_of (Some (r, None)) (Finished error bytes)
    (Some (r, Some (error, case bytes of Some b \<Rightarrow> take DEFERRED_DATA_MAX b | None \<Rightarrow> [])))"
| "h = None \<or> h = Some (r, Some res) \<Longrightarrow> answers_as node_of h (Finished error bytes) h"
| "h = None \<or> h = Some (r, None) \<Longrightarrow> answers_as node_of h (Flushed []) h"
| "answers_as node_of (Some (r, Some res)) (Flushed (result_reply node_of r res)) None"

fun all_answered :: "(u64 \<Rightarrow> ('t, 'w) mnode) \<Rightarrow> held \<Rightarrow> ('t, 'w) deferred_entry list \<Rightarrow> held \<Rightarrow> bool" where
  "all_answered node_of h [] h' = (h = h')"
| "all_answered node_of h (x # xs) h' = (\<exists>h1. answers_as node_of h x h1 \<and> all_answered node_of h1 xs h')"

definition slot_request :: "deferred \<Rightarrow> request" where
  "slot_request d = (df_node d, df_src_alias d, df_cmd d, df_space d, df_addr d)"

definition held_in :: "'w memconfig \<Rightarrow> held" where
  "held_in mc = (case df_state (g_deferred mc) of
       DEFERRED_IDLE \<Rightarrow> None
     | DEFERRED_PENDING \<Rightarrow> Some (slot_request (g_deferred mc), None)
     | DEFERRED_DONE \<Rightarrow> Some (slot_request (g_deferred mc), Some (df_error (g_deferred mc), df_data (g_deferred mc))))"

lemma send_reply_sends: "send_reply node src cmd space addr error bytes \<noteq> []"
  by (auto simp: send_reply_def lcc_datagram_send_def read_write_reply_def Let_def)

lemma is_reply_sends: "is_reply node src fs \<Longrightarrow> fs \<noteq> []"
  by (auto simp: is_reply_def lcc_datagram_send_def split: if_splits)

lemma datagram_answers_as:
  assumes "lcc_memconfig_check node payload mc = Inr flags"
    and "lcc_memconfig_handle node src payload mc = (fs, mc')"
  shows "answers_as node_of (held_in mc) (Accepted node src payload flags fs) (held_in mc')"
proof -
  note exact = reply_pending_exact [OF assms]
  show ?thesis
  proof (cases "flags AND LCC_DATAGRAM_OK_REPLY_PENDING = 0")
    case True
    then have fs: "fs = []" and g: "g_deferred mc' = g_deferred mc" using exact by simp_all
    have "held_in mc' = held_in mc" unfolding held_in_def g by simp
    then show ?thesis using True by (simp add: fs answers_as.intros(2))
  next
    case pending: False
    show ?thesis
    proof (cases "is_reply node src fs")
      case True
      then have "held_in mc' = held_in mc" using exact pending is_reply_sends [OF True]
        by (cases "df_state (g_deferred mc)") (auto simp: held_in_def)
      then show ?thesis using pending True by (simp add: answers_as.intros(3))
    next
      case False
      then have fs: "fs = []" "df_state (g_deferred mc) = DEFERRED_IDLE" using exact pending by auto
      then have "held_in mc' = Some (request_of node src payload, None)" "held_in mc = None"
        using exact pending False by (auto simp: held_in_def handed_over_def slot_request_def)
      then show ?thesis using pending fs(1) by (simp add: answers_as.intros(4))
    qed
  qed
qed

lemma deferred_step_answers:
  "deferred_step node_of e mc = (x, mc') \<Longrightarrow> answers_as node_of (held_in mc) x (held_in mc')"
proof (cases e)
  case (Datagram node src payload)
  assume "deferred_step node_of e mc = (x, mc')"
  then show ?thesis
    by (auto simp: Datagram deferred_step_def answers_as.intros(1) intro: datagram_answers_as split: sum.splits prod.splits)
next
  case (Completed error bytes)
  assume "deferred_step node_of e mc = (x, mc')"
  then have x: "x = Finished error bytes" "mc' = lcc_memconfig_complete error bytes mc" by (simp_all add: Completed deferred_step_def)
  show ?thesis
  proof (cases "df_state (g_deferred mc)")
    case DEFERRED_PENDING
    then show ?thesis using answers_as.intros(5) [of node_of "slot_request (g_deferred mc)" error bytes]
      by (simp add: x lcc_memconfig_complete_def held_in_def slot_request_def)
  qed (simp_all add: x lcc_memconfig_complete_def held_in_def answers_as.intros(6))
next
  case Flush
  assume "deferred_step node_of e mc = (x, mc')"
  then have x: "x = Flushed (fst (lcc_memconfig_flush_deferred node_of mc))" "mc' = snd (lcc_memconfig_flush_deferred node_of mc)"
    by (auto simp: Flush deferred_step_def split: prod.splits)
  show ?thesis
  proof (cases "df_state (g_deferred mc)")
    case DEFERRED_DONE
    then show ?thesis
      using answers_as.intros(8) [of node_of "slot_request (g_deferred mc)" "(df_error (g_deferred mc), df_data (g_deferred mc))"]
      by (simp add: x lcc_memconfig_flush_deferred_def held_in_def slot_request_def result_reply_def Let_def)
  qed (simp_all add: x lcc_memconfig_flush_deferred_def held_in_def answers_as.intros(7) Let_def)
qed

inductive_cases answers_asE: "answers_as node_of h x h'"

lemma answers_as_count:
  "answers_as node_of h x h' \<Longrightarrow>
   (if reply_sent x then 1 else 0) + (if h' = None then 0 else 1) = (if reply_owed x then 1 else 0) + (if h = None then 0 else (1 :: nat))"
  by (erule answers_asE)
    (auto simp: reply_sent_def reply_owed_def result_reply_def is_reply_sends send_reply_sends split: prod.splits)

lemma all_answered_count:
  "all_answered node_of h xs h' \<Longrightarrow>
   length (filter reply_sent xs) + (if h' = None then 0 else 1) = length (filter reply_owed xs) + (if h = None then 0 else 1)"
proof (induction xs arbitrary: h)
  case (Cons x xs)
  then obtain h1 where 1: "answers_as node_of h x h1" "all_answered node_of h1 xs h'" by auto
  from answers_as_count [OF 1(1)] Cons.IH [OF 1(2)] show ?case by (auto split: if_splits)
qed simp

text \<open>
  C9: Whatever datagrams, completions (repeated ones and ones nobody waits for included) and
  flushes come in whatever order, and counting every frame that is sent, those sent while a datagram
  is handled included: each request accepted with the Reply Pending flag gets exactly one reply, and nothing
  else is sent. It gets it at once, or it is silently held, which it can be only while no other is; then
  the first completion decides the reply, and the next flush sends it to the requester, with
  the request's space and address and the completion's error and bytes. At most one request is
  still without its reply in the end, exactly when the slot is taken.
\<close>

theorem deferred_answered_once:
  fixes mc :: "'w memconfig" and node_of :: "u64 \<Rightarrow> ('t, 'w) mnode"
  assumes "deferred_run node_of es mc = (log, mc')"
  shows "all_answered node_of (held_in mc) log (held_in mc') \<and>
    length (filter reply_sent log) + (if lcc_memconfig_deferred_pending mc' then 1 else 0) =
      length (filter reply_owed log) + (if lcc_memconfig_deferred_pending mc then 1 else 0)"
proof -
  have "all_answered node_of (held_in mc) log (held_in mc')"
    using assms
  proof (induction es arbitrary: mc log)
    case (Cons e es)
    then show ?case using deferred_step_answers [of node_of e mc] by (fastforce split: prod.splits)
  qed simp
  moreover have "held_in mc = None \<longleftrightarrow> \<not> lcc_memconfig_deferred_pending mc" for mc :: "'w memconfig"
    by (simp add: held_in_def lcc_memconfig_deferred_pending_def split: deferred_state.split)
  ultimately show ?thesis using all_answered_count [of node_of "held_in mc" log "held_in mc'"] by (simp split: if_splits)
qed

text \<open>
  A node with a programming space whose requests are all deferred: one request, a second one while it is held, its
  completion twice, its answer.
\<close>

definition deferring_node :: "(unit, unit) mnode" where
  "deferring_node = (bare_node 0x222)\<lparr>node_spaces := [\<lparr>ms_space = 0xF8, ms_size = 1024, ms_read_only = False,
     ms_read = None, ms_write = None, ms_update_complete = None, ms_defer = Some (\<lambda>n rq w. (0, w))\<rparr>]\<rparr>"

definition read_cv1 :: "u8 list" where "read_cv1 = [0x20, 0x40, 0, 0, 0, 0, 0xF8, 1]"

definition deferred_events :: "(unit, unit) deferred_event list" where
  "deferred_events = [Datagram deferring_node 0x111 read_cv1, Datagram deferring_node 0x333 read_cv1,
     Completed 0 (Some [3]), Completed 0x2000 None, Flush]"

lemma deferred_answered_once_witness:
  "let log = fst (deferred_run (\<lambda>n. deferring_node) deferred_events bare_memconfig) in
   length (filter reply_owed log) = 2 \<and> length (filter reply_sent log) = 2"
proof -
  let ?r = "deferred_run (\<lambda>n. deferring_node) deferred_events bare_memconfig"
  have 1: "\<not> lcc_memconfig_deferred_pending (snd ?r) \<and> length (filter reply_owed (fst ?r)) = 2"
    by (simp add: deferred_events_def deferred_step_def read_cv1_def deferring_node_def bare_defs
        lcc_memconfig_check_def lcc_memconfig_handle_def handle_read_def start_deferred_def parse_rw_def decode_space_def
        is_read_cmd_def is_write_cmd_def find_space_def lcc_consts lcc_memconfig_deferred_pending_def be32_def
        lcc_memconfig_complete_def lcc_memconfig_flush_deferred_def Let_def reply_owed_def)
  have 2: "\<not> lcc_memconfig_deferred_pending bare_memconfig" by (simp add: bare_memconfig_def lcc_memconfig_deferred_pending_def)
  show ?thesis using deferred_answered_once [OF surjective_pairing, of "\<lambda>n. deferring_node" bare_memconfig deferred_events] 1 2
    unfolding Let_def by simp
qed

section \<open>Spaces that hold bytes\<close>

text \<open>The contents of a store after bytes have been written at an address.\<close>

definition patch :: "u8 list \<Rightarrow> nat \<Rightarrow> u8 list \<Rightarrow> u8 list" where
  "patch xs a bs = take a xs @ bs @ drop (a + length bs) xs"

lemma patch_length [simp]: "a + length bs \<le> length xs \<Longrightarrow> length (patch xs a bs) = length xs"
  by (simp add: patch_def)

lemma patch_nil [simp]: "patch xs a [] = xs"
  by (simp add: patch_def)

lemma patch_append:
  assumes "a + length bs \<le> length xs"
  shows "patch (patch xs a bs) (a + length bs) cs = patch xs a (bs @ cs)"
proof -
  have "take (a + length bs) (patch xs a bs) = take a xs @ bs"
    using assms by (simp add: patch_def)
  moreover have "drop (a + length bs + length cs) (patch xs a bs) = drop (a + (length bs + length cs)) xs"
    using assms by (cases bs) (simp_all add: patch_def min_def ac_simps)
  ultimately show ?thesis by (simp add: patch_def [of "patch xs a bs"]) (simp add: patch_def)
qed

lemma take_min_length: "take (min n (length xs)) xs = take n xs"
  by (simp add: min_def)

lemma patch_read: "a + length bs \<le> length xs \<Longrightarrow> take (length bs) (drop a (patch xs a bs)) = bs"
  by (simp add: patch_def)

lemma patch_outside:
  assumes "a + length bs \<le> length xs" and "i < a \<or> a + length bs \<le> i" and "i < length xs"
  shows "patch xs a bs ! i = xs ! i"
  using assms by (auto simp: patch_def nth_append)

text \<open>
  What the protocol needs of the read handler of a space that is an array of bytes, in the
  states \<open>ok\<close> of the program: \<open>contents\<close> is the array.
\<close>

locale readable_space =
  fixes ok :: "'w \<Rightarrow> bool"
    and contents :: "'w \<Rightarrow> u8 list"
    and space_size :: u32
    and read_fn :: "u64 \<Rightarrow> u32 \<Rightarrow> nat \<Rightarrow> 'w \<Rightarrow> (u8 list \<times> u16) \<times> 'w"
  assumes contents_length: "ok w \<Longrightarrow> length (contents w) = unat space_size"
    and size_bound: "unat space_size < 2 ^ 31"
    and read_bytes: "ok w \<Longrightarrow> addr < space_size \<Longrightarrow> 0 < count \<Longrightarrow> count < 256 \<Longrightarrow>
      read_fn node addr count w = ((take count (drop (unat addr) (contents w)), 0), w)"
begin

lemma add_no_wrap:
  assumes "addr < space_size" and "count < 256"
  shows "unat (addr + of_nat count) = unat addr + count"
proof -
  have "unat (of_nat count :: u32) = count" using assms(2) by (simp add: unat_of_nat_less)
  moreover have "unat addr + count < 2 ^ 32"
    using assms size_bound by (simp add: word_less_nat_alt)
  ultimately show ?thesis by (subst unat_add_lem [THEN iffD1]) simp_all
qed

lemma room_cast:
  assumes "addr < space_size" and "unat space_size < unat addr + count" and "count < 256"
  shows "unat (u8_of (space_size - addr)) = unat space_size - unat addr"
proof -
  have "unat (space_size - addr) = unat space_size - unat addr"
    using assms(1) by (simp add: unat_sub word_le_nat_alt word_less_nat_alt)
  moreover have "unat (u8_of (space_size - addr)) = unat (space_size - addr) mod 256"
    by (simp add: unsigned_ucast_eq take_bit_eq_mod)
  ultimately show ?thesis using assms by (simp add: word_less_nat_alt)
qed

lemma past_end_iff:
  assumes "addr < space_size" and "count < 256"
  shows "addr + of_nat count > space_size \<longleftrightarrow> unat space_size < unat addr + count"
  using add_no_wrap [OF assms] by (simp add: word_less_nat_alt)

lemma read_count_room:
  assumes "ms_size h = space_size" and "count < 256"
  shows "read_count h addr count = min (min count (unat space_size - unat addr)) DEFERRED_DATA_MAX"
proof (cases "addr < space_size")
  case True
  then show ?thesis
    using past_end_iff [OF True assms(2)] room_cast [OF True _ assms(2)] assms(1)
    by (auto simp: read_count_def Let_def min_def)
next
  case False
  then show ?thesis using assms(1) by (simp add: read_count_def word_less_nat_alt word_le_nat_alt)
qed

lemma parsed_count: "parse_rw node buf mc = Inr rq \<Longrightarrow> is_read_cmd (buf ! 1) \<Longrightarrow> rq_count rq < 256"
  using unsigned_less [where 'b = 8 and 'a = nat]
  by (auto simp: parse_rw_def Let_def split: if_splits prod.splits option.splits)

text \<open>A read is answered with the bytes there are, as many as asked for, fit and exist.\<close>

lemma read_answer:
  assumes rq: "parse_rw node buf mc = Inr rq" "is_read_cmd (buf ! 1)"
    and h: "ms_read (rq_h rq) = Some read_fn" "ms_size (rq_h rq) = space_size"
    and ok: "ok (the_rest mc)"
  shows "handle_read node src buf mc = (send_reply node src (buf ! 1) (rq_space rq) (rq_addr rq) 0
    (take (min (rq_count rq) DEFERRED_DATA_MAX) (drop (unat (rq_addr rq)) (contents (the_rest mc)))), mc)"
proof -
  let ?c = "read_count (rq_h rq) (rq_addr rq) (rq_count rq)"
  let ?bs = "drop (unat (rq_addr rq)) (contents (the_rest mc))"
  have count: "rq_count rq < 256" by (rule parsed_count [OF rq])
  have c: "?c = min (min (rq_count rq) (unat space_size - unat (rq_addr rq))) DEFERRED_DATA_MAX"
    by (rule read_count_room [OF h(2) count])
  have "call_read read_fn (node_id node) (rq_addr rq) ?c (the_rest mc) = ((take ?c ?bs, 0), the_rest mc)"
  proof (cases "0 < ?c")
    case True
    with c have "rq_addr rq < space_size" "?c < 256"
      using count by (auto simp: word_less_nat_alt min_def split: if_splits)
    with True ok show ?thesis by (simp add: call_read_def read_bytes)
  qed (simp add: call_read_def)
  moreover have "take ?c ?bs = take (min (rq_count rq) DEFERRED_DATA_MAX) ?bs"
    unfolding c using take_min_length [of "min (rq_count rq) DEFERRED_DATA_MAX" ?bs] contents_length [OF ok]
    by (simp add: ac_simps)
  moreover have "min ?c (min (rq_count rq) DEFERRED_DATA_MAX) = ?c"
    unfolding c by simp
  ultimately show ?thesis using rq h
    by (simp add: handle_read_def Let_def LCC_MEMCFG_DEFER_def)
qed

end

text \<open>
  A space that can be written from the address \<open>first_addr\<close> on: the handler takes at least one
  byte of what fits.
\<close>

locale byte_store = readable_space +
  fixes first_addr :: u32
    and write_fn :: "u64 \<Rightarrow> u32 \<Rightarrow> u8 list \<Rightarrow> 'w \<Rightarrow> (nat \<times> u16) \<times> 'w"
  assumes write_bytes: "ok w \<Longrightarrow> first_addr \<le> addr \<Longrightarrow> bytes \<noteq> [] \<Longrightarrow> length bytes < 256 \<Longrightarrow>
      unat addr + length bytes \<le> unat space_size \<Longrightarrow>
      \<exists>n w'. write_fn node addr bytes w = ((n, 0), w') \<and> 0 < n \<and> n \<le> length bytes \<and> ok w' \<and>
        contents w' = patch (contents w) (unat addr) (take n bytes)"
begin

lemma write_loop_stores:
  assumes "ok w" and "first_addr \<le> addr" and "length bytes < 256" and "unat addr + length bytes \<le> unat space_size"
  shows "\<exists>w'. write_loop write_fn node addr bytes w = (0, w') \<and> ok w' \<and>
    contents w' = patch (contents w) (unat addr) bytes"
  using assms
proof (induction "length bytes" arbitrary: bytes addr w rule: less_induct)
  case less
  show ?case
  proof (cases "bytes = []")
    case False
    obtain n w1 where w1: "write_fn node addr bytes w = ((n, 0), w1)" "0 < n" "n \<le> length bytes" "ok w1"
      "contents w1 = patch (contents w) (unat addr) (take n bytes)"
      using write_bytes [OF less.prems(1,2) False less.prems(3,4)] by blast
    have "addr < space_size" using False less.prems(4) by (cases bytes) (simp_all add: word_less_nat_alt)
    with w1(3) less.prems(3) have a: "unat (addr + of_nat n) = unat addr + n" by (simp add: add_no_wrap)
    then have "first_addr \<le> addr + of_nat n" using less.prems(2) by (simp add: word_le_nat_alt)
    moreover have "length (drop n bytes) < length bytes" "length (drop n bytes) < 256"
      "unat (addr + of_nat n) + length (drop n bytes) \<le> unat space_size"
      using a w1(2,3) False less.prems(3,4) by (simp_all add: diff_less)
    ultimately obtain w2 where w2: "write_loop write_fn node (addr + of_nat n) (drop n bytes) w1 = (0, w2)" "ok w2"
      "contents w2 = patch (contents w1) (unat (addr + of_nat n)) (drop n bytes)"
      using less.hyps w1(4) by blast
    have "contents w2 = patch (contents w) (unat addr) bytes"
      using w2(3) patch_append [of "unat addr" "take n bytes" "contents w" "drop n bytes"] w1(3,5) a less.prems(1,4)
      by (simp add: contents_length min.absorb2)
    with w1 w2 False show ?thesis by (subst write_loop.simps) (simp add: Let_def)
  qed (use less.prems(1) in \<open>simp add: write_loop.simps\<close>)
qed

lemma in_bounds_room:
  assumes "ms_size h = space_size" and "addr < space_size" and "count < 256"
  shows "in_bounds h addr count = min count (unat space_size - unat addr)"
  using past_end_iff [OF assms(2,3)] room_cast [OF assms(2) _ assms(3)] assms(1)
  by (auto simp: in_bounds_def min_def)

text \<open>A write stores what fits, and the reply says whether that was all.\<close>

lemma write_answer:
  assumes rq: "parse_rw node buf mc = Inr rq" "\<not> is_read_cmd (buf ! 1)" "length buf < 256"
    and h: "ms_write (rq_h rq) = Some write_fn" "ms_size (rq_h rq) = space_size"
    and ok: "ok (the_rest mc)" and "first_addr \<le> rq_addr rq"
  shows "\<exists>w'. handle_write node src buf mc = (send_reply node src (buf ! 1) (rq_space rq) (rq_addr rq)
      (if unat (rq_addr rq) + rq_count rq \<le> unat space_size then 0 else LCC_ERR_OUT_OF_BOUNDS) [], mc\<lparr>the_rest := w'\<rparr>) \<and>
    ok w' \<and> contents w' = patch (contents (the_rest mc)) (unat (rq_addr rq))
      (take (unat space_size - unat (rq_addr rq)) (rq_data rq))"
proof -
  have addr: "rq_addr rq < space_size" and d: "length (rq_data rq) = rq_count rq" "rq_count rq < 256"
    using rq h by (auto simp: parse_rw_def Let_def split: if_splits prod.splits option.splits)
  let ?fit = "in_bounds (rq_h rq) (rq_addr rq) (rq_count rq)"
  have fit: "?fit = min (rq_count rq) (unat space_size - unat (rq_addr rq))"
    by (rule in_bounds_room [OF h(2) addr d(2)])
  then have data: "take ?fit (rq_data rq) = take (unat space_size - unat (rq_addr rq)) (rq_data rq)"
    by (simp add: d(1) [symmetric] min_def)
  have "unat (rq_addr rq) < unat space_size" using addr by (simp add: word_less_nat_alt)
  with fit d have len: "length (take ?fit (rq_data rq)) < 256"
    "unat (rq_addr rq) + length (take ?fit (rq_data rq)) \<le> unat space_size"
    by (auto simp: min_def)
  obtain w' where "write_loop write_fn (node_id node) (rq_addr rq) (take ?fit (rq_data rq)) (the_rest mc) = (0, w')"
    "ok w'" "contents w' = patch (contents (the_rest mc)) (unat (rq_addr rq)) (take ?fit (rq_data rq))"
    using write_loop_stores [OF ok assms(7) len] by blast
  moreover have "?fit < rq_count rq \<longleftrightarrow> \<not> unat (rq_addr rq) + rq_count rq \<le> unat space_size"
    using fit \<open>unat (rq_addr rq) < unat space_size\<close> by auto
  ultimately show ?thesis using rq(1) h data
    by (intro exI [of _ w']) (simp add: handle_write_def Let_def)
qed

end

end
