(* ===== verification/Lcc_Datagram_Rx.thy ===== *)
theory Lcc_Datagram_Rx
  imports Lcc_Memconfig
begin



text \<open>
  The receiving side of \<^verbatim>\<open>src/src/lcc/lcc_datagram.c\<close>: dispatch of a complete datagram and
  the reassembly of its frames in the node's buffer.
\<close>

text \<open>The frames sent, whether the datagram was accepted, and the state after it.\<close>

definition lcc_datagram_dispatch ::
  "('t, 'w) mnode \<Rightarrow> u16 \<Rightarrow> u8 list \<Rightarrow> 'w memconfig \<Rightarrow> bool \<times> lcc_frame list \<times> 'w memconfig" where
  "lcc_datagram_dispatch node src_alias payload mc =
     (if length payload < 1 then (False, lcc_datagram_send_rejected node src_alias LCC_ERR_PERMANENT, mc)
      else if payload ! 0 = LCC_MEMCONFIG_CMD
      then (case lcc_memconfig_check node payload mc of
              Inl error \<Rightarrow> (False, lcc_datagram_send_rejected node src_alias error, mc)
            | Inr flags \<Rightarrow>
                (case lcc_memconfig_handle node src_alias payload mc of
                   (fs, mc') \<Rightarrow> (True, lcc_datagram_send_ok_flags node src_alias flags @ fs, mc')))
      else (False, lcc_datagram_send_rejected node src_alias LCC_ERR_UNIMPLEMENTED_CMD, mc))"

definition reset_rx :: "lcc_datagram_rx \<Rightarrow> lcc_datagram_rx" where
  "reset_rx dg = dg\<lparr>dg_active := False, dg_buf := []\<rparr>"

text \<open>A dispatch from \<open>lcc_datagram_handle_frame\<close>, which then resets the buffer.\<close>

definition dispatch_and_reset ::
  "('t, 'w) mnode \<Rightarrow> u16 \<Rightarrow> u8 list \<Rightarrow> 'w memconfig \<Rightarrow> lcc_frame list \<times> ('t, 'w) mnode \<times> 'w memconfig" where
  "dispatch_and_reset node src bytes mc =
     (case lcc_datagram_dispatch node src bytes mc of
        (_, fs, mc') \<Rightarrow> (fs, node\<lparr>dg_rx := reset_rx (dg_rx node)\<rparr>, mc'))"

definition lcc_datagram_handle_frame ::
  "('t, 'w) mnode \<Rightarrow> lcc_frame \<Rightarrow> 'w memconfig \<Rightarrow> lcc_frame list \<times> ('t, 'w) mnode \<times> 'w memconfig" where
  "lcc_datagram_handle_frame node frame mc =
     (let ftype = lcc_get_can_frame_type (fr_id frame); src = lcc_get_src (fr_id frame); dg = dg_rx node
      in if ftype = LCC_FRAME_DATAGRAM_ONE then dispatch_and_reset node src (fr_data frame) mc
         else if ftype = LCC_FRAME_DATAGRAM_FIRST
         then ([], node\<lparr>dg_rx := \<lparr>dg_src_alias = src,
                        dg_buf = (if dlc frame \<le> LCC_DATAGRAM_MAX then fr_data frame else []),
                        dg_active = True\<rparr>\<rparr>, mc)
         else if ftype = LCC_FRAME_DATAGRAM_MIDDLE \<or> ftype = LCC_FRAME_DATAGRAM_FINAL
         then (if \<not> dg_active dg \<or> dg_src_alias dg \<noteq> src
               then (lcc_datagram_send_rejected node src LCC_ERR_OUT_OF_ORDER, node, mc)
               else if length (dg_buf dg) + dlc frame > LCC_DATAGRAM_MAX
               then (lcc_datagram_send_rejected node src LCC_ERR_PERMANENT, node\<lparr>dg_rx := reset_rx dg\<rparr>, mc)
               else let buf = dg_buf dg @ fr_data frame; node = node\<lparr>dg_rx := dg\<lparr>dg_buf := buf\<rparr>\<rparr>
               in if ftype = LCC_FRAME_DATAGRAM_MIDDLE then ([], node, mc)
                  else dispatch_and_reset node src buf mc)
         else ([], node, mc))"

section \<open>Reassembly\<close>

text \<open>The frames of one node's datagram traffic, one after the other.\<close>

primrec receive_frames ::
  "lcc_frame list \<Rightarrow> ('t, 'w) mnode \<Rightarrow> 'w memconfig \<Rightarrow> lcc_frame list \<times> ('t, 'w) mnode \<times> 'w memconfig" where
  "receive_frames [] node mc = ([], node, mc)"
| "receive_frames (f # fs) node mc =
     (case lcc_datagram_handle_frame node f mc of
        (out, node, mc) \<Rightarrow> (case receive_frames fs node mc of (out', r) \<Rightarrow> (out @ out', r)))"

text \<open>Dispatch does not look at the reassembly buffer.\<close>

lemma sending_ignores_buffer [simp]:
  "node_id (node\<lparr>dg_rx := d\<rparr>) = node_id node"
  "node_spaces (node\<lparr>dg_rx := d\<rparr>) = node_spaces node"
  "find_space (node\<lparr>dg_rx := d\<rparr>) = find_space node"
  "factory_reset_confirmed (node\<lparr>dg_rx := d\<rparr>) = factory_reset_confirmed node"
  "lcc_datagram_send (node\<lparr>dg_rx := d\<rparr>) = lcc_datagram_send node"
  "lcc_datagram_send_ok_flags (node\<lparr>dg_rx := d\<rparr>) = lcc_datagram_send_ok_flags node"
  "lcc_datagram_send_rejected (node\<lparr>dg_rx := d\<rparr>) = lcc_datagram_send_rejected node"
  by (simp_all add: fun_eq_iff find_space_def factory_reset_confirmed_def lcc_datagram_send_def
      lcc_datagram_send_ok_flags_def lcc_datagram_send_rejected_def)

lemma parse_ignores_buffer [simp]: "parse_rw (node\<lparr>dg_rx := d\<rparr>) = parse_rw node"
  unfolding fun_eq_iff parse_rw_def sending_ignores_buffer by simp

lemma reply_ignores_buffer [simp]: "send_reply (node\<lparr>dg_rx := d\<rparr>) = send_reply node"
  unfolding fun_eq_iff send_reply_def sending_ignores_buffer by simp

lemma start_ignores_buffer [simp]: "start_deferred (node\<lparr>dg_rx := d\<rparr>) = start_deferred node"
  unfolding fun_eq_iff start_deferred_def reply_ignores_buffer by simp

lemma handlers_ignore_buffer [simp]:
  "handle_read (node\<lparr>dg_rx := d\<rparr>) = handle_read node"
  "handle_write (node\<lparr>dg_rx := d\<rparr>) = handle_write node"
  unfolding fun_eq_iff handle_read_def handle_write_def parse_ignores_buffer reply_ignores_buffer start_ignores_buffer
    sending_ignores_buffer by blast+

lemma memconfig_ignores_buffer [simp]:
  "lcc_memconfig_check (node\<lparr>dg_rx := d\<rparr>) = lcc_memconfig_check node"
  "lcc_memconfig_handle (node\<lparr>dg_rx := d\<rparr>) = lcc_memconfig_handle node"
  unfolding fun_eq_iff lcc_memconfig_check_def lcc_memconfig_handle_def handle_get_options_def handle_get_space_info_def
    handle_update_complete_def handle_factory_reset_def parse_ignores_buffer handlers_ignore_buffer sending_ignores_buffer
  by blast+

lemma dispatch_ignores_buffer [simp]: "lcc_datagram_dispatch (node\<lparr>dg_rx := d\<rparr>) = lcc_datagram_dispatch node"
  unfolding fun_eq_iff lcc_datagram_dispatch_def memconfig_ignores_buffer sending_ignores_buffer by simp

text \<open>
  Frames of other senders. A MIDDLE or FINAL frame does not belong to the datagram in the buffer and
  is rejected; a FIRST frame takes the buffer over and a ONE frame resets it; frames of other types
  are not looked at.
\<close>

definition takes_buffer :: "lcc_frame \<Rightarrow> bool" where
  "takes_buffer f \<longleftrightarrow> lcc_get_can_frame_type (fr_id f) = LCC_FRAME_DATAGRAM_ONE \<or>
     lcc_get_can_frame_type (fr_id f) = LCC_FRAME_DATAGRAM_FIRST"

definition stray_answer :: "('t, 'w) mnode \<Rightarrow> lcc_frame \<Rightarrow> lcc_frame list" where
  "stray_answer node f =
     (if lcc_get_can_frame_type (fr_id f) = LCC_FRAME_DATAGRAM_MIDDLE \<or> lcc_get_can_frame_type (fr_id f) = LCC_FRAME_DATAGRAM_FINAL
      then lcc_datagram_send_rejected node (lcc_get_src (fr_id f)) LCC_ERR_OUT_OF_ORDER else [])"

definition holds_for :: "u16 \<Rightarrow> ('t, 'w) mnode \<Rightarrow> bool" where
  "holds_for src node \<longleftrightarrow> dg_active (dg_rx node) \<and> dg_src_alias (dg_rx node) = src"

lemma stray_answer_buffer [simp]: "stray_answer (node\<lparr>dg_rx := d\<rparr>) = stray_answer node"
  by (simp add: stray_answer_def fun_eq_iff)

lemma handle_stray:
  "lcc_get_src (fr_id f) \<noteq> src \<Longrightarrow> \<not> takes_buffer f \<Longrightarrow> holds_for src node \<Longrightarrow>
   lcc_datagram_handle_frame node f mc = (stray_answer node f, node, mc)"
  by (auto simp: lcc_datagram_handle_frame_def takes_buffer_def stray_answer_def holds_for_def Let_def)

lemma handle_keeps_rest: "\<exists>d. fst (snd (lcc_datagram_handle_frame node f mc)) = node\<lparr>dg_rx := d\<rparr>"
proof -
  have same: "\<exists>d. node = node\<lparr>dg_rx := d\<rparr>" by (intro exI [of _ "dg_rx node"]) simp
  have upd: "\<exists>d. node\<lparr>dg_rx := d'\<rparr> = node\<lparr>dg_rx := d\<rparr>" for d' by blast
  have ends: "fst (snd (dispatch_and_reset n src bytes mc)) = n\<lparr>dg_rx := reset_rx (dg_rx n)\<rparr>" for n src bytes
    by (simp add: dispatch_and_reset_def split: prod.split)
  show ?thesis unfolding lcc_datagram_handle_frame_def Let_def by (simp add: same upd ends)
qed

lemma receive_keeps_rest: "\<exists>d. fst (snd (receive_frames fs node mc)) = node\<lparr>dg_rx := d\<rparr>"
proof (induction fs arbitrary: node mc)
  case Nil
  show ?case by (intro exI [of _ "dg_rx node"]) simp
next
  case (Cons f fs)
  obtain o1 n1 m1 where 1: "lcc_datagram_handle_frame node f mc = (o1, n1, m1)" by (rule prod_cases3)
  obtain d where "n1 = node\<lparr>dg_rx := d\<rparr>" using handle_keeps_rest [of node f mc] 1 by auto
  moreover obtain d' where "fst (snd (receive_frames fs n1 m1)) = n1\<lparr>dg_rx := d'\<rparr>" using Cons.IH by blast
  ultimately have "fst (snd (receive_frames (f # fs) node mc)) = node\<lparr>dg_rx := d'\<rparr>" by (simp add: 1 split_beta)
  then show ?case by blast
qed

text \<open>Once the buffer is lost, MIDDLE frames of the sender and frames of others do not bring it back.\<close>

lemma takes_away: "lcc_get_src (fr_id f) \<noteq> src \<Longrightarrow> takes_buffer f \<Longrightarrow>
    \<not> holds_for src (fst (snd (lcc_datagram_handle_frame node f mc)))"
  by (auto simp: lcc_datagram_handle_frame_def takes_buffer_def holds_for_def dispatch_and_reset_def reset_rx_def Let_def
      split: prod.splits)

lemma stays_lost:
  assumes "\<forall>f\<in>set fs. lcc_get_src (fr_id f) = src \<longrightarrow> lcc_get_can_frame_type (fr_id f) = LCC_FRAME_DATAGRAM_MIDDLE"
    and "\<not> holds_for src node"
  shows "\<not> holds_for src (fst (snd (receive_frames fs node mc)))"
  using assms
proof (induction fs arbitrary: node mc)
  case (Cons f fs)
  obtain o1 n1 m1 where 1: "lcc_datagram_handle_frame node f mc = (o1, n1, m1)" by (rule prod_cases3)
  have "\<not> holds_for src n1" using 1 Cons.prems
    by (auto simp: lcc_datagram_handle_frame_def holds_for_def dispatch_and_reset_def reset_rx_def Let_def lcc_consts
        split: prod.splits if_splits)
  with Cons.IH [of n1 m1] Cons.prems(1) show ?case by (simp add: 1 split_beta)
qed simp

lemma receive_append:
  "receive_frames (fs @ gs) node mc = (case receive_frames fs node mc of (out, node1, mc1) \<Rightarrow>
     (case receive_frames gs node1 mc1 of (out', r) \<Rightarrow> (out @ out', r)))"
  by (induction fs arbitrary: node mc) (simp_all add: split_beta)

lemma loses_buffer:
  assumes "f \<in> set fs" and "takes_buffer f" and "lcc_get_src (fr_id f) \<noteq> src"
    and "\<forall>f\<in>set fs. lcc_get_src (fr_id f) = src \<longrightarrow> lcc_get_can_frame_type (fr_id f) = LCC_FRAME_DATAGRAM_MIDDLE"
  shows "\<not> holds_for src (fst (snd (receive_frames fs node mc)))"
proof -
  obtain pre post where fs: "fs = pre @ f # post" using assms(1) by (auto simp: in_set_conv_decomp)
  obtain o1 n1 m1 where 1: "receive_frames pre node mc = (o1, n1, m1)" by (rule prod_cases3)
  obtain o2 n2 m2 where 2: "lcc_datagram_handle_frame n1 f m1 = (o2, n2, m2)" by (rule prod_cases3)
  have "\<not> holds_for src n2" using takes_away [OF assms(3,2), of n1 m1] 2 by simp
  then have "\<not> holds_for src (fst (snd (receive_frames post n2 m2)))" using assms(4) fs by (intro stays_lost) auto
  then show ?thesis by (simp add: fs receive_append 1 2 split_beta)
qed

lemma loop_step:
  assumes "length payload > 8"
  shows "datagram_loop dst src payload =
    \<lparr>fr_id = lcc_frame_datagram_id LCC_FRAME_DATAGRAM_MIDDLE dst src, fr_data = take 8 payload\<rparr> #
    datagram_loop dst src (drop 8 payload)"
  using assms by (subst datagram_loop.simps) (auto simp: Let_def)

lemma loop_end:
  assumes "length payload \<le> 8" and "payload \<noteq> []"
  shows "datagram_loop dst src payload =
    [\<lparr>fr_id = lcc_frame_datagram_id LCC_FRAME_DATAGRAM_FINAL dst src, fr_data = payload\<rparr>]"
  using assms by (subst datagram_loop.simps) (auto simp: Let_def datagram_loop.simps [where payload = "[]"])

text \<open>The last frame of a datagram and those before it.\<close>

lemma loop_frames:
  assumes "rest \<noteq> []" and "src < 0x1000" and "dst < 0x1000"
  shows "datagram_loop dst src rest \<noteq> []"
    and "\<forall>f\<in>set (butlast (datagram_loop dst src rest)). lcc_get_src (fr_id f) = src \<and>
      lcc_get_can_frame_type (fr_id f) = LCC_FRAME_DATAGRAM_MIDDLE"
    and "lcc_get_src (fr_id (last (datagram_loop dst src rest))) = src \<and>
      lcc_get_can_frame_type (fr_id (last (datagram_loop dst src rest))) = LCC_FRAME_DATAGRAM_FINAL"
proof -
  have "datagram_loop dst src rest \<noteq> [] \<and>
    (\<forall>f\<in>set (butlast (datagram_loop dst src rest)). lcc_get_src (fr_id f) = src \<and>
      lcc_get_can_frame_type (fr_id f) = LCC_FRAME_DATAGRAM_MIDDLE) \<and>
    lcc_get_src (fr_id (last (datagram_loop dst src rest))) = src \<and>
      lcc_get_can_frame_type (fr_id (last (datagram_loop dst src rest))) = LCC_FRAME_DATAGRAM_FINAL"
    using assms(1)
  proof (induction "length rest" arbitrary: rest rule: less_induct)
    case less
    show ?case
    proof (cases "length rest \<le> 8")
      case True
      then show ?thesis using less.prems assms(2,3) by (simp add: loop_end datagram_id_fields lcc_consts)
    next
      case False
      then have "drop 8 rest \<noteq> []" "length (drop 8 rest) < length rest" by simp_all
      note ih = less.hyps [OF this(2,1)]
      show ?thesis using ih False assms(2,3) by (simp add: loop_step datagram_id_fields lcc_consts)
    qed
  qed
  then show "datagram_loop dst src rest \<noteq> []"
    and "\<forall>f\<in>set (butlast (datagram_loop dst src rest)). lcc_get_src (fr_id f) = src \<and>
      lcc_get_can_frame_type (fr_id f) = LCC_FRAME_DATAGRAM_MIDDLE"
    and "lcc_get_src (fr_id (last (datagram_loop dst src rest))) = src \<and>
      lcc_get_can_frame_type (fr_id (last (datagram_loop dst src rest))) = LCC_FRAME_DATAGRAM_FINAL" by blast+
qed

text \<open>The MIDDLE frames arrive with strays in between, and the FINAL frame completes the bytes.\<close>

lemma receive_rest:
  assumes al: "src < 0x1000" "dst < 0x1000"
    and "\<forall>f\<in>set others. lcc_get_src (fr_id f) \<noteq> src \<and> \<not> takes_buffer f"
    and "fs \<in> shuffles (butlast (datagram_loop dst src rest)) others"
    and "rest \<noteq> []" and "length buf + length rest \<le> LCC_DATAGRAM_MAX"
    and "dg_rx node = \<lparr>dg_src_alias = src, dg_buf = buf, dg_active = True\<rparr>"
  shows "\<exists>got rem. got @ rem = buf @ rest \<and> length rem \<le> 8 \<and>
    receive_frames fs node mc = (concat (map (stray_answer node) others), node\<lparr>dg_rx := (dg_rx node)\<lparr>dg_buf := got\<rparr>\<rparr>, mc) \<and>
    last (datagram_loop dst src rest) = \<lparr>fr_id = lcc_frame_datagram_id LCC_FRAME_DATAGRAM_FINAL dst src, fr_data = rem\<rparr>"
  using assms(3-)
proof (induction fs arbitrary: rest buf node others)
  case Nil
  then have e: "butlast (datagram_loop dst src rest) = []" "others = []" by auto
  have "length rest \<le> 8"
  proof (rule ccontr)
    assume "\<not> length rest \<le> 8"
    then have long: "length rest > 8" "drop 8 rest \<noteq> []" by simp_all
    show False using e(1) loop_frames(1) [OF long(2) al] unfolding loop_step [OF long(1)] by simp
  qed
  moreover have "node\<lparr>dg_rx := (dg_rx node)\<lparr>dg_buf := buf\<rparr>\<rparr> = node" unfolding Nil.prems(5)
    using Nil.prems(5) by (cases node) simp
  ultimately show ?case unfolding e(2) using Nil.prems(3)
    by (intro exI [of _ buf] exI [of _ rest]) (simp add: loop_end)
next
  case (Cons f fs)
  show ?case
  proof (cases "others \<noteq> [] \<and> hd others = f \<and> fs \<in> shuffles (butlast (datagram_loop dst src rest)) (tl others)")
    case True
    then obtain others' where os: "others = f # others'" by (cases others) auto
    have f: "lcc_datagram_handle_frame node f mc = (stray_answer node f, node, mc)"
      using Cons.prems(1,5) os by (intro handle_stray [of f src]) (auto simp: holds_for_def)
    obtain got rem where "got @ rem = buf @ rest" "length rem \<le> 8"
      "receive_frames fs node mc = (concat (map (stray_answer node) others'), node\<lparr>dg_rx := (dg_rx node)\<lparr>dg_buf := got\<rparr>\<rparr>, mc)"
      "last (datagram_loop dst src rest) = \<lparr>fr_id = lcc_frame_datagram_id LCC_FRAME_DATAGRAM_FINAL dst src, fr_data = rem\<rparr>"
      using Cons.IH [of others' rest buf node] Cons.prems True os by auto
    then show ?thesis using f os by (intro exI [of _ got] exI [of _ rem]) simp
  next
    case False
    with Cons.prems(2) have f: "butlast (datagram_loop dst src rest) = f # tl (butlast (datagram_loop dst src rest))"
      and fs: "fs \<in> shuffles (tl (butlast (datagram_loop dst src rest))) others"
      by (auto simp: Cons_in_shuffles_iff)
    have long: "length rest > 8" using f Cons.prems(3) by (cases "length rest \<le> 8") (simp_all add: loop_end)
    then have "drop 8 rest \<noteq> []" by simp
    note ne = loop_frames(1) [OF this al]
    let ?node = "node\<lparr>dg_rx := \<lparr>dg_src_alias = src, dg_buf = buf @ take 8 rest, dg_active = True\<rparr>\<rparr>"
    have "f = \<lparr>fr_id = lcc_frame_datagram_id LCC_FRAME_DATAGRAM_MIDDLE dst src, fr_data = take 8 rest\<rparr>"
      using f long ne by (simp add: loop_step)
    then have step: "lcc_datagram_handle_frame node f mc = ([], ?node, mc)"
      using long Cons.prems(4,5) al by (simp add: lcc_datagram_handle_frame_def datagram_id_fields lcc_consts Let_def)
    have "fs \<in> shuffles (butlast (datagram_loop dst src (drop 8 rest))) others" using fs long ne by (simp add: loop_step)
    then obtain got rem where "got @ rem = (buf @ take 8 rest) @ drop 8 rest" "length rem \<le> 8"
      "receive_frames fs ?node mc = (concat (map (stray_answer ?node) others), ?node\<lparr>dg_rx := (dg_rx ?node)\<lparr>dg_buf := got\<rparr>\<rparr>, mc)"
      "last (datagram_loop dst src (drop 8 rest)) = \<lparr>fr_id = lcc_frame_datagram_id LCC_FRAME_DATAGRAM_FINAL dst src, fr_data = rem\<rparr>"
      using Cons.IH [of others "drop 8 rest" "buf @ take 8 rest" ?node] Cons.prems long by auto
    then show ?thesis using step long ne Cons.prems(5)
      by (intro exI [of _ got] exI [of _ rem]) (simp add: loop_step)
  qed
qed

text \<open>
  C11: A datagram of 1 to 72 bytes that one node sends in frames arrives or is refused, whatever the
  reassembly buffer held before and whatever frames of other senders come between its frames.
  If none of those is a ONE or a FIRST, its last frame, and only it, dispatches the
  datagram with the bytes sent, the buffer is empty afterwards, and until then the only answers are the
  out-of-order rejections of other senders' MIDDLE and FINAL frames. If one is, the buffer is no
  longer this datagram's: its last frame dispatches nothing, and its sender is told with an
  out-of-order rejection to send it again.
\<close>

theorem datagram_reassembled:
  assumes "payload \<noteq> []" and "length payload \<le> LCC_DATAGRAM_MAX"
    and "node_alias sender < 0x1000" and "dst < 0x1000"
    and "lcc_datagram_send sender dst payload = sent"
    and "\<forall>f\<in>set others. lcc_get_src (fr_id f) \<noteq> node_alias sender"
    and "before \<in> shuffles (butlast sent) others" and "before \<noteq> [] \<longrightarrow> hd before = hd sent"
    and "receive_frames before node mc = (out1, node1, mc1)"
    and "lcc_datagram_dispatch node (node_alias sender) payload mc = (ok, out, mc')"
  shows "if \<exists>f\<in>set others. takes_buffer f
     then lcc_datagram_handle_frame node1 (last sent) mc1 =
       (lcc_datagram_send_rejected node (node_alias sender) LCC_ERR_OUT_OF_ORDER, node1, mc1)
     else out1 = concat (map (stray_answer node) others) \<and> mc1 = mc \<and>
       (\<exists>dg. \<not> dg_active dg \<and> dg_buf dg = [] \<and>
          lcc_datagram_handle_frame node1 (last sent) mc1 = (out, node\<lparr>dg_rx := dg\<rparr>, mc'))"
proof (cases "length payload \<le> 8")
  case True
  then have sent: "sent = [\<lparr>fr_id = lcc_frame_datagram_id LCC_FRAME_DATAGRAM_ONE dst (node_alias sender), fr_data = payload\<rparr>]"
    using assms(1,5) by (auto simp: lcc_datagram_send_def)
  then have "before = others" using assms(7) by simp
  moreover have "others \<noteq> [] \<Longrightarrow> lcc_get_src (fr_id (hd others)) \<noteq> node_alias sender" using assms(6) by simp
  ultimately have "others = []" "before = []" using assms(3,4,8) sent by (auto simp: datagram_id_fields lcc_consts)
  then show ?thesis using assms(3,4,9,10)
    by (auto simp: sent lcc_datagram_handle_frame_def datagram_id_fields lcc_consts Let_def dispatch_and_reset_def reset_rx_def
        intro!: exI [of _ "reset_rx (dg_rx node)"])
next
  case False
  let ?src = "node_alias sender"
  let ?first = "\<lparr>fr_id = lcc_frame_datagram_id LCC_FRAME_DATAGRAM_FIRST dst ?src, fr_data = take 8 payload\<rparr>"
  let ?node = "node\<lparr>dg_rx := \<lparr>dg_src_alias = ?src, dg_buf = take 8 payload, dg_active = True\<rparr>\<rparr>"
  let ?loop = "datagram_loop dst ?src (drop 8 payload)"
  have rest: "drop 8 payload \<noteq> []" using False by simp
  note frames = loop_frames [OF rest assms(3,4)]
  have sent: "sent = ?first # ?loop" using assms(1,5) False by (auto simp: lcc_datagram_send_def)
  obtain fs where b: "before = ?first # fs" and fs: "fs \<in> shuffles (butlast ?loop) others"
  proof -
    have "before \<noteq> []" using assms(7) frames(1) by (auto simp: sent)
    then have "before = ?first # tl before" using assms(8) by (cases before) (simp_all add: sent)
    moreover have "\<not> (others \<noteq> [] \<and> hd others = ?first)"
      using assms(3,4,6) by (cases others) (auto simp: datagram_id_fields lcc_consts)
    ultimately have "tl before \<in> shuffles (butlast ?loop) others"
      using assms(7) frames(1) by (cases before) (auto simp: sent Cons_in_shuffles_iff)
    with \<open>before = ?first # tl before\<close> show thesis by (rule that)
  qed
  have step: "lcc_datagram_handle_frame node ?first mc = ([], ?node, mc)"
    using False assms(3,4) by (simp add: lcc_datagram_handle_frame_def datagram_id_fields lcc_consts Let_def LCC_DATAGRAM_MAX_def)
  have run: "receive_frames fs ?node mc = (out1, node1, mc1)" using assms(9) by (simp add: b step split_beta prod_eq_iff)
  have last: "last sent = last ?loop" using frames(1) by (simp add: sent)
  show ?thesis
  proof (cases "\<exists>f\<in>set others. takes_buffer f")
    case True
    then obtain f where f: "f \<in> set others" "takes_buffer f" by blast
    have all: "set fs = set (butlast ?loop) \<union> set others" using set_shuffles [OF fs] .
    have "\<not> holds_for ?src (fst (snd (receive_frames fs ?node mc)))"
      using f assms(6) frames(2) unfolding all by (intro loses_buffer [of f]) (auto simp: all)
    then have "\<not> holds_for ?src node1" by (simp add: run)
    moreover obtain d where "node1 = ?node\<lparr>dg_rx := d\<rparr>" using receive_keeps_rest [of fs ?node mc] run by auto
    ultimately have "lcc_datagram_handle_frame node1 (last sent) mc1 =
        (lcc_datagram_send_rejected node ?src LCC_ERR_OUT_OF_ORDER, node1, mc1)"
      using frames(3) unfolding last
      by (auto simp: lcc_datagram_handle_frame_def holds_for_def Let_def lcc_consts)
    then show ?thesis using True by simp
  next
    case none: False
    have c: "length (take 8 payload) + length (drop 8 payload) \<le> LCC_DATAGRAM_MAX" using assms(2) by simp
    have o: "\<forall>f\<in>set others. lcc_get_src (fr_id f) \<noteq> ?src \<and> \<not> takes_buffer f" using assms(6) none by blast
    have b: "dg_rx ?node = \<lparr>dg_src_alias = ?src, dg_buf = take 8 payload, dg_active = True\<rparr>" by simp
    obtain got rem where g: "got @ rem = take 8 payload @ drop 8 payload" "length rem \<le> 8"
      "receive_frames fs ?node mc = (concat (map (stray_answer ?node) others), ?node\<lparr>dg_rx := (dg_rx ?node)\<lparr>dg_buf := got\<rparr>\<rparr>, mc)"
      "last ?loop = \<lparr>fr_id = lcc_frame_datagram_id LCC_FRAME_DATAGRAM_FINAL dst ?src, fr_data = rem\<rparr>"
      using receive_rest [OF assms(3,4) o fs rest c b, of mc] by blast
    have p: "got @ rem = payload" using g(1) by simp
    then have len: "length got + length rem \<le> LCC_DATAGRAM_MAX" using assms(2) by (metis length_append)
    have e: "out1 = concat (map (stray_answer node) others)" "mc1 = mc"
      "node1 = node\<lparr>dg_rx := \<lparr>dg_src_alias = ?src, dg_buf = got, dg_active = True\<rparr>\<rparr>" using run g(3) by simp_all
    have "lcc_datagram_handle_frame node1 (last sent) mc1 =
        (out, node\<lparr>dg_rx := \<lparr>dg_src_alias = ?src, dg_buf = [], dg_active = False\<rparr>\<rparr>, mc')"
      using len assms(3,4,10) unfolding last g(4) e
      by (simp add: lcc_datagram_handle_frame_def datagram_id_fields lcc_consts Let_def dispatch_and_reset_def reset_rx_def p)
    then show ?thesis using none e(1,2)
      by (auto intro!: exI [of _ "\<lparr>dg_src_alias = ?src, dg_buf = [], dg_active = False\<rparr>"])
  qed
qed

definition write_payload :: "u8 list" where "write_payload = [0x20, 0x00, 0, 0, 0, 0, 0x11, 1, 2, 3]"

definition stray_frame :: lcc_frame where
  "stray_frame = \<lparr>fr_id = lcc_frame_datagram_id LCC_FRAME_DATAGRAM_FINAL 0x222 0x333, fr_data = [9]\<rparr>"

definition write_frames :: "lcc_frame list" where
  "write_frames = lcc_datagram_send (bare_node 0x111) 0x222 write_payload"

definition taking_frame :: lcc_frame where
  "taking_frame = \<lparr>fr_id = lcc_frame_datagram_id LCC_FRAME_DATAGRAM_FIRST 0x222 0x333, fr_data = [9]\<rparr>"

text \<open>One write whose two frames a stray frame separates, and one whose buffer is taken over.\<close>

lemma datagram_reassembled_witness:
  "(let r = receive_frames [hd write_frames, stray_frame] (bare_node 0x222) bare_memconfig in
    fst (lcc_datagram_handle_frame (fst (snd r)) (last write_frames) (snd (snd r))) =
      lcc_datagram_send_rejected (bare_node 0x222) 0x111 LCC_ERR_SPACE_UNKNOWN) \<and>
   (let r = receive_frames [hd write_frames, taking_frame] (bare_node 0x222) bare_memconfig in
    fst (lcc_datagram_handle_frame (fst (snd r)) (last write_frames) (snd (snd r))) =
      lcc_datagram_send_rejected (bare_node 0x222) 0x111 LCC_ERR_OUT_OF_ORDER)"
proof -
  let ?n = "bare_node 0x222"
  have p: "write_payload \<noteq> []" "length write_payload \<le> LCC_DATAGRAM_MAX"
    by (simp_all add: write_payload_def LCC_DATAGRAM_MAX_def)
  have a: "node_alias (bare_node 0x111) < 0x1000" "(0x222 :: u16) < 0x1000" by (simp_all add: bare_defs)
  have w: "write_frames = [hd write_frames, last write_frames]" "hd write_frames \<in> set write_frames"
    by (simp_all add: write_frames_def write_payload_def lcc_datagram_send_def datagram_loop.simps Let_def)
  have s: "[hd write_frames, f] \<in> shuffles (butlast write_frames) [f]" for f
    by (subst w(1)) (simp add: Cons_in_shuffles_iff)
  have o: "\<forall>f\<in>set [stray_frame]. lcc_get_src (fr_id f) \<noteq> node_alias (bare_node 0x111)"
    "\<forall>f\<in>set [taking_frame]. lcc_get_src (fr_id f) \<noteq> node_alias (bare_node 0x111)"
    "\<not> takes_buffer stray_frame" "takes_buffer taking_frame"
    by (simp_all add: stray_frame_def taking_frame_def takes_buffer_def datagram_id_fields bare_defs lcc_consts)
  have d: "lcc_datagram_dispatch ?n (node_alias (bare_node 0x111)) write_payload bare_memconfig =
      (False, lcc_datagram_send_rejected ?n 0x111 LCC_ERR_SPACE_UNKNOWN, bare_memconfig)"
    by (simp add: write_payload_def lcc_datagram_dispatch_def lcc_memconfig_check_def parse_rw_def decode_space_def
        is_read_cmd_def is_write_cmd_def find_space_def lcc_consts bare_defs)
  obtain o1 n1 m1 where 1: "receive_frames [hd write_frames, stray_frame] ?n bare_memconfig = (o1, n1, m1)" by (rule prod_cases3)
  obtain o2 n2 m2 where 2: "receive_frames [hd write_frames, taking_frame] ?n bare_memconfig = (o2, n2, m2)" by (rule prod_cases3)
  have x: "node_alias (bare_node 0x111) = 0x111" by (simp add: bare_defs)
  show ?thesis
    using datagram_reassembled [OF p a write_frames_def [symmetric] o(1) s _ 1 d]
      datagram_reassembled [OF p a write_frames_def [symmetric] o(2) s _ 2 d] o(3,4) unfolding 1 2 Let_def
    by (auto simp: x)
qed

end
