(* ===== verification/Lcc_Config.thy ===== *)
theory Lcc_Config
  imports Lcc_Datagram_Rx
begin

text \<open>
  The configuration of the command station, in \<^verbatim>\<open>src/src/protocol/lcc_interface.c\<close> and
  \<^verbatim>\<open>src/src/util/nv_storage.c\<close>: the configuration memory with its defaults, its migrations on
  start-up and its flush to flash, and the memory spaces over which a configuration tool reads
  and writes it. Each space is an interpretation of \<open>readable_space\<close> or \<open>byte_store\<close>; from
  that follow the round trips over the bus. The rest of \<^verbatim>\<open>lcc_interface.c\<close> is in theory
  \<open>Lcc_Station\<close>.
\<close>

section \<open>Flash: \<open>nv_storage.c\<close>\<close>

text \<open>The sector that holds the configuration, as a list of its bytes; erased bytes are 0xFF.\<close>

definition FLASH_SECTOR_SIZE :: nat where "FLASH_SECTOR_SIZE = 4096"
definition FLASH_PAGE_SIZE :: nat where "FLASH_PAGE_SIZE = 256"

definition nv_storage_init :: "nat \<Rightarrow> u8 list \<Rightarrow> u8 list option" where
  "nv_storage_init n_bytes flash =
     (if n_bytes > FLASH_SECTOR_SIZE then None
      else if \<exists>b\<in>set (take n_bytes flash). b \<noteq> 0xFF then Some (take n_bytes flash) else None)"

text \<open>
  \<open>nv_storage_write\<close> copies the buffer into a page buffer and programs that. The outcomes of
  the allocation and of \<open>flash_safe_execute\<close> are arguments.
\<close>

definition page_buffer :: "u8 list \<Rightarrow> u8 list" where
  "page_buffer buffer = buffer @ replicate (FLASH_SECTOR_SIZE - length buffer) 0xFF"

definition prog_size :: "nat \<Rightarrow> nat" where
  "prog_size n_bytes = (n_bytes + FLASH_PAGE_SIZE - 1) div FLASH_PAGE_SIZE * FLASH_PAGE_SIZE"

definition flash_write_callback :: "u8 list \<Rightarrow> nat \<Rightarrow> u8 list \<Rightarrow> u8 list" where
  "flash_write_callback bytes n flash = take n bytes @ replicate (FLASH_SECTOR_SIZE - n) 0xFF"

definition nv_storage_write :: "bool \<Rightarrow> bool \<Rightarrow> u8 list \<Rightarrow> u8 list \<Rightarrow> bool \<times> u8 list" where
  "nv_storage_write allocated executed buffer flash =
     (if length buffer > FLASH_SECTOR_SIZE then (False, flash)
      else if \<not> allocated then (False, flash)
      else if executed then (True, flash_write_callback (page_buffer buffer) (prog_size (length buffer)) flash)
      else (False, flash))"

section \<open>Configuration memory\<close>

definition CONFIG_OFFSET_AUTO_CLAIM :: nat where [lcc_consts]: "CONFIG_OFFSET_AUTO_CLAIM = 127"
definition CONFIG_OFFSET_RAILCOM :: nat where [lcc_consts]: "CONFIG_OFFSET_RAILCOM = 128"
definition CONFIG_OFFSET_MAIN_LIMIT :: nat where [lcc_consts]: "CONFIG_OFFSET_MAIN_LIMIT = 129"
definition CONFIG_OFFSET_PROG_LIMIT :: nat where [lcc_consts]: "CONFIG_OFFSET_PROG_LIMIT = 131"
definition CONFIG_OFFSET_PINS_MAIN :: nat where [lcc_consts]: "CONFIG_OFFSET_PINS_MAIN = 133"
definition CONFIG_OFFSET_PINS_PROG :: nat where [lcc_consts]: "CONFIG_OFFSET_PINS_PROG = 138"
definition CONFIG_OFFSET_DISPLAY_SDA :: nat where [lcc_consts]: "CONFIG_OFFSET_DISPLAY_SDA = 143"
definition CONFIG_OFFSET_DISPLAY_SCL :: nat where [lcc_consts]: "CONFIG_OFFSET_DISPLAY_SCL = 144"
definition CONFIG_OFFSET_DISPLAY_ADDR :: nat where [lcc_consts]: "CONFIG_OFFSET_DISPLAY_ADDR = 145"
definition CONFIG_OFFSET_DISPLAY_EN :: nat where [lcc_consts]: "CONFIG_OFFSET_DISPLAY_EN = 146"
definition CONFIG_OFFSET_MCP_EN :: nat where [lcc_consts]: "CONFIG_OFFSET_MCP_EN = 147"
definition CONFIG_OFFSET_MCP_SPI :: nat where [lcc_consts]: "CONFIG_OFFSET_MCP_SPI = 148"
definition CONFIG_OFFSET_MCP_MISO :: nat where [lcc_consts]: "CONFIG_OFFSET_MCP_MISO = 149"
definition CONFIG_OFFSET_MCP_MOSI :: nat where [lcc_consts]: "CONFIG_OFFSET_MCP_MOSI = 150"
definition CONFIG_OFFSET_MCP_SCK :: nat where [lcc_consts]: "CONFIG_OFFSET_MCP_SCK = 151"
definition CONFIG_OFFSET_MCP_CS :: nat where [lcc_consts]: "CONFIG_OFFSET_MCP_CS = 152"
definition CONFIG_OFFSET_MCP_INT :: nat where [lcc_consts]: "CONFIG_OFFSET_MCP_INT = 153"
definition CONFIG_OFFSET_MCP_XTAL :: nat where [lcc_consts]: "CONFIG_OFFSET_MCP_XTAL = 154"
definition CONFIG_OFFSET_MCP_BAUD :: nat where [lcc_consts]: "CONFIG_OFFSET_MCP_BAUD = 155"
definition CONFIG_OFFSET_VERSION :: nat where [lcc_consts]: "CONFIG_OFFSET_VERSION = 156"
definition CONFIG_MEM_SIZE :: nat where [lcc_consts]: "CONFIG_MEM_SIZE = 0x0200"
definition CONFIG_VERSION :: u8 where [lcc_consts]: "CONFIG_VERSION = 1"

text \<open>The defaults of the board, \<^verbatim>\<open>src/src/board_config.h\<close>.\<close>

definition MAX_CURRENT_MAIN_MA :: u16 where [lcc_consts]: "MAX_CURRENT_MAIN_MA = 2000"
definition MAX_CURRENT_PROG_MA :: u16 where [lcc_consts]: "MAX_CURRENT_PROG_MA = 250"

definition pins_a :: "u8 list" where [lcc_consts]: "pins_a = [22, 3, 9, 45, 1]"
definition pins_b :: "u8 list" where [lcc_consts]: "pins_b = [23, 11, 8, 46, 2]"
definition display_defaults :: "u8 list" where [lcc_consts]: "display_defaults = [20, 21, 0x3C]"
definition mcp2515_defaults :: "u8 list" where [lcc_consts]: "mcp2515_defaults = [0, 1, 12, 15, 14, 13, 24, 1, 0]"

text \<open>The assignments of consecutive bytes.\<close>

definition set_bytes :: "nat \<Rightarrow> u8 list \<Rightarrow> u8 list \<Rightarrow> u8 list" where
  "set_bytes i bs mem = fold (\<lambda>(k, b) m. m[k := b]) (zip [i..<i + length bs] bs) mem"

definition config_mem_init_defaults :: "u8 list" where
  "config_mem_init_defaults =
     (let mem = replicate CONFIG_MEM_SIZE 0;
          mem = mem[CONFIG_OFFSET_AUTO_CLAIM := 1];
          mem = mem[CONFIG_OFFSET_RAILCOM := 1];
          mem = set_bytes CONFIG_OFFSET_MAIN_LIMIT
                  [u8_of (shr MAX_CURRENT_MAIN_MA 8 AND 0xFF), u8_of (MAX_CURRENT_MAIN_MA AND 0xFF)] mem;
          mem = set_bytes CONFIG_OFFSET_PROG_LIMIT
                  [u8_of (shr MAX_CURRENT_PROG_MA 8 AND 0xFF), u8_of (MAX_CURRENT_PROG_MA AND 0xFF)] mem;
          mem = set_bytes CONFIG_OFFSET_PINS_MAIN pins_a mem;
          mem = set_bytes CONFIG_OFFSET_PINS_PROG pins_b mem;
          mem = set_bytes CONFIG_OFFSET_DISPLAY_SDA display_defaults mem;
          mem = mem[CONFIG_OFFSET_DISPLAY_EN := 1];
          mem = set_bytes CONFIG_OFFSET_MCP_EN mcp2515_defaults mem
      in mem[CONFIG_OFFSET_VERSION := CONFIG_VERSION])"

text \<open>What a write to the configuration does to the running hardware.\<close>

datatype config_effect = Wavegen_Reinit bool u8 u8 | Main_Limit u16 | Prog_Limit u16 | Watchdog_Reboot

text \<open>
  The configuration memory, its dirty flag, the one-shot flush timer (\<open>None\<close> before it is
  created, else its period and whether it runs), the flash sector, and the log of effects.
\<close>

record config =
  cs_config_mem :: "u8 list"
  cs_config_dirty :: bool
  flash_flush_timer :: "(nat \<times> bool) option"
  flash :: "u8 list"
  effects :: "config_effect list"

definition cfg_byte :: "config \<Rightarrow> nat \<Rightarrow> u8" where
  "cfg_byte c i = cs_config_mem c ! i"

definition mark_config_dirty :: "config \<Rightarrow> config" where
  "mark_config_dirty c =
     c\<lparr>cs_config_dirty := True, flash_flush_timer := map_option (\<lambda>(p, r). (p, True)) (flash_flush_timer c)\<rparr>"

text \<open>
  The flush in two steps, as another task may write in between: the copy that
  \<open>nv_storage_write\<close> takes, and the programming with what follows it. Run without
  interruption they are \<open>flash_flush_timer_callback\<close>.
\<close>

definition flush_begin :: "config \<Rightarrow> u8 list option" where
  "flush_begin c = (if cs_config_dirty c then Some (cs_config_mem c) else None)"

definition flush_finish :: "bool \<Rightarrow> bool \<Rightarrow> u8 list option \<Rightarrow> config \<Rightarrow> config" where
  "flush_finish allocated executed copied c =
     (case copied of
        None \<Rightarrow> c
      | Some bytes \<Rightarrow>
          (case nv_storage_write allocated executed bytes (flash c) of
             (ok, fl) \<Rightarrow> c\<lparr>flash := fl, cs_config_dirty := (if ok then False else cs_config_dirty c)\<rparr>))"

definition flash_flush_timer_callback :: "bool \<Rightarrow> bool \<Rightarrow> config \<Rightarrow> config" where
  "flash_flush_timer_callback allocated executed c = flush_finish allocated executed (flush_begin c) c"

section \<open>Getters\<close>

definition lcc_interface_auto_claim_enabled :: "config \<Rightarrow> bool" where
  "lcc_interface_auto_claim_enabled c \<longleftrightarrow> cfg_byte c CONFIG_OFFSET_AUTO_CLAIM \<noteq> 0"

definition lcc_interface_railcom_enabled :: "config \<Rightarrow> bool" where
  "lcc_interface_railcom_enabled c \<longleftrightarrow> cfg_byte c CONFIG_OFFSET_RAILCOM \<noteq> 0"

definition be16_at :: "u8 list \<Rightarrow> nat \<Rightarrow> u16" where
  "be16_at mem i = shl (u16_of (mem ! i)) 8 OR u16_of (mem ! (i + 1))"

definition lcc_interface_main_limit_ma :: "config \<Rightarrow> u16" where
  "lcc_interface_main_limit_ma c = be16_at (cs_config_mem c) CONFIG_OFFSET_MAIN_LIMIT"

definition lcc_interface_prog_limit_ma :: "config \<Rightarrow> u16" where
  "lcc_interface_prog_limit_ma c = be16_at (cs_config_mem c) CONFIG_OFFSET_PROG_LIMIT"

text \<open>The pins are given as signal, power, brake, fault and ADC.\<close>

definition lcc_interface_get_pins_main :: "config \<Rightarrow> u8 list" where
  "lcc_interface_get_pins_main c = map (\<lambda>i. cfg_byte c (CONFIG_OFFSET_PINS_MAIN + i)) [0..<5]"

definition lcc_interface_get_pins_prog :: "config \<Rightarrow> u8 list" where
  "lcc_interface_get_pins_prog c = map (\<lambda>i. cfg_byte c (CONFIG_OFFSET_PINS_PROG + i)) [0..<5]"

definition lcc_interface_get_display :: "config \<Rightarrow> u8 \<times> u8 \<times> u8 \<times> bool" where
  "lcc_interface_get_display c =
     (cfg_byte c CONFIG_OFFSET_DISPLAY_SDA, cfg_byte c CONFIG_OFFSET_DISPLAY_SCL,
      cfg_byte c CONFIG_OFFSET_DISPLAY_ADDR, cfg_byte c CONFIG_OFFSET_DISPLAY_EN \<noteq> 0)"

text \<open>Enabled, SPI instance, MISO, MOSI, SCK, CS, INT, crystal, bitrate.\<close>

definition lcc_interface_get_mcp2515 :: "config \<Rightarrow> bool \<times> u8 list" where
  "lcc_interface_get_mcp2515 c =
     (cfg_byte c CONFIG_OFFSET_MCP_EN \<noteq> 0,
      [cfg_byte c CONFIG_OFFSET_MCP_SPI, cfg_byte c CONFIG_OFFSET_MCP_MISO, cfg_byte c CONFIG_OFFSET_MCP_MOSI,
       cfg_byte c CONFIG_OFFSET_MCP_SCK, cfg_byte c CONFIG_OFFSET_MCP_CS, cfg_byte c CONFIG_OFFSET_MCP_INT,
       cfg_byte c CONFIG_OFFSET_MCP_XTAL, cfg_byte c CONFIG_OFFSET_MCP_BAUD])"

section \<open>Loading\<close>

text \<open>The migration to version 1 of the fault pins.\<close>

definition migrate_version :: "u8 list \<times> bool \<Rightarrow> u8 list \<times> bool" where
  "migrate_version r =
     (case r of (mem, dirty) \<Rightarrow>
        if mem ! CONFIG_OFFSET_VERSION < 1
        then let mem = (if mem ! (CONFIG_OFFSET_PINS_MAIN + 3) = 4
                        then mem[CONFIG_OFFSET_PINS_MAIN + 3 := pins_a ! 3] else mem);
                 mem = (if mem ! (CONFIG_OFFSET_PINS_PROG + 3) = 5
                        then mem[CONFIG_OFFSET_PINS_PROG + 3 := pins_b ! 3] else mem)
             in (mem[CONFIG_OFFSET_VERSION := 1], True)
        else (mem, dirty))"

definition lcc_interface_load_config :: "config \<Rightarrow> config" where
  "lcc_interface_load_config c =
     (case nv_storage_init CONFIG_MEM_SIZE (flash c) of
        None \<Rightarrow> c\<lparr>cs_config_mem := config_mem_init_defaults, cs_config_dirty := True\<rparr>
      | Some mem \<Rightarrow>
          (let main_limit = be16_at mem CONFIG_OFFSET_MAIN_LIMIT;
               sig_pin = mem ! CONFIG_OFFSET_PINS_MAIN;
               disp_addr = mem ! CONFIG_OFFSET_DISPLAY_ADDR;
               r = (if main_limit = 0 \<or> sig_pin = 0 \<or> disp_addr = 0 then (config_mem_init_defaults, True)
                    else if mem ! CONFIG_OFFSET_MCP_SCK = 0
                    then (set_bytes CONFIG_OFFSET_MCP_EN mcp2515_defaults mem, True)
                    else (mem, cs_config_dirty c))
           in case migrate_version r of (mem, dirty) \<Rightarrow> c\<lparr>cs_config_mem := mem, cs_config_dirty := dirty\<rparr>))"

section \<open>Memory spaces\<close>

definition config_range_touches :: "nat \<Rightarrow> nat \<Rightarrow> nat \<Rightarrow> nat \<Rightarrow> bool" where
  "config_range_touches addr count field field_len \<longleftrightarrow> addr < field + field_len \<and> addr + count > field"

text \<open>A read of an array of bytes that stops at its end.\<close>

definition array_read :: "u8 list \<Rightarrow> nat \<Rightarrow> u32 \<Rightarrow> nat \<Rightarrow> u8 list" where
  "array_read mem n_bytes addr count =
     (if unat addr \<ge> n_bytes then []
      else let count = (if unat addr + count > n_bytes then n_bytes - unat addr else count)
           in take count (drop (unat addr) mem))"

definition config_read :: "u64 \<Rightarrow> u32 \<Rightarrow> nat \<Rightarrow> config \<Rightarrow> (u8 list \<times> u16) \<times> config" where
  "config_read node addr count c = ((array_read (cs_config_mem c) CONFIG_MEM_SIZE addr count, 0), c)"

definition config_write :: "u64 \<Rightarrow> u32 \<Rightarrow> u8 list \<Rightarrow> config \<Rightarrow> (nat \<times> u16) \<times> config" where
  "config_write node addr bytes c =
     (if unat addr \<ge> CONFIG_MEM_SIZE then ((0, 0), c)
      else let a = unat addr;
               bytes = (if a + length bytes > CONFIG_MEM_SIZE then take (CONFIG_MEM_SIZE - a) bytes else bytes);
               count = length bytes;
               c = mark_config_dirty (c\<lparr>cs_config_mem := patch (cs_config_mem c) a bytes\<rparr>);
               c = (if config_range_touches a count CONFIG_OFFSET_RAILCOM 1
                    then (let pins = lcc_interface_get_pins_main c
                          in c\<lparr>effects := effects c @ [Wavegen_Reinit (cfg_byte c CONFIG_OFFSET_RAILCOM \<noteq> 0) (pins ! 0) (pins ! 2)]\<rparr>)
                    else c);
               c = (if config_range_touches a count CONFIG_OFFSET_MAIN_LIMIT 2
                    then c\<lparr>effects := effects c @ [Main_Limit (lcc_interface_main_limit_ma c)]\<rparr> else c);
               c = (if config_range_touches a count CONFIG_OFFSET_PROG_LIMIT 2
                    then c\<lparr>effects := effects c @ [Prog_Limit (lcc_interface_prog_limit_ma c)]\<rparr> else c)
           in ((count, 0), c))"

definition config_update_complete :: "u64 \<Rightarrow> config \<Rightarrow> config" where
  "config_update_complete node c =
     (if cs_config_dirty c
      then c\<lparr>flash_flush_timer := map_option (\<lambda>(p, r). (100, True)) (flash_flush_timer c)\<rparr> else c)"

definition ACDI_USER_SIZE :: nat where [lcc_consts]: "ACDI_USER_SIZE = 128"
definition ACDI_USER_VERSION :: u8 where [lcc_consts]: "ACDI_USER_VERSION = 2"

definition acdi_user_read :: "u64 \<Rightarrow> u32 \<Rightarrow> nat \<Rightarrow> config \<Rightarrow> (u8 list \<times> u16) \<times> config" where
  "acdi_user_read node addr count c =
     (if unat addr \<ge> ACDI_USER_SIZE then (([], 0), c)
      else let count = (if unat addr + count > ACDI_USER_SIZE then ACDI_USER_SIZE - unat addr else count)
           in ((map (\<lambda>i. let a = unat addr + i in if a = 0 then ACDI_USER_VERSION else cs_config_mem c ! (a - 1)) [0..<count],
                0), c))"

text \<open>One byte of the loop: the version byte is skipped.\<close>

definition acdi_user_byte :: "nat \<times> u8 \<Rightarrow> u8 list \<times> bool \<Rightarrow> u8 list \<times> bool" where
  "acdi_user_byte ab r = (if fst ab = 0 then r else ((fst r)[fst ab - 1 := snd ab], True))"

definition acdi_user_write :: "u64 \<Rightarrow> u32 \<Rightarrow> u8 list \<Rightarrow> config \<Rightarrow> (nat \<times> u16) \<times> config" where
  "acdi_user_write node addr bytes c =
     (if unat addr \<ge> ACDI_USER_SIZE then ((0, 0), c)
      else let a = unat addr;
               bytes = (if a + length bytes > ACDI_USER_SIZE then take (ACDI_USER_SIZE - a) bytes else bytes)
           in case fold acdi_user_byte (zip [a..<a + length bytes] bytes) (cs_config_mem c, False) of
                (mem, wrote) \<Rightarrow>
                  (let c = c\<lparr>cs_config_mem := mem\<rparr>
                   in ((length bytes, 0), if wrote then mark_config_dirty c else c)))"

definition ACDI_MFG_SIZE :: nat where [lcc_consts]: "ACDI_MFG_SIZE = 125"
definition ACDI_MFG_VERSION :: u8 where [lcc_consts]: "ACDI_MFG_VERSION = 1"

text \<open>The four strings of \<open>g_cs_snip\<close>; the bytes of \<open>g_acdi_mfg\<close>.\<close>

definition acdi_mfg_init :: "u8 list \<Rightarrow> u8 list \<Rightarrow> u8 list \<Rightarrow> u8 list \<Rightarrow> u8 list" where
  "acdi_mfg_init mfg model hw sw =
     (let b = (replicate ACDI_MFG_SIZE 0)[0 := ACDI_MFG_VERSION];
          b = patch b 1 (take 41 mfg);
          b = patch b 42 (take 41 model);
          b = patch b 83 (take 21 hw)
      in patch b 104 (take 21 sw))"

definition acdi_mfg_read :: "u8 list \<Rightarrow> u64 \<Rightarrow> u32 \<Rightarrow> nat \<Rightarrow> config \<Rightarrow> (u8 list \<times> u16) \<times> config" where
  "acdi_mfg_read mfg node addr count c = ((array_read mfg ACDI_MFG_SIZE addr count, 0), c)"

text \<open>The CDI is a generated file: an argument, without its NUL.\<close>

definition cdi_read :: "u8 list \<Rightarrow> u64 \<Rightarrow> u32 \<Rightarrow> nat \<Rightarrow> config \<Rightarrow> (u8 list \<times> u16) \<times> config" where
  "cdi_read cdi node addr count c = ((array_read cdi (length cdi) addr count, 0), c)"

definition LCC_SPACE_CDI :: u8 where [lcc_consts]: "LCC_SPACE_CDI = 0xFF"
definition LCC_SPACE_CONFIG :: u8 where [lcc_consts]: "LCC_SPACE_CONFIG = 0xFD"
definition LCC_SPACE_ACDI_MFG :: u8 where [lcc_consts]: "LCC_SPACE_ACDI_MFG = 0xFC"
definition LCC_SPACE_ACDI_USER :: u8 where [lcc_consts]: "LCC_SPACE_ACDI_USER = 0xFB"

definition cdi_space :: "u8 list \<Rightarrow> config lcc_memspace" where
  "cdi_space cdi = \<lparr>ms_space = LCC_SPACE_CDI, ms_size = of_nat (length cdi), ms_read_only = True,
     ms_read = Some (cdi_read cdi), ms_write = None, ms_update_complete = None, ms_defer = None\<rparr>"

definition config_space :: "config lcc_memspace" where
  "config_space = \<lparr>ms_space = LCC_SPACE_CONFIG, ms_size = of_nat CONFIG_MEM_SIZE, ms_read_only = False,
     ms_read = Some config_read, ms_write = Some config_write, ms_update_complete = Some config_update_complete,
     ms_defer = None\<rparr>"

definition acdi_mfg_space :: "u8 list \<Rightarrow> config lcc_memspace" where
  "acdi_mfg_space mfg = \<lparr>ms_space = LCC_SPACE_ACDI_MFG, ms_size = of_nat ACDI_MFG_SIZE, ms_read_only = True,
     ms_read = Some (acdi_mfg_read mfg), ms_write = None, ms_update_complete = None, ms_defer = None\<rparr>"

definition acdi_user_space :: "config lcc_memspace" where
  "acdi_user_space = \<lparr>ms_space = LCC_SPACE_ACDI_USER, ms_size = of_nat ACDI_USER_SIZE, ms_read_only = False,
     ms_read = Some acdi_user_read, ms_write = Some acdi_user_write,
     ms_update_complete = Some config_update_complete, ms_defer = None\<rparr>"

definition cs_spaces :: "u8 list \<Rightarrow> u8 list \<Rightarrow> config lcc_memspace list" where
  "cs_spaces cdi mfg = [cdi_space cdi, config_space, acdi_mfg_space mfg, acdi_user_space]"

text \<open>The hooks of the reboot and factory-reset commands.\<close>

definition memcfg_reboot_hook :: "config \<Rightarrow> config" where
  "memcfg_reboot_hook c = c\<lparr>effects := effects c @ [Watchdog_Reboot]\<rparr>"

definition memcfg_factory_reset_hook :: "bool \<Rightarrow> bool \<Rightarrow> u64 \<Rightarrow> config \<Rightarrow> config" where
  "memcfg_factory_reset_hook allocated executed node c =
     (let c = c\<lparr>cs_config_mem := config_mem_init_defaults, cs_config_dirty := True\<rparr>;
          c = flash_flush_timer_callback allocated executed c
      in c\<lparr>effects := effects c @ [Watchdog_Reboot]\<rparr>)"

section \<open>The spaces are byte stores\<close>

definition config_ok :: "config \<Rightarrow> bool" where
  "config_ok c \<longleftrightarrow> length (cs_config_mem c) = CONFIG_MEM_SIZE"

definition acdi_user_contents :: "config \<Rightarrow> u8 list" where
  "acdi_user_contents c = ACDI_USER_VERSION # take 127 (cs_config_mem c)"

lemma array_read_take: "length mem = n \<Longrightarrow> array_read mem n addr count = take count (drop (unat addr) mem)"
  by (simp add: array_read_def Let_def)

lemma config_write_memory:
  assumes "unat addr + length bytes \<le> CONFIG_MEM_SIZE" and "bytes \<noteq> []"
  shows "fst (config_write node addr bytes c) = (length bytes, 0)"
    and "cs_config_mem (snd (config_write node addr bytes c)) = patch (cs_config_mem c) (unat addr) bytes"
    and "cs_config_dirty (snd (config_write node addr bytes c))"
    and "flash (snd (config_write node addr bytes c)) = flash c"
  using assms
  by (simp_all add: config_write_def mark_config_dirty_def Let_def Suc_le_eq word_less_nat_alt flip: length_greater_0_conv)

interpretation config_store: byte_store config_ok cs_config_mem "0x200" config_read 0 config_write
proof
  show "config_ok w \<Longrightarrow> length (cs_config_mem w) = unat (0x200 :: u32)" for w
    by (simp add: config_ok_def lcc_consts)
  show "unat (0x200 :: u32) < 2 ^ 31" by simp
  show "config_ok w \<Longrightarrow> addr < 0x200 \<Longrightarrow> 0 < count \<Longrightarrow> count < 256 \<Longrightarrow>
      config_read node addr count w = ((take count (drop (unat addr) (cs_config_mem w)), 0), w)" for w addr count node
    by (simp add: config_read_def config_ok_def array_read_take)
  show "\<exists>n w'. config_write node addr bytes w = ((n, 0), w') \<and> 0 < n \<and> n \<le> length bytes \<and> config_ok w' \<and>
        cs_config_mem w' = patch (cs_config_mem w) (unat addr) (take n bytes)"
    if "config_ok w" "0 \<le> addr" "bytes \<noteq> []" "length bytes < 256" "unat addr + length bytes \<le> unat (0x200 :: u32)"
    for w addr bytes node
    using config_write_memory [of addr bytes node w] that
    by (intro exI [of _ "length bytes"] exI [of _ "snd (config_write node addr bytes w)"])
      (simp add: config_ok_def prod_eq_iff lcc_consts)
qed

text \<open>The loop of \<open>acdi_user_write\<close> stores the bytes one below their address.\<close>

lemma acdi_bytes_stored:
  "0 < a \<Longrightarrow> a - 1 + length bytes \<le> length mem \<Longrightarrow>
   fold acdi_user_byte (zip [a..<a + length bytes] bytes) (mem, w) = (patch mem (a - 1) bytes, w \<or> bytes \<noteq> [])"
proof (induction bytes arbitrary: a mem w)
  case (Cons b bytes)
  have "zip [a..<a + length (b # bytes)] (b # bytes) = (a, b) # zip [Suc a..<Suc a + length bytes] bytes"
    by (simp add: upt_conv_Cons del: upt_Suc)
  moreover have "mem[a - 1 := b] = patch mem (a - 1) [b]"
    using Cons.prems(2) by (simp add: patch_def upd_conv_take_nth_drop)
  ultimately show ?case
    using Cons.prems Cons.IH [of "Suc a" "mem[a - 1 := b]" True] patch_append [of "a - 1" "[b]" mem bytes]
    by (simp add: acdi_user_byte_def)
qed simp

lemma acdi_contents_patch:
  assumes "0 < a" and "a + length bytes \<le> 128" and "length mem = 512"
  shows "b # take 127 (patch mem (a - 1) bytes) = patch (b # take 127 mem) a bytes"
  using assms by (cases a) (auto simp: patch_def min_def drop_take, metis add_leD1 le_antisym)

interpretation acdi_user_store: byte_store config_ok acdi_user_contents "0x80" acdi_user_read 1 acdi_user_write
proof
  show "config_ok w \<Longrightarrow> length (acdi_user_contents w) = unat (0x80 :: u32)" for w
    by (simp add: config_ok_def acdi_user_contents_def lcc_consts)
  show "unat (0x80 :: u32) < 2 ^ 31" by simp
  show "acdi_user_read node addr count w = ((take count (drop (unat addr) (acdi_user_contents w)), 0), w)"
    if "config_ok w" "addr < 0x80" "0 < count" "count < 256" for w addr count node
    using that by (auto simp: acdi_user_read_def acdi_user_contents_def config_ok_def lcc_consts Let_def
        word_less_nat_alt nth_Cons' intro!: nth_equalityI)
  show "\<exists>n w'. acdi_user_write node addr bytes w = ((n, 0), w') \<and> 0 < n \<and> n \<le> length bytes \<and> config_ok w' \<and>
        acdi_user_contents w' = patch (acdi_user_contents w) (unat addr) (take n bytes)"
    if "config_ok w" "1 \<le> addr" "bytes \<noteq> []" "length bytes < 256" "unat addr + length bytes \<le> unat (0x80 :: u32)"
    for w addr bytes node
  proof -
    have a: "0 < unat addr" "unat addr + length bytes \<le> 128" using that(2,5) by (simp_all add: word_le_nat_alt)
    moreover have "\<not> 128 \<le> unat addr" using a(2) that(3) by (cases bytes) simp_all
    ultimately show ?thesis
      using that(1,3) acdi_bytes_stored [OF a(1), of bytes "cs_config_mem w" False]
        acdi_contents_patch [OF a, of "cs_config_mem w" ACDI_USER_VERSION]
      by (simp add: acdi_user_write_def config_ok_def lcc_consts Let_def mark_config_dirty_def acdi_user_contents_def)
  qed
qed

lemma cdi_readable:
  assumes "length cdi < 2 ^ 31"
  shows "readable_space (\<lambda>c. True) (\<lambda>c. cdi) (of_nat (length cdi)) (cdi_read cdi)"
proof
  have l: "unat (of_nat (length cdi) :: u32) = length cdi" using assms by (simp add: unat_of_nat_less)
  show "length cdi = unat (of_nat (length cdi) :: u32)" and "unat (of_nat (length cdi) :: u32) < 2 ^ 31"
    using l assms by simp_all
  show "cdi_read cdi node addr count w = ((take count (drop (unat addr) cdi), 0), w)" for node addr count w
    by (simp add: cdi_read_def array_read_take)
qed

lemma acdi_mfg_length: "length (acdi_mfg_init mfg model hw sw) = ACDI_MFG_SIZE"
  by (simp add: acdi_mfg_init_def Let_def ACDI_MFG_SIZE_def)

interpretation acdi_mfg: readable_space "\<lambda>c. True" "\<lambda>c. acdi_mfg_init mfg model hw sw" "0x7D"
  "acdi_mfg_read (acdi_mfg_init mfg model hw sw)" for mfg model hw sw
  by unfold_locales (simp_all add: acdi_mfg_length acdi_mfg_read_def array_read_take, simp add: ACDI_MFG_SIZE_def)

section \<open>Requests as the configuration tool sends them\<close>

definition mem_hdr :: "u8 \<Rightarrow> u8 \<Rightarrow> u32 \<Rightarrow> u8 list" where
  "mem_hdr cmd space addr =
     (if space \<ge> 0xFD then [LCC_MEMCONFIG_CMD, cmd OR (space AND 3)] @ be32_to_buf addr
      else [LCC_MEMCONFIG_CMD, cmd] @ be32_to_buf addr @ [space])"

lemma mem_hdr_nonempty [simp]: "mem_hdr cmd space addr \<noteq> []"
  by (simp add: mem_hdr_def)

lemma be32_roundtrip: "be32 (be32_to_buf a @ bs) = a"
  by (simp add: be32_def be32_to_buf_def word_bits_simps)

lemma high_spaces: "(space :: u8) \<ge> 0xFD \<Longrightarrow> space = 0xFD \<or> space = 0xFE \<or> space = 0xFF"
proof -
  assume "space \<ge> 0xFD"
  then have "unat space \<in> {253, 254, 255}"
    using unsigned_less [of space, where 'a = nat] by (auto simp: word_le_nat_alt)
  then show ?thesis by (auto simp: word_unat_eq_iff)
qed

lemma mem_hdr_decode:
  assumes "cmd AND 3 = 0" and "bs \<noteq> []"
  shows "decode_space (mem_hdr cmd space addr ! 1) (mem_hdr cmd space addr @ bs) = (space, addr, length (mem_hdr cmd space addr))"
    and "(mem_hdr cmd space addr ! 1) AND 0xFC = cmd"
    and "7 \<le> length (mem_hdr cmd space addr @ bs)"
proof -
  have c: "cmd AND 0xFC = cmd" "\<not> bit cmd 0" "\<not> bit cmd 1"
    using assms(1) by (simp_all add: word_bits_simps)
  have "(cmd OR 1) AND 3 = 1" "(cmd OR 2) AND 3 = 2" "(cmd OR 3) AND 3 = 3"
    "(cmd OR 1) AND 0xFC = cmd" "(cmd OR 2) AND 0xFC = cmd" "(cmd OR 3) AND 0xFC = cmd"
    using assms(1) by (simp_all add: word_bits_simps)
  with c assms show
    "decode_space (mem_hdr cmd space addr ! 1) (mem_hdr cmd space addr @ bs) = (space, addr, length (mem_hdr cmd space addr))"
    "(mem_hdr cmd space addr ! 1) AND 0xFC = cmd"
    using high_spaces [of space] be32_roundtrip [of addr] be32_roundtrip [of addr bs]
    by (auto simp: mem_hdr_def decode_space_def Let_def nth_append)
  show "7 \<le> length (mem_hdr cmd space addr @ bs)" using assms(2) by (cases bs) (simp_all add: mem_hdr_def)
qed


definition mem_write :: "u8 \<Rightarrow> u32 \<Rightarrow> u8 list \<Rightarrow> u8 list" where
  "mem_write space addr bytes = mem_hdr LCC_MEMCFG_WRITE space addr @ bytes"

definition mem_read :: "u8 \<Rightarrow> u32 \<Rightarrow> u8 \<Rightarrow> u8 list" where
  "mem_read space addr count = mem_hdr LCC_MEMCFG_READ space addr @ [count]"

lemma mem_hdr_cmd:
  "bs \<noteq> [] \<Longrightarrow> is_write_cmd ((mem_hdr LCC_MEMCFG_WRITE space addr @ bs) ! 1)"
  "bs \<noteq> [] \<Longrightarrow> \<not> is_read_cmd ((mem_hdr LCC_MEMCFG_WRITE space addr @ bs) ! 1)"
  "bs \<noteq> [] \<Longrightarrow> is_read_cmd ((mem_hdr LCC_MEMCFG_READ space addr @ bs) ! 1)"
  using mem_hdr_decode(2) [of LCC_MEMCFG_WRITE bs space addr] mem_hdr_decode(2) [of LCC_MEMCFG_READ bs space addr]
  by (simp_all add: is_write_cmd_def is_read_cmd_def lcc_consts nth_append mem_hdr_def)

lemma mem_hdr_nth1: "(mem_hdr cmd space addr @ bs) ! 1 = mem_hdr cmd space addr ! 1"
  by (simp add: mem_hdr_def)

lemma parse_mem_write:
  assumes "bytes \<noteq> []" and "find_space node space mc = Some h" and "\<not> ms_read_only h" and "ms_write h \<noteq> None"
    and "addr < ms_size h"
  shows "parse_rw node (mem_write space addr bytes) mc =
    Inr \<lparr>rq_space = space, rq_addr = addr, rq_count = length bytes, rq_data = bytes, rq_h = h\<rparr>"
  using assms mem_hdr_decode(1,3) [of LCC_MEMCFG_WRITE bytes space addr] mem_hdr_cmd(2) [of bytes space addr]
  by (simp add: parse_rw_def mem_write_def mem_hdr_nth1 [simplified] LCC_MEMCFG_WRITE_def)

lemma parse_mem_read:
  assumes "count \<noteq> 0" and "find_space node space mc = Some h" and "ms_read h \<noteq> None"
  shows "parse_rw node (mem_read space addr count) mc =
    Inr \<lparr>rq_space = space, rq_addr = addr, rq_count = unat count, rq_data = [], rq_h = h\<rparr>"
  using assms mem_hdr_decode(1,3) [of LCC_MEMCFG_READ "[count]" space addr] mem_hdr_cmd(3) [of "[count]" space addr]
  by (simp add: parse_rw_def mem_read_def mem_hdr_nth1 [simplified] LCC_MEMCFG_READ_def unat_eq_zero)

lemma handle_mem_write:
  "bytes \<noteq> [] \<Longrightarrow> lcc_memconfig_handle node src (mem_write space addr bytes) mc =
   handle_write node src (mem_write space addr bytes) mc"
  using mem_hdr_cmd(1,2) [of bytes space addr] rw_commands_apart [of "mem_write space addr bytes ! 1"]
    mem_hdr_decode(3) [of LCC_MEMCFG_WRITE bytes space addr]
  by (simp add: lcc_memconfig_handle_def mem_write_def Let_def LCC_MEMCFG_WRITE_def)

lemma handle_mem_read:
  "lcc_memconfig_handle node src (mem_read space addr count) mc = handle_read node src (mem_read space addr count) mc"
  using mem_hdr_cmd(3) [of "[count]" space addr] rw_commands_apart [of "mem_read space addr count ! 1"]
    mem_hdr_decode(3) [of LCC_MEMCFG_READ "[count]" space addr]
  by (simp add: lcc_memconfig_handle_def mem_read_def Let_def LCC_MEMCFG_READ_def)

text \<open>The reply datagrams as the tool expects them.\<close>

lemma write_reply_bytes:
  assumes "bytes \<noteq> []"
  shows "read_write_reply (mem_write space addr bytes ! 1) space addr 0 [] = mem_hdr LCC_MEMCFG_WRITE_REPLY space addr"
  using assms high_spaces [of space]
  by (auto simp: read_write_reply_def mem_write_def mem_hdr_def lcc_consts Let_def)

lemma read_reply_bytes:
  assumes "length bytes \<le> 65"
  shows "read_write_reply (mem_read space addr count ! 1) space addr 0 bytes = mem_hdr LCC_MEMCFG_READ_REPLY space addr @ bytes"
  using assms high_spaces [of space]
  by (auto simp: read_write_reply_def mem_read_def mem_hdr_def lcc_consts Let_def LCC_DATAGRAM_MAX_def)

section \<open>The command station's spaces over the bus\<close>

text \<open>A node of the command station: its own spaces do not hide the configuration.\<close>

definition config_visible :: "u8 list \<Rightarrow> u8 list \<Rightarrow> ('t, config) mnode \<Rightarrow> config memconfig \<Rightarrow> bool" where
  "config_visible cdi mfg node mc \<longleftrightarrow> g_spaces mc = cs_spaces cdi mfg \<and> config_ok (the_rest mc) \<and>
     (\<forall>h\<in>set (node_spaces node). ms_space h \<notin> {LCC_SPACE_CONFIG, LCC_SPACE_ACDI_USER})"

lemma find_none: "\<forall>x\<in>set xs. \<not> P x \<Longrightarrow> find P xs = None"
  by (induction xs) auto

lemma visible_spaces:
  assumes "config_visible cdi mfg node mc"
  shows "find_space node LCC_SPACE_CONFIG mc = Some config_space"
    and "find_space node LCC_SPACE_ACDI_USER mc = Some acdi_user_space"
proof -
  have "find (\<lambda>h. ms_space h = LCC_SPACE_CONFIG) (node_spaces node) = None"
    "find (\<lambda>h. ms_space h = LCC_SPACE_ACDI_USER) (node_spaces node) = None"
    using assms by (auto simp: config_visible_def intro!: find_none)
  then show "find_space node LCC_SPACE_CONFIG mc = Some config_space"
    "find_space node LCC_SPACE_ACDI_USER mc = Some acdi_user_space"
    using assms by (simp_all add: find_space_def config_visible_def cs_spaces_def cdi_space_def config_space_def
        acdi_mfg_space_def acdi_user_space_def lcc_consts)
qed

abbreviation write_ok :: "('t, config) mnode \<Rightarrow> u16 \<Rightarrow> u8 \<Rightarrow> u32 \<Rightarrow> lcc_frame list" where
  "write_ok node src space addr \<equiv> lcc_datagram_send node src (mem_hdr LCC_MEMCFG_WRITE_REPLY space addr)"

abbreviation read_ok :: "('t, config) mnode \<Rightarrow> u16 \<Rightarrow> u8 \<Rightarrow> u32 \<Rightarrow> u8 list \<Rightarrow> lcc_frame list" where
  "read_ok node src space addr bytes \<equiv> lcc_datagram_send node src (mem_hdr LCC_MEMCFG_READ_REPLY space addr @ bytes)"

lemma space_sizes:
  "ms_size config_space = 0x200" "ms_size acdi_user_space = 0x80"
  by (simp_all add: config_space_def acdi_user_space_def lcc_consts)

lemma config_write_reply:
  assumes "config_visible cdi mfg node mc" and "bytes \<noteq> []" and "length bytes \<le> 65" and "unat addr + length bytes \<le> 512"
  shows "\<exists>c. lcc_memconfig_handle node src (mem_write LCC_SPACE_CONFIG addr bytes) mc =
      (write_ok node src LCC_SPACE_CONFIG addr, mc\<lparr>the_rest := c\<rparr>) \<and> config_ok c \<and>
    cs_config_mem c = patch (cs_config_mem (the_rest mc)) (unat addr) bytes"
proof -
  let ?rq = "\<lparr>rq_space = LCC_SPACE_CONFIG, rq_addr = addr, rq_count = length bytes, rq_data = bytes, rq_h = config_space\<rparr>"
  have "addr < 0x200" using assms(2,4) by (cases bytes) (simp_all add: word_less_nat_alt)
  then have p: "parse_rw node (mem_write LCC_SPACE_CONFIG addr bytes) mc = Inr ?rq"
    using assms(2) visible_spaces(1) [OF assms(1)]
    by (intro parse_mem_write) (simp_all add: space_sizes, simp_all add: config_space_def)
  have "length (mem_write LCC_SPACE_CONFIG addr bytes) < 256"
    using assms(3) by (simp add: mem_write_def mem_hdr_def)
  then show ?thesis
    using config_store.write_answer [OF p, of src] assms
      mem_hdr_cmd(2) [OF assms(2), of LCC_SPACE_CONFIG addr] write_reply_bytes [OF assms(2), of LCC_SPACE_CONFIG addr]
    by (auto simp: config_visible_def handle_mem_write send_reply_def space_sizes mem_write_def [symmetric])
      (simp_all add: config_space_def)
qed

lemma config_read_reply:
  assumes "config_visible cdi mfg node mc" and "count \<noteq> 0" and "unat count \<le> 65"
  shows "lcc_memconfig_handle node src (mem_read LCC_SPACE_CONFIG addr count) mc =
    (read_ok node src LCC_SPACE_CONFIG addr (take (unat count) (drop (unat addr) (cs_config_mem (the_rest mc)))), mc)"
proof -
  let ?rq = "\<lparr>rq_space = LCC_SPACE_CONFIG, rq_addr = addr, rq_count = unat count, rq_data = [], rq_h = config_space\<rparr>"
  have p: "parse_rw node (mem_read LCC_SPACE_CONFIG addr count) mc = Inr ?rq"
    using assms(2) visible_spaces(1) [OF assms(1)] by (intro parse_mem_read) (simp_all add: config_space_def)
  show ?thesis
    using config_store.read_answer [OF p, of src] assms mem_hdr_cmd(3) [of "[count]" LCC_SPACE_CONFIG addr]
      read_reply_bytes [of "take (unat count) (drop (unat addr) (cs_config_mem (the_rest mc)))" LCC_SPACE_CONFIG addr count]
    by (simp add: config_visible_def handle_mem_read send_reply_def space_sizes mem_read_def [symmetric])
      (simp add: config_space_def DEFERRED_DATA_MAX_def LCC_DATAGRAM_MAX_def min_def)
qed

lemma acdi_write_reply:
  assumes "config_visible cdi mfg node mc" and "bytes \<noteq> []" and "0 < unat addr" and "length bytes \<le> 65"
    and "unat addr + length bytes \<le> 128"
  shows "\<exists>c. lcc_memconfig_handle node src (mem_write LCC_SPACE_ACDI_USER addr bytes) mc =
      (write_ok node src LCC_SPACE_ACDI_USER addr, mc\<lparr>the_rest := c\<rparr>) \<and> config_ok c \<and>
    acdi_user_contents c = patch (acdi_user_contents (the_rest mc)) (unat addr) bytes"
proof -
  let ?rq = "\<lparr>rq_space = LCC_SPACE_ACDI_USER, rq_addr = addr, rq_count = length bytes, rq_data = bytes, rq_h = acdi_user_space\<rparr>"
  have "addr < 0x80" using assms(2,5) by (cases bytes) (simp_all add: word_less_nat_alt)
  then have p: "parse_rw node (mem_write LCC_SPACE_ACDI_USER addr bytes) mc = Inr ?rq"
    using assms(2) visible_spaces(2) [OF assms(1)]
    by (intro parse_mem_write) (simp_all add: space_sizes, simp_all add: acdi_user_space_def)
  have "length (mem_write LCC_SPACE_ACDI_USER addr bytes) < 256" and "1 \<le> addr"
    using assms(3,4) by (simp_all add: mem_write_def mem_hdr_def word_le_nat_alt)
  then show ?thesis
    using acdi_user_store.write_answer [OF p, of src] assms
      mem_hdr_cmd(2) [OF assms(2), of LCC_SPACE_ACDI_USER addr] write_reply_bytes [OF assms(2), of LCC_SPACE_ACDI_USER addr]
    by (auto simp: config_visible_def handle_mem_write send_reply_def space_sizes mem_write_def [symmetric])
      (simp_all add: acdi_user_space_def)
qed

text \<open>
  C13: What a configuration tool writes to the configuration space over the bus, 1 to 64 bytes at
  any address where they fit, it reads back: the write is acknowledged, every other byte of the
  configuration keeps its value, and the read reply carries exactly the bytes written.
\<close>

theorem config_write_then_read:
  assumes "config_visible cdi mfg node mc" and "bytes \<noteq> []" and "length bytes \<le> 64" and "unat addr + length bytes \<le> 512"
    and "lcc_memconfig_handle node src (mem_write LCC_SPACE_CONFIG addr bytes) mc = (fs, mc')"
  shows "fs = write_ok node src LCC_SPACE_CONFIG addr \<and>
    lcc_memconfig_handle node src (mem_read LCC_SPACE_CONFIG addr (of_nat (length bytes))) mc' =
      (read_ok node src LCC_SPACE_CONFIG addr bytes, mc') \<and>
    (\<forall>i<512. i < unat addr \<or> unat addr + length bytes \<le> i \<longrightarrow>
       cs_config_mem (the_rest mc') ! i = cs_config_mem (the_rest mc) ! i)"
proof -
  have len: "unat (of_nat (length bytes) :: u8) = length bytes" using assms(3) by (simp add: unat_of_nat_less)
  have l: "length (cs_config_mem (the_rest mc)) = 512"
    using assms(1) by (simp add: config_visible_def config_ok_def lcc_consts)
  obtain c where c: "lcc_memconfig_handle node src (mem_write LCC_SPACE_CONFIG addr bytes) mc =
      (write_ok node src LCC_SPACE_CONFIG addr, mc\<lparr>the_rest := c\<rparr>)" "config_ok c"
    "cs_config_mem c = patch (cs_config_mem (the_rest mc)) (unat addr) bytes"
    using config_write_reply [OF assms(1,2) _ assms(4)] assms(3) by auto
  with assms(5) have mc': "fs = write_ok node src LCC_SPACE_CONFIG addr" "mc' = mc\<lparr>the_rest := c\<rparr>" by simp_all
  then have "config_visible cdi mfg node mc'" using assms(1) c(2) by (simp add: config_visible_def)
  moreover have "(of_nat (length bytes) :: u8) \<noteq> 0" using len assms(2) by (auto simp: unat_eq_zero [symmetric])
  ultimately have "lcc_memconfig_handle node src (mem_read LCC_SPACE_CONFIG addr (of_nat (length bytes))) mc' =
      (read_ok node src LCC_SPACE_CONFIG addr bytes, mc')"
    using config_read_reply [of cdi mfg node mc' "of_nat (length bytes)" src addr] len assms(3,4) mc' c(3) l
    by (simp add: patch_read)
  then show ?thesis using mc' c(3) l assms(4) by (simp add: patch_outside)
qed

text \<open>
  The user name and description of the ACDI space are a view of the configuration: bytes
  written to it from address 1 on are acknowledged and are read back from the configuration
  space one address lower.
\<close>

theorem acdi_write_shows_in_config:
  assumes "config_visible cdi mfg node mc" and "bytes \<noteq> []" and "length bytes \<le> 64" and "0 < unat addr"
    and "unat addr + length bytes \<le> 128"
    and "lcc_memconfig_handle node src (mem_write LCC_SPACE_ACDI_USER addr bytes) mc = (fs, mc')"
  shows "fs = write_ok node src LCC_SPACE_ACDI_USER addr \<and>
    lcc_memconfig_handle node src (mem_read LCC_SPACE_CONFIG (addr - 1) (of_nat (length bytes))) mc' =
      (read_ok node src LCC_SPACE_CONFIG (addr - 1) bytes, mc')"
proof -
  have len: "unat (of_nat (length bytes) :: u8) = length bytes" using assms(3) by (simp add: unat_of_nat_less)
  obtain c where c: "lcc_memconfig_handle node src (mem_write LCC_SPACE_ACDI_USER addr bytes) mc =
      (write_ok node src LCC_SPACE_ACDI_USER addr, mc\<lparr>the_rest := c\<rparr>)" "config_ok c"
    "acdi_user_contents c = patch (acdi_user_contents (the_rest mc)) (unat addr) bytes"
    using acdi_write_reply [OF assms(1,2,4) _ assms(5)] assms(3) by auto
  with assms(6) have mc': "fs = write_ok node src LCC_SPACE_ACDI_USER addr" "mc' = mc\<lparr>the_rest := c\<rparr>" by simp_all
  then have v: "config_visible cdi mfg node mc'" using assms(1) c(2) by (simp add: config_visible_def)
  have n: "(of_nat (length bytes) :: u8) \<noteq> 0" using len assms(2) by (auto simp: unat_eq_zero [symmetric])
  have l: "length (acdi_user_contents (the_rest mc)) = 128" "length (cs_config_mem c) = 512"
    using assms(1) c(2) by (simp_all add: config_visible_def config_ok_def acdi_user_contents_def lcc_consts)
  have "bytes = take (length bytes) (drop (unat addr) (acdi_user_contents c))"
    unfolding c(3) using l assms(5) by (simp add: patch_read)
  also have "\<dots> = take (length bytes) (drop (unat addr - 1) (cs_config_mem c))"
    using assms(4,5) l(2) by (cases "unat addr") (simp_all add: acdi_user_contents_def drop_take min_def)
  also have "unat addr - 1 = unat (addr - 1)"
    using assms(4) by (simp add: unat_minus_one unat_gt_0)
  finally have "take (length bytes) (drop (unat (addr - 1)) (cs_config_mem c)) = bytes" by simp
  then show ?thesis using config_read_reply [OF v n, of src "addr - 1"] len assms(3) mc' by simp
qed

section \<open>Persistence\<close>

lemma page_take:
  assumes "length buffer = CONFIG_MEM_SIZE"
  shows "take CONFIG_MEM_SIZE (flash_write_callback (page_buffer buffer) (prog_size (length buffer)) fl) = buffer"
  using assms by (simp add: flash_write_callback_def page_buffer_def prog_size_def FLASH_PAGE_SIZE_def
      FLASH_SECTOR_SIZE_def CONFIG_MEM_SIZE_def)

definition not_erased :: "u8 list \<Rightarrow> bool" where
  "not_erased mem \<longleftrightarrow> (\<exists>b\<in>set mem. b \<noteq> 0xFF)"

text \<open>A configuration that loading leaves as it is.\<close>

definition settled :: "u8 list \<Rightarrow> bool" where
  "settled mem \<longleftrightarrow> length mem = CONFIG_MEM_SIZE \<and> not_erased mem \<and> be16_at mem CONFIG_OFFSET_MAIN_LIMIT \<noteq> 0 \<and>
     mem ! CONFIG_OFFSET_PINS_MAIN \<noteq> 0 \<and> mem ! CONFIG_OFFSET_DISPLAY_ADDR \<noteq> 0 \<and> mem ! CONFIG_OFFSET_MCP_SCK \<noteq> 0 \<and>
     mem ! CONFIG_OFFSET_VERSION \<noteq> 0"

lemma load_settled:
  assumes "settled mem" and "take CONFIG_MEM_SIZE (flash c) = mem"
  shows "lcc_interface_load_config c = c\<lparr>cs_config_mem := mem\<rparr>"
  using assms by (auto simp: lcc_interface_load_config_def nv_storage_init_def settled_def not_erased_def Let_def
      migrate_version_def FLASH_SECTOR_SIZE_def CONFIG_MEM_SIZE_def not_less)

lemma set_bytes_length [simp]: "length (set_bytes i bs mem) = length mem"
proof -
  have "length (fold (\<lambda>(k, b) m. m[k := b]) ps mem) = length mem" for ps
    by (induction ps arbitrary: mem) auto
  then show ?thesis by (simp add: set_bytes_def)
qed

lemma set_bytes_Nil: "set_bytes i [] mem = mem"
  by (simp add: set_bytes_def)

lemma set_bytes_Cons: "set_bytes i (b # bs) mem = set_bytes (Suc i) bs (mem[i := b])"
proof -
  have "[i..<i + length (b # bs)] = i # [Suc i..<Suc i + length bs]" by (simp add: upt_conv_Cons del: upt_Suc)
  then show ?thesis by (simp add: set_bytes_def)
qed

lemmas set_bytes_simps = set_bytes_Nil set_bytes_Cons

lemma defaults_length: "length config_mem_init_defaults = CONFIG_MEM_SIZE"
  by (simp add: config_mem_init_defaults_def Let_def)

lemma defaults_settled: "settled config_mem_init_defaults"
proof -
  have "config_mem_init_defaults ! CONFIG_OFFSET_VERSION = 1"
    "be16_at config_mem_init_defaults CONFIG_OFFSET_MAIN_LIMIT = 2000"
    "config_mem_init_defaults ! CONFIG_OFFSET_PINS_MAIN = 22"
    "config_mem_init_defaults ! CONFIG_OFFSET_DISPLAY_ADDR = 0x3C"
    "config_mem_init_defaults ! CONFIG_OFFSET_MCP_SCK = 14"
    by (simp_all add: config_mem_init_defaults_def Let_def lcc_consts set_bytes_simps be16_at_def)
  moreover from this(1) have "1 \<in> set config_mem_init_defaults"
    using nth_mem [of CONFIG_OFFSET_VERSION config_mem_init_defaults] by (simp add: defaults_length lcc_consts)
  ultimately show ?thesis using defaults_length
    by (auto simp: settled_def not_erased_def intro!: bexI [of _ 1])
qed

lemma be16_update: "i \<noteq> k \<Longrightarrow> i + 1 \<noteq> k \<Longrightarrow> be16_at (mem[k := b]) i = be16_at mem i"
  by (simp add: be16_at_def)

lemma migrate_settled:
  assumes "length mem = CONFIG_MEM_SIZE" and "be16_at mem CONFIG_OFFSET_MAIN_LIMIT \<noteq> 0"
    and "mem ! CONFIG_OFFSET_PINS_MAIN \<noteq> 0" and "mem ! CONFIG_OFFSET_DISPLAY_ADDR \<noteq> 0"
    and "mem ! CONFIG_OFFSET_MCP_SCK \<noteq> 0" and "not_erased mem"
  shows "settled (fst (migrate_version (mem, d)))"
    and "\<not> snd (migrate_version (mem, d)) \<Longrightarrow> fst (migrate_version (mem, d)) = mem"
proof -
  have one: "1 \<in> set (m[CONFIG_OFFSET_VERSION := 1])" if "length m = CONFIG_MEM_SIZE" for m :: "u8 list"
    using that by (intro set_update_memI) (simp add: lcc_consts)
  have "not_erased (m[CONFIG_OFFSET_VERSION := 1])" if "length m = CONFIG_MEM_SIZE" for m
    using one [OF that] by (auto simp: not_erased_def intro!: bexI [of _ 1])
  with assms show "settled (fst (migrate_version (mem, d)))"
    by (auto simp: migrate_version_def settled_def Let_def lcc_consts be16_update not_less)
  show "fst (migrate_version (mem, d)) = mem" if "\<not> snd (migrate_version (mem, d))"
    using that by (auto simp: migrate_version_def Let_def split: if_splits)
qed

lemma seeded:
  assumes "length mem = CONFIG_MEM_SIZE" and "be16_at mem CONFIG_OFFSET_MAIN_LIMIT \<noteq> 0"
    and "mem ! CONFIG_OFFSET_PINS_MAIN \<noteq> 0" and "mem ! CONFIG_OFFSET_DISPLAY_ADDR \<noteq> 0"
  defines "seeded_mem \<equiv> set_bytes CONFIG_OFFSET_MCP_EN mcp2515_defaults mem"
  shows "length seeded_mem = CONFIG_MEM_SIZE" and "be16_at seeded_mem CONFIG_OFFSET_MAIN_LIMIT \<noteq> 0"
    and "seeded_mem ! CONFIG_OFFSET_PINS_MAIN \<noteq> 0" and "seeded_mem ! CONFIG_OFFSET_DISPLAY_ADDR \<noteq> 0"
    and "seeded_mem ! CONFIG_OFFSET_MCP_SCK \<noteq> 0" and "not_erased seeded_mem"
proof -
  have "seeded_mem ! CONFIG_OFFSET_MCP_SCK = 14"
    using assms(1) by (simp add: seeded_mem_def set_bytes_simps lcc_consts)
  then show "seeded_mem ! CONFIG_OFFSET_MCP_SCK \<noteq> 0" and "not_erased seeded_mem"
    using nth_mem [of CONFIG_OFFSET_MCP_SCK seeded_mem] assms(1)
    by (auto simp: not_erased_def seeded_mem_def lcc_consts intro!: bexI [of _ 14])
qed (use assms in \<open>simp_all add: seeded_mem_def set_bytes_simps lcc_consts be16_update\<close>)

lemma load_gives_settled:
  assumes "length (flash c) = FLASH_SECTOR_SIZE" and "\<not> cs_config_dirty c"
  shows "settled (cs_config_mem (lcc_interface_load_config c))"
    and "\<not> cs_config_dirty (lcc_interface_load_config c) \<Longrightarrow>
      take CONFIG_MEM_SIZE (flash c) = cs_config_mem (lcc_interface_load_config c)"
proof -
  let ?mem = "take CONFIG_MEM_SIZE (flash c)"
  have l: "length ?mem = CONFIG_MEM_SIZE" using assms(1) by (simp add: FLASH_SECTOR_SIZE_def CONFIG_MEM_SIZE_def)
  consider "\<not> not_erased ?mem"
    | "not_erased ?mem" "be16_at ?mem CONFIG_OFFSET_MAIN_LIMIT = 0 \<or> ?mem ! CONFIG_OFFSET_PINS_MAIN = 0 \<or> ?mem ! CONFIG_OFFSET_DISPLAY_ADDR = 0"
    | "not_erased ?mem" "be16_at ?mem CONFIG_OFFSET_MAIN_LIMIT \<noteq> 0" "?mem ! CONFIG_OFFSET_PINS_MAIN \<noteq> 0"
      "?mem ! CONFIG_OFFSET_DISPLAY_ADDR \<noteq> 0" by blast
  then have "settled (cs_config_mem (lcc_interface_load_config c)) \<and>
    (\<not> cs_config_dirty (lcc_interface_load_config c) \<longrightarrow> ?mem = cs_config_mem (lcc_interface_load_config c))"
  proof cases
    case 1
    then have "nv_storage_init CONFIG_MEM_SIZE (flash c) = None"
      by (simp add: nv_storage_init_def not_erased_def)
    then show ?thesis using defaults_settled by (simp add: lcc_interface_load_config_def)
  next
    case 2
    then have i: "nv_storage_init CONFIG_MEM_SIZE (flash c) = Some ?mem"
      by (simp add: nv_storage_init_def not_erased_def FLASH_SECTOR_SIZE_def CONFIG_MEM_SIZE_def)
    have "\<not> config_mem_init_defaults ! CONFIG_OFFSET_VERSION < 1"
      using defaults_settled by (simp add: settled_def not_less)
    with 2(2) i show ?thesis using defaults_settled
      by (simp add: lcc_interface_load_config_def migrate_version_def)
  next
    case 3
    then have i: "nv_storage_init CONFIG_MEM_SIZE (flash c) = Some ?mem"
      by (simp add: nv_storage_init_def not_erased_def FLASH_SECTOR_SIZE_def CONFIG_MEM_SIZE_def)
    show ?thesis
    proof (cases "?mem ! CONFIG_OFFSET_MCP_SCK = 0")
      case True
      let ?r = "migrate_version (set_bytes CONFIG_OFFSET_MCP_EN mcp2515_defaults ?mem, True)"
      have "lcc_interface_load_config c = c\<lparr>cs_config_mem := fst ?r, cs_config_dirty := snd ?r\<rparr>"
        using i 3 True by (simp add: lcc_interface_load_config_def Let_def split_beta)
      moreover have "snd ?r" by (simp add: migrate_version_def Let_def)
      moreover have "settled (fst ?r)" by (rule migrate_settled(1) [OF seeded [OF l 3(2-4)]])
      ultimately show ?thesis by simp
    next
      case False
      let ?r = "migrate_version (?mem, False)"
      have "lcc_interface_load_config c = c\<lparr>cs_config_mem := fst ?r, cs_config_dirty := snd ?r\<rparr>"
        using i 3 False assms(2) by (simp add: lcc_interface_load_config_def Let_def split_beta)
      moreover have "settled (fst ?r)" "\<not> snd ?r \<Longrightarrow> fst ?r = ?mem"
        by (rule migrate_settled [OF l 3(2-4) False 3(1)], assumption?)+
      ultimately show ?thesis by simp
    qed
  qed
  then show "settled (cs_config_mem (lcc_interface_load_config c))"
    and "\<not> cs_config_dirty (lcc_interface_load_config c) \<Longrightarrow> ?mem = cs_config_mem (lcc_interface_load_config c)"
    by blast+
qed

text \<open>
  C14: Start-up settles the configuration, whatever the flash sector holds (erased, garbage, an
  image of any older version): once the defaults or migrations it applied have been flushed,
  the next start loads the same configuration and finds nothing to change.
\<close>

theorem load_settles:
  assumes "length (flash c) = FLASH_SECTOR_SIZE" and "\<not> cs_config_dirty c"
    and "c1 = flash_flush_timer_callback True True (lcc_interface_load_config c)"
    and "flash c2 = flash c1" and "\<not> cs_config_dirty c2"
  shows "cs_config_mem (lcc_interface_load_config c2) = cs_config_mem c1 \<and> \<not> cs_config_dirty (lcc_interface_load_config c2)"
proof -
  let ?l = "lcc_interface_load_config c"
  have s: "settled (cs_config_mem ?l)" by (rule load_gives_settled(1) [OF assms(1,2)])
  then have len: "length (cs_config_mem ?l) = CONFIG_MEM_SIZE" by (simp add: settled_def)
  have f: "flash ?l = flash c"
    by (simp add: lcc_interface_load_config_def Let_def split: option.splits prod.splits)
  have "take CONFIG_MEM_SIZE (flash c1) = cs_config_mem ?l"
    using load_gives_settled(2) [OF assms(1,2)] page_take [OF len] len f
    by (simp add: assms(3) flash_flush_timer_callback_def flush_begin_def flush_finish_def nv_storage_write_def
        FLASH_SECTOR_SIZE_def CONFIG_MEM_SIZE_def)
  moreover have "cs_config_mem c1 = cs_config_mem ?l"
    by (simp add: assms(3) flash_flush_timer_callback_def flush_begin_def flush_finish_def split: prod.splits)
  ultimately show ?thesis using load_settled [OF s, of c2] assms(4,5) by simp
qed

text \<open>
  What a user saves survives: the configuration in memory, when it is flushed, is the one
  the next start loads, provided it is \<open>settled\<close>.
\<close>

lemma flush_persists:
  assumes "settled (cs_config_mem c)" and "cs_config_dirty c" and "flash c2 = flash (flash_flush_timer_callback True True c)"
  shows "cs_config_mem (lcc_interface_load_config c2) = cs_config_mem c"
  using load_settled [OF assms(1), of c2] page_take [of "cs_config_mem c"] assms
  by (simp add: flash_flush_timer_callback_def flush_begin_def flush_finish_def nv_storage_write_def settled_def
      FLASH_SECTOR_SIZE_def CONFIG_MEM_SIZE_def)

text \<open>
  The flush clears the dirty flag after it has written the copy: a write that another task
  makes in between is marked clean without being in flash, and later flushes do nothing.
\<close>

theorem flush_loses_concurrent_write:
  assumes "settled (cs_config_mem c)" and "cs_config_dirty c" and "bytes \<noteq> []" and "unat addr + length bytes \<le> 512"
    and "c1 = flush_finish True True (flush_begin c) (snd (config_write node addr bytes c))"
    and "flash c2 = flash (flash_flush_timer_callback True True c1)"
  shows "cs_config_mem c1 = patch (cs_config_mem c) (unat addr) bytes \<and> \<not> cs_config_dirty c1 \<and>
    flash_flush_timer_callback True True c1 = c1 \<and> cs_config_mem (lcc_interface_load_config c2) = cs_config_mem c"
proof -
  have w: "cs_config_mem (snd (config_write node addr bytes c)) = patch (cs_config_mem c) (unat addr) bytes"
    using assms(3,4) by (intro config_write_memory(2)) (simp_all add: lcc_consts)
  have "length (cs_config_mem c) = CONFIG_MEM_SIZE" using assms(1) by (simp add: settled_def)
  then have c1: "cs_config_mem c1 = patch (cs_config_mem c) (unat addr) bytes" "\<not> cs_config_dirty c1"
    "take CONFIG_MEM_SIZE (flash c1) = cs_config_mem c"
    using w page_take [of "cs_config_mem c"] assms(2)
    by (simp_all add: assms(5) flush_begin_def flush_finish_def nv_storage_write_def FLASH_SECTOR_SIZE_def CONFIG_MEM_SIZE_def)
  then have "flash_flush_timer_callback True True c1 = c1"
    by (simp add: flash_flush_timer_callback_def flush_begin_def flush_finish_def)
  then show ?thesis using c1 load_settled [OF assms(1), of c2] assms(6) by simp
qed

section \<open>The properties at work\<close>

text \<open>A command station with default configuration and erased flash.\<close>

definition fresh_config :: config where
  "fresh_config = \<lparr>cs_config_mem = config_mem_init_defaults, cs_config_dirty = False,
     flash_flush_timer = Some (2000, False), flash = replicate FLASH_SECTOR_SIZE 0xFF, effects = []\<rparr>"

definition fresh_memconfig :: "config memconfig" where
  "fresh_memconfig = \<lparr>g_spaces = cs_spaces [] [], g_reboot = None, g_factory_reset = None,
     g_deferred = \<lparr>df_state = DEFERRED_IDLE, df_node = 0, df_src_alias = 0, df_cmd = 0, df_space = 0, df_addr = 0,
       df_error = 0, df_data = []\<rparr>, the_rest = fresh_config\<rparr>"

definition cs_node :: "(unit, config) mnode" where
  "cs_node = (lcc_node_init 0x0A0000000001 LCC_ROLE_CS)\<lparr>node_alias := 0x222\<rparr>"

lemma fresh_visible: "config_visible [] [] cs_node fresh_memconfig"
  by (simp add: config_visible_def fresh_memconfig_def fresh_config_def cs_node_def lcc_node_init_def config_ok_def
      defaults_length)

lemma config_write_then_read_witness:
  "\<exists>mc'. lcc_memconfig_handle cs_node 0x111 (mem_read LCC_SPACE_CONFIG 129 2) mc' =
     (read_ok cs_node 0x111 LCC_SPACE_CONFIG 129 [0x0B, 0xB8], mc')"
proof -
  obtain fs mc' where h: "lcc_memconfig_handle cs_node 0x111 (mem_write LCC_SPACE_CONFIG 129 [0x0B, 0xB8]) fresh_memconfig = (fs, mc')"
    by fastforce
  show ?thesis
    using config_write_then_read [OF fresh_visible _ _ _ h] by auto
qed

lemma load_settles_witness:
  "\<exists>c1. cs_config_mem (lcc_interface_load_config (c1\<lparr>cs_config_dirty := False\<rparr>)) = cs_config_mem c1 \<and>
     cs_config_mem c1 = config_mem_init_defaults"
proof -
  let ?c1 = "flash_flush_timer_callback True True (lcc_interface_load_config fresh_config)"
  have "set (take n (replicate m x)) \<subseteq> {x}" for n m and x :: u8 by (auto dest: in_set_takeD)
  then have "nv_storage_init CONFIG_MEM_SIZE (replicate FLASH_SECTOR_SIZE 0xFF) = None"
    by (auto simp: nv_storage_init_def)
  then have "cs_config_mem (lcc_interface_load_config fresh_config) = config_mem_init_defaults"
    by (simp add: lcc_interface_load_config_def fresh_config_def)
  then have "cs_config_mem ?c1 = config_mem_init_defaults"
    by (simp add: flash_flush_timer_callback_def flush_begin_def flush_finish_def split: prod.splits)
  moreover have "cs_config_mem (lcc_interface_load_config (?c1\<lparr>cs_config_dirty := False\<rparr>)) = cs_config_mem ?c1"
    using load_settles [OF _ _ refl, of fresh_config "?c1\<lparr>cs_config_dirty := False\<rparr>"]
    by (simp add: fresh_config_def)
  ultimately show ?thesis by blast
qed

end
