(* ===== verification/Lcc_Traction.thy ===== *)
theory Lcc_Traction
  imports Lcc_Memconfig "HOL-Library.Log_Nat"
begin

text \<open>
  The Traction protocol of a train node, \<^verbatim>\<open>src/src/lcc/lcc_traction.c\<close>, \<^verbatim>\<open>lcc_traction.h\<close> and
  \<^verbatim>\<open>lcc_float16.c\<close>: the state of a train, the commands that set its speed and functions and the
  queries, its controller and its consist with the forwarding to the slaves, the reassembly of
  messages of several frames, and the memory space of its CVs. The DCC engine and RailCom are
  behind hooks.
\<close>

section \<open>Constants\<close>

definition LCC_MTI_TRACTION_CONTROL_COMMAND :: u16 where [lcc_consts]: "LCC_MTI_TRACTION_CONTROL_COMMAND = 0x05EB"
definition LCC_MTI_TRACTION_CONTROL_REPLY :: u16 where [lcc_consts]: "LCC_MTI_TRACTION_CONTROL_REPLY = 0x01E9"
definition LCC_TRAC_SET_SPEED_DIR :: u8 where [lcc_consts]: "LCC_TRAC_SET_SPEED_DIR = 0x00"
definition LCC_TRAC_SET_FN :: u8 where [lcc_consts]: "LCC_TRAC_SET_FN = 0x01"
definition LCC_TRAC_EMERGENCY_STOP :: u8 where [lcc_consts]: "LCC_TRAC_EMERGENCY_STOP = 0x02"
definition LCC_TRAC_QUERY_SPEEDS :: u8 where [lcc_consts]: "LCC_TRAC_QUERY_SPEEDS = 0x10"
definition LCC_TRAC_QUERY_FUNCTION :: u8 where [lcc_consts]: "LCC_TRAC_QUERY_FUNCTION = 0x11"
definition LCC_TRAC_CONTROLLER_CFG :: u8 where [lcc_consts]: "LCC_TRAC_CONTROLLER_CFG = 0x20"
definition LCC_TRAC_CONSIST_CFG :: u8 where [lcc_consts]: "LCC_TRAC_CONSIST_CFG = 0x30"
definition LCC_TRAC_REQ_LISTENER :: u8 where [lcc_consts]: "LCC_TRAC_REQ_LISTENER = 0x80"
definition LCC_TRAC_SPEED_STATUS_ESTOP :: u8 where [lcc_consts]: "LCC_TRAC_SPEED_STATUS_ESTOP = 0x01"
definition LCC_CTRLREQ_ASSIGN :: u8 where [lcc_consts]: "LCC_CTRLREQ_ASSIGN = 0x01"
definition LCC_CTRLREQ_RELEASE :: u8 where [lcc_consts]: "LCC_CTRLREQ_RELEASE = 0x02"
definition LCC_CTRLREQ_QUERY :: u8 where [lcc_consts]: "LCC_CTRLREQ_QUERY = 0x03"
definition LCC_CTRLREQ_NOTIFY_CHANGED :: u8 where [lcc_consts]: "LCC_CTRLREQ_NOTIFY_CHANGED = 0x04"
definition LCC_CTRLRESP_OK :: u8 where [lcc_consts]: "LCC_CTRLRESP_OK = 0x00"
definition LCC_CTRLRESP_ERR_CONTROLLER :: u8 where [lcc_consts]: "LCC_CTRLRESP_ERR_CONTROLLER = 0x01"
definition LCC_CNSTREQ_ATTACH_NODE :: u8 where [lcc_consts]: "LCC_CNSTREQ_ATTACH_NODE = 0x01"
definition LCC_CNSTREQ_DETACH_NODE :: u8 where [lcc_consts]: "LCC_CNSTREQ_DETACH_NODE = 0x02"
definition LCC_CNSTREQ_QUERY_NODES :: u8 where [lcc_consts]: "LCC_CNSTREQ_QUERY_NODES = 0x03"
definition LCC_CNSTFLAGS_REVERSE :: u8 where [lcc_consts]: "LCC_CNSTFLAGS_REVERSE = 0x02"
definition LCC_CNSTFLAGS_LINKF0 :: u8 where [lcc_consts]: "LCC_CNSTFLAGS_LINKF0 = 0x04"
definition LCC_CNSTFLAGS_LINKFN :: u8 where [lcc_consts]: "LCC_CNSTFLAGS_LINKFN = 0x08"
definition LCC_ERR_OK :: u16 where [lcc_consts]: "LCC_ERR_OK = 0x0000"
definition LCC_ERR_NOT_FOUND :: u16 where [lcc_consts]: "LCC_ERR_NOT_FOUND = 0x1030"
definition LCC_ERR_ALREADY_EXISTS :: u16 where [lcc_consts]: "LCC_ERR_ALREADY_EXISTS = 0x1032"
definition LCC_MAX_CONSIST_SLAVES :: nat where "LCC_MAX_CONSIST_SLAVES = 4"

section \<open>State\<close>

record lcc_consist_entry =
  ce_node_id :: u64
  ce_flags :: u8

text \<open>
  The state of a train; \<open>tn_rx_buf\<close> is the \<open>rx_len\<close> bytes received so far.
\<close>

record lcc_train_state =
  tn_dcc_address :: u16
  tn_is_long_address :: bool
  tn_last_speed_f16 :: u16
  tn_fn_state :: u64
  tn_fn_state_hi :: u8
  tn_emergency :: bool
  tn_controller_owner :: u64
  tn_controller_alias :: u16
  tn_pending_search_event :: u64
  tn_consist :: "lcc_consist_entry list"
  tn_rx_buf :: "u8 list"
  tn_rx_src :: u16
  tn_rx_active :: bool
  tn_pom_cv_index :: u16

definition empty_entry :: lcc_consist_entry where
  "empty_entry = \<lparr>ce_node_id = 0, ce_flags = 0\<rparr>"

definition lcc_train_state_init :: "u16 \<Rightarrow> bool \<Rightarrow> lcc_train_state" where
  "lcc_train_state_init dcc_address is_long_address =
     \<lparr>tn_dcc_address = dcc_address, tn_is_long_address = is_long_address, tn_last_speed_f16 = 0, tn_fn_state = 0,
      tn_fn_state_hi = 0, tn_emergency = False, tn_controller_owner = 0, tn_controller_alias = 0,
      tn_pending_search_event = 0, tn_consist = replicate LCC_MAX_CONSIST_SLAVES empty_entry, tn_rx_buf = [],
      tn_rx_src = 0, tn_rx_active = False, tn_pom_cv_index = 0\<rparr>"

text \<open>The hooks act on the rest of the program, \<open>'w\<close>; \<open>None\<close> is NULL.\<close>

record 'w lcc_traction_hooks =
  hk_set_throttle :: "(u16 \<Rightarrow> bool \<Rightarrow> u8 \<Rightarrow> bool \<Rightarrow> 'w \<Rightarrow> 'w) option"
  hk_set_function :: "(u16 \<Rightarrow> bool \<Rightarrow> u16 \<Rightarrow> bool \<Rightarrow> 'w \<Rightarrow> 'w) option"
  hk_emergency_stop :: "(u16 \<Rightarrow> bool \<Rightarrow> 'w \<Rightarrow> 'w) option"
  hk_global_estop_held :: "('w \<Rightarrow> bool) option"
  hk_pom_write_byte :: "(u16 \<Rightarrow> bool \<Rightarrow> u16 \<Rightarrow> u8 \<Rightarrow> 'w \<Rightarrow> 'w) option"
  hk_pom_write_long_address :: "(u16 \<Rightarrow> bool \<Rightarrow> u8 \<Rightarrow> u8 \<Rightarrow> 'w \<Rightarrow> 'w) option"
  hk_pom_write_consist :: "(u16 \<Rightarrow> bool \<Rightarrow> u8 \<Rightarrow> 'w \<Rightarrow> 'w) option"
  hk_pom_write_long_consist :: "(u16 \<Rightarrow> bool \<Rightarrow> u8 \<Rightarrow> u8 \<Rightarrow> 'w \<Rightarrow> 'w) option"
  hk_pom_read_byte :: "(u16 \<Rightarrow> bool \<Rightarrow> u16 \<Rightarrow> 'w \<Rightarrow> u16 \<times> 'w) option"

section \<open>Speeds: \<open>lcc_float16.c\<close>\<close>

definition lcc_float16_is_nan :: "u16 \<Rightarrow> bool" where
  "lcc_float16_is_nan v \<longleftrightarrow> shr v 10 AND 0x1F = 0x1F \<and> v AND 0x3FF \<noteq> 0"

definition lcc_float16_is_zero :: "u16 \<Rightarrow> bool" where
  "lcc_float16_is_zero v \<longleftrightarrow> v AND 0x7FFF = 0"

definition lcc_float16_is_negative :: "u16 \<Rightarrow> bool" where
  "lcc_float16_is_negative v \<longleftrightarrow> v AND 0x8000 \<noteq> 0"

text \<open>
  The magnitude of \<open>lcc_float16_to_float\<close> in units of \<open>2 ^ -24\<close>, the smallest subnormal: a
  binary32 number holds it exactly. \<open>None\<close> is an infinity (or NaN, which the caller has
  excluded).
\<close>

definition float16_magnitude :: "u16 \<Rightarrow> nat option" where
  "float16_magnitude v =
     (let e = unat (shr v 10 AND 0x1F); frac = unat (v AND 0x3FF)
      in if e = 0 then Some frac
         else if e = 0x1F then None
         else Some ((frac + 1024) * 2 ^ (e - 1)))"

text \<open>
  \<open>(int)(a / b)\<close> in binary32 for integers: the quotient is rounded to 24 significant bits, to
  nearest and ties to even, and then truncated. Below 1/2 a coarser rounding than the
  hardware's is used, as both truncate to 0.
\<close>

definition f32_quotient_to_int :: "nat \<Rightarrow> nat \<Rightarrow> nat" where
  "f32_quotient_to_int a b =
     (let k = 24 - floorlog 2 (a div b);
          n = a * 2 ^ k;
          m = n div b; r = n mod b;
          m = (if 2 * r > b \<or> (2 * r = b \<and> odd m) then m + 1 else m)
      in m div 2 ^ k)"

text \<open>
  \<open>speed * 126.0f / 126.8f\<close>: the product is exact in binary32, and \<open>126.8f\<close> is
  \<open>8309965 / 2 ^ 16\<close>. For an infinity the conversion to \<open>int\<close> is undefined in C; the model
  takes the largest step, which is what the clamp is for.
\<close>

definition f16_to_dcc_speed_step :: "u16 \<Rightarrow> u8" where
  "f16_to_dcc_speed_step v =
     (if lcc_float16_is_nan v then 1
      else if lcc_float16_is_zero v then 0
      else case float16_magnitude v of
             None \<Rightarrow> 127
           | Some s \<Rightarrow>
               (let step = f32_quotient_to_int (s * 126) (8309965 * 2 ^ 8) + 2
                in if step < 2 then 2 else if step > 127 then 127 else of_nat step))"

section \<open>The traction CV space\<close>

definition CV_LONG_ADDRESS :: u16 where [lcc_consts]: "CV_LONG_ADDRESS = 17"
definition CV_CONSIST_ADDRESS :: u16 where [lcc_consts]: "CV_CONSIST_ADDRESS = 19"
definition CV_DIRECT_COUNT :: u32 where [lcc_consts]: "CV_DIRECT_COUNT = 1024"
definition CV_OFFSET_INDEX :: u32 where [lcc_consts]: "CV_OFFSET_INDEX = 0x7F000000"
definition CV_OFFSET_VALUE :: u32 where [lcc_consts]: "CV_OFFSET_VALUE = 0x7F000004"
definition CV_OFFSET_VERIFY_VALUE :: u32 where [lcc_consts]: "CV_OFFSET_VERIFY_VALUE = 0x7F000005"
definition CV_OFFSET_VERIFY_RESULT :: u32 where [lcc_consts]: "CV_OFFSET_VERIFY_RESULT = 0x7F000006"
definition CV_SPACE_SIZE :: u32 where [lcc_consts]: "CV_SPACE_SIZE = 0x7F000007"
definition LCC_SPACE_DCC_CV :: u8 where [lcc_consts]: "LCC_SPACE_DCC_CV = 0xF8"

text \<open>The latched CV number as the four bytes of the index register.\<close>

definition cv_index_bytes :: "u16 \<Rightarrow> u8 list" where
  "cv_index_bytes cv = [0, 0, u8_of (shr cv 8 AND 0xFF), u8_of (cv AND 0xFF)]"

text \<open>The handlers get the train of the node; the bytes read and the error.\<close>

definition cv_space_read :: "'w lcc_traction_hooks \<Rightarrow> lcc_train_state \<Rightarrow> u32 \<Rightarrow> nat \<Rightarrow> u8 list \<times> u16" where
  "cv_space_read hooks t addr count =
     (if addr \<ge> CV_OFFSET_INDEX \<and> addr < CV_OFFSET_VALUE
      then let off = addr - CV_OFFSET_INDEX; avail = 4 - unat off;
               count = (if count > avail then avail else count)
           in (take count (drop (unat off) (cv_index_bytes (tn_pom_cv_index t))), 0)
      else if addr < CV_DIRECT_COUNT \<or> addr = CV_OFFSET_VALUE
      then (if hk_pom_read_byte hooks = None then ([], LCC_ERR_UNIMPLEMENTED_CMD)
            else let cv = tn_pom_cv_index t
                 in if addr = CV_OFFSET_VALUE \<and> (cv = 0 \<or> u32_of cv > CV_DIRECT_COUNT)
                    then ([], LCC_ERR_INVALID_ARGUMENTS) else ([], LCC_MEMCFG_DEFER))
      else if addr > CV_OFFSET_VALUE then ([], LCC_ERR_UNIMPLEMENTED_CMD)
      else ([], LCC_ERR_OUT_OF_BOUNDS))"

text \<open>How many CVs it took, and the world after the hook.\<close>

definition write_cvs :: "'w lcc_traction_hooks \<Rightarrow> lcc_train_state \<Rightarrow> u16 \<Rightarrow> u8 list \<Rightarrow> 'w \<Rightarrow> nat \<times> 'w" where
  "write_cvs hooks t cv bytes w =
     (let addr = tn_dcc_address t; long = tn_is_long_address t
      in if cv = CV_LONG_ADDRESS \<and> length bytes \<ge> 2
         then (2, case hk_pom_write_long_address hooks of Some f \<Rightarrow> f addr long (bytes ! 0) (bytes ! 1) w | None \<Rightarrow> w)
         else if cv = CV_CONSIST_ADDRESS \<and> length bytes \<ge> 2
         then (2, case hk_pom_write_long_consist hooks of Some f \<Rightarrow> f addr long (bytes ! 0) (bytes ! 1) w | None \<Rightarrow> w)
         else if cv = CV_CONSIST_ADDRESS
         then (1, case hk_pom_write_consist hooks of Some f \<Rightarrow> f addr long (bytes ! 0) w | None \<Rightarrow> w)
         else (1, case hk_pom_write_byte hooks of Some f \<Rightarrow> f addr long cv (bytes ! 0) w | None \<Rightarrow> w))"

definition be32_u16 :: "u8 list \<Rightarrow> u16" where
  "be32_u16 b = u16_of (shl (u32_of (b ! 0)) 24 OR shl (u32_of (b ! 1)) 16 OR shl (u32_of (b ! 2)) 8 OR u32_of (b ! 3))"

definition cv_space_write ::
  "'w lcc_traction_hooks \<Rightarrow> lcc_train_state \<Rightarrow> u32 \<Rightarrow> u8 list \<Rightarrow> 'w \<Rightarrow> (nat \<times> u16) \<times> lcc_train_state \<times> 'w" where
  "cv_space_write hooks t addr bytes w =
     (if addr < CV_DIRECT_COUNT \<and> length bytes \<ge> 1
      then (case write_cvs hooks t (u16_of (addr + 1)) bytes w of (n, w) \<Rightarrow> ((n, 0), (t, w)))
      else if addr \<ge> CV_OFFSET_INDEX \<and> addr < CV_OFFSET_VALUE
      then let off = unat (addr - CV_OFFSET_INDEX); avail = 4 - off;
               count = (if length bytes > avail then avail else length bytes);
               b = patch (cv_index_bytes (tn_pom_cv_index t)) off (take count bytes)
           in ((count, 0), (t\<lparr>tn_pom_cv_index := be32_u16 b\<rparr>, w))
      else if addr = CV_OFFSET_VALUE \<and> length bytes \<ge> 1
      then let cv = tn_pom_cv_index t
           in if cv = 0 \<or> u32_of cv > CV_DIRECT_COUNT then ((0, LCC_ERR_INVALID_ARGUMENTS), (t, w))
              else (case write_cvs hooks t cv (take 1 bytes) w of (n, w) \<Rightarrow> ((n, 0), (t, w)))
      else if addr = CV_OFFSET_VERIFY_VALUE \<and> length bytes \<ge> 1 then ((1, 0), (t, w))
      else if addr = CV_OFFSET_VERIFY_RESULT then ((0, LCC_ERR_WRITE_READ_ONLY), (t, w))
      else ((0, LCC_ERR_OUT_OF_BOUNDS), (t, w)))"

definition cv_space_defer ::
  "'w lcc_traction_hooks \<Rightarrow> lcc_train_state \<Rightarrow> lcc_memconfig_deferred \<Rightarrow> 'w \<Rightarrow> u16 \<times> 'w" where
  "cv_space_defer hooks t req w =
     (case hk_pom_read_byte hooks of
        None \<Rightarrow> (LCC_ERR_PERMANENT, w)
      | Some f \<Rightarrow>
          (if dr_is_write req then (LCC_ERR_PERMANENT, w)
           else let cv = (if dr_addr req < CV_DIRECT_COUNT then u16_of (dr_addr req + 1) else tn_pom_cv_index t)
                in f (tn_dcc_address t) (tn_is_long_address t) cv w))"

text \<open>
  The space in the table of a train node. Its world is the trains by node ID and the rest of
  the program; a node without a train reads nothing.
\<close>

type_synonym 'w trains = "(u64 \<Rightarrow> lcc_train_state option) \<times> 'w"

definition g_cv_space_handler :: "'w lcc_traction_hooks \<Rightarrow> 'w trains lcc_memspace" where
  "g_cv_space_handler hooks = \<lparr>ms_space = LCC_SPACE_DCC_CV, ms_size = CV_SPACE_SIZE, ms_read_only = False,
     ms_read = Some (\<lambda>n addr count s.
       (case fst s n of None \<Rightarrow> (([], 0), s) | Some t \<Rightarrow> (cv_space_read hooks t addr count, s))),
     ms_write = Some (\<lambda>n addr bytes s.
       (case fst s n of
          None \<Rightarrow> ((0, 0), s)
        | Some t \<Rightarrow> (case cv_space_write hooks t addr bytes (snd s) of (r, (t', w)) \<Rightarrow> (r, ((fst s)(n \<mapsto> t'), w))))),
     ms_update_complete = None,
     ms_defer = Some (\<lambda>n req s.
       (case fst s n of
          None \<Rightarrow> (LCC_ERR_PERMANENT, s)
        | Some t \<Rightarrow> (case cv_space_defer hooks t req (snd s) of (e, w) \<Rightarrow> (e, (fst s, w)))))\<rparr>"

definition lcc_traction_register_cv_space ::
  "'w lcc_traction_hooks \<Rightarrow> ('t, 'w trains) mnode \<Rightarrow> ('t, 'w trains) mnode" where
  "lcc_traction_register_cv_space hooks node = lcc_memconfig_register_node_spaces [g_cv_space_handler hooks] node"

section \<open>Speed and functions\<close>

definition on_set_speed :: "'w lcc_traction_hooks \<Rightarrow> lcc_train_state \<Rightarrow> u8 list \<Rightarrow> 'w \<Rightarrow> lcc_train_state \<times> 'w" where
  "on_set_speed hooks t payload w =
     (if length payload < 3 then (t, w)
      else let v = shl (u16_of (payload ! 1)) 8 OR u16_of (payload ! 2);
               t = t\<lparr>tn_last_speed_f16 := v, tn_emergency := False\<rparr>;
               step = f16_to_dcc_speed_step v; forward = (\<not> lcc_float16_is_negative v)
           in (t, case hk_set_throttle hooks of
                    Some f \<Rightarrow> f (tn_dcc_address t) (tn_is_long_address t) step forward w | None \<Rightarrow> w))"

definition fn_number :: "u8 list \<Rightarrow> u32" where
  "fn_number payload = shl (u32_of (payload ! 1)) 16 OR shl (u32_of (payload ! 2)) 8 OR u32_of (payload ! 3)"

definition set_fn_state :: "u32 \<Rightarrow> bool \<Rightarrow> lcc_train_state \<Rightarrow> lcc_train_state" where
  "set_fn_state fn on t =
     (if fn < 64
      then t\<lparr>tn_fn_state := (if on then tn_fn_state t OR shl 1 (unat fn) else tn_fn_state t AND NOT (shl 1 (unat fn)))\<rparr>
      else let b = shl 1 (unat (fn - 64)) :: u8
           in t\<lparr>tn_fn_state_hi := (if on then tn_fn_state_hi t OR b else tn_fn_state_hi t AND NOT b)\<rparr>)"

definition on_set_fn :: "'w lcc_traction_hooks \<Rightarrow> lcc_train_state \<Rightarrow> u8 list \<Rightarrow> 'w \<Rightarrow> lcc_train_state \<times> 'w" where
  "on_set_fn hooks t payload w =
     (if length payload < 6 then (t, w)
      else let fn = fn_number payload; val = shl (u16_of (payload ! 4)) 8 OR u16_of (payload ! 5); on = (val \<noteq> 0)
           in if fn > 68 then (t, w)
              else (set_fn_state fn on t,
                    case hk_set_function hooks of
                      Some f \<Rightarrow> f (tn_dcc_address t) (tn_is_long_address t) (u16_of fn) on w | None \<Rightarrow> w))"

definition on_estop :: "'w lcc_traction_hooks \<Rightarrow> lcc_train_state \<Rightarrow> 'w \<Rightarrow> lcc_train_state \<times> 'w" where
  "on_estop hooks t w =
     (t\<lparr>tn_last_speed_f16 := tn_last_speed_f16 t AND 0x8000, tn_emergency := True\<rparr>,
      case hk_emergency_stop hooks of Some f \<Rightarrow> f (tn_dcc_address t) (tn_is_long_address t) w | None \<Rightarrow> w)"

text \<open>The payloads of the replies; each is sent by \<open>send_traction_reply\<close>.\<close>

definition send_traction_reply :: "('t, 's) lcc_node \<Rightarrow> u16 \<Rightarrow> u8 list \<Rightarrow> lcc_frame list" where
  "send_traction_reply node reply_to reply =
     lcc_node_send_addressed node LCC_MTI_TRACTION_CONTROL_REPLY reply_to reply"

definition u16_bytes :: "u16 \<Rightarrow> u8 list" where
  "u16_bytes v = [u8_of (shr v 8), u8_of v]"

definition on_query_speeds :: "'w lcc_traction_hooks \<Rightarrow> lcc_train_state \<Rightarrow> 'w \<Rightarrow> u8 list" where
  "on_query_speeds hooks t w =
     (let v = tn_last_speed_f16 t;
          estop = (tn_emergency t \<or> (case hk_global_estop_held hooks of Some f \<Rightarrow> f w | None \<Rightarrow> False))
      in [LCC_TRAC_QUERY_SPEEDS] @ u16_bytes v @ [if estop then LCC_TRAC_SPEED_STATUS_ESTOP else 0x00] @
         u16_bytes v @ u16_bytes v)"

definition fn_value :: "u32 \<Rightarrow> lcc_train_state \<Rightarrow> u16" where
  "fn_value fn t =
     (if fn < 64 then (if shr (tn_fn_state t) (unat fn) AND 1 \<noteq> 0 then 1 else 0)
      else if fn \<le> 68 then (if shr (tn_fn_state_hi t) (unat (fn - 64)) AND 1 \<noteq> 0 then 1 else 0)
      else 0)"

definition on_query_function :: "lcc_train_state \<Rightarrow> u8 list \<Rightarrow> u8 list option" where
  "on_query_function t payload =
     (if length payload < 4 then None
      else Some ([LCC_TRAC_QUERY_FUNCTION, payload ! 1, payload ! 2, payload ! 3] @
                 u16_bytes (fn_value (fn_number payload) t)))"

section \<open>Controllers\<close>

definition parse_assign_payload :: "u8 list \<Rightarrow> u64 option" where
  "parse_assign_payload payload = (if length payload < 9 then None else Some (lcc_node_id_from_buf (drop 3 payload)))"

definition send_controller_changed :: "('t, 's) lcc_node \<Rightarrow> lcc_train_state \<Rightarrow> u64 \<Rightarrow> lcc_frame list" where
  "send_controller_changed node t new_owner =
     lcc_node_send_addressed node LCC_MTI_TRACTION_CONTROL_COMMAND (tn_controller_alias t)
       ([LCC_TRAC_CONTROLLER_CFG, LCC_CTRLREQ_NOTIFY_CHANGED, 0x00] @ lcc_node_id_to_buf new_owner)"

definition on_assign_controller ::
  "('t, 's) lcc_node \<Rightarrow> lcc_train_state \<Rightarrow> u8 list \<Rightarrow> u16 \<Rightarrow> lcc_frame list \<times> lcc_train_state" where
  "on_assign_controller node t payload reply_to =
     (case parse_assign_payload payload of
        None \<Rightarrow> (send_traction_reply node reply_to
                  [LCC_TRAC_CONTROLLER_CFG, LCC_CTRLREQ_ASSIGN, LCC_CTRLRESP_ERR_CONTROLLER], t)
      | Some new_owner \<Rightarrow>
          ((if tn_controller_owner t \<noteq> 0 \<and> tn_controller_owner t \<noteq> new_owner \<and> tn_controller_alias t \<noteq> 0
            then send_controller_changed node t new_owner else []) @
           send_traction_reply node reply_to [LCC_TRAC_CONTROLLER_CFG, LCC_CTRLREQ_ASSIGN, LCC_CTRLRESP_OK],
           t\<lparr>tn_controller_owner := new_owner, tn_controller_alias := reply_to\<rparr>))"

definition on_release_controller :: "lcc_train_state \<Rightarrow> u8 list \<Rightarrow> lcc_train_state" where
  "on_release_controller t payload =
     (case parse_assign_payload payload of
        None \<Rightarrow> t
      | Some released \<Rightarrow>
          (if tn_controller_owner t = released then t\<lparr>tn_controller_owner := 0, tn_controller_alias := 0\<rparr> else t))"

definition on_query_controller :: "lcc_train_state \<Rightarrow> u8 list" where
  "on_query_controller t =
     [LCC_TRAC_CONTROLLER_CFG, LCC_CTRLREQ_QUERY, 0x00] @ lcc_node_id_to_buf (tn_controller_owner t)"

definition on_controller_config ::
  "('t, 's) lcc_node \<Rightarrow> lcc_train_state \<Rightarrow> u8 list \<Rightarrow> u16 \<Rightarrow> lcc_frame list \<times> lcc_train_state" where
  "on_controller_config node t payload reply_to =
     (if length payload < 2 then ([], t)
      else if payload ! 1 = LCC_CTRLREQ_ASSIGN then on_assign_controller node t payload reply_to
      else if payload ! 1 = LCC_CTRLREQ_RELEASE then ([], on_release_controller t payload)
      else if payload ! 1 = LCC_CTRLREQ_QUERY then (send_traction_reply node reply_to (on_query_controller t), t)
      else ([], t))"

section \<open>Consists\<close>

text \<open>The index of a slot, \<open>None\<close> for -1.\<close>

definition consist_find :: "lcc_train_state \<Rightarrow> u64 \<Rightarrow> nat option" where
  "consist_find t target = find (\<lambda>i. ce_node_id (tn_consist t ! i) = target) [0..<LCC_MAX_CONSIST_SLAVES]"

definition consist_count :: "lcc_train_state \<Rightarrow> nat" where
  "consist_count t = length (filter (\<lambda>i. ce_node_id (tn_consist t ! i) \<noteq> 0) [0..<LCC_MAX_CONSIST_SLAVES])"

fun find_nth_from :: "lcc_train_state \<Rightarrow> nat list \<Rightarrow> nat \<Rightarrow> nat option" where
  "find_nth_from t [] n = None"
| "find_nth_from t (i # is) n =
     (if ce_node_id (tn_consist t ! i) = 0 then find_nth_from t is n
      else if n = 0 then Some i else find_nth_from t is (n - 1))"

definition consist_find_nth :: "lcc_train_state \<Rightarrow> nat \<Rightarrow> nat option" where
  "consist_find_nth t n = find_nth_from t [0..<LCC_MAX_CONSIST_SLAVES] n"

definition consist_attach_reply :: "u8 \<Rightarrow> u64 \<Rightarrow> u16 \<Rightarrow> u8 list" where
  "consist_attach_reply sub_op target err =
     [LCC_TRAC_CONSIST_CFG, sub_op] @ lcc_node_id_to_buf target @ [u8_of (shr err 8), u8_of (err AND 0xFF)]"

text \<open>The code of the reply and the train after it; \<open>None\<close>: too short, no reply.\<close>

definition consist_attach :: "u64 \<Rightarrow> u64 \<Rightarrow> u8 \<Rightarrow> lcc_train_state \<Rightarrow> u16 \<times> lcc_train_state" where
  "consist_attach own target flags t =
     (if target = own then (LCC_ERR_ALREADY_EXISTS, t)
      else case consist_find t target of
             Some i \<Rightarrow> (LCC_ERR_OK, t\<lparr>tn_consist := (tn_consist t)[i := (tn_consist t ! i)\<lparr>ce_flags := flags\<rparr>]\<rparr>)
           | None \<Rightarrow>
               (case consist_find t 0 of
                  None \<Rightarrow> (LCC_ERR_ALREADY_EXISTS, t)
                | Some i \<Rightarrow>
                    (LCC_ERR_OK, t\<lparr>tn_consist := (tn_consist t)[i := \<lparr>ce_node_id = target, ce_flags = flags\<rparr>]\<rparr>)))"

definition on_consist_attach ::
  "('t, 's) lcc_node \<Rightarrow> lcc_train_state \<Rightarrow> u8 list \<Rightarrow> u16 \<Rightarrow> lcc_frame list \<times> lcc_train_state" where
  "on_consist_attach node t payload reply_to =
     (if length payload < 9 then ([], t)
      else let target = lcc_node_id_from_buf (drop 3 payload); flags = payload ! 2
           in case consist_attach (node_id node) target flags t of
                (err, t') \<Rightarrow> (send_traction_reply node reply_to (consist_attach_reply LCC_CNSTREQ_ATTACH_NODE target err), t'))"

definition consist_detach :: "u64 \<Rightarrow> lcc_train_state \<Rightarrow> u16 \<times> lcc_train_state" where
  "consist_detach target t =
     (case consist_find t target of
        None \<Rightarrow> (LCC_ERR_NOT_FOUND, t)
      | Some i \<Rightarrow> (LCC_ERR_OK, t\<lparr>tn_consist := (tn_consist t)[i := empty_entry]\<rparr>))"

definition on_consist_detach ::
  "('t, 's) lcc_node \<Rightarrow> lcc_train_state \<Rightarrow> u8 list \<Rightarrow> u16 \<Rightarrow> lcc_frame list \<times> lcc_train_state" where
  "on_consist_detach node t payload reply_to =
     (if length payload < 9 then ([], t)
      else let target = lcc_node_id_from_buf (drop 3 payload)
           in case consist_detach target t of
                (err, t') \<Rightarrow> (send_traction_reply node reply_to (consist_attach_reply LCC_CNSTREQ_DETACH_NODE target err), t'))"

definition on_consist_query :: "lcc_train_state \<Rightarrow> u8 list \<Rightarrow> u8 list" where
  "on_consist_query t payload =
     (let sz = consist_count t; sz = (if sz > 255 then 255 else sz);
          short = [LCC_TRAC_CONSIST_CFG, LCC_CNSTREQ_QUERY_NODES, of_nat sz]
      in if length payload > 2
         then (case consist_find_nth t (unat (payload ! 2)) of
                 Some pos \<Rightarrow>
                   [LCC_TRAC_CONSIST_CFG, LCC_CNSTREQ_QUERY_NODES, of_nat sz, payload ! 2, ce_flags (tn_consist t ! pos)] @
                   lcc_node_id_to_buf (ce_node_id (tn_consist t ! pos))
               | None \<Rightarrow> short)
         else short)"

definition on_consist_config ::
  "('t, 's) lcc_node \<Rightarrow> lcc_train_state \<Rightarrow> u8 list \<Rightarrow> u16 \<Rightarrow> lcc_frame list \<times> lcc_train_state" where
  "on_consist_config node t payload reply_to =
     (if length payload < 2 then ([], t)
      else if payload ! 1 = LCC_CNSTREQ_ATTACH_NODE then on_consist_attach node t payload reply_to
      else if payload ! 1 = LCC_CNSTREQ_DETACH_NODE then on_consist_detach node t payload reply_to
      else if payload ! 1 = LCC_CNSTREQ_QUERY_NODES then (send_traction_reply node reply_to (on_consist_query t payload), t)
      else ([], t))"

section \<open>Dispatch and forwarding\<close>

text \<open>
  The registered nodes and the rest of the program. \<open>forward_to_slave\<close> hands the frame it
  builds to \<open>lcc_traction_handle_frame\<close> again, one level deep, as a forwarded command carries
  REQ_LISTENER and is never forwarded: so dispatch is defined with the forwarding as an
  argument, once without it and once with the slaves handled without it. That this is what
  the code computes is lemma \<open>forward_slave_handler\<close>.
\<close>

type_synonym ('s, 'w) layout = "(lcc_train_state, 's) lcc_node list \<times> 'w"

definition set_train :: "nat \<Rightarrow> lcc_train_state \<Rightarrow> (lcc_train_state, 's) lcc_node list \<Rightarrow> (lcc_train_state, 's) lcc_node list" where
  "set_train i t nodes = nodes[i := (nodes ! i)\<lparr>train := Some t\<rparr>]"

definition dispatch_with ::
  "(nat \<Rightarrow> u16 \<Rightarrow> u8 \<Rightarrow> u8 list \<Rightarrow> ('s, 'w) layout \<Rightarrow> lcc_frame list \<times> ('s, 'w) layout) \<Rightarrow>
   'w lcc_traction_hooks \<Rightarrow> nat \<Rightarrow> u16 \<Rightarrow> u8 list \<Rightarrow> ('s, 'w) layout \<Rightarrow> lcc_frame list \<times> ('s, 'w) layout" where
  "dispatch_with forward hooks i reply_to payload s =
     (case (payload, train (fst s ! i)) of
        ([], _) \<Rightarrow> ([], s)
      | (_, None) \<Rightarrow> ([], s)
      | (cmd # _, Some t) \<Rightarrow>
          (let sub = cmd AND 0x7F; node = fst s ! i; set = (\<lambda>t'. (set_train i t' (fst s), snd s))
           in if sub = LCC_TRAC_SET_SPEED_DIR
              then (case on_set_speed hooks t payload (snd s) of
                      (t', w) \<Rightarrow> forward i reply_to cmd payload (set_train i t' (fst s), w))
              else if sub = LCC_TRAC_SET_FN
              then (case on_set_fn hooks t payload (snd s) of
                      (t', w) \<Rightarrow> forward i reply_to cmd payload (set_train i t' (fst s), w))
              else if sub = LCC_TRAC_EMERGENCY_STOP
              then (case on_estop hooks t (snd s) of
                      (t', w) \<Rightarrow> forward i reply_to cmd payload (set_train i t' (fst s), w))
              else if sub = LCC_TRAC_QUERY_SPEEDS
              then (send_traction_reply node reply_to (on_query_speeds hooks t (snd s)), s)
              else if sub = LCC_TRAC_QUERY_FUNCTION
              then (case on_query_function t payload of
                      None \<Rightarrow> ([], s) | Some reply \<Rightarrow> (send_traction_reply node reply_to reply, s))
              else if sub = LCC_TRAC_CONTROLLER_CFG
              then (case on_controller_config node t payload reply_to of (fs, t') \<Rightarrow> (fs, set t'))
              else if sub = LCC_TRAC_CONSIST_CFG
              then (case on_consist_config node t payload reply_to of (fs, t') \<Rightarrow> (fs, set t'))
              else ([], s)))"

definition traction_rx_max :: nat where "traction_rx_max = 32"

definition handle_frame_with ::
  "(nat \<Rightarrow> u16 \<Rightarrow> u8 list \<Rightarrow> ('s, 'w) layout \<Rightarrow> lcc_frame list \<times> ('s, 'w) layout) \<Rightarrow>
   nat \<Rightarrow> lcc_frame \<Rightarrow> ('s, 'w) layout \<Rightarrow> lcc_frame list \<times> ('s, 'w) layout" where
  "handle_frame_with dispatch i frame s =
     (case train (fst s ! i) of
        None \<Rightarrow> ([], s)
      | Some t \<Rightarrow>
          (if dlc frame < 2 then ([], s)
           else let src = lcc_get_src (fr_id frame); payload = drop 2 (fr_data frame);
                    is_first = lcc_frame_addressed_is_first frame; is_last = lcc_frame_addressed_is_last frame;
                    set = (\<lambda>t'. (set_train i t' (fst s), snd s))
                in if is_first \<and> is_last then dispatch i src payload s
                   else if is_first
                   then ([], set (if length payload > traction_rx_max
                                  then t\<lparr>tn_rx_active := False, tn_rx_src := src, tn_rx_buf := []\<rparr>
                                  else t\<lparr>tn_rx_active := True, tn_rx_src := src, tn_rx_buf := payload\<rparr>))
                   else if \<not> tn_rx_active t \<or> tn_rx_src t \<noteq> src then ([], s)
                   else if length (tn_rx_buf t) + length payload > traction_rx_max
                   then ([], set (t\<lparr>tn_rx_active := False\<rparr>))
                   else let t = t\<lparr>tn_rx_buf := tn_rx_buf t @ payload\<rparr>
                        in if \<not> is_last then ([], set t)
                           else (case dispatch i src (tn_rx_buf t) (set t) of
                                   (fs, s') \<Rightarrow>
                                     (fs, (case train (fst s' ! i) of
                                             None \<Rightarrow> s'
                                           | Some t' \<Rightarrow>
                                               (set_train i (t'\<lparr>tn_rx_active := False, tn_rx_buf := []\<rparr>) (fst s'), snd s'))))))"

text \<open>A command to a slave: on the bus, and to its own handler.\<close>

definition forwarded_payload :: "u8 \<Rightarrow> u8 \<Rightarrow> u8 list \<Rightarrow> u8 list" where
  "forwarded_payload cmd flags payload =
     (let fwd = (cmd OR LCC_TRAC_REQ_LISTENER) # drop 1 payload
      in if cmd AND 0x7F = LCC_TRAC_SET_SPEED_DIR \<and> flags AND LCC_CNSTFLAGS_REVERSE \<noteq> 0 \<and> length payload \<ge> 3
         then fwd[1 := fwd ! 1 XOR 0x80] else fwd)"

definition forward_to_slave ::
  "(nat \<Rightarrow> lcc_frame \<Rightarrow> ('s, 'w) layout \<Rightarrow> lcc_frame list \<times> ('s, 'w) layout) \<Rightarrow>
   nat \<Rightarrow> nat \<Rightarrow> u8 \<Rightarrow> u8 \<Rightarrow> u8 list \<Rightarrow> ('s, 'w) layout \<Rightarrow> lcc_frame list \<times> ('s, 'w) layout" where
  "forward_to_slave handle src dst cmd flags payload s =
     (if length payload > 8 then ([], s)
      else let fwd = forwarded_payload cmd flags payload;
               src_node = fst s ! src; dst_alias = node_alias (fst s ! dst);
               sent = lcc_node_send_addressed src_node LCC_MTI_TRACTION_CONTROL_COMMAND dst_alias fwd;
               f = \<lparr>fr_id = lcc_can_id LCC_MTI_TRACTION_CONTROL_COMMAND (node_alias src_node),
                    fr_data = lcc_frame_build_addressed_hdr dst_alias 0 @ fwd\<rparr>
           in case handle dst f s of (fs, s') \<Rightarrow> (sent @ fs, s'))"

definition consist_should_forward :: "u8 \<Rightarrow> u8 \<Rightarrow> u8 list \<Rightarrow> bool" where
  "consist_should_forward cmd flags payload \<longleftrightarrow>
     (if cmd AND 0x7F = LCC_TRAC_SET_FN \<and> length payload \<ge> 4
      then (if fn_number payload = 0 then flags AND LCC_CNSTFLAGS_LINKF0 \<noteq> 0 else flags AND LCC_CNSTFLAGS_LINKFN \<noteq> 0)
      else True)"

definition find_node :: "u64 \<Rightarrow> (lcc_train_state, 's) lcc_node list \<Rightarrow> nat option" where
  "find_node ident nodes = find (\<lambda>j. node_id (nodes ! j) = ident) [0..<length nodes]"

definition forward_slot ::
  "(nat \<Rightarrow> lcc_frame \<Rightarrow> ('s, 'w) layout \<Rightarrow> lcc_frame list \<times> ('s, 'w) layout) \<Rightarrow>
   nat \<Rightarrow> u16 \<Rightarrow> u8 \<Rightarrow> u8 list \<Rightarrow> nat \<Rightarrow> ('s, 'w) layout \<Rightarrow> lcc_frame list \<times> ('s, 'w) layout" where
  "forward_slot handle src src_alias cmd payload k s =
     (case train (fst s ! src) of
        None \<Rightarrow> ([], s)
      | Some t \<Rightarrow>
          (let e = tn_consist t ! k
           in if ce_node_id e = 0 then ([], s)
              else if \<not> consist_should_forward cmd (ce_flags e) payload then ([], s)
              else case find_node (ce_node_id e) (fst s) of
                     None \<Rightarrow> ([], s)
                   | Some dst \<Rightarrow>
                       (if dst = src then ([], s)
                        else if node_alias (fst s ! dst) = src_alias then ([], s)
                        else forward_to_slave handle src dst cmd (ce_flags e) payload s)))"

primrec forward_slots ::
  "(nat \<Rightarrow> lcc_frame \<Rightarrow> ('s, 'w) layout \<Rightarrow> lcc_frame list \<times> ('s, 'w) layout) \<Rightarrow>
   nat \<Rightarrow> u16 \<Rightarrow> u8 \<Rightarrow> u8 list \<Rightarrow> nat list \<Rightarrow> ('s, 'w) layout \<Rightarrow> lcc_frame list \<times> ('s, 'w) layout" where
  "forward_slots handle src src_alias cmd payload [] s = ([], s)"
| "forward_slots handle src src_alias cmd payload (k # ks) s =
     (case forward_slot handle src src_alias cmd payload k s of
        (fs, s1) \<Rightarrow> (case forward_slots handle src src_alias cmd payload ks s1 of (fs', s2) \<Rightarrow> (fs @ fs', s2)))"

text \<open>A forwarded command at a slave, which does not forward it.\<close>

definition handle_listener ::
  "'w lcc_traction_hooks \<Rightarrow> nat \<Rightarrow> lcc_frame \<Rightarrow> ('s, 'w) layout \<Rightarrow> lcc_frame list \<times> ('s, 'w) layout" where
  "handle_listener hooks = handle_frame_with (dispatch_with (\<lambda>i src cmd payload s. ([], s)) hooks)"

definition forward_to_consist ::
  "'w lcc_traction_hooks \<Rightarrow> nat \<Rightarrow> u16 \<Rightarrow> u8 \<Rightarrow> u8 list \<Rightarrow> ('s, 'w) layout \<Rightarrow> lcc_frame list \<times> ('s, 'w) layout" where
  "forward_to_consist hooks src src_alias cmd payload s =
     (if cmd AND LCC_TRAC_REQ_LISTENER \<noteq> 0 then ([], s)
      else forward_slots (handle_listener hooks) src src_alias cmd payload [0..<LCC_MAX_CONSIST_SLAVES] s)"

definition dispatch_traction ::
  "'w lcc_traction_hooks \<Rightarrow> nat \<Rightarrow> u16 \<Rightarrow> u8 list \<Rightarrow> ('s, 'w) layout \<Rightarrow> lcc_frame list \<times> ('s, 'w) layout" where
  "dispatch_traction hooks = dispatch_with (forward_to_consist hooks) hooks"

definition lcc_traction_handle_frame ::
  "'w lcc_traction_hooks \<Rightarrow> nat \<Rightarrow> lcc_frame \<Rightarrow> ('s, 'w) layout \<Rightarrow> lcc_frame list \<times> ('s, 'w) layout" where
  "lcc_traction_handle_frame hooks = handle_frame_with (dispatch_traction hooks)"

definition lcc_traction_handle_control :: "lcc_frame \<Rightarrow> lcc_train_state \<Rightarrow> lcc_train_state" where
  "lcc_traction_handle_control frame t =
     (if tn_controller_alias t = 0 \<or> lcc_get_src (fr_id frame) \<noteq> tn_controller_alias t then t
      else let field = lcc_get_control_field (fr_id frame)
           in if field = LCC_CONTROL_AMR \<or>
                 (field = LCC_CONTROL_AMD \<and> dlc frame = 6 \<and> lcc_node_id_from_buf (fr_data frame) \<noteq> tn_controller_owner t)
              then t\<lparr>tn_controller_alias := 0\<rparr> else t)"

section \<open>The functions of a train\<close>

lemma fn_value_set:
  assumes "fn \<le> 68" and "fn' \<le> 68"
  shows "fn_value fn' (set_fn_state fn on t) = (if fn' = fn then (if on then 1 else 0) else fn_value fn' t)"
proof -
  have small: "unat x < 64" if "x < 64" for x :: u32 using that by (simp add: word_less_nat_alt)
  have high: "unat (x - 64) < 8" "unat (x - 64) = unat x - 64" if "\<not> x < 64" "x \<le> 68" for x :: u32
    using that by (simp_all add: word_less_nat_alt word_le_nat_alt not_less unat_sub)
  have b: "shr (x :: 'a::len word) n AND 1 \<noteq> 0 \<longleftrightarrow> bit x n" for x n
    by (simp add: and_one_eq odd_iff_mod_2_eq_one [symmetric] bit_iff_odd_drop_bit) 
  have eq: "unat x = unat y \<longleftrightarrow> x = y" for x y :: u32 by (simp add: word_unat_eq_iff)
  have inj: "unat x - 64 = unat y - 64 \<Longrightarrow> 64 \<le> unat x \<Longrightarrow> 64 \<le> unat y \<Longrightarrow> x = y" for x y :: u32
    by (simp add: word_unat_eq_iff)
  show ?thesis
    using assms small high
    by (auto simp: fn_value_def set_fn_state_def b bit_simps Let_def eq word_less_nat_alt not_less word_le_nat_alt
        dest: bit_imp_le_length inj)
qed

lemma set_fn_payload:
  assumes "length payload = 6" and "fn_number payload \<le> 68"
  shows "fst (on_set_fn hooks t payload w) =
    set_fn_state (fn_number payload) (payload ! 4 \<noteq> 0 \<or> payload ! 5 \<noteq> 0) t"
proof -
  have "shl (u16_of (payload ! 4)) 8 OR u16_of (payload ! 5) \<noteq> 0 \<longleftrightarrow> payload ! 4 \<noteq> 0 \<or> payload ! 5 \<noteq> 0"
    by (simp add: word_bits_simps)
  then show ?thesis using assms by (simp add: on_set_fn_def Let_def not_less)
qed

text \<open>A train after a sequence of Set Function commands, with its world.\<close>

definition set_fns :: "'w lcc_traction_hooks \<Rightarrow> u8 list list \<Rightarrow> lcc_train_state \<times> 'w \<Rightarrow> lcc_train_state \<times> 'w" where
  "set_fns hooks cmds s = fold (\<lambda>p (t, w). on_set_fn hooks t p w) cmds s"

text \<open>The last of the commands for a function.\<close>

definition last_for :: "u32 \<Rightarrow> u8 list list \<Rightarrow> u8 list option" where
  "last_for fn cmds = find (\<lambda>p. fn_number p = fn) (rev cmds)"

text \<open>
  Query Function answers with what the last Set Function for that function set, for F0 to
  F68 and whatever other functions were set before and after: the 69 functions do not disturb
  one another, though they are kept in two words.
\<close>

theorem query_function_last_set:
  assumes "\<forall>p\<in>set cmds. length p = 6 \<and> fn_number p \<le> 68" and "length query = 4" and "fn_number query \<le> 68"
    and "set_fns hooks cmds (t, w) = (t', w')"
  shows "on_query_function t' query = Some ([LCC_TRAC_QUERY_FUNCTION, query ! 1, query ! 2, query ! 3] @
    u16_bytes (case last_for (fn_number query) cmds of
                 Some p \<Rightarrow> (if p ! 4 \<noteq> 0 \<or> p ! 5 \<noteq> 0 then 1 else 0)
               | None \<Rightarrow> fn_value (fn_number query) t))"
proof -
  have "fn_value (fn_number query) (fst (set_fns hooks cmds (t, w))) =
    (case last_for (fn_number query) cmds of
       Some p \<Rightarrow> (if p ! 4 \<noteq> 0 \<or> p ! 5 \<noteq> 0 then 1 else 0) | None \<Rightarrow> fn_value (fn_number query) t)"
    using assms(1)
  proof (induction cmds rule: rev_induct)
    case (snoc p cmds)
    obtain t1 w1 where s: "set_fns hooks cmds (t, w) = (t1, w1)" by fastforce
    have "fst (set_fns hooks (cmds @ [p]) (t, w)) =
        set_fn_state (fn_number p) (p ! 4 \<noteq> 0 \<or> p ! 5 \<noteq> 0) t1"
      using s snoc.prems set_fn_payload [of p hooks t1 w1] by (simp add: set_fns_def)
    with snoc assms(3) s show ?case by (simp add: fn_value_set last_for_def)
  qed (simp add: set_fns_def last_for_def)
  then show ?thesis using assms(2,4) by (simp add: on_query_function_def)
qed

section \<open>The consist of a train\<close>

definition consist_members :: "lcc_train_state \<Rightarrow> nat list" where
  "consist_members t = filter (\<lambda>i. ce_node_id (tn_consist t ! i) \<noteq> 0) [0..<LCC_MAX_CONSIST_SLAVES]"

text \<open>A train with the node ID \<open>own\<close>.\<close>

definition consist_wf :: "u64 \<Rightarrow> lcc_train_state \<Rightarrow> bool" where
  "consist_wf own t \<longleftrightarrow> length (tn_consist t) = LCC_MAX_CONSIST_SLAVES \<and>
     distinct (map (\<lambda>i. ce_node_id (tn_consist t ! i)) (consist_members t)) \<and>
     (own \<noteq> 0 \<longrightarrow> consist_find t own = None)"

text \<open>What the table stands for: the flags of each slave.\<close>

definition consist_map :: "lcc_train_state \<Rightarrow> u64 \<Rightarrow> u8 option" where
  "consist_map t = (\<lambda>n. if n = 0 then None else map_option (\<lambda>i. ce_flags (tn_consist t ! i)) (consist_find t n))"

lemma consist_find_Some: "consist_find t n = Some i \<longleftrightarrow>
    i < LCC_MAX_CONSIST_SLAVES \<and> ce_node_id (tn_consist t ! i) = n \<and> (\<forall>j<i. ce_node_id (tn_consist t ! j) \<noteq> n)"
  by (simp add: consist_find_def find_upt_Some)

lemma consist_find_None: "consist_find t n = None \<longleftrightarrow> (\<forall>i<LCC_MAX_CONSIST_SLAVES. ce_node_id (tn_consist t ! i) \<noteq> n)"
  by (simp add: consist_find_def find_upt_None)

lemma consist_distinct:
  "distinct (map (\<lambda>i. ce_node_id (tn_consist t ! i)) (consist_members t)) \<longleftrightarrow>
   (\<forall>i<LCC_MAX_CONSIST_SLAVES. \<forall>j<LCC_MAX_CONSIST_SLAVES. ce_node_id (tn_consist t ! i) \<noteq> 0 \<longrightarrow>
      ce_node_id (tn_consist t ! i) = ce_node_id (tn_consist t ! j) \<longrightarrow> i = j)"
  by (auto simp: distinct_map inj_on_def consist_members_def)

lemma consist_at:
  assumes "consist_wf own t" and "i < LCC_MAX_CONSIST_SLAVES" and "ce_node_id (tn_consist t ! i) \<noteq> 0"
  shows "consist_find t (ce_node_id (tn_consist t ! i)) = Some i"
    and "consist_map t (ce_node_id (tn_consist t ! i)) = Some (ce_flags (tn_consist t ! i))"
proof -
  have "\<forall>j<i. ce_node_id (tn_consist t ! j) \<noteq> ce_node_id (tn_consist t ! i)"
    using assms unfolding consist_wf_def consist_distinct by (metis order.strict_trans less_irrefl)
  with assms(2) show "consist_find t (ce_node_id (tn_consist t ! i)) = Some i"
    by (simp add: consist_find_Some)
  with assms(3) show "consist_map t (ce_node_id (tn_consist t ! i)) = Some (ce_flags (tn_consist t ! i))"
    by (simp add: consist_map_def)
qed

lemma consist_map_dom: "dom (consist_map t) = (\<lambda>i. ce_node_id (tn_consist t ! i)) ` set (consist_members t)"
proof (intro equalityI subsetI)
  fix n assume "n \<in> dom (consist_map t)"
  then obtain i where "n \<noteq> 0" "consist_find t n = Some i"
    by (auto simp: consist_map_def split: if_splits)
  then show "n \<in> (\<lambda>i. ce_node_id (tn_consist t ! i)) ` set (consist_members t)"
    by (auto simp: consist_find_Some consist_members_def)
next
  fix n assume "n \<in> (\<lambda>i. ce_node_id (tn_consist t ! i)) ` set (consist_members t)"
  then obtain i where "i < LCC_MAX_CONSIST_SLAVES" "n \<noteq> 0" "ce_node_id (tn_consist t ! i) = n"
    by (auto simp: consist_members_def)
  then show "n \<in> dom (consist_map t)"
    by (cases "consist_find t n") (auto simp: consist_map_def consist_find_None)
qed

lemma consist_count_card: "consist_wf own t \<Longrightarrow> consist_count t = card (dom (consist_map t))"
  unfolding consist_map_dom using distinct_card [of "map (\<lambda>i. ce_node_id (tn_consist t ! i)) (consist_members t)"]
  by (simp add: consist_wf_def consist_count_def consist_members_def)

lemma find_nth_from_filter:
  "find_nth_from t is n = (let ms = filter (\<lambda>i. ce_node_id (tn_consist t ! i) \<noteq> 0) is in if n < length ms then Some (ms ! n) else None)"
  by (induction t "is" n rule: find_nth_from.induct) (auto simp: Let_def nth_Cons')

lemma consist_find_nth_members:
  "consist_find_nth t n = (if n < length (consist_members t) then Some (consist_members t ! n) else None)"
  by (simp add: consist_find_nth_def find_nth_from_filter consist_members_def Let_def)

lemma consist_map_iff:
  assumes "consist_wf own t"
  shows "consist_map t n = Some f \<longleftrightarrow>
    n \<noteq> 0 \<and> (\<exists>i<LCC_MAX_CONSIST_SLAVES. ce_node_id (tn_consist t ! i) = n \<and> ce_flags (tn_consist t ! i) = f)"
proof
  assume "consist_map t n = Some f"
  then obtain i where "n \<noteq> 0" "consist_find t n = Some i" "ce_flags (tn_consist t ! i) = f"
    by (auto simp: consist_map_def split: if_splits)
  then show "n \<noteq> 0 \<and> (\<exists>i<LCC_MAX_CONSIST_SLAVES. ce_node_id (tn_consist t ! i) = n \<and> ce_flags (tn_consist t ! i) = f)"
    by (auto simp: consist_find_Some)
next
  assume "n \<noteq> 0 \<and> (\<exists>i<LCC_MAX_CONSIST_SLAVES. ce_node_id (tn_consist t ! i) = n \<and> ce_flags (tn_consist t ! i) = f)"
  then show "consist_map t n = Some f" using consist_at(2) [OF assms] by auto
qed

lemma map_eqI: "(\<And>n f. M n = Some f \<longleftrightarrow> M' n = Some f) \<Longrightarrow> M = (M' :: 'a \<Rightarrow> 'b option)"
  by (rule ext) (metis option.exhaust)

lemma consist_wf_unique:
  assumes "consist_wf own t" and "i < LCC_MAX_CONSIST_SLAVES" and "j < LCC_MAX_CONSIST_SLAVES"
    and "ce_node_id (tn_consist t ! i) = ce_node_id (tn_consist t ! j)" and "ce_node_id (tn_consist t ! i) \<noteq> 0"
  shows "i = j"
  using assms unfolding consist_wf_def consist_distinct by blast

text \<open>An entry written to slot \<open>i\<close>, for a slave that no other slot has.\<close>

lemma consist_set:
  fixes f :: u8 and target :: u64
  assumes wf: "consist_wf own t" and i: "i < LCC_MAX_CONSIST_SLAVES"
    and others: "\<forall>j<LCC_MAX_CONSIST_SLAVES. j \<noteq> i \<longrightarrow> ce_node_id (tn_consist t ! j) \<noteq> target \<or> target = 0"
    and own: "target \<noteq> own \<or> target = 0"
  defines "t' \<equiv> t\<lparr>tn_consist := (tn_consist t)[i := \<lparr>ce_node_id = target, ce_flags = f\<rparr>]\<rparr>"
  shows "consist_wf own t'"
    and "consist_map t' = (\<lambda>n. if n = 0 then None else if n = target then Some f
           else if n = ce_node_id (tn_consist t ! i) then None else consist_map t n)"
proof -
  have len: "length (tn_consist t) = LCC_MAX_CONSIST_SLAVES" using wf by (simp add: consist_wf_def)
  have nth: "tn_consist t' ! j = (if j = i then \<lparr>ce_node_id = target, ce_flags = f\<rparr> else tn_consist t ! j)" for j
    using i len by (simp add: t'_def nth_list_update)
  have "own \<noteq> 0 \<longrightarrow> consist_find t' own = None"
    using wf own unfolding consist_wf_def consist_find_None by (auto simp: nth)
  moreover have "distinct (map (\<lambda>i. ce_node_id (tn_consist t' ! i)) (consist_members t'))"
    unfolding consist_distinct using others consist_wf_unique [OF wf] by (auto simp: nth split: if_splits)
  ultimately show wf': "consist_wf own t'" using len by (simp add: consist_wf_def t'_def)
  show "consist_map t' = (\<lambda>n. if n = 0 then None else if n = target then Some f
      else if n = ce_node_id (tn_consist t ! i) then None else consist_map t n)"
  proof (rule map_eqI)
    fix n g
    show "consist_map t' n = Some g \<longleftrightarrow> (if n = 0 then None else if n = target then Some f
      else if n = ce_node_id (tn_consist t ! i) then None else consist_map t n) = Some g"
      unfolding consist_map_iff [OF wf'] using i others consist_wf_unique [OF wf _ i] 
      by (auto simp: nth consist_map_iff [OF wf] split: if_splits) metis
  qed
qed


text \<open>The operations on the map of slaves.\<close>

definition attach_slave :: "u64 \<Rightarrow> u64 \<Rightarrow> u8 \<Rightarrow> (u64 \<Rightarrow> u8 option) \<Rightarrow> u16 \<times> (u64 \<Rightarrow> u8 option)" where
  "attach_slave own target flags M =
     (if target \<noteq> own \<and> (target \<in> dom M \<or> card (dom M) < LCC_MAX_CONSIST_SLAVES)
      then (LCC_ERR_OK, M(target \<mapsto> flags)) else (LCC_ERR_ALREADY_EXISTS, M))"

definition detach_slave :: "u64 \<Rightarrow> (u64 \<Rightarrow> u8 option) \<Rightarrow> u16 \<times> (u64 \<Rightarrow> u8 option)" where
  "detach_slave target M = (if target \<in> dom M then LCC_ERR_OK else LCC_ERR_NOT_FOUND, M(target := None))"

lemma consist_map_zero [simp]: "consist_map t 0 = None"
  by (simp add: consist_map_def)

lemma consist_map_find: "n \<noteq> 0 \<Longrightarrow> n \<in> dom (consist_map t) \<longleftrightarrow> consist_find t n \<noteq> None"
  by (auto simp: consist_map_def)

lemma consist_full:
  assumes "consist_wf own t"
  shows "consist_find t 0 = None \<longleftrightarrow> \<not> card (dom (consist_map t)) < LCC_MAX_CONSIST_SLAVES"
proof -
  have "consist_find t 0 = None \<longleftrightarrow> (\<forall>i\<in>set [0..<LCC_MAX_CONSIST_SLAVES]. ce_node_id (tn_consist t ! i) \<noteq> 0)"
    unfolding consist_find_None by auto
  also have "\<dots> \<longleftrightarrow> \<not> length (consist_members t) < LCC_MAX_CONSIST_SLAVES"
    using length_filter_less [of _ "[0..<LCC_MAX_CONSIST_SLAVES]" "\<lambda>i. ce_node_id (tn_consist t ! i) \<noteq> 0"]
    by (auto simp: consist_members_def filter_id_conv [symmetric] dest: sym) (metis diff_zero filter_True length_upt less_irrefl)
  finally show ?thesis
    using consist_count_card [OF assms] by (simp add: consist_count_def consist_members_def)
qed

lemma consist_attach_refines:
  assumes wf: "consist_wf own t" and "target \<noteq> 0"
  shows "consist_wf own (snd (consist_attach own target flags t)) \<and>
    (fst (consist_attach own target flags t), consist_map (snd (consist_attach own target flags t))) =
      attach_slave own target flags (consist_map t)"
proof (cases "target = own")
  case False
  show ?thesis
  proof (cases "consist_find t target")
    case (Some i)
    then have i: "i < LCC_MAX_CONSIST_SLAVES" "ce_node_id (tn_consist t ! i) = target" by (auto simp: consist_find_Some)
    let ?t = "t\<lparr>tn_consist := (tn_consist t)[i := \<lparr>ce_node_id = target, ce_flags = flags\<rparr>]\<rparr>"
    have "(tn_consist t ! i)\<lparr>ce_flags := flags\<rparr> = \<lparr>ce_node_id = target, ce_flags = flags\<rparr>"
      using i(2) by (cases "tn_consist t ! i") simp
    then have r: "consist_attach own target flags t = (LCC_ERR_OK, ?t)"
      using Some False by (simp add: consist_attach_def)
    have "\<forall>j<LCC_MAX_CONSIST_SLAVES. j \<noteq> i \<longrightarrow> ce_node_id (tn_consist t ! j) \<noteq> target \<or> target = 0"
      using consist_wf_unique [OF wf _ i(1)] i(2) assms(2) by auto
    note s = consist_set [OF wf i(1) this, of flags]
    have "consist_map ?t = (consist_map t)(target \<mapsto> flags)"
      using s(2) False assms(2) i(2) by (auto simp: fun_eq_iff)
    moreover have "target \<in> dom (consist_map t)" using Some assms(2) by (simp add: consist_map_find)
    ultimately show ?thesis using s(1) r False by (simp add: attach_slave_def)
  next
    case None
    then have out: "\<forall>j<LCC_MAX_CONSIST_SLAVES. ce_node_id (tn_consist t ! j) \<noteq> target" "target \<notin> dom (consist_map t)"
      using assms(2) consist_find_None [of t target] by (simp_all add: consist_map_find)
    show ?thesis
    proof (cases "consist_find t 0")
      case (Some i)
      then have i: "i < LCC_MAX_CONSIST_SLAVES" "ce_node_id (tn_consist t ! i) = 0" by (auto simp: consist_find_Some)
      let ?t = "t\<lparr>tn_consist := (tn_consist t)[i := \<lparr>ce_node_id = target, ce_flags = flags\<rparr>]\<rparr>"
      have r: "consist_attach own target flags t = (LCC_ERR_OK, ?t)"
        using Some None False by (simp add: consist_attach_def)
      have "\<forall>j<LCC_MAX_CONSIST_SLAVES. j \<noteq> i \<longrightarrow> ce_node_id (tn_consist t ! j) \<noteq> target \<or> target = 0" using out(1) by blast
      note s = consist_set [OF wf i(1) this, of flags]
      have "consist_map ?t = (consist_map t)(target \<mapsto> flags)"
        using s(2) False assms(2) i(2) by (auto simp: fun_eq_iff)
      then show ?thesis using s(1) r False Some consist_full [OF wf] by (simp add: attach_slave_def)
    next
      case none: None
      with None show ?thesis using False wf out consist_full [OF wf]
        by (simp add: consist_attach_def attach_slave_def)
    qed
  qed
qed (use wf in \<open>simp add: consist_attach_def attach_slave_def\<close>)

lemma consist_detach_refines:
  assumes wf: "consist_wf own t" and "target \<noteq> 0"
  shows "consist_wf own (snd (consist_detach target t)) \<and>
    (fst (consist_detach target t), consist_map (snd (consist_detach target t))) = detach_slave target (consist_map t)"
proof (cases "consist_find t target")
  case (Some i)
  then have i: "i < LCC_MAX_CONSIST_SLAVES" "ce_node_id (tn_consist t ! i) = target" by (auto simp: consist_find_Some)
  let ?t = "t\<lparr>tn_consist := (tn_consist t)[i := \<lparr>ce_node_id = 0, ce_flags = 0\<rparr>]\<rparr>"
  note s = consist_set [OF wf i(1), of 0 0, simplified]
  have "consist_map ?t = (consist_map t)(target := None)"
    using s(2) i(2) by (auto simp: fun_eq_iff)
  moreover have "target \<in> dom (consist_map t)" using Some assms(2) by (simp add: consist_map_find)
  ultimately show ?thesis using s(1) Some by (simp add: consist_detach_def detach_slave_def empty_entry_def)
next
  case None
  with wf assms(2) show ?thesis
    by (auto simp: consist_detach_def detach_slave_def consist_map_def fun_eq_iff)
qed

text \<open>The slaves that Consist Query gives for the indices 0, 1, \<dots>.\<close>

definition queried_slaves :: "lcc_train_state \<Rightarrow> (u64 \<times> u8) list" where
  "queried_slaves t = map (\<lambda>n. case consist_find_nth t n of
     Some i \<Rightarrow> (ce_node_id (tn_consist t ! i), ce_flags (tn_consist t ! i)) | None \<Rightarrow> (0, 0)) [0..<consist_count t]"

lemma queried_slaves_map:
  assumes "consist_wf own t"
  shows "distinct (map fst (queried_slaves t)) \<and> map_of (queried_slaves t) = consist_map t"
proof -
  let ?e = "\<lambda>i. (ce_node_id (tn_consist t ! i), ce_flags (tn_consist t ! i))"
  have q: "queried_slaves t = map ?e (consist_members t)"
    by (intro nth_equalityI) (simp_all add: queried_slaves_def consist_count_def consist_find_nth_members
        consist_members_def [symmetric])
  then have d: "distinct (map fst (queried_slaves t))" using assms by (simp add: consist_wf_def comp_def)
  have "map_of (queried_slaves t) n = Some f \<longleftrightarrow> consist_map t n = Some f" for n f
  proof -
    have "map_of (queried_slaves t) n = Some f \<longleftrightarrow> (n, f) \<in> set (queried_slaves t)"
      by (rule map_of_eq_Some_iff [OF d])
    also have "\<dots> \<longleftrightarrow> consist_map t n = Some f"
      by (auto simp: q consist_members_def consist_map_iff [OF assms])
    finally show ?thesis .
  qed
  with d show ?thesis by (auto intro: map_eqI)
qed

text \<open>A sequence of requests to a train, with the codes of their replies, in the code and on maps.\<close>

datatype consist_request = Attach u64 u8 | Detach u64

fun consist_op :: "u64 \<Rightarrow> consist_request \<Rightarrow> lcc_train_state \<Rightarrow> u16 \<times> lcc_train_state" where
  "consist_op own (Attach n f) t = consist_attach own n f t"
| "consist_op own (Detach n) t = consist_detach n t"

fun slave_op :: "u64 \<Rightarrow> consist_request \<Rightarrow> (u64 \<Rightarrow> u8 option) \<Rightarrow> u16 \<times> (u64 \<Rightarrow> u8 option)" where
  "slave_op own (Attach n f) M = attach_slave own n f M"
| "slave_op own (Detach n) M = detach_slave n M"

fun run_requests :: "(consist_request \<Rightarrow> 'x \<Rightarrow> u16 \<times> 'x) \<Rightarrow> consist_request list \<Rightarrow> 'x \<Rightarrow> u16 list \<times> 'x" where
  "run_requests f [] x = ([], x)"
| "run_requests f (r # rs) x = (case f r x of (e, x') \<Rightarrow> (case run_requests f rs x' of (es, y) \<Rightarrow> (e # es, y)))"

fun request_target :: "consist_request \<Rightarrow> u64" where
  "request_target (Attach n f) = n"
| "request_target (Detach n) = n"

lemma run_requests_refines:
  assumes "consist_wf own t" and "\<forall>r\<in>set rs. request_target r \<noteq> 0"
  shows "consist_wf own (snd (run_requests (consist_op own) rs t)) \<and>
    (fst (run_requests (consist_op own) rs t), consist_map (snd (run_requests (consist_op own) rs t))) =
      run_requests (slave_op own) rs (consist_map t)"
  using assms
proof (induction rs arbitrary: t)
  case (Cons r rs)
  obtain e t1 where r: "consist_op own r t = (e, t1)" by (cases "consist_op own r t")
  have "consist_wf own (snd (consist_op own r t)) \<and>
      (fst (consist_op own r t), consist_map (snd (consist_op own r t))) = slave_op own r (consist_map t)"
    using Cons.prems consist_attach_refines [OF Cons.prems(1)] consist_detach_refines [OF Cons.prems(1)]
    by (cases r) simp_all
  then have 1: "consist_wf own t1" "slave_op own r (consist_map t) = (e, consist_map t1)" using r by simp_all
  obtain es t2 where "run_requests (consist_op own) rs t1 = (es, t2)" by (cases "run_requests (consist_op own) rs t1")
  with Cons.IH [OF 1(1)] Cons.prems(2) 1 r show ?case by (auto dest: sym)
qed simp

lemma init_consist: "own \<noteq> 0 \<Longrightarrow> consist_wf own (lcc_train_state_init a l)" "consist_map (lcc_train_state_init a l) = Map.empty"
proof -
  have e: "ce_node_id (tn_consist (lcc_train_state_init a l) ! i) = 0" if "i < LCC_MAX_CONSIST_SLAVES" for i
    using that by (simp add: lcc_train_state_init_def empty_entry_def)
  then have f: "consist_find (lcc_train_state_init a l) n = None" if "n \<noteq> 0" for n
    using that by (auto simp: consist_find_None)
  from e have "consist_members (lcc_train_state_init a l) = []" by (simp add: consist_members_def)
  then show "own \<noteq> 0 \<Longrightarrow> consist_wf own (lcc_train_state_init a l)"
    using f by (simp add: consist_wf_def) (simp add: lcc_train_state_init_def)
  show "consist_map (lcc_train_state_init a l) = Map.empty" using f by (simp add: consist_map_def fun_eq_iff)
qed

text \<open>
  C30: The consist of a train is a map from slaves to flags with at most four entries and never
  the train itself: any sequence of attach and detach requests is answered, and changes the
  consist, as the map is; and the slaves Consist Query enumerates are the map, each once.
\<close>

theorem consist_refines_map:
  assumes "own \<noteq> 0" and "\<forall>r\<in>set rs. request_target r \<noteq> 0"
    and "run_requests (consist_op own) rs (lcc_train_state_init a l) = (codes, t)"
    and "run_requests (slave_op own) rs Map.empty = (codes', M)"
  shows "codes = codes' \<and> own \<notin> dom M \<and> card (dom M) \<le> LCC_MAX_CONSIST_SLAVES \<and> consist_count t = card (dom M) \<and>
    distinct (map fst (queried_slaves t)) \<and> map_of (queried_slaves t) = M"
proof -
  have wf: "consist_wf own t" and eq: "codes = codes'" "consist_map t = M"
    using run_requests_refines [OF init_consist(1) [OF assms(1)] assms(2), of a l] assms(3,4) init_consist(2)
    by simp_all
  have "consist_count t \<le> LCC_MAX_CONSIST_SLAVES"
    using length_filter_le [of _ "[0..<LCC_MAX_CONSIST_SLAVES]"] by (simp add: consist_count_def)
  moreover have "own \<notin> dom M" using wf assms(1) eq(2) by (auto simp: consist_wf_def consist_map_def)
  ultimately show ?thesis
    using eq consist_count_card [OF wf] queried_slaves_map [OF wf] by simp
qed

lemma consist_refines_map_witness:
  "\<exists>t. run_requests (consist_op 9) [Attach 7 2, Attach 9 0, Attach 8 0, Detach 7] (lcc_train_state_init 3 False) =
     ([LCC_ERR_OK, LCC_ERR_ALREADY_EXISTS, LCC_ERR_OK, LCC_ERR_OK], t) \<and> map_of (queried_slaves t) = [8 \<mapsto> 0]"
proof -
  let ?rs = "[Attach 7 2, Attach 9 0, Attach 8 0, Detach 7]"
  obtain codes t where r: "run_requests (consist_op 9) ?rs (lcc_train_state_init 3 False) = (codes, t)" by fastforce
  have m: "run_requests (slave_op 9) ?rs Map.empty =
      ([LCC_ERR_OK, LCC_ERR_ALREADY_EXISTS, LCC_ERR_OK, LCC_ERR_OK], [8 \<mapsto> 0])"
    by (auto simp: attach_slave_def detach_slave_def LCC_MAX_CONSIST_SLAVES_def fun_eq_iff)
  show ?thesis using consist_refines_map [OF _ _ r m] r by auto
qed

section \<open>Forwarding\<close>

lemma listener_bit: "(cmd OR 0x80) AND 0x80 \<noteq> (0 :: u8)" "(cmd OR 0x80) AND 0x7F = cmd AND (0x7F :: u8)"
  by (simp_all add: word_bits_simps)

lemma dispatch_no_forward:
  assumes "payload = [] \<or> hd payload AND LCC_TRAC_REQ_LISTENER \<noteq> 0"
  shows "dispatch_traction hooks i src payload s = dispatch_with (\<lambda>i src cmd payload s. ([], s)) hooks i src payload s"
  using assms by (cases payload) (simp_all add: dispatch_traction_def dispatch_with_def forward_to_consist_def Let_def
      cong: if_cong option.case_cong)

lemma forwarded_hd: "hd (forwarded_payload cmd flags payload) AND LCC_TRAC_REQ_LISTENER \<noteq> 0"
  using listener_bit(1) [of cmd] by (auto simp: forwarded_payload_def Let_def lcc_consts hd_conv_nth)

text \<open>
  The frame built for a slave is a single one whose command carries REQ_LISTENER: its handler
  is the general one.
\<close>

lemma forward_slave_handler:
  assumes "f = \<lparr>fr_id = i, fr_data = lcc_frame_build_addressed_hdr dst_alias 0 @ forwarded_payload cmd flags payload\<rparr>"
  shows "lcc_traction_handle_frame hooks dst f s = handle_listener hooks dst f s"
proof -
  have single: "lcc_frame_addressed_is_first f" "lcc_frame_addressed_is_last f"
    by (simp_all add: assms lcc_frame_addressed_is_first_def lcc_frame_addressed_is_last_def
        lcc_frame_addressed_flags_def lcc_frame_build_addressed_hdr_def lcc_consts word_bits_simps)
  then show ?thesis
    using dispatch_no_forward [of "drop 2 (fr_data f)" hooks dst "lcc_get_src (fr_id f)" s]
      forwarded_hd [of cmd flags payload]
    by (auto simp: lcc_traction_handle_frame_def handle_listener_def handle_frame_with_def Let_def assms
        split: option.splits)
qed

section \<open>Emergency stop of a consist\<close>

definition stopped :: "(lcc_train_state, 's) lcc_node \<Rightarrow> bool" where
  "stopped n \<longleftrightarrow> (\<exists>t. train n = Some t \<and> tn_emergency t \<and> lcc_float16_is_zero (tn_last_speed_f16 t))"

text \<open>The emergency stop of one train, as \<open>on_estop\<close> does it.\<close>

definition estop_at :: "'w lcc_traction_hooks \<Rightarrow> nat \<Rightarrow> ('s, 'w) layout \<Rightarrow> ('s, 'w) layout" where
  "estop_at hooks j s =
     (case train (fst s ! j) of
        None \<Rightarrow> s
      | Some t \<Rightarrow> (case on_estop hooks t (snd s) of (t', w) \<Rightarrow> (set_train j t' (fst s), w)))"

lemma estop_command:
  assumes "cmd AND 0x7F = LCC_TRAC_EMERGENCY_STOP" and "train (fst s ! i) \<noteq> None"
  shows "dispatch_with forward hooks i src (cmd # bs) s = forward i src cmd (cmd # bs) (estop_at hooks i s)"
  using assms by (auto simp: dispatch_with_def estop_at_def Let_def lcc_consts split: prod.splits)

lemma estop_slave:
  assumes "cmd AND 0x7F = LCC_TRAC_EMERGENCY_STOP"
  shows "snd (forward_to_slave (handle_listener hooks) src dst cmd flags [cmd] s) = estop_at hooks dst s"
proof -
  let ?f = "\<lparr>fr_id = lcc_can_id LCC_MTI_TRACTION_CONTROL_COMMAND (node_alias (fst s ! src)),
    fr_data = lcc_frame_build_addressed_hdr (node_alias (fst s ! dst)) 0 @ [cmd OR 0x80]\<rparr>"
  have single: "lcc_frame_addressed_is_first ?f" "lcc_frame_addressed_is_last ?f"
    by (simp_all add: lcc_frame_addressed_is_first_def lcc_frame_addressed_is_last_def
        lcc_frame_addressed_flags_def lcc_frame_build_addressed_hdr_def lcc_consts word_bits_simps)
  have fwd: "forwarded_payload cmd flags [cmd] = [cmd OR 0x80]" by (simp add: forwarded_payload_def lcc_consts)
  have "handle_listener hooks dst ?f s = ([], estop_at hooks dst s)"
  proof (cases "train (fst s ! dst)")
    case (Some t)
    then show ?thesis
      using estop_command [of "cmd OR 0x80" s dst "\<lambda>i src cmd payload s. ([], s)" hooks "lcc_get_src (fr_id ?f)" "[]"]
        single assms listener_bit(2) [of cmd]
      by (simp add: handle_listener_def handle_frame_with_def Let_def)
  qed (simp add: handle_listener_def handle_frame_with_def estop_at_def)
  then show ?thesis by (simp add: forward_to_slave_def fwd Let_def split: prod.splits)
qed

text \<open>The nodes a command of a train is forwarded to, in the order of the slots.\<close>

definition slot_target :: "nat \<Rightarrow> u16 \<Rightarrow> (lcc_train_state, 's) lcc_node list \<Rightarrow> nat \<Rightarrow> nat option" where
  "slot_target src src_alias nodes k =
     (case train (nodes ! src) of
        None \<Rightarrow> None
      | Some t \<Rightarrow>
          (if ce_node_id (tn_consist t ! k) = 0 then None
           else case find_node (ce_node_id (tn_consist t ! k)) nodes of
                  None \<Rightarrow> None
                | Some dst \<Rightarrow> (if dst = src \<or> node_alias (nodes ! dst) = src_alias then None else Some dst)))"

definition consist_targets :: "nat \<Rightarrow> u16 \<Rightarrow> (lcc_train_state, 's) lcc_node list \<Rightarrow> nat list" where
  "consist_targets src src_alias nodes = List.map_filter (slot_target src src_alias nodes) [0..<LCC_MAX_CONSIST_SLAVES]"

text \<open>A stop changes no node ID, alias or consist.\<close>

definition same_layout :: "(lcc_train_state, 's) lcc_node list \<Rightarrow> (lcc_train_state, 's) lcc_node list \<Rightarrow> bool" where
  "same_layout ns ns' \<longleftrightarrow> length ns' = length ns \<and>
     (\<forall>i. node_id (ns' ! i) = node_id (ns ! i) \<and> node_alias (ns' ! i) = node_alias (ns ! i) \<and>
          map_option tn_consist (train (ns' ! i)) = map_option tn_consist (train (ns ! i)))"

lemma set_train_nth: "set_train j t ns ! i = (if i = j \<and> j < length ns then (ns ! j)\<lparr>train := Some t\<rparr> else ns ! i)"
  by (cases "j < length ns") (auto simp: set_train_def nth_list_update list_update_beyond)

lemma estop_at_layout: "same_layout (fst s) (fst (estop_at hooks j s))"
  by (auto simp: same_layout_def estop_at_def on_estop_def set_train_nth split: option.splits)
    (simp add: set_train_def)

lemma same_layout_target:
  assumes "same_layout ns ns'"
  shows "slot_target src src_alias ns' k = slot_target src src_alias ns k"
proof -
  have "find_node n ns' = find_node n ns" for n using assms by (simp add: find_node_def same_layout_def)
  moreover have "map_option tn_consist (train (ns' ! src)) = map_option tn_consist (train (ns ! src))"
    using assms by (simp add: same_layout_def)
  ultimately show ?thesis using assms
    by (cases "train (ns ! src)"; cases "train (ns' ! src)")
      (simp_all add: slot_target_def same_layout_def split: option.splits)
qed

lemma same_layout_trans: "same_layout a b \<Longrightarrow> same_layout b c \<Longrightarrow> same_layout a c"
  by (simp add: same_layout_def)

lemma forward_slots_snd:
  "snd (forward_slots h src al cmd p (k # ks) s) = snd (forward_slots h src al cmd p ks (snd (forward_slot h src al cmd p k s)))"
  by (simp split: prod.splits)

lemma forward_slots_estop:
  assumes "cmd AND 0x7F = LCC_TRAC_EMERGENCY_STOP"
  shows "snd (forward_slots (handle_listener hooks) src src_alias cmd [cmd] ks s) =
    fold (estop_at hooks) (List.map_filter (slot_target src src_alias (fst s)) ks) s"
proof (induction ks arbitrary: s)
  case (Cons k ks)
  have should: "consist_should_forward cmd flags [cmd]" for flags
    using assms by (simp add: consist_should_forward_def lcc_consts)
  have 1: "snd (forward_slot (handle_listener hooks) src src_alias cmd [cmd] k s) =
      (case slot_target src src_alias (fst s) k of None \<Rightarrow> s | Some j \<Rightarrow> estop_at hooks j s)"
    by (auto simp: forward_slot_def slot_target_def should estop_slave [OF assms] Let_def split: option.splits)
  have 2: "slot_target src src_alias (fst (estop_at hooks j s)) = slot_target src src_alias (fst s)" for j
    using same_layout_target [OF estop_at_layout] by blast
  show ?case
    unfolding forward_slots_snd 1 Cons.IH
    by (cases "slot_target src src_alias (fst s) k") (simp_all add: map_filter_simps 2)
qed (simp add: map_filter_simps)

lemma estop_at_stops: "train (fst s ! j) \<noteq> None \<Longrightarrow> j < length (fst s) \<Longrightarrow> stopped (fst (estop_at hooks j s) ! j)"
  by (auto simp: estop_at_def on_estop_def set_train_nth stopped_def lcc_float16_is_zero_def word_bits_simps)

lemma estop_at_keeps: "stopped (fst s ! i) \<Longrightarrow> stopped (fst (estop_at hooks j s) ! i)"
  by (auto simp: estop_at_def on_estop_def set_train_nth stopped_def lcc_float16_is_zero_def word_bits_simps
      split: option.splits)

lemma estop_at_train:
  "length (fst (estop_at hooks j s)) = length (fst s) \<and> (train (fst (estop_at hooks j s) ! i) = None \<longleftrightarrow> train (fst s ! i) = None)"
  using estop_at_layout [of s hooks j] by (auto simp: same_layout_def) (metis map_option_is_None)+

lemma fold_estop_stops:
  "i \<in> set js \<or> stopped (fst s ! i) \<Longrightarrow> train (fst s ! i) \<noteq> None \<Longrightarrow> i < length (fst s) \<Longrightarrow>
   stopped (fst (fold (estop_at hooks) js s) ! i)"
proof (induction js arbitrary: s)
  case (Cons j js)
  then show ?case
    using Cons.IH [of "estop_at hooks j s"] estop_at_stops [of s j hooks] estop_at_keeps [of s i hooks j]
      estop_at_train [of hooks j s i] by auto
qed simp


lemma slot_target_registered: "slot_target src al ns k = Some j \<Longrightarrow> j < length ns"
  by (auto simp: slot_target_def find_node_def find_Some_iff split: option.splits if_splits)

lemma consist_targets_registered: "j \<in> set (consist_targets src al ns) \<Longrightarrow> j < length ns"
proof -
  assume "j \<in> set (consist_targets src al ns)"
  then obtain k where "slot_target src al ns k = Some j"
    by (auto simp: consist_targets_def map_filter_def simp del: upt_Suc)
  then show ?thesis by (rule slot_target_registered)
qed

text \<open>
  C31: An emergency stop of a train that is not itself a forwarded command stops the train and
  then, in the order of the slots, exactly the slaves of its consist that are registered here
  and are not the sender, each once per slot; each of them is left with a speed of zero and
  marked as stopped.
\<close>

theorem consist_estop:
  assumes "cmd AND 0x7F = LCC_TRAC_EMERGENCY_STOP" and "cmd AND LCC_TRAC_REQ_LISTENER = 0"
    and "train (fst s ! i) \<noteq> None" and "i < length (fst s)"
  shows "snd (dispatch_traction hooks i src [cmd] s) =
      fold (estop_at hooks) (i # consist_targets i src (fst s)) s \<and>
    (\<forall>j \<in> set (i # consist_targets i src (fst s)). train (fst s ! j) \<noteq> None \<longrightarrow>
       stopped (fst (snd (dispatch_traction hooks i src [cmd] s)) ! j))"
proof -
  have same: "slot_target i src (fst (estop_at hooks i s)) = slot_target i src (fst s)"
    using same_layout_target [OF estop_at_layout] by blast
  have eq: "snd (dispatch_traction hooks i src [cmd] s) = fold (estop_at hooks) (i # consist_targets i src (fst s)) s"
    using assms(2) unfolding dispatch_traction_def estop_command [OF assms(1,3)]
    by (simp add: forward_to_consist_def forward_slots_estop [OF assms(1)] same consist_targets_def del: upt_Suc)
  have "stopped (fst (fold (estop_at hooks) (i # consist_targets i src (fst s)) s) ! j)"
    if "j \<in> set (i # consist_targets i src (fst s))" "train (fst s ! j) \<noteq> None" for j
  proof (rule fold_estop_stops)
    show "j < length (fst s)"
      using that(1) assms(4) consist_targets_registered by auto
  qed (use that in auto)
  with eq show ?thesis by simp
qed


text \<open>A train 3 with the train 4 in its consist; the world is the list of stopped addresses.\<close>

definition estop_log :: "u16 list lcc_traction_hooks" where
  "estop_log = \<lparr>hk_set_throttle = None, hk_set_function = None, hk_emergency_stop = Some (\<lambda>a l w. w @ [a]),
     hk_global_estop_held = None, hk_pom_write_byte = None, hk_pom_write_long_address = None,
     hk_pom_write_consist = None, hk_pom_write_long_consist = None, hk_pom_read_byte = None\<rparr>"

definition consist_sample :: "(lcc_train_state, unit) lcc_node list" where
  "consist_sample =
     [(lcc_node_init 5 LCC_ROLE_TRAIN)\<lparr>train := Some ((lcc_train_state_init 3 False)
        \<lparr>tn_consist := [empty_entry, \<lparr>ce_node_id = 8, ce_flags = 0\<rparr>, empty_entry, empty_entry]\<rparr>)\<rparr>,
      (lcc_node_init 8 LCC_ROLE_TRAIN)\<lparr>train := Some ((lcc_train_state_init 4 False)\<lparr>tn_last_speed_f16 := 0xC800\<rparr>)\<rparr>]"

lemma consist_estop_witness:
  "snd (snd (dispatch_traction estop_log 0 0x300 [LCC_TRAC_EMERGENCY_STOP] (consist_sample, []))) = [3, 4] \<and>
   stopped (fst (snd (dispatch_traction estop_log 0 0x300 [LCC_TRAC_EMERGENCY_STOP] (consist_sample, []))) ! 1)"
proof -
  let ?s = "(consist_sample, [] :: u16 list)"
  have upt: "[0..<LCC_MAX_CONSIST_SLAVES] = [0, 1, 2, 3]" "[0..<2] = [0, 1 :: nat]"
    by (simp_all add: LCC_MAX_CONSIST_SLAVES_def upt_rec)
  have targets: "consist_targets 0 0x300 consist_sample = [1]"
    by (simp add: consist_targets_def upt slot_target_def consist_sample_def find_node_def
        empty_entry_def lcc_node_init_def lcc_train_state_init_def map_filter_simps)
  have logged: "snd (fold (estop_at estop_log) [0, 1] ?s) = [3, 4]"
    by (simp add: estop_at_def on_estop_def estop_log_def consist_sample_def set_train_def lcc_node_init_def lcc_train_state_init_def)
  have trains: "train (consist_sample ! 0) \<noteq> None" "train (consist_sample ! 1) \<noteq> None" "0 < length consist_sample"
    by (simp_all add: consist_sample_def)
  have "snd (dispatch_traction estop_log 0 0x300 [LCC_TRAC_EMERGENCY_STOP] ?s) = fold (estop_at estop_log) [0, 1] ?s \<and>
      (\<forall>j \<in> set [0, 1]. train (fst ?s ! j) \<noteq> None \<longrightarrow>
        stopped (fst (snd (dispatch_traction estop_log 0 0x300 [LCC_TRAC_EMERGENCY_STOP] ?s)) ! j))"
    using consist_estop [of LCC_TRAC_EMERGENCY_STOP ?s 0 estop_log "0x300"] trains
    by (auto simp: targets lcc_consts)
  with logged trains show ?thesis by auto
qed

end
