(* ===== verification/Lcc_Train_Search.thy ===== *)
theory Lcc_Train_Search
  imports Lcc_Traction Lcc_Events "HOL-Library.Multiset"
begin

text \<open>
  The Train Search protocol, \<^verbatim>\<open>src/src/lcc/lcc_train_search.c\<close> and \<^verbatim>\<open>lcc_train_search.h\<close>: the
  search events and their digits, the match of a search with the trains, and the answers, which
  a train without a confirmed alias owes until it has one. The allocator is an argument; the
  one of the command station is in theory \<open>Lcc_Station\<close>.
\<close>

section \<open>Search events\<close>

definition LCC_EVENT_TRAIN_SEARCH_PREFIX :: u64 where [lcc_consts]: "LCC_EVENT_TRAIN_SEARCH_PREFIX = 0x090099FF00000000"
definition LCC_EVENT_TRAIN_SEARCH_MASK :: u64 where [lcc_consts]: "LCC_EVENT_TRAIN_SEARCH_MASK = 0xFFFFFFFF00000000"
definition LCC_TRAIN_SEARCH_FLAG_ALLOCATE :: u8 where [lcc_consts]: "LCC_TRAIN_SEARCH_FLAG_ALLOCATE = 0x80"
definition LCC_TRAIN_SEARCH_FLAG_EXACT :: u8 where [lcc_consts]: "LCC_TRAIN_SEARCH_FLAG_EXACT = 0x40"
definition LCC_TRAIN_SEARCH_FLAG_DCC :: u8 where [lcc_consts]: "LCC_TRAIN_SEARCH_FLAG_DCC = 0x08"
definition LCC_TRAIN_SEARCH_FLAG_LONG_ADDR :: u8 where [lcc_consts]: "LCC_TRAIN_SEARCH_FLAG_LONG_ADDR = 0x04"
definition LCC_TRAIN_SEARCH_FLAG_RESERVED :: u8 where [lcc_consts]: "LCC_TRAIN_SEARCH_FLAG_RESERVED = 0x10"
definition LCC_DCC_SHORT_ADDR_MAX :: u16 where [lcc_consts]: "LCC_DCC_SHORT_ADDR_MAX = 127"
definition LCC_TRAIN_NODE_ID_BASE :: u64 where [lcc_consts]: "LCC_TRAIN_NODE_ID_BASE = 0x060100000000"

definition lcc_train_search_is_event :: "u64 \<Rightarrow> bool" where
  "lcc_train_search_is_event event_id \<longleftrightarrow> event_id AND LCC_EVENT_TRAIN_SEARCH_MASK = LCC_EVENT_TRAIN_SEARCH_PREFIX"

definition extract_digits :: "u64 \<Rightarrow> u8 list" where
  "extract_digits event_id =
     (let lower = u32_of (event_id AND 0xFFFFFFFF)
      in [u8_of (shr lower 28 AND 0x0F), u8_of (shr lower 24 AND 0x0F), u8_of (shr lower 20 AND 0x0F),
          u8_of (shr lower 16 AND 0x0F), u8_of (shr lower 12 AND 0x0F), u8_of (shr lower 8 AND 0x0F)])"

definition lcc_train_search_flags :: "u64 \<Rightarrow> u8" where
  "lcc_train_search_flags event_id = u8_of (event_id AND 0xFF)"

definition lcc_train_search_address :: "u64 \<Rightarrow> u16" where
  "lcc_train_search_address event_id =
     fold (\<lambda>d addr. if d \<le> 9 then addr * 10 + u16_of d else addr) (extract_digits event_id) 0"

text \<open>The digits of an address filled in from the right; the first argument is \<open>i + 1\<close>.\<close>

fun fill_digits :: "nat \<Rightarrow> u16 \<Rightarrow> u8 list \<Rightarrow> u8 list" where
  "fill_digits 0 address digits = digits"
| "fill_digits (Suc i) address digits =
     (if address = 0 then digits else fill_digits i (address div 10) (digits[i := u8_of (address mod 10)]))"

definition lcc_train_search_create_event :: "u16 \<Rightarrow> u8 \<Rightarrow> u64" where
  "lcc_train_search_create_event address flags =
     (let digits = replicate 6 0x0F;
          digits = (if address = 0 then digits[5 := 0] else fill_digits 6 address digits);
          lower = shl (u32_of (digits ! 0)) 28 OR shl (u32_of (digits ! 1)) 24 OR shl (u32_of (digits ! 2)) 20
                  OR shl (u32_of (digits ! 3)) 16 OR shl (u32_of (digits ! 4)) 12 OR shl (u32_of (digits ! 5)) 8
                  OR u32_of flags
      in LCC_EVENT_TRAIN_SEARCH_PREFIX OR u64_of lower)"

section \<open>Matching\<close>

definition has_reserved_values :: "u8 list \<Rightarrow> u8 \<Rightarrow> bool" where
  "has_reserved_values digits flags \<longleftrightarrow>
     list_ex (\<lambda>d. d \<ge> 0x0A \<and> d \<le> 0x0E) digits \<or>
     flags AND LCC_TRAIN_SEARCH_FLAG_RESERVED \<noteq> 0 \<or>
     (flags AND LCC_TRAIN_SEARCH_FLAG_DCC = 0 \<and> flags AND 0x07 \<noteq> 0)"

text \<open>The digits from the right, at most as many as the first argument.\<close>

fun rev_digits :: "nat \<Rightarrow> u16 \<Rightarrow> u8 list" where
  "rev_digits 0 t = []"
| "rev_digits (Suc n) t = (if t = 0 then [] else u8_of (t mod 10) # rev_digits n (t div 10))"

definition does_address_match :: "u16 \<Rightarrow> u8 list \<Rightarrow> u8 \<Rightarrow> bool" where
  "does_address_match train_address digits flags \<longleftrightarrow>
     (let train_digits = (if train_address = 0 then [0] else rev (rev_digits 6 train_address));
          search = filter (\<lambda>d. d \<le> 9) digits
      in if search = [] then False
         else if flags AND LCC_TRAIN_SEARCH_FLAG_EXACT \<noteq> 0 \<and> length search \<noteq> length train_digits then False
         else if flags AND LCC_TRAIN_SEARCH_FLAG_EXACT = 0 \<and> length search > length train_digits then False
         else list_all (\<lambda>i. search ! i = train_digits ! i) [0..<length search])"

definition does_train_match :: "lcc_train_state \<Rightarrow> u8 list \<Rightarrow> u16 \<Rightarrow> u8 \<Rightarrow> bool" where
  "does_train_match t digits search_addr flags \<longleftrightarrow>
     (let short_query = (search_addr \<le> LCC_DCC_SHORT_ADDR_MAX);
          pass = (if flags AND LCC_TRAIN_SEARCH_FLAG_DCC = 0 then True
                  else if flags AND LCC_TRAIN_SEARCH_FLAG_LONG_ADDR \<noteq> 0 then tn_is_long_address t
                  else if flags AND LCC_TRAIN_SEARCH_FLAG_ALLOCATE = 0
                  then \<not> (short_query \<and> tn_is_long_address t) \<and> \<not> (\<not> short_query \<and> \<not> tn_is_long_address t)
                  else True)
      in pass \<and> does_address_match (tn_dcc_address t) digits flags)"

section \<open>Searches\<close>

definition send_producer_identified_valid :: "('t, 's) lcc_node \<Rightarrow> u64 \<Rightarrow> lcc_frame list" where
  "send_producer_identified_valid node event_id =
     lcc_node_send_global node LCC_MTI_PRODUCER_IDENTIFIED_VALID (lcc_event_to_buf event_id)"

text \<open>The body of the search for one node: whether it matched, what it sent, the nodes after.\<close>

definition search_node ::
  "u64 \<Rightarrow> nat \<Rightarrow> (lcc_train_state, 's) lcc_node list \<Rightarrow> bool \<times> lcc_frame list \<times> (lcc_train_state, 's) lcc_node list" where
  "search_node event_id i nodes =
     (let node = nodes ! i; digits = extract_digits event_id; flags = lcc_train_search_flags event_id;
          search_addr = lcc_train_search_address event_id
      in if role node \<noteq> LCC_ROLE_TRAIN then (False, [], nodes)
         else case train node of
                None \<Rightarrow> (False, [], nodes)
              | Some t \<Rightarrow>
                  (if \<not> does_train_match t digits search_addr flags then (False, [], nodes)
                   else if alias_state node = LCC_A_CONFIRMED
                   then (True, send_producer_identified_valid node event_id, nodes)
                   else (True, [], set_train i (t\<lparr>tn_pending_search_event := event_id\<rparr>) nodes)))"

primrec search_nodes ::
  "u64 \<Rightarrow> nat list \<Rightarrow> (lcc_train_state, 's) lcc_node list \<Rightarrow> bool \<times> lcc_frame list \<times> (lcc_train_state, 's) lcc_node list" where
  "search_nodes event_id [] nodes = (False, [], nodes)"
| "search_nodes event_id (i # is) nodes =
     (case search_node event_id i nodes of
        (m, fs, nodes1) \<Rightarrow>
          (case search_nodes event_id is nodes1 of (m', fs', nodes2) \<Rightarrow> (m \<or> m', fs @ fs', nodes2)))"

text \<open>The allocator of the command station, \<open>None\<close> for NULL; its result is not looked at.\<close>

type_synonym ('s, 'w) lcc_train_alloc_fn = "u16 \<Rightarrow> u8 \<Rightarrow> u64 \<Rightarrow> ('s, 'w) layout \<Rightarrow> ('s, 'w) layout"

definition lcc_train_search_dispatch ::
  "('s, 'w) lcc_train_alloc_fn option \<Rightarrow> u64 \<Rightarrow> ('s, 'w) layout \<Rightarrow> lcc_frame list \<times> ('s, 'w) layout" where
  "lcc_train_search_dispatch alloc event_id s =
     (let flags = lcc_train_search_flags event_id; search_addr = lcc_train_search_address event_id
      in if \<not> lcc_train_search_is_event event_id then ([], s)
         else if has_reserved_values (extract_digits event_id) flags then ([], s)
         else (case search_nodes event_id [0..<length (fst s)] (fst s) of
                 (matched, fs, nodes) \<Rightarrow>
                   (let s1 = (nodes, snd s)
                    in if matched \<or> flags AND LCC_TRAIN_SEARCH_FLAG_ALLOCATE = 0 then (fs, s1)
                       else case alloc of None \<Rightarrow> (fs, s1) | Some g_alloc \<Rightarrow> (fs, g_alloc search_addr flags event_id s1))))"

definition lcc_train_search_ensure_by_node_id ::
  "('s, 'w) lcc_train_alloc_fn option \<Rightarrow> u64 \<Rightarrow> ('s, 'w) layout \<Rightarrow> ('s, 'w) layout" where
  "lcc_train_search_ensure_by_node_id alloc ident s =
     (if ident AND 0xFFFFFFFF0000 \<noteq> LCC_TRAIN_NODE_ID_BASE then s
      else let lo16 = u16_of (ident AND 0xFFFF); addr = lo16 AND 0x3FFF;
               is_long = (lo16 AND 0xC000 = 0xC000 \<or> addr > LCC_DCC_SHORT_ADDR_MAX)
           in if addr = 0 then s
              else case alloc of
                     None \<Rightarrow> s
                   | Some g_alloc \<Rightarrow>
                       g_alloc addr
                         (if is_long then LCC_TRAIN_SEARCH_FLAG_DCC OR LCC_TRAIN_SEARCH_FLAG_LONG_ADDR
                          else LCC_TRAIN_SEARCH_FLAG_DCC) 0 s)"

text \<open>The replies owed by trains whose alias is confirmed by now.\<close>

definition flush_node ::
  "nat \<Rightarrow> (lcc_train_state, 's) lcc_node list \<Rightarrow> lcc_frame list \<times> (lcc_train_state, 's) lcc_node list" where
  "flush_node i nodes =
     (let node = nodes ! i
      in if role node \<noteq> LCC_ROLE_TRAIN then ([], nodes)
         else case train node of
                None \<Rightarrow> ([], nodes)
              | Some t \<Rightarrow>
                  (if alias_state node \<noteq> LCC_A_CONFIRMED then ([], nodes)
                   else if tn_pending_search_event t = 0 then ([], nodes)
                   else (send_producer_identified_valid node (tn_pending_search_event t),
                         set_train i (t\<lparr>tn_pending_search_event := 0\<rparr>) nodes)))"

primrec flush_nodes ::
  "nat list \<Rightarrow> (lcc_train_state, 's) lcc_node list \<Rightarrow> lcc_frame list \<times> (lcc_train_state, 's) lcc_node list" where
  "flush_nodes [] nodes = ([], nodes)"
| "flush_nodes (i # is) nodes =
     (case flush_node i nodes of
        (fs, nodes1) \<Rightarrow> (case flush_nodes is nodes1 of (fs', nodes2) \<Rightarrow> (fs @ fs', nodes2)))"

definition lcc_train_search_flush_pending ::
  "(lcc_train_state, 's) lcc_node list \<Rightarrow> lcc_frame list \<times> (lcc_train_state, 's) lcc_node list" where
  "lcc_train_search_flush_pending nodes = flush_nodes [0..<length nodes] nodes"

section \<open>Decimal digits\<close>

fun decimals :: "nat \<Rightarrow> nat list" where
  "decimals t = (if t = 0 then [] else t mod 10 # decimals (t div 10))"

declare decimals.simps [simp del]

lemma decimals_0 [simp]: "decimals 0 = []"
  by (simp add: decimals.simps)

lemma decimals_pos: "0 < t \<Longrightarrow> decimals t = t mod 10 # decimals (t div 10)"
  by (subst decimals.simps) simp

lemma decimals_value: "foldr (\<lambda>d a. a * 10 + d) (decimals t) 0 = t"
proof (induction t rule: less_induct)
  case (less t)
  then show ?case by (cases "t = 0") (simp_all add: decimals_pos)
qed

lemma decimals_inject: "decimals a = decimals b \<longleftrightarrow> a = b"
  by (metis decimals_value)

lemma decimals_Nil: "decimals t = [] \<longleftrightarrow> t = 0"
  by (cases "t = 0") (simp_all add: decimals_pos)

lemma decimals_small: "d \<in> set (decimals t) \<Longrightarrow> d < 10"
proof (induction t rule: less_induct)
  case (less t)
  then show ?case using less.IH [of "t div 10"] by (cases "t = 0") (auto simp: decimals_pos [of t])
qed

lemma decimals_drop: "decimals (t div 10 ^ k) = drop k (decimals t)"
proof (induction k arbitrary: t)
  case (Suc k)
  have "t div 10 ^ Suc k = (t div 10) div 10 ^ k" by (simp add: div_mult2_eq)
  with Suc show ?case by (cases "t = 0") (simp_all add: decimals_pos)
qed simp

lemma decimals_last: "0 < t \<Longrightarrow> last (decimals t) \<noteq> 0"
proof (induction t rule: less_induct)
  case (less t)
  then show ?case using less.IH [of "t div 10"]
    by (cases "t < 10") (simp_all add: decimals_pos [of t] decimals_Nil)
qed

lemma decimals_length: "t < 10 ^ n \<Longrightarrow> length (decimals t) \<le> n"
proof (induction n arbitrary: t)
  case (Suc n)
  then show ?case by (cases "t = 0") (simp_all add: decimals_pos)
qed simp

lemma rev_digits_decimals: "unat t < 10 ^ n \<Longrightarrow> rev_digits n t = map of_nat (decimals (unat t))"
proof (induction n arbitrary: t)
  case (Suc n)
  show ?case
  proof (cases "t = 0")
    case False
    then have pos: "0 < unat t" by (simp add: unat_gt_0)
    have "u8_of (t mod 10) = of_nat (unat t mod 10)"
      by (rule word_unat_eq_iff [THEN iffD2]) (simp add: unsigned_ucast_eq take_bit_eq_mod unat_mod unsigned_of_nat)
    then show ?thesis
      using False Suc.IH [of "t div 10"] Suc.prems by (simp add: decimals_pos [OF pos] unat_div)
  qed simp
qed (simp add: unat_eq_zero)

text \<open>The digits of an address as both sides of a match have them.\<close>

definition decimal :: "u16 \<Rightarrow> u8 list" where
  "decimal a = (if a = 0 then [0] else rev (map of_nat (decimals (unat a))))"

lemma u16_bound: "unat (a :: u16) < 10 ^ 6"
  using unsigned_less [where 'b=16 and 'a=nat, of a] by simp

lemma decimal_train: "(if a = 0 then [0] else rev (rev_digits 6 a)) = decimal a"
  using rev_digits_decimals [OF u16_bound] by (simp add: decimal_def rev_map)

lemma fill_digits_shape:
  "i \<le> length ds \<Longrightarrow> length (rev_digits i a) \<le> i \<and>
   fill_digits i a ds = take (i - length (rev_digits i a)) ds @ rev (rev_digits i a) @ drop i ds"
proof (induction i arbitrary: a ds)
  case (Suc i)
  show ?case
  proof (cases "a = 0")
    case False
    have "drop i (ds[i := u8_of (a mod 10)]) = u8_of (a mod 10) # drop (Suc i) ds"
      using Suc.prems by (simp add: drop_update_swap drop_Cons' Cons_nth_drop_Suc [symmetric])
    with Suc.IH [of "ds[i := u8_of (a mod 10)]" "a div 10"] Suc.prems False show ?thesis by simp
  qed simp
qed simp

lemma decimal_digits: "d \<in> set (decimal a) \<Longrightarrow> d \<le> 9"
proof -
  assume "d \<in> set (decimal a)"
  then obtain n where "d = 0 \<or> (d = of_nat n \<and> n < 10)"
    by (auto simp: decimal_def split: if_splits dest: decimals_small)
  then show "d \<le> 9" by (auto simp: word_le_nat_alt unat_of_nat_less)
qed

lemma decimal_length: "decimal a \<noteq> []" "length (decimal a) \<le> 6"
  using decimals_length [OF u16_bound, of a] by (simp_all add: decimal_def decimals_Nil unat_eq_zero)

text \<open>The digits of a created event.\<close>

definition created_digits :: "u16 \<Rightarrow> u8 list" where
  "created_digits a = replicate (6 - length (decimal a)) 0x0F @ decimal a"

lemma created_digits:
  "(if a = 0 then (replicate 6 0x0F)[5 := 0] else fill_digits 6 a (replicate 6 0x0F)) = created_digits a"
proof (cases "a = 0")
  case False
  then have r: "rev (rev_digits 6 a) = decimal a" using decimal_train [of a] by simp
  then have "length (rev_digits 6 a) = length (decimal a)" by (metis length_rev)
  with False r fill_digits_shape [of 6 "replicate 6 0x0F" a] show ?thesis by (simp add: created_digits_def)
qed (simp add: created_digits_def decimal_def numeral_eq_Suc)

lemma created_digits_list: "length (created_digits a) = 6" "\<forall>d\<in>set (created_digits a). d AND 0xF = d"
proof -
  show "length (created_digits a) = 6" using decimal_length(2) [of a] by (simp add: created_digits_def)
  have "d AND mask 4 = d" if "d < 2 ^ 4" for d :: u8 by (rule less_mask_eq) (use that in simp_all)
  moreover have "d < 2 ^ 4" if "d \<in> set (created_digits a)" for d
    using that decimal_digits [of d a] by (auto simp: created_digits_def word_less_nat_alt word_le_nat_alt)
  ultimately show "\<forall>d\<in>set (created_digits a). d AND 0xF = d" by (simp add: mask_numeral)
qed

lemma created_filter: "filter (\<lambda>d. d \<le> 9) (created_digits a) = decimal a"
  using decimal_digits [of _ a] by (auto simp: created_digits_def filter_id_conv)

lemma packed_digits:
  fixes d0 d1 d2 d3 d4 d5 flags :: u8
  assumes "lower = shl (u32_of (d0 AND 0xF)) 28 OR shl (u32_of (d1 AND 0xF)) 24 OR shl (u32_of (d2 AND 0xF)) 20
    OR shl (u32_of (d3 AND 0xF)) 16 OR shl (u32_of (d4 AND 0xF)) 12 OR shl (u32_of (d5 AND 0xF)) 8 OR u32_of flags"
    and "e = 0x090099FF00000000 OR u64_of lower"
  shows "u32_of (e AND 0xFFFFFFFF) = lower" "e AND 0xFFFFFFFF00000000 = 0x090099FF00000000" "u8_of (e AND 0xFF) = flags"
    "u8_of (shr lower 28 AND 0xF) = d0 AND 0xF" "u8_of (shr lower 24 AND 0xF) = d1 AND 0xF"
    "u8_of (shr lower 20 AND 0xF) = d2 AND 0xF" "u8_of (shr lower 16 AND 0xF) = d3 AND 0xF"
    "u8_of (shr lower 12 AND 0xF) = d4 AND 0xF" "u8_of (shr lower 8 AND 0xF) = d5 AND 0xF"
proof -
  have l: "u32_of (e AND 0xFFFFFFFF) = lower" and "e AND 0xFFFFFFFF00000000 = 0x090099FF00000000"
    unfolding assms(2) by (simp_all add: word_bits_simps)
  then show "u32_of (e AND 0xFFFFFFFF) = lower" "e AND 0xFFFFFFFF00000000 = 0x090099FF00000000" by simp_all
  show "u8_of (e AND 0xFF) = flags" unfolding assms by (simp add: word_bits_simps)
  show "u8_of (shr lower 28 AND 0xF) = d0 AND 0xF" "u8_of (shr lower 24 AND 0xF) = d1 AND 0xF"
    "u8_of (shr lower 20 AND 0xF) = d2 AND 0xF" "u8_of (shr lower 16 AND 0xF) = d3 AND 0xF"
    "u8_of (shr lower 12 AND 0xF) = d4 AND 0xF" "u8_of (shr lower 8 AND 0xF) = d5 AND 0xF"
    unfolding assms(1) by (simp_all add: word_bits_simps)
qed

lemma created_event:
  "lcc_train_search_is_event (lcc_train_search_create_event a flags)"
  "extract_digits (lcc_train_search_create_event a flags) = created_digits a"
  "lcc_train_search_flags (lcc_train_search_create_event a flags) = flags"
proof -
  obtain d0 d1 d2 d3 d4 d5 where ds: "created_digits a = [d0, d1, d2, d3, d4, d5]"
    using created_digits_list(1) [of a] by (auto simp: numeral_eq_Suc length_Suc_conv)
  define lower where "lower = shl (u32_of (d0 AND 0xF)) 28 OR shl (u32_of (d1 AND 0xF)) 24 OR shl (u32_of (d2 AND 0xF)) 20
    OR shl (u32_of (d3 AND 0xF)) 16 OR shl (u32_of (d4 AND 0xF)) 12 OR shl (u32_of (d5 AND 0xF)) 8 OR u32_of flags"
  have low: "d0 AND 0xF = d0" "d1 AND 0xF = d1" "d2 AND 0xF = d2" "d3 AND 0xF = d3" "d4 AND 0xF = d4" "d5 AND 0xF = d5"
    using created_digits_list(2) [of a] ds by simp_all
  have event: "lcc_train_search_create_event a flags = 0x090099FF00000000 OR u64_of lower"
    unfolding lcc_train_search_create_event_def Let_def created_digits ds lower_def low
    by (simp add: LCC_EVENT_TRAIN_SEARCH_PREFIX_def)
  note p = packed_digits [OF lower_def event]
  show "lcc_train_search_is_event (lcc_train_search_create_event a flags)"
    using p(2) by (simp add: lcc_train_search_is_event_def lcc_consts)
  show "extract_digits (lcc_train_search_create_event a flags) = created_digits a"
    using p(4-9) unfolding extract_digits_def Let_def p(1) ds low by simp
  show "lcc_train_search_flags (lcc_train_search_create_event a flags) = flags"
    using p(3) by (simp add: lcc_train_search_flags_def)
qed

section \<open>Searching by number\<close>

lemma decimal_value: "fold (\<lambda>d addr. if d \<le> 9 then addr * 10 + u16_of d else addr) (decimal a) 0 = a"
proof (cases "a = 0")
  case False
  let ?f = "\<lambda>d addr. if d \<le> 9 then addr * 10 + u16_of d else addr"
  have step: "(of_nat d :: u8) \<le> 9" "u16_of (of_nat d :: u8) = of_nat d" if "d < 10" for d
    using that by (simp_all add: word_le_nat_alt unat_of_nat_less word_unat_eq_iff unsigned_ucast_eq unsigned_of_nat
        take_bit_nat_eq_self take_bit_eq_mod del: of_nat_le_iff)
  have "foldr ?f (map of_nat ds :: u8 list) 0 = of_nat (foldr (\<lambda>d n. n * 10 + d) ds 0)" if "\<forall>d\<in>set ds. d < 10" for ds
    using that
  proof (induction ds)
    case (Cons d ds)
    then show ?case using step [of d] by simp
  qed simp
  from this [of "decimals (unat a)"] have "foldr ?f (map of_nat (decimals (unat a)) :: u8 list) 0 = of_nat (unat a)"
    using decimals_small unfolding decimals_value by blast
  with False show ?thesis by (simp add: decimal_def foldr_conv_fold)
qed (simp add: decimal_def)

text \<open>
  A search event made for an address and flags is a search event, and both are read back
  from it, for every one of the 65536 addresses.
\<close>

theorem search_event_roundtrip:
  "lcc_train_search_is_event (lcc_train_search_create_event a flags) \<and>
   lcc_train_search_address (lcc_train_search_create_event a flags) = a \<and>
   lcc_train_search_flags (lcc_train_search_create_event a flags) = flags"
proof -
  let ?f = "\<lambda>d addr. if d \<le> 9 then addr * 10 + u16_of d else addr"
  have "fold ?f (replicate n (0xF :: u8)) x = x" for n x by (induction n) simp_all
  then have "lcc_train_search_address (lcc_train_search_create_event a flags) = a"
    using decimal_value [of a] by (simp add: lcc_train_search_address_def created_event created_digits_def)
  then show ?thesis by (simp add: created_event)
qed

lemma list_all_take: "length xs \<le> length ys \<Longrightarrow> list_all (\<lambda>i. xs ! i = ys ! i) [0..<length xs] \<longleftrightarrow> take (length xs) ys = xs"
  unfolding list_all_iff list_eq_iff_nth_eq [of "take (length xs) ys"] by auto

lemma decimals_map_inject:
  "(map of_nat (drop k (decimals t)) :: u8 list) = map of_nat (decimals a) \<longleftrightarrow> t div 10 ^ k = a"
proof -
  have inj: "inj_on (of_nat :: nat \<Rightarrow> u8) {..<10}"
  proof (rule inj_on_inverseI [where g = unat])
    fix x :: nat
    assume "x \<in> {..<10}"
    then show "unat (of_nat x :: u8) = x" by (simp add: unat_of_nat_less)
  qed
  have "set (decimals a) \<subseteq> {..<10}" "set (drop k (decimals t)) \<subseteq> {..<10}"
    using decimals_small by (auto dest: in_set_dropD)
  with inj have "map of_nat (drop k (decimals t)) = (map of_nat (decimals a) :: u8 list) \<longleftrightarrow> drop k (decimals t) = decimals a"
    by (intro inj_on_map_eq_map) (auto intro: inj_on_subset)
  then show ?thesis by (simp add: decimals_drop [symmetric] decimals_inject)
qed

lemma decimal_prefix:
  "length (decimal a) \<le> length (decimal t) \<and> take (length (decimal a)) (decimal t) = decimal a \<longleftrightarrow>
   (if a = 0 then t = 0 else \<exists>k. unat t div 10 ^ k = unat a)"
proof (cases "a = 0 \<or> t = 0")
  case True
  have lead: "take 1 (decimal t) = [0] \<longleftrightarrow> t = 0" for t
  proof (cases "t = 0")
    case False
    then have l: "decimals (unat t) \<noteq> []" "last (decimals (unat t)) \<noteq> 0" "last (decimals (unat t)) < 10"
      using decimals_last [of "unat t"] decimals_small [of "last (decimals (unat t))" "unat t"]
      by (simp_all add: decimals_Nil unat_eq_zero unat_gt_0)
    then have "hd (decimal t) = of_nat (last (decimals (unat t)))"
      using False by (simp add: decimal_def hd_rev last_map)
    moreover have "(of_nat n :: u8) \<noteq> 0" if "n \<noteq> 0" "n < 10" for n
      using that unat_of_nat_less [where 'a=8, of n] by (auto simp del: word_of_nat_eq_0_iff)
    then have "(of_nat (last (decimals (unat t))) :: u8) \<noteq> 0" using l by blast
    ultimately show ?thesis using False decimal_length(1) [of t] by (cases "decimal t") simp_all
  qed (simp add: decimal_def)
  show ?thesis
  proof (cases "a = 0")
    case True
    then have "decimal a = [0]" by (simp add: decimal_def)
    with True lead [of t] decimal_length(1) [of t] show ?thesis by (cases "decimal t") auto
  next
    case False
    with \<open>a = 0 \<or> t = 0\<close> have t: "decimal t = [0]" "t = 0" by (simp_all add: decimal_def)
    with False lead [of a] decimal_length(1) [of a] show ?thesis by (cases "decimal a") (auto simp: unat_eq_zero)
  qed
next
  case False
  let ?a = "map of_nat (decimals (unat a)) :: u8 list" and ?t = "map of_nat (decimals (unat t)) :: u8 list"
  have "length ?a \<le> length ?t \<and> take (length ?a) (rev ?t) = rev ?a \<longleftrightarrow> (\<exists>k. drop k ?t = ?a)"
  proof
    assume l: "length ?a \<le> length ?t \<and> take (length ?a) (rev ?t) = rev ?a"
    then have "rev (drop (length ?t - length ?a) ?t) = rev ?a" by (simp add: take_rev)
    then show "\<exists>k. drop k ?t = ?a" by (metis rev_rev_ident)
  next
    assume "\<exists>k. drop k ?t = ?a"
    then obtain k where k: "drop k ?t = ?a" ..
    then have len: "length ?a = length ?t - k" by (metis length_drop)
    moreover have "0 < length ?a" using False by (simp add: decimals_Nil unat_eq_zero)
    ultimately have "length ?t - length ?a = k" "length ?a \<le> length ?t" by linarith+
    with k show "length ?a \<le> length ?t \<and> take (length ?a) (rev ?t) = rev ?a" by (simp only: take_rev)
  qed
  also have "\<dots> \<longleftrightarrow> (\<exists>k. unat t div 10 ^ k = unat a)"
    using decimals_map_inject [of _ "unat t" "unat a"] by (simp add: drop_map)
  finally show ?thesis using False by (simp add: decimal_def)
qed

text \<open>
  A search for a number finds a train exactly when, with the EXACT flag, its address is
  that number, and without it the number is the start of its address in decimal; a search for
  0 finds only the train 0.
\<close>

theorem search_finds_number:
  "does_address_match t (extract_digits (lcc_train_search_create_event a flags)) flags \<longleftrightarrow>
     (if flags AND LCC_TRAIN_SEARCH_FLAG_EXACT \<noteq> 0 then t = a
      else if a = 0 then t = 0 else \<exists>k. unat t div 10 ^ k = unat a)"
proof -
  have inj: "decimal t = decimal a \<Longrightarrow> t = a" by (subst (1 2) decimal_value [symmetric]) simp
  have m: "does_address_match t (extract_digits (lcc_train_search_create_event a flags)) flags \<longleftrightarrow>
      (if flags AND LCC_TRAIN_SEARCH_FLAG_EXACT \<noteq> 0 then length (decimal a) = length (decimal t)
       else length (decimal a) \<le> length (decimal t)) \<and>
      list_all (\<lambda>i. decimal a ! i = decimal t ! i) [0..<length (decimal a)]"
    unfolding does_address_match_def created_event decimal_train created_filter Let_def
    using decimal_length(1) [of a] by auto
  have l: "length (decimal a) \<le> length (decimal t) \<Longrightarrow>
      list_all (\<lambda>i. decimal a ! i = decimal t ! i) [0..<length (decimal a)] \<longleftrightarrow>
      take (length (decimal a)) (decimal t) = decimal a"
    by (rule list_all_take)
  show ?thesis
  proof (cases "flags AND LCC_TRAIN_SEARCH_FLAG_EXACT = 0")
    case True
    then show ?thesis using l decimal_prefix [of a t] unfolding m by argo
  next
    case False
    have "t = a" if len: "length (decimal a) = length (decimal t)"
      and all: "list_all (\<lambda>i. decimal a ! i = decimal t ! i) [0..<length (decimal a)]"
    proof -
      have "take (length (decimal a)) (decimal t) = decimal a" using l all len by (simp only: order_refl)
      moreover have "take (length (decimal a)) (decimal t) = decimal t" by (simp only: len take_all order_refl)
      ultimately show ?thesis by (intro inj) (rule trans [OF sym])
    qed
    moreover have "list_all (\<lambda>i. decimal a ! i = decimal a ! i) [0..<length (decimal a)]" by (simp add: list_all_iff)
    ultimately have "t = a \<longleftrightarrow> length (decimal a) = length (decimal t) \<and>
        list_all (\<lambda>i. decimal a ! i = decimal t ! i) [0..<length (decimal a)]" by blast
    with False show ?thesis unfolding m by argo
  qed
qed

section \<open>Every match answers once\<close>

definition found :: "u64 \<Rightarrow> (lcc_train_state, 's) lcc_node \<Rightarrow> bool" where
  "found event_id node \<longleftrightarrow> role node = LCC_ROLE_TRAIN \<and>
     (case train node of
        None \<Rightarrow> False
      | Some t \<Rightarrow> does_train_match t (extract_digits event_id) (lcc_train_search_address event_id)
                   (lcc_train_search_flags event_id))"

abbreviation confirmed :: "('t, 's) lcc_node \<Rightarrow> bool" where "confirmed node \<equiv> alias_state node = LCC_A_CONFIRMED"

text \<open>A node that owes an answer, and the event it owes it for.\<close>

definition pending :: "(lcc_train_state, 's) lcc_node \<Rightarrow> u64" where
  "pending node = (case train node of Some t \<Rightarrow> tn_pending_search_event t | None \<Rightarrow> 0)"

definition waiting :: "(lcc_train_state, 's) lcc_node \<Rightarrow> bool" where
  "waiting node \<longleftrightarrow> role node = LCC_ROLE_TRAIN \<and> confirmed node \<and> pending node \<noteq> 0"

definition set_pending :: "u64 \<Rightarrow> (lcc_train_state, 's) lcc_node \<Rightarrow> (lcc_train_state, 's) lcc_node" where
  "set_pending event_id node = node\<lparr>train := map_option (\<lambda>t. t\<lparr>tn_pending_search_event := event_id\<rparr>) (train node)\<rparr>"

lemma search_node_eq:
  "search_node ev i nodes =
     (found ev (nodes ! i),
      if found ev (nodes ! i) \<and> confirmed (nodes ! i) then send_producer_identified_valid (nodes ! i) ev else [],
      if found ev (nodes ! i) \<and> \<not> confirmed (nodes ! i) then nodes[i := set_pending ev (nodes ! i)] else nodes)"
  by (auto simp: search_node_def found_def Let_def set_pending_def set_train_def split: option.splits)

lemma flush_node_eq:
  "flush_node i nodes =
     (if waiting (nodes ! i)
      then (send_producer_identified_valid (nodes ! i) (pending (nodes ! i)), nodes[i := set_pending 0 (nodes ! i)])
      else ([], nodes))"
  by (auto simp: flush_node_def waiting_def pending_def Let_def set_pending_def set_train_def split: option.splits)

text \<open>A pass over the nodes that touches each at its own index only is a map over them.\<close>

primrec pass :: "('n \<Rightarrow> 'o list) \<Rightarrow> ('n \<Rightarrow> 'n) \<Rightarrow> nat list \<Rightarrow> 'n list \<Rightarrow> 'o list \<times> 'n list" where
  "pass out upd [] nodes = ([], nodes)"
| "pass out upd (i # is) nodes =
     (case pass out upd is (nodes[i := upd (nodes ! i)]) of (os, nodes') \<Rightarrow> (out (nodes ! i) @ os, nodes'))"

lemma pass_eq:
  "distinct is \<Longrightarrow> set is \<subseteq> {..<length nodes} \<Longrightarrow>
   pass out upd is nodes =
     (concat (map (\<lambda>i. out (nodes ! i)) is), map (\<lambda>j. if j \<in> set is then upd (nodes ! j) else nodes ! j) [0..<length nodes])"
proof (induction "is" arbitrary: nodes)
  case (Cons i js)
  let ?nodes = "nodes[i := upd (nodes ! i)]"
  have same: "?nodes ! j = nodes ! j" if "j \<in> set js" for j
    using that Cons.prems by (intro nth_list_update_neq) auto
  have IH: "pass out upd js ?nodes =
     (concat (map (\<lambda>i. out (?nodes ! i)) js), map (\<lambda>j. if j \<in> set js then upd (?nodes ! j) else ?nodes ! j) [0..<length nodes])"
    using Cons.IH [of ?nodes] Cons.prems by simp
  have 1: "map (\<lambda>i. out (?nodes ! i)) js = map (\<lambda>i. out (nodes ! i)) js" using same by (intro map_cong) auto
  have 2: "map (\<lambda>j. if j \<in> set js then upd (?nodes ! j) else ?nodes ! j) [0..<length nodes] =
      map (\<lambda>j. if j \<in> set (i # js) then upd (nodes ! j) else nodes ! j) [0..<length nodes]"
    using same Cons.prems by (intro map_cong) (auto simp: nth_list_update)
  show ?case unfolding pass.simps IH 1 2 by simp
qed (simp add: map_nth)

lemma pass_all:
  fixes nodes :: "'a list" and out :: "'a \<Rightarrow> 'b list"
  shows "pass out upd [0..<length nodes] nodes = (concat (map out nodes), map upd nodes)"
  proof -
  have "map (\<lambda>i. f (nodes ! i)) [0..<length nodes] = map f nodes" for f :: "'a \<Rightarrow> 'b list"
    by (rule nth_equalityI) simp_all
  moreover have "map (\<lambda>j. if j \<in> set [0..<length nodes] then upd (nodes ! j) else nodes ! j) [0..<length nodes] = map upd nodes"
    by (rule nth_equalityI) simp_all
  ultimately show ?thesis using pass_eq [of "[0..<length nodes]" nodes out upd]
    by (simp only: distinct_upt set_upt atLeast0LessThan order_refl)
qed

lemma search_nodes_pass:
  "search_nodes ev is nodes =
     (case pass (\<lambda>n. [(found ev n, if found ev n \<and> confirmed n then send_producer_identified_valid n ev else [])])
             (\<lambda>n. if found ev n \<and> \<not> confirmed n then set_pending ev n else n) is nodes of
        (os, nodes') \<Rightarrow> (list_ex fst os, concat (map snd os), nodes'))"
proof (induction "is" arbitrary: nodes)
  case (Cons i js)
  show ?case by (auto simp: search_node_eq Cons.IH split: prod.splits)
qed simp

lemma flush_nodes_pass:
  "flush_nodes is nodes = pass (\<lambda>n. if waiting n then send_producer_identified_valid n (pending n) else [])
     (\<lambda>n. if waiting n then set_pending 0 n else n) is nodes"
proof (induction "is" arbitrary: nodes)
  case (Cons i js)
  show ?case by (auto simp: flush_node_eq Cons.IH split: prod.splits)
qed simp

lemma search_nodes_all:
  fixes nodes :: "(lcc_train_state, 's) lcc_node list"
  shows "search_nodes ev [0..<length nodes] nodes =
     (\<exists>n\<in>set nodes. found ev n,
      concat (map (\<lambda>n. send_producer_identified_valid n ev) (filter (\<lambda>n. found ev n \<and> confirmed n) nodes)),
      map (\<lambda>n. if found ev n \<and> \<not> confirmed n then set_pending ev n else n) nodes)"
proof -
  have "concat (map (\<lambda>n. if found ev n \<and> confirmed n then send_producer_identified_valid n ev else []) ns) =
      concat (map (\<lambda>n. send_producer_identified_valid n ev) (filter (\<lambda>n. found ev n \<and> confirmed n) ns))" for ns
    by (induction ns) simp_all
  moreover have "list_ex fst (map (\<lambda>n. (found ev n, g n)) ns) \<longleftrightarrow> (\<exists>n\<in>set ns. found ev n)"
    for g :: "(lcc_train_state, 's) lcc_node \<Rightarrow> lcc_frame list" and ns
    by (induction ns) auto
  ultimately show ?thesis by (simp add: search_nodes_pass pass_all comp_def cong: if_cong)
qed

lemma flush_all:
  "lcc_train_search_flush_pending nodes =
     (concat (map (\<lambda>n. send_producer_identified_valid n (pending n)) (filter waiting nodes)),
      map (\<lambda>n. if waiting n then set_pending 0 n else n) nodes)"
proof -
  have "concat (map (\<lambda>n. if waiting n then send_producer_identified_valid n (pending n) else []) ns) =
      concat (map (\<lambda>n. send_producer_identified_valid n (pending n)) (filter waiting ns))" for ns
    by (induction ns) simp_all
  then show ?thesis by (simp add: lcc_train_search_flush_pending_def flush_nodes_pass pass_all)
qed

section \<open>Searches, alias changes and flushes over time\<close>

text \<open>
  What happens to the trains: a search, the flush of a tick, and a node's alias changing or its negotiation moving.
  Searches that add a node to the list are the subject of theory \<open>Lcc_Pool\<close>; here no allocator is registered.
\<close>

datatype search_event = Search u64 | Flush_Pending | Alias_Moves nat lcc_alias_state u16

fun search_step ::
  "search_event \<Rightarrow> (lcc_train_state, 's) lcc_node list \<Rightarrow> lcc_frame list \<times> (lcc_train_state, 's) lcc_node list" where
  "search_step (Search ev) nodes = (case lcc_train_search_dispatch None ev (nodes, ()) of (fs, (nodes', _)) \<Rightarrow> (fs, nodes'))"
| "search_step Flush_Pending nodes = lcc_train_search_flush_pending nodes"
| "search_step (Alias_Moves i st a) nodes = ([], nodes[i := (nodes ! i)\<lparr>alias_state := st, node_alias := a\<rparr>])"

text \<open>The nodes each event found and the frames it sent.\<close>

fun search_run ::
  "search_event list \<Rightarrow> (lcc_train_state, 's) lcc_node list \<Rightarrow>
   ((lcc_train_state, 's) lcc_node list \<times> lcc_frame list) list \<times> (lcc_train_state, 's) lcc_node list" where
  "search_run [] nodes = ([], nodes)"
| "search_run (e # es) nodes =
     (case search_step e nodes of (fs, nodes1) \<Rightarrow>
        (case search_run es nodes1 of (past, nodes2) \<Rightarrow> ((nodes, fs) # past, nodes2)))"

definition valid_search :: "u64 \<Rightarrow> bool" where
  "valid_search ev \<longleftrightarrow> lcc_train_search_is_event ev \<and> \<not> has_reserved_values (extract_digits ev) (lcc_train_search_flags ev)"

text \<open>
  What a train was asked: the searches that find it. What it owes. What a search makes it forget: the answer it
  owed when, still without an alias, it was asked again.
\<close>

definition asked :: "(lcc_train_state, 's) lcc_node \<Rightarrow> search_event \<Rightarrow> u64 multiset" where
  "asked n e = (case e of Search ev \<Rightarrow> if valid_search ev \<and> found ev n then {#ev#} else {#} | _ \<Rightarrow> {#})"

definition owed :: "(lcc_train_state, 's) lcc_node \<Rightarrow> u64 multiset" where
  "owed n = (if pending n = 0 then {#} else {#pending n#})"

definition forgotten :: "(lcc_train_state, 's) lcc_node \<Rightarrow> search_event \<Rightarrow> u64 multiset" where
  "forgotten n e = (case e of Search ev \<Rightarrow> if valid_search ev \<and> found ev n \<and> \<not> confirmed n then owed n else {#} | _ \<Rightarrow> {#})"

fun all_forgotten :: "nat \<Rightarrow> search_event list \<Rightarrow> (lcc_train_state, 's) lcc_node list \<Rightarrow> u64 multiset" where
  "all_forgotten i [] nodes = {#}"
| "all_forgotten i (e # es) nodes = forgotten (nodes ! i) e + all_forgotten i es (snd (search_step e nodes))"

text \<open>The answers of one event, by node and search; and all answers of one node.\<close>

definition answers_sent :: "(lcc_train_state, 's) lcc_node list \<times> lcc_frame list \<Rightarrow> (nat \<times> u64) list \<Rightarrow> bool" where
  "answers_sent entry as \<longleftrightarrow> (case entry of (nodes, fs) \<Rightarrow>
     fs = concat (map (\<lambda>(i, ev). send_producer_identified_valid (nodes ! i) ev) as) \<and>
     (\<forall>(i, ev)\<in>set as. i < length nodes \<and> confirmed (nodes ! i)))"

definition answers_by :: "nat \<Rightarrow> (nat \<times> u64) list \<Rightarrow> u64 multiset" where
  "answers_by i as = mset (map snd (filter (\<lambda>a. fst a = i) as))"

lemma search_event_nonzero: "lcc_train_search_is_event ev \<Longrightarrow> ev \<noteq> 0"
  by (auto simp: lcc_train_search_is_event_def lcc_consts)

lemma found_train: "found ev n \<Longrightarrow> role n = LCC_ROLE_TRAIN \<and> train n \<noteq> None"
  by (auto simp: found_def split: option.splits)

lemma found_keeps [simp]:
  "found ev (set_pending ev' n) = found ev n" "found ev (n\<lparr>alias_state := st, node_alias := a\<rparr>) = found ev n"
  by (auto simp: found_def set_pending_def does_train_match_def Let_def split: option.splits)

definition step_answers :: "search_event \<Rightarrow> (lcc_train_state, 's) lcc_node list \<Rightarrow> (nat \<times> u64) list" where
  "step_answers e nodes = (case e of
     Search ev \<Rightarrow> if valid_search ev
       then map (\<lambda>i. (i, ev)) (filter (\<lambda>i. found ev (nodes ! i) \<and> confirmed (nodes ! i)) [0..<length nodes]) else []
   | Flush_Pending \<Rightarrow> map (\<lambda>i. (i, pending (nodes ! i))) (filter (\<lambda>i. waiting (nodes ! i)) [0..<length nodes])
   | Alias_Moves i st a \<Rightarrow> [])"

definition step_node :: "search_event \<Rightarrow> (lcc_train_state, 's) lcc_node \<Rightarrow> (lcc_train_state, 's) lcc_node" where
  "step_node e n = (case e of
     Search ev \<Rightarrow> if valid_search ev \<and> found ev n \<and> \<not> confirmed n then set_pending ev n else n
   | Flush_Pending \<Rightarrow> if waiting n then set_pending 0 n else n
   | Alias_Moves i st a \<Rightarrow> n)"

lemma filter_indices:
  "concat (map g (filter P xs)) = concat (map (\<lambda>i. g (xs ! i)) (filter (\<lambda>i. P (xs ! i)) [0..<length xs]))"
proof -
  have "filter P xs = map ((!) xs) (filter (\<lambda>i. P (xs ! i)) [0..<length xs])"
    by (metis (no_types, lifting) filter_map map_nth comp_apply filter_cong)
  then show ?thesis by (simp add: comp_def)
qed

lemma search_step_eq:
  assumes "search_step e nodes = (fs, nodes1)"
  shows "answers_sent (nodes, fs) (step_answers e nodes)" and "length nodes1 = length nodes"
    and "(\<nexists>j st a. e = Alias_Moves j st a) \<Longrightarrow> nodes1 = map (step_node e) nodes"
proof -
  have "answers_sent (nodes, fs) (step_answers e nodes) \<and> length nodes1 = length nodes \<and>
    ((\<nexists>j st a. e = Alias_Moves j st a) \<longrightarrow> nodes1 = map (step_node e) nodes)"
  proof (cases e)
    case (Search ev)
    show ?thesis
    proof (cases "valid_search ev")
      case True
      then have v: "lcc_train_search_is_event ev" "\<not> has_reserved_values (extract_digits ev) (lcc_train_search_flags ev)"
        by (simp_all add: valid_search_def)
      have fs: "fs = concat (map (\<lambda>n. send_producer_identified_valid n ev) (filter (\<lambda>n. found ev n \<and> confirmed n) nodes))"
        and "nodes1 = map (\<lambda>n. if found ev n \<and> \<not> confirmed n then set_pending ev n else n) nodes"
        using assms v by (auto simp: Search lcc_train_search_dispatch_def search_nodes_all Let_def split: if_splits)
      then show ?thesis using True unfolding fs filter_indices [of _ _ nodes]
        by (auto simp: Search answers_sent_def step_answers_def step_node_def comp_def)
    next
      case False
      then have "fs = [] \<and> nodes1 = nodes"
        using assms by (auto simp: Search lcc_train_search_dispatch_def valid_search_def Let_def split: if_splits)
      moreover have "map (step_node e) nodes = nodes" using False by (intro map_idI) (simp add: Search step_node_def)
      ultimately show ?thesis using False by (simp add: Search answers_sent_def step_answers_def)
    qed
  next
    case Flush_Pending
    have fs: "fs = concat (map (\<lambda>n. send_producer_identified_valid n (pending n)) (filter waiting nodes))"
      and "nodes1 = map (\<lambda>n. if waiting n then set_pending 0 n else n) nodes"
      using assms by (simp_all add: Flush_Pending flush_all)
    then show ?thesis unfolding fs filter_indices [of _ _ nodes]
      by (auto simp: Flush_Pending answers_sent_def step_answers_def step_node_def comp_def waiting_def)
  next
    case (Alias_Moves j st a)
    then show ?thesis using assms by (auto simp: answers_sent_def step_answers_def)
  qed
  then show "answers_sent (nodes, fs) (step_answers e nodes)" and "length nodes1 = length nodes"
    and "(\<nexists>j st a. e = Alias_Moves j st a) \<Longrightarrow> nodes1 = map (step_node e) nodes" by blast+
qed

lemma answers_by_append [simp]: "answers_by i (as @ bs) = answers_by i as + answers_by i bs" "answers_by i [] = {#}"
  by (simp_all add: answers_by_def)

lemma answers_by_filter:
  assumes "i < n"
  shows "answers_by i (map (\<lambda>j. (j, g j)) (filter P [0..<n])) = (if P i then {#g i#} else {#})"
proof -
  have "filter (\<lambda>a. fst a = i) (map (\<lambda>j. (j, g j)) (filter P [0..<n])) = map (\<lambda>j. (j, g j)) (filter (\<lambda>j. P j \<and> j = i) [0..<n])"
    by (simp add: filter_map comp_def)
  also have "filter (\<lambda>j. P j \<and> j = i) [0..<n] = (if P i then [i] else [])"
  proof -
    have "[0..<n] = [0..<i] @ i # [Suc i..<n]" using assms by (metis le_add1 upt_add_eq_append upt_conv_Cons add_0 le_add_diff_inverse less_imp_le)
    then show ?thesis by (auto simp: filter_empty_conv)
  qed
  finally show ?thesis by (simp add: answers_by_def)
qed

lemma pending_set: "train n \<noteq> None \<Longrightarrow> pending (set_pending ev n) = ev"
  by (auto simp: pending_def set_pending_def)

lemma alias_keeps [simp]:
  "owed (n\<lparr>alias_state := st, node_alias := a\<rparr>) = owed n" "asked (n\<lparr>alias_state := st, node_alias := a\<rparr>) e = asked n e"
  by (auto simp: owed_def pending_def asked_def split: search_event.split)

lemma account_chain:
  fixes a :: "'a multiset"
  assumes "a + b + c = s + d" and "a' + d + c' = s' + e"
  shows "(a' + a) + b + (c' + c) = (s' + s) + e"
proof -
  have "(a + b + c) + (a' + d + c') = (s + d) + (s' + e)" by (simp only: assms)
  then have "((a' + a) + b + (c' + c)) + d = ((s' + s) + e) + d" by (simp only: ac_simps)
  then show ?thesis by (simp only: add_right_cancel)
qed

lemma search_step_count:
  assumes "search_step e nodes = (fs, nodes1)" and "i < length nodes"
  shows "answers_by i (step_answers e nodes) + owed (nodes1 ! i) + forgotten (nodes ! i) e = asked (nodes ! i) e + owed (nodes ! i) \<and>
    (\<forall>e'. asked (nodes1 ! i) e' = asked (nodes ! i) e')"
proof (cases "\<exists>j st a. e = Alias_Moves j st a")
  case True
  then obtain j st a where e: "e = Alias_Moves j st a" by blast
  then have "nodes1 ! i = (if j = i then (nodes ! i)\<lparr>alias_state := st, node_alias := a\<rparr> else nodes ! i)"
    using assms by (auto simp: nth_list_update)
  then have "owed (nodes1 ! i) = owed (nodes ! i)" "\<And>e'. asked (nodes1 ! i) e' = asked (nodes ! i) e'" by simp_all
  then show ?thesis by (simp add: e answers_by_def step_answers_def forgotten_def) (simp add: asked_def)
next
  case False
  then have n1: "nodes1 ! i = step_node e (nodes ! i)" using search_step_eq(3) [OF assms(1)] assms(2) by simp
  show ?thesis
  proof (cases e)
    case (Search ev)
    have "found ev (nodes ! i) \<Longrightarrow> train (nodes ! i) \<noteq> None" using found_train by blast
    then show ?thesis using search_event_nonzero [of ev] assms(2) unfolding n1
      by (auto simp: Search step_answers_def answers_by_filter step_node_def owed_def forgotten_def asked_def pending_set
          valid_search_def split: search_event.splits)
  next
    case Flush_Pending
    have "waiting (nodes ! i) \<Longrightarrow> train (nodes ! i) \<noteq> None" by (auto simp: waiting_def pending_def split: option.splits)
    then show ?thesis using assms(2) unfolding n1
      by (auto simp: Flush_Pending step_answers_def answers_by_filter step_node_def owed_def forgotten_def asked_def pending_set
          waiting_def split: search_event.splits)
  qed (use False in auto)
qed

text \<open>
  C33: Every train a search finds answers it once. Whatever searches, flushes and changes of aliases come in
  whatever order, all that is sent are Producer Identified answers of nodes with a confirmed
  alias; for each train, the searches it answered, with the one it still owes and those it was made to
  forget, are exactly those that found it, with the one it owed before. It forgets an answer
  only where another search finds it before its alias is confirmed and the answer sent; and after a
  flush a train with a confirmed alias owes nothing.
\<close>

theorem search_answered_once:
  assumes "search_run es nodes = (past, nodes')"
  shows "(\<exists>answers. list_all2 answers_sent past answers \<and>
       (\<forall>i<length nodes. answers_by i (concat answers) + owed (nodes' ! i) + all_forgotten i es nodes =
          sum_list (map (asked (nodes ! i)) es) + owed (nodes ! i))) \<and>
    (es \<noteq> [] \<and> last es = Flush_Pending \<longrightarrow> (\<forall>n\<in>set nodes'. \<not> waiting n))"
proof -
  have "\<exists>answers. list_all2 answers_sent past answers \<and>
       (\<forall>i<length nodes. answers_by i (concat answers) + owed (nodes' ! i) + all_forgotten i es nodes =
          sum_list (map (asked (nodes ! i)) es) + owed (nodes ! i))"
    using assms
  proof (induction es arbitrary: nodes past)
    case Nil
    then show ?case by (intro exI [of _ "[]"]) (simp add: answers_by_def)
  next
    case (Cons e es)
    obtain fs nodes1 where 1: "search_step e nodes = (fs, nodes1)" by (cases "search_step e nodes")
    obtain past1 where 2: "search_run es nodes1 = (past1, nodes')" "past = (nodes, fs) # past1"
      using Cons.prems 1 by (auto split: prod.splits)
    obtain answers where a: "list_all2 answers_sent past1 answers"
      "\<And>i. i < length nodes1 \<Longrightarrow> answers_by i (concat answers) + owed (nodes' ! i) + all_forgotten i es nodes1 =
          sum_list (map (asked (nodes1 ! i)) es) + owed (nodes1 ! i)"
      using Cons.IH [OF 2(1)] by blast
    have "answers_by i (concat (step_answers e nodes # answers)) + owed (nodes' ! i) + all_forgotten i (e # es) nodes =
          sum_list (map (asked (nodes ! i)) (e # es)) + owed (nodes ! i)" if i: "i < length nodes" for i
    proof -
      have "asked (nodes1 ! i) = asked (nodes ! i)" using search_step_count [OF 1 i] by blast
      then have "answers_by i (concat answers) + owed (nodes' ! i) + all_forgotten i es nodes1 =
          sum_list (map (asked (nodes ! i)) es) + owed (nodes1 ! i)" using a(2) [of i] i search_step_eq(2) [OF 1] by simp
      from account_chain [OF this conjunct1 [OF search_step_count [OF 1 i]]] show ?thesis using 1 by simp
    qed
    then show ?case using a(1) search_step_eq(1) [OF 1] 2(2) by (intro exI [of _ "step_answers e nodes # answers"]) simp
  qed
  moreover have "\<forall>n\<in>set nodes'. \<not> waiting n" if "es \<noteq> []" "last es = Flush_Pending"
    using assms that
  proof (induction es arbitrary: nodes past)
    case (Cons e es)
    obtain fs nodes1 where 1: "search_step e nodes = (fs, nodes1)" by (cases "search_step e nodes")
    obtain past1 where 2: "search_run es nodes1 = (past1, nodes')" using Cons.prems(1) 1 by (auto split: prod.splits)
    show ?case
    proof (cases "es = []")
      case True
      have "\<not> waiting (set_pending 0 n)" for n :: "(lcc_train_state, 'a) lcc_node"
        by (auto simp: waiting_def set_pending_def pending_def split: option.splits)
      then show ?thesis using 1 2 True Cons.prems(3) by (auto simp: flush_all)
    qed (use Cons.IH [OF 2] Cons.prems(3) in simp)
  qed simp
  ultimately show ?thesis by blast
qed

text \<open>The trains 3 and 34, the second without an alias yet, searched for by the prefix 3.\<close>

definition sample_train :: "u16 \<Rightarrow> lcc_alias_state \<Rightarrow> (lcc_train_state, unit) lcc_node" where
  "sample_train a st = (lcc_node_init (LCC_TRAIN_NODE_ID_BASE OR u64_of a) LCC_ROLE_TRAIN)
     \<lparr>alias_state := st, train := Some (lcc_train_state_init a False)\<rparr>"

definition sample_trains :: "(lcc_train_state, unit) lcc_node list" where
  "sample_trains = [sample_train 3 LCC_A_CONFIRMED, sample_train 34 LCC_A_WAIT]"

definition search_3 :: u64 where
  "search_3 = lcc_train_search_create_event 3 LCC_TRAIN_SEARCH_FLAG_DCC"

lemma search_3:
  "extract_digits search_3 = [15, 15, 15, 15, 15, 3]" "lcc_train_search_flags search_3 = LCC_TRAIN_SEARCH_FLAG_DCC"
  "lcc_train_search_address search_3 = 3" "lcc_train_search_is_event search_3"
proof -
  have "decimal 3 = [3]" by (simp add: decimal_def decimals_pos)
  then have "created_digits 3 = [15, 15, 15, 15, 15, 3]" by (simp add: created_digits_def numeral_eq_Suc)
  then show "extract_digits search_3 = [15, 15, 15, 15, 15, 3]"
    by (simp only: search_3_def created_event)
  then show "lcc_train_search_address search_3 = 3" by (simp add: lcc_train_search_address_def)
  show "lcc_train_search_flags search_3 = LCC_TRAIN_SEARCH_FLAG_DCC" "lcc_train_search_is_event search_3"
    by (simp_all only: search_3_def created_event)
qed

lemma found_sample: "found search_3 (sample_train 3 st)" "found search_3 (sample_train 34 st)"
proof -
  have "decimal 3 = [3]" "decimal 34 = [3, 4]" by (simp_all add: decimal_def decimals_pos)
  then have "rev (rev_digits 6 3) = [3]" "rev (rev_digits 6 34) = [3, 4]"
    using decimal_train [of 3] decimal_train [of 34] by simp_all
  then have "rev_digits 6 3 = [3]" "rev_digits 6 34 = [4, 3]" by (simp_all add: rev_swap)
  then have "does_address_match 3 [15, 15, 15, 15, 15, 3] LCC_TRAIN_SEARCH_FLAG_DCC"
    "does_address_match 34 [15, 15, 15, 15, 15, 3] LCC_TRAIN_SEARCH_FLAG_DCC"
    by (simp_all add: does_address_match_def Let_def LCC_TRAIN_SEARCH_FLAG_EXACT_def LCC_TRAIN_SEARCH_FLAG_DCC_def)
  then show "found search_3 (sample_train 3 st)" "found search_3 (sample_train 34 st)"
    by (simp_all add: found_def sample_train_def lcc_node_init_def lcc_train_state_init_def search_3 does_train_match_def
        lcc_consts Let_def)
qed

lemma search_answered_once_witness:
  "let es = [Search search_3, Alias_Moves 1 LCC_A_CONFIRMED 0x456, Flush_Pending] in
   \<exists>answers. list_all2 answers_sent (fst (search_run es sample_trains)) answers \<and>
     answers_by 0 (concat answers) = {#search_3#} \<and> answers_by 1 (concat answers) = {#search_3#}"
proof -
  let ?es = "[Search search_3, Alias_Moves 1 LCC_A_CONFIRMED 0x456, Flush_Pending]"
  obtain past nodes' where r: "search_run ?es sample_trains = (past, nodes')" by (cases "search_run ?es sample_trains")
  have v: "valid_search search_3" by (simp add: valid_search_def search_3 has_reserved_values_def lcc_consts)
  have n: "length sample_trains = 2" "sample_trains ! 0 = sample_train 3 LCC_A_CONFIRMED" "sample_trains ! 1 = sample_train 34 LCC_A_WAIT"
    by (simp_all add: sample_trains_def)
  have o: "owed (sample_train a st) = {#}" for a st
    by (simp add: owed_def pending_def sample_train_def lcc_train_state_init_def)
  have fg: "forgotten (sample_train a st) e = {#}" for a st e by (simp add: forgotten_def o split: search_event.split)
  have k: "asked (sample_train 3 st) (Search search_3) = {#search_3#}" "asked (sample_train 34 st) (Search search_3) = {#search_3#}"
    "asked (sample_train a st) (Alias_Moves j st' b) = {#}" "asked (sample_train a st) Flush_Pending = {#}" for a st j st' b
    by (simp_all add: asked_def v found_sample)
  have fo: "all_forgotten 0 ?es sample_trains = {#}" "all_forgotten 1 ?es sample_trains = {#}"
    unfolding all_forgotten.simps n(2,3) fg by (simp_all add: forgotten_def)
  obtain fs1 ns1 where 1: "search_step (Search search_3) sample_trains = (fs1, ns1)" by (cases "search_step (Search search_3) sample_trains")
  then have ns1: "ns1 = map (step_node (Search search_3)) sample_trains" by (rule search_step_eq(3)) simp
  have "ns1 = [sample_train 3 LCC_A_CONFIRMED, set_pending search_3 (sample_train 34 LCC_A_WAIT)]"
    by (simp add: ns1 sample_trains_def step_node_def v found_sample) (simp add: sample_train_def)
  moreover have "search_3 \<noteq> 0" using search_event_nonzero search_3(4) by blast
  ultimately have "nodes' = [sample_train 3 LCC_A_CONFIRMED, set_pending 0 ((set_pending search_3 (sample_train 34 LCC_A_WAIT))
      \<lparr>alias_state := LCC_A_CONFIRMED, node_alias := 0x456\<rparr>)]"
    using r 1 by (simp add: flush_all waiting_def pending_def set_pending_def sample_train_def lcc_train_state_init_def
        lcc_node_init_def split: prod.splits)
  then have "owed (nodes' ! 0) = {#}" "owed (nodes' ! 1) = {#}"
    by (simp_all add: owed_def pending_def set_pending_def sample_train_def lcc_train_state_init_def split: option.split)
  moreover obtain answers where a: "list_all2 answers_sent past answers"
    "\<forall>i<2. answers_by i (concat answers) + owed (nodes' ! i) + all_forgotten i ?es sample_trains =
       sum_list (map (asked (sample_trains ! i)) ?es) + owed (sample_trains ! i)"
    using conjunct1 [OF search_answered_once [OF r]] unfolding n(1) by blast
  ultimately have "answers_by 0 (concat answers) = {#search_3#}" "answers_by 1 (concat answers) = {#search_3#}"
    using a(2) [rule_format, of 0] a(2) [rule_format, of 1] unfolding fo n(2,3) by (simp_all add: o k)
  then show ?thesis using a(1) unfolding Let_def r fst_conv by blast
qed

end
