(* ===== verification/Lcc_Alias.thy ===== *)
theory Lcc_Alias
  imports Lcc_Events
begin

text \<open>
  Alias negotiation: \<^verbatim>\<open>src/src/lcc/lcc_alias.h\<close>, \<^verbatim>\<open>lcc_alias.c\<close>, the alias mutex of
  \<^verbatim>\<open>lcc_if.c\<close> and the walks over the nodes in \<^verbatim>\<open>lcc_task.c\<close>. The candidate sequence, the
  state machine of a node, the mutual exclusion of negotiating nodes, the silence before
  a claim, and a run in which two trains claim the same alias.
\<close>

section \<open>Candidates\<close>

definition ALIAS_WAIT_TICKS :: u8 where "ALIAS_WAIT_TICKS = 2"
definition ALIAS_MAX_RETRIES :: u8 where "ALIAS_MAX_RETRIES = 10"

definition lcc_alias_seed :: "u64 \<Rightarrow> u16" where
  "lcc_alias_seed ident =
     (let a = u16_of (shr ident 36 AND 0xFFF); b = u16_of (shr ident 24 AND 0xFFF);
          c = u16_of (shr ident 12 AND 0xFFF); d = u16_of (shr ident 0 AND 0xFFF);
          s = (a XOR b XOR c XOR d) AND 0xFFF
      in if s \<noteq> 0 then s else 1)"

definition lcc_alias_next :: "u16 \<Rightarrow> u16" where
  "lcc_alias_next a =
     (let b = (shr a 0 AND 1) XOR (shr a 2 AND 1) XOR (shr a 3 AND 1) XOR (shr a 11 AND 1);
          a = shr a 1 OR shl b 11;
          a = (if a = 0 then 1 else a)
      in a AND 0xFFF)"

section \<open>The state machine\<close>

text \<open>
  The mutex of \<open>lcc_if_alias_try_lock\<close> and \<open>lcc_if_alias_unlock\<close>: \<open>True\<close> when it is taken.
\<close>

definition lcc_if_alias_try_lock :: "bool \<Rightarrow> bool \<times> bool" where
  "lcc_if_alias_try_lock held = (\<not> held, True)"

definition lcc_if_alias_unlock :: "bool \<Rightarrow> bool" where
  "lcc_if_alias_unlock held = False"

definition emit_cid_frames :: "('t, 's) lcc_node \<Rightarrow> lcc_frame list" where
  "emit_cid_frames node = map (\<lambda>sq. \<lparr>fr_id = lcc_control_id (node_alias node)
     (u16_of (shr (node_id node) ((sq - 4) * 12) AND 0xFFF)) (word_of_nat sq), fr_data = []\<rparr>) [7, 6, 5, 4]"

definition emit_claim_and_init :: "('t, 's) lcc_node \<Rightarrow> 'w lcc_events \<Rightarrow> 'w \<Rightarrow> lcc_frame list" where
  "emit_claim_and_init node E w =
     lcc_node_send_control node LCC_CONTROL_RID [] @
     lcc_node_send_control node LCC_CONTROL_AMD (lcc_node_id_to_buf (node_id node)) @
     lcc_node_send_global node LCC_MTI_INITIALIZATION_COMPLETE (lcc_node_id_to_buf (node_id node)) @
     lcc_events_announce node E w"

definition lcc_alias_reannounce :: "('t, 's) lcc_node \<Rightarrow> 'w lcc_events \<Rightarrow> 'w \<Rightarrow> lcc_frame list" where
  "lcc_alias_reannounce node E w =
     (if alias_state node \<noteq> LCC_A_CONFIRMED then [] else emit_claim_and_init node E w)"

definition lcc_alias_tick ::
  "'w lcc_events \<Rightarrow> 'w \<Rightarrow> ('t, 's) lcc_node \<Rightarrow> bool \<Rightarrow> lcc_frame list \<times> ('t, 's) lcc_node \<times> bool" where
  "lcc_alias_tick E w node held =
     (case alias_state node of
        LCC_A_IDLE \<Rightarrow>
          (let node = (if node_alias node = 0 then node\<lparr>node_alias := lcc_alias_seed (node_id node)\<rparr> else node)
           in case lcc_if_alias_try_lock held of
                (False, held) \<Rightarrow> ([], node, held)
              | (True, held) \<Rightarrow>
                  (emit_cid_frames node, node\<lparr>alias_state := LCC_A_CID, alias_wait_ticks := 0\<rparr>, held))
      | LCC_A_CID \<Rightarrow> ([], node\<lparr>alias_state := LCC_A_WAIT, alias_wait_ticks := 0\<rparr>, held)
      | LCC_A_WAIT \<Rightarrow>
          (let node = node\<lparr>alias_wait_ticks := alias_wait_ticks node + 1\<rparr>
           in if alias_wait_ticks node \<ge> ALIAS_WAIT_TICKS
              then (emit_claim_and_init node E w, node\<lparr>alias_state := LCC_A_CONFIRMED\<rparr>, lcc_if_alias_unlock held)
              else ([], node, held))
      | LCC_A_CONFLICT \<Rightarrow>
          (let node = node\<lparr>alias_retries := alias_retries node + 1\<rparr>; held = lcc_if_alias_unlock held
           in if alias_retries node \<ge> ALIAS_MAX_RETRIES then ([], node, held)
              else ([], node\<lparr>node_alias := lcc_alias_next (node_alias node), alias_state := LCC_A_IDLE\<rparr>, held))
      | LCC_A_CONFIRMED \<Rightarrow> ([], node, held))"

definition lcc_alias_on_collision :: "('t, 's) lcc_node \<Rightarrow> lcc_frame list \<times> ('t, 's) lcc_node" where
  "lcc_alias_on_collision node =
     (case alias_state node of
        LCC_A_CID \<Rightarrow> ([], node\<lparr>alias_state := LCC_A_CONFLICT\<rparr>)
      | LCC_A_WAIT \<Rightarrow> ([], node\<lparr>alias_state := LCC_A_CONFLICT\<rparr>)
      | LCC_A_CONFIRMED \<Rightarrow> (lcc_node_send_control node LCC_CONTROL_RID [], node)
      | _ \<Rightarrow> ([], node))"

section \<open>All nodes: \<open>lcc_task.c\<close>\<close>

text \<open>\<open>alias_tick_all\<close> walks the registry; each node's tick sees the mutex as the last left it.\<close>

fun alias_tick_all ::
  "'w lcc_events \<Rightarrow> 'w \<Rightarrow> ('t, 's) lcc_node list \<Rightarrow> bool \<Rightarrow> lcc_frame list \<times> ('t, 's) lcc_node list \<times> bool" where
  "alias_tick_all E w [] held = ([], [], held)"
| "alias_tick_all E w (node # nodes) held =
     (case (if alias_state node \<noteq> LCC_A_CONFIRMED then lcc_alias_tick E w node held else ([], node, held)) of
        (fs, node, held) \<Rightarrow>
          (case alias_tick_all E w nodes held of (gs, nodes, held) \<Rightarrow> (fs @ gs, node # nodes, held)))"

definition reannounce_all_confirmed :: "'w lcc_events \<Rightarrow> 'w \<Rightarrow> ('t, 's) lcc_node list \<Rightarrow> lcc_frame list" where
  "reannounce_all_confirmed E w nodes =
     concat (map (\<lambda>node. if alias_state node = LCC_A_CONFIRMED then lcc_alias_reannounce node E w else []) nodes)"

text \<open>What \<open>handle_control\<close> of \<open>lcc_node.c\<close> does to the alias of each node.\<close>

definition alias_sees :: "u16 \<Rightarrow> ('t, 's) lcc_node \<Rightarrow> ('t, 's) lcc_node" where
  "alias_sees src node = (if src = node_alias node then snd (lcc_alias_on_collision node) else node)"

section \<open>Candidates are aliases\<close>

definition is_alias :: "u16 \<Rightarrow> bool" where
  "is_alias a \<longleftrightarrow> a \<noteq> 0 \<and> a < 0x1000"

lemma and_0xFFF_less: "(x :: u16) AND 0xFFF < 0x1000"
proof -
  have "x AND 0xFFF \<le> 0xFFF" by (rule word_and_le1)
  then show ?thesis by (rule le_less_trans) simp
qed

lemma alias_seed_ok: "is_alias (lcc_alias_seed ident)"
  using and_0xFFF_less by (simp add: is_alias_def lcc_alias_seed_def Let_def)

lemma alias_next_ok:
  assumes "is_alias a"
  shows "is_alias (lcc_alias_next a)"
proof -
  let ?b = "(shr a 0 AND 1) XOR (shr a 2 AND 1) XOR (shr a 3 AND 1) XOR (shr a 11 AND 1)"
  let ?n = "shr a 1 OR shl ?b 11"
  have hi: "\<forall>n\<ge>12. \<not> bit a n" using bit_above_bound [of a 12] assms by (auto simp: is_alias_def)
  then have "?n AND 0xFFF = ?n" by (simp add: word_bits_simps del: push_bit_Suc drop_bit_Suc)
  then have "lcc_alias_next a \<noteq> 0" by (simp add: lcc_alias_next_def Let_def)
  then show ?thesis using and_0xFFF_less by (simp add: is_alias_def lcc_alias_next_def Let_def)
qed

section \<open>The interface over time\<close>

text \<open>
  What happens to the nodes and the mutex: a tick of the task, a control frame from the bus
  (with its source alias) that every node sees, the registration of a node.
\<close>

datatype alias_event = Tick | Control u16 | Register u64 lcc_node_role

definition alias_step ::
  "'w lcc_events \<Rightarrow> 'w \<Rightarrow> alias_event \<Rightarrow> ('t, 's) lcc_node list \<times> bool \<Rightarrow> ('t, 's) lcc_node list \<times> bool" where
  "alias_step E w e s =
     (case e of
        Tick \<Rightarrow> snd (alias_tick_all E w (fst s) (snd s))
      | Control src \<Rightarrow> (map (alias_sees src) (fst s), snd s)
      | Register ident r \<Rightarrow> (snd (lcc_node_register (lcc_node_init ident r) (fst s)), snd s))"

definition alias_run ::
  "'w lcc_events \<Rightarrow> 'w \<Rightarrow> alias_event list \<Rightarrow> ('t, 's) lcc_node list \<times> bool \<Rightarrow> ('t, 's) lcc_node list \<times> bool" where
  "alias_run E w es s = fold (alias_step E w) es s"

definition negotiating :: "('t, 's) lcc_node \<Rightarrow> bool" where
  "negotiating node \<longleftrightarrow> alias_state node \<in> {LCC_A_CID, LCC_A_WAIT, LCC_A_CONFLICT}"

definition lock_ok :: "('t, 's) lcc_node list \<times> bool \<Rightarrow> bool" where
  "lock_ok s \<longleftrightarrow> length (filter negotiating (fst s)) = (if snd s then 1 else 0)"

definition gave_up :: "('t, 's) lcc_node \<Rightarrow> bool" where
  "gave_up node \<longleftrightarrow> ALIAS_MAX_RETRIES \<le> alias_retries node"

lemma lcc_alias_tick_balance:
  assumes "r + (if negotiating node then 1 else 0) = (if held then 1 else 0 :: nat)"
    and "lcc_alias_tick E w node held = (fs, node', held')" and "\<not> gave_up node'"
  shows "r + (if negotiating node' then 1 else 0) = (if held' then 1 else 0)"
  using assms
  by (cases "alias_state node"; cases held)
    (auto simp: lcc_alias_tick_def negotiating_def gave_up_def Let_def lcc_if_alias_try_lock_def
      lcc_if_alias_unlock_def not_le split: if_splits)

lemma alias_tick_all_balance:
  assumes "r + length (filter negotiating nodes) = (if held then 1 else 0)"
    and "alias_tick_all E w nodes held = (fs, nodes', held')" and "\<forall>node\<in>set nodes'. \<not> gave_up node"
  shows "r + length (filter negotiating nodes') = (if held' then 1 else 0)"
  using assms
proof (induction nodes arbitrary: r held fs nodes')
  case (Cons node nodes)
  define tick where "tick = (if alias_state node \<noteq> LCC_A_CONFIRMED then lcc_alias_tick E w node held
    else ([], node, held))"
  obtain fs1 node1 held1 where t: "tick = (fs1, node1, held1)" by (cases tick) auto
  obtain fs2 nodes2 held2 where a: "alias_tick_all E w nodes held1 = (fs2, nodes2, held2)"
    by (cases "alias_tick_all E w nodes held1") auto
  have res: "nodes' = node1 # nodes2" "held' = held2" "\<not> gave_up node1"
    using Cons.prems(2,3) t a by (auto simp: tick_def split: if_splits)
  have "(r + length (filter negotiating nodes)) + (if negotiating node then 1 else 0) = (if held then 1 else 0)"
    using Cons.prems(1) by (cases "negotiating node") simp_all
  then have "(r + length (filter negotiating nodes)) + (if negotiating node1 then 1 else 0) = (if held1 then 1 else 0)"
    using lcc_alias_tick_balance [of _ node held E w fs1 node1 held1] t res(3)
    by (auto simp: tick_def split: if_splits)
  then have "(r + (if negotiating node1 then 1 else 0)) + length (filter negotiating nodes2) = (if held2 then 1 else 0)"
    using Cons.IH [of "r + (if negotiating node1 then 1 else 0)" held1 fs2 nodes2] a Cons.prems(3) res by simp
  then show ?case using res by (cases "negotiating node1") simp_all
qed simp

lemma alias_sees_negotiating: "negotiating (alias_sees src node) = negotiating node"
  by (cases "alias_state node") (auto simp: alias_sees_def lcc_alias_on_collision_def negotiating_def)

lemma filter_sees: "length (filter negotiating (map (alias_sees src) nodes)) = length (filter negotiating nodes)"
  by (induction nodes) (simp_all add: alias_sees_negotiating)

lemma alias_step_lock:
  assumes "lock_ok s" and "\<forall>node\<in>set (fst (alias_step E w e s)). \<not> gave_up node"
  shows "lock_ok (alias_step E w e s)"
proof (cases e)
  case Tick
  obtain fs nodes' held' where t: "alias_tick_all E w (fst s) (snd s) = (fs, nodes', held')"
    by (cases "alias_tick_all E w (fst s) (snd s)") auto
  then show ?thesis
    using assms alias_tick_all_balance [of 0 "fst s" "snd s" E w fs nodes' held'] Tick
    by (simp add: lock_ok_def alias_step_def)
next
  case (Control src)
  then show ?thesis using assms(1) by (simp only: lock_ok_def alias_step_def filter_sees alias_event.case fst_conv snd_conv)
next
  case (Register ident r)
  then show ?thesis
    using assms(1) by (auto simp: lock_ok_def alias_step_def lcc_node_register_def negotiating_def lcc_node_init_def)
qed

text \<open>No node gives up in the course of a run.\<close>

fun none_gives_up ::
  "'w lcc_events \<Rightarrow> 'w \<Rightarrow> alias_event list \<Rightarrow> ('t, 's) lcc_node list \<times> bool \<Rightarrow> bool" where
  "none_gives_up E w [] s \<longleftrightarrow> True"
| "none_gives_up E w (e # es) s \<longleftrightarrow>
     (\<forall>node\<in>set (fst (alias_step E w e s)). \<not> gave_up node) \<and> none_gives_up E w es (alias_step E w e s)"

lemma alias_run_lock: "lock_ok s \<Longrightarrow> none_gives_up E w es s \<Longrightarrow> lock_ok (alias_run E w es s)"
proof (induction es arbitrary: s)
  case (Cons e es)
  then have "lock_ok (alias_step E w e s)" by (intro alias_step_lock) simp_all
  with Cons show ?case by (simp add: alias_run_def)
qed (simp add: alias_run_def)

lemma alias_run_Cons: "alias_run E w (e # es) s = alias_run E w es (alias_step E w e s)"
  by (simp add: alias_run_def)

lemma alias_run_Nil: "alias_run E w [] s = s"
  by (simp add: alias_run_def)

lemmas alias_eval = alias_run_Cons alias_run_Nil alias_step_def lcc_node_register_def lcc_node_init_def
  LCC_MAX_NODES_def lcc_node_registry_reset_def lcc_alias_tick_def lcc_if_alias_try_lock_def
  lcc_if_alias_unlock_def alias_sees_def lcc_alias_on_collision_def lcc_alias_seed_def lcc_alias_next_def
  ALIAS_WAIT_TICKS_def ALIAS_MAX_RETRIES_def Let_def gave_up_def negotiating_def

text \<open>
  A run in which a train gives up after ten collisions, two others are registered, and both send
  Check ID frames and wait at the same time, since the first frees the mutex at each tick.
\<close>

definition gave_up_events :: "alias_event list" where
  "gave_up_events = Register 0x060100000005 LCC_ROLE_TRAIN #
     concat (map (\<lambda>a. [Tick, Control a, Tick]) [0x165, 0xB2, 0x59, 0x2C, 0x16, 0x80B, 0xC05, 0xE02, 0xF01, 0x780]) @
     [Register 0x060100000006 LCC_ROLE_TRAIN, Register 0x060100000007 LCC_ROLE_TRAIN, Tick, Tick]"

definition in_flight :: "('t, 's) lcc_node \<Rightarrow> bool" where
  "in_flight node \<longleftrightarrow> alias_state node = LCC_A_CID \<or> alias_state node = LCC_A_WAIT"

lemma gave_up_breaks_lock:
  "length (filter in_flight (fst (alias_run E w gave_up_events (lcc_node_registry_reset, False)))) = 2"
  by (simp add: gave_up_events_def alias_eval word_le_nat_alt in_flight_def)

text \<open>
  C34: One node negotiates at a time until a node gives up. From an empty registry, whatever nodes are registered,
  however the ticks fall and whatever control frames come in from the bus: as long as no node
  has given up after ten collisions, at most one node is between its Check ID frames and its
  claim (or the end of its conflict), and the mutex is taken exactly while there is one. This
  does not go on after a node has given up: in the run \<open>gave_up_events\<close> two others negotiate at once.
\<close>

theorem alias_lock_exclusive:
  assumes "s0 = (lcc_node_registry_reset, False)"
  shows "(none_gives_up E w es s0 \<longrightarrow>
       length (filter negotiating (fst (alias_run E w es s0))) = (if snd (alias_run E w es s0) then 1 else 0)) \<and>
     length (filter in_flight (fst (alias_run E w gave_up_events s0))) = 2"
proof -
  have "lock_ok s0" by (simp add: assms(1) lock_ok_def lcc_node_registry_reset_def)
  then have "none_gives_up E w es s0 \<Longrightarrow> lock_ok (alias_run E w es s0)" by (rule alias_run_lock)
  then show ?thesis using gave_up_breaks_lock [of E w] by (simp add: lock_ok_def assms(1))
qed

text \<open>Two trains, a collision of the first, which tries again after the second.\<close>

definition witness_events :: "alias_event list" where
  "witness_events = [Register 0x06010000C003 LCC_ROLE_TRAIN, Register 0x060100000005 LCC_ROLE_TRAIN, Tick,
     Control 0x16F, Tick, Tick]"

theorem alias_lock_exclusive_witness:
  "length (filter negotiating (fst (alias_run lcc_events_reset () witness_events
     (lcc_node_registry_reset :: (unit, unit) lcc_node list, False)))) = 1"
proof -
  let ?s0 = "(lcc_node_registry_reset :: (unit, unit) lcc_node list, False)"
  have all: "none_gives_up lcc_events_reset () witness_events ?s0"
    by (simp add: witness_events_def alias_eval word_le_nat_alt)
  have "snd (alias_run lcc_events_reset () witness_events ?s0)"
    by (simp add: witness_events_def alias_eval word_le_nat_alt)
  then show ?thesis using alias_lock_exclusive [where ?s0.0 = ?s0 and E = lcc_events_reset and w = "()" and es = witness_events] all by argo
qed

section \<open>One node\<close>

text \<open>
  The history of one node: its ticks, each with whether the mutex was taken, and the source
  aliases of the control frames it has seen.
\<close>

datatype node_event = Own_Tick bool | Seen u16

definition node_step :: "'w lcc_events \<Rightarrow> 'w \<Rightarrow> node_event \<Rightarrow> ('t, 's) lcc_node \<Rightarrow> ('t, 's) lcc_node" where
  "node_step E w e node =
     (case e of Own_Tick held \<Rightarrow> fst (snd (lcc_alias_tick E w node held)) | Seen src \<Rightarrow> alias_sees src node)"

definition node_run :: "'w lcc_events \<Rightarrow> 'w \<Rightarrow> node_event list \<Rightarrow> ('t, 's) lcc_node \<Rightarrow> ('t, 's) lcc_node" where
  "node_run E w es node = fold (node_step E w) es node"

definition ticks :: "node_event list \<Rightarrow> nat" where
  "ticks es = length (filter (\<lambda>e. \<exists>h. e = Own_Tick h) es)"

text \<open>
  \<open>mid\<close> is a stretch of the history with \<open>k\<close> ticks that starts when the node has just sent
  the Check ID frames for \<open>a\<close>, and in which nobody used \<open>a\<close>.
\<close>

definition silent_for ::
  "'w lcc_events \<Rightarrow> 'w \<Rightarrow> ('t, 's) lcc_node \<Rightarrow> node_event list \<Rightarrow> node_event list \<Rightarrow> u16 \<Rightarrow> nat \<Rightarrow> bool" where
  "silent_for E w node0 pre mid a k \<longleftrightarrow> (\<exists>pre' h. pre = pre' @ [Own_Tick h]) \<and>
     alias_state (node_run E w pre node0) = LCC_A_CID \<and> node_alias (node_run E w pre node0) = a \<and>
     ticks mid = k \<and> Seen a \<notin> set mid"

lemma silent_snoc:
  "silent_for E w n pre mid a k \<Longrightarrow> e \<noteq> Seen a \<Longrightarrow>
   silent_for E w n pre (mid @ [e]) a (k + (if \<exists>h. e = Own_Tick h then 1 else 0))"
  by (auto simp: silent_for_def ticks_def)

lemma extend_post:
  "\<exists>pre mid post. es = pre @ mid @ post \<and> silent_for E w n pre mid a k \<Longrightarrow>
   \<exists>pre mid post. es @ [e] = pre @ mid @ post \<and> silent_for E w n pre mid a k"
proof (elim exE conjE)
  fix pre mid post
  assume "es = pre @ mid @ post" "silent_for E w n pre mid a k"
  then show ?thesis by (intro exI [of _ pre] exI [of _ mid] exI [of _ "post @ [e]"]) simp
qed

lemma claim_inv:
  assumes "alias_state n = LCC_A_IDLE" and "node = node_run E w es n"
  shows "(alias_state node = LCC_A_CID \<longrightarrow> (\<exists>pre mid. es = pre @ mid \<and> silent_for E w n pre mid (node_alias node) 0)) \<and>
    (alias_state node = LCC_A_WAIT \<longrightarrow> alias_wait_ticks node \<le> 1 \<and>
      (\<exists>pre mid. es = pre @ mid \<and>
         silent_for E w n pre mid (node_alias node) (1 + unat (alias_wait_ticks node)))) \<and>
    (alias_state node = LCC_A_CONFIRMED \<longrightarrow>
      (\<exists>pre mid post. es = pre @ mid @ post \<and> silent_for E w n pre mid (node_alias node) 3))"
  using assms(2)
proof (induction es arbitrary: node rule: rev_induct)
  case Nil
  then show ?case by (simp add: node_run_def assms(1))
next
  case (snoc e es)
  let ?n = "node_run E w es n"
  have node: "node = node_step E w e ?n" using snoc.prems by (simp add: node_run_def)
  show ?case
  proof (cases e)
    case (Own_Tick h)
    show ?thesis
    proof (cases "alias_state ?n")
      case LCC_A_IDLE
      then have "alias_state node = LCC_A_IDLE \<or> alias_state node = LCC_A_CID"
        by (auto simp: node Own_Tick node_step_def lcc_alias_tick_def Let_def split: prod.splits bool.splits)
      moreover have "silent_for E w n (es @ [e]) [] (node_alias node) 0" if "alias_state node = LCC_A_CID"
        using that snoc.prems by (simp add: silent_for_def Own_Tick ticks_def)
      ultimately show ?thesis by (metis append_Nil2 lcc_alias_state.distinct(1,3,5,7,9,11,13,15,17,19))
    next
      case LCC_A_CID
      then obtain pre mid where s: "es = pre @ mid" "silent_for E w n pre mid (node_alias ?n) 0"
        using snoc.IH [OF refl] by auto
      have "alias_state node = LCC_A_WAIT" "alias_wait_ticks node = 0" "node_alias node = node_alias ?n"
        using LCC_A_CID by (simp_all add: node Own_Tick node_step_def lcc_alias_tick_def)
      then show ?thesis using silent_snoc [OF s(2), of e] s(1) Own_Tick by auto
    next
      case LCC_A_WAIT
      then obtain pre mid where s: "alias_wait_ticks ?n \<le> 1" "es = pre @ mid"
        "silent_for E w n pre mid (node_alias ?n) (1 + unat (alias_wait_ticks ?n))"
        using snoc.IH [OF refl] by auto
      have next': "silent_for E w n pre (mid @ [e]) (node_alias ?n) (2 + unat (alias_wait_ticks ?n))"
        using silent_snoc [OF s(3), of e] Own_Tick by simp
      have al: "node_alias node = node_alias ?n"
        using LCC_A_WAIT by (simp add: node Own_Tick node_step_def lcc_alias_tick_def Let_def)
      have u: "unat (alias_wait_ticks ?n) = 0 \<or> unat (alias_wait_ticks ?n) = 1"
        using s(1) by (auto simp: word_le_nat_alt)
      then show ?thesis
      proof
        assume z: "unat (alias_wait_ticks ?n) = 0"
        then have "alias_wait_ticks ?n = 0" by (simp add: unat_eq_0)
        then have "alias_state node = LCC_A_WAIT" "alias_wait_ticks node = 1"
          using LCC_A_WAIT by (simp_all add: node Own_Tick node_step_def lcc_alias_tick_def Let_def ALIAS_WAIT_TICKS_def
              word_le_nat_alt)
        then show ?thesis using next' s(2) z al by auto
      next
        assume o: "unat (alias_wait_ticks ?n) = 1"
        then have "alias_wait_ticks ?n = 1" by (metis unat_1 word_unat_eq_iff)
        then have "alias_state node = LCC_A_CONFIRMED"
          using LCC_A_WAIT by (simp add: node Own_Tick node_step_def lcc_alias_tick_def Let_def ALIAS_WAIT_TICKS_def
              word_le_nat_alt)
        moreover have "silent_for E w n pre (mid @ [e]) (node_alias node) 3"
          using next' o al by (simp add: numeral_3_eq_3)
        then have "\<exists>pre mid post. es @ [e] = pre @ mid @ post \<and> silent_for E w n pre mid (node_alias node) 3"
          by (intro exI [of _ pre] exI [of _ "mid @ [e]"] exI [of _ "[]"]) (simp add: s(2))
        ultimately show ?thesis by simp
      qed
    next
      case LCC_A_CONFIRMED
      then have "node = ?n" by (simp add: node Own_Tick node_step_def lcc_alias_tick_def)
      moreover from LCC_A_CONFIRMED have "\<exists>pre mid post. es @ [e] = pre @ mid @ post \<and>
          silent_for E w n pre mid (node_alias ?n) 3"
        by (intro extend_post) (use snoc.IH [OF refl] in blast)
      ultimately show ?thesis using LCC_A_CONFIRMED by simp
    next
      case LCC_A_CONFLICT
      then have "alias_state node = LCC_A_IDLE \<or> alias_state node = LCC_A_CONFLICT"
        by (simp add: node Own_Tick node_step_def lcc_alias_tick_def Let_def)
      then show ?thesis by auto
    qed
  next
    case (Seen src)
    have al: "node_alias node = node_alias ?n" "alias_wait_ticks node = alias_wait_ticks ?n"
      by (simp_all add: node Seen node_step_def alias_sees_def lcc_alias_on_collision_def split: lcc_alias_state.splits)
    show ?thesis
    proof (cases "alias_state node = LCC_A_CID \<or> alias_state node = LCC_A_WAIT")
      case True
      then have st: "alias_state node = alias_state ?n" "e \<noteq> Seen (node_alias ?n)"
        by (auto simp: node Seen node_step_def alias_sees_def lcc_alias_on_collision_def
            split: lcc_alias_state.splits if_splits)
      have more: "\<exists>pre mid. es @ [e] = pre @ mid \<and> silent_for E w n pre mid (node_alias ?n) k"
        if "\<exists>pre mid. es = pre @ mid \<and> silent_for E w n pre mid (node_alias ?n) k" for k
        using that
      proof (elim exE conjE)
        fix pre mid
        assume s: "es = pre @ mid" "silent_for E w n pre mid (node_alias ?n) k"
        have "silent_for E w n pre (mid @ [e]) (node_alias ?n) k"
          using silent_snoc [OF s(2) st(2)] Seen by simp
        then show ?thesis by (intro exI [of _ pre] exI [of _ "mid @ [e]"]) (simp add: s(1))
      qed
      show ?thesis
      proof (cases "alias_state ?n = LCC_A_CID")
        case True
        then have "\<exists>pre mid. es = pre @ mid \<and> silent_for E w n pre mid (node_alias ?n) 0"
          using snoc.IH [OF refl] by blast
        from more [OF this] show ?thesis using True st al by simp
      next
        case False
        then have w: "alias_state ?n = LCC_A_WAIT" using True st(1) by simp
        then have "alias_wait_ticks ?n \<le> 1" "\<exists>pre mid. es = pre @ mid \<and>
            silent_for E w n pre mid (node_alias ?n) (1 + unat (alias_wait_ticks ?n))"
          using snoc.IH [OF refl] by blast+
        with more [OF this(2)] show ?thesis using w st al by simp
      qed
    next
      case False
      have "alias_state node = LCC_A_CONFIRMED \<Longrightarrow> alias_state ?n = LCC_A_CONFIRMED"
        by (auto simp: node Seen node_step_def alias_sees_def lcc_alias_on_collision_def
            split: lcc_alias_state.splits if_splits)
      moreover have "alias_state ?n = LCC_A_CONFIRMED \<Longrightarrow> \<exists>pre mid post. es @ [e] = pre @ mid @ post \<and>
          silent_for E w n pre mid (node_alias ?n) 3"
        by (intro extend_post) (use snoc.IH [OF refl] in blast)
      ultimately show ?thesis using False al by simp
    qed
  qed
qed

text \<open>A node past IDLE has a real alias.\<close>

definition alias_node_ok :: "('t, 's) lcc_node \<Rightarrow> bool" where
  "alias_node_ok node \<longleftrightarrow> (node_alias node = 0 \<or> is_alias (node_alias node)) \<and>
     (alias_state node \<noteq> LCC_A_IDLE \<longrightarrow> is_alias (node_alias node))"

lemma node_step_ok: "alias_node_ok node \<Longrightarrow> alias_node_ok (node_step E w e node)"
  using alias_seed_ok alias_next_ok
  by (cases e; cases "alias_state node")
    (auto simp: alias_node_ok_def node_step_def alias_sees_def lcc_alias_on_collision_def lcc_alias_tick_def Let_def
      lcc_if_alias_try_lock_def split: bool.splits)

interpretation alias_node: invariant_system "\<lambda>n. \<exists>ident r. n = lcc_node_init ident r" "node_step E w" alias_node_ok
proof
  show "alias_node_ok n" if "\<exists>ident r. n = lcc_node_init ident r" for n
    using that by (auto simp: alias_node_ok_def lcc_node_init_def)
qed (rule node_step_ok)

text \<open>
  C35: An alias is claimed only after silence. Whatever ticks (with the mutex free or taken)
  and control frames a new node goes through, if it has claimed an alias then there was a
  stretch of its history that began when it sent the Check ID frames for that very alias,
  lasted three ticks (300 ms) and held no control frame sent from it; and the alias is not 0
  and has 12 bits.
\<close>

theorem claim_after_silence:
  assumes "n = lcc_node_init ident r" and "alias_state (node_run E w es n) = LCC_A_CONFIRMED"
  shows "is_alias (node_alias (node_run E w es n)) \<and>
    (\<exists>pre mid post. es = pre @ mid @ post \<and> silent_for E w n pre mid (node_alias (node_run E w es n)) 3)"
proof
  have "alias_node_ok (fold (node_step E w) es n)"
    by (rule alias_node.inv_reachable) (use assms(1) in blast)
  then show "is_alias (node_alias (node_run E w es n))"
    using assms(2) by (simp add: alias_node_ok_def node_run_def)
  have "alias_state n = LCC_A_IDLE" by (simp add: assms(1) lcc_node_init_def)
  from claim_inv [OF this refl, of E w es] assms(2)
  show "\<exists>pre mid post. es = pre @ mid @ post \<and> silent_for E w n pre mid (node_alias (node_run E w es n)) 3"
    by blast
qed

theorem claim_after_silence_witness:
  "is_alias (node_alias (node_run lcc_events_reset () [Own_Tick True, Own_Tick False, Seen 0x16F, Own_Tick False,
     Own_Tick False, Own_Tick False, Seen 0x16F, Own_Tick False, Own_Tick False]
     (lcc_node_init 0x06010000C003 LCC_ROLE_TRAIN :: (unit, unit) lcc_node)))"
proof -
  have "alias_state (node_run lcc_events_reset () [Own_Tick True, Own_Tick False, Seen 0x16F, Own_Tick False,
     Own_Tick False, Own_Tick False, Seen 0x16F, Own_Tick False, Own_Tick False]
     (lcc_node_init 0x06010000C003 LCC_ROLE_TRAIN :: (unit, unit) lcc_node)) = LCC_A_CONFIRMED"
    by (simp add: node_run_def node_step_def alias_eval word_le_nat_alt)
  from claim_after_silence [OF refl this] show ?thesis by blast
qed

text \<open>
  The nodes of one command station do not see each other's Check ID frames, since nothing
  that is sent comes back: locos 1001 and 5096 start from the same candidate, and both
  claim it.
\<close>

lemma witness_seeds:
  "lcc_alias_seed 0x06010000C3E9 = 0x285" "lcc_alias_seed 0x06010000D3E8 = 0x285"
  by (simp_all add: lcc_alias_seed_def)

theorem two_trains_one_alias:
  fixes s0 :: "(unit, unit) lcc_node list \<times> bool"
  assumes "s0 = (lcc_node_registry_reset, False)"
  shows "map (\<lambda>n. (alias_state n, node_alias n)) (fst (alias_run lcc_events_reset ()
      [Register 0x06010000C3E9 LCC_ROLE_TRAIN, Register 0x06010000D3E8 LCC_ROLE_TRAIN,
       Tick, Tick, Tick, Tick, Tick, Tick, Tick] s0)) =
    [(LCC_A_CONFIRMED, 0x285), (LCC_A_CONFIRMED, 0x285)]"
  by (simp add: assms alias_run_Cons alias_run_Nil alias_step_def lcc_node_register_def lcc_node_init_def
      LCC_MAX_NODES_def lcc_node_registry_reset_def lcc_alias_tick_def lcc_if_alias_try_lock_def
      lcc_if_alias_unlock_def witness_seeds ALIAS_WAIT_TICKS_def Let_def word_le_nat_alt)

end
