(* ===== verification/Lcc_If.thy ===== *)
theory Lcc_If
  imports Lcc_Train_Search Lcc_Alias Lcc_Datagram_Rx Lcc_Gc
begin

text \<open>
  The interface between the nodes and the bus: \<^verbatim>\<open>src/src/lcc/lcc_if.c\<close>, \<^verbatim>\<open>lcc_if.h\<close>, the dispatch of
  \<^verbatim>\<open>lcc_node.c\<close> and the task of \<^verbatim>\<open>lcc_task.c\<close>. A received frame goes to the nodes it concerns, and a turn
  of the task does the deferred replies, the alias tick and the owed search answers. The rest of the
  program is a type parameter. What all this keeps is in the theories \<open>Lcc_Bus\<close> and \<open>Lcc_Rest\<close>.
\<close>

section \<open>State\<close>

text \<open>
  The LCC side of the program: the registered nodes, the memory configuration with the rest of
  the program \<open>'v\<close> as the second half of its world (theory \<open>Lcc_Traction\<close>), the event
  registrations, the mutex of the alias negotiation, and the hooks.
\<close>

type_synonym 'v lnode = "(lcc_train_state, 'v trains) mnode"

record 'v lcc_system =
  sys_nodes :: "'v lnode list"
  sys_mc :: "'v trains memconfig"
  sys_events :: "'v lcc_events"
  sys_lock :: bool
  sys_hooks :: "'v lcc_traction_hooks"
  sys_alloc :: "('v trains lcc_memspace, 'v) lcc_train_alloc_fn option"

definition rest_of :: "'v lcc_system \<Rightarrow> 'v" where
  "rest_of sy = snd (the_rest (sys_mc sy))"

definition set_rest :: "'v \<Rightarrow> 'v lcc_system \<Rightarrow> 'v lcc_system" where
  "set_rest w sy = sy\<lparr>sys_mc := (sys_mc sy)\<lparr>the_rest := (fst (the_rest (sys_mc sy)), w)\<rparr>\<rparr>"

definition set_node :: "nat \<Rightarrow> 'v lnode \<Rightarrow> 'v lcc_system \<Rightarrow> 'v lcc_system" where
  "set_node i node sy = sy\<lparr>sys_nodes := (sys_nodes sy)[i := node]\<rparr>"

text \<open>An operation on the nodes and the rest of the program.\<close>

definition on_layout ::
  "(('v trains lcc_memspace, 'v) layout \<Rightarrow> 'r \<times> ('v trains lcc_memspace, 'v) layout) \<Rightarrow> 'v lcc_system \<Rightarrow> 'r \<times> 'v lcc_system" where
  "on_layout f sy =
     (case f (sys_nodes sy, rest_of sy) of (r, (nodes, w)) \<Rightarrow> (r, set_rest w (sy\<lparr>sys_nodes := nodes\<rparr>)))"

section \<open>A frame at a node: \<open>lcc_node.c\<close>\<close>

text \<open>
  The memory spaces of a node reach its train through the node, the others none: the train of
  the node is put into the world before the datagram and taken back after it.
\<close>

definition node_datagram :: "nat \<Rightarrow> lcc_frame \<Rightarrow> 'v lcc_system \<Rightarrow> lcc_frame list \<times> 'v lcc_system" where
  "node_datagram i frame sy =
     (let node = sys_nodes sy ! i;
          mc = (sys_mc sy)\<lparr>the_rest := (\<lambda>n. if n = node_id node then train node else None, rest_of sy)\<rparr>
      in case lcc_datagram_handle_frame node frame mc of
           (fs, node, mc) \<Rightarrow>
             (fs, set_node i (node\<lparr>train := (case train node of None \<Rightarrow> None | Some t \<Rightarrow> fst (the_rest mc) (node_id node))\<rparr>)
                    (sy\<lparr>sys_mc := mc\<rparr>)))"

definition node_events :: "nat \<Rightarrow> lcc_frame \<Rightarrow> 'v lcc_system \<Rightarrow> lcc_frame list \<times> 'v lcc_system" where
  "node_events i frame sy =
     (case lcc_events_handle_frame (sys_nodes sy ! i) frame (sys_events sy) (rest_of sy) of
        (fs, w) \<Rightarrow> (fs, set_rest w sy))"

definition handle_control :: "nat \<Rightarrow> lcc_frame \<Rightarrow> 'v lcc_system \<Rightarrow> lcc_frame list \<times> 'v lcc_system" where
  "handle_control i f sy =
     (let node = sys_nodes sy ! i
      in case (if lcc_get_src (fr_id f) = node_alias node then lcc_alias_on_collision node else ([], node)) of
           (fs, node) \<Rightarrow>
             (let node = node\<lparr>train := map_option (lcc_traction_handle_control f) (train node)\<rparr>;
                  sy = set_node i node sy
              in if alias_state node \<noteq> LCC_A_CONFIRMED then (fs, sy)
                 else if lcc_get_control_field (fr_id f) = LCC_CONTROL_AME then (fs @ handle_ame node f, sy)
                 else (fs, sy)))"

definition is_datagram_type :: "u8 \<Rightarrow> bool" where
  "is_datagram_type ftype \<longleftrightarrow> ftype \<ge> LCC_FRAME_DATAGRAM_ONE \<and> ftype \<le> LCC_FRAME_DATAGRAM_FINAL"

definition lcc_node_handle_frame :: "nat \<Rightarrow> lcc_frame \<Rightarrow> 'v lcc_system \<Rightarrow> lcc_frame list \<times> 'v lcc_system" where
  "lcc_node_handle_frame i frame sy =
     (let node = sys_nodes sy ! i; ftype = lcc_get_can_frame_type (fr_id frame); mti = lcc_get_mti (fr_id frame)
      in if lcc_is_control_frame (fr_id frame) then handle_control i frame sy
         else if alias_state node \<noteq> LCC_A_CONFIRMED then ([], sy)
         else if is_datagram_type ftype then node_datagram i frame sy
         else if ftype \<noteq> LCC_FRAME_GLOBAL_ADDRESSED then ([], sy)
         else if mti AND LCC_MTI_ADDRESS_MASK \<noteq> 0 \<and> \<not> addressed_dst_matches node frame then ([], sy)
         else if mti = LCC_MTI_VERIFY_NODE_ID_GLOBAL \<or> mti = LCC_MTI_VERIFY_NODE_ID_ADDRESSED
         then (handle_verify_node_id node frame, sy)
         else if mti = LCC_MTI_PROTOCOL_SUPPORT_INQUIRY then (lcc_pip_handle node frame, sy)
         else if mti = LCC_MTI_IDENT_INFO_REQUEST then (lcc_snip_handle node frame, sy)
         else if mti = LCC_MTI_EVENTS_IDENTIFY_GLOBAL \<or> mti = LCC_MTI_EVENTS_IDENTIFY_ADDRESSED \<or>
                 mti = LCC_MTI_CONSUMER_IDENTIFY \<or> mti = LCC_MTI_PRODUCER_IDENTIFY \<or> mti = LCC_MTI_EVENT_REPORT
         then node_events i frame sy
         else if mti = LCC_MTI_TRACTION_CONTROL_COMMAND
         then on_layout (lcc_traction_handle_frame (sys_hooks sy) i frame) sy
         else ([], sy))"

section \<open>A frame from the bus: \<open>lcc_if.c\<close>\<close>

primrec handle_at :: "nat list \<Rightarrow> lcc_frame \<Rightarrow> 'v lcc_system \<Rightarrow> lcc_frame list \<times> 'v lcc_system" where
  "handle_at [] frame sy = ([], sy)"
| "handle_at (i # is) frame sy =
     (case lcc_node_handle_frame i frame sy of
        (fs, sy1) \<Rightarrow> (case handle_at is frame sy1 of (fs', sy2) \<Rightarrow> (fs @ fs', sy2)))"

definition handle_by_alias :: "u16 \<Rightarrow> lcc_frame \<Rightarrow> 'v lcc_system \<Rightarrow> lcc_frame list \<times> 'v lcc_system" where
  "handle_by_alias dst frame sy =
     (case lcc_node_find_by_alias dst (sys_nodes sy) of
        None \<Rightarrow> ([], sy)
      | Some i \<Rightarrow> lcc_node_handle_frame i frame sy)"

definition global_search :: "lcc_frame \<Rightarrow> 'v lcc_system \<Rightarrow> lcc_frame list \<times> 'v lcc_system" where
  "global_search frame sy =
     (if lcc_get_mti (fr_id frame) = LCC_MTI_EVENT_REPORT \<and> dlc frame \<ge> 8
      then on_layout (lcc_train_search_dispatch (sys_alloc sy) (lcc_event_from_buf (fr_data frame))) sy
      else ([], sy))"

definition global_probe :: "lcc_frame \<Rightarrow> 'v lcc_system \<Rightarrow> 'v lcc_system" where
  "global_probe frame sy =
     (if lcc_get_mti (fr_id frame) = LCC_MTI_VERIFY_NODE_ID_GLOBAL \<and> dlc frame = 6
      then snd (on_layout (\<lambda>s. ((), lcc_train_search_ensure_by_node_id (sys_alloc sy)
                                      (lcc_node_id_from_buf (fr_data frame)) s)) sy)
      else sy)"

text \<open>\<open>count\<close> is read before a search may register another node.\<close>

definition lcc_if_dispatch :: "lcc_frame \<Rightarrow> 'v lcc_system \<Rightarrow> lcc_frame list \<times> 'v lcc_system" where
  "lcc_if_dispatch frame sy =
     (let count = length (sys_nodes sy); ftype = lcc_get_can_frame_type (fr_id frame); mti = lcc_get_mti (fr_id frame)
      in if lcc_is_control_frame (fr_id frame) then handle_at [0..<count] frame sy
         else if ftype = LCC_FRAME_GLOBAL_ADDRESSED
         then (if mti AND LCC_MTI_ADDRESS_MASK \<noteq> 0
               then (if dlc frame < 2 then ([], sy) else handle_by_alias (lcc_frame_addressed_dst frame) frame sy)
               else case global_search frame sy of
                      (fs, sy) \<Rightarrow> (case handle_at [0..<count] frame (global_probe frame sy) of (fs', sy) \<Rightarrow> (fs @ fs', sy)))
         else if is_datagram_type ftype then handle_by_alias (lcc_get_datagram_dst (fr_id frame)) frame sy
         else ([], sy))"

section \<open>Transports\<close>

text \<open>
  The egress functions act on the state \<open>'e\<close> of the transports; the mutex around them is
  FreeRTOS. The USB one appends to the bytes written, if the port is connected.
\<close>

type_synonym 'e lcc_egress_fn = "lcc_frame \<Rightarrow> 'e \<Rightarrow> bool \<times> 'e"

definition LCC_IF_MAX_EGRESS :: nat where "LCC_IF_MAX_EGRESS = 3"
definition LCC_IF_RX_Q_LEN :: nat where "LCC_IF_RX_Q_LEN = 16"

definition lcc_if_register_transport ::
  "'e lcc_egress_fn option \<Rightarrow> 'e lcc_egress_fn list \<Rightarrow> bool \<times> 'e lcc_egress_fn list" where
  "lcc_if_register_transport fn tbl =
     (case fn of
        None \<Rightarrow> (False, tbl)
      | Some f \<Rightarrow> (if length tbl \<ge> LCC_IF_MAX_EGRESS then (False, tbl) else (True, tbl @ [f])))"

definition usb_egress :: "bool \<Rightarrow> string lcc_egress_fn" where
  "usb_egress write_ready frame written =
     (if \<not> write_ready then (True, written)
      else case lcc_gc_encode frame LCC_GC_MAX_LEN of None \<Rightarrow> (False, written) | Some s \<Rightarrow> (True, written @ s))"

primrec lcc_if_tx :: "'e lcc_egress_fn list \<Rightarrow> lcc_frame \<Rightarrow> 'e \<Rightarrow> bool \<times> 'e" where
  "lcc_if_tx [] frame e = (False, e)"
| "lcc_if_tx (f # fs) frame e =
     (case f frame e of (ok, e1) \<Rightarrow> (case lcc_if_tx fs frame e1 of (any_ok, e2) \<Rightarrow> (ok \<or> any_ok, e2)))"

text \<open>The receive queue drops what does not fit.\<close>

definition lcc_if_enqueue_frame :: "lcc_frame \<Rightarrow> lcc_frame list \<Rightarrow> lcc_frame list" where
  "lcc_if_enqueue_frame frame rx_q = (if length rx_q < LCC_IF_RX_Q_LEN then rx_q @ [frame] else rx_q)"

definition lcc_if_on_rx_byte :: "char \<Rightarrow> lcc_gc_parser \<times> lcc_frame list \<Rightarrow> lcc_gc_parser \<times> lcc_frame list" where
  "lcc_if_on_rx_byte ch s =
     (case lcc_gc_parse_byte ch (fst s) of
        (None, p) \<Rightarrow> (p, snd s)
      | (Some frame, p) \<Rightarrow> (p, lcc_if_enqueue_frame frame (snd s)))"

text \<open>The oldest frame received, if there is one within the timeout.\<close>

definition lcc_if_rx :: "lcc_frame list \<Rightarrow> lcc_frame option \<times> lcc_frame list" where
  "lcc_if_rx rx_q = (case rx_q of [] \<Rightarrow> (None, []) | frame # rest \<Rightarrow> (Some frame, rest))"

text \<open>The start: an empty parser, an empty queue, and \<open>usb\<close>, the USB egress, as the only transport.\<close>

definition lcc_if_init :: "'e lcc_egress_fn \<Rightarrow> lcc_gc_parser \<times> lcc_frame list \<times> 'e lcc_egress_fn list" where
  "lcc_if_init usb = (gc_parser_zero, [], snd (lcc_if_register_transport (Some usb) []))"

section \<open>The task: \<open>lcc_task.c\<close>\<close>

definition TICK_PERIOD_MS :: u32 where "TICK_PERIOD_MS = 100"
definition DEFERRED_POLL_MS :: u32 where "DEFERRED_POLL_MS = 5"

definition wait_ms :: "u32 \<Rightarrow> u32 \<Rightarrow> bool \<Rightarrow> u32" where
  "wait_ms next_tick now_tick reply_due =
     (let wt = (if sint (next_tick - now_tick) > 0 then next_tick - now_tick else 0)
      in if wt > DEFERRED_POLL_MS \<and> reply_due then DEFERRED_POLL_MS else wt)"

text \<open>
  The node of the outstanding request, by its ID: only a node with a confirmed alias took it,
  and it keeps that alias.
\<close>

definition flush_deferred :: "'v lcc_system \<Rightarrow> lcc_frame list \<times> 'v lcc_system" where
  "flush_deferred sy =
     (case lcc_memconfig_flush_deferred
             (\<lambda>n. case find (\<lambda>node. node_id node = n \<and> alias_state node = LCC_A_CONFIRMED) (sys_nodes sy) of
                    Some node \<Rightarrow> node | None \<Rightarrow> lcc_node_init n LCC_ROLE_CS) (sys_mc sy) of
        (fs, mc) \<Rightarrow> (fs, sy\<lparr>sys_mc := mc\<rparr>))"

definition tick_aliases :: "'v lcc_system \<Rightarrow> lcc_frame list \<times> 'v lcc_system" where
  "tick_aliases sy =
     (case alias_tick_all (sys_events sy) (rest_of sy) (sys_nodes sy) (sys_lock sy) of
        (fs, nodes, held) \<Rightarrow> (fs, sy\<lparr>sys_nodes := nodes, sys_lock := held\<rparr>))"

definition flush_searches :: "'v lcc_system \<Rightarrow> lcc_frame list \<times> 'v lcc_system" where
  "flush_searches sy =
     (case lcc_train_search_flush_pending (sys_nodes sy) of (fs, nodes) \<Rightarrow> (fs, sy\<lparr>sys_nodes := nodes\<rparr>))"

record lcc_task =
  next_tick :: u32
  prev_connected :: bool

text \<open>
  One turn of \<open>lcc_task_run\<close>: the frame \<open>lcc_if_rx\<close> gave within \<open>wait_ms\<close>, if any, the tick
  count after it and whether the USB port is connected.
\<close>

definition lcc_task_turn ::
  "lcc_frame option \<Rightarrow> u32 \<Rightarrow> bool \<Rightarrow> lcc_task \<times> 'v lcc_system \<Rightarrow> lcc_frame list \<times> lcc_task \<times> 'v lcc_system" where
  "lcc_task_turn rx now_tick usb_ready s =
     (case s of (task, sy) \<Rightarrow>
        (case (case rx of Some frame \<Rightarrow> lcc_if_dispatch frame sy | None \<Rightarrow> ([], sy)) of
           (fs1, sy) \<Rightarrow>
             (case flush_deferred sy of
                (fs2, sy) \<Rightarrow>
                  (if sint (now_tick - next_tick task) \<ge> 0
                   then let fs3 = (if usb_ready \<and> \<not> prev_connected task
                                   then reannounce_all_confirmed (sys_events sy) (rest_of sy) (sys_nodes sy) else [])
                        in case tick_aliases sy of
                             (fs4, sy) \<Rightarrow>
                               (case flush_searches sy of
                                  (fs5, sy) \<Rightarrow>
                                    (fs1 @ fs2 @ fs3 @ fs4 @ fs5,
                                     \<lparr>next_tick = next_tick task + TICK_PERIOD_MS, prev_connected = usb_ready\<rparr>, sy))
                   else (fs1 @ fs2, task, sy)))))"

end
