(* ===== verification/Lcc_Station.thy ===== *)
theory Lcc_Station
  imports Dcc_Safety Railcom Motor Servicemode Lcc_Accessory Lcc_Config Lcc_If
begin

text \<open>
  The command station: \<^verbatim>\<open>src/src/protocol/lcc_interface.c\<close>, which joins the LCC side with the DCC engine,
  the main track, RailCom and the service mode: the hooks, the programming track, the pool of train
  nodes, the emergency events and the start-up. Its configuration memory is in theory \<open>Lcc_Config\<close>.
\<close>

section \<open>Constants\<close>

definition LCC_ERR_DCC_PGM_DISABLED :: u16 where [lcc_consts]: "LCC_ERR_DCC_PGM_DISABLED = 0x1021"
definition LCC_ERR_DCC_NO_LOCO :: u16 where [lcc_consts]: "LCC_ERR_DCC_NO_LOCO = 0x2031"
definition LCC_ERR_DCC_FAILED_VERIFY :: u16 where [lcc_consts]: "LCC_ERR_DCC_FAILED_VERIFY = 0x2032"
definition LCC_ERR_DCC_PGM_SHORT :: u16 where [lcc_consts]: "LCC_ERR_DCC_PGM_SHORT = 0x2035"
definition LCC_EVENT_EMERGENCY_OFF :: u64 where [lcc_consts]: "LCC_EVENT_EMERGENCY_OFF = 0x010000000000FFFF"
definition LCC_EVENT_CLEAR_EMERG_OFF :: u64 where [lcc_consts]: "LCC_EVENT_CLEAR_EMERG_OFF = 0x010000000000FFFE"
definition LCC_EVENT_EMERGENCY_STOP :: u64 where [lcc_consts]: "LCC_EVENT_EMERGENCY_STOP = 0x010000000000FFFD"
definition LCC_EVENT_CLEAR_EMERG_STOP :: u64 where [lcc_consts]: "LCC_EVENT_CLEAR_EMERG_STOP = 0x010000000000FFFC"
definition LCC_EVENT_IS_PROGRAMMING_TRACK :: u64 where [lcc_consts]: "LCC_EVENT_IS_PROGRAMMING_TRACK = 0x090099FEFFFF0002"
definition LCC_PIP_SIMPLE_PROTOCOL :: u64 where "LCC_PIP_SIMPLE_PROTOCOL = shl 1 47"
definition LCC_PIP_DATAGRAM :: u64 where "LCC_PIP_DATAGRAM = shl 1 46"
definition LCC_PIP_MEMORY_CONFIG :: u64 where "LCC_PIP_MEMORY_CONFIG = shl 1 44"
definition LCC_PIP_EVENT_EXCHANGE :: u64 where "LCC_PIP_EVENT_EXCHANGE = shl 1 42"
definition LCC_PIP_IDENTIFICATION :: u64 where "LCC_PIP_IDENTIFICATION = shl 1 41"
definition LCC_PIP_ABBREVIATED_CDI :: u64 where "LCC_PIP_ABBREVIATED_CDI = shl 1 38"
definition LCC_PIP_SIMPLE_NODE_INFO :: u64 where "LCC_PIP_SIMPLE_NODE_INFO = shl 1 36"
definition LCC_PIP_CDI :: u64 where "LCC_PIP_CDI = shl 1 35"
definition LCC_PIP_TRAIN_CONTROL :: u64 where "LCC_PIP_TRAIN_CONTROL = shl 1 34"

section \<open>The command station\<close>

text \<open>
  The state behind the LCC side of the program: the outputs of the accessories, the DCC engine
  and the main track (\<open>None\<close> for NULL), the RailCom receiver, the wave generator being in
  normal mode, the queue of the service mode with the two callbacks of the programming track,
  the configuration, the pool of train nodes (a used slot with its place in the registry) and
  the tick count.
\<close>

datatype progtrack_done = Progtrack_Read_Done | Progtrack_Write_Done

record 'q station = accessories +
  g_dcc_engine :: "'q dcc_engine option"
  g_track_main :: "track option"
  st_railcom :: railcom_state
  st_wave_normal :: bool
  st_servicemode :: "progtrack_done svc_request option option"
  st_config :: config
  g_train_slots :: "nat option list"
  st_ticks :: u32

definition on_engine :: "('q dcc_engine \<Rightarrow> 'q dcc_engine) \<Rightarrow> 'q station \<Rightarrow> 'q station" where
  "on_engine f w = w\<lparr>g_dcc_engine := map_option f (g_dcc_engine w)\<rparr>"

section \<open>Traction hooks\<close>

definition traction_set_throttle :: "'q q_api \<Rightarrow> u16 \<Rightarrow> bool \<Rightarrow> u8 \<Rightarrow> bool \<Rightarrow> 'q station \<Rightarrow> 'q station" where
  "traction_set_throttle R addr is_long step forward = on_engine (dcc_set_throttle R addr is_long step forward)"

definition traction_set_function :: "u16 \<Rightarrow> bool \<Rightarrow> u16 \<Rightarrow> bool \<Rightarrow> 'q station \<Rightarrow> 'q station" where
  "traction_set_function addr is_long fn on = on_engine (dcc_set_function addr is_long fn on)"

definition traction_emergency_stop :: "'q q_api \<Rightarrow> u16 \<Rightarrow> bool \<Rightarrow> 'q station \<Rightarrow> 'q station" where
  "traction_emergency_stop R addr is_long = on_engine (dcc_emergency_stop R addr is_long)"

definition traction_global_estop_held :: "'q station \<Rightarrow> bool" where
  "traction_global_estop_held w =
     (case g_dcc_engine w of Some dcc \<Rightarrow> dcc_emergency_stop_all_held dcc | None \<Rightarrow> False)"

definition traction_pom_write_byte :: "'q q_api \<Rightarrow> u16 \<Rightarrow> bool \<Rightarrow> u16 \<Rightarrow> u8 \<Rightarrow> 'q station \<Rightarrow> 'q station" where
  "traction_pom_write_byte R addr is_long cv value = on_engine (dcc_pom_write_byte R addr is_long cv value)"

definition traction_pom_write_long_address ::
  "'q q_api \<Rightarrow> u16 \<Rightarrow> bool \<Rightarrow> u8 \<Rightarrow> u8 \<Rightarrow> 'q station \<Rightarrow> 'q station" where
  "traction_pom_write_long_address R addr is_long cv17 cv18 =
     on_engine (dcc_pom_write_long_address R addr is_long cv17 cv18)"

definition traction_pom_write_consist :: "'q q_api \<Rightarrow> u16 \<Rightarrow> bool \<Rightarrow> u8 \<Rightarrow> 'q station \<Rightarrow> 'q station" where
  "traction_pom_write_consist R addr is_long cv19 = on_engine (dcc_pom_write_consist R addr is_long cv19)"

definition traction_pom_write_long_consist ::
  "'q q_api \<Rightarrow> u16 \<Rightarrow> bool \<Rightarrow> u8 \<Rightarrow> u8 \<Rightarrow> 'q station \<Rightarrow> 'q station" where
  "traction_pom_write_long_consist R addr is_long cv19 cv20 =
     on_engine (dcc_pom_write_long_consist R addr is_long cv19 cv20)"

text \<open>The callback is never NULL.\<close>

definition traction_pom_read_byte :: "u16 \<Rightarrow> bool \<Rightarrow> u16 \<Rightarrow> 'q station \<Rightarrow> u16 \<times> 'q station" where
  "traction_pom_read_byte addr is_long cv w =
     (case railcom_pom_read (st_wave_normal w) True addr is_long cv (st_railcom w) of
        (RAILCOM_READ_STARTED, s) \<Rightarrow> (0, w\<lparr>st_railcom := s\<rparr>)
      | (RAILCOM_READ_BUSY, s) \<Rightarrow> (LCC_ERR_TEMPORARY, w\<lparr>st_railcom := s\<rparr>)
      | (RAILCOM_READ_OFF, s) \<Rightarrow> (LCC_ERR_UNIMPLEMENTED_CMD, w\<lparr>st_railcom := s\<rparr>))"

definition pom_read_done :: "bool \<Rightarrow> u8 \<Rightarrow> 'w memconfig \<Rightarrow> 'w memconfig" where
  "pom_read_done answered value =
     (if answered then lcc_memconfig_complete 0 (Some [value]) else lcc_memconfig_complete LCC_ERR_DCC_NO_LOCO None)"

definition g_traction_hooks :: "'q q_api \<Rightarrow> 'q station lcc_traction_hooks" where
  "g_traction_hooks R = \<lparr>hk_set_throttle = Some (traction_set_throttle R), hk_set_function = Some traction_set_function,
     hk_emergency_stop = Some (traction_emergency_stop R), hk_global_estop_held = Some traction_global_estop_held,
     hk_pom_write_byte = Some (traction_pom_write_byte R),
     hk_pom_write_long_address = Some (traction_pom_write_long_address R),
     hk_pom_write_consist = Some (traction_pom_write_consist R),
     hk_pom_write_long_consist = Some (traction_pom_write_long_consist R),
     hk_pom_read_byte = Some traction_pom_read_byte\<rparr>"

section \<open>The programming track\<close>

definition PROGTRACK_CV_COUNT :: u32 where "PROGTRACK_CV_COUNT = 1024"

definition svc_result_to_error :: "svc_result \<Rightarrow> u16" where
  "svc_result_to_error res =
     (case res of
        SVC_OK \<Rightarrow> 0
      | SVC_NO_ACK \<Rightarrow> LCC_ERR_DCC_FAILED_VERIFY
      | SVC_NO_LOCO \<Rightarrow> LCC_ERR_DCC_NO_LOCO
      | SVC_SHORT \<Rightarrow> LCC_ERR_DCC_PGM_SHORT
      | SVC_BUSY \<Rightarrow> LCC_ERR_TEMPORARY
      | SVC_UNAVAILABLE \<Rightarrow> LCC_ERR_DCC_PGM_DISABLED)"

definition progtrack_read_done :: "svc_result \<Rightarrow> u8 \<Rightarrow> 'w memconfig \<Rightarrow> 'w memconfig" where
  "progtrack_read_done res value =
     (if res = SVC_OK then lcc_memconfig_complete 0 (Some [value])
      else lcc_memconfig_complete (svc_result_to_error res) None)"

definition progtrack_write_done :: "svc_result \<Rightarrow> u8 \<Rightarrow> 'w memconfig \<Rightarrow> 'w memconfig" where
  "progtrack_write_done res value = lcc_memconfig_complete (svc_result_to_error res) None"

definition progtrack_defer :: "u64 \<Rightarrow> lcc_memconfig_deferred \<Rightarrow> 'q station trains \<Rightarrow> u16 \<times> 'q station trains" where
  "progtrack_defer node req s =
     (if dr_is_write req \<and> dr_count req \<noteq> 1 then (LCC_ERR_INVALID_ARGUMENTS, s)
      else let cv = u16_of (dr_addr req + 1); w = snd s
           in case (if dr_is_write req
                    then servicemode_submit SVC_OP_WRITE cv (dr_data req ! 0) (Some Progtrack_Write_Done) (st_servicemode w)
                    else servicemode_submit SVC_OP_READ cv 0 (Some Progtrack_Read_Done) (st_servicemode w)) of
                (res, q) \<Rightarrow> (svc_result_to_error res, (fst s, w\<lparr>st_servicemode := q\<rparr>)))"

definition g_cs_node_spaces :: "'q station trains lcc_memspace list" where
  "g_cs_node_spaces = [\<lparr>ms_space = LCC_SPACE_DCC_CV, ms_size = PROGTRACK_CV_COUNT, ms_read_only = False,
     ms_read = None, ms_write = None, ms_update_complete = None, ms_defer = Some progtrack_defer\<rparr>]"

section \<open>The configuration spaces\<close>

text \<open>The spaces of theory \<open>Lcc_Config\<close>, on the configuration within the station.\<close>

definition set_config :: "config \<Rightarrow> 'q station trains \<Rightarrow> 'q station trains" where
  "set_config c s = (fst s, (snd s)\<lparr>st_config := c\<rparr>)"

definition on_config :: "config lcc_memspace \<Rightarrow> 'q station trains lcc_memspace" where
  "on_config h = \<lparr>ms_space = ms_space h, ms_size = ms_size h, ms_read_only = ms_read_only h,
     ms_read = map_option (\<lambda>f n addr count s. (case f n addr count (st_config (snd s)) of (r, c) \<Rightarrow> (r, set_config c s))) (ms_read h),
     ms_write = map_option (\<lambda>f n addr bytes s. (case f n addr bytes (st_config (snd s)) of (r, c) \<Rightarrow> (r, set_config c s))) (ms_write h),
     ms_update_complete = map_option (\<lambda>f n s. set_config (f n (st_config (snd s))) s) (ms_update_complete h),
     ms_defer = map_option (\<lambda>f n req s. (case f n req (st_config (snd s)) of (e, c) \<Rightarrow> (e, set_config c s))) (ms_defer h)\<rparr>"

section \<open>The pool of train nodes\<close>

definition LCC_TRAIN_POOL_SIZE :: nat where "LCC_TRAIN_POOL_SIZE = LCC_MAX_NODES - 1"

text \<open>The strings of the source as bytes.\<close>

definition simple_dcc :: "u8 list" where "simple_dcc = [115, 105, 109, 112, 108, 101, 45, 100, 99, 99]"
definition rp2350 :: "u8 list" where "rp2350 = [82, 80, 50, 51, 53, 48]"
definition dcc_train_proxy :: "u8 list" where
  "dcc_train_proxy = [68, 67, 67, 32, 84, 114, 97, 105, 110, 32, 80, 114, 111, 120, 121]"
definition dcc_command_station :: "u8 list" where
  "dcc_command_station = [68, 67, 67, 32, 67, 111, 109, 109, 97, 110, 100, 32, 83, 116, 97, 116, 105, 111, 110]"

text \<open>The version string is set by the build: an argument.\<close>

definition g_train_snip :: "u8 list \<Rightarrow> lcc_snip" where
  "g_train_snip version = \<lparr>mfg_name = Some simple_dcc, model_name = Some dcc_train_proxy, hw_version = Some rp2350,
     sw_version = Some version, user_name = None, user_desc = None\<rparr>"

definition g_cs_snip :: "u8 list \<Rightarrow> lcc_snip" where
  "g_cs_snip version = \<lparr>mfg_name = Some simple_dcc, model_name = Some dcc_command_station, hw_version = Some rp2350,
     sw_version = Some version, user_name = None, user_desc = None\<rparr>"

text \<open>The DCC address of the train in a slot of the pool.\<close>

definition slot_address :: "(lcc_train_state, 's) lcc_node list \<Rightarrow> nat option \<Rightarrow> u16 option" where
  "slot_address nodes slot =
     (case slot of None \<Rightarrow> None | Some j \<Rightarrow> map_option tn_dcc_address (train (nodes ! j)))"

definition train_find_by_addr :: "u16 \<Rightarrow> (lcc_train_state, 's) lcc_node list \<Rightarrow> nat option list \<Rightarrow> nat option" where
  "train_find_by_addr addr nodes slots =
     (case find (\<lambda>slot. slot_address nodes slot = Some addr) slots of Some (Some j) \<Rightarrow> Some j | _ \<Rightarrow> None)"

definition train_node_id :: "u16 \<Rightarrow> bool \<Rightarrow> u64" where
  "train_node_id dcc_addr is_long =
     (let node_id = LCC_TRAIN_NODE_ID_BASE OR u64_of dcc_addr in if is_long then node_id OR 0xC000 else node_id)"

definition train_pip :: u64 where
  "train_pip = LCC_PIP_SIMPLE_PROTOCOL OR LCC_PIP_DATAGRAM OR LCC_PIP_MEMORY_CONFIG OR LCC_PIP_EVENT_EXCHANGE
     OR LCC_PIP_SIMPLE_NODE_INFO OR LCC_PIP_TRAIN_CONTROL"

type_synonym 'q train_node = "(lcc_train_state, 'q station trains lcc_memspace) lcc_node"

definition new_train_node :: "'q q_api \<Rightarrow> u8 list \<Rightarrow> u16 \<Rightarrow> bool \<Rightarrow> u64 \<Rightarrow> 'q train_node" where
  "new_train_node R version dcc_addr is_long event_id =
     lcc_traction_register_cv_space (g_traction_hooks R)
       ((lcc_node_init (train_node_id dcc_addr is_long) LCC_ROLE_TRAIN)\<lparr>snip := Some (g_train_snip version),
          pip_bits := train_pip,
          train := Some ((lcc_train_state_init dcc_addr is_long)\<lparr>tn_pending_search_event := event_id\<rparr>)\<rparr>)"

text \<open>A node already there owes the search an answer, unless it owes one or can give it at once.\<close>

definition note_search :: "u64 \<Rightarrow> (lcc_train_state, 's) lcc_node \<Rightarrow> (lcc_train_state, 's) lcc_node" where
  "note_search event_id node =
     (case train node of
        None \<Rightarrow> node
      | Some t \<Rightarrow>
          (if alias_state node \<noteq> LCC_A_CONFIRMED \<and> tn_pending_search_event t = 0
           then node\<lparr>train := Some (t\<lparr>tn_pending_search_event := event_id\<rparr>)\<rparr> else node))"

definition train_allocator ::
  "'q q_api \<Rightarrow> u8 list \<Rightarrow> ('q station trains lcc_memspace, 'q station) lcc_train_alloc_fn" where
  "train_allocator R version dcc_addr flags event_id s =
     (case s of (nodes, w) \<Rightarrow>
        (case train_find_by_addr dcc_addr nodes (g_train_slots w) of
           Some j \<Rightarrow> (nodes[j := note_search event_id (nodes ! j)], w)
         | None \<Rightarrow>
             (case find (\<lambda>i. g_train_slots w ! i = None) [0..<length (g_train_slots w)] of
                None \<Rightarrow> s
              | Some slot \<Rightarrow>
                  (let is_long = (flags AND LCC_TRAIN_SEARCH_FLAG_LONG_ADDR \<noteq> 0 \<or> dcc_addr > LCC_DCC_SHORT_ADDR_MAX)
                   in case lcc_node_register (new_train_node R version dcc_addr is_long event_id) nodes of
                        (False, nodes') \<Rightarrow> s
                      | (True, nodes') \<Rightarrow>
                          (nodes', on_engine (dcc_ensure_loco dcc_addr is_long)
                             (w\<lparr>g_train_slots := (g_train_slots w)[slot := Some (length nodes)]\<rparr>))))))"

section \<open>Accessories and emergency events\<close>

definition accessory_basic :: "'q q_api \<Rightarrow> u16 \<Rightarrow> bool \<Rightarrow> bool \<Rightarrow> 'q station \<Rightarrow> 'q station" where
  "accessory_basic R addr normal activate = on_engine (dcc_basic_accessory R addr normal activate)"

definition accessory_extended :: "'q q_api \<Rightarrow> u16 \<Rightarrow> u8 \<Rightarrow> 'q station \<Rightarrow> 'q station" where
  "accessory_extended R addr aspect = on_engine (dcc_extended_accessory R addr aspect)"

definition g_accessory_hooks :: "'q q_api \<Rightarrow> 'q station lcc_accessory_hooks" where
  "g_accessory_hooks R = \<lparr>hook_basic = Some (accessory_basic R), hook_extended = Some (accessory_extended R)\<rparr>"

definition on_track :: "bool \<Rightarrow> 'q station \<Rightarrow> 'q station" where
  "on_track on w = w\<lparr>g_track_main := map_option (track_set_power (st_ticks w) on) (g_track_main w)\<rparr>"

definition handle_emergency_event :: "'q q_api \<Rightarrow> u64 \<Rightarrow> 'q station \<Rightarrow> 'q station" where
  "handle_emergency_event R event_id w =
     (if event_id = LCC_EVENT_EMERGENCY_OFF then on_track False w
      else if event_id = LCC_EVENT_CLEAR_EMERG_OFF then on_track True w
      else if event_id = LCC_EVENT_EMERGENCY_STOP then on_engine (dcc_emergency_stop_all R) w
      else if event_id = LCC_EVENT_CLEAR_EMERG_STOP then on_engine dcc_clear_emergency_stop_all w
      else w)"

definition power_event_state :: "u64 \<Rightarrow> 'q station \<Rightarrow> lcc_event_state" where
  "power_event_state event_id w =
     (case g_track_main w of
        None \<Rightarrow> LCC_EVENT_STATE_UNKNOWN
      | Some t \<Rightarrow>
          (let off = (\<not> power_on t)
           in if (event_id = LCC_EVENT_EMERGENCY_OFF) = off then LCC_EVENT_STATE_VALID else LCC_EVENT_STATE_INVALID))"

definition estop_event_state :: "u64 \<Rightarrow> 'q station \<Rightarrow> lcc_event_state" where
  "estop_event_state event_id w =
     (case g_dcc_engine w of
        None \<Rightarrow> LCC_EVENT_STATE_UNKNOWN
      | Some dcc \<Rightarrow>
          (let held = dcc_emergency_stop_all_held dcc
           in if (event_id = LCC_EVENT_EMERGENCY_STOP) = held then LCC_EVENT_STATE_VALID else LCC_EVENT_STATE_INVALID))"

section \<open>Start-up\<close>

text \<open>The eight bytes of the board's ID.\<close>

definition get_unique_node_id :: "u8 list \<Rightarrow> u64" where
  "get_unique_node_id board_id =
     0x0A0000000000 OR shl (u64_of (board_id ! 3)) 32 OR shl (u64_of (board_id ! 4)) 24
     OR shl (u64_of (board_id ! 5)) 16 OR shl (u64_of (board_id ! 6)) 8 OR u64_of (board_id ! 7)"

definition cs_pip :: u64 where
  "cs_pip = LCC_PIP_SIMPLE_PROTOCOL OR LCC_PIP_DATAGRAM OR LCC_PIP_MEMORY_CONFIG OR LCC_PIP_EVENT_EXCHANGE
     OR LCC_PIP_IDENTIFICATION OR LCC_PIP_ABBREVIATED_CDI OR LCC_PIP_SIMPLE_NODE_INFO OR LCC_PIP_CDI"

definition g_cs_node :: "u8 list \<Rightarrow> u8 list \<Rightarrow> 'q train_node" where
  "g_cs_node board_id version =
     lcc_memconfig_register_node_spaces g_cs_node_spaces
       ((lcc_node_init (get_unique_node_id board_id) LCC_ROLE_CS)\<lparr>snip := Some (g_cs_snip version), pip_bits := cs_pip\<rparr>)"

definition register_event ::
  "u64 \<Rightarrow> u64 \<Rightarrow> u8 \<Rightarrow> (u64 \<Rightarrow> 'w \<Rightarrow> 'w) option \<Rightarrow> (u64 \<Rightarrow> 'w \<Rightarrow> lcc_event_state) option \<Rightarrow> 'w lcc_events \<Rightarrow> 'w lcc_events" where
  "register_event node event_id flags on_report state E = snd (lcc_events_register node event_id flags on_report state E)"

definition cs_events :: "'q q_api \<Rightarrow> u64 \<Rightarrow> 'q station lcc_events" where
  "cs_events R node =
     (let E = register_event node LCC_EVENT_IS_PROGRAMMING_TRACK LCC_EVENT_PRODUCER None None lcc_events_reset;
          E = register_event node LCC_EVENT_EMERGENCY_OFF LCC_EVENT_CONSUMER
                (Some (handle_emergency_event R)) (Some power_event_state) E;
          E = register_event node LCC_EVENT_CLEAR_EMERG_OFF LCC_EVENT_CONSUMER
                (Some (handle_emergency_event R)) (Some power_event_state) E;
          E = register_event node LCC_EVENT_EMERGENCY_STOP LCC_EVENT_CONSUMER
                (Some (handle_emergency_event R)) (Some estop_event_state) E
      in register_event node LCC_EVENT_CLEAR_EMERG_STOP LCC_EVENT_CONSUMER
           (Some (handle_emergency_event R)) (Some estop_event_state) E)"

text \<open>
  The station as it comes up: the flush timer of two seconds, running if the configuration
  is dirty already; the hooks of the reboot and the factory reset act on the configuration,
  where \<open>allocated\<close> and \<open>executed\<close> say how the flash write goes.
\<close>

definition flash_timer_start :: "config \<Rightarrow> config" where
  "flash_timer_start c = c\<lparr>flash_flush_timer := Some (2000, cs_config_dirty c)\<rparr>"

definition cs_memconfig :: "u8 list \<Rightarrow> u8 list \<Rightarrow> bool \<Rightarrow> bool \<Rightarrow> 'q station \<Rightarrow> 'q station trains memconfig" where
  "cs_memconfig cdi version allocated executed w =
     lcc_memconfig_set_hooks
       (Some (\<lambda>s. set_config (memcfg_reboot_hook (st_config (snd s))) s))
       (Some (\<lambda>n s. set_config (memcfg_factory_reset_hook allocated executed n (st_config (snd s))) s))
       (lcc_memconfig_register_spaces
          (map on_config (cs_spaces cdi (acdi_mfg_init simple_dcc dcc_command_station rp2350 version)))
          \<lparr>g_spaces = [], g_reboot = None, g_factory_reset = None,
           g_deferred = \<lparr>df_state = DEFERRED_IDLE, df_node = 0, df_src_alias = 0, df_cmd = 0, df_space = 0,
             df_addr = 0, df_error = 0, df_data = []\<rparr>,
           the_rest = (\<lambda>n. None, w)\<rparr>)"

definition lcc_interface_init ::
  "'q q_api \<Rightarrow> u8 list \<Rightarrow> u8 list \<Rightarrow> u8 list \<Rightarrow> bool \<Rightarrow> bool \<Rightarrow> 'q dcc_engine option \<Rightarrow> track option \<Rightarrow>
   'q station \<Rightarrow> 'q station lcc_system" where
  "lcc_interface_init R board_id version cdi allocated executed dcc trk w =
     (let w = w\<lparr>g_dcc_engine := dcc, g_track_main := trk, st_config := flash_timer_start (st_config w),
                g_train_slots := replicate LCC_TRAIN_POOL_SIZE None\<rparr>;
          cs = g_cs_node board_id version
      in case lcc_accessory_init (node_id cs) (g_accessory_hooks R) (cs_events R (node_id cs)) w of
           (E, w) \<Rightarrow>
             \<lparr>sys_nodes = snd (lcc_node_register cs lcc_node_registry_reset),
              sys_mc = cs_memconfig cdi version allocated executed w, sys_events = E, sys_lock = False,
              sys_hooks = g_traction_hooks R, sys_alloc = Some (train_allocator R version)\<rparr>)"

section \<open>The CAN controller's settings\<close>

datatype mcp2515_crystal = MCP2515_CRYSTAL_8MHZ | MCP2515_CRYSTAL_16MHZ
datatype mcp2515_bitrate = MCP2515_BITRATE_125K | MCP2515_BITRATE_250K | MCP2515_BITRATE_500K | MCP2515_BITRATE_1M

text \<open>\<open>mc_spi1\<close>: the second SPI instance; the pins are MISO, MOSI, SCK, CS and INT.\<close>

record mcp2515_config =
  mc_spi1 :: bool
  mc_pins :: "u8 list"
  mc_crystal :: mcp2515_crystal
  mc_bitrate :: mcp2515_bitrate

text \<open>What \<open>mcp2515_lcc_start\<close> is called with, if it is.\<close>

definition lcc_interface_maybe_start_mcp2515 :: "config \<Rightarrow> mcp2515_config option" where
  "lcc_interface_maybe_start_mcp2515 c =
     (case lcc_interface_get_mcp2515 c of (enabled, b) \<Rightarrow>
        if \<not> enabled then None
        else Some \<lparr>mc_spi1 = (b ! 0 = 1), mc_pins = take 5 (drop 1 b),
                   mc_crystal = (if b ! 6 = 1 then MCP2515_CRYSTAL_16MHZ else MCP2515_CRYSTAL_8MHZ),
                   mc_bitrate = (if b ! 7 \<le> 3
                                 then [MCP2515_BITRATE_125K, MCP2515_BITRATE_250K, MCP2515_BITRATE_500K, MCP2515_BITRATE_1M]
                                        ! unat (b ! 7)
                                 else MCP2515_BITRATE_125K)\<rparr>)"

end
