(* ===== verification/Lcc_Bus.thy ===== *)
theory Lcc_Bus
  imports Lcc_If
begin

text \<open>
  The LCC side as the bus sees it: which alias each frame is sent under, and that the station speaks
  only under its own aliases, whatever frames arrive and however the tasks interleave.
\<close>

section \<open>Under whose alias frames are sent\<close>

definition sent_as :: "('t, 's) lcc_node \<Rightarrow> lcc_frame list \<Rightarrow> bool" where
  "sent_as node fs \<longleftrightarrow> (\<forall>f\<in>set fs. lcc_get_src (fr_id f) = node_alias node AND 0xFFF)"

lemma src_of_ids [simp]:
  "lcc_get_src (lcc_can_id mti a) = a AND 0xFFF"
  "lcc_get_src (lcc_control_id a field sq) = a AND 0xFFF"
  "lcc_get_src (lcc_frame_datagram_id t dst a) = a AND 0xFFF"
  by (simp_all add: lcc_can_id_def lcc_control_id_def lcc_frame_datagram_id_def lcc_get_src_def word_bits_simps)

named_theorems sends \<open>frames sent under a node's alias\<close>

lemma sent_as_Nil [sends]: "sent_as node []"
  by (simp add: sent_as_def)

lemma sent_as_append [sends]: "sent_as node fs \<Longrightarrow> sent_as node gs \<Longrightarrow> sent_as node (fs @ gs)"
  by (auto simp: sent_as_def)

lemma sent_as_concat [sends]: "(\<And>x. x \<in> set xs \<Longrightarrow> sent_as node (g x)) \<Longrightarrow> sent_as node (concat (map g xs))"
  by (auto simp: sent_as_def)

lemma sent_as_if [sends]: "(b \<Longrightarrow> sent_as node fs) \<Longrightarrow> (\<not> b \<Longrightarrow> sent_as node gs) \<Longrightarrow> sent_as node (if b then fs else gs)"
  by simp

lemma sent_as_option [sends]:
  "sent_as node fs \<Longrightarrow> (\<And>x. sent_as node (g x)) \<Longrightarrow> sent_as node (case m of None \<Rightarrow> fs | Some x \<Rightarrow> g x)"
  by (cases m) simp_all

lemma sent_as_global [sends]: "sent_as node (lcc_node_send_global node mti bytes)"
  by (simp add: sent_as_def lcc_node_send_global_def)

lemma sent_as_control [sends]: "sent_as node (lcc_node_send_control node field bytes)"
  by (simp add: sent_as_def lcc_node_send_control_def)

lemma addressed_loop_ids: "f \<in> set (addressed_loop i dst first payload) \<Longrightarrow> fr_id f = i"
proof (induction "length payload" arbitrary: payload first rule: less_induct)
  case less
  show ?case
  proof (cases "payload = []")
    case True
    with less.prems have "f \<in> set (addressed_loop i dst False []) \<or> fr_id f = i"
      by (subst (asm) addressed_loop.simps) (auto simp: Let_def split: if_splits)
    then show ?thesis by (subst (asm) addressed_loop.simps) simp
  next
    case False
    with less.prems less.hyps [of "drop 6 payload" False] show ?thesis
      by (subst (asm) addressed_loop.simps) (auto simp: Let_def)
  qed
qed

lemma sent_as_addressed [sends]: "sent_as node (lcc_node_send_addressed node mti dst payload)"
  by (auto simp: sent_as_def lcc_node_send_addressed_def dest!: addressed_loop_ids)

lemma datagram_loop_src: "f \<in> set (datagram_loop dst a payload) \<Longrightarrow> lcc_get_src (fr_id f) = a AND 0xFFF"
proof (induction "length payload" arbitrary: payload rule: less_induct)
  case less
  show ?case
  proof (cases "payload = []")
    case False
    with less.prems less.hyps [of "drop 8 payload"] show ?thesis
      by (subst (asm) datagram_loop.simps) (auto simp: Let_def)
  qed (use less.prems in \<open>simp add: datagram_loop.simps\<close>)
qed

lemma sent_as_datagram [sends]:
  "sent_as node (lcc_datagram_send node dst payload)"
  "sent_as node (lcc_datagram_send_ok_flags node dst flags)"
  "sent_as node (lcc_datagram_send_rejected node dst error)"
  by (auto simp: sent_as_def lcc_datagram_send_def lcc_datagram_send_ok_flags_def lcc_datagram_send_rejected_def
      dest!: datagram_loop_src)

lemma sent_as_identification [sends]:
  "sent_as node (handle_verify_node_id node f)" "sent_as node (handle_ame node f)"
  "sent_as node (lcc_pip_handle node f)" "sent_as node (lcc_snip_handle node f)"
  unfolding handle_verify_node_id_def handle_ame_def lcc_pip_handle_def lcc_snip_handle_def Let_def
  by (intro sends)+

lemma sent_as_identified [sends]: "sent_as node (send_identified node ev state r w)"
  by (simp add: send_identified_def send_global_event_def Let_def sends)

lemma sent_as_identities [sends]:
  "sent_as node (send_is_train node)" "sent_as node (emit_identities_for_node node E w)"
  "sent_as node (handle_single_identify node ev r E w)"
  unfolding emit_identities_for_node_def handle_single_identify_def send_is_train_def send_global_event_def
  by (intro sends)+

lemma sent_as_events [sends]: "sent_as node (fst (lcc_events_handle_frame node f E w))"
  by (simp add: lcc_events_handle_frame_def Let_def sends)

lemma sent_as_claim [sends]: "sent_as node (emit_claim_and_init node E w)"
  unfolding emit_claim_and_init_def lcc_events_announce_def by (intro sends)

lemma sent_as_cid [sends]: "sent_as node (emit_cid_frames node)"
  by (auto simp: sent_as_def emit_cid_frames_def)

lemma sent_as_collision [sends]: "sent_as node (fst (lcc_alias_on_collision node))"
  by (cases "alias_state node") (simp_all add: lcc_alias_on_collision_def sends)

section \<open>Datagrams\<close>

lemma sent_as_reply [sends]: "sent_as node (send_reply node dst cmd space addr error bytes)"
  by (simp add: send_reply_def sends)

lemma sent_as_deferred [sends]:
  "sent_as node (fst (start_deferred node src cmd space addr cnt bytes h d mc))"
  by (simp add: start_deferred_def Let_def sends split: prod.split)

lemma sent_as_read_write [sends]:
  "sent_as node (fst (handle_read node src buf mc))" "sent_as node (fst (handle_write node src buf mc))"
  by (auto simp: handle_read_def handle_write_def Let_def sends split: sum.split option.split prod.split)

lemma sent_as_options [sends]:
  "sent_as node (handle_get_options node src mc)" "sent_as node (handle_get_space_info node src buf mc)"
  by (auto simp: handle_get_options_def handle_get_space_info_def Let_def sends split: option.split prod.split)

lemma sent_as_memconfig [sends]: "sent_as node (fst (lcc_memconfig_handle node src payload mc))"
  by (simp add: lcc_memconfig_handle_def Let_def sends)

lemma sent_as_dispatch [sends]: "sent_as node (fst (snd (lcc_datagram_dispatch node src payload mc)))"
proof (cases "lcc_memconfig_handle node src payload mc")
  case (Pair fs mc')
  then have "sent_as node fs" using sent_as_memconfig [of node src payload mc] by simp
  with Pair show ?thesis by (auto simp: lcc_datagram_dispatch_def intro!: sends split: sum.split)
qed

lemma sent_as_datagram_frame [sends]: "sent_as node (fst (lcc_datagram_handle_frame node frame mc))"
proof -
  have d: "sent_as node (fst (dispatch_and_reset n src bytes mc))" if "node_alias n = node_alias node" for n src bytes
    using sent_as_dispatch [of n src bytes mc] that
    by (auto simp: dispatch_and_reset_def sent_as_def split: prod.split)
  show ?thesis by (auto simp: lcc_datagram_handle_frame_def Let_def intro!: sends d)
qed

text \<open>The node after a frame, and the slot of the deferred request.\<close>

lemma datagram_frame_node:
  "lcc_datagram_handle_frame node frame mc = (fs, node', mc') \<Longrightarrow>
   node' = node\<lparr>dg_rx := dg_rx node'\<rparr>"
  by (auto simp: lcc_datagram_handle_frame_def dispatch_and_reset_def Let_def split: if_splits prod.splits)

definition slot_of :: "u64 \<Rightarrow> 'w memconfig \<Rightarrow> 'w memconfig \<Rightarrow> bool" where
  "slot_of n mc mc' \<longleftrightarrow> df_state (g_deferred mc') = DEFERRED_IDLE \<or> df_node (g_deferred mc') = n \<or>
     (df_state (g_deferred mc) \<noteq> DEFERRED_IDLE \<and> df_node (g_deferred mc') = df_node (g_deferred mc))"

lemma slot_same: "g_deferred mc' = g_deferred mc \<Longrightarrow> slot_of n mc mc'"
  by (auto simp: slot_of_def)

lemma start_deferred_slot:
  "g_deferred mc1 = g_deferred mc \<Longrightarrow>
   slot_of (node_id node) mc (snd (start_deferred node src cmd space addr cnt bytes h d mc1))"
  by (auto simp: start_deferred_def Let_def slot_of_def split: prod.split)

lemma read_write_slot:
  "slot_of (node_id node) mc (snd (handle_read node src buf mc))"
  "slot_of (node_id node) mc (snd (handle_write node src buf mc))"
  by (auto simp: handle_read_def handle_write_def Let_def slot_same start_deferred_slot
      split: sum.split option.split prod.split)

lemma memconfig_slot: "slot_of (node_id node) mc (snd (lcc_memconfig_handle node src payload mc))"
  by (auto simp: lcc_memconfig_handle_def Let_def slot_same read_write_slot handle_update_complete_def
      handle_reboot_def handle_factory_reset_def split: option.split)

lemma dispatch_slot: "slot_of (node_id node) mc (snd (snd (lcc_datagram_dispatch node src payload mc)))"
  using memconfig_slot [of node mc src payload]
  by (auto simp: lcc_datagram_dispatch_def slot_same split: sum.split prod.split)

lemma datagram_frame_slot:
  "slot_of (node_id node) mc (snd (snd (lcc_datagram_handle_frame node frame mc)))"
proof -
  have d: "slot_of (node_id node) mc (snd (snd (dispatch_and_reset n src bytes mc)))" if "node_id n = node_id node" for n src bytes
    using dispatch_slot [of n mc src bytes] that by (auto simp: dispatch_and_reset_def split: prod.split)
  show ?thesis by (auto simp: lcc_datagram_handle_frame_def Let_def slot_same intro!: d)
qed

section \<open>Traction\<close>

text \<open>What the rest of the bus knows a node by.\<close>

definition name_of :: "('t, 's) lcc_node \<Rightarrow> u64 \<times> u16 \<times> lcc_alias_state" where
  "name_of node = (node_id node, node_alias node, alias_state node)"

lemma name_of_train [simp]: "name_of (node\<lparr>train := t\<rparr>) = name_of node" "name_of (node\<lparr>dg_rx := d\<rparr>) = name_of node"
  by (simp_all add: name_of_def)

lemma names_update: "name_of node = name_of (nodes ! i) \<Longrightarrow> map name_of (nodes[i := node]) = map name_of nodes"
  by (cases "i < length nodes") (simp_all add: map_update list_update_same_conv list_update_beyond)

lemma names_set_train [simp]: "map name_of (set_train i t nodes) = map name_of nodes"
  by (simp add: set_train_def names_update)

lemma names_length: "map name_of nodes' = map name_of nodes \<Longrightarrow> length nodes' = length nodes"
  by (metis length_map)

lemma names_alias:
  "map name_of nodes' = map name_of nodes \<Longrightarrow> i < length nodes \<Longrightarrow> name_of (nodes' ! i) = name_of (nodes ! i)"
  by (metis names_length nth_map)

text \<open>An operation of node \<open>i\<close> that keeps every name and sends only as that node.\<close>

definition talks :: "nat \<Rightarrow> ('s, 'w) layout \<Rightarrow> lcc_frame list \<times> ('s, 'w) layout \<Rightarrow> bool" where
  "talks i s r \<longleftrightarrow> map name_of (fst (snd r)) = map name_of (fst s) \<and> sent_as (fst s ! i) (fst r)"

lemma sent_as_name: "name_of n = name_of n' \<Longrightarrow> sent_as n fs = sent_as n' fs"
  by (simp add: sent_as_def name_of_def)

lemma talks_start:
  assumes "map name_of (fst s1) = map name_of (fst s)" and "i < length (fst s)"
  shows "talks i s1 r = talks i s r"
  using sent_as_name [OF names_alias [OF assms]] assms(1) by (simp add: talks_def)

lemma talks_Nil: "talks i s ([], s)"
  by (simp add: talks_def sends)

lemma sent_as_controller [sends]: "sent_as node (fst (on_controller_config node t payload reply_to))"
  by (simp add: on_controller_config_def on_assign_controller_def send_controller_changed_def send_traction_reply_def
      sends split: option.split)

lemma sent_as_consist [sends]: "sent_as node (fst (on_consist_config node t payload reply_to))"
  by (simp add: on_consist_config_def on_consist_attach_def on_consist_detach_def send_traction_reply_def Let_def
      sends split: prod.split)

definition forwards :: "u8 \<Rightarrow> bool" where
  "forwards cmd \<longleftrightarrow> cmd AND 0x7F \<in> {LCC_TRAC_SET_SPEED_DIR, LCC_TRAC_SET_FN, LCC_TRAC_EMERGENCY_STOP}"

lemma dispatch_with_talks:
  assumes fwd: "\<And>s1 cmd bs. forwards cmd \<Longrightarrow> map name_of (fst s1) = map name_of (fst s) \<Longrightarrow>
      talks i s1 (forward i reply_to cmd (cmd # bs) s1)"
    and i: "i < length (fst s)"
  shows "talks i s (dispatch_with forward hooks i reply_to payload s)"
proof (cases "payload = [] \<or> train (fst s ! i) = None")
  case False
  then obtain cmd bs t where p: "payload = cmd # bs" "train (fst s ! i) = Some t"
    by (cases payload) auto
  let ?node = "fst s ! i"
  have f: "talks i s (forward i reply_to cmd (cmd # bs) (set_train i t' (fst s), w))" if "forwards cmd" for t' w
    using fwd [OF that, of "(set_train i t' (fst s), w)" bs] talks_start [of "(set_train i t' (fst s), w)" s i] i by simp
  obtain cs t1 ns t2 where r: "on_controller_config ?node t payload reply_to = (cs, t1)"
      "on_consist_config ?node t payload reply_to = (ns, t2)" by fastforce
  then have "sent_as ?node cs" "sent_as ?node ns"
    using sent_as_controller [of ?node t payload reply_to] sent_as_consist [of ?node t payload reply_to] by simp_all
  then show ?thesis
    using f r by (auto simp: dispatch_with_def p Let_def forwards_def talks_def send_traction_reply_def sends
        split: prod.split option.split)
qed (auto simp: dispatch_with_def talks_def sends split: list.split option.split)

lemma handle_frame_with_talks:
  assumes d: "\<And>s1 payload. map name_of (fst s1) = map name_of (fst s) \<Longrightarrow> talks i s1 (dispatch i src payload s1)"
    and i: "i < length (fst s)" and src: "src = lcc_get_src (fr_id frame)"
  shows "talks i s (handle_frame_with dispatch i frame s)"
proof (cases "train (fst s ! i)")
  case (Some t)
  have whole: "talks i s (dispatch i src payload s)" for payload using d [of s] by simp
  have more: "talks i s (case dispatch i src payload (set_train i t' (fst s), w) of (fs, s') \<Rightarrow>
      (fs, (case train (fst s' ! i) of None \<Rightarrow> s' | Some t' \<Rightarrow> (set_train i (g t') (fst s'), snd s'))))"
    for payload t' w g
    using d [of "(set_train i t' (fst s), w)" payload] talks_start [of "(set_train i t' (fst s), w)" s i] i
    by (auto simp: talks_def split: prod.split option.split)
  show ?thesis
    using whole more by (auto simp: handle_frame_with_def Some Let_def src [symmetric])
      (auto simp: talks_def sends)
qed (simp add: handle_frame_with_def talks_def sends)

text \<open>A slave is silent about a forwarded command.\<close>

lemma listener_silent:
  assumes "forwards cmd"
  shows "fst (dispatch_with (\<lambda>i src cmd payload s. ([], s)) hooks j src ((cmd OR 0x80) # bs) s) = [] \<and>
    map name_of (fst (snd (dispatch_with (\<lambda>i src cmd payload s. ([], s)) hooks j src ((cmd OR 0x80) # bs) s))) =
      map name_of (fst s)"
  using assms listener_bit(2) [of cmd]
  by (auto simp: dispatch_with_def forwards_def Let_def split: option.split prod.split)

lemma forwarded_payload_Cons: "\<exists>bs'. forwarded_payload cmd flags (cmd # bs) = (cmd OR 0x80) # bs'"
  by (auto simp: forwarded_payload_def Let_def lcc_consts)

lemma forward_to_slave_talks:
  assumes "forwards cmd"
  shows "talks src s (forward_to_slave (handle_listener hooks) src dst cmd flags (cmd # bs) s)"
proof -
  obtain bs' where p: "forwarded_payload cmd flags (cmd # bs) = (cmd OR 0x80) # bs'"
    using forwarded_payload_Cons by blast
  let ?f = "\<lparr>fr_id = lcc_can_id LCC_MTI_TRACTION_CONTROL_COMMAND (node_alias (fst s ! src)),
    fr_data = lcc_frame_build_addressed_hdr (node_alias (fst s ! dst)) 0 @ ((cmd OR 0x80) # bs')\<rparr>"
  have single: "lcc_frame_addressed_is_first ?f" "lcc_frame_addressed_is_last ?f"
    by (simp_all add: lcc_frame_addressed_is_first_def lcc_frame_addressed_is_last_def
        lcc_frame_addressed_flags_def lcc_frame_build_addressed_hdr_def lcc_consts word_bits_simps)
  have "fst (handle_listener hooks dst ?f s) = [] \<and>
      map name_of (fst (snd (handle_listener hooks dst ?f s))) = map name_of (fst s)"
    using single listener_silent [OF assms, of hooks dst _ bs' s]
    by (simp add: handle_listener_def handle_frame_with_def Let_def split: option.split)
  then show ?thesis
    by (cases "handle_listener hooks dst ?f s") (auto simp: forward_to_slave_def p Let_def talks_def sends)
qed

lemma forward_slots_talks:
  assumes "forwards cmd" and "src < length (fst s)"
  shows "talks src s (forward_slots (handle_listener hooks) src src_alias cmd (cmd # bs) ks s)"
  using assms(2)
proof (induction ks arbitrary: s)
  case (Cons k ks)
  obtain fs s1 where k: "forward_slot (handle_listener hooks) src src_alias cmd (cmd # bs) k s = (fs, s1)"
    by (cases "forward_slot (handle_listener hooks) src src_alias cmd (cmd # bs) k s") auto
  have "talks src s (forward_slot (handle_listener hooks) src src_alias cmd (cmd # bs) k s)"
    by (auto simp: forward_slot_def Let_def talks_Nil intro!: forward_to_slave_talks [OF assms(1)] split: option.split)
  then have t: "map name_of (fst s1) = map name_of (fst s)" "sent_as (fst s ! src) fs" by (simp_all add: k talks_def)
  have "talks src s (forward_slots (handle_listener hooks) src src_alias cmd (cmd # bs) ks s1)"
    using Cons.IH [of s1] talks_start [OF t(1) Cons.prems] names_length [OF t(1)] Cons.prems by simp
  then show ?case using t(2) by (auto simp: k talks_def sends split: prod.split)
qed (simp add: talks_def sends)

lemma traction_talks:
  assumes "i < length (fst s)"
  shows "talks i s (lcc_traction_handle_frame hooks i frame s)"
proof -
  have fwd: "talks i s1 (forward_to_consist hooks i reply_to cmd (cmd # bs) s1)"
    if "forwards cmd" "map name_of (fst s1) = map name_of (fst s)" for reply_to cmd bs s1
    using forward_slots_talks [OF that(1), of i s1] names_length [OF that(2)] assms
    by (simp add: forward_to_consist_def talks_def sends)
  have "talks i s1 (dispatch_traction hooks i src payload s1)" if "map name_of (fst s1) = map name_of (fst s)" for src payload s1
    unfolding dispatch_traction_def
    by (rule dispatch_with_talks) (use fwd that names_length [OF that] assms in auto)
  then show ?thesis unfolding lcc_traction_handle_frame_def
    by (intro handle_frame_with_talks [OF _ assms refl]) blast
qed

section \<open>The registry and the bus\<close>

text \<open>A node later on: the same ID, and a confirmed alias is kept.\<close>

definition outlives :: "('t, 's) lcc_node \<Rightarrow> ('t, 's) lcc_node \<Rightarrow> bool" where
  "outlives n n' \<longleftrightarrow> node_id n' = node_id n \<and>
     (alias_state n = LCC_A_CONFIRMED \<longrightarrow> alias_state n' = LCC_A_CONFIRMED \<and> node_alias n' = node_alias n)"

definition grows :: "('t, 's) lcc_node list \<Rightarrow> ('t, 's) lcc_node list \<Rightarrow> bool" where
  "grows nodes nodes' \<longleftrightarrow> length nodes \<le> length nodes' \<and> (\<forall>i<length nodes. outlives (nodes ! i) (nodes' ! i))"

text \<open>Each frame comes from the alias of a confirmed node.\<close>

definition voices :: "('t, 's) lcc_node list \<Rightarrow> lcc_frame list \<Rightarrow> bool" where
  "voices nodes fs \<longleftrightarrow> (\<forall>f\<in>set fs. \<exists>node\<in>set nodes.
     alias_state node = LCC_A_CONFIRMED \<and> lcc_get_src (fr_id f) = node_alias node AND 0xFFF)"

definition nodes_ok :: "('t, 's) lcc_node list \<Rightarrow> bool" where
  "nodes_ok nodes \<longleftrightarrow> (\<forall>node\<in>set nodes. alias_node_ok node)"

definition alloc_ok :: "('s, 'w) lcc_train_alloc_fn option \<Rightarrow> bool" where
  "alloc_ok alloc \<longleftrightarrow> (\<forall>g addr fl ev s. alloc = Some g \<longrightarrow>
     grows (fst s) (fst (g addr fl ev s)) \<and> (nodes_ok (fst s) \<longrightarrow> nodes_ok (fst (g addr fl ev s))))"

definition deferred_ok :: "('t, 's) lcc_node list \<Rightarrow> 'w memconfig \<Rightarrow> bool" where
  "deferred_ok nodes mc \<longleftrightarrow> (df_state (g_deferred mc) = DEFERRED_IDLE \<or>
     (\<exists>node\<in>set nodes. node_id node = df_node (g_deferred mc) \<and> alias_state node = LCC_A_CONFIRMED))"

definition lcc_system_ok :: "'v lcc_system \<Rightarrow> bool" where
  "lcc_system_ok sy \<longleftrightarrow> nodes_ok (sys_nodes sy) \<and> deferred_ok (sys_nodes sy) (sys_mc sy) \<and> alloc_ok (sys_alloc sy)"

text \<open>A step of the interface.\<close>

definition orderly :: "'v lcc_system \<Rightarrow> lcc_frame list \<times> 'v lcc_system \<Rightarrow> bool" where
  "orderly sy r \<longleftrightarrow> (lcc_system_ok sy \<longrightarrow> grows (sys_nodes sy) (sys_nodes (snd r)) \<and> lcc_system_ok (snd r) \<and>
     voices (sys_nodes (snd r)) (fst r))"

lemma grows_refl [simp]: "grows nodes nodes"
  by (simp add: grows_def outlives_def)

lemma grows_trans: "grows a b \<Longrightarrow> grows b c \<Longrightarrow> grows a c"
  by (auto simp: grows_def outlives_def)

lemma grows_confirmed:
  assumes "grows nodes nodes'" and "node \<in> set nodes" and "alias_state node = LCC_A_CONFIRMED"
  shows "\<exists>n\<in>set nodes'. alias_state n = LCC_A_CONFIRMED \<and> node_alias n = node_alias node \<and> node_id n = node_id node"
proof -
  obtain i where "i < length nodes" "nodes ! i = node" using assms(2) by (metis in_set_conv_nth)
  then show ?thesis using assms(1,3) by (auto simp: grows_def outlives_def intro!: bexI [of _ "nodes' ! i"])
qed

lemma voices_grows: "voices nodes fs \<Longrightarrow> grows nodes nodes' \<Longrightarrow> voices nodes' fs"
  unfolding voices_def using grows_confirmed by (metis (no_types, lifting))

lemma deferred_grows: "deferred_ok nodes mc \<Longrightarrow> grows nodes nodes' \<Longrightarrow> deferred_ok nodes' mc"
  unfolding deferred_ok_def using grows_confirmed by metis

lemma voices_append [simp]: "voices nodes (fs @ gs) \<longleftrightarrow> voices nodes fs \<and> voices nodes gs"
  by (auto simp: voices_def)

lemma voices_Nil [simp]: "voices nodes []"
  by (simp add: voices_def)

lemma orderly_seq: "orderly sy (fs, sy1) \<Longrightarrow> orderly sy1 (gs, sy2) \<Longrightarrow> orderly sy (fs @ gs, sy2)"
  using grows_trans voices_grows unfolding orderly_def by (metis fst_conv snd_conv voices_append)

lemma orderly_Nil [simp]: "orderly sy ([], sy)"
  by (simp add: orderly_def)

lemma voices_node: "node \<in> set nodes \<Longrightarrow> alias_state node = LCC_A_CONFIRMED \<Longrightarrow> sent_as node fs \<Longrightarrow> voices nodes fs"
  by (auto simp: voices_def sent_as_def)

text \<open>Steps that keep the names.\<close>

lemma names_grows: "map name_of nodes' = map name_of nodes \<Longrightarrow> grows nodes nodes'"
  using names_alias [of nodes' nodes] names_length [of nodes' nodes]
  by (auto simp: grows_def outlives_def name_of_def)

lemma names_ok: "map name_of nodes' = map name_of nodes \<Longrightarrow> nodes_ok nodes \<Longrightarrow> nodes_ok nodes'"
proof -
  assume a: "map name_of nodes' = map name_of nodes" "nodes_ok nodes"
  have "alias_node_ok node" if n: "node \<in> set nodes'" for node
  proof -
    have "name_of node \<in> set (map name_of nodes)" using n by (simp add: a(1) [symmetric])
    then obtain m where "m \<in> set nodes" "name_of m = name_of node" by auto
    then show ?thesis using a(2) by (auto simp: nodes_ok_def alias_node_ok_def name_of_def)
  qed
  then show ?thesis by (simp add: nodes_ok_def)
qed

lemma orderly_names:
  assumes "map name_of (sys_nodes sy') = map name_of (sys_nodes sy)" and "sys_alloc sy' = sys_alloc sy"
    and "lcc_system_ok sy \<Longrightarrow> deferred_ok (sys_nodes sy) (sys_mc sy')"
    and "voices (sys_nodes sy) fs"
  shows "orderly sy (fs, sy')"
proof -
  note g = names_grows [OF assms(1)]
  show ?thesis using g names_ok [OF assms(1)] deferred_grows [OF assms(3) g] voices_grows [OF assms(4) g] assms(2)
    by (simp add: orderly_def lcc_system_ok_def)
qed

lemma on_layout_fields:
  assumes "on_layout f sy = (r, sy')"
  shows "sys_nodes sy' = fst (snd (f (sys_nodes sy, rest_of sy)))" and "g_deferred (sys_mc sy') = g_deferred (sys_mc sy)"
    and "sys_alloc sy' = sys_alloc sy" and "r = fst (f (sys_nodes sy, rest_of sy))"
  using assms by (auto simp: on_layout_def set_rest_def split: prod.splits)

lemma deferred_same: "g_deferred mc' = g_deferred mc \<Longrightarrow> deferred_ok nodes mc' = deferred_ok nodes mc"
  by (simp add: deferred_ok_def)

lemma orderly_layout:
  assumes "map name_of (fst (snd (f (sys_nodes sy, rest_of sy)))) = map name_of (sys_nodes sy)"
    and "voices (sys_nodes sy) (fst (f (sys_nodes sy, rest_of sy)))"
  shows "orderly sy (on_layout f sy)"
proof (cases "on_layout f sy")
  case (Pair r sy')
  note fields = on_layout_fields [OF Pair]
  have "orderly sy (r, sy')"
    by (rule orderly_names) (use assms fields in \<open>simp_all add: lcc_system_ok_def deferred_same [OF fields(2)]\<close>)
  then show ?thesis by (simp only: Pair)
qed

section \<open>A frame at a node\<close>

lemma node_datagram_orderly:
  assumes "i < length (sys_nodes sy)" and "alias_state (sys_nodes sy ! i) = LCC_A_CONFIRMED"
  shows "orderly sy (node_datagram i frame sy)"
proof -
  let ?node = "sys_nodes sy ! i"
  define mc where "mc = (sys_mc sy)\<lparr>the_rest := (\<lambda>n. if n = node_id ?node then train ?node else None, rest_of sy)\<rparr>"
  obtain fs node' mc' where r: "lcc_datagram_handle_frame ?node frame mc = (fs, node', mc')" by (metis prod_cases3)
  have node': "name_of node' = name_of ?node"
    using arg_cong [OF datagram_frame_node [OF r], of name_of] by simp
  have slot: "slot_of (node_id ?node) (sys_mc sy) mc'"
    using datagram_frame_slot [of ?node mc frame] unfolding r snd_conv slot_of_def by (simp add: mc_def)
  have sent: "sent_as ?node fs" using sent_as_datagram_frame [of ?node frame mc] by (simp add: r)
  have in_set: "?node \<in> set (sys_nodes sy)" using assms(1) by simp
  have d: "deferred_ok (sys_nodes sy) mc'" if "lcc_system_ok sy"
    using slot that in_set assms(2) by (auto simp: slot_of_def lcc_system_ok_def deferred_ok_def)
  show ?thesis unfolding node_datagram_def Let_def mc_def [symmetric] r prod.case
    by (rule orderly_names) (use d node' voices_node [OF in_set assms(2) sent] in \<open>simp_all add: set_node_def names_update\<close>)
qed

lemma update_grows:
  assumes "i < length nodes" and "outlives (nodes ! i) node"
  shows "grows nodes (nodes[i := node])"
  using assms by (auto simp: grows_def outlives_def nth_list_update)

lemma update_ok: "nodes_ok nodes \<Longrightarrow> alias_node_ok node \<Longrightarrow> nodes_ok (nodes[i := node])"
  unfolding nodes_ok_def by (metis in_set_conv_nth length_list_update nth_list_update_eq nth_list_update_neq)

lemma handle_control_orderly:
  assumes "i < length (sys_nodes sy)"
  shows "orderly sy (handle_control i f sy)"
proof -
  let ?node = "sys_nodes sy ! i"
  obtain fs node' where c:
    "(if lcc_get_src (fr_id f) = node_alias ?node then lcc_alias_on_collision ?node else ([], ?node)) = (fs, node')"
    by (metis prod.exhaust)
  define n where "n = node'\<lparr>train := map_option (lcc_traction_handle_control f) (train node')\<rparr>"
  have life: "outlives ?node n" and ok: "alias_node_ok ?node \<Longrightarrow> alias_node_ok n"
    using c by (auto simp: n_def outlives_def alias_node_ok_def lcc_alias_on_collision_def
        split: lcc_alias_state.splits if_splits)
  have fs: "sent_as ?node fs \<and> (alias_state ?node = LCC_A_CONFIRMED \<or> fs = [])"
    using c sent_as_collision [of ?node] by (auto simp: lcc_alias_on_collision_def sends
        split: lcc_alias_state.splits if_splits)
  have same: "alias_state n = LCC_A_CONFIRMED \<Longrightarrow> alias_state ?node = LCC_A_CONFIRMED"
    using c by (auto simp: n_def lcc_alias_on_collision_def split: lcc_alias_state.splits if_splits)
  let ?sy = "set_node i n sy"
  have g: "grows (sys_nodes sy) (sys_nodes ?sy)" using update_grows [OF assms life] by (simp add: set_node_def)
  have alias_n: "sent_as n gs = sent_as ?node gs" if "alias_state ?node = LCC_A_CONFIRMED" for gs
    using life that by (simp add: sent_as_def outlives_def)
  have v: "voices (sys_nodes sy) fs" using fs voices_node [of ?node] assms by auto
  have a: "voices (sys_nodes sy) (handle_ame n f)" if "alias_state n = LCC_A_CONFIRMED"
    using voices_node [of ?node "sys_nodes sy" "handle_ame n f"] assms same [OF that] alias_n [OF same [OF that]]
      sent_as_identification(2) [of n f] by simp
  have "orderly sy (gs, ?sy)" if "voices (sys_nodes sy) gs" for gs
    using g voices_grows [OF that g] update_ok [OF _ ok, of "sys_nodes sy" i] deferred_grows [OF _ g, of "sys_mc sy"] assms
    by (auto simp: orderly_def lcc_system_ok_def set_node_def nodes_ok_def)
  moreover have "alias_state node' = alias_state n" by (simp add: n_def)
  ultimately show ?thesis using v a
    by (simp add: handle_control_def Let_def c n_def [symmetric])
qed

lemma node_events_orderly:
  assumes "i < length (sys_nodes sy)" and "alias_state (sys_nodes sy ! i) = LCC_A_CONFIRMED"
  shows "orderly sy (node_events i frame sy)"
proof -
  obtain fs w where r: "lcc_events_handle_frame (sys_nodes sy ! i) frame (sys_events sy) (rest_of sy) = (fs, w)" by fastforce
  have "voices (sys_nodes sy) fs"
    using sent_as_events [of "sys_nodes sy ! i" frame "sys_events sy" "rest_of sy"] voices_node [OF nth_mem [OF assms(1)] assms(2)]
    by (simp add: r)
  then show ?thesis unfolding node_events_def r prod.case
    by (intro orderly_names) (simp_all add: set_rest_def lcc_system_ok_def deferred_ok_def)
qed

lemma traction_orderly:
  assumes "i < length (sys_nodes sy)" and "alias_state (sys_nodes sy ! i) = LCC_A_CONFIRMED"
  shows "orderly sy (on_layout (lcc_traction_handle_frame hooks i frame) sy)"
  using traction_talks [of i "(sys_nodes sy, rest_of sy)" hooks frame] voices_node [OF nth_mem [OF assms(1)] assms(2)] assms(1)
  by (intro orderly_layout) (simp_all add: talks_def)

lemma node_frame_orderly:
  assumes "i < length (sys_nodes sy)"
  shows "orderly sy (lcc_node_handle_frame i frame sy)"
proof (cases "lcc_is_control_frame (fr_id frame)")
  case True
  then show ?thesis using handle_control_orderly [OF assms] by (simp add: lcc_node_handle_frame_def)
next
  case control: False
  show ?thesis
  proof (cases "alias_state (sys_nodes sy ! i) = LCC_A_CONFIRMED")
    case True
    have q: "orderly sy (gs, sy)" if "sent_as (sys_nodes sy ! i) gs" for gs
      using voices_node [OF nth_mem [OF assms] True that] by (simp add: orderly_def)
    show ?thesis
      unfolding lcc_node_handle_frame_def Let_def
      using control True q node_datagram_orderly [OF assms True, of frame] node_events_orderly [OF assms True, of frame]
        traction_orderly [OF assms True, of "sys_hooks sy" frame]
      by (auto simp: sends simp del: lcc_node.select_convs)
  qed (simp add: lcc_node_handle_frame_def control)
qed

section \<open>A frame at the interface\<close>

lemma orderly_length: "orderly sy (fs, sy') \<Longrightarrow> lcc_system_ok sy \<Longrightarrow> length (sys_nodes sy) \<le> length (sys_nodes sy')"
  by (simp add: orderly_def grows_def)

lemma orderly_weaken: "(lcc_system_ok sy \<Longrightarrow> orderly sy r) \<Longrightarrow> orderly sy r"
  by (auto simp: orderly_def)

lemma handle_at_orderly:
  "\<forall>i\<in>set is. i < length (sys_nodes sy) \<Longrightarrow> orderly sy (handle_at is frame sy)"
proof (induction "is" arbitrary: sy)
  case (Cons i "is")
  show ?case
  proof (rule orderly_weaken)
    assume ok: "lcc_system_ok sy"
    obtain fs sy1 where f: "lcc_node_handle_frame i frame sy = (fs, sy1)" by fastforce
    obtain gs sy2 where g: "handle_at is frame sy1 = (gs, sy2)" by fastforce
    have o1: "orderly sy (fs, sy1)" using node_frame_orderly [of i sy frame] Cons.prems by (simp add: f)
    have "\<forall>i\<in>set is. i < length (sys_nodes sy1)"
      using Cons.prems orderly_length [OF o1 ok] by (auto intro: less_le_trans)
    from Cons.IH [OF this] have "orderly sy1 (gs, sy2)" by (simp add: g)
    from orderly_seq [OF o1 this] show "orderly sy (handle_at (i # is) frame sy)" by (simp add: f g)
  qed
qed simp

lemma handle_by_alias_orderly: "orderly sy (handle_by_alias dst frame sy)"
  by (auto simp: handle_by_alias_def lcc_node_find_by_alias_def find_upt_Some intro!: node_frame_orderly split: option.split)

lemma search_node_voices:
  assumes "i < length nodes"
  shows "map name_of (snd (snd (search_node ev i nodes))) = map name_of nodes \<and> voices nodes (fst (snd (search_node ev i nodes)))"
proof -
  have "voices nodes (send_producer_identified_valid (nodes ! i) ev)" if "alias_state (nodes ! i) = LCC_A_CONFIRMED"
    using voices_node [OF nth_mem [OF assms] that] by (simp add: send_producer_identified_valid_def sends)
  then show ?thesis by (simp add: search_node_def Let_def split: option.split)
qed

lemma voices_names:
  fixes nodes nodes' :: "('t, 's) lcc_node list"
  shows "map name_of nodes' = map name_of nodes \<Longrightarrow> voices nodes' fs = voices nodes fs"
  using voices_grows [of nodes fs nodes'] voices_grows [of nodes' fs nodes] names_grows [of nodes' nodes]
    names_grows [of nodes nodes'] by auto

lemma search_nodes_voices:
  assumes "\<forall>i\<in>set is. i < length nodes"
  shows "map name_of (snd (snd (search_nodes ev is nodes))) = map name_of nodes \<and> voices nodes (fst (snd (search_nodes ev is nodes)))"
  using assms
proof (induction "is" arbitrary: nodes)
  case (Cons i "is")
  obtain m fs nodes1 where n: "search_node ev i nodes = (m, fs, nodes1)" by (metis prod_cases3)
  have h: "map name_of nodes1 = map name_of nodes" "voices nodes fs"
    using search_node_voices [of i nodes ev] Cons.prems by (simp_all add: n)
  show ?case using Cons.IH [of nodes1] Cons.prems h names_length [OF h(1)] voices_names [OF h(1)]
    by (auto simp: n split: prod.split)
qed simp

text \<open>A step that hands the registry to the allocator at its end.\<close>

lemma orderly_alloc:
  assumes "map name_of nodes1 = map name_of (sys_nodes sy)" and "sys_alloc sy = Some g"
    and "sys_nodes sy' = fst (g addr fl ev (nodes1, w))" and "g_deferred (sys_mc sy') = g_deferred (sys_mc sy)"
    and "sys_alloc sy' = sys_alloc sy" and "voices (sys_nodes sy) fs"
  shows "orderly sy (fs, sy')"
proof -
  have "grows (sys_nodes sy) (sys_nodes sy') \<and> nodes_ok (sys_nodes sy')" if "lcc_system_ok sy"
  proof -
    have a: "grows nodes1 (sys_nodes sy')" "nodes_ok nodes1 \<Longrightarrow> nodes_ok (sys_nodes sy')"
      using that assms(2) unfolding assms(3) lcc_system_ok_def alloc_ok_def by (metis fst_conv)+
    then show ?thesis using that grows_trans [OF names_grows [OF assms(1)]] names_ok [OF assms(1)]
      by (simp add: lcc_system_ok_def)
  qed
  then show ?thesis
    using voices_grows [OF assms(6)] deferred_grows [of "sys_nodes sy" "sys_mc sy" "sys_nodes sy'"] assms(5)
      deferred_same [OF assms(4)]
    by (auto simp: orderly_def lcc_system_ok_def)
qed

lemma layout_search_orderly: "orderly sy (on_layout (lcc_train_search_dispatch (sys_alloc sy) ev) sy)"
proof -
  obtain m fs nodes where s: "search_nodes ev [0..<length (sys_nodes sy)] (sys_nodes sy) = (m, fs, nodes)" by (metis prod_cases3)
  have n: "map name_of nodes = map name_of (sys_nodes sy)" "voices (sys_nodes sy) fs"
    using search_nodes_voices [of "[0..<length (sys_nodes sy)]" "sys_nodes sy" ev] by (simp_all add: s)
  obtain gs sy' where r: "on_layout (lcc_train_search_dispatch (sys_alloc sy) ev) sy = (gs, sy')" by fastforce
  note fields = on_layout_fields [OF r]
  show ?thesis
  proof (cases "\<not> lcc_train_search_is_event ev \<or> has_reserved_values (extract_digits ev) (lcc_train_search_flags ev)")
    case True
    then show ?thesis by (intro orderly_layout) (auto simp: lcc_train_search_dispatch_def Let_def)
  next
    case valid: False
    show ?thesis
    proof (cases "m \<or> lcc_train_search_flags ev AND LCC_TRAIN_SEARCH_FLAG_ALLOCATE = 0 \<or> sys_alloc sy = None")
      case True
      then show ?thesis using valid n
        by (intro orderly_layout) (auto simp: lcc_train_search_dispatch_def Let_def s split: option.split)
    next
      case False
      then obtain g where g: "sys_alloc sy = Some g" by auto
      have "orderly sy (gs, sy')" unfolding fields(4)
        by (rule orderly_alloc [OF n(1) g _ fields(2,3)])
          (use False valid n(2) fields(1) g in \<open>auto simp: lcc_train_search_dispatch_def Let_def s\<close>)
      then show ?thesis by (simp only: r)
    qed
  qed
qed

lemma global_search_orderly: "orderly sy (global_search frame sy)"
  by (simp add: global_search_def layout_search_orderly)

lemma global_probe_orderly: "orderly sy ([], global_probe frame sy)"
proof (cases "lcc_get_mti (fr_id frame) = LCC_MTI_VERIFY_NODE_ID_GLOBAL \<and> dlc frame = 6")
  case True
  let ?f = "\<lambda>s. ((), lcc_train_search_ensure_by_node_id (sys_alloc sy) (lcc_node_id_from_buf (fr_data frame)) s)"
  obtain r sy' where r: "on_layout ?f sy = (r, sy')" by (metis prod.exhaust)
  note fields = on_layout_fields [OF r]
  have "orderly sy ([], sy')"
  proof (cases "sys_nodes sy' = sys_nodes sy")
    case True
    then show ?thesis using fields(2,3)
      by (intro orderly_names) (simp_all add: lcc_system_ok_def deferred_same [OF fields(2)])
  next
    case False
    then obtain g addr fl ev where "sys_alloc sy = Some g" "sys_nodes sy' = fst (g addr fl ev (sys_nodes sy, rest_of sy))"
      using fields(1) by (auto simp: lcc_train_search_ensure_by_node_id_def Let_def split: if_splits option.splits)
    from orderly_alloc [OF refl this fields(2,3)] show ?thesis by simp
  qed
  then show ?thesis using True by (simp add: global_probe_def r)
qed (auto simp: global_probe_def)

lemma lcc_if_dispatch_orderly: "orderly sy (lcc_if_dispatch frame sy)"
proof (rule orderly_weaken)
  assume ok: "lcc_system_ok sy"
  obtain fs sy1 where s: "global_search frame sy = (fs, sy1)" by fastforce
  obtain gs sy3 where h: "handle_at [0..<length (sys_nodes sy)] frame (global_probe frame sy1) = (gs, sy3)" by fastforce
  have o1: "orderly sy (fs, sy1)" using global_search_orderly [of sy frame] by (simp add: s)
  from orderly_seq [OF o1 global_probe_orderly] have o2: "orderly sy (fs, global_probe frame sy1)" by simp
  have "orderly (global_probe frame sy1) (gs, sy3)"
    using handle_at_orderly [of "[0..<length (sys_nodes sy)]" "global_probe frame sy1" frame] orderly_length [OF o2 ok]
    by (simp add: h)
  from orderly_seq [OF o2 this] show "orderly sy (lcc_if_dispatch frame sy)"
    by (simp add: lcc_if_dispatch_def Let_def s h handle_at_orderly handle_by_alias_orderly)
qed

section \<open>The other work of a turn\<close>

lemma flush_deferred_orderly: "orderly sy (flush_deferred sy)"
proof (rule orderly_weaken)
  assume ok: "lcc_system_ok sy"
  let ?d = "g_deferred (sys_mc sy)"
  let ?p = "\<lambda>node. node_id node = df_node ?d \<and> alias_state node = LCC_A_CONFIRMED"
  show "orderly sy (flush_deferred sy)"
  proof (cases "df_state ?d = DEFERRED_DONE")
    case True
    then have "find ?p (sys_nodes sy) \<noteq> None" using ok by (auto simp: lcc_system_ok_def deferred_ok_def find_None_iff)
    then obtain node where n: "find ?p (sys_nodes sy) = Some node" by auto
    then have "node \<in> set (sys_nodes sy)" "?p node" by (auto simp: find_Some_iff)
    then have "voices (sys_nodes sy) (send_reply node (df_src_alias ?d) (df_cmd ?d) (df_space ?d) (df_addr ?d) (df_error ?d) (df_data ?d))"
      by (intro voices_node [of node]) (simp_all add: sends)
    then show ?thesis using True n
      unfolding flush_deferred_def lcc_memconfig_flush_deferred_def Let_def
      by (simp add: orderly_names lcc_system_ok_def deferred_ok_def)
  qed (simp add: flush_deferred_def lcc_memconfig_flush_deferred_def Let_def)
qed

lemma flush_node_voices:
  assumes "i < length nodes"
  shows "map name_of (snd (flush_node i nodes)) = map name_of nodes \<and> voices nodes (fst (flush_node i nodes))"
proof -
  have "voices nodes (send_producer_identified_valid (nodes ! i) ev)" if "alias_state (nodes ! i) = LCC_A_CONFIRMED" for ev
    using voices_node [OF nth_mem [OF assms] that] by (simp add: send_producer_identified_valid_def sends)
  then show ?thesis by (simp add: flush_node_def Let_def split: option.split)
qed

lemma flush_nodes_voices:
  assumes "\<forall>i\<in>set is. i < length nodes"
  shows "map name_of (snd (flush_nodes is nodes)) = map name_of nodes \<and> voices nodes (fst (flush_nodes is nodes))"
  using assms
proof (induction "is" arbitrary: nodes)
  case (Cons i "is")
  obtain fs nodes1 where n: "flush_node i nodes = (fs, nodes1)" by fastforce
  have h: "map name_of nodes1 = map name_of nodes" "voices nodes fs"
    using flush_node_voices [of i nodes] Cons.prems by (simp_all add: n)
  show ?case using Cons.IH [of nodes1] Cons.prems h names_length [OF h(1)] voices_names [OF h(1)]
    by (auto simp: n split: prod.split)
qed simp

lemma flush_searches_orderly: "orderly sy (flush_searches sy)"
proof -
  obtain fs nodes where r: "lcc_train_search_flush_pending (sys_nodes sy) = (fs, nodes)" by fastforce
  then have "map name_of nodes = map name_of (sys_nodes sy)" "voices (sys_nodes sy) fs"
    using flush_nodes_voices [of "[0..<length (sys_nodes sy)]" "sys_nodes sy"]
    by (simp_all add: lcc_train_search_flush_pending_def)
  then show ?thesis unfolding flush_searches_def r prod.case
    by (intro orderly_names) (simp_all add: lcc_system_ok_def)
qed

lemma reannounce_voices: "voices nodes (reannounce_all_confirmed E w nodes)"
proof -
  have "voices nodes (lcc_alias_reannounce node E w)" if "node \<in> set nodes" "alias_state node = LCC_A_CONFIRMED" for node
    using voices_node [OF that] by (simp add: lcc_alias_reannounce_def that sends)
  then show ?thesis by (auto simp: reannounce_all_confirmed_def voices_def split: if_splits)
qed

section \<open>The alias tick\<close>

text \<open>A frame of a negotiating or confirmed node.\<close>

definition announces :: "('t, 's) lcc_node list \<Rightarrow> lcc_frame list \<Rightarrow> bool" where
  "announces nodes fs \<longleftrightarrow> (\<forall>f\<in>set fs. \<exists>node\<in>set nodes. lcc_get_src (fr_id f) = node_alias node AND 0xFFF \<and>
     (alias_state node = LCC_A_CONFIRMED \<or> alias_state node = LCC_A_CID \<and> lcc_is_control_frame (fr_id f)))"

lemma voices_announces: "voices nodes fs \<Longrightarrow> announces nodes fs"
  by (auto simp: voices_def announces_def)

lemma announces_append [simp]: "announces nodes (fs @ gs) \<longleftrightarrow> announces nodes fs \<and> announces nodes gs"
  by (auto simp: announces_def)

lemma announces_mono: "announces nodes fs \<Longrightarrow> set nodes \<subseteq> set nodes' \<Longrightarrow> announces nodes' fs"
  by (fastforce simp: announces_def)

lemma control_id_control: "lcc_is_control_frame (lcc_control_id a field sq)"
  by (simp add: lcc_control_id_def lcc_is_control_frame_def word_bits_simps)

lemma alias_tick_node:
  assumes "lcc_alias_tick E w node held = (fs, node', held')" and "alias_state node \<noteq> LCC_A_CONFIRMED"
  shows "outlives node node' \<and> (alias_node_ok node \<longrightarrow> alias_node_ok node') \<and> announces [node'] fs"
proof -
  have "alias_node_ok node \<longrightarrow> alias_node_ok node'"
    using node_step_ok [of node E w "Own_Tick held"] assms(1) by (simp add: node_step_def)
  moreover have "node_id node' = node_id node"
    using assms(1) by (cases "alias_state node")
      (auto simp: lcc_alias_tick_def Let_def lcc_if_alias_try_lock_def split: bool.splits if_splits)
  moreover have "announces [node'] fs"
  proof (cases "alias_state node")
    case LCC_A_IDLE
    then have "fs = [] \<or> alias_state node' = LCC_A_CID \<and> sent_as node' fs \<and> (\<forall>f\<in>set fs. lcc_is_control_frame (fr_id f))"
      using assms(1)
      by (auto simp: control_id_control lcc_alias_tick_def Let_def lcc_if_alias_try_lock_def sent_as_def emit_cid_frames_def
          split: bool.splits if_splits)
    then show ?thesis by (auto simp: announces_def sent_as_def)
  next
    case LCC_A_WAIT
    then have "fs = [] \<or> alias_state node' = LCC_A_CONFIRMED \<and> sent_as node' fs"
      using assms(1) sent_as_claim [of "node\<lparr>alias_wait_ticks := alias_wait_ticks node + 1\<rparr>" E w]
      by (auto simp: lcc_alias_tick_def Let_def sent_as_def split: if_splits)
    then show ?thesis by (auto simp: announces_def sent_as_def)
  qed (use assms(1) in \<open>auto simp: lcc_alias_tick_def announces_def Let_def split: if_splits\<close>)
  ultimately show ?thesis using assms(2) by (simp add: outlives_def)
qed

lemma alias_tick_all_ok:
  assumes "alias_tick_all E w nodes held = (fs, nodes', held')"
  shows "list_all2 outlives nodes nodes' \<and> (nodes_ok nodes \<longrightarrow> nodes_ok nodes') \<and> announces nodes' fs"
  using assms
proof (induction nodes arbitrary: held fs nodes' held')
  case (Cons node nodes)
  define tick where "tick = (if alias_state node \<noteq> LCC_A_CONFIRMED then lcc_alias_tick E w node held else ([], node, held))"
  obtain fs1 node1 held1 where t: "tick = (fs1, node1, held1)" by (cases tick) auto
  obtain fs2 nodes2 held2 where a: "alias_tick_all E w nodes held1 = (fs2, nodes2, held2)"
    by (cases "alias_tick_all E w nodes held1") auto
  have res: "fs = fs1 @ fs2" "nodes' = node1 # nodes2" using Cons.prems t a by (simp_all add: tick_def)
  have "outlives node node1 \<and> (alias_node_ok node \<longrightarrow> alias_node_ok node1) \<and> announces [node1] fs1"
    using t alias_tick_node [of E w node held fs1 node1 held1]
    by (auto simp: tick_def outlives_def announces_def split: if_splits)
  moreover have "announces (node1 # nodes2) fs1" if "announces [node1] fs1"
    by (rule announces_mono [OF that]) simp
  moreover have "announces (node1 # nodes2) fs2" if "announces nodes2 fs2"
    by (rule announces_mono [OF that]) auto
  ultimately show ?case using Cons.IH [OF a] by (simp add: res nodes_ok_def)
qed (simp add: nodes_ok_def announces_def)

lemma list_outlives: "list_all2 outlives nodes nodes' \<Longrightarrow> grows nodes nodes'"
  by (simp add: grows_def list_all2_conv_all_nth)

lemma tick_aliases_ok:
  assumes "tick_aliases sy = (fs, sy')" and "lcc_system_ok sy"
  shows "grows (sys_nodes sy) (sys_nodes sy') \<and> lcc_system_ok sy' \<and> announces (sys_nodes sy') fs"
proof -
  obtain fs' nodes' held' where t: "alias_tick_all (sys_events sy) (rest_of sy) (sys_nodes sy) (sys_lock sy) = (fs', nodes', held')"
    by (metis prod_cases3)
  then have e: "fs = fs'" "sy' = sy\<lparr>sys_nodes := nodes', sys_lock := held'\<rparr>"
    using assms(1) by (simp_all add: tick_aliases_def)
  note a = alias_tick_all_ok [OF t]
  then have g: "grows (sys_nodes sy) nodes'" by (simp add: list_outlives)
  show ?thesis using a g deferred_grows [OF _ g, of "sys_mc sy"] assms(2) by (simp add: e lcc_system_ok_def)
qed

section \<open>A turn of the task\<close>

text \<open>Frames from the station's own aliases.\<close>

definition own_frames :: "'v lcc_system \<Rightarrow> lcc_frame list \<Rightarrow> bool" where
  "own_frames sy fs \<longleftrightarrow> (\<forall>f\<in>set fs. \<exists>node\<in>set (sys_nodes sy). lcc_get_src (fr_id f) = node_alias node \<and>
     (alias_state node = LCC_A_CONFIRMED \<or> alias_state node = LCC_A_CID \<and> lcc_is_control_frame (fr_id f)))"

lemma announces_own:
  assumes "announces (sys_nodes sy) fs" and "lcc_system_ok sy"
  shows "own_frames sy fs"
proof -
  have e: "node_alias node AND 0xFFF = node_alias node"
    if "node \<in> set (sys_nodes sy)" "alias_state node \<noteq> LCC_A_IDLE" for node
  proof -
    have "node_alias node < 2 ^ 12" using assms(2) that by (auto simp: lcc_system_ok_def nodes_ok_def alias_node_ok_def is_alias_def)
    then have "node_alias node AND mask 12 = node_alias node" by (intro less_mask_eq) simp_all
    then show ?thesis by (simp add: mask_numeral)
  qed
  show ?thesis unfolding own_frames_def
  proof
    fix f assume "f \<in> set fs"
    then obtain node where n: "node \<in> set (sys_nodes sy)" "lcc_get_src (fr_id f) = node_alias node AND 0xFFF"
        "alias_state node = LCC_A_CONFIRMED \<or> alias_state node = LCC_A_CID \<and> lcc_is_control_frame (fr_id f)"
      using assms(1) unfolding announces_def by blast
    then have "alias_state node \<noteq> LCC_A_IDLE" by auto
    then show "\<exists>node\<in>set (sys_nodes sy). lcc_get_src (fr_id f) = node_alias node \<and>
        (alias_state node = LCC_A_CONFIRMED \<or> alias_state node = LCC_A_CID \<and> lcc_is_control_frame (fr_id f))"
      using n e [OF n(1)] by (intro bexI [of _ node]) auto
  qed
qed

lemma announces_names: "map name_of nodes' = map name_of nodes \<Longrightarrow> announces nodes fs \<Longrightarrow> announces nodes' fs"
proof -
  assume n: "map name_of nodes' = map name_of nodes" and a: "announces nodes fs"
  have "\<exists>m\<in>set nodes'. node_alias m = node_alias node \<and> alias_state m = alias_state node" if "node \<in> set nodes" for node
  proof -
    have "name_of node \<in> set (map name_of nodes')" using that by (simp add: n)
    then show ?thesis by (auto simp: name_of_def)
  qed
  with a show ?thesis unfolding announces_def by metis
qed

lemma lcc_task_turn_ok:
  assumes "lcc_task_turn rx t c (task, sy) = (fs, task', sy')" and "lcc_system_ok sy"
  shows "lcc_system_ok sy' \<and> own_frames sy' fs \<and> grows (sys_nodes sy) (sys_nodes sy')"
proof -
  obtain fs1 sy1 where d: "(case rx of Some frame \<Rightarrow> lcc_if_dispatch frame sy | None \<Rightarrow> ([], sy)) = (fs1, sy1)"
    by (metis prod.exhaust)
  obtain fs2 sy2 where f: "flush_deferred sy1 = (fs2, sy2)" by fastforce
  have "orderly sy (fs1, sy1)" using d lcc_if_dispatch_orderly [of sy] by (cases rx) (simp_all, metis)
  moreover have "orderly sy1 (fs2, sy2)" using flush_deferred_orderly [of sy1] by (simp add: f)
  ultimately have "orderly sy (fs1 @ fs2, sy2)" by (rule orderly_seq)
  then have o2: "lcc_system_ok sy2" "voices (sys_nodes sy2) (fs1 @ fs2)" "grows (sys_nodes sy) (sys_nodes sy2)"
    using assms(2) by (simp_all add: orderly_def)
  show ?thesis
  proof (cases "sint (t - next_tick task) \<ge> 0")
    case True
    define fs3 where "fs3 = (if c \<and> \<not> prev_connected task
      then reannounce_all_confirmed (sys_events sy2) (rest_of sy2) (sys_nodes sy2) else [])"
    obtain fs4 sy4 where k: "tick_aliases sy2 = (fs4, sy4)" by fastforce
    obtain fs5 nodes where s: "lcc_train_search_flush_pending (sys_nodes sy4) = (fs5, nodes)" by fastforce
    have res: "fs = fs1 @ fs2 @ fs3 @ fs4 @ fs5" "sy' = sy4\<lparr>sys_nodes := nodes\<rparr>"
      using assms(1) True by (simp_all add: lcc_task_turn_def d f fs3_def k s flush_searches_def)
    note t4 = tick_aliases_ok [OF k o2(1)]
    have "voices (sys_nodes sy2) fs3" by (simp add: fs3_def reannounce_voices)
    then have "voices (sys_nodes sy4) (fs1 @ fs2 @ fs3)" using o2(2) voices_grows [OF _ conjunct1 [OF t4]] by simp
    then have a: "announces (sys_nodes sy4) (fs1 @ fs2 @ fs3 @ fs4)" using t4 voices_announces by auto
    have n: "map name_of nodes = map name_of (sys_nodes sy4)" "voices (sys_nodes sy4) fs5"
      using flush_nodes_voices [of "[0..<length (sys_nodes sy4)]" "sys_nodes sy4"] s
      by (simp_all add: lcc_train_search_flush_pending_def)
    have "orderly sy4 (fs5, sy')" unfolding res(2)
      using n by (intro orderly_names) (simp_all add: lcc_system_ok_def)
    then have ok: "lcc_system_ok sy'" "grows (sys_nodes sy4) (sys_nodes sy')" using t4 by (simp_all add: orderly_def)
    have g: "grows (sys_nodes sy) (sys_nodes sy')" using o2(3) t4 ok(2) grows_trans by metis
    have "announces (sys_nodes sy') fs"
      using announces_names [OF n(1), of "fs1 @ fs2 @ fs3 @ fs4 @ fs5"] a voices_announces [OF n(2)] by (simp add: res)
    with ok(1) g show ?thesis by (simp add: announces_own)
  next
    case False
    then show ?thesis using assms(1) o2 announces_own [OF voices_announces [OF o2(2)] o2(1)]
      by (auto simp: lcc_task_turn_def d f)
  qed
qed

section \<open>The task over time\<close>

text \<open>
  What the interface sees: a turn, the completion of a deferred request by another task, and
  other tasks changing the rest of the program.
\<close>

datatype 'v lcc_input =
    Turn_With "lcc_frame option" u32 bool
  | Complete_Deferred u16 "u8 list option"
  | Elsewhere 'v

text \<open>The frames of the last turn are kept with the state.\<close>

definition lcc_task_step ::
  "'v lcc_input \<Rightarrow> lcc_frame list \<times> lcc_task \<times> 'v lcc_system \<Rightarrow> lcc_frame list \<times> lcc_task \<times> 'v lcc_system" where
  "lcc_task_step inp s =
     (case s of (fs, task, sy) \<Rightarrow>
        (case inp of
           Turn_With rx now_tick usb \<Rightarrow> lcc_task_turn rx now_tick usb (task, sy)
         | Complete_Deferred error bytes \<Rightarrow> ([], task, sy\<lparr>sys_mc := lcc_memconfig_complete error bytes (sys_mc sy)\<rparr>)
         | Elsewhere v \<Rightarrow> ([], task, set_rest v sy)))"

text \<open>The interface before its first turn: registered nodes, no alias, nothing outstanding.\<close>

definition lcc_started :: "lcc_frame list \<times> lcc_task \<times> 'v lcc_system \<Rightarrow> bool" where
  "lcc_started s \<longleftrightarrow> (case s of (fs, task, sy) \<Rightarrow> fs = [] \<and> alloc_ok (sys_alloc sy) \<and>
     df_state (g_deferred (sys_mc sy)) = DEFERRED_IDLE \<and>
     (\<forall>node\<in>set (sys_nodes sy). alias_state node = LCC_A_IDLE \<and> node_alias node = 0))"

definition lcc_bus_ok :: "lcc_frame list \<times> lcc_task \<times> 'v lcc_system \<Rightarrow> bool" where
  "lcc_bus_ok s \<longleftrightarrow> (case s of (fs, task, sy) \<Rightarrow> lcc_system_ok sy \<and> own_frames sy fs)"

lemma lcc_task_step_ok: "lcc_bus_ok s \<Longrightarrow> lcc_bus_ok (lcc_task_step inp s)"
proof -
  assume "lcc_bus_ok s"
  then obtain fs task sy where s: "s = (fs, task, sy)" "lcc_system_ok sy" by (auto simp: lcc_bus_ok_def)
  show "lcc_bus_ok (lcc_task_step inp s)"
  proof (cases inp)
    case (Turn_With rx t c)
    obtain fs' task' sy' where r: "lcc_task_turn rx t c (task, sy) = (fs', task', sy')" by (metis prod_cases3)
    show ?thesis using lcc_task_turn_ok [OF r s(2)] by (simp add: lcc_bus_ok_def lcc_task_step_def s(1) Turn_With r)
  qed (use s in \<open>auto simp: lcc_bus_ok_def lcc_task_step_def own_frames_def lcc_system_ok_def deferred_ok_def
      set_rest_def lcc_memconfig_complete_def\<close>)
qed

lemma lcc_started_ok: "lcc_started s \<Longrightarrow> lcc_bus_ok s"
  by (auto simp: lcc_started_def lcc_bus_ok_def lcc_system_ok_def own_frames_def nodes_ok_def deferred_ok_def alias_node_ok_def)

interpretation lcc_task: invariant_system lcc_started lcc_task_step lcc_bus_ok
  by unfold_locales (erule lcc_started_ok, erule lcc_task_step_ok)

text \<open>
  C6: The station speaks only under its own aliases. Whatever frames come in from the bus,
  however the turns, the ends of deferred requests and the changes other tasks make to the rest
  of the program are interleaved: every frame the LCC task sends has as its source the alias of
  a registered node that is confirmed at the end of the turn, or is a Check ID frame of a node
  that is negotiating for that alias. The allocator is only relied on to keep the registered
  nodes and to add nodes without an alias.
\<close>

theorem frames_from_own_aliases:
  assumes "lcc_started s0" and "fold lcc_task_step inputs s0 = (fs, task, sy)" and "f \<in> set fs"
  shows "\<exists>node\<in>set (sys_nodes sy). lcc_get_src (fr_id f) = node_alias node \<and>
    (alias_state node = LCC_A_CONFIRMED \<or> alias_state node = LCC_A_CID \<and> lcc_is_control_frame (fr_id f))"
  using lcc_task.inv_reachable [OF assms(1), of inputs] assms(2,3) by (simp add: lcc_bus_ok_def own_frames_def)

text \<open>A station with one node, which negotiates in its first turn.\<close>

definition lone_station :: "lcc_frame list \<times> lcc_task \<times> unit lcc_system" where
  "lone_station = ([], \<lparr>next_tick = 0, prev_connected = False\<rparr>,
     \<lparr>sys_nodes = [lcc_node_init 0x0A0000000001 LCC_ROLE_CS],
      sys_mc = \<lparr>g_spaces = [], g_reboot = None, g_factory_reset = None, g_deferred = g_deferred bare_memconfig,
                the_rest = (\<lambda>n. None, ())\<rparr>,
      sys_events = lcc_events_reset, sys_lock = False,
      sys_hooks = \<lparr>hk_set_throttle = None, hk_set_function = None, hk_emergency_stop = None, hk_global_estop_held = None,
        hk_pom_write_byte = None, hk_pom_write_long_address = None, hk_pom_write_consist = None,
        hk_pom_write_long_consist = None, hk_pom_read_byte = None\<rparr>,
      sys_alloc = None\<rparr>)"

theorem frames_from_own_aliases_witness:
  "\<exists>fs task sy. fold lcc_task_step [Turn_With None 100 False] lone_station = (fs, task, sy) \<and> length fs = 4 \<and>
     (\<exists>node\<in>set (sys_nodes sy). lcc_get_src (fr_id (hd fs)) = node_alias node)"
proof -
  have s: "lcc_started lone_station"
    by (simp add: lcc_started_def lone_station_def alloc_ok_def lcc_node_init_def bare_memconfig_def)
  obtain fs task sy where r: "fold lcc_task_step [Turn_With None 100 False] lone_station = (fs, task, sy)"
    by (metis prod_cases3)
  have "length fs = 4"
    using r by (auto simp: lone_station_def lcc_task_step_def lcc_task_turn_def flush_deferred_def bare_memconfig_def
        lcc_memconfig_flush_deferred_def Let_def tick_aliases_def lcc_node_init_def lcc_alias_tick_def
        lcc_if_alias_try_lock_def emit_cid_frames_def flush_searches_def
        lcc_train_search_flush_pending_def flush_node_def split: prod.splits)
  moreover from this have "hd fs \<in> set fs" by (cases fs) auto
  from frames_from_own_aliases [OF s r this] have "\<exists>node\<in>set (sys_nodes sy). lcc_get_src (fr_id (hd fs)) = node_alias node"
    by blast
  ultimately show ?thesis using r by blast
qed

end
