(* ===== verification/Lcc_Rest.thy ===== *)
theory Lcc_Rest
  imports Lcc_Bus
begin

text \<open>
  What the LCC side may do to the rest of the program: the locale \<open>rest_relation\<close>, a relation between
  the states of the rest that every hook, event handler, memory space and the allocator respects, and
  that every turn of the task then respects. Theory \<open>Station_Safety\<close> interprets it on the DCC engine.
\<close>

section \<open>What may change the rest of the program\<close>

text \<open>
  A relation \<open>Q\<close> between the states of the rest of the program: every hook, event handler,
  memory space and allocator the interface is given moves the rest within \<open>Q\<close>.
\<close>

definition hooks_keep :: "('v \<Rightarrow> 'v \<Rightarrow> bool) \<Rightarrow> 'v lcc_traction_hooks \<Rightarrow> bool" where
  "hooks_keep Q hooks \<longleftrightarrow>
     (\<forall>f a l st d w. hk_set_throttle hooks = Some f \<longrightarrow> Q w (f a l st d w)) \<and>
     (\<forall>f a l n on w. hk_set_function hooks = Some f \<longrightarrow> Q w (f a l n on w)) \<and>
     (\<forall>f a l w. hk_emergency_stop hooks = Some f \<longrightarrow> Q w (f a l w))"

definition space_keeps :: "('v \<Rightarrow> 'v \<Rightarrow> bool) \<Rightarrow> 'v trains lcc_memspace \<Rightarrow> bool" where
  "space_keeps Q h \<longleftrightarrow>
     (\<forall>f n a c s. ms_read h = Some f \<longrightarrow> Q (snd s) (snd (snd (f n a c s)))) \<and>
     (\<forall>f n a b s. ms_write h = Some f \<longrightarrow> Q (snd s) (snd (snd (f n a b s)))) \<and>
     (\<forall>f n s. ms_update_complete h = Some f \<longrightarrow> Q (snd s) (snd (f n s))) \<and>
     (\<forall>f n r s. ms_defer h = Some f \<longrightarrow> Q (snd s) (snd (snd (f n r s))))"

definition memconfig_keeps :: "('v \<Rightarrow> 'v \<Rightarrow> bool) \<Rightarrow> 'v trains memconfig \<Rightarrow> bool" where
  "memconfig_keeps Q mc \<longleftrightarrow> (\<forall>h\<in>set (g_spaces mc). space_keeps Q h) \<and>
     (\<forall>f s. g_reboot mc = Some f \<longrightarrow> Q (snd s) (snd (f s))) \<and>
     (\<forall>f n s. g_factory_reset mc = Some f \<longrightarrow> Q (snd s) (snd (f n s)))"

text \<open>The spaces of the nodes are among those with \<open>ok\<close>.\<close>

definition node_keeps :: "('s \<Rightarrow> bool) \<Rightarrow> ('t, 's) lcc_node \<Rightarrow> bool" where
  "node_keeps ok node \<longleftrightarrow> (\<forall>h\<in>set (node_spaces node). ok h)"

definition events_keep :: "('v \<Rightarrow> 'v \<Rightarrow> bool) \<Rightarrow> 'v lcc_events \<Rightarrow> u64 \<Rightarrow> bool" where
  "events_keep Q E ev \<longleftrightarrow>
     (\<forall>r\<in>set (g_table E). \<forall>f w. er_on_report r = Some f \<longrightarrow> Q w (f ev w)) \<and>
     (\<forall>r\<in>set (g_ranges E). \<forall>f w. ev_on_report r = Some f \<longrightarrow> Q w (f ev w))"

text \<open>The event a frame reports.\<close>

definition reported_event :: "lcc_frame \<Rightarrow> u64 option" where
  "reported_event f =
     (if \<not> lcc_is_control_frame (fr_id f) \<and> lcc_get_can_frame_type (fr_id f) = LCC_FRAME_GLOBAL_ADDRESSED \<and>
         lcc_get_mti (fr_id f) = LCC_MTI_EVENT_REPORT \<and> dlc f \<ge> 8
      then Some (lcc_event_from_buf (fr_data f)) else None)"

definition report_keeps :: "('v \<Rightarrow> 'v \<Rightarrow> bool) \<Rightarrow> 'v lcc_events \<Rightarrow> lcc_frame \<Rightarrow> bool" where
  "report_keeps Q E f \<longleftrightarrow> (\<forall>ev. reported_event f = Some ev \<longrightarrow> events_keep Q E ev)"

definition alloc_keeps ::
  "('v \<Rightarrow> 'v \<Rightarrow> bool) \<Rightarrow> ('v trains lcc_memspace \<Rightarrow> bool) \<Rightarrow>
   ('v trains lcc_memspace, 'v) lcc_train_alloc_fn option \<Rightarrow> bool" where
  "alloc_keeps Q ok alloc \<longleftrightarrow> (\<forall>g a fl ev s. alloc = Some g \<longrightarrow> Q (snd s) (snd (g a fl ev s)) \<and>
     length (fst s) \<le> length (fst (g a fl ev s)) \<and>
     ((\<forall>n\<in>set (fst s). node_keeps ok n) \<longrightarrow> (\<forall>n\<in>set (fst (g a fl ev s)). node_keeps ok n)))"

definition system_keeps :: "('v \<Rightarrow> 'v \<Rightarrow> bool) \<Rightarrow> ('v trains lcc_memspace \<Rightarrow> bool) \<Rightarrow> 'v lcc_system \<Rightarrow> bool" where
  "system_keeps Q ok sy \<longleftrightarrow> hooks_keep Q (sys_hooks sy) \<and> memconfig_keeps Q (sys_mc sy) \<and>
     alloc_keeps Q ok (sys_alloc sy) \<and> (\<forall>n\<in>set (sys_nodes sy). node_keeps ok n)"

lemma space_keepsD:
  assumes "space_keeps Q h"
  shows "ms_read h = Some f1 \<Longrightarrow> Q (snd s) (snd (snd (f1 n a c s)))"
    and "ms_write h = Some f2 \<Longrightarrow> Q (snd s) (snd (snd (f2 n a b s)))"
    and "ms_update_complete h = Some f3 \<Longrightarrow> Q (snd s) (snd (f3 n s))"
    and "ms_defer h = Some f4 \<Longrightarrow> Q (snd s) (snd (snd (f4 n r s)))"
  using assms unfolding space_keeps_def by blast+

lemma memconfig_keepsD:
  assumes "memconfig_keeps Q mc"
  shows "g_reboot mc = Some f \<Longrightarrow> Q (snd s) (snd (f s))" and "g_factory_reset mc = Some g \<Longrightarrow> Q (snd s) (snd (g n s))"
  using assms unfolding memconfig_keeps_def by blast+

locale rest_relation =
  fixes Q :: "'v \<Rightarrow> 'v \<Rightarrow> bool"
    and ok :: "'v trains lcc_memspace \<Rightarrow> bool"
  assumes Q_refl [simp]: "Q w w"
    and Q_trans: "Q u v \<Longrightarrow> Q v w \<Longrightarrow> Q u w"
    and ok_keeps: "ok h \<Longrightarrow> space_keeps Q h"
begin

section \<open>Datagrams\<close>

definition mc_step :: "'v trains memconfig \<Rightarrow> 'v trains memconfig \<Rightarrow> bool" where
  "mc_step mc mc' \<longleftrightarrow> g_spaces mc' = g_spaces mc \<and> g_reboot mc' = g_reboot mc \<and>
     g_factory_reset mc' = g_factory_reset mc \<and> Q (snd (the_rest mc)) (snd (the_rest mc'))"

lemma mc_step_refl [simp]: "mc_step mc mc"
  by (simp add: mc_step_def)

lemma mc_step_trans: "mc_step a b \<Longrightarrow> mc_step b c \<Longrightarrow> mc_step a c"
  by (auto simp: mc_step_def intro: Q_trans)

lemma mc_step_keeps: "mc_step mc mc' \<Longrightarrow> memconfig_keeps Q mc' = memconfig_keeps Q mc"
  by (simp add: mc_step_def memconfig_keeps_def)

lemma found_space_keeps:
  assumes "memconfig_keeps Q mc" and "node_keeps ok node" and "find_space node space mc = Some h"
  shows "space_keeps Q h"
  using assms ok_keeps by (auto simp: find_space_def memconfig_keeps_def node_keeps_def find_Some_iff split: option.splits)

lemma parsed_space_keeps:
  assumes "memconfig_keeps Q mc" and "node_keeps ok node" and "parse_rw node buf mc = Inr rq"
  shows "space_keeps Q (rq_h rq)"
  using assms(3) found_space_keeps [OF assms(1,2)]
  by (auto simp: parse_rw_def Let_def split: if_splits prod.splits option.splits)

lemma start_deferred_step:
  assumes "\<And>n r s. Q (snd s) (snd (snd (d n r s)))"
  shows "mc_step mc (snd (start_deferred node src cmd space addr cnt bytes h d mc))"
proof -
  have "Q (snd s) (snd w)" if "d n r s = (e, w)" for n r s e w using assms [of s n r] that by simp
  then show ?thesis by (auto simp: start_deferred_def Let_def mc_step_def split: prod.split)
qed

lemma write_loop_step:
  assumes "\<And>n a b s. Q (snd s) (snd (snd (write n a b s)))"
  shows "Q (snd w) (snd (snd (write_loop write node addr bytes w)))"
proof (induction "length bytes" arbitrary: addr bytes w rule: less_induct)
  case less
  obtain n error w' where r: "write node addr bytes w = ((n, error), w')" by (metis surj_pair)
  have q: "Q (snd w) (snd w')" using assms [of w node addr bytes] by (simp add: r)
  show ?case
  proof (cases "bytes = [] \<or> error \<noteq> 0 \<or> n = 0")
    case True
    then show ?thesis using q by (subst write_loop.simps) (auto simp: r Let_def LCC_ERR_PERMANENT_def)
  next
    case False
    define k where "k = (if n > length bytes then length bytes else n)"
    have "length (drop k bytes) < length bytes" using False by (auto simp: k_def)
    from less.hyps [OF this, of "w'" "addr + of_nat k"] Q_trans [OF q] False show ?thesis
      by (subst write_loop.simps) (auto simp: r Let_def k_def [symmetric])
  qed
qed

lemma update_complete_step:
  assumes "\<forall>h\<in>set hs. space_keeps Q h"
  shows "Q (snd w) (snd (fold (call_update_complete node) hs w))"
  using assms
proof (induction hs arbitrary: w)
  case (Cons h hs)
  have "Q (snd w) (snd (call_update_complete node h w))"
    using Cons.prems space_keepsD(3) [of Q h] by (auto simp: call_update_complete_def split: option.split)
  with Cons.IH [of "call_update_complete node h w"] Cons.prems show ?case by (auto intro: Q_trans)
qed simp

lemma handle_read_step:
  assumes "memconfig_keeps Q mc" and "node_keeps ok node"
  shows "mc_step mc (snd (handle_read node src buf mc))"
proof (cases "parse_rw node buf mc")
  case (Inr rq)
  have k: "space_keeps Q (rq_h rq)" using parsed_space_keeps [OF assms Inr] .
  have d: "mc_step mc' (snd (start_deferred node src cmd space addr count bytes h f mc'))"
    if "ms_defer (rq_h rq) = Some f" for f cmd space addr count bytes h mc'
    using space_keepsD(4) [OF k that] by (intro start_deferred_step)
  show ?thesis
  proof (cases "ms_read (rq_h rq)")
    case None
    then show ?thesis using d by (auto simp: handle_read_def Inr Let_def split: option.split)
  next
    case (Some read)
    define count where "count = read_count (rq_h rq) (rq_addr rq) (rq_count rq)"
    obtain bytes error w where r: "call_read read (node_id node) (rq_addr rq) count (the_rest mc) = ((bytes, error), w)"
      by (metis surj_pair)
    have "Q (snd (the_rest mc)) (snd (snd (call_read read (node_id node) (rq_addr rq) count (the_rest mc))))"
      using space_keepsD(1) [OF k Some] by (simp add: call_read_def)
    then have w: "mc_step mc (mc\<lparr>the_rest := w\<rparr>)" by (simp add: r mc_step_def)
    show ?thesis
      using d [of _ "mc\<lparr>the_rest := w\<rparr>"] w mc_step_trans [OF w]
      by (auto simp: handle_read_def Inr Let_def Some count_def [symmetric] r)
  qed
qed (simp add: handle_read_def)

lemma handle_write_step:
  assumes "memconfig_keeps Q mc" and "node_keeps ok node"
  shows "mc_step mc (snd (handle_write node src buf mc))"
proof (cases "parse_rw node buf mc")
  case (Inr rq)
  have k: "space_keeps Q (rq_h rq)" using parsed_space_keeps [OF assms Inr] .
  have d: "mc_step mc (snd (start_deferred node src cmd space addr count bytes h f mc))"
    if "ms_defer (rq_h rq) = Some f" for f cmd space addr count bytes h
    using space_keepsD(4) [OF k that] by (intro start_deferred_step)
  show ?thesis
  proof (cases "ms_write (rq_h rq)")
    case None
    then show ?thesis using d by (auto simp: handle_write_def Inr Let_def split: option.split)
  next
    case (Some f)
    define bytes where "bytes = take (in_bounds (rq_h rq) (rq_addr rq) (rq_count rq)) (rq_data rq)"
    obtain error w where r: "write_loop f (node_id node) (rq_addr rq) bytes (the_rest mc) = (error, w)"
      by (metis surj_pair)
    have "Q (snd (the_rest mc)) (snd (snd (write_loop f (node_id node) (rq_addr rq) bytes (the_rest mc))))"
      using space_keepsD(2) [OF k Some] by (intro write_loop_step)
    then show ?thesis by (simp add: handle_write_def Inr Let_def Some bytes_def [symmetric] r mc_step_def)
  qed
qed (simp add: handle_write_def)

lemma memconfig_handle_step:
  assumes "memconfig_keeps Q mc" and "node_keeps ok node"
  shows "mc_step mc (snd (lcc_memconfig_handle node src payload mc))"
proof -
  have "mc_step mc (handle_update_complete node mc)"
    using Q_trans [OF update_complete_step [of "node_spaces node" "the_rest mc" "node_id node"] update_complete_step] assms ok_keeps
    by (simp add: handle_update_complete_def Let_def mc_step_def node_keeps_def memconfig_keeps_def)
  moreover have "mc_step mc (handle_reboot mc)"
    using memconfig_keepsD(1) [OF assms(1)] by (auto simp: handle_reboot_def mc_step_def split: option.split)
  moreover have "mc_step mc (handle_factory_reset node payload mc)"
    using memconfig_keepsD(2) [OF assms(1)] by (auto simp: handle_factory_reset_def mc_step_def split: option.split)
  ultimately show ?thesis
    using handle_read_step [OF assms] handle_write_step [OF assms] by (simp add: lcc_memconfig_handle_def Let_def)
qed

lemma datagram_frame_step:
  assumes "memconfig_keeps Q mc" and "node_keeps ok node"
  shows "mc_step mc (snd (snd (lcc_datagram_handle_frame node frame mc)))"
proof -
  have d: "mc_step mc (snd (snd (dispatch_and_reset n src bytes mc)))" if "node_spaces n = node_spaces node" for n src bytes
    using memconfig_handle_step [OF assms(1), of n src bytes] assms(2) that
    by (auto simp: dispatch_and_reset_def lcc_datagram_dispatch_def node_keeps_def split: prod.split sum.split)
  show ?thesis by (auto simp: lcc_datagram_handle_frame_def Let_def intro!: d)
qed

section \<open>Traction\<close>

definition moves :: "('s, 'v) layout \<Rightarrow> lcc_frame list \<times> ('s, 'v) layout \<Rightarrow> bool" where
  "moves s r \<longleftrightarrow> Q (snd s) (snd (snd r)) \<and> map node_spaces (fst (snd r)) = map node_spaces (fst s)"

lemma spaces_set_train [simp]: "map node_spaces (set_train i t nodes) = map node_spaces nodes"
  by (cases "i < length nodes") (simp_all add: set_train_def map_update list_update_same_conv list_update_beyond)

lemma moves_Nil [simp]: "moves s (fs, s)"
  by (simp add: moves_def)

lemma moves_train: "moves (set_train i t (fst s), w) r \<Longrightarrow> Q (snd s) w \<Longrightarrow> moves s r"
  by (auto simp: moves_def intro: Q_trans)

lemma dispatch_with_moves:
  assumes "hooks_keep Q hooks" and fwd: "\<And>cmd p s. moves s (forward i reply_to cmd p s)"
  shows "moves s (dispatch_with forward hooks i reply_to payload s)"
proof (cases "payload = [] \<or> train (fst s ! i) = None")
  case False
  then obtain cmd bs t where p: "payload = cmd # bs" "train (fst s ! i) = Some t" by (cases payload) auto
  have sp: "Q (snd s) (snd (on_set_speed hooks t payload (snd s)))"
    using assms(1) by (auto simp: on_set_speed_def Let_def hooks_keep_def split: option.split)
  have fn: "Q (snd s) (snd (on_set_fn hooks t payload (snd s)))"
    using assms(1) by (auto simp: on_set_fn_def Let_def hooks_keep_def split: option.split)
  have es: "Q (snd s) (snd (on_estop hooks t (snd s)))"
    using assms(1) by (auto simp: on_estop_def hooks_keep_def split: option.split)
  have f: "moves s (case r of (t', w) \<Rightarrow> forward i reply_to cmd payload (set_train i t' (fst s), w))"
    if "Q (snd s) (snd r)" for r
    using moves_train [OF fwd [of "(set_train i (fst r) (fst s), snd r)"]] that by (simp add: split_beta)
  have c: "moves s (case r of (fs, t') \<Rightarrow> (fs, set_train i t' (fst s), snd s))" for r :: "lcc_frame list \<times> lcc_train_state"
    by (cases r) (simp add: moves_def)
  show ?thesis
    using f [OF sp] f [OF fn] f [OF es] c by (auto simp: dispatch_with_def p Let_def split: option.split)
qed (auto simp: dispatch_with_def split: list.split option.split)

lemma handle_frame_with_moves:
  assumes "\<And>src payload s. moves s (dispatch i src payload s)"
  shows "moves s (handle_frame_with dispatch i frame s)"
proof (cases "train (fst s ! i)")
  case (Some t)
  have more: "moves s (case dispatch i src payload (set_train i t' (fst s), snd s) of (fs, s') \<Rightarrow>
      (fs, (case train (fst s' ! i) of None \<Rightarrow> s' | Some t' \<Rightarrow> (set_train i (g t') (fst s'), snd s'))))"
    for src payload t' g
    using assms [of "(set_train i t' (fst s), snd s)" src payload]
    by (auto simp: moves_def split: prod.split option.split)
  have set: "moves s (fs, set_train i t' (fst s), snd s)" for fs t' by (simp add: moves_def)
  show ?thesis using assms more set by (auto simp: handle_frame_with_def Some Let_def)
qed (simp add: handle_frame_with_def)

lemma forward_slots_moves:
  assumes "\<And>dst f s. moves s (handle dst f s)"
  shows "moves s (forward_slots handle src src_alias cmd payload ks s)"
proof (induction ks arbitrary: s)
  case (Cons k ks)
  have "moves s (forward_to_slave handle src dst cmd flags payload s)" for dst flags
    using assms [of s dst] by (simp add: forward_to_slave_def Let_def moves_def split_beta)
  then have "moves s (forward_slot handle src src_alias cmd payload k s)"
    by (auto simp: forward_slot_def Let_def split: option.split)
  then show ?case using Cons.IH [of "snd (forward_slot handle src src_alias cmd payload k s)"]
    by (auto simp: moves_def split: prod.split intro: Q_trans)
qed simp

lemma traction_moves:
  assumes "hooks_keep Q hooks"
  shows "moves s (lcc_traction_handle_frame hooks i frame s)"
proof -
  have l: "moves s (handle_listener hooks dst f s)" for dst f s
    unfolding handle_listener_def by (intro handle_frame_with_moves dispatch_with_moves [OF assms]) simp
  have "moves s (forward_to_consist hooks src a cmd payload s)" for src a cmd payload s
    using forward_slots_moves [where handle = "handle_listener hooks", OF l, of s] by (simp add: forward_to_consist_def)
  then show ?thesis unfolding lcc_traction_handle_frame_def dispatch_traction_def
    by (intro handle_frame_with_moves dispatch_with_moves [OF assms])
qed

end

context rest_relation
begin

section \<open>The interface\<close>

text \<open>A step of the system: the rest moves within \<open>Q\<close>, and what the interface was given stays.\<close>

definition sys_step :: "'v lcc_system \<Rightarrow> 'v lcc_system \<Rightarrow> bool" where
  "sys_step sy sy' \<longleftrightarrow> sys_hooks sy' = sys_hooks sy \<and> sys_alloc sy' = sys_alloc sy \<and> sys_events sy' = sys_events sy \<and>
     mc_step (sys_mc sy) (sys_mc sy') \<and> (system_keeps Q ok sy \<longrightarrow> length (sys_nodes sy) \<le> length (sys_nodes sy') \<and> (\<forall>n\<in>set (sys_nodes sy'). node_keeps ok n))"

lemma sys_step_refl [simp]: "sys_step sy sy"
  by (simp add: sys_step_def system_keeps_def)

lemma sys_step_keeps: "sys_step sy sy' \<Longrightarrow> system_keeps Q ok sy \<Longrightarrow> system_keeps Q ok sy'"
  using mc_step_keeps by (auto simp: sys_step_def system_keeps_def)

lemma sys_step_trans: "sys_step a b \<Longrightarrow> sys_step b c \<Longrightarrow> sys_step a c"
  using sys_step_keeps [of a b] by (auto simp: sys_step_def intro: mc_step_trans order_trans)

lemma sys_step_rest: "sys_step sy sy' \<Longrightarrow> Q (rest_of sy) (rest_of sy')"
  by (simp add: sys_step_def mc_step_def rest_of_def)

lemma spaces_keep:
  "map node_spaces nodes' = map node_spaces nodes \<Longrightarrow> \<forall>n\<in>set nodes. node_keeps ok n \<Longrightarrow> \<forall>n\<in>set nodes'. node_keeps ok n"
proof
  fix n assume m: "map node_spaces nodes' = map node_spaces nodes" "\<forall>n\<in>set nodes. node_keeps ok n" "n \<in> set nodes'"
  then have "node_spaces n \<in> set (map node_spaces nodes)" by (metis imageI set_map)
  then show "node_keeps ok n" using m(2) by (auto simp: node_keeps_def)
qed

lemma mc_step_rest: "Q (snd (the_rest mc)) w \<Longrightarrow> mc_step mc (mc\<lparr>the_rest := (f, w)\<rparr>)"
  by (simp add: mc_step_def)

lemma moves_length: "moves s r \<Longrightarrow> length (fst (snd r)) = length (fst s)"
  unfolding moves_def by (metis length_map)

lemma layout_step:
  assumes "moves (sys_nodes sy, rest_of sy) (f (sys_nodes sy, rest_of sy))"
  shows "sys_step sy (snd (on_layout f sy))"
proof -
  obtain r nodes w where f: "f (sys_nodes sy, rest_of sy) = (r, nodes, w)" by (metis prod_cases3)
  then show ?thesis
    using assms spaces_keep [of nodes "sys_nodes sy"] moves_length [OF assms]
    by (auto simp: on_layout_def sys_step_def set_rest_def moves_def system_keeps_def rest_of_def mc_step_def)
qed

text \<open>An operation of the nodes and the rest that keeps the handlers of the nodes.\<close>

lemma layout_keeps_step:
  assumes "Q (rest_of sy) (snd (snd (f (sys_nodes sy, rest_of sy))))"
    and "system_keeps Q ok sy \<Longrightarrow> length (sys_nodes sy) \<le> length (fst (snd (f (sys_nodes sy, rest_of sy)))) \<and>
      (\<forall>n\<in>set (fst (snd (f (sys_nodes sy, rest_of sy)))). node_keeps ok n)"
  shows "sys_step sy (snd (on_layout f sy))"
proof -
  obtain r nodes w where f: "f (sys_nodes sy, rest_of sy) = (r, nodes, w)" by (metis prod_cases3)
  then show ?thesis using assms by (auto simp: on_layout_def sys_step_def set_rest_def rest_of_def mc_step_def)
qed

lemma update_keeps:
  "\<forall>n\<in>set nodes. node_keeps ok n \<Longrightarrow> node_keeps ok node \<Longrightarrow> \<forall>n\<in>set (nodes[i := node]). node_keeps ok n"
  using set_update_subset_insert [of nodes i node] by blast

lemma node_datagram_step:
  assumes "system_keeps Q ok sy" and "i < length (sys_nodes sy)"
  shows "sys_step sy (snd (node_datagram i frame sy))"
proof -
  let ?node = "sys_nodes sy ! i"
  define mc where "mc = (sys_mc sy)\<lparr>the_rest := (\<lambda>n. if n = node_id ?node then train ?node else None, rest_of sy)\<rparr>"
  obtain fs node' mc' where r: "lcc_datagram_handle_frame ?node frame mc = (fs, node', mc')" by (metis prod_cases3)
  have keep: "memconfig_keeps Q mc" "node_keeps ok ?node"
    using assms by (simp_all add: system_keeps_def memconfig_keeps_def mc_def)
  have "mc_step mc mc'" using datagram_frame_step [OF keep, of frame] by (simp add: r)
  moreover have "mc_step (sys_mc sy) mc" by (simp add: mc_def mc_step_def rest_of_def)
  ultimately have m: "mc_step (sys_mc sy) mc'" by (metis mc_step_trans)
  have n: "node_spaces node' = node_spaces ?node"
    using arg_cong [OF datagram_frame_node [OF r], of node_spaces] by simp
  have u: "\<forall>n\<in>set ((sys_nodes sy)[i := nd]). node_keeps ok n" if "node_spaces nd = node_spaces ?node" for nd
    using assms(1) keep(2) that by (intro update_keeps) (simp_all add: system_keeps_def node_keeps_def)
  show ?thesis
    using m u [of "node'\<lparr>train := (case train node' of None \<Rightarrow> None | Some t \<Rightarrow> fst (the_rest mc') (node_id node'))\<rparr>"] n
    by (simp add: node_datagram_def Let_def mc_def [symmetric] r sys_step_def set_node_def)
qed

lemma handle_control_step:
  assumes "system_keeps Q ok sy" and "i < length (sys_nodes sy)"
  shows "sys_step sy (snd (handle_control i f sy))"
proof -
  have "node_keeps ok (sys_nodes sy ! i)" using assms by (simp add: system_keeps_def)
  then have k: "sys_step sy (set_node i node sy)" if "node_spaces node = node_spaces (sys_nodes sy ! i)" for node
    using update_keeps [of "sys_nodes sy" node i] assms(1) that
    by (simp add: sys_step_def set_node_def system_keeps_def node_keeps_def)
  obtain fs node where c: "(if lcc_get_src (fr_id f) = node_alias (sys_nodes sy ! i) then lcc_alias_on_collision (sys_nodes sy ! i)
      else ([], sys_nodes sy ! i)) = (fs, node)" by (metis prod.exhaust)
  have "node_spaces node = node_spaces (sys_nodes sy ! i)"
    using c by (auto simp: lcc_alias_on_collision_def split: if_splits lcc_alias_state.splits)
  then show ?thesis using k by (simp add: handle_control_def Let_def c)
qed

lemma report_registered_step:
  assumes "\<forall>r\<in>set rs. \<forall>f w. er_on_report r = Some f \<longrightarrow> Q w (f ev w)"
  shows "Q w (fold (report_registered node ev) rs w)"
  using assms
proof (induction rs arbitrary: w)
  case (Cons r rs)
  have "Q w (report_registered node ev r w)" using Cons.prems by (auto simp: report_registered_def split: option.split)
  with Cons.IH [of "report_registered node ev r w"] Cons.prems show ?case by (auto intro: Q_trans)
qed simp

lemma events_step:
  assumes "report_keeps Q E f" and "\<not> lcc_is_control_frame (fr_id f)"
    and "lcc_get_can_frame_type (fr_id f) = LCC_FRAME_GLOBAL_ADDRESSED"
  shows "Q w (snd (lcc_events_handle_frame node f E w))"
proof (cases "lcc_get_mti (fr_id f) = LCC_MTI_EVENT_REPORT \<and> dlc f \<ge> 8")
  case True
  let ?ev = "lcc_event_from_buf (fr_data f)"
  have ev: "events_keep Q E ?ev" using assms True by (simp add: report_keeps_def reported_event_def)
  let ?w = "fold (report_registered (node_id node) ?ev) (g_table E) w"
  have a: "Q w ?w" using ev by (intro report_registered_step) (simp add: events_keep_def)
  have b: "Q ?w (g ?ev ?w)" if "find_range n ?ev E = Some r" "ev_on_report r = Some g" for n r g
  proof -
    have "r \<in> set (g_ranges E)" using that(1) by (auto simp: find_range_def find_Some_iff)
    then show ?thesis using ev that(2) by (simp add: events_keep_def)
  qed
  show ?thesis using a Q_trans [OF a b]
    by (auto simp: lcc_events_handle_frame_def Let_def split: option.split)
qed (auto simp: lcc_events_handle_frame_def Let_def)

lemma node_events_step:
  assumes "system_keeps Q ok sy" and "report_keeps Q (sys_events sy) f" and "\<not> lcc_is_control_frame (fr_id f)"
    and "lcc_get_can_frame_type (fr_id f) = LCC_FRAME_GLOBAL_ADDRESSED"
  shows "sys_step sy (snd (node_events i f sy))"
proof -
  obtain fs w where r: "lcc_events_handle_frame (sys_nodes sy ! i) f (sys_events sy) (rest_of sy) = (fs, w)" by (metis surj_pair)
  have "Q (rest_of sy) w" using events_step [OF assms(2-4), of "rest_of sy" "sys_nodes sy ! i"] by (simp add: r)
  then have "sys_step sy (set_rest w sy)"
    using assms(1) by (simp add: sys_step_def set_rest_def mc_step_def rest_of_def system_keeps_def)
  then show ?thesis by (simp add: node_events_def r)
qed

lemma node_frame_step:
  assumes "system_keeps Q ok sy" and "i < length (sys_nodes sy)"
    and "report_keeps Q (sys_events sy) f"
  shows "sys_step sy (snd (lcc_node_handle_frame i f sy))"
proof -
  have "sys_step sy (snd (on_layout (lcc_traction_handle_frame (sys_hooks sy) i f) sy))"
    using assms(1) by (intro layout_step traction_moves) (simp_all add: system_keeps_def)
  then show ?thesis
    using node_datagram_step [OF assms(1,2)] handle_control_step [OF assms(1,2)] node_events_step [OF assms(1,3)]
    by (simp add: lcc_node_handle_frame_def Let_def)
qed

lemma handle_at_step:
  assumes "system_keeps Q ok sy" and "\<forall>i\<in>set is. i < length (sys_nodes sy)"
    and "report_keeps Q (sys_events sy) f"
  shows "sys_step sy (snd (handle_at is f sy))"
  using assms
proof (induction "is" arbitrary: sy)
  case (Cons i "is")
  let ?sy = "snd (lcc_node_handle_frame i f sy)"
  have s: "sys_step sy ?sy" using node_frame_step [of sy i f] Cons.prems by simp
  have "sys_step ?sy (snd (handle_at is f ?sy))"
  proof (rule Cons.IH)
    show "system_keeps Q ok ?sy" by (rule sys_step_keeps [OF s Cons.prems(1)])
    show "\<forall>i\<in>set is. i < length (sys_nodes ?sy)" using Cons.prems(1,2) s by (auto simp: sys_step_def)
    show "report_keeps Q (sys_events ?sy) f" using s Cons.prems(3) by (simp add: sys_step_def)
  qed
  with s show ?case by (simp add: split_beta sys_step_trans)
qed simp

lemma handle_by_alias_step:
  assumes "system_keeps Q ok sy" and "report_keeps Q (sys_events sy) f"
  shows "sys_step sy (snd (handle_by_alias dst f sy))"
  using node_frame_step [OF assms(1) _ assms(2)]
  by (auto simp: handle_by_alias_def lcc_node_find_by_alias_def find_upt_Some split: option.split)

lemma search_nodes_spaces:
  "map node_spaces (snd (snd (search_nodes ev is nodes))) = map node_spaces nodes"
proof (induction "is" arbitrary: nodes)
  case (Cons i "is")
  have "map node_spaces (snd (snd (search_node ev i nodes))) = map node_spaces nodes"
    by (simp add: search_node_def Let_def split: option.split)
  with Cons.IH [of "snd (snd (search_node ev i nodes))"] show ?case by (simp add: split_beta)
qed simp

lemma search_step:
  assumes "system_keeps Q ok sy"
  shows "sys_step sy (snd (global_search f sy))"
proof -
  define ev where "ev = lcc_event_from_buf (fr_data f)"
  obtain m fs nodes where s: "search_nodes ev [0..<length (sys_nodes sy)] (sys_nodes sy) = (m, fs, nodes)" by (metis prod_cases3)
  have k: "\<forall>n\<in>set nodes. node_keeps ok n"
    using search_nodes_spaces [of ev "[0..<length (sys_nodes sy)]" "sys_nodes sy"] assms
    by (intro spaces_keep [of nodes "sys_nodes sy"]) (simp_all add: s system_keeps_def)
  have len: "length nodes = length (sys_nodes sy)"
    using search_nodes_spaces [of ev "[0..<length (sys_nodes sy)]" "sys_nodes sy"] by (metis length_map s snd_conv)
  have a: "Q (rest_of sy) (snd (g addr fl e (nodes, rest_of sy))) \<and>
      length nodes \<le> length (fst (g addr fl e (nodes, rest_of sy))) \<and> (\<forall>n\<in>set (fst (g addr fl e (nodes, rest_of sy))). node_keeps ok n)"
    if "sys_alloc sy = Some g" for g addr fl e
    using assms that k unfolding system_keeps_def alloc_keeps_def by (metis fst_conv snd_conv)
  have "sys_step sy (snd (on_layout (lcc_train_search_dispatch (sys_alloc sy) ev) sy))"
    by (rule layout_keeps_step) (use a k len assms in \<open>auto simp: lcc_train_search_dispatch_def Let_def s system_keeps_def split: option.split\<close>)
  then show ?thesis by (simp add: global_search_def ev_def)
qed

lemma probe_step:
  assumes "system_keeps Q ok sy"
  shows "sys_step sy (global_probe f sy)"
proof -
  have a: "Q (rest_of sy) (snd (g addr fl e (sys_nodes sy, rest_of sy))) \<and>
      length (sys_nodes sy) \<le> length (fst (g addr fl e (sys_nodes sy, rest_of sy))) \<and> (\<forall>n\<in>set (fst (g addr fl e (sys_nodes sy, rest_of sy))). node_keeps ok n)"
    if "sys_alloc sy = Some g" for g addr fl e
    using assms that unfolding system_keeps_def alloc_keeps_def by (metis fst_conv snd_conv)
  have "sys_step sy (snd (on_layout (\<lambda>s. ((), lcc_train_search_ensure_by_node_id (sys_alloc sy)
      (lcc_node_id_from_buf (fr_data f)) s)) sy))"
    by (rule layout_keeps_step)
      (use a assms in \<open>auto simp: lcc_train_search_ensure_by_node_id_def Let_def system_keeps_def split: option.split\<close>)
  then show ?thesis by (simp add: global_probe_def)
qed

lemma dispatch_step:
  assumes "system_keeps Q ok sy" and "report_keeps Q (sys_events sy) f"
  shows "sys_step sy (snd (lcc_if_dispatch f sy))"
proof -
  define s1 where "s1 = global_probe f (snd (global_search f sy))"
  have s: "sys_step sy s1"
    unfolding s1_def using search_step [OF assms(1), of f] probe_step sys_step_keeps [OF _ assms(1)] sys_step_trans by metis
  have "sys_step s1 (snd (handle_at [0..<length (sys_nodes sy)] f s1))"
    using sys_step_keeps [OF s assms(1)] s assms by (intro handle_at_step) (auto simp: sys_step_def)
  with s have g: "sys_step sy (snd (handle_at [0..<length (sys_nodes sy)] f s1))" by (rule sys_step_trans)
  show ?thesis
    using g handle_at_step [OF assms(1) _ assms(2), of "[0..<length (sys_nodes sy)]"] handle_by_alias_step [OF assms(1,2)]
    by (simp add: lcc_if_dispatch_def Let_def split_beta s1_def)
qed

end

context rest_relation
begin

section \<open>A turn\<close>

lemma other_steps:
  "sys_step sy (snd (flush_deferred sy))" "sys_step sy (snd (tick_aliases sy))" "sys_step sy (snd (flush_searches sy))"
proof -
  show "sys_step sy (snd (flush_deferred sy))"
    by (simp add: flush_deferred_def lcc_memconfig_flush_deferred_def Let_def sys_step_def mc_step_def system_keeps_def)
  have t: "map node_spaces (fst (snd (alias_tick_all E w nodes held))) = map node_spaces nodes"
    for E w held and nodes :: "'v lnode list"
  proof (induction nodes arbitrary: held)
    case (Cons node nodes)
    have "node_spaces (fst (snd (lcc_alias_tick E w node held))) = node_spaces node"
      by (cases "alias_state node") (auto simp: lcc_alias_tick_def Let_def lcc_if_alias_try_lock_def split: bool.splits)
    with Cons.IH show ?case by (simp add: split_beta)
  qed simp
  have f: "map node_spaces (snd (flush_nodes is nodes)) = map node_spaces nodes" for "is" and nodes :: "'v lnode list"
  proof (induction "is" arbitrary: nodes)
    case (Cons i "is")
    have "map node_spaces (snd (flush_node i nodes)) = map node_spaces nodes"
      by (simp add: flush_node_def Let_def split: option.split)
    with Cons.IH [of "snd (flush_node i nodes)"] show ?case by (simp add: split_beta)
  qed simp
  have n: "sys_step sy (sy\<lparr>sys_nodes := nodes, sys_lock := l\<rparr>)" if "map node_spaces nodes = map node_spaces (sys_nodes sy)" for nodes l
    using spaces_keep [OF that] that by (auto simp: sys_step_def system_keeps_def dest: map_eq_imp_length_eq)
  show "sys_step sy (snd (tick_aliases sy))"
    using n [OF t] by (simp add: tick_aliases_def split_beta)
  show "sys_step sy (snd (flush_searches sy))"
    using n [OF f [of "[0..<length (sys_nodes sy)]"], of "sys_lock sy"]
    by (simp add: flush_searches_def lcc_train_search_flush_pending_def split_beta)
qed

lemma turn_step:
  assumes "system_keeps Q ok sy" and "\<forall>f. rx = Some f \<longrightarrow> report_keeps Q (sys_events sy) f"
    and "lcc_task_turn rx t c (task, sy) = (fs, task', sy')"
  shows "sys_step sy sy'"
proof -
  define s1 where "s1 = snd (case rx of Some frame \<Rightarrow> lcc_if_dispatch frame sy | None \<Rightarrow> ([], sy))"
  define s2 where "s2 = snd (flush_deferred s1)"
  define s3 where "s3 = snd (tick_aliases s2)"
  have 1: "sys_step sy s1" using dispatch_step [OF assms(1)] assms(2) by (simp add: s1_def split: option.split)
  have 2: "sys_step sy s2" using sys_step_trans [OF 1 other_steps(1)] by (simp add: s2_def)
  have 3: "sys_step sy s3" using sys_step_trans [OF 2 other_steps(2)] by (simp add: s3_def)
  have 4: "sys_step sy (snd (flush_searches s3))" by (rule sys_step_trans [OF 3 other_steps(3)])
  have "sy' = s2 \<or> sy' = snd (flush_searches s3)"
    using assms(3) by (auto simp: lcc_task_turn_def s1_def s2_def s3_def split_beta Let_def split: if_splits option.splits)
  with 2 4 show ?thesis by auto
qed

lemma complete_step: "sys_step sy (sy\<lparr>sys_mc := lcc_memconfig_complete error bytes (sys_mc sy)\<rparr>)"
  by (simp add: sys_step_def mc_step_def lcc_memconfig_complete_def system_keeps_def)

lemma set_rest_step: "Q (rest_of sy) w \<Longrightarrow> sys_step sy (set_rest w sy)"
  by (simp add: sys_step_def mc_step_def set_rest_def rest_of_def system_keeps_def)

end

end
