(* ===== verification/Station_Safety.thy ===== *)
theory Station_Safety
  imports Lcc_Station Lcc_Rest
begin

text \<open>
  The station as a whole (theories \<open>Lcc_Station\<close> and \<open>Lcc_If\<close>): whatever the LCC side does reaches the
  engine as a sequence of its commands, so what the engine guarantees against its commands (theory
  \<open>Dcc_Safety\<close>) holds against the bus. The emergency stop of the layout is proved here from the
  frame on the bus to the packets in the output queue.
\<close>

section \<open>The engine behind the bus\<close>

text \<open>
  Everything the LCC side does to the engine is a sequence of engine commands; \<open>may_clear\<close>
  says whether the emergency stop of all locos may be cleared by one of them.
\<close>

definition engine_runs :: "'q q_api \<Rightarrow> bool \<Rightarrow> 'q station \<Rightarrow> 'q station \<Rightarrow> bool" where
  "engine_runs R may_clear w w' \<longleftrightarrow>
     (\<exists>cmds. (Clear_Emergency_Stop_All \<in> set cmds \<longrightarrow> may_clear) \<and>
        g_dcc_engine w' = map_option (fold (dcc_exec R) cmds) (g_dcc_engine w))"

lemma engine_runs_refl: "g_dcc_engine w' = g_dcc_engine w \<Longrightarrow> engine_runs R cl w w'"
  unfolding engine_runs_def by (rule exI [of _ "[]"]) (simp add: option.map_id)

lemma engine_runs_same [simp]: "engine_runs R cl w w"
  by (rule engine_runs_refl) simp

lemma engine_runs_cmd:
  "(c = Clear_Emergency_Stop_All \<Longrightarrow> cl) \<Longrightarrow> g_dcc_engine w' = map_option (dcc_exec R c) (g_dcc_engine w) \<Longrightarrow>
   engine_runs R cl w w'"
  unfolding engine_runs_def by (rule exI [of _ "[c]"]) auto

lemma engine_runs_trans: "engine_runs R cl u v \<Longrightarrow> engine_runs R cl v w \<Longrightarrow> engine_runs R cl u w"
proof -
  assume "engine_runs R cl u v" "engine_runs R cl v w"
  then obtain xs ys where "Clear_Emergency_Stop_All \<in> set xs \<longrightarrow> cl" "g_dcc_engine v = map_option (fold (dcc_exec R) xs) (g_dcc_engine u)"
      "Clear_Emergency_Stop_All \<in> set ys \<longrightarrow> cl" "g_dcc_engine w = map_option (fold (dcc_exec R) ys) (g_dcc_engine v)"
    unfolding engine_runs_def by blast
  then show ?thesis unfolding engine_runs_def
    by (intro exI [of _ "xs @ ys"]) (auto simp: option.map_comp comp_def)
qed

lemma on_engine_runs:
  "(\<And>dcc. f dcc = dcc_exec R c dcc) \<Longrightarrow> (c = Clear_Emergency_Stop_All \<Longrightarrow> cl) \<Longrightarrow> engine_runs R cl w (on_engine f w)"
  by (rule engine_runs_cmd [of c]) (auto simp: on_engine_def intro!: option.map_cong0)

lemma hooks_engine: "hooks_keep (engine_runs R cl) (g_traction_hooks R)"
  by (auto simp: hooks_keep_def g_traction_hooks_def traction_set_throttle_def traction_set_function_def
      traction_emergency_stop_def intro: on_engine_runs [OF dcc_exec.simps(3) [symmetric]]
      on_engine_runs [OF dcc_exec.simps(4) [symmetric]] on_engine_runs [OF dcc_exec.simps(5) [symmetric]])

lemma pom_engine:
  "engine_runs R cl w (traction_pom_write_byte R a l cv v w)"
  "engine_runs R cl w (traction_pom_write_long_address R a l x y w)"
  "engine_runs R cl w (traction_pom_write_consist R a l x w)"
  "engine_runs R cl w (traction_pom_write_long_consist R a l x y w)"
  by (auto simp: traction_pom_write_byte_def traction_pom_write_long_address_def traction_pom_write_consist_def
      traction_pom_write_long_consist_def intro: on_engine_runs [OF dcc_exec.simps(8) [symmetric]]
      on_engine_runs [OF dcc_exec.simps(9) [symmetric]] on_engine_runs [OF dcc_exec.simps(10) [symmetric]]
      on_engine_runs [OF dcc_exec.simps(11) [symmetric]])

lemma pom_read_engine: "engine_runs R cl w (snd (traction_pom_read_byte a l cv w))"
  by (rule engine_runs_refl) (simp add: traction_pom_read_byte_def split: prod.split railcom_result.split)

lemma write_cvs_engine: "engine_runs R cl w (snd (write_cvs (g_traction_hooks R) t cv bytes w))"
  by (auto simp: write_cvs_def Let_def g_traction_hooks_def pom_engine)

lemma cv_space_engine: "space_keeps (engine_runs R cl) (g_cv_space_handler (g_traction_hooks R))"
proof -
  have w: "engine_runs R cl w (snd (snd (cv_space_write (g_traction_hooks R) t addr bytes w)))" for t addr bytes w
    using write_cvs_engine [where R = R and w = w] by (simp add: cv_space_write_def Let_def split_beta)
  have d: "engine_runs R cl w (snd (cv_space_defer (g_traction_hooks R) t req w))" for t req w
    using pom_read_engine [where R = R and w = w]
    by (simp add: cv_space_defer_def Let_def g_traction_hooks_def)
  show ?thesis
    using w d by (auto simp: space_keeps_def g_cv_space_handler_def split_beta split: option.split)
qed

lemma config_space_engine: "space_keeps (engine_runs R cl) (on_config h)"
proof -
  have "engine_runs R cl (snd s) (snd (set_config c s))" for s c
    by (rule engine_runs_refl) (simp add: set_config_def)
  then show ?thesis by (auto simp: space_keeps_def on_config_def split_beta)
qed

lemma progtrack_engine: "h \<in> set g_cs_node_spaces \<Longrightarrow> space_keeps (engine_runs R cl) h"
  by (auto simp: space_keeps_def g_cs_node_spaces_def progtrack_defer_def Let_def split_beta intro: engine_runs_refl)

text \<open>The memory spaces of the station's nodes.\<close>

definition station_space :: "'q q_api \<Rightarrow> 'q station trains lcc_memspace \<Rightarrow> bool" where
  "station_space R h \<longleftrightarrow> h = g_cv_space_handler (g_traction_hooks R) \<or> h \<in> set g_cs_node_spaces"

interpretation engine_moves: rest_relation "engine_runs R cl" "station_space R" for R cl
  by unfold_locales (rule engine_runs_refl [OF refl], erule (1) engine_runs_trans,
    auto simp: station_space_def cv_space_engine progtrack_engine)

lemma new_node_spaces: "node_keeps (station_space R) (new_train_node R version a l e)"
  by (simp add: node_keeps_def new_train_node_def lcc_traction_register_cv_space_def station_space_def
      lcc_memconfig_register_node_spaces_def LCC_MAX_MEMSPACES_def)

lemma note_search_fields [simp]:
  "node_spaces (note_search e node) = node_spaces node" "name_of (note_search e node) = name_of node"
  by (simp_all add: note_search_def name_of_def split: option.split)

lemma alloc_engine: "alloc_keeps (engine_runs R cl) (station_space R) (Some (train_allocator R version))"
proof -
  let ?Q = "engine_runs R cl" and ?ok = "station_space R"
  have e: "?Q w (on_engine (dcc_ensure_loco a l) (w\<lparr>g_train_slots := sl\<rparr>))" for w a l sl
    by (rule engine_runs_cmd [of "Ensure_Loco a l"]) (auto simp: on_engine_def intro!: option.map_cong0)
  have u: "\<forall>n\<in>set (nodes[j := note_search ev (nodes ! j)]). node_keeps ?ok n"
    if "\<forall>n\<in>set nodes. node_keeps ?ok n" for nodes :: "'a train_node list" and j ev
  proof (cases "j < length nodes")
    case True
    then have "node_keeps ?ok (nodes ! j)" using that by simp
    then have "node_keeps ?ok (note_search ev (nodes ! j))" by (simp add: node_keeps_def)
    then show ?thesis by (rule engine_moves.update_keeps [OF that])
  qed (use that in \<open>simp add: list_update_beyond\<close>)
  have "?Q (snd s) (snd (train_allocator R version a fl ev s)) \<and>
      length (fst s) \<le> length (fst (train_allocator R version a fl ev s)) \<and>
      ((\<forall>n\<in>set (fst s). node_keeps ?ok n) \<longrightarrow>
       (\<forall>n\<in>set (fst (train_allocator R version a fl ev s)). node_keeps ?ok n))" for a fl ev s
    using u e new_node_spaces by (cases s) (auto simp: train_allocator_def lcc_node_register_def Let_def split: option.split)
  then show ?thesis unfolding alloc_keeps_def by blast
qed

text \<open>The event handlers.\<close>

lemma accessory_engine:
  assumes "hook_basic hooks = Some (accessory_basic R)" and "hook_extended hooks = Some (accessory_extended R)"
  shows "engine_runs R cl w (on_basic hooks ev w)" and "engine_runs R cl w (on_extended hooks ev w)"
proof -
  have s: "g_dcc_engine (set_output a n w) = g_dcc_engine w" for a n by (simp add: set_output_def Let_def)
  show "engine_runs R cl w (on_basic hooks ev w)"
    by (rule engine_runs_cmd [of "Basic_Accessory (event_output ev) (ev AND 1 \<noteq> 0)
          (shr ev (unat ACCY_BASIC_BITS) = shr LCC_EVENT_ACCY_ACTIVATE_BASE (unat ACCY_BASIC_BITS))"])
      (auto simp: on_basic_def Let_def assms accessory_basic_def on_engine_def s intro!: option.map_cong0)
  show "engine_runs R cl w (on_extended hooks ev w)"
    by (rule engine_runs_cmd [of "Extended_Accessory (u16_of (shr ev 8 AND (word_of_nat ACCY_OUTPUTS - 1))) (u8_of ev)"])
      (auto simp: on_extended_def assms accessory_extended_def on_engine_def intro!: option.map_cong0)
qed

lemma emergency_engine:
  assumes "ev = LCC_EVENT_CLEAR_EMERG_STOP \<Longrightarrow> cl"
  shows "engine_runs R cl w (handle_emergency_event R ev w)"
  using assms by (auto simp: handle_emergency_event_def on_track_def lcc_consts
      intro: engine_runs_refl on_engine_runs [OF dcc_exec.simps(6) [symmetric]] on_engine_runs [OF dcc_exec.simps(7) [symmetric]])

definition station_events :: "'q q_api \<Rightarrow> u64 \<Rightarrow> 'q station \<Rightarrow> 'q station lcc_events" where
  "station_events R node w = fst (lcc_accessory_init node (g_accessory_hooks R) (cs_events R node) w)"

lemmas event_table = station_events_def lcc_accessory_init_def cs_events_def register_event_def lcc_events_register_def
  lcc_events_reset_def lcc_events_register_consumer_range_def LCC_MAX_EVENT_REGISTRATIONS_def LCC_MAX_EVENT_RANGES_def Let_def

lemma events_engine:
  assumes "ev = LCC_EVENT_CLEAR_EMERG_STOP \<Longrightarrow> cl"
  shows "events_keep (engine_runs R cl) (station_events R node w) ev"
  using emergency_engine [OF assms] accessory_engine [of "g_accessory_hooks R" R]
  by (auto simp: events_keep_def event_table g_accessory_hooks_def)

lemma memconfig_engine: "memconfig_keeps (engine_runs R cl) (cs_memconfig cdi version allocated executed w)"
proof -
  have "engine_runs R cl (snd s) (snd (set_config c s))" for s c
    by (rule engine_runs_refl) (simp add: set_config_def)
  then show ?thesis
    by (auto simp: memconfig_keeps_def cs_memconfig_def lcc_memconfig_set_hooks_def lcc_memconfig_register_spaces_def
        config_space_engine dest!: in_set_takeD)
qed

section \<open>The station over time\<close>

text \<open>
  What happens to the station: a turn of the LCC task with what it received, the end of a
  deferred request, an event of the engine and its consumer, and other tasks changing
  anything but the engine.
\<close>

datatype 'q station_input =
    Bus_Turn "lcc_frame option" u32 bool
  | Reply_Ready u16 "u8 list option"
  | Engine_Event dcc_event
  | Other_Tasks "'q station"

type_synonym 'q running = "lcc_task \<times> 'q station lcc_system"

definition station_step :: "'q q_api \<Rightarrow> 'q station_input \<Rightarrow> 'q running \<Rightarrow> 'q running" where
  "station_step R inp s =
     (case s of (task, sy) \<Rightarrow>
        (case inp of
           Bus_Turn rx now_tick usb \<Rightarrow> snd (lcc_task_turn rx now_tick usb (task, sy))
         | Reply_Ready error bytes \<Rightarrow> (task, sy\<lparr>sys_mc := lcc_memconfig_complete error bytes (sys_mc sy)\<rparr>)
         | Engine_Event e \<Rightarrow> (task, set_rest (on_engine (dcc_event_step R e) (rest_of sy)) sy)
         | Other_Tasks w \<Rightarrow> (task, set_rest (w\<lparr>g_dcc_engine := g_dcc_engine (rest_of sy)\<rparr>) sy)))"

definition station_run :: "'q q_api \<Rightarrow> 'q station_input list \<Rightarrow> 'q running \<Rightarrow> 'q running" where
  "station_run R inputs s = fold (station_step R) inputs s"

definition engine_of :: "'q running \<Rightarrow> 'q dcc_engine option" where
  "engine_of s = g_dcc_engine (rest_of (snd s))"

text \<open>An input that may clear the emergency stop of all locos.\<close>

definition clears_stop :: "'q station_input \<Rightarrow> bool" where
  "clears_stop inp =
     (case inp of
        Bus_Turn rx now_tick usb \<Rightarrow>
          (case rx of Some f \<Rightarrow> reported_event f = Some LCC_EVENT_CLEAR_EMERG_STOP | None \<Rightarrow> False)
      | Engine_Event e \<Rightarrow> e = Command Clear_Emergency_Stop_All
      | _ \<Rightarrow> False)"

text \<open>The wiring: what \<open>lcc_interface_init\<close> has set up, and the LCC side's invariant.\<close>

definition station_wired :: "'q q_api \<Rightarrow> u64 \<Rightarrow> 'q station lcc_system \<Rightarrow> bool" where
  "station_wired R n sy \<longleftrightarrow> (\<forall>cl. system_keeps (engine_runs R cl) (station_space R) sy) \<and>
     (\<exists>w. sys_events sy = station_events R n w) \<and> lcc_system_ok sy \<and>
     sys_nodes sy \<noteq> [] \<and> node_id (sys_nodes sy ! 0) = n"

lemma alloc_grows: "alloc_ok (Some (train_allocator R version))"
proof -
  have new: "alias_node_ok (new_train_node R version a l e)" for a l e
    by (simp add: new_train_node_def lcc_traction_register_cv_space_def lcc_memconfig_register_node_spaces_def
        alias_node_ok_def lcc_node_init_def)
  have add: "grows nodes (nodes @ [n])" for nodes and n :: "'a train_node"
    by (simp add: grows_def outlives_def nth_append)
  have upd: "grows nodes (nodes[j := note_search ev (nodes ! j)])" "nodes_ok nodes \<Longrightarrow> nodes_ok (nodes[j := note_search ev (nodes ! j)])"
    for nodes :: "'a train_node list" and j ev
    using names_grows [OF names_update [of "note_search ev (nodes ! j)" nodes j]]
      names_ok [OF names_update [of "note_search ev (nodes ! j)" nodes j]] by simp_all
  have "grows (fst s) (fst (train_allocator R version a fl ev s)) \<and>
      (nodes_ok (fst s) \<longrightarrow> nodes_ok (fst (train_allocator R version a fl ev s)))" for a fl ev s
    using add upd new by (cases s) (auto simp: train_allocator_def lcc_node_register_def Let_def nodes_ok_def split: option.split)
  then show ?thesis unfolding alloc_ok_def by blast
qed

lemma init_wired:
  "station_wired R (get_unique_node_id board_id) (lcc_interface_init R board_id version cdi allocated executed dcc trk w)"
proof -
  have n: "node_id (g_cs_node board_id version) = get_unique_node_id board_id"
    by (simp add: g_cs_node_def lcc_memconfig_register_node_spaces_def lcc_node_init_def)
  have k: "node_keeps (station_space R) (g_cs_node board_id version)"
    by (auto simp: node_keeps_def g_cs_node_def lcc_memconfig_register_node_spaces_def station_space_def dest: in_set_takeD)
  have a: "alias_node_ok (g_cs_node board_id version)"
    by (simp add: alias_node_ok_def g_cs_node_def lcc_memconfig_register_node_spaces_def lcc_node_init_def)
  show ?thesis
    using k a hooks_engine alloc_engine alloc_grows memconfig_engine [where R = R]
    by (auto simp: station_wired_def lcc_interface_init_def Let_def split_beta n system_keeps_def lcc_system_ok_def
        lcc_node_register_def lcc_node_registry_reset_def LCC_MAX_NODES_def nodes_ok_def deferred_ok_def cs_memconfig_def
        lcc_memconfig_set_hooks_def lcc_memconfig_register_spaces_def station_events_def)
qed

text \<open>A step of the LCC side keeps the wiring, whatever it did to the engine.\<close>

lemma sys_step_wired:
  assumes "engine_moves.sys_step R True sy sy'" and "station_wired R n sy" and "lcc_system_ok sy'"
    and "grows (sys_nodes sy) (sys_nodes sy')"
  shows "station_wired R n sy'"
proof -
  have k: "system_keeps (engine_runs R cl) (station_space R) sy" for cl using assms(2) by (simp add: station_wired_def)
  have "system_keeps (engine_runs R cl) (station_space R) sy'" for cl
    using assms(1) k [of cl] engine_moves.sys_step_keeps [OF assms(1) k]
    by (simp add: engine_moves.sys_step_def engine_moves.mc_step_def system_keeps_def memconfig_keeps_def)
  moreover have "sys_nodes sy' \<noteq> []" "node_id (sys_nodes sy' ! 0) = node_id (sys_nodes sy ! 0)"
    using assms(2,4) by (auto simp: station_wired_def grows_def outlives_def)
  ultimately show ?thesis using assms(1,2,3) by (auto simp: station_wired_def engine_moves.sys_step_def)
qed

lemma runs_events:
  assumes "engine_runs R cl w w'"
  shows "\<exists>es. (Command Clear_Emergency_Stop_All \<in> set es \<longrightarrow> cl) \<and>
    g_dcc_engine w' = map_option (fold (dcc_event_step R) es) (g_dcc_engine w)"
proof -
  obtain cmds where c: "Clear_Emergency_Stop_All \<in> set cmds \<longrightarrow> cl" "g_dcc_engine w' = map_option (fold (dcc_exec R) cmds) (g_dcc_engine w)"
    using assms unfolding engine_runs_def by blast
  have "fold (dcc_event_step R) (map Command cmds) dcc = fold (dcc_exec R) cmds dcc" for dcc
    by (induction cmds arbitrary: dcc) simp_all
  then show ?thesis using c by (intro exI [of _ "map Command cmds"]) (auto intro!: option.map_cong0)
qed

lemma station_step_wired:
  assumes "station_wired R n sy"
  shows "station_wired R n (snd (station_step R inp (task, sy))) \<and>
    (\<exists>es. (Command Clear_Emergency_Stop_All \<in> set es \<longrightarrow> clears_stop inp) \<and>
       engine_of (station_step R inp (task, sy)) = map_option (fold (dcc_event_step R) es) (engine_of (task, sy)))"
proof (cases inp)
  case (Bus_Turn rx t c)
  obtain fs task' sy' where r: "lcc_task_turn rx t c (task, sy) = (fs, task', sy')" by (metis prod_cases3)
  have k: "system_keeps (engine_runs R cl) (station_space R) sy" for cl using assms by (simp add: station_wired_def)
  obtain w where ev: "sys_events sy = station_events R n w" using assms by (auto simp: station_wired_def)
  have step: "engine_moves.sys_step R cl sy sy'" if "clears_stop inp \<Longrightarrow> cl" for cl
  proof (rule engine_moves.turn_step [OF k _ r])
    show "\<forall>f. rx = Some f \<longrightarrow> report_keeps (engine_runs R cl) (sys_events sy) f"
      using that events_engine [where R = R and cl = cl] by (auto simp: report_keeps_def ev clears_stop_def Bus_Turn)
  qed
  have ok: "lcc_system_ok sy'" "grows (sys_nodes sy) (sys_nodes sy')"
    using lcc_task_turn_ok [OF r] assms by (simp_all add: station_wired_def)
  have "station_wired R n sy'" by (rule sys_step_wired [OF step assms ok]) simp
  moreover have "engine_runs R (clears_stop inp) (rest_of sy) (rest_of sy')"
    by (rule engine_moves.sys_step_rest [OF step])
  ultimately show ?thesis using runs_events by (fastforce simp: station_step_def Bus_Turn r engine_of_def)
next
  case (Reply_Ready error bytes)
  let ?sy = "sy\<lparr>sys_mc := lcc_memconfig_complete error bytes (sys_mc sy)\<rparr>"
  have "lcc_system_ok ?sy" using assms
    by (auto simp: station_wired_def lcc_system_ok_def deferred_ok_def lcc_memconfig_complete_def)
  then have "station_wired R n ?sy" by (rule sys_step_wired [OF engine_moves.complete_step assms]) simp
  moreover have "rest_of ?sy = rest_of sy" by (simp add: rest_of_def lcc_memconfig_complete_def)
  ultimately show ?thesis
    by (auto simp: station_step_def Reply_Ready engine_of_def option.map_id intro!: exI [of _ "[]"])
next
  case (Engine_Event e)
  let ?w = "on_engine (dcc_event_step R e) (rest_of sy)"
  have "station_wired R n (set_rest ?w sy)"
    using assms by (simp add: station_wired_def set_rest_def system_keeps_def memconfig_keeps_def lcc_system_ok_def deferred_ok_def)
  then show ?thesis
    by (auto simp: station_step_def Engine_Event engine_of_def set_rest_def rest_of_def on_engine_def clears_stop_def
        intro!: exI [of _ "[e]"] option.map_cong0)
next
  case (Other_Tasks w)
  have "station_wired R n (set_rest v sy)" for v
    using assms by (simp add: station_wired_def set_rest_def system_keeps_def memconfig_keeps_def lcc_system_ok_def deferred_ok_def)
  then show ?thesis
    by (auto simp: station_step_def Other_Tasks engine_of_def set_rest_def rest_of_def option.map_id intro!: exI [of _ "[]"])
qed

lemma station_run_wired:
  assumes "station_wired R n (snd s)" and "\<forall>inp\<in>set inputs. \<not> clears_stop inp \<or> cl"
  shows "station_wired R n (snd (station_run R inputs s)) \<and>
    (\<exists>es. (Command Clear_Emergency_Stop_All \<in> set es \<longrightarrow> cl) \<and>
       engine_of (station_run R inputs s) = map_option (fold (dcc_event_step R) es) (engine_of s))"
  using assms
proof (induction inputs arbitrary: s)
  case Nil
  then show ?case by (auto simp: station_run_def option.map_id intro!: exI [of _ "[]"])
next
  case (Cons inp inputs)
  obtain task sy where s: "s = (task, sy)" by (cases s)
  let ?s = "station_step R inp s"
  obtain es where 1: "station_wired R n (snd ?s)" "Command Clear_Emergency_Stop_All \<in> set es \<longrightarrow> clears_stop inp"
      "engine_of ?s = map_option (fold (dcc_event_step R) es) (engine_of s)"
    using station_step_wired [of R n sy inp task] Cons.prems(1) by (auto simp: s)
  obtain es' where 2: "station_wired R n (snd (station_run R inputs ?s))" "Command Clear_Emergency_Stop_All \<in> set es' \<longrightarrow> cl"
      "engine_of (station_run R inputs ?s) = map_option (fold (dcc_event_step R) es') (engine_of ?s)"
    using Cons.IH [OF 1(1)] Cons.prems(2) by auto
  have run: "station_run R (inp # inputs) s = station_run R inputs ?s" by (simp add: station_run_def)
  show ?case using 1 2 Cons.prems(2) unfolding run
    by (intro conjI exI [of _ "es @ es'"]) (auto simp: option.map_comp comp_def)
qed

section \<open>The emergency stop event\<close>

lemma stop_event_handled:
  assumes "reported_event f = Some LCC_EVENT_EMERGENCY_STOP" and "sys_events sy = station_events R n w0"
    and "node_id (sys_nodes sy ! 0) = n" and "alias_state (sys_nodes sy ! 0) = LCC_A_CONFIRMED"
  shows "\<exists>w. snd (lcc_node_handle_frame 0 f sy) = set_rest w sy \<and>
    g_dcc_engine w = map_option (dcc_emergency_stop_all R) (g_dcc_engine (rest_of sy))"
proof -
  have f: "\<not> lcc_is_control_frame (fr_id f)" "lcc_get_can_frame_type (fr_id f) = LCC_FRAME_GLOBAL_ADDRESSED"
      "lcc_get_mti (fr_id f) = LCC_MTI_EVENT_REPORT" "\<not> dlc f < 8" "lcc_event_from_buf (fr_data f) = LCC_EVENT_EMERGENCY_STOP"
    using assms(1) by (auto simp: reported_event_def split: if_splits)
  have h: "lcc_node_handle_frame 0 f sy = node_events 0 f sy"
    using f assms(4) by (simp add: lcc_node_handle_frame_def Let_def is_datagram_type_def lcc_consts)
  have e: "snd (lcc_events_handle_frame (sys_nodes sy ! 0) f (station_events R n w0) w) = on_engine (dcc_emergency_stop_all R) w" for w
    using f assms(3) by (simp add: lcc_events_handle_frame_def Let_def event_table report_registered_def find_range_def
        handle_emergency_event_def lcc_consts accy_consts)
  show ?thesis unfolding h node_events_def assms(2) split_beta
    by (intro exI [of _ "on_engine (dcc_emergency_stop_all R) (rest_of sy)"]) (simp add: e, simp add: on_engine_def)
qed

lemma held_runs:
  assumes "fifo_queue R" and "engine_runs R False w w'" and "g_dcc_engine w = Some dcc" and "engine_ok R dcc" and "estop_all dcc"
  shows "\<exists>dcc'. g_dcc_engine w' = Some dcc' \<and> engine_ok R dcc' \<and> estop_all dcc'"
proof -
  obtain es where es: "Command Clear_Emergency_Stop_All \<notin> set es" "g_dcc_engine w' = Some (fold (dcc_event_step R) es dcc)"
    using runs_events [OF assms(2)] assms(3) by auto
  have "estop_all (fold (dcc_event_step R) es dcc)"
    using estop_all_held_safe [OF assms(1,4) _ es(1)] assms(5) by (simp add: dcc_emergency_stop_all_held_def)
  then show ?thesis using es(2) engine_ok_run [OF assms(1,4)] by simp
qed

lemma stop_turn:
  assumes "fifo_queue R" and "station_wired R n sy" and "engine_of (task, sy) = Some dcc" and "engine_ok R dcc"
    and "reported_event f = Some LCC_EVENT_EMERGENCY_STOP" and "alias_state (sys_nodes sy ! 0) = LCC_A_CONFIRMED"
    and "lcc_task_turn (Some f) t c (task, sy) = (fs, task', sy')"
  shows "\<exists>dcc'. g_dcc_engine (rest_of sy') = Some dcc' \<and> engine_ok R dcc' \<and> estop_all dcc'"
proof -
  let ?step = "engine_moves.sys_step R False"
  note trans = engine_moves.sys_step_trans
  have k: "system_keeps (engine_runs R False) (station_space R) sy" using assms(2) by (simp add: station_wired_def)
  obtain w0 where ev: "sys_events sy = station_events R n w0" using assms(2) by (auto simp: station_wired_def)
  have "events_keep (engine_runs R False) (station_events R n w0) LCC_EVENT_EMERGENCY_STOP"
    by (rule events_engine) (simp add: lcc_consts)
  then have rep: "report_keeps (engine_runs R False) (station_events R n w0) f" using assms(5) by (simp add: report_keeps_def)
  define s1 where "s1 = global_probe f (snd (global_search f sy))"
  have 1: "?step sy s1" unfolding s1_def
    using engine_moves.search_step [OF k, of f] engine_moves.probe_step engine_moves.sys_step_keeps [OF _ k] trans by metis
  have "orderly sy (fst (global_search f sy), s1)"
    using orderly_seq [OF _ global_probe_orderly, of sy "fst (global_search f sy)" "snd (global_search f sy)" f]
      global_search_orderly [of sy f] by (simp add: s1_def)
  then have node: "node_id (sys_nodes s1 ! 0) = n" "alias_state (sys_nodes s1 ! 0) = LCC_A_CONFIRMED"
      "length (sys_nodes sy) \<le> length (sys_nodes s1)"
    using assms(2,6) by (auto simp: orderly_def station_wired_def grows_def outlives_def)
  have ev1: "sys_events s1 = station_events R n w0" using 1 ev by (simp add: engine_moves.sys_step_def)
  obtain w where w: "snd (lcc_node_handle_frame 0 f s1) = set_rest w s1"
      "g_dcc_engine w = map_option (dcc_emergency_stop_all R) (g_dcc_engine (rest_of s1))"
    using stop_event_handled [OF assms(5) ev1 node(1,2)] by blast
  obtain dcc1 where dcc1: "g_dcc_engine (rest_of s1) = Some dcc1" "engine_ok R dcc1"
    using runs_events [OF engine_moves.sys_step_rest [OF 1]] assms(3,4) engine_ok_run [OF assms(1,4)] by (auto simp: engine_of_def)
  have held: "g_dcc_engine w = Some (dcc_emergency_stop_all R dcc1)" "estop_all (dcc_emergency_stop_all R dcc1)"
      "engine_ok R (dcc_emergency_stop_all R dcc1)"
    using w(2) dcc1 event_ok [OF assms(1) dcc1(2), of "Command Emergency_Stop_All"] by (simp_all add: dcc_emergency_stop_all_def)
  let ?s2 = "set_rest w s1"
  have some: "sys_nodes s1 \<noteq> []" using node(3) assms(2) by (auto simp: station_wired_def)
  have 2: "?step s1 ?s2"
    using engine_moves.node_frame_step [OF engine_moves.sys_step_keeps [OF 1 k], of 0 f] some rep
    by (simp add: w(1) ev1)
  have k2: "system_keeps (engine_runs R False) (station_space R) ?s2"
    by (rule engine_moves.sys_step_keeps [OF 2 engine_moves.sys_step_keeps [OF 1 k]])
  define s3 where "s3 = snd (handle_at [1..<length (sys_nodes sy)] f ?s2)"
  have 3: "?step ?s2 s3" unfolding s3_def
    using node(3) rep by (intro engine_moves.handle_at_step [OF k2]) (auto simp: set_rest_def ev1)
  have "[0..<length (sys_nodes sy)] = 0 # [1..<length (sys_nodes sy)]"
    using assms(2) by (simp add: station_wired_def upt_conv_Cons)
  moreover have "\<not> lcc_is_control_frame (fr_id f)" "lcc_get_can_frame_type (fr_id f) = LCC_FRAME_GLOBAL_ADDRESSED"
      "lcc_get_mti (fr_id f) AND LCC_MTI_ADDRESS_MASK = 0"
    using assms(5) by (auto simp: reported_event_def lcc_consts split: if_splits)
  ultimately have d: "snd (lcc_if_dispatch f sy) = s3"
    by (simp add: lcc_if_dispatch_def Let_def split_beta s1_def [symmetric] w(1) s3_def)
  define s4 where "s4 = snd (flush_deferred s3)"
  define s5 where "s5 = snd (tick_aliases s4)"
  have 4: "?step ?s2 s4" using trans [OF 3 engine_moves.other_steps(1)] by (simp add: s4_def)
  have 5: "?step ?s2 (snd (flush_searches s5))"
    using trans [OF trans [OF 4 engine_moves.other_steps(2)] engine_moves.other_steps(3)] by (simp add: s5_def)
  have "sy' = s4 \<or> sy' = snd (flush_searches s5)"
    using assms(7) by (auto simp: lcc_task_turn_def d s4_def s5_def split_beta Let_def split: if_splits)
  then have "?step ?s2 sy'" using 4 5 by auto
  from engine_moves.sys_step_rest [OF this] have "engine_runs R False w (rest_of sy')" by (simp add: rest_of_def set_rest_def)
  from held_runs [OF assms(1) this held(1,3,2)] show ?thesis .
qed

text \<open>
  C1: The emergency stop of the layout. Start the command station with any engine in order, let
  the bus, the engine's own loop, the consumer of its queue and the other tasks do whatever they
  do in whatever order; then a frame reports the Emergency Stop event while the station's node
  has its alias. From the end of that turn on, whatever frames arrive (throttles, consists,
  searches, configuration, accessories) and whatever the tasks do, as long as nothing reports
  the Clear Emergency Stop event or clears the engine directly: the stop is held, and no packet
  that would drive a loco is put into the output queue.
\<close>

theorem emergency_stop_over_the_bus:
  assumes "fifo_queue R" and "engine_ok R dcc0"
    and "s0 = (task, lcc_interface_init R board_id version cdi allocated executed (Some dcc0) trk w)"
    and "s1 = station_run R before s0" and "alias_state (sys_nodes (snd s1) ! 0) = LCC_A_CONFIRMED"
    and "reported_event f = Some LCC_EVENT_EMERGENCY_STOP"
    and "s2 = station_step R (Bus_Turn (Some f) now_tick usb) s1" and "\<forall>inp\<in>set afterwards. \<not> clears_stop inp"
  shows "\<exists>dcc2 dcc3. engine_of s2 = Some dcc2 \<and> engine_of (station_run R afterwards s2) = Some dcc3 \<and>
    dcc_emergency_stop_all_held dcc3 \<and> progress R harmless dcc2 dcc3"
proof -
  let ?n = "get_unique_node_id board_id"
  have "station_wired R ?n (snd s0)" using init_wired by (simp add: assms(3))
  from station_run_wired [OF this, of "before" True] have 1: "station_wired R ?n (snd s1)"
      "\<exists>es. engine_of s1 = map_option (fold (dcc_event_step R) es) (engine_of s0)" unfolding assms(4) by auto
  have "engine_of s0 = Some dcc0"
    by (simp add: assms(3) engine_of_def lcc_interface_init_def Let_def split_beta rest_of_def cs_memconfig_def
        lcc_memconfig_set_hooks_def lcc_memconfig_register_spaces_def lcc_accessory_init_def)
  with 1(2) obtain dcc1 where dcc1: "engine_of s1 = Some dcc1" "engine_ok R dcc1" using engine_ok_run [OF assms(1,2)] by auto
  obtain task1 sy1 where s1: "s1 = (task1, sy1)" by (cases s1)
  obtain fs task2 sy2 where t: "lcc_task_turn (Some f) now_tick usb (task1, sy1) = (fs, task2, sy2)" by (metis prod_cases3)
  have s2: "s2 = (task2, sy2)" using assms(7) t by (simp add: s1 station_step_def)
  obtain dcc2 where dcc2: "engine_of s2 = Some dcc2" "engine_ok R dcc2" "estop_all dcc2"
    using stop_turn [OF assms(1) _ _ dcc1(2) assms(6) _ t, of ?n] 1(1) dcc1(1) assms(5) by (auto simp: s1 s2 engine_of_def)
  have "station_wired R ?n (snd s2)"
    using station_step_wired [of R ?n sy1 "Bus_Turn (Some f) now_tick usb" task1] 1(1) by (simp add: assms(7) s1)
  from station_run_wired [OF this, of afterwards False] assms(8) obtain es where
    es: "Command Clear_Emergency_Stop_All \<notin> set es" "engine_of (station_run R afterwards s2) = Some (fold (dcc_event_step R) es dcc2)"
    using dcc2(1) by auto
  have "dcc_emergency_stop_all_held dcc2" using dcc2(3) by (simp add: dcc_emergency_stop_all_held_def)
  from estop_all_held_safe [OF assms(1) dcc2(2) this es(1)] show ?thesis using dcc2(1) es(2) by blast
qed

text \<open>The start of a station: its only node ticks on a quiet bus until it has its alias.\<close>

lemma quiet_turn:
  assumes "sys_nodes sy = [node]" and "role node = LCC_ROLE_CS" and "df_state (g_deferred (sys_mc sy)) = DEFERRED_IDLE"
    and "alias_state node \<noteq> LCC_A_CONFIRMED"
    and "lcc_alias_tick (sys_events sy) (rest_of sy) node (sys_lock sy) = (fs, node', held)" and "role node' = LCC_ROLE_CS"
    and "\<not> sint (t - next_tick task) < 0"
  shows "station_step R (Bus_Turn None t usb) (task, sy) =
    (\<lparr>next_tick = next_tick task + TICK_PERIOD_MS, prev_connected = usb\<rparr>, sy\<lparr>sys_nodes := [node'], sys_lock := held\<rparr>)"
  using assms(4,5,7) by (simp add: station_step_def lcc_task_turn_def flush_deferred_def lcc_memconfig_flush_deferred_def assms(1,2,3,6)
      tick_aliases_def flush_searches_def lcc_train_search_flush_pending_def flush_node_def Let_def)

definition quiet_ticks :: "'q station_input list" where
  "quiet_ticks = map (\<lambda>t. Bus_Turn None t False) [100, 200, 300, 400]"

definition board :: "u8 list" where "board = [0xE6, 0x61, 0x38, 0x52, 0x83, 0x2A, 0x91, 0x2C]"

definition powered_on :: "pkt_ptr list station \<Rightarrow> pkt_ptr list running" where
  "powered_on w = (\<lparr>next_tick = 100, prev_connected = False\<rparr>,
     lcc_interface_init q8 board [49] [60, 62, 0] True True (Some running_engine) None w)"

definition stop_frame :: lcc_frame where
  "stop_frame = event_frame LCC_MTI_EVENT_REPORT 0x123 LCC_EVENT_EMERGENCY_STOP"

lemma stop_frame_reports: "reported_event stop_frame = Some LCC_EVENT_EMERGENCY_STOP"
proof -
  have "\<not> lcc_is_control_frame (fr_id stop_frame)" "lcc_get_can_frame_type (fr_id stop_frame) = LCC_FRAME_GLOBAL_ADDRESSED"
    by (simp_all add: stop_frame_def event_frame_def lcc_can_id_def lcc_is_control_frame_def lcc_get_can_frame_type_def lcc_consts)
  then show ?thesis by (simp add: reported_event_def event_frame_fields stop_frame_def lcc_consts)
qed

lemma powered_on_confirms: "alias_state (sys_nodes (snd (station_run q8 quiet_ticks (powered_on w))) ! 0) = LCC_A_CONFIRMED"
proof -
  obtain task sy where s: "powered_on w = (task, sy)" by (cases "powered_on w")
  define n where "n = (g_cs_node board [49] :: pkt_ptr list train_node)"
  have n: "sys_nodes sy = [n]" "role n = LCC_ROLE_CS" "df_state (g_deferred (sys_mc sy)) = DEFERRED_IDLE"
    "alias_state n = LCC_A_IDLE" "node_alias n = 0" "sys_lock sy = False" "next_tick task = 100"
    using s by (auto simp: powered_on_def lcc_interface_init_def Let_def split_beta n_def lcc_node_register_def
        lcc_node_registry_reset_def LCC_MAX_NODES_def cs_memconfig_def lcc_memconfig_set_hooks_def
        lcc_memconfig_register_spaces_def g_cs_node_def lcc_memconfig_register_node_spaces_def lcc_node_init_def)
  define n1 where "n1 = n\<lparr>node_alias := lcc_alias_seed (node_id n), alias_state := LCC_A_CID, alias_wait_ticks := 0\<rparr>"
  note tick = lcc_alias_tick_def lcc_if_alias_try_lock_def Let_def ALIAS_WAIT_TICKS_def TICK_PERIOD_MS_def word_le_nat_alt
  show ?thesis unfolding s station_run_def quiet_ticks_def
    by (simp add: quiet_turn [where node = n] quiet_turn n tick)
qed

theorem emergency_stop_over_the_bus_witness:
  "\<forall>w. let s2 = station_step q8 (Bus_Turn (Some stop_frame) 450 False) (station_run q8 quiet_ticks (powered_on w))
     in \<exists>dcc2 dcc3. engine_of s2 = Some dcc2 \<and>
       engine_of (station_run q8 [Engine_Event (Command (Set_Throttle 3 False 20 True)), Bus_Turn None 500 False] s2) = Some dcc3 \<and>
       dcc_emergency_stop_all_held dcc3 \<and> progress q8 harmless dcc2 dcc3"
proof
  fix w
  have "\<forall>inp\<in>set [Engine_Event (Command (Set_Throttle 3 False 20 True)), Bus_Turn None 500 False]. \<not> clears_stop inp"
    by (simp add: clears_stop_def)
  from emergency_stop_over_the_bus [OF q8_fifo running_engine_ok powered_on_def refl powered_on_confirms
      stop_frame_reports refl this]
  show "let s2 = station_step q8 (Bus_Turn (Some stop_frame) 450 False) (station_run q8 quiet_ticks (powered_on w))
     in \<exists>dcc2 dcc3. engine_of s2 = Some dcc2 \<and>
       engine_of (station_run q8 [Engine_Event (Command (Set_Throttle 3 False 20 True)), Bus_Turn None 500 False] s2) = Some dcc3 \<and>
       dcc_emergency_stop_all_held dcc3 \<and> progress q8 harmless dcc2 dcc3"
    unfolding Let_def .
qed

end
