(* ===== verification/Lcc_Pool.thy ===== *)
theory Lcc_Pool
  imports Station_Safety
begin

text \<open>
  The pool of train nodes: \<^verbatim>\<open>train_find_by_addr\<close> and \<^verbatim>\<open>train_allocator\<close> of \<^verbatim>\<open>src/src/protocol/lcc_interface.c\<close>
  (theory \<open>Lcc_Station\<close>) under the searches of \<^verbatim>\<open>src/src/lcc/lcc_train_search.c\<close>. The locale \<open>address_pool\<close>
  is what the searches need of a pool; its interpretation is on the allocator.
\<close>

section \<open>First come, first served\<close>

text \<open>The distinct elements of a list in the order in which they come first.\<close>

primrec first_seen :: "'a list \<Rightarrow> 'a list" where
  "first_seen [] = []"
| "first_seen (a # as) = a # filter (\<lambda>b. b \<noteq> a) (first_seen as)"

lemma first_seen_set [simp]: "set (first_seen as) = set as"
  by (induction as) auto

lemma first_seen_distinct [simp]: "distinct (first_seen as)"
  by (induction as) auto

definition pool_add :: "nat \<Rightarrow> 'a \<Rightarrow> 'a list \<Rightarrow> 'a list" where
  "pool_add cap a xs = (if a \<in> set xs \<or> length xs = cap then xs else xs @ [a])"

lemma fold_pool_add:
  assumes "length xs \<le> cap"
  shows "fold (pool_add cap) as xs = take cap (xs @ filter (\<lambda>a. a \<notin> set xs) (first_seen as))"
  using assms
proof (induction as arbitrary: xs)
  case (Cons a as)
  consider "a \<in> set xs" | "a \<notin> set xs" "length xs = cap" | "a \<notin> set xs" "length xs < cap" using Cons.prems by linarith
  then show ?case
  proof cases
    case 1
    then have "(\<lambda>b. b \<noteq> a \<and> b \<notin> set xs) = (\<lambda>b. b \<notin> set xs)" by blast
    then show ?thesis using 1 Cons by (simp add: pool_add_def conj_commute)
  next
    case 2
    then show ?thesis using Cons by (simp add: pool_add_def)
  next
    case 3
    then show ?thesis using Cons.IH [of "xs @ [a]"] by (simp add: pool_add_def conj_commute)
  qed
qed simp

text \<open>
  A pool of entries, each for one address: looking an address up gives the entry made for it,
  the entries are numbered from 1, and an address is added unless it is there or the pool is full.
\<close>

locale address_pool =
  fixes ok :: "'s \<Rightarrow> bool" and addresses :: "'s \<Rightarrow> 'a list" and lookup :: "'a \<Rightarrow> 's \<Rightarrow> nat option"
    and alloc :: "'a \<Rightarrow> 'r \<Rightarrow> 's \<Rightarrow> 's" and cap :: nat
  assumes alloc_ok: "ok s \<Longrightarrow> ok (alloc a r s)"
    and alloc_adds: "ok s \<Longrightarrow> addresses (alloc a r s) = pool_add cap a (addresses s)"
    and lookup_entry: "ok s \<Longrightarrow> lookup a s = Some j \<longleftrightarrow> 0 < j \<and> j \<le> length (addresses s) \<and> addresses s ! (j - 1) = a"
begin

lemma serve_ok: "ok s \<Longrightarrow> ok (fold (\<lambda>(a, r). alloc a r) reqs s)"
  by (induction reqs arbitrary: s) (auto simp: alloc_ok)

lemma serve_addresses:
  "ok s \<Longrightarrow> addresses (fold (\<lambda>(a, r). alloc a r) reqs s) = fold (pool_add cap) (map fst reqs) (addresses s)"
  by (induction reqs arbitrary: s) (auto simp: alloc_ok alloc_adds)

theorem serve_in_order:
  assumes "ok s" and "addresses s = []"
  shows "addresses (fold (\<lambda>(a, r). alloc a r) reqs s) = take cap (first_seen (map fst reqs))"
  by (simp add: serve_addresses assms fold_pool_add)

lemma entry_kept: "ok s \<Longrightarrow> lookup a s = Some j \<Longrightarrow> lookup a (alloc b r s) = Some j"
  by (auto simp: lookup_entry alloc_ok alloc_adds pool_add_def nth_append)

end

section \<open>The pool of train nodes\<close>

text \<open>The addresses of the train nodes: every node but the command station's own.\<close>

definition train_address :: "(lcc_train_state, 's) lcc_node \<Rightarrow> u16" where
  "train_address node = (case train node of Some t \<Rightarrow> tn_dcc_address t | None \<Rightarrow> 0)"

definition pool_addresses :: "'q train_node list \<times> 'q station \<Rightarrow> u16 list" where
  "pool_addresses s = map train_address (tl (fst s))"

text \<open>No slot is ever freed, so the slots hold the train nodes in the order of the registry.\<close>

definition pool_ok :: "'q train_node list \<times> 'q station \<Rightarrow> bool" where
  "pool_ok s \<longleftrightarrow> fst s \<noteq> [] \<and> length (fst s) \<le> LCC_MAX_NODES \<and>
     g_train_slots (snd s) = map Some [1..<length (fst s)] @ replicate (LCC_MAX_NODES - length (fst s)) None \<and>
     (\<forall>node\<in>set (tl (fst s)). train node \<noteq> None) \<and> distinct (pool_addresses s)"

definition pool_lookup :: "u16 \<Rightarrow> 'q train_node list \<times> 'q station \<Rightarrow> nat option" where
  "pool_lookup a s = train_find_by_addr a (fst s) (g_train_slots (snd s))"

lemma slot_address_nth:
  "pool_ok s \<Longrightarrow> 0 < j \<Longrightarrow> j < length (fst s) \<Longrightarrow> slot_address (fst s) (Some j) = Some (pool_addresses s ! (j - 1))"
proof -
  assume a: "pool_ok s" "0 < j" "j < length (fst s)"
  then have n: "fst s ! j = tl (fst s) ! (j - 1)" "j - 1 < length (tl (fst s))" by (auto simp: nth_tl)
  then have "train (fst s ! j) \<noteq> None" using a(1) nth_mem unfolding pool_ok_def by metis
  then show ?thesis using n by (auto simp: slot_address_def pool_addresses_def train_address_def)
qed

lemma pool_lookup_entry:
  assumes "pool_ok s"
  shows "pool_lookup a s = Some j \<longleftrightarrow> 0 < j \<and> j \<le> length (pool_addresses s) \<and> pool_addresses s ! (j - 1) = a"
proof -
  let ?slots = "g_train_slots (snd s)" and ?P = "\<lambda>slot. slot_address (fst s) slot = Some a"
  have slots: "?slots = map Some [1..<length (fst s)] @ replicate (LCC_MAX_NODES - length (fst s)) None"
    and len: "length (pool_addresses s) = length (fst s) - 1" and dist: "distinct (pool_addresses s)" and some: "fst s \<noteq> []"
    using assms by (simp_all add: pool_ok_def pool_addresses_def)
  have none: "\<not> ?P None" by (simp add: slot_address_def)
  have P: "?P (Some i) \<longleftrightarrow> pool_addresses s ! (i - 1) = a" if "0 < i" "i < length (fst s)" for i
    using slot_address_nth [OF assms that] by simp
  have inset: "y \<in> set ?slots \<Longrightarrow> y = None \<or> (\<exists>i. y = Some i \<and> 0 < i \<and> i < length (fst s))"
      "0 < i \<Longrightarrow> i < length (fst s) \<Longrightarrow> Some i \<in> set ?slots" for y i
    unfolding slots by auto
  have uniq: "i = j" if "0 < i" "i < length (fst s)" "0 < j" "j < length (fst s)"
      "pool_addresses s ! (i - 1) = pool_addresses s ! (j - 1)" for i j
  proof -
    have "i - 1 < length (pool_addresses s)" "j - 1 < length (pool_addresses s)" unfolding len using that by linarith+
    from nth_eq_iff_index_eq [OF dist this] that(5) have "i - 1 = j - 1" by blast
    then show ?thesis using that(1,3) by linarith
  qed
  show ?thesis
  proof
    assume "pool_lookup a s = Some j"
    then have "find ?P ?slots = Some (Some j)"
      by (simp add: pool_lookup_def train_find_by_addr_def split: option.splits)
    then have "Some j \<in> set ?slots" "?P (Some j)" unfolding find_Some_iff by (metis nth_mem)+
    then have "0 < j" "j < length (fst s)" using inset(1) by blast+
    then show "0 < j \<and> j \<le> length (pool_addresses s) \<and> pool_addresses s ! (j - 1) = a"
      using P [of j] \<open>?P (Some j)\<close> some len by simp
  next
    assume r: "0 < j \<and> j \<le> length (pool_addresses s) \<and> pool_addresses s ! (j - 1) = a"
    then have j: "0 < j" "j < length (fst s)" using len some by (auto simp: Suc_le_eq)
    then have "Some j \<in> set ?slots" "?P (Some j)" using P [OF j] r inset(2) [OF j] by simp_all
    then obtain x where x: "find ?P ?slots = Some x" using find_None_iff [of ?P ?slots] by blast
    then have "x \<in> set ?slots" "?P x" unfolding find_Some_iff by (metis nth_mem)+
    then obtain i where i: "x = Some i" "0 < i" "i < length (fst s)" using none inset(1) by blast
    then have "i = j" using uniq [OF i(2,3) j] P [OF i(2,3)] \<open>?P x\<close> r by simp
    then show "pool_lookup a s = Some j" using x i by (simp add: pool_lookup_def train_find_by_addr_def)
  qed
qed

lemma note_search_address [simp]:
  "train_address (note_search ev node) = train_address node" "train (note_search ev node) = None \<longleftrightarrow> train node = None"
  by (auto simp: note_search_def train_address_def split: option.split)

lemma addresses_update:
  assumes "train_address n = train_address (nodes ! j)"
  shows "map train_address (tl (nodes[j := n])) = map train_address (tl nodes)"
proof (cases nodes)
  case (Cons m ms)
  show ?thesis
  proof (cases j)
    case (Suc i)
    then have "train_address n = map train_address ms ! i \<or> length ms \<le> i" using assms Cons by (cases "i < length ms") auto
    then show ?thesis using Cons Suc by (auto simp: map_update list_update_beyond)
  qed (simp add: Cons)
qed simp

lemma new_train_address [simp]:
  "train_address (new_train_node R version a l ev) = a" "\<exists>t. train (new_train_node R version a l ev) = Some t"
  by (simp_all add: train_address_def new_train_node_def lcc_traction_register_cv_space_def
      lcc_memconfig_register_node_spaces_def lcc_train_state_init_def)

text \<open>The first free slot.\<close>

lemma free_slot:
  assumes "0 < n" and "n \<le> m" and "slots = map Some [1..<n] @ replicate (m - n) None"
  shows "find (\<lambda>i. slots ! i = None) [0..<length slots] = (if n < m then Some (n - 1) else None)"
    and "n < m \<Longrightarrow> slots[n - 1 := Some n] = map Some [1..<Suc n] @ replicate (m - Suc n) None"
proof -
  have used: "slots ! i \<noteq> None" if "i < n - 1" for i using that by (simp add: assms(3) nth_append)
  show "find (\<lambda>i. slots ! i = None) [0..<length slots] = (if n < m then Some (n - 1) else None)"
  proof (cases "n < m")
    case True
    then have "n - 1 < length slots" "slots ! (n - 1) = None" using assms by (simp_all add: nth_append)
    then have "find (\<lambda>i. slots ! i = None) [0..<length slots] = Some (n - 1)"
      unfolding find_Some_iff using used by (intro exI [of _ "n - 1"]) simp
    with True show ?thesis by simp
  next
    case False
    then have "length slots = n - 1" using assms(3) by simp
    then show ?thesis using False used by (auto simp: find_None_iff)
  qed
  show "slots[n - 1 := Some n] = map Some [1..<Suc n] @ replicate (m - Suc n) None" if "n < m"
  proof -
    have "replicate (m - n) None = (None :: nat option) # replicate (m - Suc n) None"
      using that by (cases "m - n") (simp_all add: Suc_diff_Suc)
    then show ?thesis using assms(1) by (simp add: assms(3) list_update_append)
  qed
qed

lemma pool_lookup_Some:
  assumes "pool_ok s"
  shows "(\<exists>j. pool_lookup a s = Some j) \<longleftrightarrow> a \<in> set (pool_addresses s)"
proof
  assume "a \<in> set (pool_addresses s)"
  then obtain i where "i < length (pool_addresses s)" "pool_addresses s ! i = a" by (auto simp: in_set_conv_nth)
  then have "pool_lookup a s = Some (Suc i)" by (simp add: pool_lookup_entry [OF assms])
  then show "\<exists>j. pool_lookup a s = Some j" ..
next
  assume "\<exists>j. pool_lookup a s = Some j"
  then show "a \<in> set (pool_addresses s)" using pool_lookup_entry [OF assms, of a] nth_mem
    by (metis One_nat_def Suc_pred' less_eq_Suc_le)
qed

lemma allocator_pool:
  assumes "pool_ok s"
  shows "pool_ok (train_allocator R version a fl ev s)"
    and "pool_addresses (train_allocator R version a fl ev s) = pool_add LCC_TRAIN_POOL_SIZE a (pool_addresses s)"
proof -
  obtain nodes w where s: "s = (nodes, w)" by (cases s)
  let ?s = "train_allocator R version a fl ev s" and ?n = "length nodes"
  have len: "length (pool_addresses s) = ?n - 1" and some: "nodes \<noteq> []" "?n \<le> LCC_MAX_NODES"
    and slots: "g_train_slots w = map Some [1..<?n] @ replicate (LCC_MAX_NODES - ?n) None"
    using assms by (simp_all add: pool_addresses_def s pool_ok_def)
  have cap: "LCC_TRAIN_POOL_SIZE = LCC_MAX_NODES - 1" "1 < LCC_MAX_NODES"
    by (simp_all add: LCC_TRAIN_POOL_SIZE_def LCC_MAX_NODES_def)
  note mem = pool_lookup_Some [OF assms, of a, symmetric]
  have "pool_ok ?s \<and> pool_addresses ?s = pool_add LCC_TRAIN_POOL_SIZE a (pool_addresses s)"
  proof (cases "pool_lookup a s")
    case (Some j)
    then have e: "?s = (nodes[j := note_search ev (nodes ! j)], w)"
      by (simp add: train_allocator_def s pool_lookup_def)
    have addr: "pool_addresses ?s = pool_addresses s" unfolding e pool_addresses_def by (simp add: addresses_update s)
    have "train node \<noteq> None" if "node \<in> set (tl (nodes[j := note_search ev (nodes ! j)]))" for node
    proof -
      have j: "0 < j" "j < ?n" using Some pool_lookup_entry [OF assms, of a j] len some by (auto simp: Suc_le_eq)
      then have "nodes ! j \<in> set (tl nodes)" by (metis One_nat_def Suc_pred' diff_less_mono length_tl less_eq_Suc_le nth_mem nth_tl)
      moreover have "node \<in> insert (note_search ev (nodes ! j)) (set (tl nodes))"
        using that j set_update_subset_insert by (cases nodes; cases j) (auto dest: subsetD [OF set_update_subset_insert])
      ultimately have "node = note_search ev (nodes ! j) \<or> node \<in> set (tl nodes)" "train (nodes ! j) \<noteq> None"
        using assms by (auto simp: pool_ok_def s)
      then show ?thesis using assms note_search_address(2) [of ev "nodes ! j"] unfolding pool_ok_def s by fastforce
    qed
    then have "pool_ok ?s" using assms addr some by (simp add: pool_ok_def e [unfolded s] s)
    with addr mem Some show ?thesis by (simp add: pool_add_def)
  next
    case None
    note none = None
    have look: "train_find_by_addr a nodes (g_train_slots w) = None" using None by (simp add: pool_lookup_def s)
    have "0 < ?n" using some(1) by simp
    note free = free_slot [OF this some(2) slots]
    show ?thesis
    proof (cases "?n < LCC_MAX_NODES")
      case True
      obtain l where e: "?s = (nodes @ [new_train_node R version a l ev],
          on_engine (dcc_ensure_loco a l) (w\<lparr>g_train_slots := (g_train_slots w)[?n - 1 := Some ?n]\<rparr>))"
        using True some free(1) by (simp add: train_allocator_def s look Let_def lcc_node_register_def)
      have addr: "pool_addresses ?s = pool_addresses s @ [a]" using some by (simp add: pool_addresses_def e [unfolded s] s)
      have "pool_ok ?s"
        using assms addr none mem some free(2) True
        by (auto simp: pool_ok_def e [unfolded s] s on_engine_def)
      moreover have "length (pool_addresses s) \<noteq> LCC_TRAIN_POOL_SIZE" using len True cap some by simp
      ultimately show ?thesis using addr mem none by (simp add: pool_add_def)
    next
      case False
      then have "?s = s" using some free(1) by (simp add: train_allocator_def s look)
      moreover have "length (pool_addresses s) = LCC_TRAIN_POOL_SIZE" using len False cap some by simp
      ultimately show ?thesis using assms by (simp add: pool_add_def)
    qed
  qed
  then show "pool_ok ?s" "pool_addresses ?s = pool_add LCC_TRAIN_POOL_SIZE a (pool_addresses s)" by simp_all
qed

interpretation train_pool: address_pool pool_ok pool_addresses pool_lookup
    "\<lambda>a r. train_allocator R version a (fst r) (snd r)" LCC_TRAIN_POOL_SIZE for R version
  by unfold_locales (auto simp: allocator_pool pool_lookup_entry)

lemma init_pool:
  "pool_ok (sys_nodes (lcc_interface_init R board_id version cdi allocated executed dcc trk w),
     rest_of (lcc_interface_init R board_id version cdi allocated executed dcc trk w))"
  "pool_addresses (sys_nodes (lcc_interface_init R board_id version cdi allocated executed dcc trk w), v) = []"
  by (simp_all add: lcc_interface_init_def Let_def split_beta lcc_node_register_def lcc_node_registry_reset_def
      LCC_MAX_NODES_def LCC_TRAIN_POOL_SIZE_def cs_memconfig_def lcc_memconfig_set_hooks_def
      lcc_memconfig_register_spaces_def rest_of_def pool_ok_def pool_addresses_def lcc_accessory_init_def)

text \<open>What the searches and probes of the bus ask of the allocator, in order.\<close>

definition serve_requests ::
  "'q q_api \<Rightarrow> u8 list \<Rightarrow> (u16 \<times> u8 \<times> u64) list \<Rightarrow> 'q train_node list \<times> 'q station \<Rightarrow> 'q train_node list \<times> 'q station" where
  "serve_requests R version reqs s = fold (\<lambda>(a, fl, ev). train_allocator R version a fl ev) reqs s"

text \<open>
  C16: Trains are served in the order they are first asked for. From the start of the station,
  whatever addresses are asked for in whatever order and however often: the train nodes are
  those of the first 23 distinct addresses, in that order, one node each; looking an address up
  gives its node and nothing for the others; and nothing is ever handed to a second address.
\<close>

theorem pool_serves_first_comers:
  "case serve_requests R version reqs
      (sys_nodes (lcc_interface_init R board_id version cdi allocated executed dcc trk w),
       rest_of (lcc_interface_init R board_id version cdi allocated executed dcc trk w)) of
     (nodes, v) \<Rightarrow>
       map train_address (tl nodes) = take LCC_TRAIN_POOL_SIZE (first_seen (map fst reqs)) \<and>
       (\<forall>a j. train_find_by_addr a nodes (g_train_slots v) = Some j \<longleftrightarrow>
          0 < j \<and> j < length nodes \<and> train_address (nodes ! j) = a)"
proof -
  let ?sy = "lcc_interface_init R board_id version cdi allocated executed dcc trk w"
  obtain nodes v where s: "serve_requests R version reqs (sys_nodes ?sy, rest_of ?sy) = (nodes, v)" by (metis surj_pair)
  have f: "serve_requests R version reqs (sys_nodes ?sy, rest_of ?sy) =
      fold (\<lambda>(a, r). train_allocator R version a (fst r) (snd r)) reqs (sys_nodes ?sy, rest_of ?sy)"
  proof -
    have "(\<lambda>(a, fl, ev). train_allocator R version a fl ev) = (\<lambda>(a, r). train_allocator R version a (fst r) (snd r))"
      by (auto simp: fun_eq_iff)
    then show ?thesis by (simp only: serve_requests_def)
  qed
  have p: "pool_ok (sys_nodes ?sy, rest_of ?sy)" "pool_addresses (sys_nodes ?sy, rest_of ?sy) = []" by (rule init_pool)+
  have addr: "pool_addresses (nodes, v) = take LCC_TRAIN_POOL_SIZE (first_seen (map fst reqs))"
    using train_pool.serve_in_order [OF p, of R version reqs] unfolding f [symmetric] s .
  have ok: "pool_ok (nodes, v)"
    using train_pool.serve_ok [OF p(1), of R version reqs] unfolding f [symmetric] s .
  have "train_find_by_addr a nodes (g_train_slots v) = Some j \<longleftrightarrow> 0 < j \<and> j < length nodes \<and> train_address (nodes ! j) = a" for a j
  proof -
    have len: "length (pool_addresses (nodes, v)) = length nodes - 1" "nodes \<noteq> []"
      using ok by (simp_all add: pool_addresses_def pool_ok_def)
    have "pool_addresses (nodes, v) ! (j - 1) = train_address (nodes ! j)" if "0 < j" "j < length nodes"
      using that len by (simp add: pool_addresses_def nth_tl)
    then show ?thesis using pool_lookup_entry [OF ok, of a j] len by (auto simp: pool_lookup_def Suc_le_eq)
  qed
  then show ?thesis using addr unfolding s by (simp add: pool_addresses_def)
qed


section \<open>Allocating searches\<close>

lemma created_address: "lcc_train_search_address (lcc_train_search_create_event a flags) = a"
proof -
  let ?f = "\<lambda>d addr. if d \<le> 9 then addr * 10 + u16_of d else addr"
  have "fold ?f (replicate n (0xF :: u8)) x = x" for n x by (induction n) simp_all
  then show ?thesis using decimal_value [of a] by (simp add: lcc_train_search_address_def created_event created_digits_def)
qed

lemma own_search_matches: "does_address_match a (created_digits a) flags"
proof -
  have "decimal a \<noteq> []" using decimals_pos [of "unat a"] unat_gt_0 [of a] by (auto simp: decimal_def simp del: decimals.simps)
  then show ?thesis unfolding does_address_match_def decimal_train created_filter Let_def by (simp add: list_all_iff)
qed

lemma new_train_found:
  assumes "ev = lcc_train_search_create_event a flags" and "flags AND LCC_TRAIN_SEARCH_FLAG_ALLOCATE \<noteq> 0"
    and "l \<longleftrightarrow> flags AND LCC_TRAIN_SEARCH_FLAG_LONG_ADDR \<noteq> 0 \<or> a > LCC_DCC_SHORT_ADDR_MAX"
  shows "found ev (new_train_node R version a l ev)" and "pending (new_train_node R version a l ev) = ev"
    and "alias_state (new_train_node R version a l ev) = LCC_A_IDLE"
  using assms own_search_matches [of a flags]
  by (simp_all add: found_def pending_def new_train_node_def lcc_traction_register_cv_space_def lcc_node_init_def
      lcc_memconfig_register_node_spaces_def lcc_train_state_init_def created_event created_address does_train_match_def Let_def)

lemma allocator_new:
  assumes "pool_ok (nodes, w)" and "a \<notin> set (pool_addresses (nodes, w))" and "length nodes < LCC_MAX_NODES"
    and "l \<longleftrightarrow> fl AND LCC_TRAIN_SEARCH_FLAG_LONG_ADDR \<noteq> 0 \<or> a > LCC_DCC_SHORT_ADDR_MAX"
  shows "train_allocator R version a fl ev (nodes, w) =
    (nodes @ [new_train_node R version a l ev],
     on_engine (dcc_ensure_loco a l) (w\<lparr>g_train_slots := (g_train_slots w)[length nodes - 1 := Some (length nodes)]\<rparr>))"
proof -
  have n: "0 < length nodes" "length nodes \<le> LCC_MAX_NODES"
    and slots: "g_train_slots w = map Some [1..<length nodes] @ replicate (LCC_MAX_NODES - length nodes) None"
    using assms(1) by (simp_all add: pool_ok_def)
  have "train_find_by_addr a nodes (g_train_slots w) = None" using pool_lookup_Some [OF assms(1), of a] assms(2) by (simp add: pool_lookup_def)
  then show ?thesis using free_slot(1) [OF n slots] assms(3,4)
    by (simp add: train_allocator_def Let_def lcc_node_register_def)
qed

text \<open>
  C15: An allocating search gets its train. A search for a number with the ALLOCATE flag, while
  a node is free and no train has that address: either some train there already matches, and no
  node is made; or nothing is sent now, one node is registered for exactly that address, the
  engine has the loco in its table, the new train matches the search, owes it the answer, and
  gives it in the first flush after its alias is confirmed.
\<close>

theorem allocating_search_served:
  assumes "pool_ok (nodes, w)" and "length nodes < LCC_MAX_NODES" and "a \<notin> set (pool_addresses (nodes, w))"
    and "ev = lcc_train_search_create_event a flags" and "flags AND LCC_TRAIN_SEARCH_FLAG_ALLOCATE \<noteq> 0"
    and "\<not> has_reserved_values (extract_digits ev) flags"
    and "lcc_train_search_dispatch (Some (train_allocator R version)) ev (nodes, w) = (fs, (nodes1, w1))"
  shows "if \<exists>n\<in>set nodes. found ev n then length nodes1 = length nodes \<and> w1 = w
    else fs = [] \<and> (\<exists>node l. nodes1 = nodes @ [node] \<and> train_address node = a \<and> found ev node \<and>
      g_dcc_engine w1 = map_option (dcc_ensure_loco a l) (g_dcc_engine w) \<and> pool_ok (nodes1, w1) \<and>
      fst (flush_node (length nodes) (nodes @ [node\<lparr>alias_state := LCC_A_CONFIRMED\<rparr>])) =
        send_producer_identified_valid (node\<lparr>alias_state := LCC_A_CONFIRMED\<rparr>) ev)"
proof -
  note ev = created_event [of a flags, folded assms(4)] created_address [of a flags, folded assms(4)]
  have d: "lcc_train_search_dispatch (Some (train_allocator R version)) ev (nodes, w) =
      (let nodes' = map (\<lambda>n. if found ev n \<and> \<not> confirmed n then set_pending ev n else n) nodes;
           fs' = concat (map (\<lambda>n. send_producer_identified_valid n ev) (filter (\<lambda>n. found ev n \<and> confirmed n) nodes))
       in if \<exists>n\<in>set nodes. found ev n then (fs', (nodes', w)) else (fs', train_allocator R version a flags ev (nodes', w)))"
    using assms(5,6) by (simp add: lcc_train_search_dispatch_def search_nodes_all ev Let_def)
  show ?thesis
  proof (cases "\<exists>n\<in>set nodes. found ev n")
    case True
    then show ?thesis using assms(7) by (auto simp: d Let_def)
  next
    case False
    then have same: "map (\<lambda>n. if found ev n \<and> \<not> confirmed n then set_pending ev n else n) nodes = nodes"
      by (intro map_idI) auto
    define l where "l \<longleftrightarrow> flags AND LCC_TRAIN_SEARCH_FLAG_LONG_ADDR \<noteq> 0 \<or> a > LCC_DCC_SHORT_ADDR_MAX"
    let ?node = "new_train_node R version a l ev"
    have alloc: "fs = []" "(nodes1, w1) = train_allocator R version a flags ev (nodes, w)"
      using False assms(7) by (auto simp: d same Let_def filter_empty_conv)
    note new = allocator_new [OF assms(1,3,2) l_def, of R version ev]
    have "pool_ok (nodes1, w1)" unfolding alloc(2) by (rule allocator_pool(1) [OF assms(1)])
    moreover have "role ?node = LCC_ROLE_TRAIN"
      by (simp add: new_train_node_def lcc_traction_register_cv_space_def lcc_memconfig_register_node_spaces_def lcc_node_init_def)
    moreover have "pending (?node\<lparr>alias_state := LCC_A_CONFIRMED\<rparr>) = ev"
      using new_train_found(2) [OF assms(4,5) l_def] by (simp add: pending_def)
    moreover have "ev \<noteq> 0" using search_event_nonzero ev(1) by blast
    ultimately show ?thesis
      using False alloc new new_train_found(1) [OF assms(4,5) l_def, of R version]
      by (auto simp: flush_node_eq waiting_def nth_append on_engine_def intro!: exI [of _ l])
  qed
qed

text \<open>The station just started is asked for loco 3.\<close>

definition allocate_3 :: u64 where
  "allocate_3 = lcc_train_search_create_event 3 (LCC_TRAIN_SEARCH_FLAG_ALLOCATE OR LCC_TRAIN_SEARCH_FLAG_DCC)"

definition fresh_station :: "pkt_ptr list station \<Rightarrow> pkt_ptr list station lcc_system" where
  "fresh_station w = lcc_interface_init q8 board [49] [60, 62, 0] True True (Some running_engine) None w"

lemma fresh_nodes: "sys_nodes (fresh_station w) = [g_cs_node board [49]]" "role (g_cs_node board [49]) = LCC_ROLE_CS"
  by (simp_all add: fresh_station_def lcc_interface_init_def Let_def split_beta lcc_node_register_def
      lcc_node_registry_reset_def LCC_MAX_NODES_def g_cs_node_def lcc_memconfig_register_node_spaces_def lcc_node_init_def)

theorem allocating_search_served_witness:
  "\<forall>w. \<exists>node w1. lcc_train_search_dispatch (Some (train_allocator q8 [49])) allocate_3
       (sys_nodes (fresh_station w), rest_of (fresh_station w)) = ([], ([g_cs_node board [49], node], w1)) \<and>
     train_address node = 3 \<and> found allocate_3 node"
proof
  fix w
  let ?s = "(sys_nodes (fresh_station w), rest_of (fresh_station w))"
  obtain fs nodes1 w1 where d: "lcc_train_search_dispatch (Some (train_allocator q8 [49])) allocate_3 ?s = (fs, (nodes1, w1))"
    by (metis prod_cases3)
  have "decimal 3 = [3]" by (simp add: decimal_def decimals_pos)
  then have "created_digits 3 = [15, 15, 15, 15, 15, 3]" by (simp add: created_digits_def numeral_eq_Suc)
  then have res: "\<not> has_reserved_values (extract_digits allocate_3) (LCC_TRAIN_SEARCH_FLAG_ALLOCATE OR LCC_TRAIN_SEARCH_FLAG_DCC)"
    by (simp add: allocate_3_def created_event has_reserved_values_def lcc_consts)
  have p: "pool_ok ?s" "pool_addresses ?s = []" unfolding fresh_station_def by (rule init_pool)+
  have n: "length (sys_nodes (fresh_station w)) < LCC_MAX_NODES" by (simp add: fresh_nodes LCC_MAX_NODES_def)
  have a: "3 \<notin> set (pool_addresses ?s)" by (simp add: p(2))
  have f: "LCC_TRAIN_SEARCH_FLAG_ALLOCATE OR LCC_TRAIN_SEARCH_FLAG_DCC AND LCC_TRAIN_SEARCH_FLAG_ALLOCATE \<noteq> 0"
    "(LCC_TRAIN_SEARCH_FLAG_ALLOCATE OR LCC_TRAIN_SEARCH_FLAG_DCC) AND LCC_TRAIN_SEARCH_FLAG_ALLOCATE \<noteq> 0"
    by (simp_all add: lcc_consts)
  have "\<not> (\<exists>n\<in>set (sys_nodes (fresh_station w)). found allocate_3 n)" by (simp add: fresh_nodes found_def)
  with allocating_search_served [OF p(1) n a allocate_3_def f(2) res d] d
  show "\<exists>node w1. lcc_train_search_dispatch (Some (train_allocator q8 [49])) allocate_3 ?s = ([], ([g_cs_node board [49], node], w1)) \<and>
     train_address node = 3 \<and> found allocate_3 node"
    by (auto simp: fresh_nodes)
qed

text \<open>
  The allocator looks for the address only, the search also for its kind: a search for the long
  address of a train that has it as a short one finds nothing, and the allocator takes the short
  train for the one asked for. Once that train has its alias, nobody answers.
\<close>

theorem long_search_unanswered:
  assumes "pool_ok (nodes, w)" and "a \<in> set (pool_addresses (nodes, w))"
    and "\<forall>node\<in>set nodes. confirmed node \<and> (\<forall>t. train node = Some t \<longrightarrow> \<not> tn_is_long_address t)"
    and "lcc_train_search_flags ev AND LCC_TRAIN_SEARCH_FLAG_DCC \<noteq> 0"
    and "lcc_train_search_flags ev AND LCC_TRAIN_SEARCH_FLAG_LONG_ADDR \<noteq> 0" and "lcc_train_search_address ev = a"
  shows "lcc_train_search_dispatch (Some (train_allocator R version)) ev (nodes, w) = ([], (nodes, w))"
proof -
  have none: "\<not> found ev n" if "n \<in> set nodes" for n
    using that assms(3,4,5) by (auto simp: found_def does_train_match_def Let_def split: option.splits)
  then have same: "map (\<lambda>n. if found ev n \<and> \<not> confirmed n then set_pending ev n else n) nodes = nodes"
    by (intro map_idI) auto
  obtain j where j: "pool_lookup a (nodes, w) = Some j" using pool_lookup_Some [OF assms(1)] assms(2) by blast
  then have "j < length nodes" using pool_lookup_entry [OF assms(1), of a j]
    by (simp add: pool_addresses_def) linarith
  then have "confirmed (nodes ! j)" using assms(3) by simp
  then have "note_search ev (nodes ! j) = nodes ! j" by (simp add: note_search_def split: option.split)
  then have "train_allocator R version a fl ev (nodes, w) = (nodes, w)" for fl
    using j by (simp add: train_allocator_def pool_lookup_def)
  then show ?thesis using none
    by (auto simp: lcc_train_search_dispatch_def search_nodes_all same Let_def assms(6) filter_empty_conv)
qed

end
