(* ===== verification/Station_Commands.thy ===== *)
theory Station_Commands
  imports Lcc_Pool
begin

text \<open>
  Commands that cross the whole program, from a frame or a datagram on the bus to what the engine
  queues or the service mode task is asked to do: a throttle command at a train node (theories
  \<open>Lcc_If\<close>, \<open>Lcc_Traction\<close>, \<open>Lcc_Station\<close>, \<open>Dcc\<close>), and a CV on the programming track (theories
  \<open>Lcc_Memconfig\<close>, \<open>Lcc_Station\<close>, \<open>Servicemode\<close>, \<open>Svc_Cv\<close>).
\<close>

section \<open>A throttle command over the bus\<close>

text \<open>A traction command in one frame, from the node with alias \<open>src\<close> to the one with \<open>dst\<close>.\<close>

definition traction_frame :: "u16 \<Rightarrow> u16 \<Rightarrow> u8 list \<Rightarrow> lcc_frame" where
  "traction_frame src dst payload =
     \<lparr>fr_id = lcc_can_id LCC_MTI_TRACTION_CONTROL_COMMAND src, fr_data = lcc_frame_build_addressed_hdr dst 0 @ payload\<rparr>"

lemma traction_frame_fields:
  assumes "src < 0x1000" and "dst < 0x1000"
  shows "\<not> lcc_is_control_frame (fr_id (traction_frame src dst payload))"
    and "lcc_get_can_frame_type (fr_id (traction_frame src dst payload)) = LCC_FRAME_GLOBAL_ADDRESSED"
    and "lcc_get_mti (fr_id (traction_frame src dst payload)) = LCC_MTI_TRACTION_CONTROL_COMMAND"
    and "lcc_get_src (fr_id (traction_frame src dst payload)) = src"
    and "lcc_frame_addressed_dst (traction_frame src dst payload) = dst"
    and "lcc_frame_addressed_is_first (traction_frame src dst payload)" "lcc_frame_addressed_is_last (traction_frame src dst payload)"
    and "drop 2 (fr_data (traction_frame src dst payload)) = payload" "dlc (traction_frame src dst payload) = 2 + length payload"
proof -
  have m: "LCC_MTI_TRACTION_CONTROL_COMMAND < 0x1000" by (simp add: lcc_consts)
  note can_id_fields [OF m assms(1)]
  then show "\<not> lcc_is_control_frame (fr_id (traction_frame src dst payload))"
    "lcc_get_can_frame_type (fr_id (traction_frame src dst payload)) = LCC_FRAME_GLOBAL_ADDRESSED"
    "lcc_get_mti (fr_id (traction_frame src dst payload)) = LCC_MTI_TRACTION_CONTROL_COMMAND"
    "lcc_get_src (fr_id (traction_frame src dst payload)) = src" by (simp_all add: traction_frame_def)
  show "lcc_frame_addressed_dst (traction_frame src dst payload) = dst"
    "lcc_frame_addressed_is_first (traction_frame src dst payload)" "lcc_frame_addressed_is_last (traction_frame src dst payload)"
    "drop 2 (fr_data (traction_frame src dst payload)) = payload" "dlc (traction_frame src dst payload) = 2 + length payload"
    using addressed_hdr_fields [OF assms(2)]
    by (simp_all add: traction_frame_def lcc_frame_addressed_is_first_def lcc_frame_addressed_is_last_def)
qed

lemma no_slaves:
  assumes "train (fst s ! i) = Some t" and "\<forall>k\<in>set ks. ce_node_id (tn_consist t ! k) = 0"
  shows "forward_slots handle i src_alias cmd payload ks s = ([], s)"
  using assms(2) by (induction ks) (simp_all add: forward_slot_def assms(1))

text \<open>The frame at the train it is for.\<close>

lemma set_speed_at_train:
  assumes "src < 0x1000" and "dst < 0x1000" and "lcc_node_find_by_alias dst (sys_nodes sy) = Some i"
    and "train (sys_nodes sy ! i) = Some t" and "\<forall>k<LCC_MAX_CONSIST_SLAVES. ce_node_id (tn_consist t ! k) = 0"
    and "sys_hooks sy = g_traction_hooks R"
    and "f = traction_frame src dst [LCC_TRAC_SET_SPEED_DIR, u8_of (shr v 8), u8_of v]"
  shows "lcc_if_dispatch f sy = ([],
    set_rest (on_engine (dcc_set_throttle R (tn_dcc_address t) (tn_is_long_address t) (f16_to_dcc_speed_step v)
                           (\<not> lcc_float16_is_negative v)) (rest_of sy))
      (sy\<lparr>sys_nodes := set_train i (t\<lparr>tn_last_speed_f16 := v, tn_emergency := False\<rparr>) (sys_nodes sy)\<rparr>))"
proof -
  let ?t = "t\<lparr>tn_last_speed_f16 := v, tn_emergency := False\<rparr>"
  have i: "i < length (sys_nodes sy)" "alias_state (sys_nodes sy ! i) = LCC_A_CONFIRMED" "node_alias (sys_nodes sy ! i) = dst"
    using assms(3) by (auto simp: lcc_node_find_by_alias_def find_Some_iff)
  note fields = traction_frame_fields [OF assms(1,2), where payload = "[LCC_TRAC_SET_SPEED_DIR, u8_of (shr v 8), u8_of v]", folded assms(7)]
  have val: "shl (u16_of (u8_of (shr v 8))) 8 OR u16_of (u8_of v) = v" by (simp add: word_bits_simps)
  have slots: "forward_slots (handle_listener (g_traction_hooks R)) i src LCC_TRAC_SET_SPEED_DIR payload [0..<LCC_MAX_CONSIST_SLAVES]
      (set_train i ?t (sys_nodes sy), w) = ([], (set_train i ?t (sys_nodes sy), w))" for payload w
    using i(1) assms(5) by (intro no_slaves [where t = ?t]) (simp_all add: set_train_def)
  have tr: "lcc_traction_handle_frame (g_traction_hooks R) i f (sys_nodes sy, rest_of sy) = ([], (set_train i ?t (sys_nodes sy),
      on_engine (dcc_set_throttle R (tn_dcc_address t) (tn_is_long_address t) (f16_to_dcc_speed_step v)
        (\<not> lcc_float16_is_negative v)) (rest_of sy)))"
    using assms(4) fields slots val
    by (simp add: lcc_traction_handle_frame_def handle_frame_with_def Let_def dispatch_traction_def dispatch_with_def
        on_set_speed_def forward_to_consist_def LCC_TRAC_SET_SPEED_DIR_def LCC_TRAC_REQ_LISTENER_def
        traction_set_throttle_def g_traction_hooks_def del: upt_Suc)
  have "lcc_node_handle_frame i f sy = on_layout (lcc_traction_handle_frame (g_traction_hooks R) i f) sy"
    using i fields assms(6)
    by (simp add: lcc_node_handle_frame_def Let_def is_datagram_type_def addressed_dst_matches_def lcc_consts)
  then show ?thesis using fields assms(3) tr
    by (simp add: lcc_if_dispatch_def Let_def handle_by_alias_def on_layout_def lcc_consts)
qed

text \<open>
  C3: A throttle command on the bus becomes one packet on the track. A Set Speed command for a
  train of the station, without a consist, arrives in a frame from another node, while no
  emergency stop is held and the engine has room: nothing is sent on the bus, the train keeps
  the speed, the loco's entry in the engine is at the speed step for it, and exactly one packet
  is queued: the loco's address, the 128-step instruction, and the step with the direction.
\<close>

theorem throttle_over_the_bus:
  assumes "fifo_queue R" and "queue_room R n" and "g_dcc_engine (rest_of sy) = Some dcc" and "engine_ok R dcc"
    and "\<not> estop_all dcc" and "length (queue_items R (output_queue dcc)) < n"
    and "card (pool_used (packet_pool dcc)) < PACKET_POOL_SIZE"
    and "src < 0x1000" and "dst < 0x1000" and "sys_hooks sy = g_traction_hooks R"
    and "lcc_node_find_by_alias dst (sys_nodes sy) = Some i" and "train (sys_nodes sy ! i) = Some t"
    and "\<forall>k<LCC_MAX_CONSIST_SLAVES. ce_node_id (tn_consist t ! k) = 0"
    and "find_loco_locked dcc (tn_dcc_address t) \<noteq> None \<or> (\<exists>l\<in>set (locos dcc). \<not> loco_active l)"
    and "f = traction_frame src dst [LCC_TRAC_SET_SPEED_DIR, u8_of (shr v 8), u8_of v]"
    and "lcc_if_dispatch f sy = (fs, sy')"
    and "step = (f16_to_dcc_speed_step v AND 0x7F) OR (if lcc_float16_is_negative v then 0 else 0x80)"
    and "long \<longleftrightarrow> tn_is_long_address t \<or> tn_dcc_address t > SHORT_ADDRESS_MAX"
  shows "fs = [] \<and> train (sys_nodes sy' ! i) = Some (t\<lparr>tn_last_speed_f16 := v, tn_emergency := False\<rparr>) \<and>
    (\<exists>dcc' k. g_dcc_engine (rest_of sy') = Some dcc' \<and>
       dcc_get_last_throttle dcc' = Some (tn_dcc_address t, long, step) \<and>
       queue_items R (output_queue dcc') = queue_items R (output_queue dcc) @ [k] \<and>
       pkt_bytes (packet_pool dcc' ! k) = address_bytes (tn_dcc_address t) long @ [0x3F, step])"
proof -
  have i: "i < length (sys_nodes sy)" using assms(11) by (auto simp: lcc_node_find_by_alias_def find_Some_iff)
  let ?dcc' = "dcc_set_throttle R (tn_dcc_address t) (tn_is_long_address t) (f16_to_dcc_speed_step v) (\<not> lcc_float16_is_negative v) dcc"
  note d = set_speed_at_train [OF assms(8,9,11,12,13,10,15), unfolded assms(16)]
  have "g_dcc_engine (rest_of sy') = Some ?dcc'" using d assms(3) by (simp add: rest_of_def set_rest_def on_engine_def)
  moreover have "fs = []" "train (sys_nodes sy' ! i) = Some (t\<lparr>tn_last_speed_f16 := v, tn_emergency := False\<rparr>)"
    using d i by (simp_all add: set_rest_def set_train_def)
  ultimately show ?thesis
    using set_throttle_sends [OF assms(1,2,4-7,14), where is_long = "tn_is_long_address t" and speed = "f16_to_dcc_speed_step v" and forward = "\<not> lcc_float16_is_negative v"]
      assms(17,18) by (auto simp: Let_def)
qed

text \<open>A station with a train node for loco 3 that has alias 0x555, and an idle engine.\<close>

definition train_3 :: "pkt_ptr list train_node" where
  "train_3 = (new_train_node q8 [49] 3 False 0)\<lparr>alias_state := LCC_A_CONFIRMED, node_alias := 0x555\<rparr>"

definition with_train :: "pkt_ptr list station \<Rightarrow> pkt_ptr list station lcc_system" where
  "with_train w = (lcc_interface_init q8 board [49] [60, 62, 0] True True (Some (dcc_init [] packet_pool_init)) None w)
     \<lparr>sys_nodes := [g_cs_node board [49], train_3]\<rparr>"

theorem throttle_over_the_bus_witness:
  "\<forall>w. \<exists>sy' dcc' k. lcc_if_dispatch (traction_frame 0x123 0x555 [LCC_TRAC_SET_SPEED_DIR, 0x00, 0x00]) (with_train w) = ([], sy') \<and>
     g_dcc_engine (rest_of sy') = Some dcc' \<and> output_queue dcc' = [k] \<and> pkt_bytes (packet_pool dcc' ! k) = [3, 0x3F, 0x80]"
proof
  fix w
  let ?sy = "with_train w" and ?d = "dcc_init [] packet_pool_init" and ?f = "traction_frame 0x123 0x555 [LCC_TRAC_SET_SPEED_DIR, 0x00, 0x00]"
  obtain fs sy' where r: "lcc_if_dispatch ?f ?sy = (fs, sy')" by (metis surj_pair)
  have eng: "g_dcc_engine (rest_of ?sy) = Some ?d" "sys_hooks ?sy = g_traction_hooks q8"
    by (simp_all add: with_train_def lcc_interface_init_def Let_def split_beta rest_of_def cs_memconfig_def
        lcc_memconfig_set_hooks_def lcc_memconfig_register_spaces_def lcc_accessory_init_def)
  have ok: "engine_ok q8 ?d"
    using dcc_init_wf by (simp add: engine_ok_def q8_def bounded_queue_def dcc_init_def)
  have room: "queue_room q8 8" by (simp add: q8_def bounded_queue_room)
  have 2: "\<not> estop_all ?d" "length (queue_items q8 (output_queue ?d)) < 8"
    "card (pool_used (packet_pool ?d)) < PACKET_POOL_SIZE"
    "find_loco_locked ?d a \<noteq> None \<or> (\<exists>l\<in>set (locos ?d). \<not> loco_active l)" for a
    using packet_pool_init_wf
    by (simp_all add: dcc_init_def q8_def bounded_queue_def PACKET_POOL_SIZE_def MAX_LOCOS_def zero_loco_def)
  have t: "train train_3 = Some (lcc_train_state_init 3 False)"
    by (simp add: train_3_def new_train_node_def lcc_traction_register_cv_space_def lcc_memconfig_register_node_spaces_def
        lcc_train_state_init_def)
  have find: "lcc_node_find_by_alias 0x555 (sys_nodes ?sy) = Some 1"
    by (simp add: with_train_def lcc_node_find_by_alias_def train_3_def g_cs_node_def lcc_memconfig_register_node_spaces_def lcc_node_init_def)
  have slaves: "\<forall>k<LCC_MAX_CONSIST_SLAVES. ce_node_id (tn_consist (lcc_train_state_init 3 False) ! k) = 0"
    by (simp add: lcc_train_state_init_def empty_entry_def)
  have at: "train (sys_nodes ?sy ! 1) = Some (lcc_train_state_init 3 False)" by (simp add: with_train_def t)
  from throttle_over_the_bus [OF q8_fifo room eng(1) ok 2(1,2,3) _ _ eng(2) find at slaves 2(4), of "0x123" ?f 0 fs sy' "0x80" False] r
  show "\<exists>sy' dcc' k. lcc_if_dispatch ?f ?sy = ([], sy') \<and> g_dcc_engine (rest_of sy') = Some dcc' \<and> output_queue dcc' = [k] \<and>
      pkt_bytes (packet_pool dcc' ! k) = [3, 0x3F, 0x80]"
    by (fastforce simp: lcc_train_state_init_def f16_to_dcc_speed_step_def lcc_float16_is_nan_def lcc_float16_is_zero_def
        lcc_float16_is_negative_def SHORT_ADDRESS_MAX_def SHORT_ADDRESS_MAX_PKT_def address_bytes_def q8_def bounded_queue_def dcc_init_def)
qed

section \<open>The programming track over the bus\<close>

text \<open>The request datagrams: a read of one CV (\<open>None\<close>) or a write of a value to it.\<close>

definition progtrack_request :: "u16 \<Rightarrow> u8 option \<Rightarrow> u8 list" where
  "progtrack_request cv wr =
     [LCC_MEMCONFIG_CMD, case wr of None \<Rightarrow> LCC_MEMCFG_READ | Some v \<Rightarrow> LCC_MEMCFG_WRITE] @ be32_to_buf (u32_of (cv - 1)) @
     [LCC_SPACE_DCC_CV, case wr of None \<Rightarrow> 1 | Some v \<Rightarrow> v]"

text \<open>The replies: the value read, nothing for a write, or the error code.\<close>

definition progtrack_reply :: "u16 \<Rightarrow> u8 option \<Rightarrow> svc_result \<Rightarrow> u8 \<Rightarrow> u8 list" where
  "progtrack_reply cv wr res value =
     [LCC_MEMCONFIG_CMD, (case wr of None \<Rightarrow> LCC_MEMCFG_READ_REPLY | Some v \<Rightarrow> LCC_MEMCFG_WRITE_REPLY)
        OR (if res = SVC_OK then 0 else LCC_MEMCFG_REPLY_FAILED)] @ be32_to_buf (u32_of (cv - 1)) @ [LCC_SPACE_DCC_CV] @
     (if res \<noteq> SVC_OK then [u8_of (shr (svc_result_to_error res) 8), u8_of (svc_result_to_error res AND 0xFF)]
      else case wr of None \<Rightarrow> [value] | Some v \<Rightarrow> [])"

text \<open>The callback of a request, by its operation.\<close>

definition progtrack_finish :: "u8 option \<Rightarrow> svc_result \<Rightarrow> u8 \<Rightarrow> 'w memconfig \<Rightarrow> 'w memconfig" where
  "progtrack_finish wr = (case wr of None \<Rightarrow> progtrack_read_done | Some v \<Rightarrow> progtrack_write_done)"

lemma progtrack_request_fields:
  "progtrack_request cv wr = [LCC_MEMCONFIG_CMD, case wr of None \<Rightarrow> LCC_MEMCFG_READ | Some v \<Rightarrow> LCC_MEMCFG_WRITE,
     u8_of (shr (u32_of (cv - 1)) 24 AND 0xFF), u8_of (shr (u32_of (cv - 1)) 16 AND 0xFF),
     u8_of (shr (u32_of (cv - 1)) 8 AND 0xFF), u8_of (u32_of (cv - 1) AND 0xFF),
     LCC_SPACE_DCC_CV, case wr of None \<Rightarrow> 1 | Some v \<Rightarrow> v]"
  by (simp add: progtrack_request_def be32_to_buf_def)

lemma be32_to_buf_back: "be32 ([u8_of (shr a 24 AND 0xFF), u8_of (shr a 16 AND 0xFF), u8_of (shr a 8 AND 0xFF), u8_of (a AND 0xFF)] @ bs) = a"
  by (simp add: be32_def word_bits_simps)

lemma error_nonzero: "res \<noteq> SVC_OK \<Longrightarrow> svc_result_to_error res \<noteq> 0" "svc_result_to_error SVC_OK = 0"
  by (cases res) (simp_all add: svc_result_to_error_def lcc_consts)

lemma progtrack_space:
  "ms_defer (hd g_cs_node_spaces) = Some progtrack_defer" "ms_read (hd g_cs_node_spaces) = None"
  "ms_write (hd g_cs_node_spaces) = None" "\<not> ms_read_only (hd g_cs_node_spaces)" "ms_size (hd g_cs_node_spaces) = 1024"
  by (simp_all add: g_cs_node_spaces_def PROGTRACK_CV_COUNT_def)

lemma progtrack_parse:
  assumes "node_spaces node = g_cs_node_spaces"
  shows "parse_rw node (progtrack_request cv wr) mc =
    Inr \<lparr>rq_space = LCC_SPACE_DCC_CV, rq_addr = u32_of (cv - 1), rq_count = 1,
         rq_data = (case wr of None \<Rightarrow> [] | Some v \<Rightarrow> [v]), rq_h = hd g_cs_node_spaces\<rparr>"
proof -
  have sp: "find_space node LCC_SPACE_DCC_CV mc = Some (hd g_cs_node_spaces)"
    by (simp add: find_space_def assms g_cs_node_spaces_def)
  have dec: "decode_space (progtrack_request cv wr ! 1) (progtrack_request cv wr) = (LCC_SPACE_DCC_CV, u32_of (cv - 1), 7)"
    using be32_to_buf_back [of "u32_of (cv - 1)"]
    by (simp add: progtrack_request_fields decode_space_def Let_def lcc_consts split: option.split)
  show ?thesis unfolding parse_rw_def dec
    using sp by (cases wr) (simp_all add: progtrack_request_fields is_read_cmd_def progtrack_space lcc_consts)
qed


lemma check_rw:
  assumes "length p = 8" and "is_read_cmd (p ! 1) \<or> is_write_cmd (p ! 1)" and "parse_rw node p mc = Inr rq"
    and "ms_defer (rq_h rq) \<noteq> None"
  shows "lcc_memconfig_check node p mc = Inr (LCC_DATAGRAM_OK_REPLY_PENDING OR LCC_MEMCFG_DEFER_TIMEOUT_EXP)"
  using assms by (simp add: lcc_memconfig_check_def Let_def)

lemma cv_address:
  assumes "1 \<le> cv" and "cv \<le> (1024 :: u16)"
  shows "u32_of (cv - 1) < 1024" and "u16_of (u32_of (cv - 1) + 1) = cv"
proof -
  have n: "1 \<le> unat cv" "unat cv \<le> 1024" using assms by (simp_all add: word_le_nat_alt)
  then have "unat (cv - 1) = unat cv - 1" by (simp add: unat_sub word_le_nat_alt)
  then have "unat (u32_of (cv - 1)) = unat cv - 1" using n by (simp add: unsigned_ucast_eq take_bit_eq_mod)
  then show "u32_of (cv - 1) < 1024" using n by (simp add: word_less_nat_alt)
  have "unat (u32_of (cv - 1) + 1) = unat cv"
    using n \<open>unat (u32_of (cv - 1)) = unat cv - 1\<close> by (simp add: unat_word_ariths)
  then have "unat (u16_of (u32_of (cv - 1) + 1)) = unat cv" using n by (simp add: unsigned_ucast_eq take_bit_eq_mod)
  then show "u16_of (u32_of (cv - 1) + 1) = cv" by (simp add: word_unat_eq_iff)
qed

text \<open>
  C8: A CV on the programming track is read and written over the bus. A memory configuration
  request for one CV, at the station while no other is outstanding and the service mode task is
  free: it is accepted with a reply announced, sends nothing yet, and hands the task exactly that
  read or write; a second request is turned away meanwhile. When the task is done, with whatever
  result, the one reply is sent: the value of a read that succeeded, nothing more for a write
  that did, and for every failure its error code; and with a decoder on the track that works as
  the standard asks, what the task does for the request gives the value of that CV, or sets
  that CV and no other.
\<close>

theorem progtrack_over_the_bus:
  assumes "node_spaces node = g_cs_node_spaces" and "1 \<le> cv" and "cv \<le> 1024"
    and "df_state (g_deferred mc) = DEFERRED_IDLE" and "st_servicemode (snd (the_rest mc)) = Some None"
  shows "lcc_memconfig_check node (progtrack_request cv wr) mc = Inr (LCC_DATAGRAM_OK_REPLY_PENDING OR LCC_MEMCFG_DEFER_TIMEOUT_EXP) \<and>
    (\<exists>mc1 req. lcc_memconfig_handle node src (progtrack_request cv wr) mc = ([], mc1) \<and>
       st_servicemode (snd (the_rest mc1)) = Some (Some req) \<and> rq_cv req = cv \<and>
       rq_done req = (if wr = None then Progtrack_Read_Done else Progtrack_Write_Done) \<and>
       (case wr of None \<Rightarrow> rq_op req = SVC_OP_READ | Some v \<Rightarrow> rq_op req = SVC_OP_WRITE \<and> rq_value req = v) \<and>
       (\<forall>other op v f. servicemode_submit op other v (Some f) (st_servicemode (snd (the_rest mc1))) =
          (SVC_BUSY, st_servicemode (snd (the_rest mc1)))) \<and>
       (\<forall>res x. \<exists>mc2. lcc_memconfig_flush_deferred (\<lambda>n. node) (progtrack_finish wr res x mc1) =
            (lcc_datagram_send node src (progtrack_reply cv wr res x), mc2) \<and> df_state (g_deferred mc2) = DEFERRED_IDLE)) \<and>
    (\<forall>send cvs c. compliant send cvs \<longrightarrow>
       (case wr of
          None \<Rightarrow> \<exists>c'. svc_cv_read send cv c = ((SVC_OK, Some (cvs c cv)), c') \<and> cvs c' = cvs c
        | Some v \<Rightarrow> \<exists>c'. svc_cv_write send cv v c = (SVC_OK, c') \<and> cvs c' = (cvs c)(cv := v)))"
proof -
  let ?cmd = "case wr of None \<Rightarrow> LCC_MEMCFG_READ | Some v \<Rightarrow> LCC_MEMCFG_WRITE" and ?a = "u32_of (cv - 1)"
  note parse = progtrack_parse [OF assms(1), of cv wr]
  have buf: "progtrack_request cv wr ! Suc 0 = ?cmd" "length (progtrack_request cv wr) = 8" by (simp_all add: progtrack_request_fields)
  have kind: "is_read_cmd ?cmd = (wr = None)" "is_write_cmd ?cmd = (wr \<noteq> None)"
    by (simp_all add: is_read_cmd_def is_write_cmd_def lcc_consts split: option.split)
  have check: "lcc_memconfig_check node (progtrack_request cv wr) mc = Inr (LCC_DATAGRAM_OK_REPLY_PENDING OR LCC_MEMCFG_DEFER_TIMEOUT_EXP)"
    using kind by (intro check_rw [OF _ _ parse]) (auto simp: buf progtrack_space)
  define req where "req = \<lparr>rq_op = (if wr = None then SVC_OP_READ else SVC_OP_WRITE), rq_cv = cv,
      rq_value = (case wr of None \<Rightarrow> 0 | Some v \<Rightarrow> v),
      rq_done = (if wr = None then Progtrack_Read_Done else Progtrack_Write_Done)\<rparr>"
  define mc1 where "mc1 = mc\<lparr>g_deferred := \<lparr>df_state = DEFERRED_PENDING, df_node = node_id node, df_src_alias = src,
      df_cmd = ?cmd, df_space = LCC_SPACE_DCC_CV, df_addr = ?a, df_error = 0, df_data = []\<rparr>,
      the_rest := (fst (the_rest mc), (snd (the_rest mc))\<lparr>st_servicemode := Some (Some req)\<rparr>)\<rparr>"
  have start: "start_deferred node src ?cmd LCC_SPACE_DCC_CV ?a 1 (map_option (\<lambda>v. [v]) wr) (hd g_cs_node_spaces) progtrack_defer mc = ([], mc1)"
  proof -
    have "\<not> ms_size (hd g_cs_node_spaces :: 'a station trains lcc_memspace) \<le> ?a"
      using cv_address(1) [OF assms(2,3)] by (simp add: progtrack_space)
    then show ?thesis using assms(4,5) cv_address(2) [OF assms(2,3)] unfolding start_deferred_def progtrack_defer_def
      by (cases wr) (simp_all add: Let_def servicemode_submit_def req_def mc1_def error_nonzero(2))
  qed
  have handle: "lcc_memconfig_handle node src (progtrack_request cv wr) mc = ([], mc1)"
  proof (cases wr)
    case None
    then show ?thesis using start parse kind buf
      by (simp add: lcc_memconfig_handle_def Let_def handle_read_def progtrack_space lcc_consts)
  next
    case (Some v)
    then show ?thesis using start parse kind buf
      by (simp add: lcc_memconfig_handle_def Let_def handle_write_def progtrack_space lcc_consts)
  qed
  have reply: "\<exists>mc2. lcc_memconfig_flush_deferred (\<lambda>n. node) (progtrack_finish wr res x mc1) =
      (lcc_datagram_send node src (progtrack_reply cv wr res x), mc2) \<and> df_state (g_deferred mc2) = DEFERRED_IDLE" for res x
    using error_nonzero(1) [of res]
    by (cases wr; cases "res = SVC_OK")
      (simp_all add: mc1_def progtrack_finish_def progtrack_read_done_def progtrack_write_done_def lcc_memconfig_complete_def
        lcc_memconfig_flush_deferred_def Let_def send_reply_def read_write_reply_def progtrack_reply_def error_nonzero(2)
        DEFERRED_DATA_MAX_def LCC_DATAGRAM_MAX_def lcc_consts)
  have decoder: "case wr of None \<Rightarrow> \<exists>c'. svc_cv_read send cv c = ((SVC_OK, Some (cvs c cv)), c') \<and> cvs c' = cvs c
      | Some v \<Rightarrow> \<exists>c'. svc_cv_write send cv v c = (SVC_OK, c') \<and> cvs c' = (cvs c)(cv := v)" if "compliant send cvs" for send cvs c
    using svc_cv_read_compliant [OF that assms(2,3)] svc_cv_write_compliant [OF that assms(2,3)] by (simp split: option.split)
  have q: "st_servicemode (snd (the_rest mc1)) = Some (Some req)" by (simp add: mc1_def)
  then have "servicemode_submit op other v (Some f) (st_servicemode (snd (the_rest mc1))) =
      (SVC_BUSY, st_servicemode (snd (the_rest mc1)))" for other op v f
    by (simp add: servicemode_submit_def)
  then show ?thesis using check handle q reply decoder
    by (intro conjI exI [of _ mc1] exI [of _ req]) (auto simp: req_def split: option.split)
qed


text \<open>The station as it comes up, with an idle service mode task, is asked for CV 8.\<close>

definition idle_memconfig :: "pkt_ptr list station \<Rightarrow> pkt_ptr list station trains memconfig" where
  "idle_memconfig w = cs_memconfig [60, 62, 0] [49] True True (w\<lparr>st_servicemode := Some None\<rparr>)"

theorem progtrack_over_the_bus_witness:
  "\<forall>w. \<exists>mc1 req. lcc_memconfig_handle (g_cs_node board [49]) 0x123 (progtrack_request 8 None) (idle_memconfig w) = ([], mc1) \<and>
     st_servicemode (snd (the_rest mc1)) = Some (Some req) \<and> rq_op req = SVC_OP_READ \<and> rq_cv req = 8"
proof
  fix w
  let ?node = "g_cs_node board [49] :: pkt_ptr list train_node"
  have "node_spaces ?node = g_cs_node_spaces"
    by (simp add: g_cs_node_def lcc_memconfig_register_node_spaces_def g_cs_node_spaces_def LCC_MAX_MEMSPACES_def)
  moreover have "df_state (g_deferred (idle_memconfig w)) = DEFERRED_IDLE"
    "st_servicemode (snd (the_rest (idle_memconfig w))) = Some None"
    by (simp_all add: idle_memconfig_def cs_memconfig_def lcc_memconfig_set_hooks_def lcc_memconfig_register_spaces_def)
  ultimately show "\<exists>mc1 req. lcc_memconfig_handle ?node 0x123 (progtrack_request 8 None) (idle_memconfig w) = ([], mc1) \<and>
     st_servicemode (snd (the_rest mc1)) = Some (Some req) \<and> rq_op req = SVC_OP_READ \<and> rq_cv req = 8"
    using progtrack_over_the_bus [of ?node 8 "idle_memconfig w" None "0x123"] by (auto simp: word_le_nat_alt)
qed

end
