(* ===== verification/Mcp2515.thy ===== *)
theory Mcp2515
  imports Lcc_Station
begin

text \<open>
  The CAN controller: \<^verbatim>\<open>src/src/mcp2515/mcp2515.c\<close> and \<^verbatim>\<open>mcp2515.h\<close>, the driver over SPI, and
  \<^verbatim>\<open>mcp2515_lcc.c\<close>, which makes it a transport of the LCC side. The chip is an argument: its
  transactions, and what its datasheet says of them as the hypothesis \<open>chip_ok\<close>. Proved: the bit
  timing, a frame carried from one driver to another, and what the receive task takes.
\<close>

section \<open>Registers\<close>

named_theorems mcp_consts

definition CMD_RESET :: u8 where [mcp_consts]: "CMD_RESET = 0xC0"
definition CMD_READ :: u8 where [mcp_consts]: "CMD_READ = 0x03"
definition CMD_WRITE :: u8 where [mcp_consts]: "CMD_WRITE = 0x02"
definition CMD_BIT_MODIFY :: u8 where [mcp_consts]: "CMD_BIT_MODIFY = 0x05"
definition CMD_READ_STATUS :: u8 where [mcp_consts]: "CMD_READ_STATUS = 0xA0"
definition CMD_RTS_TXB0 :: u8 where [mcp_consts]: "CMD_RTS_TXB0 = 0x81"

definition REG_BFPCTRL :: u8 where [mcp_consts]: "REG_BFPCTRL = 0x0C"
definition REG_TXRTSCTRL :: u8 where [mcp_consts]: "REG_TXRTSCTRL = 0x0D"
definition REG_CANSTAT :: u8 where [mcp_consts]: "REG_CANSTAT = 0x0E"
definition REG_CANCTRL :: u8 where [mcp_consts]: "REG_CANCTRL = 0x0F"
definition REG_CNF3 :: u8 where [mcp_consts]: "REG_CNF3 = 0x28"
definition REG_CNF2 :: u8 where [mcp_consts]: "REG_CNF2 = 0x29"
definition REG_CNF1 :: u8 where [mcp_consts]: "REG_CNF1 = 0x2A"
definition REG_CANINTE :: u8 where [mcp_consts]: "REG_CANINTE = 0x2B"
definition REG_CANINTF :: u8 where [mcp_consts]: "REG_CANINTF = 0x2C"
definition REG_TXB0CTRL :: u8 where [mcp_consts]: "REG_TXB0CTRL = 0x30"
definition REG_RXB0CTRL :: u8 where [mcp_consts]: "REG_RXB0CTRL = 0x60"
definition REG_RXB1CTRL :: u8 where [mcp_consts]: "REG_RXB1CTRL = 0x70"

definition MODE_NORMAL :: u8 where [mcp_consts]: "MODE_NORMAL = 0x00"
definition MODE_CONFIG :: u8 where [mcp_consts]: "MODE_CONFIG = 0x80"
definition MODE_MASK :: u8 where [mcp_consts]: "MODE_MASK = 0xE0"
definition INTF_RX0IF :: u8 where [mcp_consts]: "INTF_RX0IF = 0x01"
definition INTF_RX1IF :: u8 where [mcp_consts]: "INTF_RX1IF = 0x02"
definition INTF_TX0IF :: u8 where [mcp_consts]: "INTF_TX0IF = 0x04"
definition RXBNCTRL_RXM_ANY :: u8 where [mcp_consts]: "RXBNCTRL_RXM_ANY = 0x60"
definition TXBNSIDL_EXIDE :: u8 where [mcp_consts]: "TXBNSIDL_EXIDE = 0x08"

section \<open>SPI transactions\<close>

text \<open>
  The chip is an argument: \<open>spi bytes n\<close> is one transaction with the chip selected, in which
  \<open>bytes\<close> are written and then \<open>n\<close> bytes read, on the chip's state \<open>'c\<close>.
\<close>

type_synonym 'c spi = "u8 list \<Rightarrow> nat \<Rightarrow> 'c \<Rightarrow> u8 list \<times> 'c"

definition spi_reset :: "'c spi \<Rightarrow> 'c \<Rightarrow> 'c" where
  "spi_reset spi c = snd (spi [CMD_RESET] 0 c)"

text \<open>The byte read is 0 before the read, where the chip gives none.\<close>

definition read_byte :: "u8 list \<Rightarrow> u8" where
  "read_byte rx = (case rx of [] \<Rightarrow> 0 | b # _ \<Rightarrow> b)"

definition reg_read :: "'c spi \<Rightarrow> u8 \<Rightarrow> 'c \<Rightarrow> u8 \<times> 'c" where
  "reg_read spi addr c = (case spi [CMD_READ, addr] 1 c of (rx, c) \<Rightarrow> (read_byte rx, c))"

definition reg_write :: "'c spi \<Rightarrow> u8 \<Rightarrow> u8 \<Rightarrow> 'c \<Rightarrow> 'c" where
  "reg_write spi addr val c = snd (spi [CMD_WRITE, addr, val] 0 c)"

definition reg_write_many :: "'c spi \<Rightarrow> u8 \<Rightarrow> u8 list \<Rightarrow> 'c \<Rightarrow> 'c" where
  "reg_write_many spi addr bytes c = snd (spi ([CMD_WRITE, addr] @ bytes) 0 c)"

definition bit_modify :: "'c spi \<Rightarrow> u8 \<Rightarrow> u8 \<Rightarrow> u8 \<Rightarrow> 'c \<Rightarrow> 'c" where
  "bit_modify spi addr m val c = snd (spi [CMD_BIT_MODIFY, addr, m, val] 0 c)"

definition read_status :: "'c spi \<Rightarrow> 'c \<Rightarrow> u8 \<times> 'c" where
  "read_status spi c = (case spi [CMD_READ_STATUS] 1 c of (rx, c) \<Rightarrow> (read_byte rx, c))"

section \<open>Start-up\<close>

fun cnf_table_8mhz :: "mcp2515_bitrate \<Rightarrow> u8 \<times> u8 \<times> u8" where
  "cnf_table_8mhz MCP2515_BITRATE_125K = (0x01, 0xB1, 0x05)"
| "cnf_table_8mhz MCP2515_BITRATE_250K = (0x00, 0xB1, 0x05)"
| "cnf_table_8mhz MCP2515_BITRATE_500K = (0x00, 0x90, 0x02)"
| "cnf_table_8mhz MCP2515_BITRATE_1M = (0x00, 0x80, 0x00)"

fun cnf_table_16mhz :: "mcp2515_bitrate \<Rightarrow> u8 \<times> u8 \<times> u8" where
  "cnf_table_16mhz MCP2515_BITRATE_125K = (0x03, 0xF0, 0x86)"
| "cnf_table_16mhz MCP2515_BITRATE_250K = (0x41, 0xF1, 0x85)"
| "cnf_table_16mhz MCP2515_BITRATE_500K = (0x00, 0xF0, 0x86)"
| "cnf_table_16mhz MCP2515_BITRATE_1M = (0x00, 0xD0, 0x82)"

definition cnf_of :: "mcp2515_crystal \<Rightarrow> mcp2515_bitrate \<Rightarrow> u8 \<times> u8 \<times> u8" where
  "cnf_of crystal bitrate =
     (if crystal = MCP2515_CRYSTAL_16MHZ then cnf_table_16mhz bitrate else cnf_table_8mhz bitrate)"

text \<open>At most \<open>n\<close> polls, a millisecond apart.\<close>

primrec poll_mode :: "'c spi \<Rightarrow> nat \<Rightarrow> u8 \<Rightarrow> 'c \<Rightarrow> bool \<times> 'c" where
  "poll_mode spi 0 md c = (False, c)"
| "poll_mode spi (Suc n) md c =
     (case reg_read spi REG_CANSTAT c of
        (v, c) \<Rightarrow> if v AND MODE_MASK = md then (True, c) else poll_mode spi n md c)"

definition enter_mode :: "'c spi \<Rightarrow> u8 \<Rightarrow> 'c \<Rightarrow> bool \<times> 'c" where
  "enter_mode spi md c = poll_mode spi 10 md (bit_modify spi REG_CANCTRL MODE_MASK md c)"

text \<open>
  The driver: its configuration, the task it notifies, and the chip. The setting-up of the
  RP2350's pins and of its SPI unit is left out; a configuration always names an SPI unit.
\<close>

record 'c mcp2515 =
  mcp_cfg :: "mcp2515_config option"
  mcp_rx_task :: bool
  mcp_chip :: 'c

definition on_chip :: "('c \<Rightarrow> 'c) \<Rightarrow> 'c mcp2515 \<Rightarrow> 'c mcp2515" where
  "on_chip f d = d\<lparr>mcp_chip := f (mcp_chip d)\<rparr>"

definition program_chip :: "'c spi \<Rightarrow> mcp2515_config \<Rightarrow> 'c \<Rightarrow> bool \<times> 'c" where
  "program_chip spi cfg c =
     (case cnf_of (mc_crystal cfg) (mc_bitrate cfg) of
        (cnf1, cnf2, cnf3) \<Rightarrow>
          enter_mode spi MODE_NORMAL
            (reg_write spi REG_CANINTF 0
              (reg_write spi REG_CANINTE (INTF_RX0IF OR INTF_RX1IF OR INTF_TX0IF)
                (reg_write spi REG_TXRTSCTRL 0
                  (reg_write spi REG_BFPCTRL 0
                    (reg_write spi REG_RXB1CTRL RXBNCTRL_RXM_ANY
                      (reg_write spi REG_RXB0CTRL RXBNCTRL_RXM_ANY
                        (reg_write spi REG_CNF3 cnf3
                          (reg_write spi REG_CNF2 cnf2 (reg_write spi REG_CNF1 cnf1 c))))))))))"

definition mcp2515_init :: "'c spi \<Rightarrow> mcp2515_config option \<Rightarrow> 'c mcp2515 \<Rightarrow> bool \<times> 'c mcp2515" where
  "mcp2515_init spi cfg d =
     (case cfg of
        None \<Rightarrow> (False, d)
      | Some config \<Rightarrow>
          (let d = d\<lparr>mcp_cfg := Some config\<rparr>
           in case reg_read spi REG_CANSTAT (spi_reset spi (mcp_chip d)) of
                (v, c) \<Rightarrow>
                  (if v AND MODE_MASK \<noteq> MODE_CONFIG then (False, d\<lparr>mcp_chip := c\<rparr>)
                   else case reg_read spi REG_CNF1 (reg_write spi REG_CNF1 0xA5 c) of
                          (v, c) \<Rightarrow>
                            (if v \<noteq> 0xA5 then (False, d\<lparr>mcp_chip := c\<rparr>)
                             else case program_chip spi config c of (ok, c) \<Rightarrow> (ok, d\<lparr>mcp_chip := c\<rparr>)))))"

definition mcp2515_set_rx_task :: "bool \<Rightarrow> 'c mcp2515 \<Rightarrow> 'c mcp2515" where
  "mcp2515_set_rx_task task d = d\<lparr>mcp_rx_task := task\<rparr>"

text \<open>Whether the interrupt of a pin notifies the task.\<close>

definition gpio_irq_handler :: "u8 \<Rightarrow> 'c mcp2515 \<Rightarrow> bool" where
  "gpio_irq_handler gpio d \<longleftrightarrow>
     (case mcp_cfg d of None \<Rightarrow> False | Some config \<Rightarrow> gpio = mc_pins config ! 4 \<and> mcp_rx_task d)"

section \<open>Frames\<close>

record mcp2515_frame =
  mf_id :: u32
  mf_dlc :: u8
  mf_data :: "u8 list"

primrec read_regs :: "'c spi \<Rightarrow> nat \<Rightarrow> u8 \<Rightarrow> 'c \<Rightarrow> u8 list \<times> 'c" where
  "read_regs spi 0 addr c = ([], c)"
| "read_regs spi (Suc n) addr c =
     (case reg_read spi addr c of
        (b, c) \<Rightarrow> (case read_regs spi n (addr + 1) c of (bs, c) \<Rightarrow> (b # bs, c)))"

definition rx_id :: "u8 \<Rightarrow> u8 \<Rightarrow> u8 \<Rightarrow> u8 \<Rightarrow> u32" where
  "rx_id sidh sidl eid8 eid0 =
     shl (u32_of sidh) 21 OR shl (u32_of sidl AND 0xE0) 13 OR shl (u32_of sidl AND 0x03) 16
     OR shl (u32_of eid8) 8 OR u32_of eid0"

text \<open>A frame out of the buffer whose first register is \<open>base\<close>; \<open>which\<close> is its flag.\<close>

definition receive_from :: "'c spi \<Rightarrow> u8 \<Rightarrow> u8 \<Rightarrow> 'c \<Rightarrow> mcp2515_frame option \<times> 'c" where
  "receive_from spi which base c =
     (case reg_read spi (base + 0) c of (sidh, c) \<Rightarrow>
      (case reg_read spi (base + 1) c of (sidl, c) \<Rightarrow>
       (case reg_read spi (base + 2) c of (eid8, c) \<Rightarrow>
        (case reg_read spi (base + 3) c of (eid0, c) \<Rightarrow>
         (case reg_read spi (base + 4) c of (v, c) \<Rightarrow>
            (let len = v AND 0x0F
             in if sidl AND 0x08 = 0 then (None, bit_modify spi REG_CANINTF which 0 c)
                else let len = (if len > 8 then 8 else len)
                     in case read_regs spi (unat len) (base + 5) c of
                          (bytes, c) \<Rightarrow>
                            (Some \<lparr>mf_id = rx_id sidh sidl eid8 eid0, mf_dlc = len, mf_data = bytes\<rparr>,
                             bit_modify spi REG_CANINTF which 0 c)))))))"

definition mcp2515_try_receive :: "'c spi \<Rightarrow> 'c mcp2515 \<Rightarrow> mcp2515_frame option \<times> 'c mcp2515" where
  "mcp2515_try_receive spi d =
     (if mcp_cfg d = None then (None, d)
      else case reg_read spi REG_CANINTF (mcp_chip d) of
             (intf, c) \<Rightarrow>
               (case (if intf AND INTF_RX0IF \<noteq> 0 then receive_from spi INTF_RX0IF 0x61 c
                      else if intf AND INTF_RX1IF \<noteq> 0 then receive_from spi INTF_RX1IF 0x71 c
                      else (None, c)) of
                  (r, c) \<Rightarrow> (r, d\<lparr>mcp_chip := c\<rparr>)))"

text \<open>The registers of the transmit buffer for a frame, from \<open>TXB0SIDH\<close> on.\<close>

definition tx_bytes :: "mcp2515_frame \<Rightarrow> u8 list" where
  "tx_bytes frame =
     (let ident = mf_id frame AND 0x1FFFFFFF; len = (if mf_dlc frame > 8 then 8 else mf_dlc frame)
      in [u8_of (shr ident 21), u8_of ((shr ident 13 AND 0xE0) OR u32_of TXBNSIDL_EXIDE OR (shr ident 16 AND 0x03)),
          u8_of (shr ident 8), u8_of ident, len] @ take (unat len) (mf_data frame))"

definition mcp2515_send :: "'c spi \<Rightarrow> mcp2515_frame \<Rightarrow> 'c mcp2515 \<Rightarrow> bool \<times> 'c mcp2515" where
  "mcp2515_send spi frame d =
     (if mcp_cfg d = None then (False, d)
      else case reg_read spi REG_TXB0CTRL (mcp_chip d) of
             (v, c) \<Rightarrow>
               (if v AND 0x08 \<noteq> 0 then (False, d\<lparr>mcp_chip := c\<rparr>)
                else (True, d\<lparr>mcp_chip := snd (spi [CMD_RTS_TXB0] 0 (reg_write_many spi 0x31 (tx_bytes frame) c))\<rparr>)))"

section \<open>The transport: \<open>mcp2515_lcc.c\<close>\<close>

text \<open>The eight data bytes of the frame handed to the driver, those past the length 0.\<close>

definition mcp2515_egress :: "'c spi \<Rightarrow> 'c mcp2515 lcc_egress_fn" where
  "mcp2515_egress spi frame d =
     (True, snd (mcp2515_send spi
        \<lparr>mf_id = fr_id frame, mf_dlc = word_of_nat (dlc frame),
         mf_data = map (\<lambda>i. if i < dlc frame then fr_data frame ! i else 0) [0..<8]\<rparr> d))"

definition lcc_frame_of :: "mcp2515_frame \<Rightarrow> lcc_frame" where
  "lcc_frame_of f = \<lparr>fr_id = mf_id f, fr_data = take (unat (mf_dlc f)) (mf_data f)\<rparr>"

text \<open>
  What the receive task does after a notification or 100 ms: it takes frames until there is none.
  \<open>None\<close>: the chip always has another one.
\<close>

partial_function (option) rx_drain :: "'c spi \<Rightarrow> 'c mcp2515 \<Rightarrow> lcc_frame list \<Rightarrow> ('c mcp2515 \<times> lcc_frame list) option" where
  "rx_drain spi d rx_q =
     (case mcp2515_try_receive spi d of
        (None, d) \<Rightarrow> Some (d, rx_q)
      | (Some f, d) \<Rightarrow> rx_drain spi d (lcc_if_enqueue_frame (lcc_frame_of f) rx_q))"

text \<open>
  The start of the transport on the table of the egress functions; \<open>task_created\<close> is what
  \<open>xTaskCreate\<close> returns.
\<close>

definition mcp2515_lcc_start ::
  "'c spi \<Rightarrow> bool \<Rightarrow> mcp2515_config option \<Rightarrow> 'c mcp2515 \<times> 'c mcp2515 lcc_egress_fn list \<Rightarrow>
   bool \<times> 'c mcp2515 \<times> 'c mcp2515 lcc_egress_fn list" where
  "mcp2515_lcc_start spi task_created cfg s =
     (case s of (d, tbl) \<Rightarrow>
        (if cfg = None then (False, d, tbl)
         else case mcp2515_init spi cfg d of
                (False, d) \<Rightarrow> (False, d, tbl)
              | (True, d) \<Rightarrow>
                  (case lcc_if_register_transport (Some (mcp2515_egress spi)) tbl of
                     (False, tbl) \<Rightarrow> (False, d, tbl)
                   | (True, tbl) \<Rightarrow>
                       (if \<not> task_created then (False, d, tbl) else (True, mcp2515_set_rx_task True d, tbl)))))"

section \<open>The chip\<close>

text \<open>
  What the driver relies on, from the datasheet of the MCP2515, as a hypothesis on the
  transactions \<open>spi\<close> and the registers \<open>reg\<close>: the effect of each command on the registers, after
  which the chip may go on by itself, \<open>moves\<close>, until the next transaction. On its own it never
  clears an interrupt flag, touches neither the transmit buffer's contents nor the interrupt
  enables, and leaves a receive buffer alone while its flag is set.
\<close>

definition write_regs :: "u8 \<Rightarrow> u8 list \<Rightarrow> (u8 \<Rightarrow> u8) \<Rightarrow> u8 \<Rightarrow> u8" where
  "write_regs a bytes r = (\<lambda>b. if a \<le> b \<and> unat (b - a) < length bytes then bytes ! unat (b - a) else r b)"

definition chip_moves :: "(u8 \<Rightarrow> u8) \<Rightarrow> (u8 \<Rightarrow> u8) \<Rightarrow> bool" where
  "chip_moves r r' \<longleftrightarrow> r' REG_CANINTE = r REG_CANINTE \<and>
     (\<forall>n. bit (r REG_CANINTF) n \<longrightarrow> bit (r' REG_CANINTF) n) \<and>
     (\<forall>i<13. r' (0x31 + of_nat i) = r (0x31 + of_nat i)) \<and>
     (bit (r REG_CANINTF) 0 \<longrightarrow> (\<forall>i<13. r' (0x61 + of_nat i) = r (0x61 + of_nat i))) \<and>
     (bit (r REG_CANINTF) 1 \<longrightarrow> (\<forall>i<13. r' (0x71 + of_nat i) = r (0x71 + of_nat i)))"

definition chip_ok :: "((u8 \<Rightarrow> u8) \<Rightarrow> (u8 \<Rightarrow> u8) \<Rightarrow> bool) \<Rightarrow> 'c spi \<Rightarrow> ('c \<Rightarrow> u8 \<Rightarrow> u8) \<Rightarrow> bool" where
  "chip_ok moves spi reg \<longleftrightarrow>
     (\<forall>c a. fst (spi [CMD_READ, a] 1 c) = [reg c a] \<and> moves (reg c) (reg (snd (spi [CMD_READ, a] 1 c)))) \<and>
     (\<forall>c a bytes. moves (write_regs a bytes (reg c)) (reg (snd (spi ([CMD_WRITE, a] @ bytes) 0 c)))) \<and>
     (\<forall>c a m v. moves ((reg c)(a := (reg c a AND NOT m) OR (v AND m))) (reg (snd (spi [CMD_BIT_MODIFY, a, m, v] 0 c)))) \<and>
     (\<forall>c. moves ((reg c)(REG_TXB0CTRL := reg c REG_TXB0CTRL OR 0x08)) (reg (snd (spi [CMD_RTS_TXB0] 0 c))))"

lemma chip_reads:
  assumes "chip_ok moves spi reg"
  shows "fst (reg_read spi a c) = reg c a" and "moves (reg c) (reg (snd (reg_read spi a c)))"
  using assms by (simp_all add: chip_ok_def reg_read_def read_byte_def split_beta)

lemma chip_writes:
  assumes "chip_ok moves spi reg"
  shows "moves (write_regs a [v] (reg c)) (reg (reg_write spi a v c))"
    and "moves (write_regs a bytes (reg c)) (reg (reg_write_many spi a bytes c))"
    and "moves ((reg c)(a := (reg c a AND NOT m) OR (v AND m))) (reg (bit_modify spi a m v c))"
    and "moves ((reg c)(REG_TXB0CTRL := reg c REG_TXB0CTRL OR 0x08)) (reg (snd (spi [CMD_RTS_TXB0] 0 c)))"
  using assms unfolding chip_ok_def reg_write_def reg_write_many_def bit_modify_def append.simps by blast+

lemma chip_ok_mono: "chip_ok mv spi reg \<Longrightarrow> (\<And>r r'. mv r r' \<Longrightarrow> mv' r r') \<Longrightarrow> chip_ok mv' spi reg"
  unfolding chip_ok_def by blast

lemma moves_refl: "chip_moves r r" by (simp add: chip_moves_def)

lemma quiet_chip_ok: "chip_ok (=) spi reg \<Longrightarrow> chip_ok chip_moves spi reg"
  by (erule chip_ok_mono) (simp add: moves_refl)

text \<open>A quiet chip as its registers, for concrete runs.\<close>

definition reg_file :: "(u8 \<Rightarrow> u8) spi" where
  "reg_file bytes n r =
     (case bytes of
        [] \<Rightarrow> ([], r)
      | cmd # args \<Rightarrow>
          (if cmd = CMD_READ then ([r (args ! 0)], r)
           else if cmd = CMD_WRITE then ([], write_regs (args ! 0) (drop 1 args) r)
           else if cmd = CMD_BIT_MODIFY
           then ([], r(args ! 0 := (r (args ! 0) AND NOT (args ! 1)) OR (args ! 2 AND args ! 1)))
           else if cmd = CMD_RTS_TXB0 then ([], r(REG_TXB0CTRL := r REG_TXB0CTRL OR 0x08))
           else if cmd = CMD_RESET then ([], r(REG_CANSTAT := MODE_CONFIG))
           else ([], r)))"

lemma reg_file_ok: "chip_ok (=) reg_file (\<lambda>r. r)"
  by (simp add: chip_ok_def reg_file_def CMD_READ_def CMD_WRITE_def CMD_BIT_MODIFY_def CMD_RTS_TXB0_def)

text \<open>The flags as bits.\<close>

lemma intf_bits:
  "x AND INTF_RX0IF \<noteq> 0 \<longleftrightarrow> bit x 0" "x AND INTF_RX1IF \<noteq> 0 \<longleftrightarrow> bit x 1" "x AND INTF_TX0IF \<noteq> 0 \<longleftrightarrow> bit x 2"
  using and_exp_eq_0_iff_not_bit [of x 0] and_exp_eq_0_iff_not_bit [of x 1] and_exp_eq_0_iff_not_bit [of x 2]
  by (simp_all add: mcp_consts)

section \<open>Bit timing\<close>

text \<open>The rate a configuration gives, from the datasheet: time quanta of \<open>2 * BRP / Fosc\<close>.\<close>

definition crystal_hz :: "mcp2515_crystal \<Rightarrow> nat" where
  "crystal_hz c = (case c of MCP2515_CRYSTAL_8MHZ \<Rightarrow> 8000000 | MCP2515_CRYSTAL_16MHZ \<Rightarrow> 16000000)"

definition bitrate_hz :: "mcp2515_bitrate \<Rightarrow> nat" where
  "bitrate_hz b = (case b of MCP2515_BITRATE_125K \<Rightarrow> 125000 | MCP2515_BITRATE_250K \<Rightarrow> 250000
     | MCP2515_BITRATE_500K \<Rightarrow> 500000 | MCP2515_BITRATE_1M \<Rightarrow> 1000000)"

definition prescaler :: "u8 \<Rightarrow> nat" where "prescaler cnf1 = unat (cnf1 AND 0x3F) + 1"
definition prop_seg :: "u8 \<Rightarrow> nat" where "prop_seg cnf2 = unat (cnf2 AND 7) + 1"
definition phase_seg1 :: "u8 \<Rightarrow> nat" where "phase_seg1 cnf2 = unat (shr cnf2 3 AND 7) + 1"
definition phase_seg2 :: "u8 \<Rightarrow> nat" where "phase_seg2 cnf3 = unat (cnf3 AND 7) + 1"

text \<open>
  The bit timing. For every crystal and bit rate the driver can be asked for, the three
  registers it programs make one bit last exactly as long as that rate says; and the second
  phase segment has the two quanta the chip needs, except with the 8 MHz crystal at 1 Mbit/s.
\<close>

theorem bit_timing:
  "case cnf_of crystal bitrate of (cnf1, cnf2, cnf3) \<Rightarrow>
     bitrate_hz bitrate * (2 * prescaler cnf1 * (1 + prop_seg cnf2 + phase_seg1 cnf2 + phase_seg2 cnf3)) = crystal_hz crystal \<and>
     (phase_seg2 cnf3 \<ge> 2 \<longleftrightarrow> \<not> (crystal = MCP2515_CRYSTAL_8MHZ \<and> bitrate = MCP2515_BITRATE_1M))"
  by (cases crystal; cases bitrate)
    (simp_all add: cnf_of_def crystal_hz_def bitrate_hz_def prescaler_def prop_seg_def phase_seg1_def phase_seg2_def)

section \<open>Sending and receiving\<close>

definition frame_in :: "(u8 \<Rightarrow> u8) \<Rightarrow> u8 \<Rightarrow> mcp2515_frame" where
  "frame_in r base =
     (let len = (if r (base + 4) AND 0x0F > 8 then 8 else r (base + 4) AND 0x0F)
      in \<lparr>mf_id = rx_id (r base) (r (base + 1)) (r (base + 2)) (r (base + 3)), mf_dlc = len,
          mf_data = map (\<lambda>i. r (base + 5 + of_nat i)) [0..<unat len]\<rparr>)"

text \<open>A receive buffer, its flag and its first register.\<close>

definition rx_buffer :: "nat \<Rightarrow> u8 \<Rightarrow> u8 \<Rightarrow> bool" where
  "rx_buffer n flag base \<longleftrightarrow> n = 0 \<and> flag = INTF_RX0IF \<and> base = 0x61 \<or> n = 1 \<and> flag = INTF_RX1IF \<and> base = 0x71"

text \<open>The flag is set, and the buffer holds what \<open>r\<close> says.\<close>

definition holds :: "nat \<Rightarrow> u8 \<Rightarrow> (u8 \<Rightarrow> u8) \<Rightarrow> (u8 \<Rightarrow> u8) \<Rightarrow> bool" where
  "holds n base r r' \<longleftrightarrow> bit (r' REG_CANINTF) n \<and> (\<forall>i<13. r' (base + of_nat i) = r (base + of_nat i))"

lemma holds_moves:
  assumes "rx_buffer n flag base" and "holds n base r r1" and "chip_moves r1 r2"
  shows "holds n base r r2"
  using assms by (auto simp: rx_buffer_def holds_def chip_moves_def)

lemma holds_refl: "rx_buffer n flag base \<Longrightarrow> r REG_CANINTF AND flag \<noteq> 0 \<Longrightarrow> holds n base r r"
  by (auto simp: rx_buffer_def holds_def intf_bits)

lemma read_held:
  assumes "chip_ok chip_moves spi reg" and "rx_buffer n flag base" and "holds n base r (reg c)" and "i < 13"
  shows "\<exists>c'. reg_read spi (base + of_nat i) c = (r (base + of_nat i), c') \<and> holds n base r (reg c')"
  using chip_reads [OF assms(1), where a = "base + of_nat i" and c = c] holds_moves [OF assms(2,3)] assms(3,4)
  by (cases "reg_read spi (base + of_nat i) c") (auto simp: holds_def)

lemma read_regs_held:
  assumes "chip_ok chip_moves spi reg" and "rx_buffer n flag base" and "holds n base r (reg c)" and "i + k \<le> 13"
  shows "\<exists>c'. read_regs spi k (base + of_nat i) c = (map (\<lambda>j. r (base + of_nat j)) [i..<i + k], c') \<and> holds n base r (reg c')"
  using assms(3,4)
proof (induction k arbitrary: i c)
  case (Suc k)
  then have "i < 13" by simp
  obtain c1 where 1: "reg_read spi (base + of_nat i) c = (r (base + of_nat i), c1)" "holds n base r (reg c1)"
    using read_held [OF assms(1,2) Suc.prems(1) \<open>i < 13\<close>] by blast
  obtain c2 where 2: "read_regs spi k (base + of_nat (Suc i)) c1 = (map (\<lambda>j. r (base + of_nat j)) [Suc i..<Suc i + k], c2)"
      "holds n base r (reg c2)"
    using Suc.IH [OF 1(2), of "Suc i"] Suc.prems(2) by auto
  have "base + of_nat (Suc i) = base + of_nat i + 1" by (simp add: add.commute)
  then have "read_regs spi (Suc k) (base + of_nat i) c =
      (r (base + of_nat i) # map (\<lambda>j. r (base + of_nat j)) [Suc i..<Suc i + k], c2)"
    using 1 2 by (simp only: read_regs.simps prod.case)
  then show ?case using 2(2) by (simp add: upt_conv_Cons del: upt_Suc)
qed simp

lemma receive_held:
  assumes "chip_ok chip_moves spi reg" and "rx_buffer n flag base" and "holds n base r (reg c)" and "r (base + 1) AND 0x08 \<noteq> 0"
  shows "\<exists>c1. receive_from spi flag base c = (Some (frame_in r base), bit_modify spi REG_CANINTF flag 0 c1) \<and> holds n base r (reg c1)"
proof -
  note rd = read_held [OF assms(1,2)]
  obtain c0 where 0: "reg_read spi base c = (r base, c0)" "holds n base r (reg c0)"
    using rd [OF assms(3), of 0] by auto
  obtain c1 where 1: "reg_read spi (base + 1) c0 = (r (base + 1), c1)" "holds n base r (reg c1)"
    using rd [OF 0(2), of 1] by auto
  obtain c2 where 2: "reg_read spi (base + 2) c1 = (r (base + 2), c2)" "holds n base r (reg c2)"
    using rd [OF 1(2), of 2] by auto
  obtain c3 where 3: "reg_read spi (base + 3) c2 = (r (base + 3), c3)" "holds n base r (reg c3)"
    using rd [OF 2(2), of 3] by auto
  obtain c4 where 4: "reg_read spi (base + 4) c3 = (r (base + 4), c4)" "holds n base r (reg c4)"
    using rd [OF 3(2), of 4] by auto
  define len where "len = (if r (base + 4) AND 0x0F > 8 then 8 else r (base + 4) AND 0x0F)"
  have len: "unat len \<le> 8" by (simp add: len_def word_less_nat_alt)
  obtain c5 where 5: "read_regs spi (unat len) (base + 5) c4 = (map (\<lambda>j. r (base + of_nat j)) [5..<5 + unat len], c5)"
      "holds n base r (reg c5)"
    using read_regs_held [OF assms(1,2) 4(2), of 5 "unat len"] len by auto
  have "map (\<lambda>j. r (base + of_nat j)) [5..<5 + unat len] = map (\<lambda>i. r (base + 5 + of_nat i)) [0..<unat len]"
    by (rule nth_equalityI) (simp_all add: add.assoc)
  then show ?thesis using 0 1 2 3 4 5 assms(4)
    by (intro exI [of _ c5]) (simp add: receive_from_def Let_def frame_in_def len_def [symmetric])
qed

text \<open>The frame a sent one is received as.\<close>

lemma rx_tx_id:
  "rx_id (u8_of (shr i 21)) (u8_of ((shr i 13 AND 0xE0) OR u32_of TXBNSIDL_EXIDE OR (shr i 16 AND 0x03))) (u8_of (shr i 8)) (u8_of i) =
   i AND 0x1FFFFFFF"
  by (simp add: rx_id_def TXBNSIDL_EXIDE_def word_bits_simps)

lemma tx_extended: "u8_of ((shr i 13 AND 0xE0) OR u32_of TXBNSIDL_EXIDE OR (shr i 16 AND 0x03)) AND 0x08 \<noteq> 0"
proof -
  have "bit (u8_of ((shr i 13 AND 0xE0) OR u32_of TXBNSIDL_EXIDE OR (shr i 16 AND 0x03)) AND 0x08) 3"
    by (simp add: TXBNSIDL_EXIDE_def word_bits_simps)
  then show ?thesis by (intro notI) simp
qed

lemma below_13: "i < 13 \<Longrightarrow> i \<in> {0, 1, 2, 3, 4, 5, 6, 7, 8, 9, 10, 11, 12 :: nat}"
  unfolding insert_iff empty_iff by presburger

lemma write_many_at:
  assumes "length bytes \<le> 13" and "i < 13"
  shows "write_regs 0x31 bytes r (0x31 + of_nat i) = (if i < length bytes then bytes ! i else r (0x31 + of_nat i))"
    and "write_regs 0x31 bytes r REG_CANINTF = r REG_CANINTF" and "write_regs 0x31 bytes r REG_CANINTE = r REG_CANINTE"
proof -
  from below_13 [OF assms(2)] have "unat (of_nat i :: u8) = i" "(0x31 :: u8) \<le> 0x31 + of_nat i" by auto
  then show "write_regs 0x31 bytes r (0x31 + of_nat i) = (if i < length bytes then bytes ! i else r (0x31 + of_nat i))"
    by (simp add: write_regs_def)
qed (simp_all add: write_regs_def mcp_consts)

lemma tx_bytes_length: "length (tx_bytes f) \<le> 13" "5 \<le> length (tx_bytes f)"
  by (auto simp: tx_bytes_def Let_def word_less_nat_alt split: if_splits)

text \<open>What an accepted frame leaves in the transmit buffer.\<close>

lemma send_loads:
  assumes "chip_ok chip_moves spi reg" and "mcp2515_send spi f d = (True, d')" and "i < length (tx_bytes f)"
  shows "reg (mcp_chip d') (0x31 + of_nat i) = tx_bytes f ! i"
proof -
  define c where "c = snd (reg_read spi REG_TXB0CTRL (mcp_chip d))"
  define c1 where "c1 = reg_write_many spi 0x31 (tx_bytes f) c"
  have d': "mcp_chip d' = snd (spi [CMD_RTS_TXB0] 0 c1)"
    using assms(2) by (auto simp: mcp2515_send_def c_def c1_def split_beta split: if_splits)
  have i: "i < 13" using assms(3) tx_bytes_length(1) [of f] by linarith
  note w = chip_writes(2) [OF assms(1), of "0x31" "tx_bytes f" c, folded c1_def]
  note t = chip_writes(4) [OF assms(1), of c1, folded d']
  have "(0x31 :: u8) + of_nat i \<noteq> REG_TXB0CTRL"
  proof -
    from below_13 [OF i] show ?thesis by (auto simp: REG_TXB0CTRL_def)
  qed
  then have "reg (mcp_chip d') (0x31 + of_nat i) = reg c1 (0x31 + of_nat i)" using t i by (simp add: chip_moves_def)
  also have "\<dots> = write_regs 0x31 (tx_bytes f) (reg c) (0x31 + of_nat i)" using w i by (simp add: chip_moves_def)
  also have "\<dots> = tx_bytes f ! i" using write_many_at(1) [OF tx_bytes_length(1) i] assms(3) by simp
  finally show ?thesis .
qed

lemma carried_frame:
  assumes "\<forall>i<length (tx_bytes f). r (base + of_nat i) = tx_bytes f ! i" and "mf_id f < 2 ^ 29"
    and "unat (mf_dlc f) \<le> 8" and "8 \<le> length (mf_data f)"
  shows "r (base + 1) AND 0x08 \<noteq> 0" and "lcc_frame_of (frame_in r base) = lcc_frame_of f"
proof -
  let ?n = "unat (mf_dlc f)"
  have len: "length (tx_bytes f) = 5 + ?n" using assms(3,4) by (simp add: tx_bytes_def Let_def word_less_nat_alt)
  have tx: "tx_bytes f = [u8_of (shr (mf_id f AND 0x1FFFFFFF) 21),
      u8_of ((shr (mf_id f AND 0x1FFFFFFF) 13 AND 0xE0) OR u32_of TXBNSIDL_EXIDE OR (shr (mf_id f AND 0x1FFFFFFF) 16 AND 0x03)),
      u8_of (shr (mf_id f AND 0x1FFFFFFF) 8), u8_of (mf_id f AND 0x1FFFFFFF), mf_dlc f] @ take ?n (mf_data f)"
    using assms(3) by (simp only: tx_bytes_def Let_def word_less_nat_alt) simp
  have d: "tx_bytes f ! (5 + i) = mf_data f ! i" if "i < ?n" for i
    using that by (simp add: tx)
  have at: "r (base + of_nat i) = tx_bytes f ! i" if "i < 5" for i using assms(1) len that by simp
  have b: "r base = u8_of (shr (mf_id f AND 0x1FFFFFFF) 21)"
    "r (base + 1) = u8_of ((shr (mf_id f AND 0x1FFFFFFF) 13 AND 0xE0) OR u32_of TXBNSIDL_EXIDE OR (shr (mf_id f AND 0x1FFFFFFF) 16 AND 0x03))"
    "r (base + 2) = u8_of (shr (mf_id f AND 0x1FFFFFFF) 8)" "r (base + 3) = u8_of (mf_id f AND 0x1FFFFFFF)" "r (base + 4) = mf_dlc f"
    using at [of 0] at [of 1] at [of 2] at [of 3] at [of 4] unfolding tx by simp_all
  show "r (base + 1) AND 0x08 \<noteq> 0" unfolding b by (rule tx_extended)
  have m: "mf_dlc f AND 0x0F = mf_dlc f" "\<not> 8 < mf_dlc f"
    using assms(3) less_mask_eq [of "mf_dlc f" 4] by (simp_all add: word_less_nat_alt mask_numeral)
  have ident: "mf_id (frame_in r base) = mf_id f"
    using less_mask_eq [OF assms(2)] by (simp only: frame_in_def Let_def b rx_tx_id mcp2515_frame.simps) (simp add: mask_numeral and.assoc)
  have len': "mf_dlc (frame_in r base) = mf_dlc f" by (simp add: frame_in_def Let_def b m)
  have "mf_data (frame_in r base) = take ?n (mf_data f)"
  proof (rule nth_equalityI)
    show "length (mf_data (frame_in r base)) = length (take ?n (mf_data f))"
      using assms(3,4) by (simp add: frame_in_def Let_def b m)
    show "mf_data (frame_in r base) ! i = take ?n (mf_data f) ! i" if "i < length (mf_data (frame_in r base))" for i
    proof -
      have i: "i < ?n" using that by (simp add: frame_in_def Let_def b m)
      then have "r (base + of_nat (5 + i)) = tx_bytes f ! (5 + i)" using assms(1) len by (intro assms(1) [rule_format]) simp
      then have "r (base + 5 + of_nat i) = mf_data f ! i" using d [OF i] by (simp add: add.assoc)
      then show ?thesis using i by (simp add: frame_in_def Let_def b m)
    qed
  qed
  then show "lcc_frame_of (frame_in r base) = lcc_frame_of f" by (simp add: lcc_frame_of_def ident len')
qed

definition egress_frame :: "lcc_frame \<Rightarrow> mcp2515_frame" where
  "egress_frame frame = \<lparr>mf_id = fr_id frame, mf_dlc = word_of_nat (dlc frame),
     mf_data = map (\<lambda>i. if i < dlc frame then fr_data frame ! i else 0) [0..<8]\<rparr>"

lemma egress_frame_lcc: "dlc frame \<le> 8 \<Longrightarrow> lcc_frame_of (egress_frame frame) = frame"
  "dlc frame \<le> 8 \<Longrightarrow> unat (mf_dlc (egress_frame frame)) = dlc frame"
proof -
  assume l: "dlc frame \<le> 8"
  then show u: "unat (mf_dlc (egress_frame frame)) = dlc frame" by (simp add: egress_frame_def unat_of_nat_less)
  have "take (dlc frame) (map (\<lambda>i. if i < dlc frame then fr_data frame ! i else 0) [0..<8]) = fr_data frame"
    using l by (intro nth_equalityI) simp_all
  then show "lcc_frame_of (egress_frame frame) = frame" using u by (simp add: lcc_frame_of_def egress_frame_def)
qed

text \<open>
  C36: The CAN bus carries a frame unchanged from one driver to another. A frame of the LCC side
  with an identifier of 29 bits and at most eight data bytes, handed to the transport while the
  transmit buffer is free: when the bus has put what that buffer then holds into a receive
  buffer of another controller, whose flag is set and which is the first to be read, the driver
  there takes exactly that frame, whatever else both chips do in between.
\<close>

theorem can_frame_roundtrip:
  assumes "chip_ok chip_moves spi reg" and "mcp_cfg a \<noteq> None" and "mcp_cfg b \<noteq> None"
    and "fr_id frame < 2 ^ 29" and "dlc frame \<le> 8" and "reg (mcp_chip a) REG_TXB0CTRL AND 0x08 = 0"
    and "mcp2515_egress spi frame a = (ok, a')"
    and "flag = INTF_RX0IF \<and> base = 0x61 \<or> flag = INTF_RX1IF \<and> base = 0x71 \<and> reg (mcp_chip b) REG_CANINTF AND INTF_RX0IF = 0"
    and "reg (mcp_chip b) REG_CANINTF AND flag \<noteq> 0"
    and "\<forall>i<5 + dlc frame. reg (mcp_chip b) (base + of_nat i) = reg (mcp_chip a') (0x31 + of_nat i)"
  shows "\<exists>f b'. mcp2515_try_receive spi b = (Some f, b') \<and> lcc_frame_of f = frame"
proof -
  let ?f = "egress_frame frame" and ?r = "reg (mcp_chip b)"
  have f: "mf_id ?f < 2 ^ 29" "unat (mf_dlc ?f) \<le> 8" "8 \<le> length (mf_data ?f)"
    using assms(4,5) egress_frame_lcc(2) [OF assms(5)] by (simp_all add: egress_frame_def)
  have len: "length (tx_bytes ?f) = 5 + dlc frame"
    using f egress_frame_lcc(2) [OF assms(5)] assms(5) by (simp add: tx_bytes_def Let_def word_less_nat_alt)
  have "mcp2515_send spi ?f a = (True, a')"
    using assms(2,6,7) chip_reads(1) [OF assms(1), where a = REG_TXB0CTRL and c = "mcp_chip a"]
    by (auto simp: mcp2515_egress_def egress_frame_def mcp2515_send_def split_beta)
  then have loaded: "\<forall>i<length (tx_bytes ?f). ?r (base + of_nat i) = tx_bytes ?f ! i"
    using send_loads [OF assms(1)] assms(10) len by simp
  note carried = carried_frame [OF loaded f]
  obtain n where n: "rx_buffer n flag base" using assms(8) by (auto simp: rx_buffer_def)
  obtain v c where v: "reg_read spi REG_CANINTF (mcp_chip b) = (v, c)" by (metis surj_pair)
  then have vc: "v = ?r REG_CANINTF" "chip_moves ?r (reg c)"
    using chip_reads [OF assms(1), where a = REG_CANINTF and c = "mcp_chip b"] by simp_all
  have "holds n base ?r (reg c)" using holds_moves [OF n holds_refl [where r = ?r, OF n assms(9)] vc(2)] .
  from receive_held [OF assms(1) n this carried(1)] obtain c1 where
    "receive_from spi flag base c = (Some (frame_in ?r base), bit_modify spi REG_CANINTF flag 0 c1)" by blast
  then have "mcp2515_try_receive spi b = (Some (frame_in ?r base), b\<lparr>mcp_chip := bit_modify spi REG_CANINTF flag 0 c1\<rparr>)"
    using assms(3,8,9) v vc(1) by (auto simp: mcp2515_try_receive_def)
  then show ?thesis using carried(2) egress_frame_lcc(1) [OF assms(5)] by auto
qed

text \<open>A frame carried between two quiet chips.\<close>

definition some_config :: mcp2515_config where
  "some_config = \<lparr>mc_spi1 = False, mc_pins = [16, 19, 18, 17, 20], mc_crystal = MCP2515_CRYSTAL_8MHZ, mc_bitrate = MCP2515_BITRATE_125K\<rparr>"

definition idle_driver :: "(u8 \<Rightarrow> u8) mcp2515" where
  "idle_driver = \<lparr>mcp_cfg = Some some_config, mcp_rx_task = True, mcp_chip = (\<lambda>a. 0)\<rparr>"

definition copied :: "(u8 \<Rightarrow> u8) mcp2515 \<Rightarrow> (u8 \<Rightarrow> u8) mcp2515" where
  "copied a = idle_driver\<lparr>mcp_chip := (\<lambda>b. if b = REG_CANINTF then INTF_RX0IF else mcp_chip a (b - 0x30))\<rparr>"

theorem can_frame_roundtrip_witness:
  "\<exists>f b'. mcp2515_try_receive reg_file
       (copied (snd (mcp2515_egress reg_file \<lparr>fr_id = 0x195B4123, fr_data = [1, 2, 3]\<rparr> idle_driver))) = (Some f, b') \<and>
     lcc_frame_of f = \<lparr>fr_id = 0x195B4123, fr_data = [1, 2, 3]\<rparr>"
proof -
  let ?frame = "\<lparr>fr_id = 0x195B4123, fr_data = [1, 2, 3]\<rparr>"
  obtain ok a' where e: "mcp2515_egress reg_file ?frame idle_driver = (ok, a')" by (metis surj_pair)
  have "\<forall>i<5 + dlc ?frame. mcp_chip (copied a') (0x61 + of_nat i) = mcp_chip a' (0x31 + of_nat i)"
  proof (intro allI impI)
    fix i assume "i < 5 + dlc ?frame"
    then have "i < 13" by simp
    from below_13 [OF this] show "mcp_chip (copied a') (0x61 + of_nat i) = mcp_chip a' (0x31 + of_nat i)"
      by (auto simp: copied_def REG_CANINTF_def)
  qed
  then show ?thesis
    using can_frame_roundtrip [where reg = "\<lambda>r. r" and spi = reg_file and a = idle_driver and b = "copied a'" and frame = ?frame
        and ok = ok and a' = a' and flag = INTF_RX0IF and base = "0x61", OF quiet_chip_ok [OF reg_file_ok]]
    by (simp add: e) (simp add: idle_driver_def copied_def mcp_consts)
qed

section \<open>The interrupt line\<close>

text \<open>The INT pin, active low, is driven while an enabled flag is set.\<close>

definition int_pin_low :: "(u8 \<Rightarrow> u8) \<Rightarrow> bool" where
  "int_pin_low r \<longleftrightarrow> r REG_CANINTE AND r REG_CANINTF \<noteq> 0"

datatype mcp_op = Mcp_Send mcp2515_frame | Mcp_Receive

definition mcp_step :: "'c spi \<Rightarrow> mcp_op \<Rightarrow> 'c mcp2515 \<Rightarrow> 'c mcp2515" where
  "mcp_step spi op d =
     (case op of Mcp_Send f \<Rightarrow> snd (mcp2515_send spi f d) | Mcp_Receive \<Rightarrow> snd (mcp2515_try_receive spi d))"

text \<open>The transmit interrupt is enabled and its flag is set.\<close>

definition tx_flagged :: "(u8 \<Rightarrow> u8) \<Rightarrow> bool" where
  "tx_flagged r \<longleftrightarrow> bit (r REG_CANINTE) 2 \<and> bit (r REG_CANINTF) 2"

lemma tx_flagged_moves: "tx_flagged r \<Longrightarrow> chip_moves r r' \<Longrightarrow> tx_flagged r'"
  by (auto simp: tx_flagged_def chip_moves_def)

lemma tx_flagged_ops:
  assumes "chip_ok chip_moves spi reg" and "tx_flagged (reg c)"
  shows "tx_flagged (reg (snd (reg_read spi a c)))" and "tx_flagged (reg (snd (read_regs spi n a c)))"
    and "length bytes \<le> 13 \<Longrightarrow> tx_flagged (reg (reg_write_many spi 0x31 bytes c))"
    and "tx_flagged (reg (snd (spi [CMD_RTS_TXB0] 0 c)))"
    and "flag = INTF_RX0IF \<or> flag = INTF_RX1IF \<Longrightarrow> tx_flagged (reg (bit_modify spi REG_CANINTF flag 0 c))"
proof -
  have rd: "tx_flagged (reg c) \<Longrightarrow> tx_flagged (reg (snd (reg_read spi a c)))" for a c
    using chip_reads(2) [OF assms(1)] tx_flagged_moves by blast
  then show "tx_flagged (reg (snd (reg_read spi a c)))" using assms(2) .
  show "tx_flagged (reg (snd (read_regs spi n a c)))" using assms(2)
  proof (induction n arbitrary: a c)
    case (Suc n)
    show ?case using Suc.IH rd [OF Suc.prems, of a] by (simp add: split_beta)
  qed simp
  show "tx_flagged (reg (reg_write_many spi 0x31 bytes c))" if "length bytes \<le> 13"
    using write_many_at(2,3) [OF that, of 0] assms(2)
    by (intro tx_flagged_moves [OF _ chip_writes(2) [OF assms(1)]]) (simp add: tx_flagged_def)
  show "tx_flagged (reg (snd (spi [CMD_RTS_TXB0] 0 c)))" using assms(2)
    by (intro tx_flagged_moves [OF _ chip_writes(4) [OF assms(1)]]) (simp add: tx_flagged_def mcp_consts)
  show "tx_flagged (reg (bit_modify spi REG_CANINTF flag 0 c))" if "flag = INTF_RX0IF \<or> flag = INTF_RX1IF"
    using assms(2) that
    by (intro tx_flagged_moves [OF _ chip_writes(3) [OF assms(1)]]) (auto simp: tx_flagged_def mcp_consts bit_simps)
qed

lemma tx_flagged_receive:
  assumes "chip_ok chip_moves spi reg" and "tx_flagged (reg c)" and "flag = INTF_RX0IF \<or> flag = INTF_RX1IF"
  shows "tx_flagged (reg (snd (receive_from spi flag base c)))"
  using assms(2,3) by (auto simp: receive_from_def Let_def split_beta intro!: tx_flagged_ops [OF assms(1)])

lemma tx_flagged_step:
  assumes "chip_ok chip_moves spi reg" and "tx_flagged (reg (mcp_chip d))"
  shows "tx_flagged (reg (mcp_chip (mcp_step spi op d)))"
  using assms(2) tx_bytes_length(1)
  by (cases op) (auto simp: mcp_step_def mcp2515_send_def mcp2515_try_receive_def split_beta
      intro!: tx_flagged_ops [OF assms(1)] tx_flagged_receive [OF assms(1)])

text \<open>
  The driver enables the transmit interrupt but never clears its flag: once the first frame is
  out, the INT pin stays low whatever is sent and received, so no later frame makes the falling
  edge the handler waits for. Frames are then found by the task's timeout of 100 ms only.
\<close>

theorem tx_interrupt_never_cleared:
  assumes "chip_ok chip_moves spi reg" and "tx_flagged (reg (mcp_chip d))"
  shows "int_pin_low (reg (mcp_chip (fold (mcp_step spi) ops d)))"
proof -
  have "tx_flagged (reg (mcp_chip (fold (mcp_step spi) ops d)))" using assms(2)
    by (induction ops arbitrary: d) (simp_all add: tx_flagged_step [OF assms(1)])
  then have "bit (reg (mcp_chip (fold (mcp_step spi) ops d)) REG_CANINTE AND reg (mcp_chip (fold (mcp_step spi) ops d)) REG_CANINTF) 2"
    by (simp add: tx_flagged_def bit_simps)
  then show ?thesis unfolding int_pin_low_def by (intro notI) simp
qed

section \<open>The receive task\<close>

lemma quiet_reads:
  assumes "chip_ok (=) spi reg"
  shows "fst (reg_read spi a c) = reg c a" and "reg (snd (reg_read spi a c)) = reg c"
    and "reg (snd (read_regs spi n a c)) = reg c"
    and "reg (bit_modify spi a m 0 c) = (reg c)(a := reg c a AND NOT m)"
proof -
  have rd: "reg (snd (reg_read spi a c)) = reg c" for a c using chip_reads(2) [OF assms] by metis
  then show "reg (snd (reg_read spi a c)) = reg c" .
  show "fst (reg_read spi a c) = reg c a" by (rule chip_reads(1) [OF assms])
  show "reg (snd (read_regs spi n a c)) = reg c"
    by (induction n arbitrary: a c) (simp_all add: split_beta rd)
  show "reg (bit_modify spi a m 0 c) = (reg c)(a := reg c a AND NOT m)"
    using chip_writes(3) [OF assms, of c a m 0] by simp
qed

lemma quiet_receive_from:
  assumes "chip_ok (=) spi reg"
  shows "reg (snd (receive_from spi flag base c)) = (reg c)(REG_CANINTF := reg c REG_CANINTF AND NOT flag)"
  by (auto simp: receive_from_def Let_def split_beta quiet_reads [OF assms])

text \<open>One buffer of a quiet chip.\<close>

lemma quiet_receive:
  assumes "chip_ok (=) spi reg" and "mcp_cfg d \<noteq> None" and "rx_buffer n flag base"
    and "bit (reg (mcp_chip d) REG_CANINTF) n" and "n = 1 \<longrightarrow> \<not> bit (reg (mcp_chip d) REG_CANINTF) 0"
    and "mcp2515_try_receive spi d = (res, d')"
  shows "mcp_cfg d' = mcp_cfg d" and "reg (mcp_chip d') = (reg (mcp_chip d))(REG_CANINTF := reg (mcp_chip d) REG_CANINTF AND NOT flag)"
    and "res = (if reg (mcp_chip d) (base + 1) AND 0x08 = 0 then None else Some (frame_in (reg (mcp_chip d)) base))"
proof -
  define c where "c = snd (reg_read spi REG_CANINTF (mcp_chip d))"
  have c: "reg c = reg (mcp_chip d)" by (simp add: c_def quiet_reads [OF assms(1)])
  have "mcp2515_try_receive spi d = (case receive_from spi flag base c of (r, c) \<Rightarrow> (r, d\<lparr>mcp_chip := c\<rparr>))"
    using assms(2-5) intf_bits [of "reg (mcp_chip d) REG_CANINTF"]
    by (auto simp: mcp2515_try_receive_def split_beta quiet_reads [OF assms(1)] c_def rx_buffer_def)
  then have r: "res = fst (receive_from spi flag base c)" "d' = d\<lparr>mcp_chip := snd (receive_from spi flag base c)\<rparr>"
    using assms(6) by (simp_all add: split_beta)
  show "mcp_cfg d' = mcp_cfg d" by (simp add: r(2))
  show "reg (mcp_chip d') = (reg (mcp_chip d))(REG_CANINTF := reg (mcp_chip d) REG_CANINTF AND NOT flag)"
    by (simp add: r(2) quiet_receive_from [OF assms(1)] c)
  have "holds n base (reg c) (reg c)" using assms(4) by (simp add: holds_def c)
  note held = receive_held [OF quiet_chip_ok [OF assms(1)] assms(3) this]
  show "res = (if reg (mcp_chip d) (base + 1) AND 0x08 = 0 then None else Some (frame_in (reg (mcp_chip d)) base))"
  proof (cases "reg c (base + 1) AND 0x08 = 0")
    case True
    then have "fst (receive_from spi flag base c) = None"
      by (simp add: receive_from_def Let_def split_beta quiet_reads [OF assms(1)])
    then show ?thesis using True by (simp add: r(1) c)
  next
    case False
    then show ?thesis using held by (auto simp: r(1) c)
  qed
qed

lemma quiet_none:
  assumes "chip_ok (=) spi reg" and "\<not> bit (reg (mcp_chip d) REG_CANINTF) 0" and "\<not> bit (reg (mcp_chip d) REG_CANINTF) 1"
  shows "\<exists>d'. mcp2515_try_receive spi d = (None, d') \<and> reg (mcp_chip d') = reg (mcp_chip d)"
  using assms(2,3) intf_bits [of "reg (mcp_chip d) REG_CANINTF"]
  by (auto simp: mcp2515_try_receive_def split_beta quiet_reads [OF assms(1)])

lemma frame_in_cong:
  assumes "\<forall>i<13. r' (base + of_nat i) = r (base + of_nat i)"
  shows "frame_in r' base = frame_in r base"
proof -
  have at: "r' (base + of_nat i) = r (base + of_nat i)" if "i < 13" for i using assms that by blast
  have head: "r' base = r base" "r' (base + 1) = r (base + 1)" "r' (base + 2) = r (base + 2)" "r' (base + 3) = r (base + 3)"
    "r' (base + 4) = r (base + 4)"
    using at [of 0] at [of 1] at [of 2] at [of 3] at [of 4] by simp_all
  have "r' (base + 5 + of_nat i) = r (base + 5 + of_nat i)" if "i < 8" for i using at [of "5 + i"] that by (simp add: add.assoc)
  moreover have "unat (if r (base + 4) AND 0x0F > 8 then 8 else r (base + 4) AND 0x0F) \<le> 8" by (simp add: word_less_nat_alt)
  ultimately have "map (\<lambda>i. r' (base + 5 + of_nat i)) [0..<unat (if r (base + 4) AND 0x0F > 8 then 8 else r (base + 4) AND 0x0F)] =
      map (\<lambda>i. r (base + 5 + of_nat i)) [0..<unat (if r (base + 4) AND 0x0F > 8 then 8 else r (base + 4) AND 0x0F)]"
    by (intro map_cong) auto
  then show ?thesis by (simp add: frame_in_def Let_def head cong: if_cong)
qed

lemma flag_clear_frame: "rx_buffer n flag base \<Longrightarrow> frame_in (r(REG_CANINTF := v)) base = frame_in r base"
proof (rule frame_in_cong, intro allI impI)
  fix i assume "rx_buffer n flag base" and "i < (13 :: nat)"
  then show "(r(REG_CANINTF := v)) (base + of_nat i) = r (base + of_nat i)"
    using below_13 [of i] by (auto simp: rx_buffer_def REG_CANINTF_def)
qed

text \<open>The frames waiting in a chip, as the driver takes them.\<close>

definition waiting_frames :: "(u8 \<Rightarrow> u8) \<Rightarrow> lcc_frame list" where
  "waiting_frames r =
     (if bit (r REG_CANINTF) 0 then [lcc_frame_of (frame_in r 0x61)] else []) @
     (if bit (r REG_CANINTF) 1 then [lcc_frame_of (frame_in r 0x71)] else [])"

lemma drain_second:
  assumes "chip_ok (=) spi reg" and "mcp_cfg d \<noteq> None" and "\<not> bit (reg (mcp_chip d) REG_CANINTF) 0"
    and "bit (reg (mcp_chip d) REG_CANINTF) 1 \<longrightarrow> reg (mcp_chip d) 0x72 AND 0x08 \<noteq> 0"
  shows "\<exists>d'. rx_drain spi d q = Some (d', fold lcc_if_enqueue_frame (waiting_frames (reg (mcp_chip d))) q) \<and>
    \<not> bit (reg (mcp_chip d') REG_CANINTF) 0 \<and> \<not> bit (reg (mcp_chip d') REG_CANINTF) 1"
proof (cases "bit (reg (mcp_chip d) REG_CANINTF) 1")
  case True
  obtain res d1 where t: "mcp2515_try_receive spi d = (res, d1)" by (metis surj_pair)
  have b: "rx_buffer 1 INTF_RX1IF 0x71" by (simp add: rx_buffer_def)
  note q1 = quiet_receive [OF assms(1,2) b True _ t]
  have r1: "reg (mcp_chip d1) REG_CANINTF = reg (mcp_chip d) REG_CANINTF AND NOT INTF_RX1IF" using q1(2) assms(3) by simp
  have f1: "\<not> bit (reg (mcp_chip d1) REG_CANINTF) 0" "\<not> bit (reg (mcp_chip d1) REG_CANINTF) 1"
    using assms(3) unfolding r1 by (simp_all add: INTF_RX1IF_def bit_simps)
  obtain d2 where t2: "mcp2515_try_receive spi d1 = (None, d2)" "reg (mcp_chip d2) = reg (mcp_chip d1)"
    using quiet_none [OF assms(1) f1] by blast
  have "res = Some (frame_in (reg (mcp_chip d)) 0x71)" using q1(3) assms(3,4) True by simp
  then show ?thesis using assms(3) True f1
    by (intro exI [of _ d2]) (simp add: rx_drain.simps [of spi d] rx_drain.simps [of spi d1] t t2 waiting_frames_def)
next
  case False
  obtain d1 where t: "mcp2515_try_receive spi d = (None, d1)" "reg (mcp_chip d1) = reg (mcp_chip d)"
    using quiet_none [OF assms(1,3) False] by blast
  then show ?thesis using assms(3) False
    by (intro exI [of _ d1]) (simp add: rx_drain.simps [of spi d] waiting_frames_def)
qed

text \<open>
  The receive task empties the controller. While the bus is quiet, whatever extended frames
  the two receive buffers hold: the task's loop ends, the frames are put into the receive queue,
  the first buffer's first (as far as the queue has room), and both flags are cleared.
\<close>

lemma rx_task_drains:
  assumes "chip_ok (=) spi reg" and "mcp_cfg d \<noteq> None" and "r = reg (mcp_chip d)"
    and "bit (r REG_CANINTF) 0 \<longrightarrow> r 0x62 AND 0x08 \<noteq> 0" and "bit (r REG_CANINTF) 1 \<longrightarrow> r 0x72 AND 0x08 \<noteq> 0"
  shows "\<exists>d'. rx_drain spi d q = Some (d', fold lcc_if_enqueue_frame (waiting_frames r) q) \<and>
    \<not> bit (reg (mcp_chip d') REG_CANINTF) 0 \<and> \<not> bit (reg (mcp_chip d') REG_CANINTF) 1"
proof (cases "bit (r REG_CANINTF) 0")
  case True
  obtain res d1 where t: "mcp2515_try_receive spi d = (res, d1)" by (metis surj_pair)
  have b: "rx_buffer 0 INTF_RX0IF 0x61" "rx_buffer 1 INTF_RX1IF 0x71" by (simp_all add: rx_buffer_def)
  note q1 = quiet_receive [OF assms(1,2) b(1) True [unfolded assms(3)] _ t, folded assms(3), simplified]
  have r1: "reg (mcp_chip d1) REG_CANINTF = r REG_CANINTF AND NOT INTF_RX0IF" "reg (mcp_chip d1) 0x72 = r 0x72"
    using q1(2) by (simp_all add: REG_CANINTF_def)
  have f1: "\<not> bit (reg (mcp_chip d1) REG_CANINTF) 0" "bit (reg (mcp_chip d1) REG_CANINTF) 1 = bit (r REG_CANINTF) 1"
    unfolding r1 by (simp_all add: INTF_RX0IF_def bit_simps)
  have w: "waiting_frames r = lcc_frame_of (frame_in r 0x61) # waiting_frames (reg (mcp_chip d1))"
    using True f1 flag_clear_frame [OF b(2), of r] by (simp add: waiting_frames_def q1(2))
  have cfg: "mcp_cfg d1 \<noteq> None" using q1(1) assms(2) by simp
  have "res = Some (frame_in r 0x61)" using q1(3) assms(4) True by simp
  then show ?thesis
    using drain_second [OF assms(1) cfg f1(1), of "lcc_if_enqueue_frame (lcc_frame_of (frame_in r 0x61)) q"] assms(5) f1(2) r1(2)
    by (simp add: rx_drain.simps [of spi d] t w)
next
  case False
  then show ?thesis using drain_second [OF assms(1,2)] assms(3,5) by simp
qed


text \<open>
  A standard frame in the first buffer ends the loop, with a frame for the station still in the
  second: it is taken after the next notification or the timeout.
\<close>

theorem standard_frame_ends_drain:
  assumes "chip_ok (=) spi reg" and "mcp_cfg d \<noteq> None" and "r = reg (mcp_chip d)"
    and "bit (r REG_CANINTF) 0" and "r 0x62 AND 0x08 = 0" and "bit (r REG_CANINTF) 1"
  shows "\<exists>d'. rx_drain spi d q = Some (d', q) \<and> bit (reg (mcp_chip d') REG_CANINTF) 1"
proof -
  obtain res d1 where t: "mcp2515_try_receive spi d = (res, d1)" by (metis surj_pair)
  have b: "rx_buffer 0 INTF_RX0IF 0x61" by (simp add: rx_buffer_def)
  note q1 = quiet_receive [OF assms(1,2) b assms(4) [unfolded assms(3)] _ t, folded assms(3), simplified]
  have "res = None" using q1(3) assms(5) by simp
  moreover have "bit (reg (mcp_chip d1) REG_CANINTF) 1" using assms(6) q1(2) by (simp add: INTF_RX0IF_def bit_simps)
  ultimately show ?thesis by (intro exI [of _ d1]) (simp add: rx_drain.simps [of spi d] t)
qed

end
