(* ===== verification/Display.thy ===== *)
theory Display
  imports Dcc Motor
begin

text \<open>
  The status display: \<^verbatim>\<open>src/src/display/display.c\<close> and \<^verbatim>\<open>display.h\<close>. A framebuffer of eight pages of
  128 columns, four lines of text drawn into it from the state of the tracks and of the engine, and
  the commands that copy it to an SSD1306 panel over I2C. The bus is an argument; the panel, as its
  datasheet describes it, is the hypothesis \<open>panel_answers\<close>. Proved: from power-on the panel shows
  exactly the four lines, unclipped, and its inversion flashes while a track is overloaded.
\<close>

definition DISPLAY_WIDTH :: nat where "DISPLAY_WIDTH = 128"
definition DISPLAY_PAGES :: nat where "DISPLAY_PAGES = 8"
definition FRAMEBUFFER_SIZE :: nat where "FRAMEBUFFER_SIZE = DISPLAY_WIDTH * DISPLAY_PAGES"
definition SSD1306_CMD :: u8 where "SSD1306_CMD = 0x00"
definition SSD1306_DATA :: u8 where "SSD1306_DATA = 0x40"

definition FONT_6X8 :: "u8 list list" where
  "FONT_6X8 =
    [[0x00, 0x00, 0x00, 0x00, 0x00, 0x00], [0x00, 0x00, 0x5F, 0x00, 0x00, 0x00], [0x00, 0x07, 0x00, 0x07, 0x00, 0x00],
     [0x14, 0x7F, 0x14, 0x7F, 0x14, 0x00], [0x24, 0x2A, 0x7F, 0x2A, 0x12, 0x00], [0x23, 0x13, 0x08, 0x64, 0x62, 0x00],
     [0x36, 0x49, 0x55, 0x22, 0x50, 0x00], [0x00, 0x05, 0x03, 0x00, 0x00, 0x00], [0x00, 0x1C, 0x22, 0x41, 0x00, 0x00],
     [0x00, 0x41, 0x22, 0x1C, 0x00, 0x00], [0x14, 0x08, 0x3E, 0x08, 0x14, 0x00], [0x08, 0x08, 0x3E, 0x08, 0x08, 0x00],
     [0x00, 0x50, 0x30, 0x00, 0x00, 0x00], [0x08, 0x08, 0x08, 0x08, 0x08, 0x00], [0x00, 0x60, 0x60, 0x00, 0x00, 0x00],
     [0x20, 0x10, 0x08, 0x04, 0x02, 0x00], [0x3E, 0x51, 0x49, 0x45, 0x3E, 0x00], [0x00, 0x42, 0x7F, 0x40, 0x00, 0x00],
     [0x42, 0x61, 0x51, 0x49, 0x46, 0x00], [0x21, 0x41, 0x45, 0x4B, 0x31, 0x00], [0x18, 0x14, 0x12, 0x7F, 0x10, 0x00],
     [0x27, 0x45, 0x45, 0x45, 0x39, 0x00], [0x3C, 0x4A, 0x49, 0x49, 0x30, 0x00], [0x01, 0x71, 0x09, 0x05, 0x03, 0x00],
     [0x36, 0x49, 0x49, 0x49, 0x36, 0x00], [0x06, 0x49, 0x49, 0x29, 0x1E, 0x00], [0x00, 0x36, 0x36, 0x00, 0x00, 0x00],
     [0x00, 0x56, 0x36, 0x00, 0x00, 0x00], [0x08, 0x14, 0x22, 0x41, 0x00, 0x00], [0x14, 0x14, 0x14, 0x14, 0x14, 0x00],
     [0x00, 0x41, 0x22, 0x14, 0x08, 0x00], [0x02, 0x01, 0x51, 0x09, 0x06, 0x00], [0x32, 0x49, 0x79, 0x41, 0x3E, 0x00],
     [0x7E, 0x11, 0x11, 0x11, 0x7E, 0x00], [0x7F, 0x49, 0x49, 0x49, 0x36, 0x00], [0x3E, 0x41, 0x41, 0x41, 0x22, 0x00],
     [0x7F, 0x41, 0x41, 0x22, 0x1C, 0x00], [0x7F, 0x49, 0x49, 0x49, 0x41, 0x00], [0x7F, 0x09, 0x09, 0x09, 0x01, 0x00],
     [0x3E, 0x41, 0x49, 0x49, 0x7A, 0x00], [0x7F, 0x08, 0x08, 0x08, 0x7F, 0x00], [0x00, 0x41, 0x7F, 0x41, 0x00, 0x00],
     [0x20, 0x40, 0x41, 0x3F, 0x01, 0x00], [0x7F, 0x08, 0x14, 0x22, 0x41, 0x00], [0x7F, 0x40, 0x40, 0x40, 0x40, 0x00],
     [0x7F, 0x02, 0x0C, 0x02, 0x7F, 0x00], [0x7F, 0x04, 0x08, 0x10, 0x7F, 0x00], [0x3E, 0x41, 0x41, 0x41, 0x3E, 0x00],
     [0x7F, 0x09, 0x09, 0x09, 0x06, 0x00], [0x3E, 0x41, 0x51, 0x21, 0x5E, 0x00], [0x7F, 0x09, 0x19, 0x29, 0x46, 0x00],
     [0x46, 0x49, 0x49, 0x49, 0x31, 0x00], [0x01, 0x01, 0x7F, 0x01, 0x01, 0x00], [0x3F, 0x40, 0x40, 0x40, 0x3F, 0x00],
     [0x1F, 0x20, 0x40, 0x20, 0x1F, 0x00], [0x3F, 0x40, 0x38, 0x40, 0x3F, 0x00], [0x63, 0x14, 0x08, 0x14, 0x63, 0x00],
     [0x07, 0x08, 0x70, 0x08, 0x07, 0x00], [0x61, 0x51, 0x49, 0x45, 0x43, 0x00], [0x00, 0x7F, 0x41, 0x41, 0x00, 0x00],
     [0x02, 0x04, 0x08, 0x10, 0x20, 0x00], [0x00, 0x41, 0x41, 0x7F, 0x00, 0x00], [0x04, 0x02, 0x01, 0x02, 0x04, 0x00],
     [0x40, 0x40, 0x40, 0x40, 0x40, 0x00], [0x00, 0x01, 0x02, 0x04, 0x00, 0x00], [0x20, 0x54, 0x54, 0x54, 0x78, 0x00],
     [0x7F, 0x48, 0x44, 0x44, 0x38, 0x00], [0x38, 0x44, 0x44, 0x44, 0x20, 0x00], [0x38, 0x44, 0x44, 0x48, 0x7F, 0x00],
     [0x38, 0x54, 0x54, 0x54, 0x18, 0x00], [0x08, 0x7E, 0x09, 0x01, 0x02, 0x00], [0x0C, 0x52, 0x52, 0x52, 0x3E, 0x00],
     [0x7F, 0x08, 0x04, 0x04, 0x78, 0x00], [0x00, 0x44, 0x7D, 0x40, 0x00, 0x00], [0x20, 0x40, 0x44, 0x3D, 0x00, 0x00],
     [0x7F, 0x10, 0x28, 0x44, 0x00, 0x00], [0x00, 0x41, 0x7F, 0x40, 0x00, 0x00], [0x7C, 0x04, 0x18, 0x04, 0x78, 0x00],
     [0x7C, 0x08, 0x04, 0x04, 0x78, 0x00], [0x38, 0x44, 0x44, 0x44, 0x38, 0x00], [0x7C, 0x14, 0x14, 0x14, 0x08, 0x00],
     [0x08, 0x14, 0x14, 0x18, 0x7C, 0x00], [0x7C, 0x08, 0x04, 0x04, 0x08, 0x00], [0x48, 0x54, 0x54, 0x54, 0x20, 0x00],
     [0x04, 0x3F, 0x44, 0x40, 0x20, 0x00], [0x3C, 0x40, 0x40, 0x20, 0x7C, 0x00], [0x1C, 0x20, 0x40, 0x20, 0x1C, 0x00],
     [0x3C, 0x40, 0x30, 0x40, 0x3C, 0x00], [0x44, 0x28, 0x10, 0x28, 0x44, 0x00], [0x0C, 0x50, 0x50, 0x50, 0x3C, 0x00],
     [0x44, 0x64, 0x54, 0x4C, 0x44, 0x00], [0x00, 0x08, 0x36, 0x41, 0x00, 0x00], [0x00, 0x00, 0x7F, 0x00, 0x00, 0x00],
     [0x00, 0x41, 0x36, 0x08, 0x00, 0x00], [0x02, 0x01, 0x02, 0x04, 0x02, 0x00]]"

section \<open>The I2C bus\<close>

datatype i2c_unit = I2C0 | I2C1

definition i2c_for_pins :: "u8 \<Rightarrow> u8 \<Rightarrow> i2c_unit option" where
  "i2c_for_pins sda scl =
     (if unat scl \<noteq> unat sda + 1 then None
      else if unat sda mod 4 = 0 \<and> unat scl mod 4 = 1 then Some I2C0
      else if unat sda mod 4 = 2 \<and> unat scl mod 4 = 3 then Some I2C1
      else None)"

text \<open>
  \<open>i2c_write_timeout_us\<close>: the bytes written to the device at an address, on the state \<open>'c\<close> of
  what is on the bus; the number written, or an error below zero.
\<close>

type_synonym 'c i2c_write = "i2c_unit \<Rightarrow> u8 \<Rightarrow> u8 list \<Rightarrow> 'c \<Rightarrow> int \<times> 'c"

text \<open>The static variables of the module. The motors and the engine are arguments where they are read.\<close>

record display =
  s_i2c :: "i2c_unit option"
  s_i2c_addr :: u8
  s_version :: string
  s_node_id :: u64
  s_ready :: bool
  s_framebuffer :: "u8 list"
  s_inverted :: bool

definition display_write :: "'c i2c_write \<Rightarrow> display \<Rightarrow> u8 list \<Rightarrow> 'c \<Rightarrow> int \<times> 'c" where
  "display_write W d bytes c = (case s_i2c d of None \<Rightarrow> (-1, c) | Some i2c \<Rightarrow> W i2c (s_i2c_addr d) bytes c)"

definition ssd1306_cmd :: "'c i2c_write \<Rightarrow> display \<Rightarrow> u8 \<Rightarrow> 'c \<Rightarrow> bool \<times> 'c" where
  "ssd1306_cmd W d cmd c = (case display_write W d [SSD1306_CMD, cmd] c of (n, c) \<Rightarrow> (n = 2, c))"

primrec ssd1306_cmd_list :: "'c i2c_write \<Rightarrow> display \<Rightarrow> u8 list \<Rightarrow> 'c \<Rightarrow> bool \<times> 'c" where
  "ssd1306_cmd_list W d [] c = (True, c)"
| "ssd1306_cmd_list W d (cmd # cmds) c =
     (case ssd1306_cmd W d cmd c of (ok, c) \<Rightarrow> if \<not> ok then (False, c) else ssd1306_cmd_list W d cmds c)"

definition fb_setup :: "u8 list" where
  "fb_setup = [0x21, 0, word_of_nat (DISPLAY_WIDTH - 1), 0x22, 0, word_of_nat (DISPLAY_PAGES - 1)]"

text \<open>The loop over the pages.\<close>

primrec write_pages :: "'c i2c_write \<Rightarrow> display \<Rightarrow> nat list \<Rightarrow> 'c \<Rightarrow> bool \<times> 'c" where
  "write_pages W d [] c = (True, c)"
| "write_pages W d (page # pages) c =
     (let chunk = SSD1306_DATA # take DISPLAY_WIDTH (drop (page * DISPLAY_WIDTH) (s_framebuffer d))
      in case display_write W d chunk c of
           (n, c) \<Rightarrow> if n \<noteq> int (1 + DISPLAY_WIDTH) then (False, c) else write_pages W d pages c)"

definition ssd1306_write_framebuffer :: "'c i2c_write \<Rightarrow> display \<Rightarrow> 'c \<Rightarrow> bool \<times> 'c" where
  "ssd1306_write_framebuffer W d c =
     (case ssd1306_cmd_list W d fb_setup c of
        (ok, c) \<Rightarrow> if \<not> ok then (False, c) else write_pages W d [0..<DISPLAY_PAGES] c)"

definition ssd1306_set_invert :: "'c i2c_write \<Rightarrow> display \<Rightarrow> bool \<Rightarrow> 'c \<Rightarrow> bool \<times> 'c" where
  "ssd1306_set_invert W d invert c = ssd1306_cmd W d (if invert then 0xA7 else 0xA6) c"

definition init_seq :: "u8 list" where
  "init_seq = [0xAE, 0xD5, 0x80, 0xA8, 0x3F, 0xD3, 0x00, 0x40, 0x8D, 0x14, 0x20, 0x00, 0xA1, 0xC8,
     0xDA, 0x12, 0x81, 0xCF, 0xD9, 0xF1, 0xDB, 0x40, 0xA4, 0xA6, 0xAF]"

definition ssd1306_init_controller :: "'c i2c_write \<Rightarrow> display \<Rightarrow> 'c \<Rightarrow> bool \<times> 'c" where
  "ssd1306_init_controller W d c = ssd1306_cmd_list W d init_seq c"

section \<open>Drawing\<close>

definition fb_clear :: "display \<Rightarrow> display" where
  "fb_clear d = d\<lparr>s_framebuffer := replicate FRAMEBUFFER_SIZE 0\<rparr>"

text \<open>The character drawn for one outside the font is a question mark.\<close>

definition glyph :: "char \<Rightarrow> u8 list" where
  "glyph ch = (let n = of_char ch :: nat; n = (if n < 0x20 \<or> n > 0x7E then of_char CHR ''?'' else n) in FONT_6X8 ! (n - 0x20))"

text \<open>\<open>None\<close>: the loop would write outside the framebuffer.\<close>

definition fb_draw_char :: "nat \<Rightarrow> nat \<Rightarrow> char \<Rightarrow> u8 list \<Rightarrow> u8 list option" where
  "fb_draw_char x row ch fb =
     (if x + 6 > DISPLAY_WIDTH \<or> row \<ge> DISPLAY_PAGES then Some fb
      else let start = row * DISPLAY_WIDTH + x
           in if start + 6 > length fb then None
              else Some (take start fb @ take 6 (glyph ch) @ drop (start + 6) fb))"

fun fb_draw_string :: "nat \<Rightarrow> nat \<Rightarrow> string \<Rightarrow> u8 list \<Rightarrow> u8 list option" where
  "fb_draw_string x row [] fb = Some fb"
| "fb_draw_string x row (ch # s) fb =
     (if x + 6 \<le> DISPLAY_WIDTH
      then case fb_draw_char x row ch fb of None \<Rightarrow> None | Some fb \<Rightarrow> fb_draw_string (x + 6) row s fb
      else Some fb)"

section \<open>The lines\<close>

text \<open>\<open>snprintf\<close>'s conversions: \<open>%u\<close>, \<open>%4u\<close> and \<open>%02X\<close>; the result is cut to the buffer.\<close>

definition digit :: "nat \<Rightarrow> char" where
  "digit n = (if n < 10 then char_of (of_char CHR ''0'' + n) else char_of (of_char CHR ''A'' + (n - 10)))"

fun fmt_u :: "nat \<Rightarrow> string" where
  "fmt_u n = (if n < 10 then [digit n] else fmt_u (n div 10) @ [digit (n mod 10)])"

declare fmt_u.simps [simp del]

definition fmt_4u :: "nat \<Rightarrow> string" where
  "fmt_4u n = replicate (4 - length (fmt_u n)) (CHR '' '') @ fmt_u n"

definition fmt_02X :: "u8 \<Rightarrow> string" where
  "fmt_02X b = [digit (unat b div 16), digit (unat b mod 16)]"

definition LINE_SIZE :: nat where "LINE_SIZE = 24"

definition snprintf :: "nat \<Rightarrow> string \<Rightarrow> string" where
  "snprintf n s = take (n - 1) s"

text \<open>\<open>to_ma\<close> is \<open>motor_raw_to_ma\<close>, a multiplication of floats.\<close>

definition track_line :: "(u16 \<Rightarrow> u16) \<Rightarrow> string \<Rightarrow> motor \<Rightarrow> string" where
  "track_line to_ma label m =
     (if motor_is_on m then label @ '': ON '' @ fmt_4u (unat (to_ma (last_reading m))) @ ''mA'' else label @ '': OFF'')"

definition loco_line :: "'q dcc_engine \<Rightarrow> string" where
  "loco_line dcc =
     (case dcc_get_last_throttle dcc of
        None \<Rightarrow> ''Loco: --''
      | Some (addr, is_long, step) \<Rightarrow>
          ''Loco '' @ fmt_u (unat addr) @ (if is_long then ''L '' else ''  '') @
          (if step AND 0x80 \<noteq> 0 then ''F '' else ''R '') @ fmt_u (unat (step AND 0x7F)))"

definition node_line :: "u64 \<Rightarrow> string" where
  "node_line ident =
     (let low = u32_of (ident AND 0xFFFFFF)
      in ''CS '' @ fmt_02X (u8_of (shr low 16 AND 0xFF)) @ ''.'' @ fmt_02X (u8_of (shr low 8 AND 0xFF)) @ ''.'' @
         fmt_02X (u8_of (low AND 0xFF)))"

definition fmt_track_line :: "(u16 \<Rightarrow> u16) \<Rightarrow> string \<Rightarrow> motor \<Rightarrow> string" where
  "fmt_track_line to_ma label m = snprintf LINE_SIZE (track_line to_ma label m)"

definition fmt_loco_line :: "'q dcc_engine \<Rightarrow> string" where
  "fmt_loco_line dcc = snprintf LINE_SIZE (loco_line dcc)"

definition fmt_node_line :: "u64 \<Rightarrow> string" where
  "fmt_node_line ident = snprintf LINE_SIZE (node_line ident)"

definition any_overcurrent :: "motor \<Rightarrow> motor \<Rightarrow> bool" where
  "any_overcurrent main prog \<longleftrightarrow> pstate main = POWER_MODE_OVERLOAD \<or> pstate prog = POWER_MODE_OVERLOAD"

section \<open>Start and task\<close>

definition display_init ::
  "'c i2c_write \<Rightarrow> u8 \<Rightarrow> u8 \<Rightarrow> u8 \<Rightarrow> bool \<Rightarrow> string option \<Rightarrow> u64 \<Rightarrow> display \<times> 'c \<Rightarrow> bool \<times> display \<times> 'c" where
  "display_init W sda_pin scl_pin i2c_addr enabled version ident s =
     (case s of (d, c) \<Rightarrow>
        (let d = d\<lparr>s_version := (case version of None \<Rightarrow> [] | Some v \<Rightarrow> v), s_node_id := ident\<rparr>
         in if \<not> enabled then (False, d, c)
            else let d = d\<lparr>s_i2c := i2c_for_pins sda_pin scl_pin\<rparr>
                 in if s_i2c d = None then (False, d, c)
                    else let d = d\<lparr>s_i2c_addr := i2c_addr\<rparr>
                         in case ssd1306_init_controller W d c of
                              (False, c) \<Rightarrow> (False, d, c)
                            | (True, c) \<Rightarrow>
                                (let d = fb_clear d
                                 in (True, d\<lparr>s_ready := True\<rparr>, snd (ssd1306_write_framebuffer W d c)))))"

text \<open>A string drawn into the framebuffer.\<close>

definition draw :: "nat \<Rightarrow> string \<Rightarrow> display \<Rightarrow> display option" where
  "draw row s d = map_option (\<lambda>fb. d\<lparr>s_framebuffer := fb\<rparr>) (fb_draw_string 0 row s (s_framebuffer d))"

definition display_splash :: "'c i2c_write \<Rightarrow> display \<times> 'c \<Rightarrow> (display \<times> 'c) option" where
  "display_splash W s =
     (case s of (d, c) \<Rightarrow>
        (case Option.bind (draw 2 ''simple-dcc'' (fb_clear d)) (draw 4 (s_version d)) of
           None \<Rightarrow> None
         | Some d \<Rightarrow>
             (let c = snd (ssd1306_write_framebuffer W d c); c = snd (ssd1306_set_invert W d False c)
              in Some (d\<lparr>s_inverted := False\<rparr>, c))))"

text \<open>What a refresh reads: the two motors and the engine.\<close>

type_synonym 'q shown = "motor \<times> motor \<times> 'q dcc_engine"

definition draw_status :: "(u16 \<Rightarrow> u16) \<Rightarrow> 'q shown \<Rightarrow> display \<Rightarrow> display option" where
  "draw_status to_ma v d =
     (case v of (main, prog, dcc) \<Rightarrow>
        Option.bind (draw 0 (fmt_track_line to_ma ''MAIN'' main) (fb_clear d)) (\<lambda>d.
        Option.bind (draw 2 (fmt_track_line to_ma ''PROG'' prog) d) (\<lambda>d.
        Option.bind (draw 4 (fmt_loco_line dcc) d) (\<lambda>d.
        draw 6 (fmt_node_line (s_node_id d)) d))))"

definition display_refresh ::
  "'c i2c_write \<Rightarrow> (u16 \<Rightarrow> u16) \<Rightarrow> 'q shown \<Rightarrow> bool \<times> display \<times> 'c \<Rightarrow> (bool \<times> display \<times> 'c) option" where
  "display_refresh W to_ma v s =
     (case (s, v) of ((flash_phase, d, c), (main, prog, dcc)) \<Rightarrow>
        (case draw_status to_ma v d of
           None \<Rightarrow> None
         | Some d \<Rightarrow>
             (let c = snd (ssd1306_write_framebuffer W d c);
                  flash_phase = (if any_overcurrent main prog then \<not> flash_phase else False);
                  want_invert = flash_phase
              in if want_invert \<noteq> s_inverted d
                 then Some (flash_phase, d\<lparr>s_inverted := want_invert\<rparr>, snd (ssd1306_set_invert W d want_invert c))
                 else Some (flash_phase, d, c))))"

primrec display_refreshes ::
  "'c i2c_write \<Rightarrow> (u16 \<Rightarrow> u16) \<Rightarrow> 'q shown list \<Rightarrow> bool \<times> display \<times> 'c \<Rightarrow> (bool \<times> display \<times> 'c) option" where
  "display_refreshes W to_ma [] s = Some s"
| "display_refreshes W to_ma (v # vs) s =
     (case display_refresh W to_ma v s of None \<Rightarrow> None | Some s \<Rightarrow> display_refreshes W to_ma vs s)"

text \<open>The task: nothing when the display is not ready, else the splash and then one refresh after another.\<close>

definition task_display ::
  "'c i2c_write \<Rightarrow> (u16 \<Rightarrow> u16) \<Rightarrow> 'q shown list \<Rightarrow> display \<times> 'c \<Rightarrow> (bool \<times> display \<times> 'c) option" where
  "task_display W to_ma vs s =
     (if \<not> s_ready (fst s) then Some (False, s)
      else case display_splash W s of None \<Rightarrow> None | Some s \<Rightarrow> display_refreshes W to_ma vs (False, s))"

section \<open>The panel\<close>

text \<open>
  An SSD1306 as its datasheet describes it, for the commands used here: the display memory, the
  window that is written and the position in it, the addressing mode (0 horizontal, 1 vertical, 2 page),
  what decides whether and how the memory is seen (display on, charge pump, memory or all pixels,
  start line, offset, number of rows, direction of columns and rows, inversion), and the
  bytes of a command that waits for its arguments.
\<close>

record panel =
  gddram :: "u8 list"
  p_col :: nat
  p_page :: nat
  col_window :: "nat \<times> nat"
  page_window :: "nat \<times> nat"
  addressing :: u8
  display_on :: bool
  charge_pump :: bool
  from_ram :: bool
  start_line :: nat
  row_offset :: nat
  mux_ratio :: nat
  seg_remap :: bool
  com_remap :: bool
  inverted :: bool
  p_args :: "u8 list"

definition arg_count :: "u8 \<Rightarrow> nat" where
  "arg_count b = (if b \<in> {0x21, 0x22} then 2 else if b \<in> {0x20, 0x81, 0x8D, 0xA8, 0xD3, 0xD5, 0xD9, 0xDA, 0xDB} then 1 else 0)"

text \<open>The window commands are for horizontal and vertical addressing.\<close>

definition panel_exec :: "u8 list \<Rightarrow> panel \<Rightarrow> panel" where
  "panel_exec cmd p =
     (if hd cmd = 0x21
      then (if addressing p > 1 then p else p\<lparr>col_window := (unat (cmd ! 1), unat (cmd ! 2)), p_col := unat (cmd ! 1)\<rparr>)
      else if hd cmd = 0x22
      then (if addressing p > 1 then p else p\<lparr>page_window := (unat (cmd ! 1), unat (cmd ! 2)), p_page := unat (cmd ! 1)\<rparr>)
      else if hd cmd = 0x20 then p\<lparr>addressing := cmd ! 1 AND 3\<rparr>
      else if hd cmd \<in> {0xAE, 0xAF} then p\<lparr>display_on := (hd cmd = 0xAF)\<rparr>
      else if hd cmd = 0x8D then p\<lparr>charge_pump := (cmd ! 1 AND 4 \<noteq> 0)\<rparr>
      else if hd cmd \<in> {0xA4, 0xA5} then p\<lparr>from_ram := (hd cmd = 0xA4)\<rparr>
      else if 0x40 \<le> hd cmd \<and> hd cmd \<le> 0x7F then p\<lparr>start_line := unat (hd cmd - 0x40)\<rparr>
      else if hd cmd = 0xD3 then p\<lparr>row_offset := unat (cmd ! 1)\<rparr>
      else if hd cmd = 0xA8 then p\<lparr>mux_ratio := unat (cmd ! 1)\<rparr>
      else if hd cmd \<in> {0xA0, 0xA1} then p\<lparr>seg_remap := (hd cmd = 0xA1)\<rparr>
      else if hd cmd \<in> {0xC0, 0xC8} then p\<lparr>com_remap := (hd cmd = 0xC8)\<rparr>
      else if hd cmd \<in> {0xA6, 0xA7} then p\<lparr>inverted := (hd cmd = 0xA7)\<rparr> else p)"

definition panel_command :: "u8 \<Rightarrow> panel \<Rightarrow> panel" where
  "panel_command b p =
     (let cmd = p_args p @ [b]
      in if length cmd \<le> arg_count (hd cmd) then p\<lparr>p_args := cmd\<rparr> else panel_exec cmd (p\<lparr>p_args := []\<rparr>))"

text \<open>A byte of data goes to the position, which moves on as the addressing mode says.\<close>

definition panel_data :: "u8 \<Rightarrow> panel \<Rightarrow> panel" where
  "panel_data b p =
     (let p = p\<lparr>gddram := (gddram p)[p_page p * 128 + p_col p := b]\<rparr>;
          next_col = (if p_col p \<noteq> snd (col_window p) then p_col p + 1 else fst (col_window p));
          next_page = (if p_page p \<noteq> snd (page_window p) then p_page p + 1 else fst (page_window p))
      in if addressing p = 0
         then p\<lparr>p_col := next_col, p_page := (if p_col p \<noteq> snd (col_window p) then p_page p else next_page)\<rparr>
         else if addressing p = 1
         then p\<lparr>p_page := next_page, p_col := (if p_page p \<noteq> snd (page_window p) then p_col p else next_col)\<rparr>
         else p\<lparr>p_col := (if p_col p \<noteq> 127 then p_col p + 1 else 0)\<rparr>)"

definition panel_write :: "u8 list \<Rightarrow> panel \<Rightarrow> panel" where
  "panel_write bytes p =
     (case bytes of
        [] \<Rightarrow> p
      | control # bs \<Rightarrow> if control = 0x00 then fold panel_command bs p else if control = 0x40 then fold panel_data bs p else p)"

definition panel_answers :: "'c i2c_write \<Rightarrow> ('c \<Rightarrow> panel) \<Rightarrow> i2c_unit \<Rightarrow> u8 \<Rightarrow> bool" where
  "panel_answers W view i2c addr \<longleftrightarrow>
     (\<forall>bytes c. fst (W i2c addr bytes c) = int (length bytes) \<and> view (snd (W i2c addr bytes c)) = panel_write bytes (view c))"

definition panel_ready :: "panel \<Rightarrow> bool" where
  "panel_ready p \<longleftrightarrow> length (gddram p) = 1024 \<and> p_args p = []"

text \<open>
  The panel is on and shows its whole memory, upright: 64 rows from line 0, with the columns and rows in the direction in
  which the panel is mounted. What it then shows is the memory, inverted or not.
\<close>

definition panel_set_up :: "panel \<Rightarrow> bool" where
  "panel_set_up p \<longleftrightarrow> panel_ready p \<and> addressing p = 0 \<and> display_on p \<and> charge_pump p \<and> from_ram p \<and>
     start_line p = 0 \<and> row_offset p = 0 \<and> mux_ratio p = 63 \<and> seg_remap p \<and> com_remap p"

definition panel_shows :: "u8 list \<Rightarrow> bool \<Rightarrow> panel \<Rightarrow> bool" where
  "panel_shows picture invert p \<longleftrightarrow> panel_set_up p \<and> gddram p = picture \<and> inverted p = invert"

lemma panel_commands:
  assumes "panel_answers W view i2c addr" and "s_i2c d = Some i2c" and "s_i2c_addr d = addr"
  shows "fst (ssd1306_cmd W d cmd c)" and "view (snd (ssd1306_cmd W d cmd c)) = panel_command cmd (view c)"
    and "fst (ssd1306_cmd_list W d cmds c)" and "view (snd (ssd1306_cmd_list W d cmds c)) = fold panel_command cmds (view c)"
proof -
  have one: "fst (ssd1306_cmd W d b c) \<and> view (snd (ssd1306_cmd W d b c)) = panel_command b (view c)" for b c
    using assms by (simp add: ssd1306_cmd_def display_write_def panel_answers_def panel_write_def SSD1306_CMD_def split_beta)
  then show "fst (ssd1306_cmd W d cmd c)" "view (snd (ssd1306_cmd W d cmd c)) = panel_command cmd (view c)" by simp_all
  have "fst (ssd1306_cmd_list W d cmds c) \<and> view (snd (ssd1306_cmd_list W d cmds c)) = fold panel_command cmds (view c)"
    using one by (induction cmds arbitrary: c) (simp_all add: split_beta)
  then show "fst (ssd1306_cmd_list W d cmds c)" "view (snd (ssd1306_cmd_list W d cmds c)) = fold panel_command cmds (view c)"
    by simp_all
qed

lemma panel_init: "panel_ready p \<Longrightarrow> panel_set_up (fold panel_command init_seq p)"
  by (simp add: panel_set_up_def panel_ready_def init_seq_def panel_command_def panel_exec_def arg_count_def)

lemma panel_setup:
  "panel_set_up p \<Longrightarrow> fold panel_command fb_setup p =
     p\<lparr>col_window := (0, 127), p_col := 0, page_window := (0, 7), p_page := 0\<rparr>"
  by (simp add: fb_setup_def panel_command_def panel_exec_def arg_count_def DISPLAY_WIDTH_def DISPLAY_PAGES_def
      panel_set_up_def panel_ready_def)

lemma panel_row:
  assumes "col_window p = (0, 127)" and "page_window p = (0, 7)" and "p_page p < 8" and "bs \<noteq> []"
    and "p_col p + length bs = 128" and "length (gddram p) = 1024" and "addressing p = 0"
  shows "fold panel_data bs p = p\<lparr>gddram := take (p_page p * 128 + p_col p) (gddram p) @ bs @ drop ((p_page p + 1) * 128) (gddram p),
    p_col := 0, p_page := (if p_page p = 7 then 0 else p_page p + 1)\<rparr>"
  using assms
proof (induction bs arbitrary: p)
  case (Cons b bs)
  let ?i = "p_page p * 128 + p_col p"
  have i: "?i < length (gddram p)" using Cons.prems by simp
  show ?case
  proof (cases "bs = []")
    case True
    then show ?thesis using Cons.prems i
      by (simp add: panel_data_def Let_def upd_conv_take_nth_drop add.commute)
  next
    case False
    let ?p = "p\<lparr>gddram := (gddram p)[?i := b], p_col := p_col p + 1\<rparr>"
    have d: "panel_data b p = ?p" using Cons.prems False by (cases bs) (simp_all add: panel_data_def Let_def)
    have prems: "col_window ?p = (0, 127)" "page_window ?p = (0, 7)" "p_page ?p < 8" "p_col ?p + length bs = 128"
      "length (gddram ?p) = 1024" "addressing ?p = 0" using Cons.prems by simp_all
    have t: "take (p_page ?p * 128 + p_col ?p) (gddram ?p) = take ?i (gddram p) @ [b]"
      using take_Suc_update [OF i, of b] by simp
    have u: "drop ((p_page ?p + 1) * 128) (gddram ?p) = drop ((p_page p + 1) * 128) (gddram p)"
      using Cons.prems by simp
    show ?thesis
      using Cons.IH [OF prems(1-3) False prems(4-6)] unfolding t u by (simp add: d)
  qed
qed simp

lemma write_pages_panel:
  assumes "panel_answers W view i2c addr" and "s_i2c d = Some i2c" and "s_i2c_addr d = addr"
    and "length (s_framebuffer d) = 1024" and "k \<le> 8" and "col_window (view c) = (0, 127)" and "page_window (view c) = (0, 7)"
    and "p_page (view c) = k mod 8" and "p_col (view c) = 0" and "length (gddram (view c)) = 1024" and "addressing (view c) = 0"
  shows "view (snd (write_pages W d [k..<8] c)) =
    (view c)\<lparr>gddram := take (k * 128) (gddram (view c)) @ drop (k * 128) (s_framebuffer d), p_page := 0\<rparr>"
  using assms(5-)
proof (induction "8 - k" arbitrary: k c)
  case 0
  then show ?case using assms(4) by simp
next
  case (Suc n)
  then have k: "k < 8" by simp
  let ?row = "take 128 (drop (k * 128) (s_framebuffer d))"
  have r: "length ?row = 128" using assms(4) k by simp
  let ?c = "snd (display_write W d (SSD1306_DATA # ?row) c)" and ?g = "gddram (view c)"
  have w: "fst (display_write W d (SSD1306_DATA # ?row) c) = 129" "view ?c = fold panel_data ?row (view c)"
    using assms(1) r by (simp_all add: display_write_def assms(2,3) panel_answers_def panel_write_def SSD1306_DATA_def)
  have row: "view ?c = (view c)\<lparr>gddram := take (k * 128) ?g @ ?row @ drop ((k + 1) * 128) ?g, p_col := 0, p_page := (k + 1) mod 8\<rparr>"
    unfolding w(2) by (subst panel_row) (use Suc.prems k r in auto)
  have IH: "view (snd (write_pages W d [k + 1..<8] ?c)) =
      (view ?c)\<lparr>gddram := take ((k + 1) * 128) (gddram (view ?c)) @ drop ((k + 1) * 128) (s_framebuffer d), p_page := 0\<rparr>"
    by (rule Suc.hyps(1)) (use Suc.hyps(2) Suc.prems k row r in auto)
  have g: "take ((k + 1) * 128) (gddram (view ?c)) @ drop ((k + 1) * 128) (s_framebuffer d) =
      take (k * 128) ?g @ drop (k * 128) (s_framebuffer d)"
    using Suc.prems k r assms(4) append_take_drop_id [of 128 "drop (k * 128) (s_framebuffer d)"]
    by (simp add: row add.commute)
  have "write_pages W d [k..<8] c = write_pages W d [k + 1..<8] ?c"
    using k w(1) by (simp add: upt_conv_Cons DISPLAY_WIDTH_def split_beta)
  then have "view (snd (write_pages W d [k..<8] c)) =
      (view ?c)\<lparr>gddram := take (k * 128) ?g @ drop (k * 128) (s_framebuffer d), p_page := 0\<rparr>"
    using IH unfolding g by simp
  then show ?case unfolding row by (intro panel.equality) (use Suc.prems(5) in simp_all)
qed

lemma write_framebuffer_panel:
  assumes "panel_answers W view i2c addr" and "s_i2c d = Some i2c" and "s_i2c_addr d = addr"
    and "length (s_framebuffer d) = 1024" and "panel_set_up (view c)"
  shows "panel_set_up (view (snd (ssd1306_write_framebuffer W d c)))"
    and "gddram (view (snd (ssd1306_write_framebuffer W d c))) = s_framebuffer d"
    and "inverted (view (snd (ssd1306_write_framebuffer W d c))) = inverted (view c)"
proof -
  let ?c = "snd (ssd1306_cmd_list W d fb_setup c)"
  note cmds = panel_commands(3,4) [OF assms(1-3)]
  have s: "view ?c = (view c)\<lparr>col_window := (0, 127), p_col := 0, page_window := (0, 7), p_page := 0\<rparr>"
    unfolding cmds(2) by (rule panel_setup) (rule assms(5))
  have w: "view (snd (write_pages W d [0..<8] ?c)) = (view ?c)\<lparr>gddram := take (0 * 128) (gddram (view ?c)) @ drop (0 * 128) (s_framebuffer d), p_page := 0\<rparr>"
    by (rule write_pages_panel [OF assms(1-4)]) (use s assms(5) in \<open>simp_all add: panel_set_up_def panel_ready_def\<close>)
  have e: "snd (ssd1306_write_framebuffer W d c) = snd (write_pages W d [0..<8] ?c)"
    using cmds(1) [of fb_setup c] by (simp add: ssd1306_write_framebuffer_def DISPLAY_PAGES_def split_beta)
  show "panel_set_up (view (snd (ssd1306_write_framebuffer W d c)))"
    "gddram (view (snd (ssd1306_write_framebuffer W d c))) = s_framebuffer d"
    "inverted (view (snd (ssd1306_write_framebuffer W d c))) = inverted (view c)"
    using assms(4,5) by (simp_all add: e w s panel_set_up_def panel_ready_def)
qed

section \<open>The lines on the screen\<close>

text \<open>A page with a text in it, and the screen with a line in every second page.\<close>

definition text_page :: "string \<Rightarrow> u8 list" where
  "text_page s = concat (map glyph s) @ replicate (128 - 6 * length s) 0"

definition screen :: "string list \<Rightarrow> u8 list" where
  "screen lines = concat (map text_page lines)"

lemma font_shape: "length FONT_6X8 = 95" "\<forall>g\<in>set FONT_6X8. length g = 6"
  by (simp_all add: FONT_6X8_def)

lemma glyph_length [simp]: "length (glyph ch) = 6"
  using font_shape by (auto simp: glyph_def Let_def)

lemma draw_string_from:
  assumes "row < 8" and "length fb = 1024" and "x + 6 * length s \<le> 128"
  shows "fb_draw_string x row s fb =
    Some (take (row * 128 + x) fb @ concat (map glyph s) @ drop (row * 128 + x + 6 * length s) fb)"
  using assms(2,3)
proof (induction s arbitrary: x fb)
  case (Cons ch s)
  let ?i = "row * 128 + x"
  let ?fb = "take ?i fb @ glyph ch @ drop (?i + 6) fb"
  have i: "?i + 6 \<le> length fb" "x + 6 \<le> 128" using Cons.prems assms(1) by simp_all
  then have c: "fb_draw_char x row ch fb = Some ?fb"
    using assms(1) by (simp add: fb_draw_char_def DISPLAY_WIDTH_def DISPLAY_PAGES_def Let_def)
  have l: "length ?fb = 1024" using i Cons.prems by simp
  have t: "take (row * 128 + (x + 6)) ?fb = take ?i fb @ glyph ch" "drop (row * 128 + (x + 6) + 6 * length s) ?fb = drop (?i + 6 * length (ch # s)) fb"
    using i by (simp_all add: add.commute add.left_commute)
  show ?case
    using Cons.IH [OF l, of "x + 6"] Cons.prems i(2) by (simp only: t) (simp add: c DISPLAY_WIDTH_def)
qed simp

lemma draw_string_clips: "x \<le> 128 \<Longrightarrow> fb_draw_string x row s fb = fb_draw_string x row (take ((128 - x) div 6) s) fb"
proof (induction s arbitrary: x fb)
  case (Cons ch s)
  show ?case
  proof (cases "x + 6 \<le> 128")
    case True
    then have "(128 - x) div 6 = Suc ((128 - (x + 6)) div 6)" by simp
    then show ?thesis using True Cons.IH [of "x + 6"] by (simp add: DISPLAY_WIDTH_def split: option.split)
  qed (simp add: DISPLAY_WIDTH_def)
qed simp

lemma text_page_length [simp]: "length s \<le> 21 \<Longrightarrow> length (text_page s) = 128"
proof -
  have "length (concat (map glyph s)) = 6 * length s" by (induction s) simp_all
  then show "length s \<le> 21 \<Longrightarrow> length (text_page s) = 128" by (simp add: text_page_def)
qed

lemma screen_length: "\<forall>s\<in>set ls. length s \<le> 21 \<Longrightarrow> length (screen ls) = 128 * length ls"
  by (induction ls) (simp_all add: screen_def)

lemma draw_line:
  assumes "length ls = 8" and "row < 8" and "\<forall>s\<in>set ls. length s \<le> 21" and "ls ! row = []" and "length s \<le> 21"
  shows "fb_draw_string 0 row s (screen ls) = Some (screen (ls[row := s]))"
proof -
  let ?A = "screen (take row ls)" and ?B = "screen (drop (Suc row) ls)"
  have A: "length ?A = row * 128" using assms(1-3) by (subst screen_length) (auto dest: in_set_takeD)
  have ls: "ls = take row ls @ [] # drop (Suc row) ls" "ls[row := s] = take row ls @ s # drop (Suc row) ls"
    using assms(1,2,4) id_take_nth_drop [of row ls] by (simp_all add: upd_conv_take_nth_drop)
  have fb: "screen ls = ?A @ replicate 128 0 @ ?B" by (subst ls(1)) (simp add: screen_def text_page_def)
  have l: "length (screen ls) = 1024" using assms(1,3) by (simp add: screen_length)
  have "drop (row * 128 + 6 * length s) (screen ls) = replicate (128 - 6 * length s) 0 @ ?B"
    using A assms(5) by (simp add: fb)
  moreover have "take (row * 128) (screen ls) = ?A" using A by (simp add: fb)
  ultimately have "fb_draw_string 0 row s (screen ls) = Some (?A @ text_page s @ ?B)"
    using draw_string_from [OF assms(2) l, of 0 s] assms(5) by (simp add: text_page_def)
  then show ?thesis by (simp add: ls(2) screen_def)
qed

lemma fmt_u_length: "n < 10 ^ Suc k \<Longrightarrow> length (fmt_u n) \<le> Suc k"
proof (induction k arbitrary: n)
  case (Suc k)
  have "n div 10 < 10 ^ Suc k" using Suc.prems by (simp add: less_mult_imp_div_less)
  from Suc.IH [OF this] show ?case by (simp add: fmt_u.simps [of n])
qed (simp add: fmt_u.simps)

lemma fmt_u16_length: "length (fmt_u (unat (a :: u16))) \<le> 5"
proof -
  have "unat a < 2 ^ LENGTH(16)" by (rule unsigned_less)
  then show ?thesis using fmt_u_length [of "unat a" 4] by simp
qed

lemma fmt_step_length: "length (fmt_u (unat ((s :: u8) AND 0x7F))) \<le> 3"
proof -
  have "s AND 0x7F \<le> 0x7F" by (rule word_and_le1)
  then have "unat (s AND 0x7F) \<le> 127" by (simp add: word_le_nat_alt)
  then show ?thesis using fmt_u_length [of "unat (s AND 0x7F)" 2] by simp
qed

lemma line_lengths:
  "length l = 4 \<Longrightarrow> length (track_line to_ma l m) \<le> 21" "length (loco_line dcc) \<le> 21" "length (node_line n) \<le> 21"
proof -
  show "length l = 4 \<Longrightarrow> length (track_line to_ma l m) \<le> 21"
    using fmt_u16_length [of "to_ma (last_reading m)"] by (auto simp: track_line_def fmt_4u_def)
  show "length (loco_line dcc) \<le> 21"
  proof (cases "dcc_get_last_throttle dcc")
    case (Some t)
    obtain a l s where "t = (a, l, s)" by (cases t)
    then show ?thesis using fmt_u16_length [of a] fmt_step_length [of s] by (simp add: loco_line_def Some)
  qed (simp add: loco_line_def)
  show "length (node_line n) \<le> 21" by (simp add: node_line_def fmt_02X_def Let_def)
qed

definition status_lines :: "(u16 \<Rightarrow> u16) \<Rightarrow> u64 \<Rightarrow> 'q shown \<Rightarrow> string list" where
  "status_lines to_ma ident v = (case v of (main, prog, dcc) \<Rightarrow>
     [track_line to_ma ''MAIN'' main, [], track_line to_ma ''PROG'' prog, [], loco_line dcc, [], node_line ident, []])"

lemma status_lines_short: "\<forall>s\<in>set (status_lines to_ma ident v). length s \<le> 21"
  by (cases v) (auto simp: status_lines_def line_lengths)

lemma clear_screen: "s_framebuffer (fb_clear d) = screen (replicate 8 [])"
  by (simp add: fb_clear_def screen_def text_page_def FRAMEBUFFER_SIZE_def DISPLAY_WIDTH_def DISPLAY_PAGES_def
      eval_nat_numeral flip: replicate_add)

lemma draw_status_screen:
  "draw_status to_ma v d = Some (d\<lparr>s_framebuffer := screen (status_lines to_ma (s_node_id d) v)\<rparr>)"
proof -
  obtain main prog dcc where v: "v = (main, prog, dcc)" by (metis prod_cases3)
  have id: "s_node_id (fb_clear d) = s_node_id d" "(fb_clear d)\<lparr>s_framebuffer := fb\<rparr> = d\<lparr>s_framebuffer := fb\<rparr>" for fb
    by (simp_all add: fb_clear_def)
  have cut: "length s \<le> 21 \<Longrightarrow> snprintf LINE_SIZE s = s" for s by (simp add: snprintf_def LINE_SIZE_def)
  note short = line_lengths(1) [of "''MAIN''"] line_lengths(1) [of "''PROG''"] line_lengths(2,3)
  have r: "replicate 8 ([] :: string) = [[], [], [], [], [], [], [], []]" by (simp add: eval_nat_numeral)
  show ?thesis
    by (simp add: draw_status_def v draw_def clear_screen r draw_line short fmt_track_line_def fmt_loco_line_def
        fmt_node_line_def cut id status_lines_def)
qed

definition tripped :: "'q shown \<Rightarrow> bool" where
  "tripped v = (case v of (main, prog, dcc) \<Rightarrow> any_overcurrent main prog)"

definition display_ok :: "('c \<Rightarrow> panel) \<Rightarrow> i2c_unit \<Rightarrow> u8 \<Rightarrow> u64 \<Rightarrow> bool \<times> display \<times> 'c \<Rightarrow> bool" where
  "display_ok view i2c addr ident = (\<lambda>(flash, d, c). s_i2c d = Some i2c \<and> s_i2c_addr d = addr \<and> s_node_id d = ident \<and>
     panel_set_up (view c) \<and> s_inverted d = flash \<and> inverted (view c) = flash)"

lemma panel_invert:
  "panel_set_up p \<Longrightarrow> panel_command (if on then 0xA7 else 0xA6) p = p\<lparr>inverted := on\<rparr>"
  by (cases p) (simp add: panel_command_def panel_exec_def arg_count_def panel_set_up_def panel_ready_def)

lemma refresh_shows:
  assumes "panel_answers W view i2c addr" and "display_ok view i2c addr ident (flash, d, c)"
  shows "\<exists>d' c'. display_refresh W to_ma v (flash, d, c) = Some (tripped v \<and> \<not> flash, d', c') \<and>
    display_ok view i2c addr ident (tripped v \<and> \<not> flash, d', c') \<and> gddram (view c') = screen (status_lines to_ma ident v)"
proof -
  let ?d = "d\<lparr>s_framebuffer := screen (status_lines to_ma (s_node_id d) v)\<rparr>" and ?f = "tripped v \<and> \<not> flash"
  let ?c = "snd (ssd1306_write_framebuffer W ?d c)"
  obtain main prog dcc where v: "v = (main, prog, dcc)" by (metis prod_cases3)
  have ok: "s_i2c ?d = Some i2c" "s_i2c_addr ?d = addr" "panel_set_up (view c)" "s_node_id d = ident" "s_inverted d = flash"
    "inverted (view c) = flash" using assms(2) by (simp_all add: display_ok_def)
  have l: "length (s_framebuffer ?d) = 1024" using screen_length [OF status_lines_short, of to_ma "s_node_id d" v] by (simp add: status_lines_def v)
  note w = write_framebuffer_panel [OF assms(1) ok(1,2) l ok(3)]
  have inv: "view (snd (ssd1306_set_invert W ?d ?f ?c)) = (view ?c)\<lparr>inverted := ?f\<rparr>"
    unfolding ssd1306_set_invert_def panel_commands(2) [OF assms(1) ok(1,2)] by (rule panel_invert [OF w(1)])
  have o: "any_overcurrent main prog = tripped v" by (simp add: tripped_def v)
  have r: "display_refresh W to_ma v (flash, d, c) =
      (if ?f \<noteq> flash then Some (?f, ?d\<lparr>s_inverted := ?f\<rparr>, snd (ssd1306_set_invert W ?d ?f ?c)) else Some (?f, ?d, ?c))"
    using ok(5) draw_status_screen [of to_ma v d] by (auto simp: display_refresh_def v o [unfolded v] Let_def)
  show ?thesis
  proof (cases "?f = flash")
    case True
    then show ?thesis using ok w by (auto simp: r display_ok_def)
  next
    case False
    have "panel_set_up (view (snd (ssd1306_set_invert W ?d ?f ?c)))" using w(1) by (simp add: inv panel_set_up_def panel_ready_def)
    then show ?thesis using False ok w inv by (simp add: r display_ok_def)
  qed
qed

definition flash_after :: "'q shown list \<Rightarrow> bool" where
  "flash_after vs = odd (length (takeWhile tripped (rev vs)))"

lemma fold_flash: "fold (\<lambda>v f. tripped v \<and> \<not> f) vs False = flash_after vs"
  by (induction vs rule: rev_induct) (auto simp: flash_after_def)

lemma refreshes_show:
  assumes "panel_answers W view i2c addr" and "display_ok view i2c addr ident (flash, d, c)"
  shows "\<exists>d' c'. display_refreshes W to_ma vs (flash, d, c) = Some (fold (\<lambda>v f. tripped v \<and> \<not> f) vs flash, d', c') \<and>
    display_ok view i2c addr ident (fold (\<lambda>v f. tripped v \<and> \<not> f) vs flash, d', c') \<and>
    (vs \<noteq> [] \<longrightarrow> gddram (view c') = screen (status_lines to_ma ident (last vs)))"
  using assms(2)
proof (induction vs arbitrary: flash d c)
  case (Cons v vs)
  from refresh_shows [OF assms(1) Cons.prems, of to_ma v] obtain d1 c1 where
    1: "display_refresh W to_ma v (flash, d, c) = Some (tripped v \<and> \<not> flash, d1, c1)"
      "display_ok view i2c addr ident (tripped v \<and> \<not> flash, d1, c1)" "gddram (view c1) = screen (status_lines to_ma ident v)"
    by blast
  from Cons.IH [OF 1(2)] show ?case using 1 by (cases "vs = []") auto
qed simp

lemma draw_any: "row < 8 \<Longrightarrow> length (s_framebuffer d) = 1024 \<Longrightarrow>
    \<exists>fb. draw row s d = Some (d\<lparr>s_framebuffer := fb\<rparr>) \<and> length fb = 1024"
proof -
  assume r: "row < 8" and l: "length (s_framebuffer d) = 1024"
  let ?s = "take 21 s"
  have "fb_draw_string 0 row s (s_framebuffer d) = fb_draw_string 0 row ?s (s_framebuffer d)"
    using draw_string_clips [of 0 row s "s_framebuffer d"] by simp
  also have "\<dots> = Some (take (row * 128 + 0) (s_framebuffer d) @ concat (map glyph ?s) @
      drop (row * 128 + 0 + 6 * length ?s) (s_framebuffer d))" by (rule draw_string_from [OF r l]) simp
  finally have d: "fb_draw_string 0 row s (s_framebuffer d) = \<dots>" .
  have "length (concat (map glyph t)) = 6 * length t" for t by (induction t) simp_all
  then show ?thesis using r l by (simp add: draw_def d) (intro exI conjI, rule refl, simp)
qed

lemma splash_ok:
  assumes "panel_answers W view i2c addr" and "s_i2c d = Some i2c" and "s_i2c_addr d = addr" and "s_node_id d = ident"
    and "panel_set_up (view c)"
  shows "\<exists>d' c'. display_splash W (d, c) = Some (d', c') \<and> display_ok view i2c addr ident (False, d', c')"
proof -
  have l: "length (s_framebuffer (fb_clear d)) = 1024"
    by (simp add: fb_clear_def FRAMEBUFFER_SIZE_def DISPLAY_WIDTH_def DISPLAY_PAGES_def)
  obtain fb1 where 1: "draw 2 ''simple-dcc'' (fb_clear d) = Some ((fb_clear d)\<lparr>s_framebuffer := fb1\<rparr>)" "length fb1 = 1024"
    using draw_any [OF _ l, of 2] by auto
  obtain fb2 where 2: "draw 4 (s_version d) ((fb_clear d)\<lparr>s_framebuffer := fb1\<rparr>) = Some ((fb_clear d)\<lparr>s_framebuffer := fb2\<rparr>)"
    "length fb2 = 1024" using draw_any [of 4 "(fb_clear d)\<lparr>s_framebuffer := fb1\<rparr>" "s_version d"] 1(2) by auto
  let ?d = "(fb_clear d)\<lparr>s_framebuffer := fb2\<rparr>"
  let ?c = "snd (ssd1306_write_framebuffer W ?d c)"
  have d: "s_i2c ?d = Some i2c" "s_i2c_addr ?d = addr" "s_node_id ?d = ident" "length (s_framebuffer ?d) = 1024"
    using assms(2-4) 2(2) by (simp_all add: fb_clear_def)
  note w = write_framebuffer_panel [OF assms(1) d(1,2,4) assms(5)]
  have inv: "view (snd (ssd1306_set_invert W ?d False ?c)) = (view ?c)\<lparr>inverted := False\<rparr>"
    unfolding ssd1306_set_invert_def panel_commands(2) [OF assms(1) d(1,2)] by (rule panel_invert [OF w(1)])
  have v: "s_version (fb_clear d) = s_version d" by (simp add: fb_clear_def)
  show ?thesis using w(1) d
    by (simp add: display_splash_def 1(1) 2(1) Let_def display_ok_def inv panel_set_up_def panel_ready_def)
qed

text \<open>
  C39: What the display shows. On a panel that answers, whatever it was set to before, from \<open>display_init\<close> with the
  display enabled and a valid pair of pins: it is set up, the task never writes outside the framebuffer, and after
  any refreshes the panel is on, upright, and shows the two tracks, the last loco and the node's ID as they were
  read last, each line whole; it is inverted exactly after an odd number of refreshes
  since a track went into overload, so it flashes while the overload lasts and is normal otherwise.
\<close>

theorem display_shows_status:
  assumes "panel_answers W view i2c addr" and "i2c_for_pins sda scl = Some i2c" and "panel_ready (view c)" and "vs \<noteq> []"
    and "display_init W sda scl addr True version ident (d, c) = (ok, d1, c1)"
  shows "ok \<and> (\<exists>flash d2 c2. task_display W to_ma vs (d1, c1) = Some (flash, d2, c2) \<and>
    panel_shows (screen (status_lines to_ma ident (last vs))) (odd (length (takeWhile tripped (rev vs)))) (view c2))"
proof -
  let ?d = "d\<lparr>s_version := (case version of None \<Rightarrow> [] | Some v \<Rightarrow> v), s_node_id := ident, s_i2c := Some i2c, s_i2c_addr := addr\<rparr>"
  have d: "s_i2c ?d = Some i2c" "s_i2c_addr ?d = addr" by simp_all
  note cmds = panel_commands(3,4) [OF assms(1) d]
  let ?c = "snd (ssd1306_init_controller W ?d c)"
  have ready: "panel_set_up (view ?c)" using panel_init [OF assms(3)] by (simp add: ssd1306_init_controller_def cmds(2))
  have init: "fst (ssd1306_init_controller W ?d c)" using cmds(1) by (simp add: ssd1306_init_controller_def)
  have r: "ok" "d1 = (fb_clear ?d)\<lparr>s_ready := True\<rparr>" "c1 = snd (ssd1306_write_framebuffer W (fb_clear ?d) ?c)"
    using assms(5) init by (auto simp: display_init_def assms(2) Let_def split: prod.splits bool.splits)
  have l: "s_i2c (fb_clear ?d) = Some i2c" "s_i2c_addr (fb_clear ?d) = addr" "length (s_framebuffer (fb_clear ?d)) = 1024"
    by (simp_all add: fb_clear_def FRAMEBUFFER_SIZE_def DISPLAY_WIDTH_def DISPLAY_PAGES_def)
  have "panel_set_up (view c1)" unfolding r(3) by (rule write_framebuffer_panel(1) [OF assms(1) l ready])
  moreover have "s_i2c d1 = Some i2c" "s_i2c_addr d1 = addr" "s_node_id d1 = ident" "s_ready d1"
    by (simp_all add: r(2) fb_clear_def)
  ultimately obtain d' c' where s: "display_splash W (d1, c1) = Some (d', c')" "display_ok view i2c addr ident (False, d', c')"
    using splash_ok [OF assms(1), of d1 ident c1] by blast
  from refreshes_show [OF assms(1) s(2), of to_ma vs] show ?thesis
    using s(1) \<open>s_ready d1\<close> assms(4) r(1)
    by (auto simp: task_display_def fold_flash display_ok_def flash_after_def panel_shows_def)
qed

definition dark_display :: display where
  "dark_display = \<lparr>s_i2c = None, s_i2c_addr = 0, s_version = [], s_node_id = 0, s_ready = False, s_framebuffer = [], s_inverted = False\<rparr>"

definition dark_panel :: panel where
  "dark_panel = \<lparr>gddram = replicate 1024 0, p_col = 0, p_page = 0, col_window = (0, 0), page_window = (0, 0),
     addressing = 2, display_on = False, charge_pump = False, from_ram = False, start_line = 5, row_offset = 1, mux_ratio = 31,
     seg_remap = False, com_remap = False, inverted = True, p_args = []\<rparr>"

definition tripped_tracks :: "nat list shown" where
  "tripped_tracks = ((motor_init 500)\<lparr>pstate := POWER_MODE_OVERLOAD\<rparr>, motor_init 500, dcc_init [] packet_pool_init)"

lemma node_line_1: "node_line 1 = ''CS 00.00.01''"
  by code_simp

theorem display_shows_status_witness:
  "\<exists>flash d p. task_display (\<lambda>i2c addr bytes p. (int (length bytes), panel_write bytes p)) (\<lambda>raw. raw) [tripped_tracks]
      (snd (display_init (\<lambda>i2c addr bytes p. (int (length bytes), panel_write bytes p)) 4 5 0x3C True None 1 (dark_display, dark_panel))) =
        Some (flash, d, p) \<and>
     panel_shows (screen [''MAIN: OFF'', [], ''PROG: OFF'', [], ''Loco: --'', [], ''CS 00.00.01'', []]) True p"
proof -
  let ?W = "\<lambda>(i2c :: i2c_unit) (addr :: u8) bytes p. (int (length bytes), panel_write bytes p)"
  have W: "panel_answers ?W (\<lambda>p. p) I2C0 0x3C" by (simp add: panel_answers_def)
  have pins: "i2c_for_pins 4 5 = Some I2C0" by (simp add: i2c_for_pins_def)
  have ready: "panel_ready dark_panel" by (simp add: panel_ready_def dark_panel_def)
  obtain ok d1 c1 where i: "display_init ?W 4 5 0x3C True None 1 (dark_display, dark_panel) = (ok, d1, c1)"
    by (rule prod_cases3)
  have lines: "status_lines (\<lambda>raw. raw) 1 tripped_tracks = [''MAIN: OFF'', [], ''PROG: OFF'', [], ''Loco: --'', [], ''CS 00.00.01'', []]"
    by (simp add: status_lines_def tripped_tracks_def track_line_def motor_init_def motor_is_on_def loco_line_def
        dcc_get_last_throttle_def dcc_init_def node_line_1)
  have t: "tripped tripped_tracks" by (simp add: tripped_def tripped_tracks_def any_overcurrent_def)
  show ?thesis
    using display_shows_status [OF W pins ready _ i, of "[tripped_tracks]" "\<lambda>raw. raw"] by (simp add: i lines t)
qed

end
