(* ===== verification/Startup.thy ===== *)
theory Startup
  imports Wavegen Display Station_Safety Lcc_Pool
begin

text \<open>
  The start of the program, \<^verbatim>\<open>src/src/main.c\<close>, and the task that reads the USB console,
  \<^verbatim>\<open>src/src/serial/serial.c\<close>. Proved: whatever the flash holds, start-up on a chip whose PIO is free
  ends, and in a state in which what every component's theorems ask for holds.
\<close>

section \<open>The tasks\<close>

datatype main_task = Task_Wavegen | Task_Priority_Queue | Task_Track_Monitor | Task_Dcc_Reminder
  | Task_Protocol | Task_Serial | Task_Servicemode | Task_Railcom | Task_Display

text \<open>The tasks created, each with its priority.\<close>

definition create_tasks :: "bool \<Rightarrow> bool \<Rightarrow> bool \<Rightarrow> (main_task \<times> nat) list" where
  "create_tasks servicemode_ok railcom_ok disp_ok =
     [(Task_Wavegen, 6), (Task_Priority_Queue, 5), (Task_Track_Monitor, 4), (Task_Dcc_Reminder, 3),
      (Task_Protocol, 2), (Task_Serial, 1)] @
     (if servicemode_ok then [(Task_Servicemode, 1)] else []) @
     (if railcom_ok then [(Task_Railcom, 2)] else []) @
     (if disp_ok then [(Task_Display, 1)] else [])"

section \<open>Start-up\<close>

definition WAVEGEN_QUEUE_DEPTH :: nat where "WAVEGEN_QUEUE_DEPTH = 8"
definition PQUEUE_INPUT_DEPTH :: nat where "PQUEUE_INPUT_DEPTH = 16"

text \<open>
  What start-up is given: the functions of FreeRTOS, the PIO and I2C, \<open>motor_ma_to_raw\<close> (a division
  of floats), whether \<open>railcom_init\<close> could set its hardware up, whether PIO2 has room and the
  queue of the service mode can be created, whether the flash timer can be allocated and
  flash operations run, the board's ID, the version and the CDI.
\<close>

record ('q, 'p, 'c) main_env =
  me_rtos :: "'q q_api"
  me_queue_create :: "nat \<Rightarrow> 'q"
  me_pio :: "'p pio_sdk"
  me_i2c :: "'c i2c_write"
  me_ma_to_raw :: "u16 \<Rightarrow> u16"
  me_railcom_ok :: bool
  me_pio2_room :: bool
  me_svc_queue :: bool
  me_allocated :: bool
  me_executed :: bool
  me_board_id :: "u8 list"
  me_version :: string
  me_cdi :: "u8 list"

text \<open>
  The variables of the program after start-up. The engine, which holds the packet pool, and the
  service mode's queue are in the station, behind the LCC side.
\<close>

record ('q, 'p, 'c) main_state =
  motor_a :: motor
  motor_b :: motor
  track_main :: track
  track_prog :: track
  main_wavegen :: wavegen
  main_pqueue :: "'q priority_queue"
  main_lcc :: "'q station lcc_system"
  main_display :: display
  main_tasks :: "(main_task \<times> nat) list"
  chip_pio :: 'p
  chip_i2c :: 'c

definition version_bytes :: "string \<Rightarrow> u8 list" where
  "version_bytes s = map of_char s"

text \<open>\<open>None\<close>: the wave generator could not be set up (the program stays in an empty loop) or the SDK panicked.\<close>

definition main_init ::
  "('q, 'p, 'c) main_env \<Rightarrow> wavegen \<Rightarrow> display \<Rightarrow> 'q station \<Rightarrow> 'p \<Rightarrow> 'c \<Rightarrow> ('q, 'p, 'c) main_state option" where
  "main_init E wg d w p c =
     (let config = lcc_interface_load_config (st_config w);
          pl = packet_pool_init;
          wavegen_queue = me_queue_create E WAVEGEN_QUEUE_DEPTH;
          pqueue_input_queue = me_queue_create E PQUEUE_INPUT_DEPTH;
          pins_a = lcc_interface_get_pins_main config;
          limit_main = lcc_interface_main_limit_ma config;
          limit_prog = lcc_interface_prog_limit_ma config;
          a = motor_init (me_ma_to_raw E limit_main);
          b = motor_init (me_ma_to_raw E limit_prog);
          t_main = track_init TRACK_MODE_MAIN a;
          t_prog = track_init TRACK_MODE_PROG b;
          railcom = lcc_interface_railcom_enabled config;
          md = (if railcom then WAVEGEN_NORMAL else WAVEGEN_NO_CUTOUT)
      in case wavegen_init (me_pio E) md (unat (pins_a ! 0)) (unat (pins_a ! 2)) (wg, p) of
           Some (True, wg, p) \<Rightarrow>
             (let pq = pqueue_init pqueue_input_queue wavegen_queue;
                  dcc = dcc_init pqueue_input_queue pl
              in case servicemode_init True (me_pio2_room E) (me_svc_queue E) (st_servicemode w) of
                   (servicemode_ok, svc) \<Rightarrow>
                     (let sy = lcc_interface_init (me_rtos E) (me_board_id E) (version_bytes (me_version E)) (me_cdi E)
                                 (me_allocated E) (me_executed E) (Some dcc) (Some t_main)
                                 (w\<lparr>st_config := config, st_servicemode := svc, st_wave_normal := (wg_mode wg = WAVEGEN_NORMAL)\<rparr>);
                          (sda, scl, addr, enabled) = lcc_interface_get_display config
                      in case display_init (me_i2c E) sda scl addr enabled (Some (me_version E)) (node_id (sys_nodes sy ! 0)) (d, c) of
                           (disp_ok, d, c) \<Rightarrow>
                             Some \<lparr>motor_a = a, motor_b = b, track_main = t_main, track_prog = t_prog, main_wavegen = wg,
                               main_pqueue = pq, main_lcc = sy, main_display = d,
                               main_tasks = create_tasks servicemode_ok (me_railcom_ok E) disp_ok,
                               chip_pio = p, chip_i2c = c\<rparr>))
         | _ \<Rightarrow> None)"

section \<open>The console\<close>

text \<open>One turn of \<open>task_serial\<close>: \<open>getchar_timeout_us\<close> gave a character or timed out (\<open>None\<close>).\<close>

definition task_serial_turn :: "char option \<Rightarrow> lcc_gc_parser \<times> lcc_frame list \<Rightarrow> lcc_gc_parser \<times> lcc_frame list" where
  "task_serial_turn ch s = (case ch of None \<Rightarrow> s | Some ch \<Rightarrow> lcc_if_on_rx_byte ch s)"

section \<open>What start-up establishes\<close>

definition main_engine :: "('q, 'p, 'c) main_state \<Rightarrow> 'q dcc_engine option" where
  "main_engine s = g_dcc_engine (rest_of (main_lcc s))"

lemma lcc_init_rest:
  "rest_of (lcc_interface_init R board_id version cdi allocated executed dcc trk w) =
     snd (lcc_accessory_init (get_unique_node_id board_id) (g_accessory_hooks R) (cs_events R (get_unique_node_id board_id))
       (w\<lparr>g_dcc_engine := dcc, g_track_main := trk, st_config := flash_timer_start (st_config w),
          g_train_slots := replicate LCC_TRAIN_POOL_SIZE None\<rparr>))"
  by (simp add: lcc_interface_init_def Let_def split_beta rest_of_def cs_memconfig_def g_cs_node_def
      lcc_memconfig_set_hooks_def lcc_memconfig_register_spaces_def lcc_memconfig_register_node_spaces_def lcc_node_init_def)

lemma start_path_ok:
  assumes "queue_items R wq = []" and "queue_items R iq = []" and "wg_on wg (view p)"
  shows "path_ok R view wg {} (packet_pool_init, pqueue_init iq wq, p)"
proof -
  have q: "input_queue (pqueue_init iq wq) = iq" "pq_output_queue (pqueue_init iq wq) = wq" by (simp_all add: pqueue_init_def)
  have "pool_short packet_pool_init" by (simp add: pool_short_def packet_pool_init_def zero_packet_def)
  then show ?thesis using assms packet_pool_init_wf
    by (simp add: path_ok_def owns_def held_by_def no_twins_def q)
qed

text \<open>
  C17: Power-on. Whatever configuration the flash holds and whatever is missing of the optional
  parts (RailCom receiver, service mode, display), on a chip with nothing of its own in the two
  PIO blocks start-up ends, with both tracks off; the wave generator runs in the mode the
  configuration asks for; and the engine, the path of the packets, the motors, the configuration,
  the train pool and the LCC side are in the states their theorems start from.
\<close>

theorem main_starts:
  assumes "pio_ok (me_pio E) view" and "empty_block_serves (me_pio E) view"
    and "\<forall>x\<in>loaded (view p). fst x = PIO2" and "\<forall>x\<in>claimed (view p). fst x = PIO2"
    and "\<forall>n. queue_items (me_rtos E) (me_queue_create E n) = []"
    and "length (flash (st_config w)) = FLASH_SECTOR_SIZE" and "\<not> cs_config_dirty (st_config w)"
  shows "\<exists>s dcc. main_init E wg d w p c = Some s \<and> main_engine s = Some dcc \<and>
    engine_start (me_rtos E) dcc \<and> motor_start (motor_a s) \<and> motor_start (motor_b s) \<and>
    \<not> power_out (motor_a s) \<and> \<not> power_out (motor_b s) \<and>
    path_ok (me_rtos E) view (main_wavegen s) {} (packet_pool dcc, main_pqueue s, chip_pio s) \<and>
    settled (cs_config_mem (st_config (rest_of (main_lcc s)))) \<and>
    (wg_mode (main_wavegen s) = WAVEGEN_NORMAL) = lcc_interface_railcom_enabled (st_config (rest_of (main_lcc s))) \<and>
    st_wave_normal (rest_of (main_lcc s)) = (wg_mode (main_wavegen s) = WAVEGEN_NORMAL) \<and>
    station_wired (me_rtos E) (get_unique_node_id (me_board_id E)) (main_lcc s) \<and>
    lcc_started ([], \<lparr>next_tick = t, prev_connected = False\<rparr>, main_lcc s) \<and>
    pool_ok (sys_nodes (main_lcc s), rest_of (main_lcc s))"
proof -
  let ?config = "lcc_interface_load_config (st_config w)" and ?R = "me_rtos E" and ?n = "get_unique_node_id (me_board_id E)"
  let ?iq = "me_queue_create E PQUEUE_INPUT_DEPTH" and ?wq = "me_queue_create E WAVEGEN_QUEUE_DEPTH"
  define md where "md = (if lcc_interface_railcom_enabled ?config then WAVEGEN_NORMAL else WAVEGEN_NO_CUTOUT)"
  define pins where "pins = lcc_interface_get_pins_main ?config"
  obtain wg1 p1 where i: "wavegen_init (me_pio E) md (unat (pins ! 0)) (unat (pins ! 2)) (wg, p) = Some (True, wg1, p1)"
    using init_succeeds [OF assms(1-4)] by blast
  note on = init_on [OF assms(1) i]
  define dcc where "dcc = dcc_init ?iq packet_pool_init"
  obtain svc_ok svc where sm: "servicemode_init True (me_pio2_room E) (me_svc_queue E) (st_servicemode w) = (svc_ok, svc)" by fastforce
  define w1 where "w1 = w\<lparr>st_config := ?config, st_servicemode := svc, st_wave_normal := (wg_mode wg1 = WAVEGEN_NORMAL)\<rparr>"
  define a where "a = motor_init (me_ma_to_raw E (lcc_interface_main_limit_ma ?config))"
  define b where "b = motor_init (me_ma_to_raw E (lcc_interface_prog_limit_ma ?config))"
  define sy where "sy = lcc_interface_init ?R (me_board_id E) (version_bytes (me_version E)) (me_cdi E)
      (me_allocated E) (me_executed E) (Some dcc) (Some (track_init TRACK_MODE_MAIN a)) w1"
  obtain sda scl addr enabled where disp: "lcc_interface_get_display ?config = (sda, scl, addr, enabled)"
    by (rule prod_cases4)
  obtain disp_ok d1 c1 where di: "display_init (me_i2c E) sda scl addr enabled (Some (me_version E)) (node_id (sys_nodes sy ! 0)) (d, c) =
      (disp_ok, d1, c1)" by (rule prod_cases3)
  define s where "s = \<lparr>motor_a = a, motor_b = b, track_main = track_init TRACK_MODE_MAIN a,
      track_prog = track_init TRACK_MODE_PROG b, main_wavegen = wg1, main_pqueue = pqueue_init ?iq ?wq, main_lcc = sy,
      main_display = d1, main_tasks = create_tasks svc_ok (me_railcom_ok E) disp_ok, chip_pio = p1, chip_i2c = c1\<rparr>"
  have init: "main_init E wg d w p c = Some s"
    using i by (simp add: main_init_def Let_def md_def [symmetric] pins_def [symmetric] sm dcc_def [symmetric]
        a_def [symmetric] b_def [symmetric] w1_def [symmetric] sy_def [symmetric] disp di s_def)
  have rest: "g_dcc_engine (rest_of sy) = Some dcc" "st_config (rest_of sy) = flash_timer_start ?config"
    "st_wave_normal (rest_of sy) = (wg_mode wg1 = WAVEGEN_NORMAL)"
    by (simp_all add: sy_def lcc_init_rest lcc_accessory_init_def Let_def w1_def)
  have config: "settled (cs_config_mem (flash_timer_start ?config))"
    "lcc_interface_railcom_enabled (flash_timer_start ?config) = lcc_interface_railcom_enabled ?config"
    using load_gives_settled(1) [OF assms(6,7)]
    by (simp_all add: flash_timer_start_def lcc_interface_railcom_enabled_def cfg_byte_def)
  have engine: "engine_start ?R dcc" using assms(5) by (auto simp: engine_start_def dcc_def)
  have motors: "motor_start a" "motor_start b" "\<not> power_out a" "\<not> power_out b"
    by (auto simp: motor_start_def a_def b_def motor_init_def)
  have path: "path_ok ?R view wg1 {} (packet_pool dcc, pqueue_init ?iq ?wq, p1)"
    using start_path_ok [of ?R ?wq ?iq wg1 view p1] assms(5) on by (simp add: dcc_def dcc_init_def)
  have wired: "station_wired ?R ?n sy" unfolding sy_def by (rule init_wired)
  have started: "lcc_started ([], \<lparr>next_tick = t, prev_connected = False\<rparr>, sy)" 
    using alloc_grows [of ?R "version_bytes (me_version E)"]
    by (auto simp: lcc_started_def sy_def lcc_interface_init_def Let_def split_beta lcc_node_register_def
        lcc_node_registry_reset_def LCC_MAX_NODES_def cs_memconfig_def lcc_memconfig_set_hooks_def
        lcc_memconfig_register_spaces_def g_cs_node_def lcc_memconfig_register_node_spaces_def lcc_node_init_def)
  have pool: "pool_ok (sys_nodes sy, rest_of sy)" unfolding sy_def by (rule init_pool)
  have md: "(wg_mode wg1 = WAVEGEN_NORMAL) = lcc_interface_railcom_enabled ?config" using on by (simp add: md_def)
  show ?thesis
    by (intro exI [of _ s] exI [of _ dcc] conjI)
      (simp_all add: init s_def main_engine_def rest config engine motors path wired started pool md)
qed

definition free_pio :: pio_view where
  "free_pio = \<lparr>loaded = {}, claimed = {}, running = {}, put = (\<lambda>_. [])\<rparr>"

definition sample_env :: "(pkt_ptr list, pio_view, panel) main_env" where
  "sample_env = \<lparr>me_rtos = q8, me_queue_create = (\<lambda>n. []), me_pio = small_pio,
     me_i2c = (\<lambda>i2c addr bytes p. (int (length bytes), panel_write bytes p)), me_ma_to_raw = (\<lambda>ma. ma), me_railcom_ok = True,
     me_pio2_room = True, me_svc_queue = True, me_allocated = True, me_executed = True, me_board_id = board,
     me_version = ''1'', me_cdi = [60, 62, 0]\<rparr>"

theorem main_starts_witness:
  "\<forall>w. \<exists>s dcc. main_init sample_env lit_wavegen dark_display (w\<lparr>st_config := fresh_config\<rparr>) free_pio dark_panel = Some s \<and>
     main_engine s = Some dcc \<and> \<not> power_out (motor_a s) \<and> \<not> power_out (motor_b s) \<and>
     path_ok q8 (\<lambda>v. v) (main_wavegen s) {} (packet_pool dcc, main_pqueue s, chip_pio s)"
proof
  fix w :: "pkt_ptr list station"
  have env: "me_pio sample_env = small_pio" "me_rtos sample_env = q8" "me_queue_create sample_env n = []" for n
    by (simp_all add: sample_env_def)
  have q: "\<forall>n. queue_items (me_rtos sample_env) (me_queue_create sample_env n) = []"
    by (simp add: env q8_def bounded_queue_def)
  have f: "\<forall>x\<in>loaded free_pio. fst x = PIO2" "\<forall>x\<in>claimed free_pio. fst x = PIO2" by (simp_all add: free_pio_def)
  have c: "length (flash (st_config (w\<lparr>st_config := fresh_config\<rparr>))) = FLASH_SECTOR_SIZE"
    "\<not> cs_config_dirty (st_config (w\<lparr>st_config := fresh_config\<rparr>))" by (simp_all add: fresh_config_def)
  have S: "pio_ok (me_pio sample_env) (\<lambda>v. v)" "empty_block_serves (me_pio sample_env) (\<lambda>v. v)"
    using small_pio_ok by (simp_all add: env)
  show "\<exists>s dcc. main_init sample_env lit_wavegen dark_display (w\<lparr>st_config := fresh_config\<rparr>) free_pio dark_panel = Some s \<and>
     main_engine s = Some dcc \<and> \<not> power_out (motor_a s) \<and> \<not> power_out (motor_b s) \<and>
     path_ok q8 (\<lambda>v. v) (main_wavegen s) {} (packet_pool dcc, main_pqueue s, chip_pio s)"
    using main_starts [OF S f q c, of lit_wavegen dark_display dark_panel, unfolded env] by blast
qed

end
