(* ===== verification/Spec2Isabelle.thy ===== *)
theory Spec2Isabelle
  imports Dcc_Safety Wavegen Railcom Motor Servicemode Lcc_Gc Lcc_Accessory Lcc_Config Station_Commands Mcp2515 Display Startup
begin

text \<open>
  A command station for model railways: firmware in C for the RP2350 under FreeRTOS. It drives
  the rails with DCC packets, hears the decoders over RailCom, programs decoders on a second
  track (service mode), and is commanded over LCC (OpenLCB) on USB and on a CAN bus. This
  development models the program's own code under \<^verbatim>\<open>src/src\<close> in executable definitions and
  proves what each part promises and what the parts do together. All paths below are relative to
  \<^verbatim>\<open>src/src\<close>.

  \<^bold>\<open>The parts and how they interact.\<close> FreeRTOS tasks share a pool of 80 packets and pass pointers
  to them through queues: the engine (\<^verbatim>\<open>dcc/dcc.c\<close>) allocates and fills a packet and sends it to
  the priority queue's task (\<^verbatim>\<open>queue/priority_queue.c\<close>), which passes the best one on to the wave
  generator's task (\<^verbatim>\<open>wavegen/wavegen.c\<close>), which encodes it into the PIO's FIFO and frees it. The
  RailCom interrupt (\<^verbatim>\<open>railcom/railcom.c\<close>) collects what decoders answer in a ring that its task
  reads. The track monitor (\<^verbatim>\<open>motor/motor.c\<close>, \<^verbatim>\<open>track/track.c\<close>) switches power in steps that
  other tasks can interrupt. The service mode task (\<^verbatim>\<open>servicemode/\<close>) takes one request at a time
  and answers by a callback. The LCC task (\<^verbatim>\<open>lcc/lcc_task.c\<close>) takes frames from a queue, hands each
  to every node (\<^verbatim>\<open>lcc/lcc_if.c\<close>, \<^verbatim>\<open>lcc/lcc_node.c\<close>: the station's node and up to 23 train nodes),
  whose protocols reach the rest of the program only through the hooks that
  \<^verbatim>\<open>protocol/lcc_interface.c\<close> installs, ticks the alias negotiation and sends what it owes.

  \<^bold>\<open>Which theory models what.\<close>
  \<^item> \<open>Prelude\<close>: the C integer types as words, lemma collections, generic lemmas, and the contract
    of a transition system with an invariant. \<open>Rtos\<close>: the FreeRTOS queue as an argument.
  \<^item> \<open>Packet\<close> (\<^verbatim>\<open>dcc/packet.c\<close>): pool, buffer, checksum, words, every builder. \<open>Functions\<close>
    (\<^verbatim>\<open>dcc/functions.c\<close>): function groups.
  \<^item> \<open>Dcc\<close> (\<^verbatim>\<open>dcc/dcc.c\<close>): the loco table, every command, the reminder loop; \<open>Dcc_Sending\<close>,
    \<open>Dcc_Invariant\<close> and \<open>Dcc_Safety\<close> hold its laws and properties.
  \<^item> \<open>Priority_Queue\<close> (\<^verbatim>\<open>queue/priority_queue.c\<close>) and \<open>Wavegen\<close> (\<^verbatim>\<open>wavegen/wavegen.c\<close>): the heap
    and the two tasks between the engine and the rails.
  \<^item> \<open>Railcom_Decode\<close> (\<^verbatim>\<open>railcom/railcom_decode.c\<close>) and \<open>Railcom\<close> (\<^verbatim>\<open>railcom/railcom.c\<close>,
    \<^verbatim>\<open>railcom/pom_read.c\<close>): the 4-of-8 code, the interrupt's ring, reading a CV on the main track.
  \<^item> \<open>Motor\<close> (\<^verbatim>\<open>motor/motor.c\<close>, \<^verbatim>\<open>track/track.c\<close>): overcurrent and power.
  \<^item> \<open>Svc_Ack\<close>, \<open>Svc_Cv\<close>, \<open>Servicemode\<close> (\<^verbatim>\<open>servicemode/\<close>): acknowledgement pulses, reading and
    writing a CV, the task with its hardware as an argument.
  \<^item> \<open>Lcc_Frame\<close>, \<open>Lcc_Gc\<close>, \<open>Lcc_Node\<close>, \<open>Lcc_Events\<close>, \<open>Lcc_Accessory\<close>, \<open>Lcc_Datagram\<close>,
    \<open>Lcc_Datagram_Rx\<close>, \<open>Lcc_Memconfig\<close>, \<open>Lcc_Traction\<close>, \<open>Lcc_Train_Search\<close>, \<open>Lcc_Alias\<close>: the
    files of \<^verbatim>\<open>lcc/\<close> with those names; \<open>Lcc_If\<close>: \<^verbatim>\<open>lcc/lcc_if.c\<close> and \<^verbatim>\<open>lcc/lcc_task.c\<close>.
  \<^item> \<open>Lcc_Config\<close> and \<open>Lcc_Station\<close>: \<^verbatim>\<open>protocol/lcc_interface.c\<close> (configuration memory and flash,
    with \<^verbatim>\<open>util/nv_storage.c\<close>; and hooks, train pool, programming track, start-up).
  \<^item> \<open>Mcp2515\<close>: the CAN controller's driver and transport (\<^verbatim>\<open>mcp2515/\<close>).
  \<^item> \<open>Lcc_Bus\<close>, \<open>Lcc_Rest\<close>, \<open>Lcc_Pool\<close>, \<open>Station_Safety\<close>, \<open>Station_Commands\<close>: no model of their
    own; what the components do together.
  \<^item> \<open>Display\<close> (\<^verbatim>\<open>display/display.c\<close>): font, framebuffer, status lines, the panel's commands.
  \<^item> \<open>Startup\<close>: \<^verbatim>\<open>main.c\<close> and the console's task of \<^verbatim>\<open>serial/serial.c\<close>, on the parts it starts.

  State is a record with the C structure's members; a pointer to a packet is its index in the
  pool, a pointer to a node its index in the registry, a node reference in a consist its node ID;
  NULL is \<open>None\<close>. Operations take and return the state. A function that ends early or fails does
  so in a branch of its definition, and a write outside an array, where the C code could do one, is
  a result of its own (\<open>None\<close>), which the theorems exclude. Machine integers keep their widths
  where they can wrap.

  \<^bold>\<open>What the lemmas show.\<close> For the rails: packets encode and decode, the heap sorts, each packet
  has one owner from the pool to the PIO and back, an emergency stop keeps every moving packet out
  of the queue, reminders come round once as many packets
  have been taken as the locos and the waiting packets need, and a POM read ends in one callback. For the tracks: power goes off in time and stays off when told
  to, service mode operations end with the track off and answer once, a CV written is read
  back. For the bus: aliases are claimed after silence, one node at
  a time unless one gives up on a busy lock, and no frame leaves under
  another's; GridConnect text and CAN frames arrive as they were sent,
  datagrams too unless a foreign frame takes the one buffer; deferred requests are answered once, and
  a search once unless a later one overwrites it; consists implement a map; configuration written is
  read and survives a restart. Across the program: a speed command on the bus becomes the one DCC
  packet that says so, the Emergency Stop event holds the whole layout whatever else arrives, a
  request for a CV on the programming track is answered with what the decoder has. Start-up
  (\<open>main_starts\<close>) ends in the states these theorems start from, whatever the flash holds.

  \<^bold>\<open>Interfaces.\<close> Contracts are locales, each interpreted on the model: \<open>invariant_system\<close> on the
  engine, the track, the RailCom flags, the alias node, the LCC task and the deferred requests;
  \<open>packet_allocator\<close> on the pool; \<open>max_priority_queue\<close> on the heap; \<open>bounded_fifo\<close> on the RailCom
  ring; \<open>readable_space\<close> and \<open>byte_store\<close> on the configuration and identification memories;
  \<open>address_pool\<close> on the train allocator; \<open>rest_relation\<close> on what the LCC side may do to the engine.

  \<^bold>\<open>Bounds and fuel.\<close> Constants are the code's: 80 packets, a heap of 64, 23 train nodes, consists
  of four, a ring of 16 cutouts, 72 bytes in a datagram. The drain of the
  priority queue takes fuel: one more than the packets waiting is enough (lemma
  \<open>drain_owned\<close>). Loops on hardware are \<open>partial_function (option)\<close>, where \<open>None\<close> is a loop that
  never ends: the service mode loops (they end, \<open>operation_ends_off\<close>), the drain of the CAN
  controller (it ends on a quiet bus, \<open>rx_task_drains\<close>) and the wait for room in the PIO's FIFO (it
  ends while the state machine runs, \<open>wait_returns\<close>). Other loops are structural or have a measure.

  \<^bold>\<open>What is an argument.\<close> Code outside the repository: the FreeRTOS queue (\<open>fifo_queue\<close>), the PIO
  and its SDK (\<open>pio_ok\<close>, \<open>fifo_drains\<close>), the I2C bus and the panel on it (\<open>panel_answers\<close>), the clock, ADC and PIO queue of service mode (\<open>hw_ok\<close>), the
  CAN chip behind SPI (\<open>chip_ok\<close>), the decoder on the programming track (\<open>compliant\<close>), whether
  flash operations succeed, and the bytes of the version, the CDI and the board's ID. Each hypothesis
  is met by a concrete instance in a witness. FreeRTOS mutexes are flags or left out where one task
  holds them over a whole step; steps that other tasks can interrupt are separate events.

  \<^bold>\<open>Not modelled.\<close> The two calls that put bytes on USB and ask whether it is connected; pin numbers in \<^verbatim>\<open>board_config.h\<close>. Also left out: setting up pins, clocks, ADC, UART, SPI and
  interrupts; the programs in the PIO's own assembly (what they read is \<open>pio_stream\<close>); milliamperes as floating point (the
  motor works in ADC units); printing; the watchdog reboot. Where C is undefined (a float that does
  not fit an integer, eight bytes behind a two-byte header) the model says so in the definition's
  text.
\<close>

end
